(* ===== verification/Prelude.thy ===== *)
theory Prelude
  imports Main "HOL-Library.Word"
begin

text \<open>
  Shared vocabulary of the development: the machine integers of the Rust code, the part of the
  Soroban host every contract relies on (the ledger environment, authorisation, events, the
  all-or-nothing transaction), the result type of contract functions with its combinators, and
  the two interfaces every contract is an instance of (\<open>contract_machine\<close>,
  \<open>admin_gated\<close>).
\<close>

subsection \<open>Proof collections\<close>

named_theorems res_simps \<open>inversion of the result combinators: when a contract function succeeds\<close>
named_theorems word_conv \<open>comparisons of machine integers read as natural numbers\<close>

subsection \<open>Machine integers\<close>

type_synonym u8 = "8 word"
type_synonym u32 = "32 word"
type_synonym u64 = "64 word"
type_synonym i64 = "64 word"
type_synonym i128 = "128 word"

text \<open>Rust's \<open>checked_add\<close> on an unsigned type: \<open>None\<close> on overflow.\<close>

definition checked_add :: "'a::len word \<Rightarrow> 'a word \<Rightarrow> 'a word option" where
  "checked_add a b = (if unat a + unat b < 2 ^ LENGTH('a) then Some (a + b) else None)"

definition saturating_add :: "'a::len word \<Rightarrow> 'a word \<Rightarrow> 'a word" where
  "saturating_add a b = (if unat a + unat b < 2 ^ LENGTH('a) then a + b else - 1)"

definition saturating_sub :: "'a::len word \<Rightarrow> 'a word \<Rightarrow> 'a word" where
  "saturating_sub a b = (if a < b then 0 else a - b)"

definition saturating_mul :: "'a::len word \<Rightarrow> 'a word \<Rightarrow> 'a word" where
  "saturating_mul a b = (if unat a * unat b < 2 ^ LENGTH('a) then a * b else - 1)"

lemma checked_add_Some_iff:
  "checked_add a b = Some (c :: 'a::len word) \<longleftrightarrow> unat c = unat a + unat b"
proof
  assume "checked_add a b = Some c"
  then show "unat c = unat a + unat b"
    by (auto simp: checked_add_def unat_word_ariths split: if_splits)
next
  assume c: "unat c = unat a + unat b"
  then have "unat a + unat b < 2 ^ LENGTH('a)" by (metis unsigned_less)
  with c show "checked_add a b = Some c"
    by (simp add: checked_add_def word_unat_eq_iff unat_word_ariths)
qed

lemma checked_add_None_iff:
  "checked_add a b = (None :: 'a::len word option) \<longleftrightarrow> 2 ^ LENGTH('a) \<le> unat a + unat b"
  by (auto simp: checked_add_def)

lemma unat_saturating_add:
  "unat (saturating_add a b :: 'a::len word) = min (unat a + unat b) (2 ^ LENGTH('a) - 1)"
  by (auto simp: saturating_add_def unat_word_ariths unsigned_minus_1_eq_mask mask_eq_exp_minus_1)

lemma unat_saturating_mul:
  "unat (saturating_mul a b :: 'a::len word) = min (unat a * unat b) (2 ^ LENGTH('a) - 1)"
  by (auto simp: saturating_mul_def unat_word_ariths unsigned_minus_1_eq_mask mask_eq_exp_minus_1)

lemma unat_saturating_sub:
  "unat (saturating_sub a b :: 'a::len word) = unat a - unat b"
  by (auto simp: saturating_sub_def word_less_nat_alt unat_sub_if_size word_le_nat_alt)

lemmas word_to_nat [word_conv] = word_less_nat_alt word_le_nat_alt

text \<open>
  Signed 128-bit arithmetic: the Rust operators \<open>checked_mul\<close>, \<open>checked_add\<close>,
  \<open>checked_sub\<close> and \<open>checked_div\<close> on \<open>i128\<close>, and the conversion
  \<open>as i128\<close> of an unsigned value. Division truncates towards zero.
\<close>

definition in_i128 :: "int \<Rightarrow> bool" where
  "in_i128 z \<longleftrightarrow> - (2 ^ 127) \<le> z \<and> z < 2 ^ 127"

definition i128_of :: "int \<Rightarrow> i128 option" where
  "i128_of z = (if in_i128 z then Some (word_of_int z) else None)"

definition checked_mul_i128 :: "i128 \<Rightarrow> i128 \<Rightarrow> i128 option" where
  "checked_mul_i128 a b = i128_of (sint a * sint b)"

definition checked_add_i128 :: "i128 \<Rightarrow> i128 \<Rightarrow> i128 option" where
  "checked_add_i128 a b = i128_of (sint a + sint b)"

definition checked_sub_i128 :: "i128 \<Rightarrow> i128 \<Rightarrow> i128 option" where
  "checked_sub_i128 a b = i128_of (sint a - sint b)"

definition trunc_div :: "int \<Rightarrow> int \<Rightarrow> int" where
  "trunc_div a b = sgn a * sgn b * (\<bar>a\<bar> div \<bar>b\<bar>)"

definition checked_div_i128 :: "i128 \<Rightarrow> i128 \<Rightarrow> i128 option" where
  "checked_div_i128 a b = (if b = 0 then None else i128_of (trunc_div (sint a) (sint b)))"

lemma sint_word_of_int_i128: "in_i128 z \<Longrightarrow> sint (word_of_int z :: i128) = z"
  by (simp add: in_i128_def sint_sbintrunc' signed_take_bit_int_eq_self)

lemma in_i128_sint [simp]: "in_i128 (sint (x :: i128))"
  using sint_greater_eq [of x] sint_lt [of x] by (simp add: in_i128_def)

lemma i128_of_Some_iff: "i128_of z = Some x \<longleftrightarrow> sint x = z"
proof
  assume "i128_of z = Some x"
  then show "sint x = z"
    by (auto simp: i128_of_def sint_word_of_int_i128 split: if_splits)
next
  assume "sint x = z"
  then show "i128_of z = Some x"
    using in_i128_sint [of x] by (auto simp: i128_of_def)
qed

lemma i128_of_None_iff: "i128_of z = None \<longleftrightarrow> \<not> in_i128 z"
  by (simp add: i128_of_def)

text \<open>The operators \<open>+\<close>, \<open>-\<close>, \<open>*\<close> and \<open>/\<close> on \<open>i64\<close>; \<open>None\<close> is the overflow trap.\<close>

definition in_i64 :: "int \<Rightarrow> bool" where
  "in_i64 z \<longleftrightarrow> - (2 ^ 63) \<le> z \<and> z < 2 ^ 63"

definition i64_of :: "int \<Rightarrow> i64 option" where
  "i64_of z = (if in_i64 z then Some (word_of_int z) else None)"

definition checked_mul_i64 :: "i64 \<Rightarrow> i64 \<Rightarrow> i64 option" where
  "checked_mul_i64 a b = i64_of (sint a * sint b)"

definition checked_add_i64 :: "i64 \<Rightarrow> i64 \<Rightarrow> i64 option" where
  "checked_add_i64 a b = i64_of (sint a + sint b)"

definition checked_sub_i64 :: "i64 \<Rightarrow> i64 \<Rightarrow> i64 option" where
  "checked_sub_i64 a b = i64_of (sint a - sint b)"

definition checked_div_i64 :: "i64 \<Rightarrow> i64 \<Rightarrow> i64 option" where
  "checked_div_i64 a b = (if b = 0 then None else i64_of (trunc_div (sint a) (sint b)))"

lemma sint_word_of_int_i64: "in_i64 z \<Longrightarrow> sint (word_of_int z :: i64) = z"
  by (simp add: in_i64_def sint_sbintrunc' signed_take_bit_int_eq_self)

lemma in_i64_sint [simp]: "in_i64 (sint (x :: i64))"
  using sint_greater_eq [of x] sint_lt [of x] by (simp add: in_i64_def)

lemma i64_of_Some_iff: "i64_of z = Some x \<longleftrightarrow> sint x = z"
proof
  assume "i64_of z = Some x"
  then show "sint x = z"
    by (auto simp: i64_of_def sint_word_of_int_i64 split: if_splits)
next
  assume "sint x = z"
  then show "i64_of z = Some x"
    using in_i64_sint [of x] by (auto simp: i64_of_def)
qed

lemma i64_of_exists: "in_i64 z \<Longrightarrow> \<exists>x. i64_of z = Some x \<and> sint x = z"
  by (simp add: i64_of_def sint_word_of_int_i64)

subsection \<open>The host: addresses, values, events, the ledger environment\<close>

text \<open>
  An \<open>Address\<close> is an opaque identifier of an account or contract, compared by equality and
  ordered when it is the key of a host \<open>Map\<close>. \<open>Symbol\<close> and \<open>String\<close> are
  byte strings.
\<close>

datatype address = Address nat

instantiation address :: linorder
begin

definition less_eq_address :: "address \<Rightarrow> address \<Rightarrow> bool" where
  "less_eq_address a b = (case (a, b) of (Address m, Address n) \<Rightarrow> m \<le> n)"

definition less_address :: "address \<Rightarrow> address \<Rightarrow> bool" where
  "less_address a b = (case (a, b) of (Address m, Address n) \<Rightarrow> m < n)"

instance
  by standard (auto simp: less_eq_address_def less_address_def split: address.splits)

end

text \<open>
  A host \<open>Map\<close>: its entries in ascending order of the keys, the order in which it is
  iterated.
\<close>

type_synonym ('k, 'v) hmap = "('k \<times> 'v) list"

fun hmap_set :: "'k::linorder \<Rightarrow> 'v \<Rightarrow> ('k, 'v) hmap \<Rightarrow> ('k, 'v) hmap" where
  "hmap_set k v [] = [(k, v)]"
| "hmap_set k v ((k', v') # m) =
     (if k < k' then (k, v) # (k', v') # m
      else if k = k' then (k, v) # m else (k', v') # hmap_set k v m)"

definition hmap_remove :: "'k \<Rightarrow> ('k, 'v) hmap \<Rightarrow> ('k, 'v) hmap" where
  "hmap_remove k m = filter (\<lambda>(k', _). k' \<noteq> k) m"

definition hmap_ok :: "('k::linorder, 'v) hmap \<Rightarrow> bool" where
  "hmap_ok m \<longleftrightarrow> sorted_wrt (<) (map fst m)"

lemma hmap_get_set [simp]: "map_of (hmap_set k v m) = (map_of m)(k \<mapsto> v)"
  by (induction k v m rule: hmap_set.induct) auto

lemma hmap_get_remove [simp]: "map_of (hmap_remove k m) = (map_of m)(k := None)"
  by (induction m) (auto simp: hmap_remove_def)

lemma hmap_set_keys: "set (map fst (hmap_set k v m)) = insert k (set (map fst m))"
  by (induction k v m rule: hmap_set.induct) auto

lemma hmap_ok_empty [simp]: "hmap_ok []"
  by (simp add: hmap_ok_def)

lemma hmap_ok_set [simp]: "hmap_ok m \<Longrightarrow> hmap_ok (hmap_set k v m)"
proof (induction k v m rule: hmap_set.induct)
  case (2 k v k' v' m)
  then show ?case using hmap_set_keys [of k v m] by (auto simp: hmap_ok_def)
qed (simp add: hmap_ok_def)

lemma hmap_ok_filter [simp]: "hmap_ok m \<Longrightarrow> hmap_ok (filter P m)"
  by (induction m) (auto simp: hmap_ok_def)

lemma hmap_ok_remove [simp]: "hmap_ok m \<Longrightarrow> hmap_ok (hmap_remove k m)"
  by (simp add: hmap_remove_def)

type_synonym symbol = string
type_synonym bytes = "u8 list"

text \<open>The payload of an event, as the tuples the contracts publish.\<close>

datatype val = VAddr address | VStr string | VBytes bytes | VBool bool
  | VU32 u32 | VU64 u64 | VI64 i64 | VI128 i128 | VOpt "val option" | VTuple "val list"

type_synonym event = "symbol \<times> val"

text \<open>
  What one transaction sees of the ledger: its timestamp, its sequence number and which
  addresses have authorised the call.
\<close>

record env =
  timestamp :: u64
  sequence :: u32
  auth :: "address \<Rightarrow> bool"

text \<open>
  The part of instance storage every contract has: the address stored under
  \<open>DataKey::Admin\<close> (\<open>SuperAdmin\<close> in router-access) and the events published.
\<close>

record contract =
  admin_key :: "address option"
  events :: "event list"

definition publish :: "symbol \<Rightarrow> val \<Rightarrow> 'z contract_scheme \<Rightarrow> 'z contract_scheme" where
  "publish topic data s = s\<lparr>events := events s @ [(topic, data)]\<rparr>"

lemma publish_admin [simp]: "admin_key (publish t d s) = admin_key s"
  by (simp add: publish_def)

lemma publish_events [simp]: "events (publish t d s) = events s @ [(t, d)]"
  by (simp add: publish_def)

lemma publish_more [simp]: "contract.more (publish t d s) = contract.more s"
  by (simp add: publish_def)

subsection \<open>Results: contract errors and traps\<close>

text \<open>
  A call ends with a value, with an error of the contract's error enum, or with a host trap
  (a failed \<open>require_auth\<close>, a failed \<open>expect\<close>, an arithmetic overflow under
  \<open>overflow-checks\<close>). In the last two cases the host discards every write of the
  invocation, so an entry point is a function into \<open>'e fault + 'a \<times> 's\<close> with no state on
  the left.
\<close>

datatype 'e fault = Trap | Err 'e

type_synonym ('e, 'a) res = "'e fault + 'a"
type_synonym ('e, 'a, 's) tx = "'e fault + ('a \<times> 's)"

primrec bindr :: "'e + 'a \<Rightarrow> ('a \<Rightarrow> 'e + 'b) \<Rightarrow> 'e + 'b" where
  "bindr (Inl e) f = Inl e"
| "bindr (Inr x) f = f x"

definition reject_if :: "bool \<Rightarrow> 'e \<Rightarrow> ('e, unit) res" where
  "reject_if c e = (if c then Inl (Err e) else Inr ())"

definition trap_unless :: "bool \<Rightarrow> ('e, unit) res" where
  "trap_unless c = (if c then Inr () else Inl Trap)"

definition ok_or :: "'a option \<Rightarrow> 'e \<Rightarrow> ('e, 'a) res" where
  "ok_or x e = (case x of None \<Rightarrow> Inl (Err e) | Some v \<Rightarrow> Inr v)"

definition expect :: "'a option \<Rightarrow> ('e, 'a) res" where
  "expect x = (case x of None \<Rightarrow> Inl Trap | Some v \<Rightarrow> Inr v)"

primrec unwrap_or :: "'a option \<Rightarrow> 'a \<Rightarrow> 'a" where
  "unwrap_or None d = d"
| "unwrap_or (Some x) d = x"

lemma bindr_Inr_iff [res_simps]: "bindr m f = Inr y \<longleftrightarrow> (\<exists>x. m = Inr x \<and> f x = Inr y)"
  by (cases m) auto

lemma reject_if_Inr_iff [res_simps]: "reject_if c e = Inr u \<longleftrightarrow> \<not> c"
  by (simp add: reject_if_def)

lemma trap_unless_Inr_iff [res_simps]: "trap_unless c = Inr u \<longleftrightarrow> c"
  by (simp add: trap_unless_def)

lemma ok_or_Inr_iff [res_simps]: "ok_or x e = Inr v \<longleftrightarrow> x = Some v"
  by (simp add: ok_or_def split: option.splits)

lemma expect_Inr_iff [res_simps]: "expect x = Inr v \<longleftrightarrow> x = Some v"
  by (simp add: expect_def split: option.splits)

lemma bindr_simps [simp]:
  "reject_if False e = Inr ()" "reject_if True e = Inl (Err e)"
  "trap_unless True = Inr ()" "trap_unless False = Inl Trap"
  "ok_or (Some v) e = Inr v" "ok_or None e = Inl (Err e)"
  "expect (Some v) = Inr v" "expect None = Inl Trap"
  by (simp_all add: reject_if_def trap_unless_def ok_or_def expect_def)

lemma bindr_cong [fundef_cong]:
  "m = m' \<Longrightarrow> (\<And>x. m' = Inr x \<Longrightarrow> f x = g x) \<Longrightarrow> bindr m f = bindr m' g"
  by (cases m') auto

text \<open>\<open>for x in xs { f(x)?; }\<close>: stops at the first error.\<close>

fun for_each :: "('a \<Rightarrow> 'e + unit) \<Rightarrow> 'a list \<Rightarrow> 'e + unit" where
  "for_each f [] = Inr ()"
| "for_each f (x # xs) = bindr (f x) (\<lambda>_. for_each f xs)"

lemma for_each_Inr_iff [res_simps]: "for_each f xs = Inr u \<longleftrightarrow> (\<forall>x\<in>set xs. f x = Inr ())"
  by (induction xs) (auto simp: res_simps)

lemma for_each_cong [fundef_cong]:
  "xs = ys \<Longrightarrow> (\<And>x. x \<in> set ys \<Longrightarrow> f x = g x) \<Longrightarrow> for_each f xs = for_each g ys"
  by (induction ys arbitrary: xs) auto

text \<open>\<open>for x in xs { f(x, &mut state)?; }\<close>: the state is threaded, the first error ends it.\<close>

fun fold_each :: "('a \<Rightarrow> 's \<Rightarrow> 'e + 's) \<Rightarrow> 'a list \<Rightarrow> 's \<Rightarrow> 'e + 's" where
  "fold_each f [] s = Inr s"
| "fold_each f (x # xs) s = bindr (f x s) (fold_each f xs)"

lemma fold_each_cong [fundef_cong]:
  "xs = ys \<Longrightarrow> s = t \<Longrightarrow> (\<And>x a. x \<in> set ys \<Longrightarrow> f x a = g x a) \<Longrightarrow> fold_each f xs s = fold_each g ys t"
proof (induction ys arbitrary: xs s t)
  case (Cons y ys)
  have "fold_each f ys a = fold_each g ys a" for a
    by (rule Cons.IH) (auto intro: Cons.prems(3))
  then have "fold_each f ys = fold_each g ys" by (rule ext)
  with Cons.prems show ?case by simp
qed simp

lemma fold_each_invar:
  assumes "\<And>x s s'. x \<in> set xs \<Longrightarrow> P s \<Longrightarrow> f x s = Inr s' \<Longrightarrow> P s'" and "P s"
    and "fold_each f xs s = Inr s'"
  shows "P s'"
  using assms
proof (induction xs arbitrary: s)
  case (Cons x xs)
  from Cons.prems(3) obtain s1 where s1: "f x s = Inr s1" "fold_each f xs s1 = Inr s'"
    by (auto simp: res_simps)
  have "P s1" by (rule Cons.prems(1) [OF _ Cons.prems(2) s1(1)]) simp
  with s1(2) Cons.prems(1) show ?case by (intro Cons.IH [of s1]) auto
qed simp

subsection \<open>Authorisation and the transaction loop\<close>

definition require_auth :: "env \<Rightarrow> address \<Rightarrow> ('e, unit) res" where
  "require_auth env a = trap_unless (auth env a)"

lemma require_auth_Inr_iff [res_simps]: "require_auth env a = Inr u \<longleftrightarrow> auth env a"
  by (simp add: require_auth_def res_simps)

lemma require_auth_cases [simp]:
  "auth env a \<Longrightarrow> require_auth env a = Inr ()"
  "\<not> auth env a \<Longrightarrow> require_auth env a = Inl Trap"
  by (simp_all add: require_auth_def)

text \<open>The state a successful call leaves, its return value dropped.\<close>

definition returns :: "('e, 'a, 's) tx \<Rightarrow> ('e, 's) res" where
  "returns r = map_sum id snd r"

lemma returns_Inr_iff [res_simps]: "returns r = Inr s \<longleftrightarrow> (\<exists>x. r = Inr (x, s))"
  by (cases r) (auto simp: returns_def)

text \<open>
  A contract's life: transactions one after the other, each with its own environment. A failed
  transaction leaves the state as it was.
\<close>

fun run_txs :: "(env \<Rightarrow> 'c \<Rightarrow> 's \<Rightarrow> ('e, 's) res) \<Rightarrow> 's \<Rightarrow> (env \<times> 'c) list \<Rightarrow> 's" where
  "run_txs step s [] = s"
| "run_txs step s ((env, c) # txs) =
     (case step env c s of Inl _ \<Rightarrow> run_txs step s txs | Inr s' \<Rightarrow> run_txs step s' txs)"

lemma run_txs_append: "run_txs step s (xs @ ys) = run_txs step (run_txs step s xs) ys"
  by (induction step s xs rule: run_txs.induct) (auto split: sum.splits)

inductive reachable :: "(env \<Rightarrow> 'c \<Rightarrow> 's \<Rightarrow> ('e, 's) res) \<Rightarrow> 's \<Rightarrow> 's \<Rightarrow> bool" for step init where
  start: "reachable step init init"
| tx: "reachable step init s \<Longrightarrow> step env c s = Inr s' \<Longrightarrow> reachable step init s'"

lemma run_txs_reachable: "reachable step init s \<Longrightarrow> reachable step init (run_txs step s txs)"
  by (induction step s txs rule: run_txs.induct) (auto split: sum.splits intro: reachable.tx)

lemma reachable_run_txs: "reachable step init s \<Longrightarrow> \<exists>txs. s = run_txs step init txs"
proof (induction rule: reachable.induct)
  case start
  have "init = run_txs step init []" by simp
  then show ?case by blast
next
  case (tx s env c s')
  then obtain txs where "s = run_txs step init txs" by blast
  with tx.hyps(2) have "s' = run_txs step init (txs @ [(env, c)])"
    by (simp add: run_txs_append)
  then show ?case by blast
qed

subsection \<open>The interfaces of a contract\<close>

text \<open>
  A contract with an invariant: it holds of the state at deployment and every successful
  transaction keeps it, whoever sends it.
\<close>

locale contract_machine =
  fixes step :: "env \<Rightarrow> 'c \<Rightarrow> 's \<Rightarrow> ('e, 's) res"
    and init :: 's
    and invar :: "'s \<Rightarrow> bool"
  assumes invar_init: "invar init"
    and invar_step: "invar s \<Longrightarrow> step env c s = Inr s' \<Longrightarrow> invar s'"
begin

lemma invar_reachable: "reachable step init s \<Longrightarrow> invar s"
  by (induction rule: reachable.induct) (auto intro: invar_init invar_step)

lemma invar_run_from: "invar s \<Longrightarrow> invar (run_txs step s txs)"
proof (induction txs arbitrary: s)
  case (Cons tx txs)
  obtain env c where tx: "tx = (env, c)" by force
  show ?case
  proof (cases "step env c s")
    case (Inr s')
    with Cons.prems have "invar s'" by (rule invar_step)
    with Inr tx show ?thesis by (simp add: Cons.IH)
  qed (simp add: tx Cons)
qed simp

lemma invar_run: "invar (run_txs step init txs)"
  by (rule invar_run_from [OF invar_init])

end

text \<open>
  A contract whose privileged calls name their caller (\<open>gated c = Some a\<close>): they succeed only
  when that caller is the stored admin and has signed, and every other call keeps the admin, once
  one is set, and changes the state only within the preorder \<open>frame\<close>.
\<close>

locale admin_gated = contract_machine step init invar
  for step :: "env \<Rightarrow> 'c \<Rightarrow> 's \<Rightarrow> ('e, 's) res"
    and init :: 's
    and invar :: "'s \<Rightarrow> bool" +
  fixes admin_of :: "'s \<Rightarrow> address option"
    and gated :: "'c \<Rightarrow> address option"
    and frame :: "'s \<Rightarrow> 's \<Rightarrow> bool"
  assumes gated_auth:
      "step env c s = Inr s' \<Longrightarrow> gated c = Some a \<Longrightarrow> auth env a \<and> admin_of s = Some a"
    and open_frame:
      "invar s \<Longrightarrow> step env c s = Inr s' \<Longrightarrow> gated c = None \<Longrightarrow> admin_of s = Some a \<Longrightarrow>
         admin_of s' = Some a \<and> frame s s'"
    and frame_refl: "frame s s"
    and frame_trans: "frame s s' \<Longrightarrow> frame s' s'' \<Longrightarrow> frame s s''"
begin

lemma unsigned_step:
  assumes "invar s" and "step env c s = Inr s'" and "admin_of s = Some a" and "\<not> auth env a"
  shows "admin_of s' = Some a \<and> frame s s'"
proof (cases "gated c")
  case None
  then show ?thesis using open_frame assms by blast
next
  case (Some b)
  with gated_auth [OF assms(2)] assms(3,4) show ?thesis by auto
qed

lemma unsigned_run:
  assumes "invar s" and "admin_of s = Some a" and "\<forall>(env, c)\<in>set txs. \<not> auth env a"
  shows "admin_of (run_txs step s txs) = Some a \<and> frame s (run_txs step s txs)"
  using assms
proof (induction txs arbitrary: s)
  case (Cons tx txs)
  obtain env c where tx: "tx = (env, c)" by force
  show ?case
  proof (cases "step env c s")
    case (Inl e)
    with Cons tx show ?thesis by simp
  next
    case (Inr s')
    with unsigned_step [OF _ Inr] Cons.prems tx
    have "admin_of s' = Some a" "frame s s'" by simp_all
    moreover have "invar s'" using Cons.prems(1) Inr by (rule invar_step)
    ultimately show ?thesis using Cons.IH [of s'] Cons.prems Inr tx by (auto intro: frame_trans)
  qed
qed (simp add: frame_refl)

end

end
