(* ===== verification/Common.thy ===== *)
theory Common
  imports Prelude "HOL-Library.Multiset"
begin

text \<open>
  The crate router-common (\<open>contracts/router-common/src/lib.rs\<close>): the admin check and the
  admin transfer every contract expands from a macro, and the per-index result type of the batch
  operations.
\<close>

subsection \<open>Admin macros\<close>

text \<open>\<open>require_admin!\<close>: the two error variants are arguments, as in the macro.\<close>

definition require_admin :: "address \<Rightarrow> 'e \<Rightarrow> 'e \<Rightarrow> 'z contract_scheme \<Rightarrow> ('e, unit) res" where
  "require_admin caller not_init unauth s =
     bindr (ok_or (admin_key s) not_init) (\<lambda>admin. reject_if (admin \<noteq> caller) unauth)"

text \<open>\<open>admin_transfer_complete!\<close>: stores the new admin, then publishes the event.\<close>

definition admin_transfer_complete ::
    "address \<Rightarrow> address \<Rightarrow> 'z contract_scheme \<Rightarrow> 'z contract_scheme" where
  "admin_transfer_complete current new_admin s =
     publish ''admin_transferred'' (VTuple [VAddr current, VAddr new_admin])
       (s\<lparr>admin_key := Some new_admin\<rparr>)"

lemma require_admin_Inr_iff [res_simps]:
  "require_admin c n u s = Inr x \<longleftrightarrow> admin_key s = Some c"
  by (auto simp: require_admin_def res_simps)

lemma require_admin_None [simp]: "admin_key s = None \<Longrightarrow> require_admin c n u s = Inl (Err n)"
  by (simp add: require_admin_def)

lemma require_admin_Some [simp]:
  "admin_key s = Some a \<Longrightarrow> require_admin c n u s = (if a = c then Inr () else Inl (Err u))"
  by (auto simp: require_admin_def)

lemma admin_transfer_complete_sel [simp]:
  "admin_key (admin_transfer_complete c n s) = Some n"
  "contract.more (admin_transfer_complete c n s) = contract.more s"
  by (simp_all add: admin_transfer_complete_def)

subsection \<open>Batch results\<close>

datatype batch_item_error = AlreadyExists | InvalidName | Unauthorized | InvalidMetadata
  | Custom string

record batch_failure =
  bf_index :: u32
  bf_error :: batch_item_error

text \<open>A \<open>BatchSuccess\<close> holds its index only, so the successes are the list of indices.\<close>

record batch_result =
  successes :: "u32 list"
  failures :: "batch_failure list"

definition batch_new :: batch_result where
  "batch_new = \<lparr>successes = [], failures = []\<rparr>"

definition record_success :: "u32 \<Rightarrow> batch_result \<Rightarrow> batch_result" where
  "record_success i r = r\<lparr>successes := successes r @ [i]\<rparr>"

definition record_failure :: "u32 \<Rightarrow> batch_item_error \<Rightarrow> batch_result \<Rightarrow> batch_result" where
  "record_failure i e r = r\<lparr>failures := failures r @ [\<lparr>bf_index = i, bf_error = e\<rparr>]\<rparr>"

definition has_failures :: "batch_result \<Rightarrow> bool" where
  "has_failures r \<longleftrightarrow> failures r \<noteq> []"

text \<open>
  A cross-contract call, \<open>try_invoke_contract\<close>: what it does to the ledger (the rest of the world
  and the storage of the calling contract) and whether it succeeds is a parameter of the contracts
  that make such calls.
\<close>

type_synonym ('w, 's) ledger_of = "'w \<times> 's"

type_synonym ('w, 's) invoke_of =
  "address \<Rightarrow> symbol \<Rightarrow> val list \<Rightarrow> ('w, 's) ledger_of \<Rightarrow> bool \<times> ('w, 's) ledger_of"

text \<open>
  A host that forbids calling back into a running contract: callees change the rest of the world
  only.
\<close>

definition sealed ::
    "(address \<Rightarrow> symbol \<Rightarrow> val list \<Rightarrow> 'w \<Rightarrow> bool \<times> 'w) \<Rightarrow> ('w, 's) invoke_of" where
  "sealed f t fn args l = (case l of (w, s) \<Rightarrow> case f t fn args w of (b, w') \<Rightarrow> (b, (w', s)))"

lemma sealed_keeps: "sealed f t fn args (w, s) = (b, (w', s')) \<Longrightarrow> s' = s"
  by (simp add: sealed_def split: prod.splits)

text \<open>The variant for calls, whose successes carry the result of the call.\<close>

record call_result =
  cr_target :: address
  cr_function :: symbol
  cr_success :: bool

record batch_call_success =
  bs_index :: u32
  bs_result :: call_result

record batch_call_result =
  call_successes :: "batch_call_success list"
  call_failures :: "batch_failure list"

definition batch_call_new :: batch_call_result where
  "batch_call_new = \<lparr>call_successes = [], call_failures = []\<rparr>"

definition record_call_success :: "u32 \<Rightarrow> call_result \<Rightarrow> batch_call_result \<Rightarrow> batch_call_result" where
  "record_call_success i v r =
     r\<lparr>call_successes := call_successes r @ [\<lparr>bs_index = i, bs_result = v\<rparr>]\<rparr>"

definition record_call_failure ::
    "u32 \<Rightarrow> batch_item_error \<Rightarrow> batch_call_result \<Rightarrow> batch_call_result" where
  "record_call_failure i e r =
     r\<lparr>call_failures := call_failures r @ [\<lparr>bf_index = i, bf_error = e\<rparr>]\<rparr>"

definition call_has_failures :: "batch_call_result \<Rightarrow> bool" where
  "call_has_failures r \<longleftrightarrow> call_failures r \<noteq> []"

definition FAILURE_REASON_BUDGET_EXCEEDED :: string where
  "FAILURE_REASON_BUDGET_EXCEEDED = ''budget_exceeded''"

definition FAILURE_REASON_INVOKE_FAILED :: string where
  "FAILURE_REASON_INVOKE_FAILED = ''invoke_failed''"

lemma record_success_sel [simp]:
  "successes (record_success i r) = successes r @ [i]"
  "failures (record_success i r) = failures r"
  by (simp_all add: record_success_def)

lemma record_failure_sel [simp]:
  "successes (record_failure i e r) = successes r"
  "failures (record_failure i e r) = failures r @ [\<lparr>bf_index = i, bf_error = e\<rparr>]"
  by (simp_all add: record_failure_def)

lemma batch_new_sel [simp]: "successes batch_new = []" "failures batch_new = []"
  by (simp_all add: batch_new_def)

text \<open>
  The batch loop of the code: item \<open>i\<close> is attempted on the state the earlier items left, a
  failed item is recorded and leaves the state alone, and with \<open>fail_fast\<close> the first failure
  ends the loop. \<open>err\<close> is the contract's mapping of its errors to batch errors. A trap is not
  an error value of the code: it ends the transaction.
\<close>

fun batch_loop ::
    "('a \<Rightarrow> 's \<Rightarrow> ('e, 's) res) \<Rightarrow> ('e \<Rightarrow> batch_item_error) \<Rightarrow> bool \<Rightarrow> nat \<Rightarrow> 'a list
      \<Rightarrow> 's \<Rightarrow> batch_result \<Rightarrow> ('e, batch_result \<times> 's) res" where
  "batch_loop f err fail_fast i [] s r = Inr (r, s)"
| "batch_loop f err fail_fast i (x # xs) s r =
     (case f x s of
        Inr s' \<Rightarrow> batch_loop f err fail_fast (Suc i) xs s' (record_success (of_nat i) r)
      | Inl Trap \<Rightarrow> Inl Trap
      | Inl (Err e) \<Rightarrow>
          (let r' = record_failure (of_nat i) (err e) r
           in if fail_fast then Inr (r', s) else batch_loop f err fail_fast (Suc i) xs s r'))"

text \<open>The loop after a validation of the whole batch: any error ends the call.\<close>

fun batch_all ::
    "('a \<Rightarrow> 's \<Rightarrow> ('e, 's) res) \<Rightarrow> nat \<Rightarrow> 'a list \<Rightarrow> 's \<Rightarrow> batch_result \<Rightarrow> ('e, batch_result \<times> 's) res" where
  "batch_all f i [] s r = Inr (r, s)"
| "batch_all f i (x # xs) s r =
     bindr (f x s) (\<lambda>s'. batch_all f (Suc i) xs s' (record_success (of_nat i) r))"

lemma batch_all_fold:
  "batch_all f i xs s r = bindr (fold_each f xs s)
     (\<lambda>s'. Inr (r\<lparr>successes := successes r @ map of_nat [i..<i + length xs]\<rparr>, s'))"
proof (induction xs arbitrary: i s r)
  case (Cons x xs)
  have upt: "[i..<i + length (x # xs)] = i # [Suc i..<Suc i + length xs]"
    by (subst upt_rec) simp
  show ?case
  proof (cases "f x s")
    case (Inr s1)
    then show ?thesis unfolding upt by (simp add: Cons.IH record_success_def)
  qed simp
qed simp

lemma batch_loop_invar:
  assumes "\<And>x s s'. P s \<Longrightarrow> f x s = Inr s' \<Longrightarrow> P s'" and "P s"
    and "batch_loop f err ff i xs s r = Inr (r', s')"
  shows "P s'"
  using assms(2,3)
proof (induction xs arbitrary: i s r)
  case (Cons x xs)
  show ?case
  proof (cases "f x s")
    case (Inl e)
    with Cons show ?thesis by (auto simp: Let_def split: fault.splits if_splits)
  next
    case (Inr s1)
    with Cons.prems(1) have "P s1" by (rule assms(1))
    with Cons Inr show ?thesis by simp
  qed
qed simp

text \<open>The frame version: a reflexive and transitive relation kept by each item.\<close>

lemma batch_loop_rel:
  assumes "\<And>x s s'. f x s = Inr s' \<Longrightarrow> R s s'" and "\<And>s. R s s"
    and "\<And>a b c. R a b \<Longrightarrow> R b c \<Longrightarrow> R a c"
    and "batch_loop f err ff i xs s r = Inr (r', s')"
  shows "R s s'"
  by (rule batch_loop_invar [where P = "R s" and f = f, OF _ _ assms(4)]) (blast intro: assms)+

text \<open>If no item traps, the loop returns.\<close>

lemma batch_loop_total:
  assumes "\<And>x s. f x s \<noteq> Inl Trap"
  shows "\<exists>r' s'. batch_loop f err ff i xs s r = Inr (r', s')"
proof (induction xs arbitrary: i s r)
  case (Cons x xs)
  then show ?case
    using assms [of x s] by (auto simp: Let_def split: sum.splits fault.splits)
qed simp

text \<open>Every attempted item is recorded once, under its own index.\<close>

definition batch_indices :: "batch_result \<Rightarrow> u32 list" where
  "batch_indices r = successes r @ map bf_index (failures r)"

lemma batch_loop_indices:
  assumes "\<not> ff" and "batch_loop f err ff i xs s r = Inr (r', s')"
  shows "mset (batch_indices r') = mset (batch_indices r) + mset (map of_nat [i..<i + length xs])"
  using assms(2)
proof (induction xs arbitrary: i s r)
  case (Cons x xs)
  have upt: "[i..<i + length (x # xs)] = i # [Suc i..<Suc i + length xs]"
    by (subst upt_rec) simp
  show ?case
  proof (cases "f x s")
    case (Inl e)
    with Cons.prems assms(1) obtain e' where
      "batch_loop f err ff (Suc i) xs s (record_failure (of_nat i) (err e') r) = Inr (r', s')"
      by (auto simp: Let_def split: fault.splits)
    from Cons.IH [OF this] show ?thesis unfolding upt by (simp add: batch_indices_def)
  next
    case (Inr s1)
    with Cons.prems
    have "batch_loop f err ff (Suc i) xs s1 (record_success (of_nat i) r) = Inr (r', s')" by simp
    from Cons.IH [OF this] show ?thesis unfolding upt by (simp add: batch_indices_def)
  qed
qed simp

end
