(* ===== verification/Timelock.thy ===== *)
theory Timelock
  imports Common
begin

text \<open>
  The contract router-timelock (\<open>contracts/router-timelock/src/lib.rs\<close>): a queue of delayed
  operations. An operation waits until its \<open>eta\<close>, can be executed until
  \<open>eta + grace_period_seconds\<close> once its direct dependencies are executed, and can be
  cancelled before. Deriving the operation id uses the host's XDR encoders and SHA-256, which
  are the parameters \<open>crypto\<close>.
\<close>

subsection \<open>State\<close>

record op =
  proposer :: address
  description :: string
  target :: address
  eta :: u64
  grace_period_seconds :: u64
  executed :: bool
  cancelled :: bool

datatype operation_status = Queued | Ready | Executed | Cancelled | Expired | Blocked

datatype timelock_error = AlreadyInitialized | NotInitialized | Unauthorized | NotFound | NotReady
  | AlreadyExecuted | OpCancelled | DelayTooShort | OpExpired | QueueFull | CircularDependency
  | DependencyTooDeep | AlreadyQueued | DependencyNotExecuted | GracePeriodTooLong
  | ExpiryOverflow | DelayTooLong

text \<open>
  One field per storage key. The two index vectors read as empty when their key is absent, at
  every use, so they are lists.
\<close>

record timelock = contract +
  min_delay_key :: "u64 option"
  ops :: "bytes \<Rightarrow> op option"
  pending_ops :: "bytes list"
  max_pending_key :: "u32 option"
  deps_key :: "bytes \<Rightarrow> bytes list option"
  finalized_ops :: "bytes list"

definition timelock_empty :: timelock where
  "timelock_empty = \<lparr>admin_key = None, events = [], min_delay_key = None, ops = Map.empty,
     pending_ops = [], max_pending_key = None, deps_key = Map.empty, finalized_ops = []\<rparr>"

definition MAX_DEPENDENCY_DEPTH :: nat where
  "MAX_DEPENDENCY_DEPTH = 8"

definition MAX_GRACE_PERIOD_SECONDS :: u64 where
  "MAX_GRACE_PERIOD_SECONDS = 30 * 24 * 60 * 60"

text \<open>The host functions an operation id is derived with.\<close>

record crypto =
  string_xdr :: "string \<Rightarrow> bytes"
  address_xdr :: "address \<Rightarrow> bytes"
  sha256 :: "bytes \<Rightarrow> bytes"

subsection \<open>Helpers\<close>

definition require_op_pending :: "op \<Rightarrow> (timelock_error, unit) res" where
  "require_op_pending op =
     (if cancelled op then Inl (Err OpCancelled)
      else if executed op then Inl (Err AlreadyExecuted)
      else Inr ())"

definition add_to_pending_ops :: "bytes \<Rightarrow> timelock \<Rightarrow> timelock" where
  "add_to_pending_ops op_id s = s\<lparr>pending_ops := pending_ops s @ [op_id]\<rparr>"

definition add_to_finalized_ops :: "bytes \<Rightarrow> timelock \<Rightarrow> timelock" where
  "add_to_finalized_ops op_id s = s\<lparr>finalized_ops := finalized_ops s @ [op_id]\<rparr>"

definition remove_from_pending_ops :: "bytes \<Rightarrow> timelock \<Rightarrow> timelock" where
  "remove_from_pending_ops op_id s =
     s\<lparr>pending_ops := filter (\<lambda>id. id \<noteq> op_id) (pending_ops s)\<rparr>"

definition remove_op_storage :: "bytes \<Rightarrow> timelock \<Rightarrow> timelock" where
  "remove_op_storage op_id s =
     s\<lparr>ops := (ops s)(op_id := None), deps_key := (deps_key s)(op_id := None)\<rparr>"

definition load_deps :: "bytes \<Rightarrow> timelock \<Rightarrow> bytes list" where
  "load_deps op_id s = unwrap_or (deps_key s op_id) []"

definition is_expired :: "op \<Rightarrow> u64 \<Rightarrow> bool" where
  "is_expired op now =
     (case checked_add (eta op) (grace_period_seconds op) of
        None \<Rightarrow> True
      | Some expiry \<Rightarrow> now > expiry)"

text \<open>
  The recursion over dependencies: the depth grows with every call and the guard cuts it off, so
  \<open>MAX_DEPENDENCY_DEPTH + 1 - depth\<close> shrinks.
\<close>

function check_dependency_depth :: "timelock \<Rightarrow> bytes \<Rightarrow> nat \<Rightarrow> (timelock_error, unit) res" where
  "check_dependency_depth s dep_id depth =
     (if depth > MAX_DEPENDENCY_DEPTH then Inl (Err DependencyTooDeep)
      else for_each (\<lambda>child_id. check_dependency_depth s child_id (depth + 1)) (load_deps dep_id s))"
  by pat_completeness auto
termination
  by (relation "measure (\<lambda>(s, dep_id, depth). MAX_DEPENDENCY_DEPTH + 1 - depth)") auto

definition require_dependencies_executed :: "bytes \<Rightarrow> timelock \<Rightarrow> (timelock_error, unit) res" where
  "require_dependencies_executed op_id s =
     for_each (\<lambda>dep_id.
         let dep_executed = unwrap_or (map_option executed (ops s dep_id)) False
         in if \<not> dep_executed then Inl (Err DependencyNotExecuted) else Inr ())
       (load_deps op_id s)"

function has_blocked_dependency_at_depth :: "timelock \<Rightarrow> u64 \<Rightarrow> bytes \<Rightarrow> nat \<Rightarrow> bool" where
  "has_blocked_dependency_at_depth s now op_id depth =
     (if depth > MAX_DEPENDENCY_DEPTH then True
      else list_ex (\<lambda>dep_id.
          case ops s dep_id of
            Some dep_op \<Rightarrow>
              cancelled dep_op
              \<or> (\<not> executed dep_op \<and> is_expired dep_op now)
              \<or> (\<not> executed dep_op \<and> has_blocked_dependency_at_depth s now dep_id (depth + 1))
          | None \<Rightarrow> True)
        (load_deps op_id s))"
  by pat_completeness auto
termination
  by (relation "measure (\<lambda>(s, now, op_id, depth). MAX_DEPENDENCY_DEPTH + 1 - depth)") auto

declare check_dependency_depth.simps [simp del] has_blocked_dependency_at_depth.simps [simp del]

definition has_blocked_dependency :: "env \<Rightarrow> bytes \<Rightarrow> timelock \<Rightarrow> bool" where
  "has_blocked_dependency env op_id s = has_blocked_dependency_at_depth s (timestamp env) op_id 0"

subsection \<open>Entry points\<close>

definition timelock_initialize ::
    "address \<Rightarrow> u64 \<Rightarrow> u32 \<Rightarrow> timelock \<Rightarrow> (timelock_error, unit, timelock) tx" where
  "timelock_initialize admin min_delay max_pending_ops s =
     (if admin_key s \<noteq> None then Inl (Err AlreadyInitialized)
      else if min_delay = 0 then Inl (Err DelayTooShort)
      else Inr ((), s\<lparr>admin_key := Some admin, min_delay_key := Some min_delay,
                      max_pending_key := Some max_pending_ops\<rparr>))"

text \<open>\<open>u64::to_be_bytes\<close> and the preimage of the operation id.\<close>

definition to_be_bytes :: "u64 \<Rightarrow> bytes" where
  "to_be_bytes x = map (\<lambda>i. ucast (drop_bit (8 * i) x)) [7, 6, 5, 4, 3, 2, 1, 0]"

definition op_id_of :: "crypto \<Rightarrow> string \<Rightarrow> address \<Rightarrow> u64 \<Rightarrow> bytes" where
  "op_id_of h desc tgt at =
     sha256 h (string_xdr h desc @ address_xdr h tgt @ to_be_bytes at)"

definition check_deps :: "bytes \<Rightarrow> bytes list \<Rightarrow> timelock \<Rightarrow> (timelock_error, unit) res" where
  "check_deps op_id deps s =
     for_each (\<lambda>dep_id.
         if dep_id = op_id then Inl (Err CircularDependency)
         else if ops s dep_id = None then Inl (Err NotFound)
         else check_dependency_depth s dep_id 0) deps"

definition queue :: "crypto \<Rightarrow> env \<Rightarrow> address \<Rightarrow> string \<Rightarrow> address \<Rightarrow> u64 \<Rightarrow> u64 \<Rightarrow> bytes list
    \<Rightarrow> timelock \<Rightarrow> (timelock_error, bytes, timelock) tx" where
  "queue h env prop desc tgt delay grace deps s =
     bindr (require_auth env prop) (\<lambda>_.
     bindr (require_admin prop NotInitialized Unauthorized s) (\<lambda>_.
     bindr (ok_or (min_delay_key s) NotInitialized) (\<lambda>min_delay.
     bindr (reject_if (delay < min_delay) DelayTooShort) (\<lambda>_.
     bindr (reject_if (grace > MAX_GRACE_PERIOD_SECONDS) GracePeriodTooLong) (\<lambda>_.
     let pending = pending_ops s;
         max_pending = unwrap_or (max_pending_key s) 0
     in
     bindr (reject_if (max_pending > 0 \<and> length pending \<ge> unat max_pending) QueueFull) (\<lambda>_.
     bindr (ok_or (checked_add (timestamp env) delay) DelayTooLong) (\<lambda>at.
     let op_id = op_id_of h desc tgt at
     in
     bindr (reject_if (ops s op_id \<noteq> None) AlreadyQueued) (\<lambda>_.
     bindr (check_deps op_id deps s) (\<lambda>_.
     let op = \<lparr>proposer = prop, description = desc, target = tgt, eta = at,
               grace_period_seconds = grace, executed = False, cancelled = False\<rparr>;
         s1 = s\<lparr>ops := (ops s)(op_id \<mapsto> op)\<rparr>;
         s2 = (if deps \<noteq> [] then s1\<lparr>deps_key := (deps_key s1)(op_id \<mapsto> deps)\<rparr> else s1);
         s3 = add_to_pending_ops op_id s2
     in Inr (op_id,
          publish ''op_queued'' (VTuple [VBytes op_id, VAddr tgt, VU64 at, VU64 grace]) s3))))))))))"

definition timelock_cancel ::
    "env \<Rightarrow> address \<Rightarrow> bytes \<Rightarrow> timelock \<Rightarrow> (timelock_error, unit, timelock) tx" where
  "timelock_cancel env caller op_id s =
     bindr (require_auth env caller) (\<lambda>_.
     bindr (require_admin caller NotInitialized Unauthorized s) (\<lambda>_.
     bindr (ok_or (ops s op_id) NotFound) (\<lambda>op.
     bindr (require_op_pending op) (\<lambda>_.
     let s1 = s\<lparr>ops := (ops s)(op_id \<mapsto> op\<lparr>cancelled := True\<rparr>)\<rparr>;
         s2 = add_to_finalized_ops op_id (remove_from_pending_ops op_id s1)
     in Inr ((), publish ''op_cancelled'' (VBytes op_id) s2)))))"

definition timelock_execute ::
    "env \<Rightarrow> address \<Rightarrow> bytes \<Rightarrow> timelock \<Rightarrow> (timelock_error, unit, timelock) tx" where
  "timelock_execute env caller op_id s =
     bindr (require_auth env caller) (\<lambda>_.
     bindr (require_admin caller NotInitialized Unauthorized s) (\<lambda>_.
     bindr (ok_or (ops s op_id) NotFound) (\<lambda>op.
     bindr (reject_if (cancelled op) OpCancelled) (\<lambda>_.
     bindr (reject_if (executed op) AlreadyExecuted) (\<lambda>_.
     let now = timestamp env
     in
     bindr (reject_if (now < eta op) NotReady) (\<lambda>_.
     bindr (ok_or (checked_add (eta op) (grace_period_seconds op)) ExpiryOverflow) (\<lambda>expiry.
     bindr (reject_if (now > expiry) OpExpired) (\<lambda>_.
     bindr (require_dependencies_executed op_id s) (\<lambda>_.
     let s1 = s\<lparr>ops := (ops s)(op_id \<mapsto> op\<lparr>executed := True\<rparr>)\<rparr>;
         s2 = add_to_finalized_ops op_id (remove_from_pending_ops op_id s1)
     in Inr ((), publish ''op_executed'' (VTuple [VBytes op_id, VAddr (target op)]) s2))))))))))"

definition update_description ::
    "env \<Rightarrow> address \<Rightarrow> bytes \<Rightarrow> string \<Rightarrow> timelock \<Rightarrow> (timelock_error, unit, timelock) tx" where
  "update_description env caller op_id new_description s =
     bindr (require_auth env caller) (\<lambda>_.
     bindr (require_admin caller NotInitialized Unauthorized s) (\<lambda>_.
     bindr (ok_or (ops s op_id) NotFound) (\<lambda>op.
     bindr (reject_if (executed op) AlreadyExecuted) (\<lambda>_.
     bindr (reject_if (cancelled op) OpCancelled) (\<lambda>_.
     let s1 = s\<lparr>ops := (ops s)(op_id \<mapsto> op\<lparr>description := new_description\<rparr>)\<rparr>
     in Inr ((), publish ''op_description_updated''
                   (VTuple [VBytes op_id, VStr new_description]) s1))))))"

text \<open>
  \<open>cleanup_expired\<close>: the ids that live pending operations depend on, the pass over the
  pending index and the pass over the finalized index. Both passes thread the storage they
  modify and the number of operations cleaned, which never passes \<open>limit\<close>.
\<close>

definition referenced_ids :: "u64 \<Rightarrow> timelock \<Rightarrow> bytes list" where
  "referenced_ids now s =
     concat (map (\<lambda>op_id. case ops s op_id of
                    Some op \<Rightarrow> if \<not> is_expired op now then load_deps op_id s else []
                  | None \<Rightarrow> []) (pending_ops s))"

fun cleanup_pending ::
    "u64 \<Rightarrow> nat \<Rightarrow> bytes list \<Rightarrow> bytes list \<Rightarrow> nat \<Rightarrow> timelock \<Rightarrow> nat \<times> bytes list \<times> timelock" where
  "cleanup_pending now limit refd [] cleaned s = (cleaned, [], s)"
| "cleanup_pending now limit refd (op_id # ids) cleaned s =
     (if cleaned \<ge> limit then
        (case cleanup_pending now limit refd ids cleaned s of
           (c, new_pending, s') \<Rightarrow> (c, op_id # new_pending, s'))
      else
        (case ops s op_id of
           Some op \<Rightarrow>
             if is_expired op now \<and> op_id \<notin> set refd then
               cleanup_pending now limit refd ids (cleaned + 1) (remove_op_storage op_id s)
             else
               (case cleanup_pending now limit refd ids cleaned s of
                  (c, new_pending, s') \<Rightarrow> (c, op_id # new_pending, s'))
         | None \<Rightarrow> cleanup_pending now limit refd ids (cleaned + 1) s))"

fun cleanup_finalized ::
    "nat \<Rightarrow> bytes list \<Rightarrow> bytes list \<Rightarrow> nat \<Rightarrow> timelock \<Rightarrow> nat \<times> bytes list \<times> timelock" where
  "cleanup_finalized limit refd [] cleaned s = (cleaned, [], s)"
| "cleanup_finalized limit refd (op_id # ids) cleaned s =
     (if cleaned \<ge> limit \<or> op_id \<in> set refd then
        (case cleanup_finalized limit refd ids cleaned s of
           (c, new_finalized, s') \<Rightarrow> (c, op_id # new_finalized, s'))
      else cleanup_finalized limit refd ids (cleaned + 1) (remove_op_storage op_id s))"

definition cleanup_expired ::
    "env \<Rightarrow> address \<Rightarrow> u32 \<Rightarrow> timelock \<Rightarrow> (timelock_error, u32, timelock) tx" where
  "cleanup_expired env caller limit s =
     bindr (require_auth env caller) (\<lambda>_.
     let now = timestamp env;
         refd = referenced_ids now s;
         (c1, new_pending, s1) = cleanup_pending now (unat limit) refd (pending_ops s) 0 s;
         (c2, new_finalized, s2) = cleanup_finalized (unat limit) refd (finalized_ops s) c1 s1
     in
       if c2 > 0 then
         Inr (of_nat c2,
              publish ''ops_cleaned'' (VU32 (of_nat c2))
                (s2\<lparr>pending_ops := new_pending, finalized_ops := new_finalized\<rparr>))
       else Inr (of_nat c2, s2))"

definition set_min_delay ::
    "env \<Rightarrow> address \<Rightarrow> u64 \<Rightarrow> timelock \<Rightarrow> (timelock_error, unit, timelock) tx" where
  "set_min_delay env caller new_min_delay s =
     bindr (require_auth env caller) (\<lambda>_.
     bindr (require_admin caller NotInitialized Unauthorized s) (\<lambda>_.
     bindr (reject_if (new_min_delay = 0) DelayTooShort) (\<lambda>_.
     bindr (expect (min_delay_key s)) (\<lambda>old_min_delay.
     Inr ((), publish ''min_delay_updated'' (VTuple [VU64 old_min_delay, VU64 new_min_delay])
                (s\<lparr>min_delay_key := Some new_min_delay\<rparr>))))))"

definition timelock_transfer_admin ::
    "env \<Rightarrow> address \<Rightarrow> address \<Rightarrow> timelock \<Rightarrow> (timelock_error, unit, timelock) tx" where
  "timelock_transfer_admin env current new_admin s =
     bindr (require_auth env current) (\<lambda>_.
     bindr (require_admin current NotInitialized Unauthorized s) (\<lambda>_.
     Inr ((), admin_transfer_complete current new_admin s)))"

subsection \<open>Views\<close>

definition get_op :: "bytes \<Rightarrow> timelock \<Rightarrow> op option" where
  "get_op op_id s = ops s op_id"

definition get_dependencies :: "bytes \<Rightarrow> timelock \<Rightarrow> bytes list" where
  "get_dependencies op_id s = unwrap_or (deps_key s op_id) []"

definition get_operation_status :: "env \<Rightarrow> bytes \<Rightarrow> timelock \<Rightarrow> operation_status option" where
  "get_operation_status env op_id s =
     (case ops s op_id of
        None \<Rightarrow> None
      | Some op \<Rightarrow>
          let now = timestamp env
          in Some (if cancelled op then Cancelled
                   else if executed op then Executed
                   else if (case checked_add (eta op) (grace_period_seconds op) of
                              None \<Rightarrow> True | Some expiry \<Rightarrow> now > expiry) then Expired
                   else if has_blocked_dependency env op_id s then Blocked
                   else if now \<ge> eta op then Ready
                   else Queued))"

definition within_grace :: "op \<Rightarrow> u64 \<Rightarrow> bool" where
  "within_grace op now =
     (case checked_add (eta op) (grace_period_seconds op) of
        None \<Rightarrow> False
      | Some expiry \<Rightarrow> now \<le> expiry)"

definition get_pending_operations :: "env \<Rightarrow> timelock \<Rightarrow> op list" where
  "get_pending_operations env s =
     filter (\<lambda>op. \<not> executed op \<and> \<not> cancelled op \<and> within_grace op (timestamp env))
       (List.map_filter (ops s) (pending_ops s))"

text \<open>The \<open>matches\<close> of the two queries by status.\<close>

definition status_matches ::
    "env \<Rightarrow> operation_status \<Rightarrow> bytes \<Rightarrow> op \<Rightarrow> timelock \<Rightarrow> bool" where
  "status_matches env status op_id op s =
     (let now = timestamp env in
      case status of
        Cancelled \<Rightarrow> cancelled op
      | Executed \<Rightarrow> executed op
      | Expired \<Rightarrow> \<not> executed op \<and> \<not> cancelled op
          \<and> (case checked_add (eta op) (grace_period_seconds op) of
               None \<Rightarrow> True | Some expiry \<Rightarrow> now > expiry)
      | Ready \<Rightarrow> \<not> executed op \<and> \<not> cancelled op \<and> now \<ge> eta op \<and> within_grace op now
          \<and> \<not> has_blocked_dependency env op_id s
      | Queued \<Rightarrow> \<not> executed op \<and> \<not> cancelled op \<and> now < eta op
          \<and> \<not> has_blocked_dependency env op_id s
      | Blocked \<Rightarrow> \<not> executed op \<and> \<not> cancelled op \<and> within_grace op now
          \<and> has_blocked_dependency env op_id s)"

fun count_by_status ::
    "env \<Rightarrow> operation_status \<Rightarrow> bytes list \<Rightarrow> timelock \<Rightarrow> u32 \<Rightarrow> u32" where
  "count_by_status env status [] s n = n"
| "count_by_status env status (op_id # ids) s n =
     (case ops s op_id of
        Some op \<Rightarrow> if status_matches env status op_id op s
                   then count_by_status env status ids s (n + 1)
                   else count_by_status env status ids s n
      | None \<Rightarrow> count_by_status env status ids s n)"

definition get_operation_count_by_status :: "env \<Rightarrow> operation_status \<Rightarrow> timelock \<Rightarrow> u32" where
  "get_operation_count_by_status env status s = count_by_status env status (pending_ops s) s 0"

fun select_by_status ::
    "env \<Rightarrow> operation_status \<Rightarrow> bytes list \<Rightarrow> timelock \<Rightarrow> (bytes \<times> op) list" where
  "select_by_status env status [] s = []"
| "select_by_status env status (op_id # ids) s =
     (case ops s op_id of
        Some op \<Rightarrow> if status_matches env status op_id op s
                   then (op_id, op) # select_by_status env status ids s
                   else select_by_status env status ids s
      | None \<Rightarrow> select_by_status env status ids s)"

definition get_operations_by_status ::
    "env \<Rightarrow> operation_status \<Rightarrow> timelock \<Rightarrow> (bytes \<times> op) list" where
  "get_operations_by_status env status s = select_by_status env status (pending_ops s) s"

definition get_max_pending_ops :: "timelock \<Rightarrow> u32" where
  "get_max_pending_ops s = unwrap_or (max_pending_key s) 0"

definition min_delay :: "timelock \<Rightarrow> (timelock_error, u64) res" where
  "min_delay s = ok_or (min_delay_key s) NotInitialized"

definition timelock_admin :: "timelock \<Rightarrow> (timelock_error, address) res" where
  "timelock_admin s = ok_or (admin_key s) NotInitialized"

subsection \<open>The contract as a machine\<close>

datatype timelock_call = TInitialize address u64 u32
  | TQueue address string address u64 u64 "bytes list"
  | TCancel address bytes
  | TExecute address bytes
  | TUpdateDescription address bytes string
  | TCleanupExpired address u32
  | TSetMinDelay address u64
  | TTransferAdmin address address

fun timelock_step :: "crypto \<Rightarrow> env \<Rightarrow> timelock_call \<Rightarrow> timelock \<Rightarrow> (timelock_error, timelock) res" where
  "timelock_step h env (TInitialize a d m) s = returns (timelock_initialize a d m s)"
| "timelock_step h env (TQueue p desc tgt d g ds) s = returns (queue h env p desc tgt d g ds s)"
| "timelock_step h env (TCancel c i) s = returns (timelock_cancel env c i s)"
| "timelock_step h env (TExecute c i) s = returns (timelock_execute env c i s)"
| "timelock_step h env (TUpdateDescription c i d) s = returns (update_description env c i d s)"
| "timelock_step h env (TCleanupExpired c l) s = returns (cleanup_expired env c l s)"
| "timelock_step h env (TSetMinDelay c d) s = returns (set_min_delay env c d s)"
| "timelock_step h env (TTransferAdmin c n) s = returns (timelock_transfer_admin env c n s)"

end
