(* ===== verification/Timelock_Props.thy ===== *)
theory Timelock_Props
  imports Timelock
begin

text \<open>
  Correctness of router-timelock: the invariant that ties the two index vectors to the stored
  operations, its preservation by every entry point, the delay guarantees of \<open>queue\<close> and
  \<open>execute\<close>, and what \<open>cleanup_expired\<close> leaves untouched.
\<close>

subsection \<open>The invariant\<close>

definition live_op :: "op \<Rightarrow> bool" where
  "live_op op \<longleftrightarrow> \<not> executed op \<and> \<not> cancelled op"

definition index_ok :: "timelock \<Rightarrow> bool" where
  "index_ok s \<longleftrightarrow> distinct (pending_ops s) \<and> distinct (finalized_ops s)
     \<and> (\<forall>id. id \<in> set (pending_ops s) \<longleftrightarrow> (\<exists>op. ops s id = Some op \<and> live_op op))
     \<and> (\<forall>id. id \<in> set (finalized_ops s) \<longleftrightarrow> (\<exists>op. ops s id = Some op \<and> \<not> live_op op))"

definition ops_ok :: "timelock \<Rightarrow> bool" where
  "ops_ok s \<longleftrightarrow> (\<forall>id op. ops s id = Some op \<longrightarrow>
       \<not> (executed op \<and> cancelled op) \<and> grace_period_seconds op \<le> MAX_GRACE_PERIOD_SECONDS)
     \<and> (\<forall>id. ops s id = None \<longrightarrow> deps_key s id = None)"

definition config_ok :: "timelock \<Rightarrow> bool" where
  "config_ok s \<longleftrightarrow> (admin_key s = None \<longleftrightarrow> min_delay_key s = None) \<and> min_delay_key s \<noteq> Some 0
     \<and> (admin_key s = None \<longrightarrow> ops s = Map.empty)
     \<and> (0 < get_max_pending_ops s \<longrightarrow> length (pending_ops s) \<le> unat (get_max_pending_ops s))"

definition timelock_inv :: "timelock \<Rightarrow> bool" where
  "timelock_inv s \<longleftrightarrow> index_ok s \<and> ops_ok s \<and> config_ok s"

lemmas timelock_inv_defs = index_ok_def ops_ok_def config_ok_def timelock_inv_def

lemma timelock_inv_empty: "timelock_inv timelock_empty"
  by (simp add: timelock_inv_defs timelock_empty_def)

subsection \<open>Storage writers\<close>

lemma publish_timelock [simp]:
  "ops (publish t d s) = ops s" "pending_ops (publish t d s) = pending_ops s"
  "finalized_ops (publish t d s) = finalized_ops s" "deps_key (publish t d s) = deps_key s"
  "min_delay_key (publish t d s) = min_delay_key s"
  "max_pending_key (publish t d s) = max_pending_key s"
  by (simp_all add: publish_def)

lemma admin_transfer_timelock [simp]:
  "ops (admin_transfer_complete c n s) = ops s"
  "pending_ops (admin_transfer_complete c n s) = pending_ops s"
  "finalized_ops (admin_transfer_complete c n s) = finalized_ops s"
  "deps_key (admin_transfer_complete c n s) = deps_key s"
  "min_delay_key (admin_transfer_complete c n s) = min_delay_key s"
  "max_pending_key (admin_transfer_complete c n s) = max_pending_key s"
  by (simp_all add: admin_transfer_complete_def)

lemmas index_writers = add_to_pending_ops_def add_to_finalized_ops_def remove_from_pending_ops_def

lemma timelock_inv_publish [simp]: "timelock_inv (publish t d s) \<longleftrightarrow> timelock_inv s"
  by (simp add: timelock_inv_defs get_max_pending_ops_def)

subsection \<open>What a successful call did\<close>

definition new_op :: "address \<Rightarrow> string \<Rightarrow> address \<Rightarrow> u64 \<Rightarrow> u64 \<Rightarrow> op" where
  "new_op p desc tgt at grace = \<lparr>proposer = p, description = desc, target = tgt, eta = at,
     grace_period_seconds = grace, executed = False, cancelled = False\<rparr>"

definition queued_state :: "bytes \<Rightarrow> op \<Rightarrow> bytes list \<Rightarrow> timelock \<Rightarrow> timelock" where
  "queued_state op_id op deps s =
     s\<lparr>ops := (ops s)(op_id \<mapsto> op),
       deps_key := (if deps \<noteq> [] then (deps_key s)(op_id \<mapsto> deps) else deps_key s),
       pending_ops := pending_ops s @ [op_id]\<rparr>"

definition finalized_state :: "bytes \<Rightarrow> op \<Rightarrow> timelock \<Rightarrow> timelock" where
  "finalized_state op_id op s =
     s\<lparr>ops := (ops s)(op_id \<mapsto> op), pending_ops := filter (\<lambda>id. id \<noteq> op_id) (pending_ops s),
       finalized_ops := finalized_ops s @ [op_id]\<rparr>"

lemma queue_Inr_iff:
  "queue h env p desc tgt delay grace deps s = Inr (op_id, s') \<longleftrightarrow>
     auth env p \<and> admin_key s = Some p
     \<and> (\<exists>md at. min_delay_key s = Some md \<and> md \<le> delay \<and> grace \<le> MAX_GRACE_PERIOD_SECONDS
          \<and> (0 < get_max_pending_ops s \<longrightarrow> length (pending_ops s) < unat (get_max_pending_ops s))
          \<and> checked_add (timestamp env) delay = Some at
          \<and> op_id = op_id_of h desc tgt at \<and> ops s op_id = None
          \<and> check_deps op_id deps s = Inr ()
          \<and> s' = publish ''op_queued''
                   (VTuple [VBytes op_id, VAddr tgt, VU64 at, VU64 grace])
                   (queued_state op_id (new_op p desc tgt at grace) deps s))"
  by (auto simp: queue_def res_simps Let_def not_less get_max_pending_ops_def new_op_def
      queued_state_def add_to_pending_ops_def)

lemma timelock_cancel_Inr_iff:
  "timelock_cancel env c op_id s = Inr (u, s') \<longleftrightarrow>
     auth env c \<and> admin_key s = Some c
     \<and> (\<exists>op. ops s op_id = Some op \<and> live_op op
          \<and> s' = publish ''op_cancelled'' (VBytes op_id)
                   (finalized_state op_id (op\<lparr>cancelled := True\<rparr>) s))"
  by (auto simp: timelock_cancel_def res_simps Let_def require_op_pending_def live_op_def
      finalized_state_def index_writers split: if_splits)

lemma timelock_execute_Inr_iff:
  "timelock_execute env c op_id s = Inr (u, s') \<longleftrightarrow>
     auth env c \<and> admin_key s = Some c
     \<and> (\<exists>op. ops s op_id = Some op \<and> live_op op \<and> eta op \<le> timestamp env
          \<and> within_grace op (timestamp env)
          \<and> require_dependencies_executed op_id s = Inr ()
          \<and> s' = publish ''op_executed'' (VTuple [VBytes op_id, VAddr (target op)])
                   (finalized_state op_id (op\<lparr>executed := True\<rparr>) s))"
  by (auto simp: timelock_execute_def res_simps Let_def live_op_def not_less within_grace_def
      finalized_state_def index_writers split: option.splits)

lemma update_description_Inr_iff:
  "update_description env c op_id d s = Inr (u, s') \<longleftrightarrow>
     auth env c \<and> admin_key s = Some c
     \<and> (\<exists>op. ops s op_id = Some op \<and> live_op op
          \<and> s' = publish ''op_description_updated'' (VTuple [VBytes op_id, VStr d])
                   (s\<lparr>ops := (ops s)(op_id \<mapsto> op\<lparr>description := d\<rparr>)\<rparr>))"
  by (auto simp: update_description_def res_simps Let_def live_op_def)

lemma set_min_delay_Inr_iff:
  "set_min_delay env c d s = Inr (u, s') \<longleftrightarrow>
     auth env c \<and> admin_key s = Some c \<and> d \<noteq> 0
     \<and> (\<exists>old. min_delay_key s = Some old
          \<and> s' = publish ''min_delay_updated'' (VTuple [VU64 old, VU64 d])
                   (s\<lparr>min_delay_key := Some d\<rparr>))"
  by (auto simp: set_min_delay_def res_simps)

lemma timelock_transfer_admin_Inr_iff:
  "timelock_transfer_admin env c n s = Inr (u, s') \<longleftrightarrow>
     auth env c \<and> admin_key s = Some c \<and> s' = admin_transfer_complete c n s"
  by (auto simp: timelock_transfer_admin_def res_simps)

lemma timelock_initialize_Inr_iff:
  "timelock_initialize a d m s = Inr (u, s') \<longleftrightarrow>
     admin_key s = None \<and> d \<noteq> 0
     \<and> s' = s\<lparr>admin_key := Some a, min_delay_key := Some d, max_pending_key := Some m\<rparr>"
  by (auto simp: timelock_initialize_def)

lemmas timelock_call_iffs = queue_Inr_iff timelock_cancel_Inr_iff timelock_execute_Inr_iff
  update_description_Inr_iff set_min_delay_Inr_iff timelock_transfer_admin_Inr_iff
  timelock_initialize_Inr_iff

subsection \<open>Preservation\<close>

lemma queued_state_inv:
  assumes "timelock_inv s" and "ops s op_id = None" and "live_op op"
    and "grace_period_seconds op \<le> MAX_GRACE_PERIOD_SECONDS" and "admin_key s \<noteq> None"
    and "0 < get_max_pending_ops s \<longrightarrow> length (pending_ops s) < unat (get_max_pending_ops s)"
  shows "timelock_inv (queued_state op_id op deps s)"
proof -
  have "index_ok (queued_state op_id op deps s)"
    using assms by (auto simp: timelock_inv_defs queued_state_def)
  moreover have "ops_ok (queued_state op_id op deps s)"
    using assms by (auto simp: timelock_inv_defs queued_state_def live_op_def)
  moreover have "config_ok (queued_state op_id op deps s)"
    using assms by (auto simp: timelock_inv_defs queued_state_def get_max_pending_ops_def)
  ultimately show ?thesis by (simp add: timelock_inv_def)
qed

lemma finalized_state_inv:
  assumes "timelock_inv s" and "ops s op_id = Some op" and "live_op op" and "\<not> live_op op'"
    and "\<not> (executed op' \<and> cancelled op')"
    and "grace_period_seconds op' = grace_period_seconds op"
  shows "timelock_inv (finalized_state op_id op' s)"
proof -
  have idx: "distinct (pending_ops s)" "distinct (finalized_ops s)"
      "\<And>id. id \<in> set (pending_ops s) \<longleftrightarrow> (\<exists>op. ops s id = Some op \<and> live_op op)"
      "\<And>id. id \<in> set (finalized_ops s) \<longleftrightarrow> (\<exists>op. ops s id = Some op \<and> \<not> live_op op)"
    using assms(1) by (simp_all add: timelock_inv_def index_ok_def)
  have "op_id \<notin> set (finalized_ops s)" using idx(4) assms(2,3) by simp
  then have "index_ok (finalized_state op_id op' s)"
    using idx assms(4) by (simp add: index_ok_def finalized_state_def)
  moreover have "ops_ok (finalized_state op_id op' s)"
    using assms by (auto simp: timelock_inv_defs finalized_state_def)
  moreover have "config_ok (finalized_state op_id op' s)"
    using assms by (auto simp: timelock_inv_defs finalized_state_def get_max_pending_ops_def
        intro: le_trans [OF length_filter_le])
  ultimately show ?thesis by (simp add: timelock_inv_def)
qed

lemma op_replaced_inv:
  assumes "timelock_inv s" and "ops s op_id = Some op" and "live_op op" and "live_op op'"
    and "grace_period_seconds op' = grace_period_seconds op"
  shows "timelock_inv (s\<lparr>ops := (ops s)(op_id \<mapsto> op')\<rparr>)"
  using assms by (auto simp: timelock_inv_defs live_op_def get_max_pending_ops_def)

lemma timelock_inv_initialize:
  assumes "timelock_inv s" "timelock_initialize a d m s = Inr (u, s')"
  shows "timelock_inv s'"
  using assms by (auto simp: timelock_initialize_Inr_iff timelock_inv_defs)

subsection \<open>Cleanup\<close>

text \<open>
  \<open>cleared X s\<close>: the storage of the ids in \<open>X\<close> is gone. Both passes clear a set of ids and
  keep, in order, the ids they do not clear.
\<close>

definition cleared :: "bytes set \<Rightarrow> timelock \<Rightarrow> timelock" where
  "cleared X s = s\<lparr>ops := (ops s) |` (- X), deps_key := (deps_key s) |` (- X)\<rparr>"

lemma restrict_map_UNIV [simp]: "m |` UNIV = m"
  by (simp add: restrict_map_def fun_eq_iff)

lemma cleared_empty [simp]: "cleared {} s = s"
  by (simp add: cleared_def)

lemma cleared_remove: "cleared X (remove_op_storage x s) = cleared (insert x X) s"
  by (auto simp: cleared_def remove_op_storage_def restrict_map_def fun_eq_iff)

lemma cleared_sel [simp]:
  "pending_ops (cleared X s) = pending_ops s" "finalized_ops (cleared X s) = finalized_ops s"
  "admin_key (cleared X s) = admin_key s" "min_delay_key (cleared X s) = min_delay_key s"
  "max_pending_key (cleared X s) = max_pending_key s" "events (cleared X s) = events s"
  "ops (cleared X s) = (ops s) |` (- X)" "deps_key (cleared X s) = (deps_key s) |` (- X)"
  by (simp_all add: cleared_def)

lemma remove_op_storage_sel [simp]:
  "ops (remove_op_storage x s) = (ops s)(x := None)"
  "deps_key (remove_op_storage x s) = (deps_key s)(x := None)"
  by (simp_all add: remove_op_storage_def)

lemma cleanup_pending_spec:
  assumes "cleanup_pending now limit refd ids cleaned s = (c, kept, s')"
    and "distinct ids" and "\<forall>x\<in>set ids. ops s x \<noteq> None"
  shows "\<exists>X. s' = cleared X s \<and> X \<subseteq> set ids - set refd \<and> kept = filter (\<lambda>x. x \<notin> X) ids
           \<and> c = cleaned + card X \<and> finite X \<and> (cleaned \<le> limit \<longrightarrow> c \<le> limit)
           \<and> (\<forall>x\<in>X. \<exists>op. ops s x = Some op \<and> is_expired op now)"
  using assms
proof (induction ids arbitrary: cleaned s c kept s')
  case Nil
  then show ?case by (intro exI [of _ "{}"]) simp
next
  case (Cons x ids)
  from Cons.prems obtain op where op: "ops s x = Some op" by auto
  show ?case
  proof (cases "cleaned < limit \<and> is_expired op now \<and> x \<notin> set refd")
    case True
    then have run: "cleanup_pending now limit refd ids (cleaned + 1) (remove_op_storage x s) = (c, kept, s')"
      using Cons.prems(1) op by simp
    have "\<forall>y\<in>set ids. ops (remove_op_storage x s) y \<noteq> None"
      using Cons.prems by auto
    from Cons.IH [OF run _ this] Cons.prems(2) obtain X where
      X: "s' = cleared X (remove_op_storage x s)" "X \<subseteq> set ids - set refd"
        "kept = filter (\<lambda>y. y \<notin> X) ids" "c = cleaned + 1 + card X" "finite X"
        "c \<le> limit \<or> limit < cleaned + 1"
        "\<forall>y\<in>X. \<exists>op. ops (remove_op_storage x s) y = Some op \<and> is_expired op now"
      by (auto simp: not_le)
    have "x \<notin> X" using X(2) Cons.prems(2) by auto
    have kept: "kept = filter (\<lambda>y. y \<notin> insert x X) (x # ids)"
      using X(3) Cons.prems(2) by (auto intro: filter_cong)
    show ?thesis
      using X True op \<open>x \<notin> X\<close> kept
      by (intro exI [of _ "insert x X"]) (auto simp: cleared_remove split: if_splits)
  next
    case False
    obtain c' kept' s'' where run: "cleanup_pending now limit refd ids cleaned s = (c', kept', s'')"
      by (cases "cleanup_pending now limit refd ids cleaned s")
    with Cons.prems(1) op False have eq: "c = c'" "kept = x # kept'" "s' = s''"
      by (auto split: if_splits)
    from Cons.IH [OF run] Cons.prems(2,3) obtain X where
      X: "s'' = cleared X s" "X \<subseteq> set ids - set refd" "kept' = filter (\<lambda>y. y \<notin> X) ids"
        "c' = cleaned + card X" "finite X" "cleaned \<le> limit \<longrightarrow> c' \<le> limit"
        "\<forall>y\<in>X. \<exists>op. ops s y = Some op \<and> is_expired op now"
      by auto
    have "x \<notin> X" using X(2) Cons.prems(2) by auto
    with X eq show ?thesis by (intro exI [of _ X]) auto
  qed
qed

lemma cleanup_finalized_spec:
  assumes "cleanup_finalized limit refd ids cleaned s = (c, kept, s')" and "distinct ids"
  shows "\<exists>X. s' = cleared X s \<and> X \<subseteq> set ids - set refd \<and> kept = filter (\<lambda>x. x \<notin> X) ids
           \<and> c = cleaned + card X \<and> finite X \<and> (cleaned \<le> limit \<longrightarrow> c \<le> limit)"
  using assms
proof (induction ids arbitrary: cleaned s c kept s')
  case Nil
  then show ?case by (intro exI [of _ "{}"]) simp
next
  case (Cons x ids)
  show ?case
  proof (cases "cleaned < limit \<and> x \<notin> set refd")
    case True
    then have run: "cleanup_finalized limit refd ids (cleaned + 1) (remove_op_storage x s) = (c, kept, s')"
      using Cons.prems(1) by simp
    from Cons.IH [OF run] Cons.prems(2) obtain X where
      X: "s' = cleared X (remove_op_storage x s)" "X \<subseteq> set ids - set refd"
        "kept = filter (\<lambda>y. y \<notin> X) ids" "c = cleaned + 1 + card X" "finite X"
        "c \<le> limit \<or> limit < cleaned + 1"
      by (auto simp: not_le)
    have "x \<notin> X" using X(2) Cons.prems(2) by auto
    have kept: "kept = filter (\<lambda>y. y \<notin> insert x X) (x # ids)"
      using X(3) Cons.prems(2) by (auto intro: filter_cong)
    show ?thesis
      using X True \<open>x \<notin> X\<close> kept
      by (intro exI [of _ "insert x X"]) (auto simp: cleared_remove)
  next
    case False
    obtain c' kept' s'' where run: "cleanup_finalized limit refd ids cleaned s = (c', kept', s'')"
      by (cases "cleanup_finalized limit refd ids cleaned s")
    with Cons.prems(1) False have eq: "c = c'" "kept = x # kept'" "s' = s''"
      by (auto split: if_splits)
    from Cons.IH [OF run] Cons.prems(2) obtain X where
      X: "s'' = cleared X s" "X \<subseteq> set ids - set refd" "kept' = filter (\<lambda>y. y \<notin> X) ids"
        "c' = cleaned + card X" "finite X" "cleaned \<le> limit \<longrightarrow> c' \<le> limit"
      by auto
    have "x \<notin> X" using X(2) Cons.prems(2) by auto
    with X eq show ?thesis by (intro exI [of _ X]) auto
  qed
qed

text \<open>The state after clearing \<open>X\<close> and dropping its ids from both index vectors.\<close>

definition cleaned_state :: "bytes set \<Rightarrow> timelock \<Rightarrow> timelock" where
  "cleaned_state X s = (cleared X s)\<lparr>pending_ops := filter (\<lambda>x. x \<notin> X) (pending_ops s),
     finalized_ops := filter (\<lambda>x. x \<notin> X) (finalized_ops s)\<rparr>"

definition cleanable :: "u64 \<Rightarrow> timelock \<Rightarrow> bytes set" where
  "cleanable now s =
     {id. (id \<in> set (finalized_ops s)
           \<or> (id \<in> set (pending_ops s) \<and> (\<exists>op. ops s id = Some op \<and> is_expired op now)))
          \<and> id \<notin> set (referenced_ids now s)}"

lemma cleaned_state_empty [simp]: "cleaned_state {} s = s"
  by (simp add: cleaned_state_def)

lemma index_ok_disjoint: "index_ok s \<Longrightarrow> set (pending_ops s) \<inter> set (finalized_ops s) = {}"
  by (auto simp: index_ok_def)

lemma cleanup_expired_spec:
  assumes inv: "timelock_inv s" and run: "cleanup_expired env c l s = Inr (n, s')"
  shows "\<exists>X. X \<subseteq> cleanable (timestamp env) s \<and> finite X \<and> card X \<le> unat l \<and> n = of_nat (card X)
     \<and> s' = (if X = {} then s
             else publish ''ops_cleaned'' (VU32 (of_nat (card X))) (cleaned_state X s))"
proof -
  let ?now = "timestamp env" and ?refd = "referenced_ids (timestamp env) s"
  obtain c1 p1 s1 where r1: "cleanup_pending ?now (unat l) ?refd (pending_ops s) 0 s = (c1, p1, s1)"
    by (cases "cleanup_pending ?now (unat l) ?refd (pending_ops s) 0 s")
  obtain c2 f2 s2 where r2: "cleanup_finalized (unat l) ?refd (finalized_ops s) c1 s1 = (c2, f2, s2)"
    by (cases "cleanup_finalized (unat l) ?refd (finalized_ops s) c1 s1")
  have idx: "index_ok s" using inv by (simp add: timelock_inv_def)
  then have "\<forall>x\<in>set (pending_ops s). ops s x \<noteq> None" "distinct (pending_ops s)"
    "distinct (finalized_ops s)" by (auto simp: index_ok_def)
  with cleanup_pending_spec [OF r1] cleanup_finalized_spec [OF r2] obtain X Y where
    X: "s1 = cleared X s" "X \<subseteq> set (pending_ops s) - set ?refd"
      "p1 = filter (\<lambda>x. x \<notin> X) (pending_ops s)" "c1 = card X" "finite X" "c1 \<le> unat l"
      "\<forall>x\<in>X. \<exists>op. ops s x = Some op \<and> is_expired op ?now" and
    Y: "s2 = cleared Y s1" "Y \<subseteq> set (finalized_ops s) - set ?refd"
      "f2 = filter (\<lambda>x. x \<notin> Y) (finalized_ops s)" "c2 = c1 + card Y" "finite Y" "c2 \<le> unat l"
    by auto
  have disj: "X \<inter> Y = {}" "set (pending_ops s) \<inter> Y = {}" "set (finalized_ops s) \<inter> X = {}"
    using X(2) Y(2) index_ok_disjoint [OF idx] by auto
  have c2: "c2 = card (X \<union> Y)" using X Y disj by (simp add: card_Un_disjoint)
  have s2: "s2 = cleared (X \<union> Y) s"
    using X(1) Y(1) by (simp add: cleared_def Un_commute Int_commute)
  have p1: "p1 = filter (\<lambda>x. x \<notin> X \<union> Y) (pending_ops s)"
    unfolding X(3) using disj(2) by (intro filter_cong) auto
  have f2: "f2 = filter (\<lambda>x. x \<notin> X \<union> Y) (finalized_ops s)"
    unfolding Y(3) using disj(3) by (intro filter_cong) auto
  have "X \<union> Y \<subseteq> cleanable ?now s" using X(2,7) Y(2) by (auto simp: cleanable_def)
  moreover have "n = of_nat (card (X \<union> Y)) \<and> s' = (if X \<union> Y = {} then s
      else publish ''ops_cleaned'' (VU32 (of_nat (card (X \<union> Y)))) (cleaned_state (X \<union> Y) s))"
  proof (cases "X \<union> Y = {}")
    case True
    with run r1 r2 c2 s2 show ?thesis by (simp add: cleanup_expired_def res_simps Let_def)
  next
    case False
    then have "0 < c2" using c2 X(5) Y(5) by (simp add: card_gt_0_iff)
    with run r1 r2 have "n = of_nat c2"
      "s' = publish ''ops_cleaned'' (VU32 (of_nat c2)) (s2\<lparr>pending_ops := p1, finalized_ops := f2\<rparr>)"
      by (auto simp: cleanup_expired_def res_simps Let_def)
    with False c2 s2 p1 f2 show ?thesis by (simp add: cleaned_state_def)
  qed
  ultimately show ?thesis
    using X(5) Y(5,6) c2 by (intro exI [of _ "X \<union> Y"]) simp
qed

lemma cleaned_state_inv: "timelock_inv s \<Longrightarrow> timelock_inv (cleaned_state X s)"
proof -
  assume inv: "timelock_inv s"
  have "index_ok (cleaned_state X s)"
    using inv by (auto simp: timelock_inv_defs cleaned_state_def restrict_map_def)
  moreover have "ops_ok (cleaned_state X s)"
    using inv by (auto simp: timelock_inv_defs cleaned_state_def restrict_map_def split: if_splits)
  moreover have "config_ok (cleaned_state X s)"
    using inv by (auto simp: timelock_inv_defs cleaned_state_def get_max_pending_ops_def
        intro: le_trans [OF length_filter_le])
  ultimately show ?thesis by (simp add: timelock_inv_def)
qed

lemma cleanup_expired_inv:
  assumes "timelock_inv s" and "cleanup_expired env c l s = Inr (n, s')"
  shows "timelock_inv s'"
proof -
  from cleanup_expired_spec [OF assms] obtain X where "s' = (if X = {} then s
      else publish ''ops_cleaned'' (VU32 (of_nat (card X))) (cleaned_state X s))" by blast
  with assms(1) show ?thesis by (simp add: cleaned_state_inv)
qed

subsection \<open>The machine\<close>

lemma timelock_step_inv:
  assumes "timelock_inv s" and "timelock_step h env call s = Inr s'"
  shows "timelock_inv s'"
proof (cases call)
  case (TQueue p desc tgt d g ds)
  with assms show ?thesis
    by (auto simp: res_simps queue_Inr_iff new_op_def live_op_def intro!: queued_state_inv)
next
  case (TCancel c i)
  with assms show ?thesis
    by (auto simp: res_simps timelock_cancel_Inr_iff live_op_def intro!: finalized_state_inv)
next
  case (TExecute c i)
  with assms show ?thesis
    by (auto simp: res_simps timelock_execute_Inr_iff live_op_def intro!: finalized_state_inv)
next
  case (TUpdateDescription c i d)
  with assms show ?thesis
    by (auto simp: res_simps update_description_Inr_iff live_op_def intro!: op_replaced_inv)
next
  case (TCleanupExpired c l)
  with assms show ?thesis by (auto simp: res_simps intro: cleanup_expired_inv)
next
  case (TSetMinDelay c d)
  with assms show ?thesis
    by (auto simp: res_simps set_min_delay_Inr_iff timelock_inv_defs get_max_pending_ops_def)
next
  case (TTransferAdmin c n)
  with assms show ?thesis
    by (auto simp: res_simps timelock_transfer_admin_Inr_iff timelock_inv_defs get_max_pending_ops_def)
next
  case (TInitialize a d m)
  with assms show ?thesis by (auto simp: res_simps intro: timelock_inv_initialize)
qed

interpretation timelock_machine: contract_machine "timelock_step h" timelock_empty timelock_inv
  by unfold_locales (auto intro: timelock_inv_empty timelock_step_inv)

text \<open>The calls \<open>require_admin_simple!\<close> guards, and what the others may change.\<close>

fun timelock_gated :: "timelock_call \<Rightarrow> address option" where
  "timelock_gated (TInitialize a d m) = None"
| "timelock_gated (TQueue p desc tgt d g ds) = Some p"
| "timelock_gated (TCancel c i) = Some c"
| "timelock_gated (TExecute c i) = Some c"
| "timelock_gated (TUpdateDescription c i d) = Some c"
| "timelock_gated (TCleanupExpired c l) = None"
| "timelock_gated (TSetMinDelay c d) = Some c"
| "timelock_gated (TTransferAdmin c n) = Some c"

definition timelock_frame :: "timelock \<Rightarrow> timelock \<Rightarrow> bool" where
  "timelock_frame s s' \<longleftrightarrow> min_delay_key s' = min_delay_key s \<and> max_pending_key s' = max_pending_key s
     \<and> ops s' \<subseteq>\<^sub>m ops s \<and> deps_key s' \<subseteq>\<^sub>m deps_key s
     \<and> set (pending_ops s') \<subseteq> set (pending_ops s)"

lemma timelock_frame_refl: "timelock_frame s s"
  by (simp add: timelock_frame_def)

lemma timelock_frame_trans:
  "timelock_frame s s' \<Longrightarrow> timelock_frame s' s'' \<Longrightarrow> timelock_frame s s''"
  by (auto simp: timelock_frame_def intro: map_le_trans)

lemma timelock_open_frame:
  assumes "timelock_inv s" and "timelock_step h env c s = Inr s'" and "timelock_gated c = None"
    and "admin_key s = Some a"
  shows "admin_key s' = Some a \<and> timelock_frame s s'"
proof (cases c)
  case (TCleanupExpired c l)
  with assms(2) obtain n where "cleanup_expired env c l s = Inr (n, s')" by (auto simp: res_simps)
  from cleanup_expired_spec [OF assms(1) this] obtain X where "s' = (if X = {} then s
      else publish ''ops_cleaned'' (VU32 (of_nat (card X))) (cleaned_state X s))" by blast
  with assms(4) show ?thesis
    by (auto simp: timelock_frame_def cleaned_state_def map_le_def restrict_map_def)
qed (use assms in \<open>auto simp: res_simps timelock_initialize_Inr_iff\<close>)

interpretation timelock_admin: admin_gated "timelock_step h" timelock_empty timelock_inv
    admin_key timelock_gated timelock_frame
proof unfold_locales
  fix env c s s' a
  assume "timelock_step h env c s = Inr s'" and "timelock_gated c = Some a"
  then show "auth env a \<and> admin_key s = Some a"
    by (cases c) (auto simp: res_simps timelock_call_iffs)
qed (erule (3) timelock_open_frame, rule timelock_frame_refl, erule (1) timelock_frame_trans)

subsection \<open>Where a stored operation comes from\<close>

text \<open>What stays of an operation while it is stored, and what its call to \<open>queue\<close> has set.\<close>

definition same_plan :: "op \<Rightarrow> op \<Rightarrow> bool" where
  "same_plan op0 op \<longleftrightarrow> eta op0 = eta op \<and> target op0 = target op
     \<and> grace_period_seconds op0 = grace_period_seconds op"

definition queued_by ::
    "crypto \<Rightarrow> env \<Rightarrow> address \<Rightarrow> string \<Rightarrow> address \<Rightarrow> u64 \<Rightarrow> u64 \<Rightarrow> bytes list \<Rightarrow> bytes \<Rightarrow> op
      \<Rightarrow> timelock \<Rightarrow> bool" where
  "queued_by h env p desc tgt d g ds i op s \<longleftrightarrow>
     (\<exists>s1. queue h env p desc tgt d g ds s = Inr (i, s1))
     \<and> checked_add (timestamp env) d = Some (eta op) \<and> target op = tgt \<and> grace_period_seconds op = g"

lemma timelock_step_origin:
  assumes "timelock_inv s" and "timelock_step h env call s = Inr s'" and "ops s' i = Some op"
  shows "(\<exists>op0. ops s i = Some op0 \<and> same_plan op0 op \<and> load_deps i s' = load_deps i s)
     \<or> (\<exists>p desc tgt d g ds. call = TQueue p desc tgt d g ds \<and> queued_by h env p desc tgt d g ds i op s
          \<and> load_deps i s' = ds)"
proof (cases call)
  case (TQueue p desc tgt d g ds)
  with assms(2) obtain op_id where r: "queue h env p desc tgt d g ds s = Inr (op_id, s')"
    by (auto simp: res_simps)
  then obtain at where q: "checked_add (timestamp env) d = Some at" "ops s op_id = None"
      "ops s' = (ops s)(op_id \<mapsto> new_op p desc tgt at g)"
      "deps_key s' = (if ds \<noteq> [] then (deps_key s)(op_id \<mapsto> ds) else deps_key s)"
    by (auto simp: queue_Inr_iff queued_state_def)
  show ?thesis
  proof (cases "i = op_id")
    case True
    with q(3) assms(3) have "op = new_op p desc tgt at g" by simp
    then have "queued_by h env p desc tgt d g ds i op s"
      using r q(1) True by (auto simp: queued_by_def new_op_def)
    moreover have "deps_key s op_id = None" using assms(1) q(2) by (simp add: timelock_inv_defs)
    then have "load_deps i s' = ds" using True by (simp add: load_deps_def q(4))
    ultimately show ?thesis using TQueue by blast
  next
    case False
    with q(3,4) assms(3) show ?thesis by (auto simp: same_plan_def load_deps_def)
  qed
next
  case (TCleanupExpired c l)
  with assms(2) obtain n where "cleanup_expired env c l s = Inr (n, s')" by (auto simp: res_simps)
  from cleanup_expired_spec [OF assms(1) this] obtain X where "s' = (if X = {} then s
      else publish ''ops_cleaned'' (VU32 (of_nat (card X))) (cleaned_state X s))" by blast
  with assms(3) show ?thesis
    by (auto simp: cleaned_state_def restrict_map_def same_plan_def load_deps_def split: if_splits)
qed (use assms(2,3) in \<open>auto simp: res_simps timelock_call_iffs finalized_state_def same_plan_def load_deps_def
      split: if_splits\<close>)

lemma stored_op_was_queued:
  assumes "ops (run_txs (timelock_step h) timelock_empty txs) i = Some op"
  shows "\<exists>pre envq p desc d post.
     txs = pre @ (envq, TQueue p desc (target op) d (grace_period_seconds op)
       (load_deps i (run_txs (timelock_step h) timelock_empty txs))) # post
     \<and> queued_by h envq p desc (target op) d (grace_period_seconds op)
         (load_deps i (run_txs (timelock_step h) timelock_empty txs)) i op
         (run_txs (timelock_step h) timelock_empty pre)"
  using assms
proof (induction txs arbitrary: op rule: rev_induct)
  case Nil
  then show ?case by (simp add: timelock_empty_def)
next
  case (snoc tx txs)
  obtain env call where tx: "tx = (env, call)" by force
  let ?s = "run_txs (timelock_step h) timelock_empty txs"
  let ?s' = "run_txs (timelock_step h) timelock_empty (txs @ [tx])"
  have old: ?case if o: "ops ?s i = Some op0" "same_plan op0 op" "load_deps i ?s' = load_deps i ?s" for op0
  proof -
    have same: "target op0 = target op" "grace_period_seconds op0 = grace_period_seconds op" "eta op0 = eta op"
      using o(2) by (simp_all add: same_plan_def)
    from snoc.IH [OF o(1)] obtain pre envq p desc d post where
      q: "txs = pre @ (envq, TQueue p desc (target op) d (grace_period_seconds op) (load_deps i ?s')) # post"
        "queued_by h envq p desc (target op) d (grace_period_seconds op) (load_deps i ?s') i op0
           (run_txs (timelock_step h) timelock_empty pre)"
      unfolding same o(3) by blast
    have "queued_by h envq p desc (target op) d (grace_period_seconds op) (load_deps i ?s') i op
        (run_txs (timelock_step h) timelock_empty pre)"
      using q(2) same by (simp add: queued_by_def)
    moreover have "txs @ [tx] =
        pre @ (envq, TQueue p desc (target op) d (grace_period_seconds op) (load_deps i ?s')) # post @ [tx]"
      using q(1) by simp
    ultimately show ?thesis by blast
  qed
  show ?case
  proof (cases "timelock_step h env call ?s")
    case (Inl e)
    with tx have eq: "?s' = ?s" by (simp add: run_txs_append)
    with snoc.prems have "ops ?s i = Some op" by simp
    then show ?thesis using old eq by (simp add: same_plan_def)
  next
    case (Inr s')
    with tx have eq: "?s' = s'" by (simp add: run_txs_append)
    with snoc.prems have "ops s' i = Some op" by simp
    from timelock_step_origin [OF timelock_machine.invar_run Inr this] show ?thesis
    proof
      assume "\<exists>op0. ops ?s i = Some op0 \<and> same_plan op0 op \<and> load_deps i s' = load_deps i ?s"
      then show ?thesis using old eq by auto
    next
      assume "\<exists>p desc tgt d g ds. call = TQueue p desc tgt d g ds \<and> queued_by h env p desc tgt d g ds i op ?s
          \<and> load_deps i s' = ds"
      then obtain p desc d where "call = TQueue p desc (target op) d (grace_period_seconds op) (load_deps i ?s')"
        "queued_by h env p desc (target op) d (grace_period_seconds op) (load_deps i ?s') i op ?s"
        unfolding eq by (auto simp: queued_by_def)
      then show ?thesis using tx by blast
    qed
  qed
qed

subsection \<open>Dependencies\<close>

lemma within_grace_iff: "within_grace op now \<longleftrightarrow> \<not> is_expired op now"
  by (auto simp: within_grace_def is_expired_def split: option.splits)

text \<open>
  The specification of a blocked operation: some dependency that is not executed, followed
  through dependencies that are not executed, is missing, cancelled or expired.
\<close>

inductive doomed :: "timelock \<Rightarrow> u64 \<Rightarrow> bytes \<Rightarrow> bool" for s now where
  missing: "d \<in> set (load_deps i s) \<Longrightarrow> ops s d = None \<Longrightarrow> doomed s now i"
| dep_cancelled: "d \<in> set (load_deps i s) \<Longrightarrow> ops s d = Some op \<Longrightarrow> cancelled op \<Longrightarrow> doomed s now i"
| dep_expired: "d \<in> set (load_deps i s) \<Longrightarrow> ops s d = Some op \<Longrightarrow> \<not> executed op \<Longrightarrow>
     is_expired op now \<Longrightarrow> doomed s now i"
| nested: "d \<in> set (load_deps i s) \<Longrightarrow> ops s d = Some op \<Longrightarrow> \<not> executed op \<Longrightarrow>
     doomed s now d \<Longrightarrow> doomed s now i"

inductive_simps doomed_iff: "doomed s now i"

text \<open>\<open>dep_chain s i n\<close>: a chain of \<open>n\<close> stored, unexecuted dependencies starts at \<open>i\<close>.\<close>

primrec dep_chain :: "timelock \<Rightarrow> nat \<Rightarrow> bytes \<Rightarrow> bool" where
  "dep_chain s 0 i = True"
| "dep_chain s (Suc n) i =
     (\<exists>d\<in>set (load_deps i s). \<exists>op. ops s d = Some op \<and> \<not> executed op \<and> dep_chain s n d)"

lemma case_option_True:
  "(case x of None \<Rightarrow> True | Some v \<Rightarrow> P v) \<longleftrightarrow> x = None \<or> (\<exists>v. x = Some v \<and> P v)"
  by (cases x) auto

lemma has_blocked_at_depth_iff:
  "has_blocked_dependency_at_depth s now i (Suc MAX_DEPENDENCY_DEPTH - n) \<longleftrightarrow>
     doomed s now i \<or> dep_chain s n i" if "n \<le> Suc MAX_DEPENDENCY_DEPTH"
  using that
proof (induction n arbitrary: i)
  case 0
  then show ?case by (simp add: has_blocked_dependency_at_depth.simps)
next
  case (Suc n)
  let ?k = "MAX_DEPENDENCY_DEPTH - n"
  have le: "\<not> MAX_DEPENDENCY_DEPTH < ?k" and suc: "Suc ?k = Suc MAX_DEPENDENCY_DEPTH - n"
    using Suc.prems by simp_all
  have "has_blocked_dependency_at_depth s now i ?k \<longleftrightarrow>
      (\<exists>d\<in>set (load_deps i s). ops s d = None \<or> (\<exists>op. ops s d = Some op \<and> (cancelled op
         \<or> \<not> executed op \<and> is_expired op now
         \<or> \<not> executed op \<and> (doomed s now d \<or> dep_chain s n d))))"
    using le Suc.IH Suc.prems by (subst has_blocked_dependency_at_depth.simps)
      (simp add: suc list_ex_iff case_option_True)
  also have "\<dots> \<longleftrightarrow> doomed s now i \<or> dep_chain s (Suc n) i"
    by (subst doomed_iff) auto
  finally show ?case by simp
qed

lemma has_blocked_iff:
  "has_blocked_dependency env i s \<longleftrightarrow>
     doomed s (timestamp env) i \<or> dep_chain s (Suc MAX_DEPENDENCY_DEPTH) i"
  using has_blocked_at_depth_iff [of "Suc MAX_DEPENDENCY_DEPTH" s "timestamp env" i]
  by (simp add: has_blocked_dependency_def)

lemma require_dependencies_executed_iff:
  "require_dependencies_executed i s = Inr () \<longleftrightarrow>
     (\<forall>d\<in>set (load_deps i s). \<exists>op. ops s d = Some op \<and> executed op)"
proof -
  have "(if \<not> unwrap_or (map_option executed (ops s d)) False
         then Inl (Err DependencyNotExecuted) else Inr ()) = (Inr () :: (timelock_error, unit) res)
      \<longleftrightarrow> (\<exists>op. ops s d = Some op \<and> executed op)" for d
    by (cases "ops s d") auto
  then show ?thesis by (simp add: require_dependencies_executed_def res_simps Let_def)
qed

lemma doomed_not_executable:
  assumes "timelock_inv s" and "doomed s now i"
  shows "require_dependencies_executed i s \<noteq> Inr ()"
  using assms(2)
proof cases
  case (dep_cancelled d op)
  with assms(1) have "\<not> executed op" by (auto simp: timelock_inv_defs)
  with dep_cancelled show ?thesis by (fastforce simp: require_dependencies_executed_iff)
qed (fastforce simp: require_dependencies_executed_iff)+

lemma executed_deps_not_blocked:
  assumes "timelock_inv s" and "require_dependencies_executed i s = Inr ()"
  shows "\<not> has_blocked_dependency env i s"
proof -
  have "\<not> doomed s (timestamp env) i" using doomed_not_executable assms by blast
  moreover have "\<not> dep_chain s (Suc MAX_DEPENDENCY_DEPTH) i"
    using assms(2) by (auto simp: require_dependencies_executed_iff)
  ultimately show ?thesis by (simp add: has_blocked_iff)
qed

subsection \<open>Cleanup keeps what live operations need\<close>

definition waiting :: "u64 \<Rightarrow> bytes \<Rightarrow> timelock \<Rightarrow> bool" where
  "waiting now i s \<longleftrightarrow> (\<exists>op. ops s i = Some op \<and> live_op op \<and> \<not> is_expired op now)"

lemma waiting_pending: "timelock_inv s \<Longrightarrow> waiting now i s \<Longrightarrow> i \<in> set (pending_ops s)"
  by (auto simp: timelock_inv_defs waiting_def)

lemma waiting_deps_referenced:
  assumes "timelock_inv s" and "waiting now i s" and "d \<in> set (load_deps i s)"
  shows "d \<in> set (referenced_ids now s)"
proof -
  from assms(2) obtain op where "ops s i = Some op" "\<not> is_expired op now"
    by (auto simp: waiting_def)
  with waiting_pending [OF assms(1,2)] assms(3) show ?thesis
    unfolding referenced_ids_def by (auto intro!: bexI [of _ i])
qed

lemma cleanup_keeps_waiting:
  assumes "timelock_inv s" and "X \<subseteq> cleanable now s" and "waiting now i s"
  shows "i \<notin> X" and "load_deps i (cleaned_state X s) = load_deps i s"
    and "\<forall>d\<in>set (load_deps i s). ops (cleaned_state X s) d = ops s d"
proof -
  from assms show "i \<notin> X"
    by (fastforce simp: timelock_inv_defs waiting_def cleanable_def)
  then show "load_deps i (cleaned_state X s) = load_deps i s"
    by (simp add: load_deps_def cleaned_state_def)
  have "d \<notin> X" if "d \<in> set (load_deps i s)" for d
    using waiting_deps_referenced [OF assms(1,3) that] assms(2) by (auto simp: cleanable_def)
  then show "\<forall>d\<in>set (load_deps i s). ops (cleaned_state X s) d = ops s d"
    by (simp add: cleaned_state_def)
qed

lemma publish_blocked:
  "has_blocked_dependency_at_depth (publish t d s) now i k = has_blocked_dependency_at_depth s now i k"
proof (induction "Suc MAX_DEPENDENCY_DEPTH - k" arbitrary: i k)
  case 0
  then show ?case by (simp add: has_blocked_dependency_at_depth.simps)
next
  case (Suc n)
  then have "has_blocked_dependency_at_depth (publish t d s) now j (k + 1)
      = has_blocked_dependency_at_depth s now j (k + 1)" for j by simp
  then show ?case
    by (subst (1 2) has_blocked_dependency_at_depth.simps) (simp add: load_deps_def cong: option.case_cong)
qed

lemma cleanup_keeps_blocked:
  assumes "timelock_inv s" and "X \<subseteq> cleanable now s" and "waiting now i s"
  shows "has_blocked_dependency_at_depth (cleaned_state X s) now i k
       = has_blocked_dependency_at_depth s now i k"
  using assms(3)
proof (induction "Suc MAX_DEPENDENCY_DEPTH - k" arbitrary: i k)
  case 0
  then show ?case by (simp add: has_blocked_dependency_at_depth.simps)
next
  case (Suc n)
  note keep = cleanup_keeps_waiting [OF assms(1,2) Suc.prems]
  have IH: "has_blocked_dependency_at_depth (cleaned_state X s) now d (Suc k)
      = has_blocked_dependency_at_depth s now d (Suc k)"
    if "ops s d = Some op" "\<not> executed op" "\<not> cancelled op" "\<not> is_expired op now" for d op
    using Suc.hyps that by (intro Suc.hyps(1)) (auto simp: waiting_def live_op_def)
  let ?bad = "\<lambda>s d. case ops s d of None \<Rightarrow> True | Some op \<Rightarrow> cancelled op
      \<or> \<not> executed op \<and> is_expired op now
      \<or> \<not> executed op \<and> has_blocked_dependency_at_depth s now d (k + 1)"
  have "?bad (cleaned_state X s) d = ?bad s d" if "d \<in> set (load_deps i s)" for d
    using keep(3) that IH by (auto split: option.splits)
  then have "(\<exists>d\<in>set (load_deps i s). ?bad (cleaned_state X s) d)
      = (\<exists>d\<in>set (load_deps i s). ?bad s d)" by (intro bex_cong) simp_all
  then show ?case
    using keep(2) by (subst (1 2) has_blocked_dependency_at_depth.simps) (simp add: list_ex_iff)
qed

subsection \<open>Queries\<close>

lemma select_by_status_fst:
  "map fst (select_by_status env st is s)
     = filter (\<lambda>i. \<exists>op. ops s i = Some op \<and> status_matches env st i op s) is"
  by (induction env st "is" s rule: select_by_status.induct) (auto split: option.splits)

lemma select_by_status_ops: "(i, op) \<in> set (select_by_status env st is s) \<Longrightarrow> ops s i = Some op"
  by (induction env st "is" s rule: select_by_status.induct) (auto split: option.splits if_splits)

lemma count_by_status_eq:
  "count_by_status env st is s n = n + of_nat (length (select_by_status env st is s))"
  by (induction env st "is" s n rule: count_by_status.induct) (auto split: option.splits)

lemma status_matches_iff:
  assumes "ops s i = Some op" and "live_op op"
    and "checked_add (eta op) (grace_period_seconds op) \<noteq> None"
  shows "status_matches env st i op s \<longleftrightarrow> get_operation_status env i s = Some st"
proof -
  from assms(3) obtain e where e: "checked_add (eta op) (grace_period_seconds op) = Some e" by auto
  then have "eta op \<le> e" by (simp add: checked_add_Some_iff word_conv)
  with assms(1,2) e show ?thesis
    by (cases st) (auto simp: status_matches_def get_operation_status_def within_grace_def
        live_op_def Let_def not_less not_le)
qed

text \<open>Queueing an operation leaves the dependency chains below stored operations as they were.\<close>

lemma dep_chain_queued:
  assumes "ops s i = None" and "dep_chain s n d" and "d \<noteq> i"
    and "ops s' = (ops s)(i \<mapsto> new)" and "deps_key s' = (deps_key s)(i \<mapsto> ds)"
  shows "dep_chain s' n d"
  using assms(2,3)
proof (induction n arbitrary: d)
  case (Suc n)
  then obtain c op where c: "c \<in> set (load_deps d s)" "ops s c = Some op" "\<not> executed op"
      "dep_chain s n c" by auto
  then have "c \<noteq> i" using assms(1) by auto
  with c Suc show ?case using assms(4,5) by (auto simp: load_deps_def)
qed simp

lemma healthy_not_doomed:
  assumes "\<And>i d. d \<in> set (load_deps i s) \<Longrightarrow>
             \<exists>op. ops s d = Some op \<and> \<not> cancelled op \<and> \<not> is_expired op now"
  shows "\<not> doomed s now i"
proof
  assume "doomed s now i"
  then show False by induction (fastforce dest: assms)+
qed

subsection \<open>Properties\<close>

text \<open>C23. In every state the contract can reach, the pending index lists, without repetition,
  exactly the stored operations that are neither executed nor cancelled, the finalized index
  exactly the others, no operation is both executed and cancelled, every grace period is at most
  30 days, dependencies are recorded only for stored operations, the minimum delay is set with
  the admin and never zero, and the queue respects its configured size. Dependencies need not be
  acyclic (\<open>dependency_cycle_reachable\<close> below).\<close>

theorem timelock_reachable_inv: "timelock_inv (run_txs (timelock_step h) timelock_empty txs)"
  by (rule timelock_machine.invar_run)

text \<open>C1. No operation is executed early or late. Whatever transactions came before, the
  operation a successful \<open>execute\<close> runs is stored because of a call to \<open>queue\<close> among them that
  succeeded and returned its id; its eta is the time of that call plus the delay asked for, which
  was at least the then minimum delay, and its target, grace period and dependencies are those of
  that call. The execution happens at the eta or later, no later than the grace period after it,
  and when all these dependencies are executed.\<close>

theorem execute_respects_delay:
  assumes "s = run_txs (timelock_step h) timelock_empty txs"
    and "timelock_execute env c i s = Inr (u, s')"
  shows "\<exists>op pre envq p desc d post md s1.
     ops s i = Some op
     \<and> txs = pre @ (envq, TQueue p desc (target op) d (grace_period_seconds op) (load_deps i s)) # post
     \<and> queue h envq p desc (target op) d (grace_period_seconds op) (load_deps i s)
         (run_txs (timelock_step h) timelock_empty pre) = Inr (i, s1)
     \<and> min_delay_key (run_txs (timelock_step h) timelock_empty pre) = Some md \<and> 0 < md \<and> md \<le> d
     \<and> unat (eta op) = unat (timestamp envq) + unat d
     \<and> eta op \<le> timestamp env
     \<and> unat (timestamp env) \<le> unat (eta op) + unat (grace_period_seconds op)
     \<and> (\<forall>dep\<in>set (load_deps i s). \<exists>dep_op. ops s dep = Some dep_op \<and> executed dep_op)"
proof -
  from assms(2) obtain op where op: "ops s i = Some op" "eta op \<le> timestamp env"
      "within_grace op (timestamp env)" "require_dependencies_executed i s = Inr ()"
    by (auto simp: timelock_execute_Inr_iff)
  from stored_op_was_queued [of h txs i op] op(1) obtain pre envq p desc d post where
    txs: "txs = pre @ (envq, TQueue p desc (target op) d (grace_period_seconds op) (load_deps i s)) # post"
    and q: "queued_by h envq p desc (target op) d (grace_period_seconds op) (load_deps i s) i op
      (run_txs (timelock_step h) timelock_empty pre)"
    unfolding assms(1) by blast
  from q obtain s1 where s1: "queue h envq p desc (target op) d (grace_period_seconds op) (load_deps i s)
      (run_txs (timelock_step h) timelock_empty pre) = Inr (i, s1)"
    and eta: "unat (eta op) = unat (timestamp envq) + unat d"
    by (auto simp: queued_by_def checked_add_Some_iff)
  from s1 obtain md where md: "min_delay_key (run_txs (timelock_step h) timelock_empty pre) = Some md" "md \<le> d"
    by (auto simp: queue_Inr_iff)
  then have "0 < md"
    using timelock_machine.invar_run [of h pre] by (auto simp: timelock_inv_defs word_neq_0_conv)
  moreover have "unat (timestamp env) \<le> unat (eta op) + unat (grace_period_seconds op)"
    using op(3) by (auto simp: within_grace_def word_conv checked_add_Some_iff split: option.splits)
  moreover have "\<forall>dep\<in>set (load_deps i s). \<exists>dep_op. ops s dep = Some dep_op \<and> executed dep_op"
    using op(4) by (fastforce simp: require_dependencies_executed_iff)
  ultimately show ?thesis using op(1,2) txs s1 md eta by blast
qed

text \<open>The operations reported Blocked are those whose dependencies doom them (missing,
  cancelled or expired, directly or through dependencies that are not executed), plus those at the
  head of a chain of nine unexecuted dependencies; a doomed operation can indeed not be
  executed.\<close>

theorem blocked_status_spec:
  assumes "timelock_inv s" and "ops s i = Some op" and "live_op op"
    and "\<not> is_expired op (timestamp env)"
  shows "(get_operation_status env i s = Some Blocked \<longleftrightarrow>
            doomed s (timestamp env) i \<or> dep_chain s 9 i)
     \<and> (doomed s (timestamp env) i \<longrightarrow> timelock_execute env c i s \<noteq> Inr (u, s'))"
proof -
  have nine: "Suc MAX_DEPENDENCY_DEPTH = 9" by (simp add: MAX_DEPENDENCY_DEPTH_def)
  have "get_operation_status env i s = Some Blocked \<longleftrightarrow> has_blocked_dependency env i s"
    using assms(2-4) by (simp add: get_operation_status_def live_op_def is_expired_def Let_def)
  moreover have "timelock_execute env c i s \<noteq> Inr (u, s')" if "doomed s (timestamp env) i"
    using doomed_not_executable [OF assms(1) that] by (auto simp: timelock_execute_Inr_iff)
  ultimately show ?thesis by (auto simp: has_blocked_iff nine)
qed

text \<open>Permissionless cleanup is harmless to live operations: whoever calls
  \<open>cleanup_expired\<close>, an operation that was pending and not expired keeps its record, its
  dependencies, its status and the outcome of its dependency check, and at most \<open>limit\<close>
  operations are removed, all of them finalized or expired.\<close>

theorem cleanup_keeps_live_operations:
  assumes "timelock_inv s" and "cleanup_expired env c l s = Inr (n, s')"
    and "ops s i = Some op" and "live_op op" and "\<not> is_expired op (timestamp env)"
  shows "ops s' i = Some op \<and> load_deps i s' = load_deps i s
     \<and> get_operation_status env i s' = get_operation_status env i s
     \<and> require_dependencies_executed i s' = require_dependencies_executed i s
     \<and> unat n \<le> unat l"
proof -
  from cleanup_expired_spec [OF assms(1,2)] obtain X where
    X: "X \<subseteq> cleanable (timestamp env) s" "card X \<le> unat l" "n = of_nat (card X)"
      "s' = (if X = {} then s
        else publish ''ops_cleaned'' (VU32 (of_nat (card X))) (cleaned_state X s))"
    by blast
  have w: "waiting (timestamp env) i s" using assms(3-5) by (auto simp: waiting_def)
  note keep = cleanup_keeps_waiting [OF assms(1) X(1) w]
    and blocked = cleanup_keeps_blocked [OF assms(1) X(1) w]
  have same: "ops s' = ops (cleaned_state X s)" "deps_key s' = deps_key (cleaned_state X s)"
    using X(4) by auto
  have op: "ops s' i = Some op" using keep(1) assms(3) same by (simp add: cleaned_state_def)
  have deps: "load_deps j s' = load_deps j (cleaned_state X s)" for j
    using same by (simp add: load_deps_def)
  have hb: "has_blocked_dependency_at_depth s' now j k
      = has_blocked_dependency_at_depth (cleaned_state X s) now j k" for now j k
    using X(4) by (cases "X = {}") (auto simp: publish_blocked)
  have "require_dependencies_executed i s' = require_dependencies_executed i s"
    using keep same deps by (auto simp: require_dependencies_executed_def intro!: for_each_cong)
  moreover have "get_operation_status env i s' = get_operation_status env i s"
    using op assms(3) blocked hb by (simp add: get_operation_status_def has_blocked_dependency_def Let_def)
  moreover have "unat n \<le> unat l"
    using X(2,3) by (simp add: unat_of_nat)
  ultimately show ?thesis using op deps keep(2) by simp
qed

text \<open>Only the admin's signature moves the timelock: over any sequence of transactions none of
  which the current admin signed, the admin, the minimum delay and the queue limit stay as they
  are, and no operation is added, changed, executed or cancelled; records can only disappear, by
  the permissionless cleanup.\<close>

theorem timelock_needs_admin_signature:
  assumes "timelock_inv s" and "admin_key s = Some a"
    and "\<forall>(env, c)\<in>set txs. \<not> auth env a"
  shows "admin_key (run_txs (timelock_step h) s txs) = Some a
     \<and> min_delay_key (run_txs (timelock_step h) s txs) = min_delay_key s
     \<and> max_pending_key (run_txs (timelock_step h) s txs) = max_pending_key s
     \<and> ops (run_txs (timelock_step h) s txs) \<subseteq>\<^sub>m ops s
     \<and> set (pending_ops (run_txs (timelock_step h) s txs)) \<subseteq> set (pending_ops s)"
  using timelock_admin.unsigned_run [OF assms] by (auto simp: timelock_frame_def)

text \<open>The queries by status agree with \<open>get_operation_status\<close>: the operations listed under a
  status are the pending ones that have it, in queue order, the count is the length of that list,
  and Executed and Cancelled always yield nothing. The expiry time of the pending operations must
  not overflow.\<close>

theorem queries_agree_with_status:
  assumes "timelock_inv s"
    and "\<forall>i\<in>set (pending_ops s). \<forall>op. ops s i = Some op \<longrightarrow>
           checked_add (eta op) (grace_period_seconds op) \<noteq> None"
  shows "map fst (get_operations_by_status env st s)
           = filter (\<lambda>i. get_operation_status env i s = Some st) (pending_ops s)
     \<and> (\<forall>(i, op)\<in>set (get_operations_by_status env st s). get_op i s = Some op)
     \<and> get_operation_count_by_status env st s = of_nat (length (get_operations_by_status env st s))
     \<and> (st \<in> {Executed, Cancelled} \<longrightarrow> get_operations_by_status env st s = [])"
proof -
  have stored: "\<exists>op. ops s i = Some op \<and> live_op op" if "i \<in> set (pending_ops s)" for i
    using assms(1) that by (auto simp: timelock_inv_defs)
  have fst: "map fst (get_operations_by_status env st s)
      = filter (\<lambda>i. \<exists>op. ops s i = Some op \<and> status_matches env st i op s) (pending_ops s)"
    by (simp add: get_operations_by_status_def select_by_status_fst)
  also have "\<dots> = filter (\<lambda>i. get_operation_status env i s = Some st) (pending_ops s)"
    using stored status_matches_iff assms(2) by (intro filter_cong) fastforce+
  finally have list: "map fst (get_operations_by_status env st s)
      = filter (\<lambda>i. get_operation_status env i s = Some st) (pending_ops s)" .
  have "filter (\<lambda>i. \<exists>op. ops s i = Some op \<and> status_matches env st i op s) (pending_ops s) = []"
    if "st \<in> {Executed, Cancelled}"
    using stored that by (fastforce simp: filter_empty_conv status_matches_def live_op_def)
  with fst have "get_operations_by_status env st s = []" if "st \<in> {Executed, Cancelled}"
    using that by simp
  then show ?thesis
    using list select_by_status_ops [of _ _ env st "pending_ops s" s]
    by (auto simp: get_operation_count_by_status_def count_by_status_eq get_op_def
        get_operations_by_status_def)
qed

text \<open>An operation queued on top of the longest dependency chain \<open>queue\<close> accepts is reported
  Blocked at once, although nothing in the chain is cancelled, expired or missing: the walk of
  \<open>has_blocked_dependency\<close> starts one level above the walk of \<open>check_dependency_depth\<close> and
  uses the same bound.\<close>

theorem longest_chain_reported_blocked:
  assumes "queue h env p desc tgt delay grace [d] s = Inr (i, s')"
    and "ops s d = Some op" and "\<not> executed op" and "dep_chain s 8 d"
    and "ops s' i = Some new" and "\<not> is_expired new (timestamp env)"
  shows "get_operation_status env i s' = Some Blocked"
proof -
  from assms(1) obtain at where q: "ops s i = None" "ops s' = (ops s)(i \<mapsto> new_op p desc tgt at grace)"
      "deps_key s' = (deps_key s)(i \<mapsto> [d])"
    by (auto simp: queue_Inr_iff queued_state_def)
  have "i \<noteq> d" using q(1) assms(2) by auto
  have "dep_chain s' 8 d"
    using dep_chain_queued [OF q(1)] q(2,3) assms(2,4) \<open>i \<noteq> d\<close> by simp
  then have "dep_chain s' (Suc 8) i"
    unfolding dep_chain.simps(2) using q(2,3) assms(2,3) \<open>i \<noteq> d\<close> by (simp add: load_deps_def)
  then have "has_blocked_dependency env i s'"
    by (simp add: has_blocked_iff MAX_DEPENDENCY_DEPTH_def)
  moreover have "live_op new" using assms(5) q(2) by (auto simp: new_op_def live_op_def)
  ultimately show ?thesis
    using assms(5,6) by (simp add: get_operation_status_def live_op_def is_expired_def Let_def)
qed

subsection \<open>Concrete runs\<close>

definition demo_crypto :: crypto where
  "demo_crypto = \<lparr>string_xdr = map of_char, address_xdr = (\<lambda>_. []), sha256 = (\<lambda>b. b)\<rparr>"

definition demo_env :: "u64 \<Rightarrow> env" where
  "demo_env t = \<lparr>timestamp = t, sequence = 0, auth = (\<lambda>_. True)\<rparr>"

lemma demo_env_sel [simp]: "timestamp (demo_env t) = t" "auth (demo_env t) a"
  by (simp_all add: demo_env_def)

lemmas timelock_eval = timelock_empty_def timelock_initialize_def queue_def timelock_cancel_def
  timelock_execute_def cleanup_expired_def returns_def checked_add_def check_deps_def Let_def
  add_to_pending_ops_def add_to_finalized_ops_def remove_from_pending_ops_def publish_def
  require_op_pending_def require_dependencies_executed_def load_deps_def op_id_of_def
  to_be_bytes_def demo_crypto_def MAX_GRACE_PERIOD_SECONDS_def require_admin_def reject_if_def
  referenced_ids_def is_expired_def remove_op_storage_def

definition demo_txs :: "(env \<times> timelock_call) list" where
  "demo_txs = [(demo_env 0, TInitialize (Address 0) 10 0),
     (demo_env 5, TQueue (Address 0) ''d'' (Address 1) 10 7 [])]"

definition demo_id :: bytes where
  "demo_id = [100, 0, 0, 0, 0, 0, 0, 0, 15]"

definition demo_op :: op where
  "demo_op = \<lparr>proposer = Address 0, description = ''d'', target = Address 1, eta = 15,
     grace_period_seconds = 7, executed = False, cancelled = False\<rparr>"

lemma demo_state:
  "run_txs (timelock_step demo_crypto) timelock_empty demo_txs =
     \<lparr>admin_key = Some (Address 0),
      events = [(''op_queued'', VTuple [VBytes demo_id, VAddr (Address 1), VU64 15, VU64 7])],
      min_delay_key = Some 10, ops = [demo_id \<mapsto> demo_op], pending_ops = [demo_id],
      max_pending_key = Some 0, deps_key = Map.empty, finalized_ops = []\<rparr>"
  by (simp add: demo_txs_def timelock_eval demo_op_def demo_id_def)

theorem execute_respects_delay_witness:
  "\<exists>s'. timelock_execute (demo_env 16) (Address 0) demo_id
          (run_txs (timelock_step demo_crypto) timelock_empty demo_txs) = Inr ((), s')
     \<and> (\<exists>pre envq p desc d post md.
          demo_txs = pre @ (envq, TQueue p desc (Address 1) d 7 []) # post
          \<and> min_delay_key (run_txs (timelock_step demo_crypto) timelock_empty pre) = Some md
          \<and> 0 < md \<and> md \<le> d \<and> 15 = unat (timestamp envq) + unat d)"
proof -
  obtain s' where x: "timelock_execute (demo_env 16) (Address 0) demo_id
      (run_txs (timelock_step demo_crypto) timelock_empty demo_txs) = Inr ((), s')"
    unfolding demo_state by (simp add: timelock_eval demo_op_def)
  have op: "ops (run_txs (timelock_step demo_crypto) timelock_empty demo_txs) demo_id = Some demo_op"
    "load_deps demo_id (run_txs (timelock_step demo_crypto) timelock_empty demo_txs) = []"
    by (simp_all add: demo_state load_deps_def)
  from execute_respects_delay [OF refl x] op obtain pre envq p desc d post md where
    "demo_txs = pre @ (envq, TQueue p desc (target demo_op) d (grace_period_seconds demo_op) []) # post"
    "min_delay_key (run_txs (timelock_step demo_crypto) timelock_empty pre) = Some md" "0 < md" "md \<le> d"
    "unat (eta demo_op) = unat (timestamp envq) + unat d" by auto
  moreover have "target demo_op = Address 1" "grace_period_seconds demo_op = 7" "unat (eta demo_op) = 15"
    by (simp_all add: demo_op_def)
  ultimately show ?thesis using x by metis
qed

text \<open>
  The dependencies of the stored operations can be cyclic. \<open>b\<close> depends on \<open>a\<close>; both are cancelled,
  a clean-up of one operation removes \<open>a\<close> only, and \<open>a\<close> is queued again under its old id, now
  depending on \<open>b\<close>.
\<close>

definition cycle_id :: "char \<Rightarrow> bytes" where
  "cycle_id c = [of_char c, 0, 0, 0, 0, 0, 0, 0, 15]"

definition cycle_txs :: "(env \<times> timelock_call) list" where
  "cycle_txs = map (Pair (demo_env 5)) [TInitialize (Address 0) 10 0,
     TQueue (Address 0) ''a'' (Address 1) 10 7 [],
     TQueue (Address 0) ''b'' (Address 1) 10 7 [cycle_id CHR ''a''],
     TCancel (Address 0) (cycle_id CHR ''a''), TCancel (Address 0) (cycle_id CHR ''b''),
     TCleanupExpired (Address 9) 1,
     TQueue (Address 0) ''a'' (Address 1) 10 7 [cycle_id CHR ''b'']]"

lemma dependency_cycle_reachable:
  "load_deps (cycle_id CHR ''a'') (run_txs (timelock_step demo_crypto) timelock_empty cycle_txs) = [cycle_id CHR ''b'']
   \<and> load_deps (cycle_id CHR ''b'') (run_txs (timelock_step demo_crypto) timelock_empty cycle_txs) = [cycle_id CHR ''a'']"
  by (simp add: cycle_txs_def timelock_eval cycle_id_def check_dependency_depth.simps MAX_DEPENDENCY_DEPTH_def)

theorem blocked_status_spec_witness:
  "(get_operation_status (demo_env 16) demo_id
      (run_txs (timelock_step demo_crypto) timelock_empty demo_txs) = Some Blocked) =
   (doomed (run_txs (timelock_step demo_crypto) timelock_empty demo_txs) 16 demo_id
     \<or> dep_chain (run_txs (timelock_step demo_crypto) timelock_empty demo_txs) 9 demo_id)"
proof -
  let ?s = "run_txs (timelock_step demo_crypto) timelock_empty demo_txs"
  have "timelock_inv ?s" by (rule timelock_machine.invar_run)
  moreover have "ops ?s demo_id = Some demo_op" by (simp add: demo_state)
  moreover have "live_op demo_op" by (simp add: live_op_def demo_op_def)
  moreover have "\<not> is_expired demo_op (timestamp (demo_env 16))"
    by (simp add: timelock_eval demo_op_def)
  ultimately show ?thesis using blocked_status_spec [of ?s demo_id demo_op "demo_env 16"] by simp
qed

text \<open>A second operation queued at time 20 is live at time 25, when the first one has expired.\<close>

definition demo_txs2 :: "(env \<times> timelock_call) list" where
  "demo_txs2 = demo_txs @ [(demo_env 20, TQueue (Address 0) ''e'' (Address 1) 10 7 [])]"

definition demo_id2 :: bytes where
  "demo_id2 = [101, 0, 0, 0, 0, 0, 0, 0, 30]"

definition demo_op2 :: op where
  "demo_op2 = \<lparr>proposer = Address 0, description = ''e'', target = Address 1, eta = 30,
     grace_period_seconds = 7, executed = False, cancelled = False\<rparr>"

lemma demo_state2:
  "run_txs (timelock_step demo_crypto) timelock_empty demo_txs2 =
     \<lparr>admin_key = Some (Address 0),
      events = [(''op_queued'', VTuple [VBytes demo_id, VAddr (Address 1), VU64 15, VU64 7]),
                (''op_queued'', VTuple [VBytes demo_id2, VAddr (Address 1), VU64 30, VU64 7])],
      min_delay_key = Some 10, ops = [demo_id \<mapsto> demo_op, demo_id2 \<mapsto> demo_op2],
      pending_ops = [demo_id, demo_id2],
      max_pending_key = Some 0, deps_key = Map.empty, finalized_ops = []\<rparr>"
  by (simp add: demo_txs2_def run_txs_append demo_state)
    (simp add: timelock_eval demo_op2_def demo_id_def demo_id2_def)

theorem cleanup_keeps_live_operations_witness:
  "\<exists>s'. cleanup_expired (demo_env 25) (Address 9) 5
          (run_txs (timelock_step demo_crypto) timelock_empty demo_txs2) = Inr (1, s')
     \<and> ops s' demo_id = None \<and> ops s' demo_id2 = Some demo_op2"
proof -
  let ?s = "run_txs (timelock_step demo_crypto) timelock_empty demo_txs2"
  obtain s' where run: "cleanup_expired (demo_env 25) (Address 9) 5 ?s = Inr (1, s')"
    and gone: "ops s' demo_id = None"
    unfolding demo_state2
    by (simp add: timelock_eval demo_op_def demo_op2_def demo_id_def demo_id2_def)
  have "timelock_inv ?s" by (rule timelock_machine.invar_run)
  moreover have "ops ?s demo_id2 = Some demo_op2" by (simp add: demo_state2)
  moreover have "live_op demo_op2" by (simp add: live_op_def demo_op2_def)
  moreover have "\<not> is_expired demo_op2 (timestamp (demo_env 25))"
    by (simp add: timelock_eval demo_op2_def)
  ultimately have "ops s' demo_id2 = Some demo_op2"
    using cleanup_keeps_live_operations [OF _ run] by blast
  with run gone show ?thesis by blast
qed

theorem timelock_needs_admin_signature_witness:
  "ops (run_txs (timelock_step demo_crypto)
          (run_txs (timelock_step demo_crypto) timelock_empty demo_txs)
          [((demo_env 40)\<lparr>auth := (\<lambda>a. a = Address 9)\<rparr>, TCleanupExpired (Address 9) 5),
           ((demo_env 40)\<lparr>auth := (\<lambda>a. a = Address 9)\<rparr>, TSetMinDelay (Address 0) 1)])
     \<subseteq>\<^sub>m [demo_id \<mapsto> demo_op]"
proof -
  let ?s = "run_txs (timelock_step demo_crypto) timelock_empty demo_txs"
  let ?txs = "[((demo_env 40)\<lparr>auth := (\<lambda>a. a = Address 9)\<rparr>, TCleanupExpired (Address 9) 5),
           ((demo_env 40)\<lparr>auth := (\<lambda>a. a = Address 9)\<rparr>, TSetMinDelay (Address 0) 1)]"
  have "timelock_inv ?s" by (rule timelock_machine.invar_run)
  moreover have "admin_key ?s = Some (Address 0)" by (simp add: demo_state)
  ultimately have "ops (run_txs (timelock_step demo_crypto) ?s ?txs) \<subseteq>\<^sub>m ops ?s"
    using timelock_needs_admin_signature [of ?s "Address 0" ?txs demo_crypto] by simp
  then show ?thesis by (simp add: demo_state)
qed

theorem queries_agree_with_status_witness:
  "map fst (get_operations_by_status (demo_env 16) Ready
      (run_txs (timelock_step demo_crypto) timelock_empty demo_txs)) = [demo_id]"
proof -
  let ?s = "run_txs (timelock_step demo_crypto) timelock_empty demo_txs"
  have "timelock_inv ?s" by (rule timelock_machine.invar_run)
  moreover have "\<forall>i\<in>set (pending_ops ?s). \<forall>op. ops ?s i = Some op \<longrightarrow>
      checked_add (eta op) (grace_period_seconds op) \<noteq> None"
    by (simp add: demo_state demo_op_def checked_add_def)
  moreover have "get_operation_status (demo_env 16) demo_id ?s = Some Ready"
    unfolding demo_state by (simp add: get_operation_status_def demo_op_def checked_add_def Let_def
        has_blocked_dependency_def has_blocked_dependency_at_depth.simps load_deps_def
        MAX_DEPENDENCY_DEPTH_def)
  moreover have "pending_ops ?s = [demo_id]" by (simp add: demo_state)
  ultimately show ?thesis using queries_agree_with_status [of ?s "demo_env 16" Ready] by simp
qed

text \<open>Nine pending operations in a chain, none of them executed, cancelled or expired.\<close>

definition chain_op :: op where
  "chain_op = \<lparr>proposer = Address 0, description = ''c'', target = Address 1, eta = 10,
     grace_period_seconds = 7, executed = False, cancelled = False\<rparr>"

definition chain_ids :: "bytes list" where
  "chain_ids = [[0], [1], [2], [3], [4], [5], [6], [7], [8]]"

definition chain_state :: timelock where
  "chain_state = timelock_empty\<lparr>admin_key := Some (Address 0), min_delay_key := Some 10,
     ops := (\<lambda>i. if i \<in> set chain_ids then Some chain_op else None),
     pending_ops := chain_ids,
     deps_key := map_of (zip (tl chain_ids) (map (\<lambda>i. [i]) chain_ids))\<rparr>"

lemma chain_state_sel:
  "admin_key chain_state = Some (Address 0)" "min_delay_key chain_state = Some 10"
  "max_pending_key chain_state = None" "pending_ops chain_state = chain_ids"
  "ops chain_state = (\<lambda>i. if i \<in> set chain_ids then Some chain_op else None)"
  "deps_key chain_state = map_of (zip (tl chain_ids) (map (\<lambda>i. [i]) chain_ids))"
  by (simp_all add: chain_state_def timelock_empty_def)

lemma chain_deps:
  "load_deps [0] chain_state = []" "load_deps [1] chain_state = [[0]]"
  "load_deps [2] chain_state = [[1]]" "load_deps [3] chain_state = [[2]]"
  "load_deps [4] chain_state = [[3]]" "load_deps [5] chain_state = [[4]]"
  "load_deps [6] chain_state = [[5]]" "load_deps [7] chain_state = [[6]]"
  "load_deps [8] chain_state = [[7]]"
  by (simp_all add: load_deps_def chain_state_sel chain_ids_def)

lemma chain_ops:
  "ops chain_state i = (if i \<in> set chain_ids then Some chain_op else None)"
  by (simp add: chain_state_sel)

lemma chain_accepted: "check_dependency_depth chain_state [8] 0 = Inr ()"
  by (simp add: chain_deps MAX_DEPENDENCY_DEPTH_def
      check_dependency_depth.simps [of chain_state "[8]"] check_dependency_depth.simps [of chain_state "[7]"]
      check_dependency_depth.simps [of chain_state "[6]"] check_dependency_depth.simps [of chain_state "[5]"]
      check_dependency_depth.simps [of chain_state "[4]"] check_dependency_depth.simps [of chain_state "[3]"]
      check_dependency_depth.simps [of chain_state "[2]"] check_dependency_depth.simps [of chain_state "[1]"]
      check_dependency_depth.simps [of chain_state "[0]"])

lemma chain_check_deps: "i \<noteq> [8] \<Longrightarrow> check_deps i [[8]] chain_state = Inr ()"
  by (simp add: check_deps_def chain_accepted chain_ops) (simp add: chain_ids_def)

lemma chain_length: "dep_chain chain_state 8 [8]"
  by (simp add: eval_nat_numeral chain_deps chain_ops chain_ids_def) (simp add: chain_op_def)

lemma chain_healthy:
  "d \<in> set (load_deps i chain_state) \<Longrightarrow> ops chain_state d = Some chain_op"
  by (auto simp: load_deps_def chain_state_sel chain_ids_def split: if_splits)

theorem longest_chain_reported_blocked_witness:
  "\<exists>i s'. queue demo_crypto (demo_env 0) (Address 0) ''n'' (Address 1) 10 7 [[8]] chain_state = Inr (i, s')
     \<and> get_operation_status (demo_env 0) i s' = Some Blocked \<and> \<not> doomed chain_state 0 [8]"
proof -
  obtain i s' where run: "queue demo_crypto (demo_env 0) (Address 0) ''n'' (Address 1) 10 7 [[8]]
      chain_state = Inr (i, s')"
    and new: "ops s' i = Some (new_op (Address 0) ''n'' (Address 1) 10 7)"
    by (simp add: queue_Inr_iff chain_state_sel get_max_pending_ops_def checked_add_def
        MAX_GRACE_PERIOD_SECONDS_def chain_check_deps queued_state_def op_id_of_def demo_crypto_def
        to_be_bytes_def) (simp add: chain_ids_def)
  have "ops chain_state [8] = Some chain_op" by (simp add: chain_ops chain_ids_def)
  moreover have "\<not> executed chain_op" by (simp add: chain_op_def)
  moreover have "\<not> is_expired (new_op (Address 0) ''n'' (Address 1) 10 7) (timestamp (demo_env 0))"
    by (simp add: is_expired_def new_op_def checked_add_def)
  ultimately have "get_operation_status (demo_env 0) i s' = Some Blocked"
    using longest_chain_reported_blocked [OF run _ _ chain_length new] by blast
  moreover have "\<not> doomed chain_state 0 [8]"
    by (rule healthy_not_doomed)
      (auto dest!: chain_healthy simp: chain_op_def is_expired_def checked_add_def)
  ultimately show ?thesis using run by blast
qed

text \<open>
  The expiry time can overflow: a delay close to \<open>u64::MAX\<close> is accepted with any grace period.
  Such an operation is Expired for \<open>get_operation_status\<close> and counted as Queued as well.
\<close>

lemma overflowing_expiry_accepted:
  "\<exists>i s'. queue demo_crypto (demo_env 0) (Address 0) ''n'' (Address 1) 18446744073709551615 1 [] chain_state = Inr (i, s')
     \<and> get_operation_status (demo_env 0) i s' = Some Expired
     \<and> i \<in> set (map fst (get_operations_by_status (demo_env 0) Queued s'))"
proof -
  obtain i s' where run: "queue demo_crypto (demo_env 0) (Address 0) ''n'' (Address 1) 18446744073709551615 1 []
      chain_state = Inr (i, s')"
    and new: "ops s' i = Some (new_op (Address 0) ''n'' (Address 1) 18446744073709551615 1)"
      "i \<in> set (pending_ops s')" "load_deps i s' = []"
    by (simp add: queue_Inr_iff chain_state_sel get_max_pending_ops_def checked_add_def
        MAX_GRACE_PERIOD_SECONDS_def check_deps_def queued_state_def load_deps_def)
      (simp add: chain_ids_def op_id_of_def demo_crypto_def to_be_bytes_def)
  from run new show ?thesis
    by (auto simp: get_operation_status_def new_op_def checked_add_def Let_def select_by_status_fst
        get_operations_by_status_def status_matches_def has_blocked_dependency_def
        has_blocked_dependency_at_depth.simps)
qed

end
