(* ===== verification/Registry.thy ===== *)
theory Registry
  imports Common
begin

text \<open>
  The contract router-registry (\<open>contracts/router-registry/src/lib.rs\<close>): contract addresses
  keyed by name and version, in ascending version order per name, with deprecation, lookup of the
  newest usable version and version constraints. The health probe of \<open>register_with_check\<close>
  is a call to code outside the repository: its outcome is the parameter \<open>call_ok\<close>.
\<close>

subsection \<open>State\<close>

record contract_entry =
  entry_address :: address
  entry_name :: string
  entry_version :: u32
  deprecated :: bool
  registered_by :: address
  deprecation_reason :: "string option"

record bulk_registration_input =
  in_name :: string
  in_address :: address
  in_version :: u32

datatype registry_error = AlreadyInitialized | NotInitialized | Unauthorized | NotFound
  | AlreadyRegistered | AlreadyDeprecated | InvalidVersion | VersionNotFound | InvalidConstraint
  | AllVersionsDeprecated | ContractUnreachable | InvalidHealthFn | BatchTooLarge

text \<open>
  One field per storage key; the version list of a name and the list of names read as empty when
  their key is absent.
\<close>

record registry = contract +
  entry_key :: "string \<Rightarrow> u32 \<Rightarrow> contract_entry option"
  versions_key :: "string \<Rightarrow> u32 list"
  contract_names :: "string list"
  address_index :: "address \<Rightarrow> (string \<times> u32) option"

definition registry_empty :: registry where
  "registry_empty = \<lparr>admin_key = None, events = [], entry_key = (\<lambda>_. Map.empty),
     versions_key = (\<lambda>_. []), contract_names = [], address_index = Map.empty\<rparr>"

definition MAX_CONSTRAINT_LEN :: nat where
  "MAX_CONSTRAINT_LEN = 32"

definition MAX_BULK_BATCH_SIZE :: nat where
  "MAX_BULK_BATCH_SIZE = 50"

subsection \<open>Version constraints\<close>

datatype constraint_operator = Gte | Lte | Gt | Lt | Caret | Tilde | Exact

text \<open>\<open>str::parse::<u32>\<close>: an optional plus sign, then digits, rejecting overflow as it goes.\<close>

fun parse_digits :: "nat \<Rightarrow> string \<Rightarrow> nat option" where
  "parse_digits acc [] = Some acc"
| "parse_digits acc (c # cs) =
     (let d = of_char c :: nat in
      if 48 \<le> d \<and> d \<le> 57 then
        (let acc' = acc * 10 + (d - 48)
         in if acc' < 2 ^ 32 then parse_digits acc' cs else None)
      else None)"

definition parse_u32 :: "string \<Rightarrow> u32 option" where
  "parse_u32 s = map_option of_nat
     (case s of
        [] \<Rightarrow> None
      | c # cs \<Rightarrow> if c = CHR ''+'' then (if cs = [] then None else parse_digits 0 cs)
                  else parse_digits 0 s)"

definition strip_prefix :: "string \<Rightarrow> string \<Rightarrow> string option" where
  "strip_prefix p s = (if take (length p) s = p then Some (drop (length p) s) else None)"

definition split_operator :: "string \<Rightarrow> constraint_operator \<times> string" where
  "split_operator s =
     (case strip_prefix ''>='' s of Some rest \<Rightarrow> (Gte, rest) | None \<Rightarrow>
      case strip_prefix ''<='' s of Some rest \<Rightarrow> (Lte, rest) | None \<Rightarrow>
      case strip_prefix ''>'' s of Some rest \<Rightarrow> (Gt, rest) | None \<Rightarrow>
      case strip_prefix ''<'' s of Some rest \<Rightarrow> (Lt, rest) | None \<Rightarrow>
      case strip_prefix ''^'' s of Some rest \<Rightarrow> (Caret, rest) | None \<Rightarrow>
      case strip_prefix ''~'' s of Some rest \<Rightarrow> (Tilde, rest) | None \<Rightarrow> (Exact, s))"

definition parse_constraint :: "string \<Rightarrow> (registry_error, constraint_operator \<times> u32) res" where
  "parse_constraint s =
     (case split_operator s of (op, num_part) \<Rightarrow>
        bindr (ok_or (parse_u32 num_part) InvalidConstraint) (\<lambda>value. Inr (op, value)))"

text \<open>
  The copy into a stack buffer of \<open>MAX_CONSTRAINT_LEN\<close> bytes. The following
  \<open>core::str::from_utf8\<close> rejects only strings with a byte above 127, which
  \<open>parse_constraint\<close> rejects with the same error (\<open>parse_constraint_ascii\<close>), so
  it is the identity here.
\<close>

definition constraint_str_buf :: "string \<Rightarrow> (registry_error, string) res" where
  "constraint_str_buf c =
     bindr (reject_if (length c > MAX_CONSTRAINT_LEN) InvalidConstraint) (\<lambda>_. Inr c)"

definition validate_constraint :: "string \<Rightarrow> (registry_error, unit) res" where
  "validate_constraint c =
     bindr (constraint_str_buf c) (\<lambda>s. bindr (parse_constraint s) (\<lambda>_. Inr ()))"

fun operator_holds :: "constraint_operator \<Rightarrow> u32 \<Rightarrow> u32 \<Rightarrow> bool" where
  "operator_holds Gte version base \<longleftrightarrow> version \<ge> base"
| "operator_holds Lte version base \<longleftrightarrow> version \<le> base"
| "operator_holds Gt version base \<longleftrightarrow> version > base"
| "operator_holds Lt version base \<longleftrightarrow> version < base"
| "operator_holds Caret version base \<longleftrightarrow> version = base"
| "operator_holds Tilde version base \<longleftrightarrow> version = base"
| "operator_holds Exact version base \<longleftrightarrow> version = base"

definition version_matches_constraint :: "u32 \<Rightarrow> string \<Rightarrow> (registry_error, bool) res" where
  "version_matches_constraint version c =
     bindr (constraint_str_buf c) (\<lambda>s.
     bindr (parse_constraint s) (\<lambda>(op, base). Inr (operator_holds op version base)))"

subsection \<open>Helpers\<close>

definition validate_registration :: "string \<Rightarrow> u32 \<Rightarrow> registry \<Rightarrow> (registry_error, unit) res" where
  "validate_registration name version s =
     bindr (reject_if (version = 0) InvalidVersion) (\<lambda>_.
     bindr (reject_if (entry_key s name version \<noteq> None) AlreadyRegistered) (\<lambda>_.
     let versions = versions_key s name
     in if versions \<noteq> [] \<and> version \<le> last versions then Inl (Err InvalidVersion) else Inr ()))"

definition write_entry :: "address \<Rightarrow> string \<Rightarrow> address \<Rightarrow> u32 \<Rightarrow> registry \<Rightarrow> registry" where
  "write_entry caller name addr version s =
     (let entry = \<lparr>entry_address = addr, entry_name = name, entry_version = version,
                   deprecated = False, registered_by = caller, deprecation_reason = None\<rparr>;
          s1 = s\<lparr>entry_key := (entry_key s)(name := (entry_key s name)(version \<mapsto> entry))\<rparr>;
          versions = versions_key s1 name;
          is_new_name = (versions = []);
          s2 = s1\<lparr>versions_key := (versions_key s1)(name := versions @ [version])\<rparr>;
          s3 = (if is_new_name then s2\<lparr>contract_names := contract_names s2 @ [name]\<rparr> else s2);
          s4 = s3\<lparr>address_index := (address_index s3)(addr \<mapsto> (name, version))\<rparr>
      in publish ''contract_registered'' (VTuple [VStr name, VU32 version, VAddr addr]) s4)"

definition register_entry ::
    "address \<Rightarrow> string \<Rightarrow> address \<Rightarrow> u32 \<Rightarrow> registry \<Rightarrow> (registry_error, registry) res" where
  "register_entry caller name addr version s =
     bindr (validate_registration name version s) (\<lambda>_. Inr (write_entry caller name addr version s))"

definition deprecate_one ::
    "string \<Rightarrow> u32 \<Rightarrow> string option \<Rightarrow> registry \<Rightarrow> (registry_error, registry) res" where
  "deprecate_one name version reason s =
     bindr (ok_or (entry_key s name version) VersionNotFound) (\<lambda>entry.
     bindr (reject_if (deprecated entry) AlreadyDeprecated) (\<lambda>_.
     let entry' = entry\<lparr>deprecated := True, deprecation_reason := reason\<rparr>;
         s1 = s\<lparr>entry_key := (entry_key s)(name := (entry_key s name)(version \<mapsto> entry'))\<rparr>
     in Inr (publish ''contract_deprecated''
               (VTuple [VStr name, VU32 version, VOpt (map_option VStr reason)]) s1)))"

text \<open>The walk over the versions, newest first.\<close>

fun latest_loop ::
    "registry \<Rightarrow> string \<Rightarrow> (u32 \<Rightarrow> (registry_error, bool) res) \<Rightarrow> u32 list \<Rightarrow> bool
      \<Rightarrow> (registry_error, contract_entry option \<times> bool) res" where
  "latest_loop s name matches [] any_match = Inr (None, any_match)"
| "latest_loop s name matches (v # older) any_match =
     bindr (matches v) (\<lambda>m.
       if \<not> m then latest_loop s name matches older any_match
       else bindr (ok_or (entry_key s name v) NotFound) (\<lambda>entry.
         if \<not> deprecated entry then Inr (Some entry, True)
         else latest_loop s name matches older True))"

definition latest_matching ::
    "registry \<Rightarrow> string \<Rightarrow> u32 list \<Rightarrow> (u32 \<Rightarrow> (registry_error, bool) res)
      \<Rightarrow> (registry_error, contract_entry option \<times> bool) res" where
  "latest_matching s name versions matches = latest_loop s name matches (rev versions) False"

definition latest_non_deprecated ::
    "registry \<Rightarrow> string \<Rightarrow> u32 list \<Rightarrow> (registry_error, contract_entry) res" where
  "latest_non_deprecated s name versions =
     bindr (latest_matching s name versions (\<lambda>_. Inr True)) (\<lambda>(found, _).
       ok_or found AllVersionsDeprecated)"

fun registry_error_to_batch :: "registry_error \<Rightarrow> batch_item_error" where
  "registry_error_to_batch AlreadyRegistered = AlreadyExists"
| "registry_error_to_batch InvalidVersion = InvalidName"
| "registry_error_to_batch Unauthorized = batch_item_error.Unauthorized"
| "registry_error_to_batch InvalidConstraint = InvalidMetadata"
| "registry_error_to_batch NotInitialized = Custom ''NotInitialized''"
| "registry_error_to_batch AlreadyInitialized = Custom ''AlreadyInitialized''"
| "registry_error_to_batch NotFound = Custom ''NotFound''"
| "registry_error_to_batch AlreadyDeprecated = Custom ''AlreadyDeprecated''"
| "registry_error_to_batch VersionNotFound = Custom ''VersionNotFound''"
| "registry_error_to_batch AllVersionsDeprecated = Custom ''AllVersionsDeprecated''"
| "registry_error_to_batch ContractUnreachable = Custom ''ContractUnreachable''"
| "registry_error_to_batch InvalidHealthFn = Custom ''InvalidHealthFn''"
| "registry_error_to_batch BatchTooLarge = Custom ''BatchTooLarge''"

definition is_allowed_health_fn :: "symbol \<Rightarrow> bool" where
  "is_allowed_health_fn fn_sym \<longleftrightarrow> fn_sym = ''health'' \<or> fn_sym = ''ping''"

definition emit_batch_completed :: "address \<Rightarrow> string \<Rightarrow> batch_result \<Rightarrow> registry \<Rightarrow> registry" where
  "emit_batch_completed caller which r s =
     publish ''batch_executed''
       (VTuple [VAddr caller, VStr which, VU32 (of_nat (length (successes r))),
                VU32 (of_nat (length (failures r)))]) s"

definition emit_bulk_register_completed :: "address \<Rightarrow> batch_result \<Rightarrow> registry \<Rightarrow> registry" where
  "emit_bulk_register_completed caller r s = emit_batch_completed caller ''bulk_register'' r s"

definition emit_deprecate_many_completed :: "address \<Rightarrow> batch_result \<Rightarrow> registry \<Rightarrow> registry" where
  "emit_deprecate_many_completed caller r s = emit_batch_completed caller ''deprecate_many'' r s"

subsection \<open>Entry points\<close>

definition registry_initialize :: "address \<Rightarrow> registry \<Rightarrow> (registry_error, unit, registry) tx" where
  "registry_initialize admin s =
     (if admin_key s \<noteq> None then Inl (Err AlreadyInitialized)
      else Inr ((), s\<lparr>admin_key := Some admin\<rparr>))"

definition register ::
    "env \<Rightarrow> address \<Rightarrow> string \<Rightarrow> address \<Rightarrow> u32 \<Rightarrow> registry \<Rightarrow> (registry_error, unit, registry) tx" where
  "register env caller name addr version s =
     bindr (require_auth env caller) (\<lambda>_.
     bindr (require_admin caller NotInitialized Unauthorized s) (\<lambda>_.
     bindr (register_entry caller name addr version s) (\<lambda>s'. Inr ((), s'))))"

definition register_with_check ::
    "(address \<Rightarrow> symbol \<Rightarrow> bool) \<Rightarrow> env \<Rightarrow> address \<Rightarrow> string \<Rightarrow> address \<Rightarrow> u32 \<Rightarrow> symbol option
      \<Rightarrow> registry \<Rightarrow> (registry_error, unit, registry) tx" where
  "register_with_check call_ok env caller name addr version health_fn s =
     bindr (require_auth env caller) (\<lambda>_.
     bindr (require_admin caller NotInitialized Unauthorized s) (\<lambda>_.
     bindr (validate_registration name version s) (\<lambda>_.
     bindr (case health_fn of
              None \<Rightarrow> Inr ()
            | Some fn_sym \<Rightarrow>
                bindr (reject_if (\<not> is_allowed_health_fn fn_sym) InvalidHealthFn) (\<lambda>_.
                reject_if (\<not> call_ok addr fn_sym) ContractUnreachable)) (\<lambda>_.
     Inr ((), write_entry caller name addr version s)))))"

text \<open>
  The validation pass of \<open>bulk_register\<close> with \<open>fail_fast\<close>: the first offending index and its
  error, or \<open>None\<close> when every entry may be written. \<open>seen\<close> holds the entries of the batch
  accepted so far.
\<close>

definition highest_in_batch :: "string \<Rightarrow> (string \<times> u32) list \<Rightarrow> u32 option" where
  "highest_in_batch name seen =
     (case map snd (filter (\<lambda>(n, _). n = name) seen) of [] \<Rightarrow> None | v # vs \<Rightarrow> Some (fold max vs v))"

fun bulk_validate ::
    "registry \<Rightarrow> nat \<Rightarrow> bulk_registration_input list \<Rightarrow> (string \<times> u32) list
      \<Rightarrow> (registry_error, (nat \<times> registry_error) option) res" where
  "bulk_validate s i [] seen = Inr None"
| "bulk_validate s i (x # xs) seen =
     (if list_ex (\<lambda>(n, v). n = in_name x \<and> v = in_version x) seen
      then Inr (Some (i, AlreadyRegistered))
      else if (case highest_in_batch (in_name x) seen of
                 Some highest \<Rightarrow> in_version x \<le> highest | None \<Rightarrow> False)
      then Inr (Some (i, InvalidVersion))
      else (case validate_registration (in_name x) (in_version x) s of
              Inl Trap \<Rightarrow> Inl Trap
            | Inl (Err e) \<Rightarrow> Inr (Some (i, e))
            | Inr _ \<Rightarrow> bulk_validate s (Suc i) xs (seen @ [(in_name x, in_version x)])))"

text \<open>The writing pass, which does not validate again.\<close>

definition bulk_write :: "address \<Rightarrow> bulk_registration_input list \<Rightarrow> registry \<Rightarrow> registry" where
  "bulk_write caller xs s =
     fold (\<lambda>x. write_entry caller (in_name x) (in_address x) (in_version x)) xs s"

text \<open>
  Without \<open>fail_fast\<close> each entry is validated, then validated again and written by
  \<open>register_entry\<close>.
\<close>

definition bulk_item ::
    "address \<Rightarrow> bulk_registration_input \<Rightarrow> registry \<Rightarrow> (registry_error, registry) res" where
  "bulk_item caller x s =
     bindr (validate_registration (in_name x) (in_version x) s) (\<lambda>_.
       register_entry caller (in_name x) (in_address x) (in_version x) s)"

definition bulk_register ::
    "env \<Rightarrow> address \<Rightarrow> bulk_registration_input list \<Rightarrow> bool \<Rightarrow> registry
      \<Rightarrow> (registry_error, batch_result, registry) tx" where
  "bulk_register env caller xs fail_fast s =
     bindr (require_auth env caller) (\<lambda>_.
     bindr (require_admin caller NotInitialized Unauthorized s) (\<lambda>_.
     bindr (reject_if (length xs > MAX_BULK_BATCH_SIZE) BatchTooLarge) (\<lambda>_.
     if fail_fast then
       bindr (bulk_validate s 0 xs []) (\<lambda>bad.
         case bad of
           Some (i, e) \<Rightarrow>
             (let r = record_failure (of_nat i) (registry_error_to_batch e) batch_new
              in Inr (r, emit_bulk_register_completed caller r s))
         | None \<Rightarrow>
             (let r = fold record_success (map of_nat [0..<length xs]) batch_new
              in Inr (r, emit_bulk_register_completed caller r (bulk_write caller xs s))))
     else
       bindr (batch_loop (bulk_item caller) registry_error_to_batch False 0 xs s batch_new)
         (\<lambda>(r, s'). Inr (r, emit_bulk_register_completed caller r s')))))"

definition deprecate ::
    "env \<Rightarrow> address \<Rightarrow> string \<Rightarrow> u32 \<Rightarrow> string option \<Rightarrow> registry \<Rightarrow> (registry_error, unit, registry) tx" where
  "deprecate env caller name version reason s =
     bindr (require_auth env caller) (\<lambda>_.
     bindr (require_admin caller NotInitialized Unauthorized s) (\<lambda>_.
     bindr (deprecate_one name version reason s) (\<lambda>s'. Inr ((), s'))))"

text \<open>\<open>let _ = deprecate_one(..)\<close>: an error of one version is dropped.\<close>

definition deprecate_all_versions ::
    "env \<Rightarrow> address \<Rightarrow> string \<Rightarrow> string option \<Rightarrow> registry \<Rightarrow> (registry_error, unit, registry) tx" where
  "deprecate_all_versions env caller name reason s =
     bindr (require_auth env caller) (\<lambda>_.
     bindr (require_admin caller NotInitialized Unauthorized s) (\<lambda>_.
     let versions = versions_key s name
     in
     bindr (reject_if (versions = []) NotFound) (\<lambda>_.
     Inr ((), fold (\<lambda>v s. case deprecate_one name v reason s of Inr s' \<Rightarrow> s' | Inl _ \<Rightarrow> s)
                versions s))))"

definition deprecate_many ::
    "env \<Rightarrow> address \<Rightarrow> (string \<times> u32 \<times> string option) list \<Rightarrow> bool \<Rightarrow> registry
      \<Rightarrow> (registry_error, batch_result, registry) tx" where
  "deprecate_many env caller xs fail_fast s =
     bindr (require_auth env caller) (\<lambda>_.
     bindr (require_admin caller NotInitialized Unauthorized s) (\<lambda>_.
     bindr (reject_if (length xs > MAX_BULK_BATCH_SIZE) BatchTooLarge) (\<lambda>_.
     bindr (batch_loop (\<lambda>(name, version, reason). deprecate_one name version reason)
              registry_error_to_batch fail_fast 0 xs s batch_new)
       (\<lambda>(r, s'). Inr (r, emit_deprecate_many_completed caller r s')))))"

definition registry_transfer_admin ::
    "env \<Rightarrow> address \<Rightarrow> address \<Rightarrow> registry \<Rightarrow> (registry_error, unit, registry) tx" where
  "registry_transfer_admin env current new_admin s =
     bindr (require_auth env current) (\<lambda>_.
     bindr (require_admin current NotInitialized Unauthorized s) (\<lambda>_.
     Inr ((), admin_transfer_complete current new_admin s)))"

subsection \<open>Views\<close>

definition registry_get :: "string \<Rightarrow> u32 \<Rightarrow> registry \<Rightarrow> (registry_error, contract_entry) res" where
  "registry_get name version s = ok_or (entry_key s name version) NotFound"

definition is_deprecated :: "string \<Rightarrow> u32 \<Rightarrow> registry \<Rightarrow> (registry_error, bool) res" where
  "is_deprecated name version s = ok_or (map_option deprecated (entry_key s name version)) NotFound"

definition get_latest :: "string \<Rightarrow> registry \<Rightarrow> (registry_error, contract_entry) res" where
  "get_latest name s =
     (let versions = versions_key s name
      in bindr (reject_if (versions = []) NotFound) (\<lambda>_. latest_non_deprecated s name versions))"

definition get_latest_with_constraint ::
    "string \<Rightarrow> string option \<Rightarrow> registry \<Rightarrow> (registry_error, contract_entry) res" where
  "get_latest_with_constraint name c s =
     (let versions = versions_key s name
      in case c of
           None \<Rightarrow> bindr (reject_if (versions = []) NotFound) (\<lambda>_.
                     latest_non_deprecated s name versions)
         | Some constraint_str \<Rightarrow>
             bindr (validate_constraint constraint_str) (\<lambda>_.
             bindr (reject_if (versions = []) NotFound) (\<lambda>_.
             bindr (latest_matching s name versions
                      (\<lambda>v. version_matches_constraint v constraint_str)) (\<lambda>(found, any_match).
               case found of
                 Some entry \<Rightarrow> Inr entry
               | None \<Rightarrow> if any_match then Inl (Err AllVersionsDeprecated)
                         else Inl (Err NotFound)))))"

definition registry_admin :: "registry \<Rightarrow> (registry_error, address) res" where
  "registry_admin s = ok_or (admin_key s) NotInitialized"

definition versions :: "string \<Rightarrow> registry \<Rightarrow> u32 list" where
  "versions name s = versions_key s name"

definition get_all_versions :: "string \<Rightarrow> registry \<Rightarrow> contract_entry list" where
  "get_all_versions name s = List.map_filter (entry_key s name) (versions_key s name)"

definition get_all_names :: "registry \<Rightarrow> string list" where
  "get_all_names s = contract_names s"

definition get_entry_by_address :: "address \<Rightarrow> registry \<Rightarrow> contract_entry option" where
  "get_entry_by_address addr s =
     (case address_index s addr of None \<Rightarrow> None | Some (name, version) \<Rightarrow> entry_key s name version)"

subsection \<open>The contract as a machine\<close>

datatype registry_call = RInitialize address
  | RRegister address string address u32
  | RRegisterWithCheck address string address u32 "symbol option"
  | RBulkRegister address "bulk_registration_input list" bool
  | RDeprecate address string u32 "string option"
  | RDeprecateAll address string "string option"
  | RDeprecateMany address "(string \<times> u32 \<times> string option) list" bool
  | RTransferAdmin address address

fun registry_step ::
    "(address \<Rightarrow> symbol \<Rightarrow> bool) \<Rightarrow> env \<Rightarrow> registry_call \<Rightarrow> registry \<Rightarrow> (registry_error, registry) res" where
  "registry_step ok env (RInitialize a) s = returns (registry_initialize a s)"
| "registry_step ok env (RRegister c n a v) s = returns (register env c n a v s)"
| "registry_step ok env (RRegisterWithCheck c n a v h) s =
     returns (register_with_check ok env c n a v h s)"
| "registry_step ok env (RBulkRegister c xs ff) s = returns (bulk_register env c xs ff s)"
| "registry_step ok env (RDeprecate c n v r) s = returns (deprecate env c n v r s)"
| "registry_step ok env (RDeprecateAll c n r) s = returns (deprecate_all_versions env c n r s)"
| "registry_step ok env (RDeprecateMany c xs ff) s = returns (deprecate_many env c xs ff s)"
| "registry_step ok env (RTransferAdmin c n) s = returns (registry_transfer_admin env c n s)"

end
