(* ===== verification/Registry_Props.thy ===== *)
theory Registry_Props
  imports Registry "HOL-Library.Sublist"
begin

text \<open>
  Correctness of router-registry: the storage invariant (ascending versions that agree with the
  stored entries, the list of names and the reverse index), append-only history, lookup of the
  newest usable version with and without a constraint, and the atomicity of the batch registration.
\<close>

subsection \<open>The invariant\<close>

definition versions_ok :: "registry \<Rightarrow> bool" where
  "versions_ok s \<longleftrightarrow> (\<forall>n. sorted_wrt (<) (versions_key s n) \<and> 0 \<notin> set (versions_key s n))
     \<and> (\<forall>n v. v \<in> set (versions_key s n) \<longleftrightarrow> entry_key s n v \<noteq> None)"

definition entries_ok :: "registry \<Rightarrow> bool" where
  "entries_ok s \<longleftrightarrow> (\<forall>n v e. entry_key s n v = Some e \<longrightarrow> entry_name e = n \<and> entry_version e = v
     \<and> (\<not> deprecated e \<longrightarrow> deprecation_reason e = None))"

definition names_ok :: "registry \<Rightarrow> bool" where
  "names_ok s \<longleftrightarrow> distinct (contract_names s)
     \<and> (\<forall>n. n \<in> set (contract_names s) \<longleftrightarrow> versions_key s n \<noteq> [])"

definition index_sound :: "registry \<Rightarrow> bool" where
  "index_sound s \<longleftrightarrow> (\<forall>a n v. address_index s a = Some (n, v) \<longrightarrow>
       (\<exists>e. entry_key s n v = Some e \<and> entry_address e = a))
     \<and> (\<forall>n v e. entry_key s n v = Some e \<longrightarrow> address_index s (entry_address e) \<noteq> None)"

definition registry_inv :: "registry \<Rightarrow> bool" where
  "registry_inv s \<longleftrightarrow> versions_ok s \<and> entries_ok s \<and> names_ok s \<and> index_sound s"

lemmas registry_inv_defs = registry_inv_def versions_ok_def entries_ok_def names_ok_def index_sound_def

lemma registry_inv_empty: "registry_inv registry_empty"
  by (simp add: registry_inv_defs registry_empty_def)

text \<open>
  History only grows: entries keep everything but the deprecation mark, which is set once, and
  version lists and the list of names are extended at the end.
\<close>

definition entry_kept :: "contract_entry \<Rightarrow> contract_entry \<Rightarrow> bool" where
  "entry_kept e e' \<longleftrightarrow> entry_address e' = entry_address e \<and> registered_by e' = registered_by e
     \<and> (deprecated e \<longrightarrow> e' = e)"

definition grows :: "registry \<Rightarrow> registry \<Rightarrow> bool" where
  "grows s s' \<longleftrightarrow>
     (\<forall>n v e. entry_key s n v = Some e \<longrightarrow> (\<exists>e'. entry_key s' n v = Some e' \<and> entry_kept e e'))
     \<and> (\<forall>n. prefix (versions_key s n) (versions_key s' n))
     \<and> prefix (contract_names s) (contract_names s')"

lemma entry_kept_trans: "entry_kept e e' \<Longrightarrow> entry_kept e' e'' \<Longrightarrow> entry_kept e e''"
  by (auto simp: entry_kept_def)

lemma grows_refl [intro]: "grows s s"
  by (simp add: grows_def entry_kept_def)

lemma grows_trans: "grows s s' \<Longrightarrow> grows s' s'' \<Longrightarrow> grows s s''"
  unfolding grows_def by (meson prefix_order.trans entry_kept_trans)

subsection \<open>Writers\<close>

lemma publish_registry [simp]:
  "entry_key (publish t d s) = entry_key s" "versions_key (publish t d s) = versions_key s"
  "contract_names (publish t d s) = contract_names s"
  "address_index (publish t d s) = address_index s"
  by (simp_all add: publish_def)

lemma admin_transfer_registry [simp]:
  "entry_key (admin_transfer_complete c n s) = entry_key s"
  "versions_key (admin_transfer_complete c n s) = versions_key s"
  "contract_names (admin_transfer_complete c n s) = contract_names s"
  "address_index (admin_transfer_complete c n s) = address_index s"
  by (simp_all add: admin_transfer_complete_def)

definition new_entry :: "address \<Rightarrow> string \<Rightarrow> address \<Rightarrow> u32 \<Rightarrow> contract_entry" where
  "new_entry c n a v = \<lparr>entry_address = a, entry_name = n, entry_version = v, deprecated = False,
     registered_by = c, deprecation_reason = None\<rparr>"

lemma write_entry_sel [simp]:
  "admin_key (write_entry c n a v s) = admin_key s"
  "entry_key (write_entry c n a v s) =
     (entry_key s)(n := (entry_key s n)(v \<mapsto> new_entry c n a v))"
  "versions_key (write_entry c n a v s) = (versions_key s)(n := versions_key s n @ [v])"
  "contract_names (write_entry c n a v s) =
     (if versions_key s n = [] then contract_names s @ [n] else contract_names s)"
  "address_index (write_entry c n a v s) = (address_index s)(a \<mapsto> (n, v))"
  by (simp_all add: write_entry_def new_entry_def Let_def)

lemma validate_registration_Inr_iff [res_simps]:
  "validate_registration n v s = Inr u \<longleftrightarrow>
     v \<noteq> 0 \<and> entry_key s n v = None \<and> (versions_key s n = [] \<or> last (versions_key s n) < v)"
  by (auto simp: validate_registration_def res_simps Let_def)

lemma register_entry_Inr_iff [res_simps]:
  "register_entry c n a v s = Inr s' \<longleftrightarrow>
     validate_registration n v s = Inr () \<and> s' = write_entry c n a v s"
  by (auto simp: register_entry_def res_simps)

lemma sorted_wrt_snoc_last:
  "sorted_wrt (<) (xs :: 'a::linorder list) \<Longrightarrow> xs = [] \<or> last xs < x \<Longrightarrow> sorted_wrt (<) (xs @ [x])"
  by (induction xs) (auto split: if_splits dest: last_in_set intro: less_trans)

lemma write_entry_inv:
  assumes "registry_inv s" and "validate_registration n v s = Inr ()"
  shows "registry_inv (write_entry c n a v s)"
proof -
  let ?s = "write_entry c n a v s"
  from assms(2) have v: "v \<noteq> 0" "entry_key s n v = None" "versions_key s n = [] \<or> last (versions_key s n) < v"
    by (simp_all add: res_simps)
  have "versions_ok ?s"
    using assms(1) v by (auto simp: registry_inv_defs sorted_wrt_snoc_last)
  moreover have "entries_ok ?s"
    using assms(1) by (auto simp: registry_inv_defs new_entry_def)
  moreover have "names_ok ?s"
    using assms(1) by (auto simp: registry_inv_defs)
  moreover have "index_sound ?s"
    using assms(1) v(2) by (fastforce simp: registry_inv_defs new_entry_def)
  ultimately show ?thesis by (simp add: registry_inv_def)
qed

lemma write_entry_grows:
  "validate_registration n v s = Inr () \<Longrightarrow> grows s (write_entry c n a v s)"
  by (auto simp: grows_def entry_kept_def res_simps)

lemma deprecate_one_Inr_iff [res_simps]:
  "deprecate_one n v r s = Inr s' \<longleftrightarrow>
     (\<exists>e. entry_key s n v = Some e \<and> \<not> deprecated e
        \<and> s' = publish ''contract_deprecated'' (VTuple [VStr n, VU32 v, VOpt (map_option VStr r)])
            (s\<lparr>entry_key := (entry_key s)(n := (entry_key s n)
                 (v \<mapsto> e\<lparr>deprecated := True, deprecation_reason := r\<rparr>))\<rparr>))"
  by (auto simp: deprecate_one_def res_simps Let_def)

lemma deprecate_one_inv:
  assumes "registry_inv s" and "deprecate_one n v r s = Inr s'"
  shows "registry_inv s'"
proof -
  from assms(2) obtain e where e: "entry_key s n v = Some e" "\<not> deprecated e"
    and s': "entry_key s' = (entry_key s)(n := (entry_key s n)
                 (v \<mapsto> e\<lparr>deprecated := True, deprecation_reason := r\<rparr>))"
      "versions_key s' = versions_key s" "contract_names s' = contract_names s"
      "address_index s' = address_index s"
    by (auto simp: res_simps)
  have "versions_ok s'" using assms(1) e s' by (auto simp: registry_inv_defs)
  moreover have "entries_ok s'" using assms(1) e s' by (auto simp: registry_inv_defs)
  moreover have "names_ok s'" using assms(1) s' by (simp add: registry_inv_defs)
  moreover have "index_sound s'" using assms(1) e s' by (fastforce simp: registry_inv_defs)
  ultimately show ?thesis by (simp add: registry_inv_def)
qed

lemma deprecate_one_grows: "deprecate_one n v r s = Inr s' \<Longrightarrow> grows s s'"
  by (auto simp: grows_def entry_kept_def res_simps)

subsection \<open>Batch registration\<close>

text \<open>The reference: registering the entries one by one, each validated on the current state.\<close>

fun register_all :: "address \<Rightarrow> bulk_registration_input list \<Rightarrow> registry \<Rightarrow> (registry_error, registry) res" where
  "register_all c [] s = Inr s"
| "register_all c (x # xs) s =
     bindr (register_entry c (in_name x) (in_address x) (in_version x) s) (register_all c xs)"

lemma fold_max_ge: "y \<in> set (v # vs) \<Longrightarrow> (y :: 'a::linorder) \<le> fold max vs v"
  by (metis Max.set_eq_fold Max_ge List.finite_set)

lemma highest_in_batch_less:
  assumes "case highest_in_batch n seen of Some h \<Rightarrow> \<not> v \<le> h | None \<Rightarrow> True" and "(n, w) \<in> set seen"
  shows "w < v"
proof -
  have w: "w \<in> set (map snd (filter (\<lambda>(m, _). m = n) seen))" using assms(2) by force
  then obtain x xs where "map snd (filter (\<lambda>(m, _). m = n) seen) = x # xs"
    by (metis list.set_cases)
  with w fold_max_ge [of w x xs] assms(1) show ?thesis
    by (auto simp: highest_in_batch_def)
qed

lemma bulk_validate_sound:
  assumes "bulk_validate s i xs seen = Inr None"
    and "\<And>n. versions_key t n = versions_key s n @ map snd (filter (\<lambda>(m, _). m = n) seen)"
    and "\<And>n v. entry_key t n v = None \<longleftrightarrow> entry_key s n v = None \<and> (n, v) \<notin> set seen"
  shows "register_all c xs t = Inr (bulk_write c xs t)"
  using assms
proof (induction xs arbitrary: i seen t)
  case (Cons x xs)
  let ?n = "in_name x" and ?v = "in_version x"
  from Cons.prems(1) have new: "(?n, ?v) \<notin> set seen"
    and high: "case highest_in_batch ?n seen of Some h \<Rightarrow> \<not> ?v \<le> h | None \<Rightarrow> True"
    and valid: "validate_registration ?n ?v s = Inr ()"
    and rest: "bulk_validate s (Suc i) xs (seen @ [(?n, ?v)]) = Inr None"
    by (auto simp: list_ex_iff split: if_splits sum.splits fault.splits option.splits)
  have "last (versions_key t ?n) < ?v" if "versions_key t ?n \<noteq> []"
  proof (cases "filter (\<lambda>(m, _). m = ?n) seen = []")
    case True
    with that valid Cons.prems(2) show ?thesis by (auto simp: res_simps)
  next
    case False
    then have "(?n, last (versions_key t ?n)) \<in> set seen"
      using Cons.prems(2) [of ?n] last_in_set [OF False] by (auto simp: last_map)
    with high show ?thesis by (rule highest_in_batch_less)
  qed
  then have "validate_registration ?n ?v t = Inr ()"
    using valid new Cons.prems(3) by (auto simp: res_simps)
  moreover have "register_all c xs (write_entry c ?n (in_address x) ?v t)
      = Inr (bulk_write c xs (write_entry c ?n (in_address x) ?v t))"
    by (rule Cons.IH [OF rest]) (auto simp: Cons.prems(2,3))
  ultimately show ?case
    by (simp add: bulk_write_def register_entry_def)
qed (simp add: bulk_write_def)

lemma register_all_inv: "register_all c xs s = Inr s' \<Longrightarrow> registry_inv s \<Longrightarrow> registry_inv s'"
  by (induction xs arbitrary: s)
    (auto simp: bindr_Inr_iff register_entry_Inr_iff dest: write_entry_inv)

lemma register_all_grows: "register_all c xs s = Inr s' \<Longrightarrow> grows s s'"
proof (induction xs arbitrary: s)
  case (Cons x xs)
  then show ?case by (auto simp: bindr_Inr_iff register_entry_Inr_iff intro: grows_trans write_entry_grows)
qed auto

lemma register_all_admin: "register_all c xs s = Inr s' \<Longrightarrow> admin_key s' = admin_key s"
  by (induction xs arbitrary: s) (auto simp: res_simps)

lemma bulk_validate_register_all:
  "bulk_validate s i xs [] = Inr None \<Longrightarrow> register_all c xs s = Inr (bulk_write c xs s)"
  by (rule bulk_validate_sound) auto

subsection \<open>Every entry point keeps the invariant and only extends the history\<close>

definition good_update :: "registry \<Rightarrow> registry \<Rightarrow> bool" where
  "good_update s s' \<longleftrightarrow> (registry_inv s \<longrightarrow> registry_inv s') \<and> grows s s' \<and> admin_key s' = admin_key s"

lemma good_update_refl [intro]: "good_update s s"
  by (auto simp: good_update_def)

lemma good_update_trans: "good_update s s' \<Longrightarrow> good_update s' s'' \<Longrightarrow> good_update s s''"
  by (auto simp: good_update_def intro: grows_trans)

lemma good_update_publish [simp]: "good_update s (publish t d s') \<longleftrightarrow> good_update s s'"
  by (simp add: good_update_def registry_inv_defs grows_def)

lemma good_write_entry:
  "validate_registration n v s = Inr () \<Longrightarrow> good_update s (write_entry c n a v s)"
  by (auto simp: good_update_def write_entry_inv write_entry_grows)

lemma good_register_entry: "register_entry c n a v s = Inr s' \<Longrightarrow> good_update s s'"
  by (auto simp: register_entry_Inr_iff good_write_entry)

lemma good_deprecate_one:
  assumes "deprecate_one n v r s = Inr s'"
  shows "good_update s s'"
proof -
  have "admin_key s' = admin_key s" using assms by (auto simp: res_simps)
  then show ?thesis
    using deprecate_one_inv assms deprecate_one_grows by (auto simp: good_update_def)
qed

lemma good_bulk_item: "bulk_item c x s = Inr s' \<Longrightarrow> good_update s s'"
  by (auto simp: bulk_item_def bindr_Inr_iff intro: good_register_entry)

lemma good_batch_loop:
  assumes "\<And>x s s'. f x s = Inr s' \<Longrightarrow> good_update s s'"
    and "batch_loop f err ff i xs s r = Inr (r', s')"
  shows "good_update s s'"
  by (rule batch_loop_rel [OF assms(1) good_update_refl good_update_trans assms(2)])

lemma good_bulk_register:
  assumes "bulk_register env c xs ff s = Inr (r, s')"
  shows "good_update s s'"
proof (cases ff)
  case True
  then obtain bad where bad: "bulk_validate s 0 xs [] = Inr bad"
    using assms by (auto simp: bulk_register_def bindr_Inr_iff)
  show ?thesis
  proof (cases bad)
    case None
    with bad bulk_validate_register_all have "register_all c xs s = Inr (bulk_write c xs s)" by blast
    then have "good_update s (bulk_write c xs s)"
      using register_all_inv register_all_grows register_all_admin by (auto simp: good_update_def)
    with assms True bad None show ?thesis
      by (auto simp: bulk_register_def bindr_Inr_iff Let_def emit_bulk_register_completed_def
          emit_batch_completed_def)
  next
    case (Some p)
    with assms True bad show ?thesis
      by (auto simp: bulk_register_def bindr_Inr_iff Let_def emit_bulk_register_completed_def
          emit_batch_completed_def split: prod.splits)
  qed
next
  case False
  with assms obtain r' s1 where "batch_loop (bulk_item c) registry_error_to_batch False 0 xs s batch_new
      = Inr (r', s1)" "s' = emit_bulk_register_completed c r' s1"
    by (auto simp: bulk_register_def bindr_Inr_iff)
  with good_batch_loop [OF good_bulk_item] show ?thesis
    by (auto simp: emit_bulk_register_completed_def emit_batch_completed_def)
qed

lemma good_deprecate_many:
  assumes "deprecate_many env c xs ff s = Inr (r, s')"
  shows "good_update s s'"
proof -
  let ?f = "\<lambda>(name, version, reason). deprecate_one name version reason"
  from assms obtain r' s1 where run: "batch_loop ?f registry_error_to_batch ff 0 xs s batch_new
      = Inr (r', s1)" "s' = emit_deprecate_many_completed c r' s1"
    by (auto simp: deprecate_many_def bindr_Inr_iff)
  have "good_update s s1"
    by (rule good_batch_loop [OF _ run(1)]) (auto intro: good_deprecate_one split: prod.splits)
  with run(2) show ?thesis
    by (simp add: emit_deprecate_many_completed_def emit_batch_completed_def)
qed

lemma good_deprecate_all:
  assumes "deprecate_all_versions env c n reason s = Inr (u, s')"
  shows "good_update s s'"
proof -
  let ?f = "\<lambda>v s. case deprecate_one n v reason s of Inr s' \<Rightarrow> s' | Inl _ \<Rightarrow> s"
  have "good_update s (fold ?f vs s)" for vs s
  proof (induction vs arbitrary: s)
    case (Cons v vs)
    have "good_update s (?f v s)"
      by (auto split: sum.splits intro: good_deprecate_one)
    with Cons show ?case by (auto intro: good_update_trans)
  qed auto
  with assms show ?thesis by (auto simp: deprecate_all_versions_def bindr_Inr_iff Let_def)
qed

fun registry_gated :: "registry_call \<Rightarrow> address option" where
  "registry_gated (RInitialize a) = None"
| "registry_gated (RRegister c n a v) = Some c"
| "registry_gated (RRegisterWithCheck c n a v h) = Some c"
| "registry_gated (RBulkRegister c xs ff) = Some c"
| "registry_gated (RDeprecate c n v r) = Some c"
| "registry_gated (RDeprecateAll c n r) = Some c"
| "registry_gated (RDeprecateMany c xs ff) = Some c"
| "registry_gated (RTransferAdmin c n) = Some c"

lemma registry_step_gated:
  "registry_step ok env call s = Inr s' \<Longrightarrow> registry_gated call = Some a \<Longrightarrow>
     auth env a \<and> admin_key s = Some a"
  by (cases call) (auto simp: returns_Inr_iff bindr_Inr_iff require_auth_Inr_iff require_admin_Inr_iff
      register_def register_with_check_def bulk_register_def deprecate_def deprecate_all_versions_def
      deprecate_many_def registry_transfer_admin_def)

lemma registry_step_good:
  assumes "registry_step ok env call s = Inr s'"
  shows "(registry_inv s \<longrightarrow> registry_inv s') \<and> grows s s'"
proof (cases call)
  case (RInitialize a)
  with assms show ?thesis
    by (auto simp: returns_Inr_iff registry_initialize_def registry_inv_defs grows_def entry_kept_def
        split: if_splits)
next
  case (RTransferAdmin c n)
  with assms show ?thesis
    by (auto simp: res_simps registry_transfer_admin_def registry_inv_defs grows_def entry_kept_def)
next
  case (RRegister c n a v)
  with assms have "good_update s s'"
    by (auto simp: returns_Inr_iff bindr_Inr_iff register_def intro: good_register_entry)
  then show ?thesis by (simp add: good_update_def)
next
  case (RRegisterWithCheck c n a v h)
  with assms have "good_update s s'"
    by (auto simp: returns_Inr_iff bindr_Inr_iff register_with_check_def intro: good_write_entry)
  then show ?thesis by (simp add: good_update_def)
next
  case (RBulkRegister c xs ff)
  with assms have "good_update s s'" by (auto simp: returns_Inr_iff intro: good_bulk_register)
  then show ?thesis by (simp add: good_update_def)
next
  case (RDeprecate c n v r)
  with assms have "good_update s s'"
    by (auto simp: returns_Inr_iff bindr_Inr_iff deprecate_def intro: good_deprecate_one)
  then show ?thesis by (simp add: good_update_def)
next
  case (RDeprecateAll c n r)
  with assms have "good_update s s'" by (auto simp: returns_Inr_iff intro: good_deprecate_all)
  then show ?thesis by (simp add: good_update_def)
next
  case (RDeprecateMany c xs ff)
  with assms have "good_update s s'" by (auto simp: returns_Inr_iff intro: good_deprecate_many)
  then show ?thesis by (simp add: good_update_def)
qed

interpretation registry_machine: contract_machine "registry_step ok" registry_empty registry_inv
  by unfold_locales (use registry_inv_empty registry_step_good in blast)+

definition registry_frame :: "registry \<Rightarrow> registry \<Rightarrow> bool" where
  "registry_frame s s' \<longleftrightarrow> entry_key s' = entry_key s \<and> versions_key s' = versions_key s
     \<and> contract_names s' = contract_names s \<and> address_index s' = address_index s"

interpretation registry_admin: admin_gated "registry_step ok" registry_empty registry_inv
    admin_key registry_gated registry_frame
proof unfold_locales
  fix env c s s' a
  assume "registry_step ok env c s = Inr s'" and "registry_gated c = None" and "admin_key s = Some a"
  then show "admin_key s' = Some a \<and> registry_frame s s'"
    by (cases c) (auto simp: returns_Inr_iff registry_initialize_def)
qed (auto simp: registry_frame_def dest: registry_step_gated)

lemma run_grows: "grows s (run_txs (registry_step ok) s txs)"
proof (induction txs arbitrary: s)
  case (Cons tx txs)
  obtain env c where tx: "tx = (env, c)" by force
  show ?case
  proof (cases "registry_step ok env c s")
    case (Inr s')
    with registry_step_good [OF Inr] Cons [of s'] tx show ?thesis by (auto intro: grows_trans)
  qed (simp add: tx Cons)
qed auto

subsection \<open>Lookup\<close>

lemma latest_loop_find:
  assumes "\<forall>v\<in>set vs. entry_key s n v \<noteq> None" and "\<forall>v\<in>set vs. matches v = Inr (m v)"
  shows "latest_loop s n matches vs any =
     (case find (\<lambda>v. m v \<and> \<not> deprecated (the (entry_key s n v))) vs of
        None \<Rightarrow> Inr (None, any \<or> (\<exists>v\<in>set vs. m v))
      | Some v \<Rightarrow> Inr (entry_key s n v, True))"
  using assms
proof (induction vs arbitrary: any)
  case (Cons v vs)
  then obtain e where e: "entry_key s n v = Some e" "matches v = Inr (m v)" by auto
  have IH: "latest_loop s n matches vs any =
     (case find (\<lambda>v. m v \<and> \<not> deprecated (the (entry_key s n v))) vs of
        None \<Rightarrow> Inr (None, any \<or> (\<exists>v\<in>set vs. m v))
      | Some v \<Rightarrow> Inr (entry_key s n v, True))" for any
    using Cons by simp
  show ?case
    by (cases "m v"; cases "deprecated e") (simp_all add: e IH cong: option.case_cong)
qed simp

lemma find_rev_sorted:
  assumes "sorted_wrt (<) (xs :: 'a::linorder list)"
  shows "find P (rev xs) = Some v \<longleftrightarrow> v \<in> set xs \<and> P v \<and> (\<forall>w\<in>set xs. P w \<longrightarrow> w \<le> v)"
  using assms
proof (induction xs rule: rev_induct)
  case (snoc x xs)
  then have less: "\<forall>w\<in>set xs. w < x" by (simp add: sorted_wrt_append)
  show ?case
  proof (cases "P x")
    case True
    have "x = v" if "v \<in> set (xs @ [x])" "\<forall>w\<in>set (xs @ [x]). P w \<longrightarrow> w \<le> v"
    proof -
      have "x \<le> v" using that(2) True by simp
      moreover have "v = x \<or> v < x" using that(1) less by auto
      ultimately show ?thesis by auto
    qed
    then have "x = v \<longleftrightarrow> v \<in> set (xs @ [x]) \<and> P v \<and> (\<forall>w\<in>set (xs @ [x]). P w \<longrightarrow> w \<le> v)"
      using True less by (auto intro: less_imp_le)
    with True show ?thesis by simp
  next
    case False
    with snoc show ?thesis by (auto simp: sorted_wrt_append)
  qed
qed simp

definition newest :: "string \<Rightarrow> (u32 \<Rightarrow> bool) \<Rightarrow> registry \<Rightarrow> contract_entry \<Rightarrow> bool" where
  "newest n m s e \<longleftrightarrow> (\<exists>v. entry_key s n v = Some e \<and> m v \<and> \<not> deprecated e
     \<and> (\<forall>w e'. entry_key s n w = Some e' \<and> m w \<and> \<not> deprecated e' \<longrightarrow> w \<le> v))"

lemma latest_matching_spec:
  assumes "registry_inv s" and "\<And>v. matches v = Inr (m v)"
  obtains found where
    "latest_matching s n (versions_key s n) matches
       = Inr (found, found \<noteq> None \<or> (\<exists>v. entry_key s n v \<noteq> None \<and> m v))"
    "\<And>e. found = Some e \<longleftrightarrow> newest n m s e"
    "found = None \<longleftrightarrow> (\<forall>v e. entry_key s n v = Some e \<and> m v \<longrightarrow> deprecated e)"
proof -
  let ?P = "\<lambda>v. m v \<and> \<not> deprecated (the (entry_key s n v))"
  have sorted: "sorted_wrt (<) (versions_key s n)"
    and stored: "\<And>v. v \<in> set (versions_key s n) \<longleftrightarrow> entry_key s n v \<noteq> None"
    using assms(1) by (auto simp: registry_inv_defs)
  have loop: "latest_matching s n (versions_key s n) matches =
      (case find ?P (rev (versions_key s n)) of
         None \<Rightarrow> Inr (None, \<exists>v\<in>set (versions_key s n). m v)
       | Some v \<Rightarrow> Inr (entry_key s n v, True))"
    unfolding latest_matching_def
    by (subst latest_loop_find [where m = m]) (use stored assms(2) in \<open>auto split: option.splits\<close>)
  show ?thesis
  proof (cases "find ?P (rev (versions_key s n))")
    case None
    then have no: "\<forall>v e. entry_key s n v = Some e \<and> m v \<longrightarrow> deprecated e"
      using stored by (fastforce simp: find_None_iff)
    have "latest_matching s n (versions_key s n) matches
        = Inr (None, \<exists>v. entry_key s n v \<noteq> None \<and> m v)"
      using loop None stored by (simp add: Bex_def)
    moreover have "\<not> newest n m s e" for e using no by (auto simp: newest_def)
    ultimately show ?thesis using that [of None] no by simp
  next
    case (Some v)
    with find_rev_sorted [OF sorted] stored obtain e where
      e: "entry_key s n v = Some e" "m v" "\<not> deprecated e"
      and max: "\<And>w e'. entry_key s n w = Some e' \<Longrightarrow> m w \<Longrightarrow> \<not> deprecated e' \<Longrightarrow> w \<le> v"
      by fastforce
    then have "newest n m s e" by (auto simp: newest_def)
    moreover have "e' = e" if "newest n m s e'" for e'
    proof -
      from that obtain w where w: "entry_key s n w = Some e'" "m w" "\<not> deprecated e'"
        "\<And>u e''. entry_key s n u = Some e'' \<Longrightarrow> m u \<Longrightarrow> \<not> deprecated e'' \<Longrightarrow> u \<le> w"
        by (auto simp: newest_def)
      have "w = v" using max [OF w(1-3)] w(4) [OF e] by simp
      with w(1) e(1) show ?thesis by simp
    qed
    ultimately have B: "Some e = Some e' \<longleftrightarrow> newest n m s e'" for e' by blast
    have A: "latest_matching s n (versions_key s n) matches
        = Inr (Some e, Some e \<noteq> None \<or> (\<exists>v. entry_key s n v \<noteq> None \<and> m v))"
      using loop Some e(1) by simp
    have C: "Some e = None \<longleftrightarrow> (\<forall>v e. entry_key s n v = Some e \<and> m v \<longrightarrow> deprecated e)"
      using e by auto
    show ?thesis by (rule that [OF A B C])
  qed
qed

subsection \<open>The batch validation is complete\<close>

lemma sorted_last_ge: "sorted_wrt (<) (xs :: 'a::linorder list) \<Longrightarrow> x \<in> set xs \<Longrightarrow> x \<le> last xs"
  by (induction xs) (auto simp: less_imp_le)

lemma highest_in_batch_mem: "highest_in_batch n seen = Some h \<Longrightarrow> (n, h) \<in> set seen"
proof -
  assume "highest_in_batch n seen = Some h"
  then obtain x xs where x: "map snd (filter (\<lambda>(m, _). m = n) seen) = x # xs" "h = fold max xs x"
    by (auto simp: highest_in_batch_def split: list.splits)
  then have "h = Max (set (x # xs))" by (simp only: Max.set_eq_fold)
  then have "h \<in> set (x # xs)" using Max_in [of "set (x # xs)"] by simp
  then have "h \<in> set (map snd (filter (\<lambda>(m, _). m = n) seen))" using x(1) by simp
  then show "(n, h) \<in> set seen" by auto
qed

lemma bulk_validate_complete:
  assumes "bulk_validate s i xs seen = Inr (Some p)" and "registry_inv t"
    and "\<And>n. versions_key t n = versions_key s n @ map snd (filter (\<lambda>(m, _). m = n) seen)"
    and "\<And>n v. entry_key t n v = None \<longleftrightarrow> entry_key s n v = None \<and> (n, v) \<notin> set seen"
  shows "\<exists>e. register_all c xs t = Inl e"
  using assms
proof (induction xs arbitrary: i seen t)
  case (Cons x xs)
  let ?n = "in_name x" and ?v = "in_version x"
  have sorted: "sorted_wrt (<) (versions_key t ?n)"
    and stored: "\<And>v. v \<in> set (versions_key t ?n) \<longleftrightarrow> entry_key t ?n v \<noteq> None"
    using Cons.prems(2) by (auto simp: registry_inv_defs)
  show ?case
  proof (cases "validate_registration ?n ?v t")
    case (Inl e)
    then show ?thesis by (simp add: register_entry_def)
  next
    case (Inr u)
    let ?t = "write_entry c ?n (in_address x) ?v t"
    from Inr have v: "?v \<noteq> 0" "entry_key t ?n ?v = None"
      "versions_key t ?n = [] \<or> last (versions_key t ?n) < ?v" by (simp_all add: res_simps)
    have above: "w < ?v" if "entry_key t ?n w \<noteq> None" for w
      using sorted_last_ge [OF sorted, of w] v(3) stored that by force
    have "last (versions_key s ?n) < ?v" if "versions_key s ?n \<noteq> []"
    proof -
      have "last (versions_key s ?n) \<in> set (versions_key t ?n)" using that Cons.prems(3) by simp
      then show ?thesis using above stored by blast
    qed
    then have "validate_registration ?n ?v s = Inr ()"
      using v(1,2) Cons.prems(4) by (auto simp: validate_registration_Inr_iff)
    moreover have "\<not> list_ex (\<lambda>(n, v). n = ?n \<and> v = ?v) seen"
      using v(2) Cons.prems(4) by (auto simp: list_ex_iff)
    moreover have "\<not> ?v \<le> h" if "highest_in_batch ?n seen = Some h" for h
      using highest_in_batch_mem [OF that] Cons.prems(4) [of ?n h] above [of h] by auto
    ultimately have "bulk_validate s (Suc i) xs (seen @ [(?n, ?v)]) = Inr (Some p)"
      using Cons.prems(1) by (auto split: if_splits option.splits)
    moreover have "registry_inv ?t" using write_entry_inv [OF Cons.prems(2)] Inr by simp
    ultimately have "\<exists>e. register_all c xs ?t = Inl e"
      by (rule Cons.IH) (auto simp: Cons.prems(3,4))
    with Inr show ?thesis by (simp add: register_entry_def)
  qed
qed simp

lemma bulk_validate_total: "\<exists>b. bulk_validate s i xs seen = Inr b"
  by (induction xs arbitrary: i seen)
    (auto simp: validate_registration_def reject_if_def Let_def split: if_splits option.splits)

subsection \<open>Printing constraints\<close>

fun digits_of :: "nat \<Rightarrow> string" where
  "digits_of n = (if n < 10 then [char_of (48 + n)]
                  else digits_of (n div 10) @ [char_of (48 + n mod 10)])"

declare digits_of.simps [simp del]

fun print_operator :: "constraint_operator \<Rightarrow> string" where
  "print_operator Gte = ''>=''"
| "print_operator Lte = ''<=''"
| "print_operator Gt = ''>''"
| "print_operator Lt = ''<''"
| "print_operator Caret = ''^''"
| "print_operator Tilde = ''~''"
| "print_operator Exact = []"

definition print_constraint :: "constraint_operator \<Rightarrow> u32 \<Rightarrow> string" where
  "print_constraint op v = print_operator op @ digits_of (unat v)"

lemma digits_of_range: "c \<in> set (digits_of n) \<Longrightarrow> 48 \<le> (of_char c :: nat) \<and> (of_char c :: nat) \<le> 57"
proof (induction n rule: digits_of.induct)
  case (1 n)
  have "n mod 10 < 10" by simp
  with 1 show ?case by (subst (asm) digits_of.simps) (auto split: if_splits)
qed

lemma digits_of_nonempty: "digits_of n \<noteq> []"
  by (subst digits_of.simps) simp

lemma parse_digits_append:
  "parse_digits acc (xs @ ys) = (case parse_digits acc xs of None \<Rightarrow> None | Some a \<Rightarrow> parse_digits a ys)"
  by (induction acc xs rule: parse_digits.induct) (auto simp: Let_def)

lemma parse_digits_of: "n < 2 ^ 32 \<Longrightarrow> parse_digits 0 (digits_of n) = Some n"
proof (induction n rule: digits_of.induct)
  case (1 n)
  show ?case
  proof (cases "n < 10")
    case True
    then show ?thesis by (subst digits_of.simps) simp
  next
    case False
    have m: "n mod 10 < 10" by simp
    from False 1 have "parse_digits 0 (digits_of (n div 10)) = Some (n div 10)" by simp
    moreover have "n div 10 * 10 + n mod 10 = n" by simp
    ultimately show ?thesis
      using False 1(2) m by (subst digits_of.simps) (simp add: parse_digits_append Let_def)
  qed
qed

lemma parse_u32_digits: "parse_u32 (digits_of (unat v)) = Some v"
proof -
  obtain c cs where d: "digits_of (unat v) = c # cs" using digits_of_nonempty by (cases "digits_of (unat v)") auto
  have "c \<noteq> CHR ''+''" using digits_of_range [of c "unat v"] d by auto
  moreover have "parse_digits 0 (c # cs) = Some (unat v)"
    using parse_digits_of [of "unat v"] unsigned_less [of v] d by simp
  ultimately show ?thesis using d by (simp add: parse_u32_def)
qed

lemma split_operator_print: "split_operator (print_operator op @ digits_of n) = (op, digits_of n)"
proof -
  obtain c cs where d: "digits_of n = c # cs" using digits_of_nonempty by (cases "digits_of n") auto
  have "c \<noteq> CHR ''>''" "c \<noteq> CHR ''<''" "c \<noteq> CHR ''^''" "c \<noteq> CHR ''~''" "c \<noteq> CHR ''=''"
    using digits_of_range [of c n] d by auto
  with d show ?thesis by (cases op) (simp_all add: split_operator_def strip_prefix_def)
qed

text \<open>A byte above 127 anywhere makes the constraint invalid, so the UTF-8 check adds nothing.\<close>

lemma parse_digits_ascii: "parse_digits acc s = Some n \<Longrightarrow> c \<in> set s \<Longrightarrow> of_char c \<le> (57 :: nat)"
  by (induction acc s rule: parse_digits.induct) (auto simp: Let_def split: if_splits)

lemma strip_prefix_mem:
  "strip_prefix p s = Some r \<Longrightarrow> c \<in> set s \<Longrightarrow> c \<in> set p \<or> c \<in> set r"
  by (auto simp: strip_prefix_def split: if_splits) (metis Un_iff append_take_drop_id set_append)

lemma split_operator_ascii:
  "split_operator s = (op, r) \<Longrightarrow> c \<in> set s \<Longrightarrow> c \<in> set r \<or> of_char c < (127 :: nat)"
  by (auto simp: split_operator_def split: option.splits if_splits dest!: strip_prefix_mem)

lemma parse_constraint_ascii:
  assumes "parse_constraint s = Inr (op, v)" and "c \<in> set s"
  shows "of_char c < (128 :: nat)"
proof -
  from assms(1) obtain r where r: "split_operator s = (op, r)" "parse_u32 r = Some v"
    by (auto simp: parse_constraint_def res_simps split: prod.splits)
  have "of_char c \<le> (57 :: nat)" if "c \<in> set r"
    using r(2) that
    by (auto simp: parse_u32_def simp del: parse_digits.simps dest: parse_digits_ascii
        split: list.splits if_splits)
  with split_operator_ascii [OF r(1) assms(2)] show ?thesis by auto
qed

lemma no_versions_iff:
  assumes "registry_inv s"
  shows "versions_key s n = [] \<longleftrightarrow> (\<forall>v. entry_key s n v = None)"
proof -
  have "set (versions_key s n) = {v. entry_key s n v \<noteq> None}"
    using assms by (auto simp: registry_inv_defs)
  then have "versions_key s n = [] \<longleftrightarrow> {v. entry_key s n v \<noteq> None} = {}" by (metis set_empty)
  then show ?thesis by simp
qed

subsection \<open>Properties\<close>

text \<open>C9. In every state the registry can reach: the versions of a name are strictly ascending and
  positive and are exactly the stored ones; every entry carries the name and version it is stored
  under, and no deprecation reason unless deprecated; the list of names holds exactly the names
  with a version, once each; the reverse index points to an entry of that very address, and
  every registered address has one.\<close>

theorem registry_reachable_inv: "registry_inv (run_txs (registry_step ok) registry_empty txs)"
  by (rule registry_machine.invar_run)

text \<open>\<open>get_latest\<close> returns the entry with the highest version among the non-deprecated ones,
  fails with \<open>NotFound\<close> exactly for an unknown name, and with \<open>AllVersionsDeprecated\<close>
  exactly when the name is known but every version is deprecated.\<close>

theorem get_latest_spec:
  assumes "registry_inv s"
  shows "(get_latest n s = Inr e \<longleftrightarrow> newest n (\<lambda>_. True) s e)
     \<and> (get_latest n s = Inl (Err NotFound) \<longleftrightarrow> (\<forall>v. entry_key s n v = None))
     \<and> (get_latest n s = Inl (Err AllVersionsDeprecated) \<longleftrightarrow>
          (\<exists>v. entry_key s n v \<noteq> None) \<and> (\<forall>v e. entry_key s n v = Some e \<longrightarrow> deprecated e))"
proof -
  note stored = no_versions_iff [OF assms, of n]
  obtain found where f: "latest_matching s n (versions_key s n) (\<lambda>_. Inr True)
       = Inr (found, found \<noteq> None \<or> (\<exists>v. entry_key s n v \<noteq> None \<and> True))"
    "\<And>e. found = Some e \<longleftrightarrow> newest n (\<lambda>_. True) s e"
    "found = None \<longleftrightarrow> (\<forall>v e. entry_key s n v = Some e \<and> True \<longrightarrow> deprecated e)"
    by (rule latest_matching_spec [OF assms, of "\<lambda>_. Inr True" "\<lambda>_. True" n]) auto
  have latest: "get_latest n s = (if versions_key s n = [] then Inl (Err NotFound)
      else case found of None \<Rightarrow> Inl (Err AllVersionsDeprecated) | Some e \<Rightarrow> Inr e)"
    using f(1) by (simp add: get_latest_def Let_def latest_non_deprecated_def ok_or_def split: option.splits)
  show ?thesis
  proof (cases "versions_key s n = []")
    case True
    then have "\<forall>v. entry_key s n v = None" using stored by simp
    then show ?thesis using latest True by (auto simp: newest_def)
  next
    case False
    show ?thesis
    proof (cases found)
      case None
      then have "get_latest n s = Inl (Err AllVersionsDeprecated)" using latest False by simp
      then show ?thesis using None False stored f(2,3) by auto
    next
      case (Some e')
      then have e': "get_latest n s = Inr e'" using latest False by simp
      have "newest n (\<lambda>_. True) s e'" using Some f(2) by blast
      then obtain v where "entry_key s n v = Some e'" "\<not> deprecated e'" by (auto simp: newest_def)
      moreover have "e' = e \<longleftrightarrow> newest n (\<lambda>_. True) s e" using Some f(2) by blast
      ultimately show ?thesis using e' by auto
    qed
  qed
qed

text \<open>A constraint of at most 32 bytes that parses.\<close>

lemma get_latest_parsed:
  assumes "registry_inv s" and "length c \<le> MAX_CONSTRAINT_LEN" and "parse_constraint c = Inr (op, base)"
  shows "(get_latest_with_constraint n (Some c) s = Inr e \<longleftrightarrow>
            newest n (\<lambda>v. operator_holds op v base) s e)
     \<and> (get_latest_with_constraint n (Some c) s = Inl (Err NotFound) \<longleftrightarrow>
          (\<forall>v. entry_key s n v \<noteq> None \<longrightarrow> \<not> operator_holds op v base))
     \<and> (get_latest_with_constraint n (Some c) s = Inl (Err AllVersionsDeprecated) \<longleftrightarrow>
          (\<exists>v. entry_key s n v \<noteq> None \<and> operator_holds op v base)
          \<and> (\<forall>v e. entry_key s n v = Some e \<and> operator_holds op v base \<longrightarrow> deprecated e))
     \<and> get_latest_with_constraint n (Some c) s \<noteq> Inl (Err InvalidConstraint)"
proof -
  let ?m = "\<lambda>v. operator_holds op v base"
  have matches: "version_matches_constraint v c = Inr (?m v)" for v
    using assms(2,3) by (simp add: version_matches_constraint_def constraint_str_buf_def reject_if_def)
  have valid: "validate_constraint c = Inr ()"
    using assms(2,3) by (simp add: validate_constraint_def constraint_str_buf_def reject_if_def)
  note stored = no_versions_iff [OF assms(1), of n]
  obtain found where f: "latest_matching s n (versions_key s n) (\<lambda>v. version_matches_constraint v c)
       = Inr (found, found \<noteq> None \<or> (\<exists>v. entry_key s n v \<noteq> None \<and> ?m v))"
    "\<And>e. found = Some e \<longleftrightarrow> newest n ?m s e"
    "found = None \<longleftrightarrow> (\<forall>v e. entry_key s n v = Some e \<and> ?m v \<longrightarrow> deprecated e)"
    by (rule latest_matching_spec [OF assms(1), of "\<lambda>v. version_matches_constraint v c" ?m n])
      (auto simp: matches)
  let ?any = "\<exists>v. entry_key s n v \<noteq> None \<and> ?m v"
  have latest: "get_latest_with_constraint n (Some c) s = (if versions_key s n = [] then Inl (Err NotFound)
      else case found of Some e \<Rightarrow> Inr e
        | None \<Rightarrow> if ?any then Inl (Err AllVersionsDeprecated) else Inl (Err NotFound))"
    using f(1) valid
    by (cases found; cases ?any) (simp_all only: get_latest_with_constraint_def Let_def, auto)
  show ?thesis
  proof (cases "versions_key s n = []")
    case True
    then have "\<forall>v. entry_key s n v = None" using stored by simp
    then show ?thesis using latest True by (auto simp: newest_def)
  next
    case False
    show ?thesis
    proof (cases found)
      case None
      then have no: "\<not> newest n ?m s e" and dep: "\<forall>v e. entry_key s n v = Some e \<and> ?m v \<longrightarrow> deprecated e"
        using f(2,3) by blast+
      show ?thesis
      proof (cases ?any)
        case True
        then have "get_latest_with_constraint n (Some c) s = Inl (Err AllVersionsDeprecated)"
          using latest False None by (simp only: option.case if_True if_False)
        then show ?thesis using no dep True by auto
      next
        case any: False
        then have "get_latest_with_constraint n (Some c) s = Inl (Err NotFound)"
          using latest False None by (simp only: option.case if_True if_False)
        then show ?thesis using no any by auto (metis option.distinct(1))
      qed
    next
      case (Some e')
      then have "newest n ?m s e'" using f(2) by blast
      then obtain v where "entry_key s n v = Some e'" "?m v" "\<not> deprecated e'"
        by (auto simp: newest_def)
      moreover have "e' = e \<longleftrightarrow> newest n ?m s e" using Some f(2) by blast
      ultimately show ?thesis using latest False Some by auto
    qed
  qed
qed

text \<open>C11. \<open>get_latest_with_constraint\<close> answers \<open>InvalidConstraint\<close> exactly when the
  constraint is longer than 32 bytes or does not parse, whatever is registered. With a well-formed
  constraint it returns the highest non-deprecated version that satisfies it; when some version
  satisfies it but all such are deprecated the error is \<open>AllVersionsDeprecated\<close>, and
  \<open>NotFound\<close> when no version does.\<close>

theorem get_latest_with_constraint_spec:
  assumes "registry_inv s"
  shows "(get_latest_with_constraint n (Some c) s = Inl (Err InvalidConstraint) \<longleftrightarrow>
            MAX_CONSTRAINT_LEN < length c \<or> (\<nexists>x. parse_constraint c = Inr x))
     \<and> (\<forall>op base. length c \<le> MAX_CONSTRAINT_LEN \<and> parse_constraint c = Inr (op, base) \<longrightarrow>
          (\<forall>e. get_latest_with_constraint n (Some c) s = Inr e \<longleftrightarrow>
            newest n (\<lambda>v. operator_holds op v base) s e)
          \<and> (get_latest_with_constraint n (Some c) s = Inl (Err NotFound) \<longleftrightarrow>
            (\<forall>v. entry_key s n v \<noteq> None \<longrightarrow> \<not> operator_holds op v base))
          \<and> (get_latest_with_constraint n (Some c) s = Inl (Err AllVersionsDeprecated) \<longleftrightarrow>
            (\<exists>v. entry_key s n v \<noteq> None \<and> operator_holds op v base)
            \<and> (\<forall>v e. entry_key s n v = Some e \<and> operator_holds op v base \<longrightarrow> deprecated e)))"
proof (cases "length c \<le> MAX_CONSTRAINT_LEN \<and> (\<exists>x. parse_constraint c = Inr x)")
  case True
  then obtain op base where "length c \<le> MAX_CONSTRAINT_LEN" "parse_constraint c = Inr (op, base)" by auto
  with get_latest_parsed [OF assms this] show ?thesis by simp
next
  case False
  have "validate_constraint c = Inl (Err InvalidConstraint)"
  proof (cases "length c \<le> MAX_CONSTRAINT_LEN")
    case True
    with False have "parse_constraint c = Inl (Err InvalidConstraint)"
      by (cases "parse_u32 (snd (split_operator c))") (auto simp: parse_constraint_def case_prod_beta)
    with True show ?thesis by (simp add: validate_constraint_def constraint_str_buf_def reject_if_def)
  qed (simp add: validate_constraint_def constraint_str_buf_def reject_if_def)
  then have "get_latest_with_constraint n (Some c) s = Inl (Err InvalidConstraint)"
    by (simp add: get_latest_with_constraint_def)
  with False show ?thesis by auto
qed

text \<open>C16. \<open>bulk_register\<close> with \<open>fail_fast\<close> by the signed admin, on at most
  \<open>MAX_BULK_BATCH_SIZE\<close> entries, is all or nothing: it always returns, and either registering
  the entries one after the other would succeed, and then the state is what that leaves plus the
  completion event and every index is a success, or it would fail, and then one failure and no
  success is reported and nothing but the event is written.\<close>

theorem bulk_register_atomic:
  assumes "registry_inv s" and "auth env c" and "admin_key s = Some c"
    and "length xs \<le> MAX_BULK_BATCH_SIZE"
  shows "\<exists>r. (case register_all c xs s of
       Inr s' \<Rightarrow> bulk_register env c xs True s = Inr (r, emit_bulk_register_completed c r s')
         \<and> successes r = map of_nat [0..<length xs] \<and> failures r = []
     | Inl _ \<Rightarrow> bulk_register env c xs True s = Inr (r, emit_bulk_register_completed c r s)
         \<and> successes r = [] \<and> length (failures r) = 1)"
proof -
  obtain bad where bad: "bulk_validate s 0 xs [] = Inr bad" using bulk_validate_total by blast
  have fold: "successes (fold record_success is r) = successes r @ is"
    "failures (fold record_success is r) = failures r" for "is" r
    by (induction "is" arbitrary: r) simp_all
  show ?thesis
  proof (cases bad)
    case None
    with bad have "register_all c xs s = Inr (bulk_write c xs s)"
      using bulk_validate_register_all by blast
    then show ?thesis
      using assms(2-4) bad None
      by (auto simp: bulk_register_def Let_def reject_if_def fold)
  next
    case (Some p)
    with bad have "bulk_validate s 0 xs [] = Inr (Some p)" by simp
    then have "\<exists>e. register_all c xs s = Inl e"
      by (rule bulk_validate_complete [OF _ assms(1)]) auto
    then obtain e where "register_all c xs s = Inl e" by blast
    then show ?thesis
      using assms(2-4) bad Some
      by (cases p) (auto simp: bulk_register_def Let_def reject_if_def)
  qed
qed

text \<open>A printed constraint parses back to its operator and base version, for all seven
  operators and all 32-bit versions.\<close>

theorem parse_print_constraint: "parse_constraint (print_constraint op v) = Inr (op, v)"
  by (simp add: parse_constraint_def print_constraint_def split_operator_print parse_u32_digits)

text \<open>The history only grows, over any sequence of transactions from any state: no entry
  disappears or changes its address or registrant, a deprecation is never undone or given another
  reason, and the version lists and the list of names are extended at the end only.\<close>

theorem registry_history_grows: "grows s (run_txs (registry_step ok) s txs)"
  by (rule run_grows)


subsection \<open>Concrete runs\<close>

lemmas registry_eval = registry_empty_def registry_initialize_def register_def register_entry_def
  validate_registration_def write_entry_def deprecate_def deprecate_one_def publish_def
  returns_def require_auth_def require_admin_def reject_if_def Let_def

definition signed :: env where
  "signed = \<lparr>timestamp = 0, sequence = 0, auth = (\<lambda>_. True)\<rparr>"

definition swap :: "u32 \<Rightarrow> bool \<Rightarrow> contract_entry" where
  "swap v d = \<lparr>entry_address = Address 1, entry_name = ''swap'', entry_version = v, deprecated = d,
     registered_by = Address 0, deprecation_reason = None\<rparr>"

text \<open>Two versions of one contract, the newer one deprecated.\<close>

definition demo_txs :: "(env \<times> registry_call) list" where
  "demo_txs = [(signed, RInitialize (Address 0)), (signed, RRegister (Address 0) ''swap'' (Address 1) 1),
     (signed, RRegister (Address 0) ''swap'' (Address 1) 2), (signed, RDeprecate (Address 0) ''swap'' 2 None)]"

definition demo :: registry where
  "demo = run_txs (registry_step (\<lambda>_ _. True)) registry_empty demo_txs"

lemma registry_demo_inv: "registry_inv demo"
  unfolding demo_def by (rule registry_machine.invar_run)

lemma registry_demo_sel:
  "admin_key demo = Some (Address 0)"
  "entry_key demo = (\<lambda>_. Map.empty)(''swap'' := [1 \<mapsto> swap 1 False, 2 \<mapsto> swap 2 True])"
  "versions_key demo = (\<lambda>_. [])(''swap'' := [1, 2])"
  by (simp_all add: demo_def demo_txs_def signed_def swap_def registry_eval fun_eq_iff word_conv)

theorem get_latest_spec_witness: "newest ''swap'' (\<lambda>_. True) demo (swap 1 False)"
proof -
  have "get_latest ''swap'' demo = Inr (swap 1 False)"
    by (simp add: get_latest_def latest_non_deprecated_def latest_matching_def registry_demo_sel swap_def Let_def
        reject_if_def)
  then show ?thesis using get_latest_spec [OF registry_demo_inv, of "''swap''" "swap 1 False"] by blast
qed

lemma demo_constraint: "parse_constraint ''>=2'' = Inr (Gte, 2)"
  by (simp add: parse_constraint_def split_operator_def strip_prefix_def parse_u32_def Let_def)

theorem get_latest_with_constraint_spec_witness:
  "get_latest_with_constraint ''swap'' (Some ''>=2'') demo = Inl (Err AllVersionsDeprecated)
   \<and> get_latest_with_constraint ''none'' (Some ''>='') demo = Inl (Err InvalidConstraint)"
proof -
  have "\<exists>v. entry_key demo ''swap'' v \<noteq> None \<and> operator_holds Gte v 2"
    by (rule exI [of _ 2]) (simp add: registry_demo_sel)
  moreover have "\<forall>v e. entry_key demo ''swap'' v = Some e \<and> operator_holds Gte v 2 \<longrightarrow> deprecated e"
    by (auto simp: registry_demo_sel swap_def word_conv split: if_splits)
  moreover have "\<nexists>x. parse_constraint ''>='' = Inr x"
    by (simp add: parse_constraint_def split_operator_def strip_prefix_def parse_u32_def Let_def)
  ultimately show ?thesis
    using get_latest_with_constraint_spec [OF registry_demo_inv, of "''swap''" "''>=2''"] demo_constraint
      get_latest_with_constraint_spec [OF registry_demo_inv, of "''none''" "''>=''"]
    by (simp add: MAX_CONSTRAINT_LEN_def)
qed

definition demo_batch :: "bulk_registration_input list" where
  "demo_batch = [\<lparr>in_name = ''pool'', in_address = Address 2, in_version = 1\<rparr>,
     \<lparr>in_name = ''swap'', in_address = Address 3, in_version = 2\<rparr>]"

theorem bulk_register_atomic_witness:
  "\<exists>r. bulk_register signed (Address 0) demo_batch True demo
      = Inr (r, emit_bulk_register_completed (Address 0) r demo)
     \<and> successes r = [] \<and> length (failures r) = 1"
proof -
  have "\<exists>e. register_all (Address 0) demo_batch demo = Inl e"
    by (simp add: demo_batch_def registry_demo_sel register_entry_def validate_registration_def reject_if_def Let_def)
  then show ?thesis
    using bulk_register_atomic [OF registry_demo_inv, of signed "Address 0" demo_batch]
    by (auto simp: registry_demo_sel signed_def demo_batch_def MAX_BULK_BATCH_SIZE_def)
qed

end
