(* ===== verification/Quote.thy ===== *)
theory Quote
  imports Common
begin

text \<open>
  The contract router-quote (\<open>contracts/router-quote/src/lib.rs\<close>): fees in basis points per
  route, flat or in tiers by amount, and quotes computed from them on checked 128-bit amounts.
\<close>

subsection \<open>State\<close>

record quote_request =
  rq_route :: string
  rq_token_in :: address
  rq_token_out :: address
  rq_amount_in :: i128

record quote_response =
  rs_route :: string
  rs_token_in :: address
  rs_token_out :: address
  rs_amount_in :: i128
  rs_amount_out :: i128
  rs_fee_amount :: i128
  rs_fee_bps :: u32

record fee_tier =
  min_amount :: i128
  tier_fee_bps :: u32

datatype quote_error = AlreadyInitialized | NotInitialized | Unauthorized | InvalidAmount
  | InvalidFeeBps | NoQuotesProvided | ArithmeticOverflow | TooManyRoutes | InvalidFeeTier
  | TooManyTiers

record quote = contract +
  default_fee :: "u32 option"
  route_fee :: "string \<Rightarrow> u32 option"
  route_fee_tiers :: "string \<Rightarrow> fee_tier list option"
  configured_routes :: "string list option"

definition quote_empty :: quote where
  "quote_empty = \<lparr>admin_key = None, events = [], default_fee = None, route_fee = Map.empty,
     route_fee_tiers = Map.empty, configured_routes = None\<rparr>"

definition BPS_DENOMINATOR :: u32 where
  "BPS_DENOMINATOR = 10000"

definition MAX_TRACKED_ROUTES :: nat where
  "MAX_TRACKED_ROUTES = 500"

definition MAX_FEE_TIERS_PER_ROUTE :: nat where
  "MAX_FEE_TIERS_PER_ROUTE = 100"

subsection \<open>Helpers\<close>

text \<open>The first index in \<open>0..len\<close> the comparator accepts, \<open>len\<close> when there is none.\<close>

definition find_insertion_index :: "nat \<Rightarrow> (nat \<Rightarrow> bool) \<Rightarrow> nat" where
  "find_insertion_index len should_insert_before =
     (case find should_insert_before [0..<len] of Some idx \<Rightarrow> idx | None \<Rightarrow> len)"

definition vec_insert :: "nat \<Rightarrow> 'a \<Rightarrow> 'a list \<Rightarrow> 'a list" where
  "vec_insert i x xs = take i xs @ x # drop i xs"

definition read_configured_routes :: "quote \<Rightarrow> string list" where
  "read_configured_routes s = unwrap_or (configured_routes s) []"

definition write_configured_routes :: "string list \<Rightarrow> quote \<Rightarrow> quote" where
  "write_configured_routes routes s = s\<lparr>configured_routes := Some routes\<rparr>"

definition track_configured_route :: "string \<Rightarrow> quote \<Rightarrow> (quote_error, quote) res" where
  "track_configured_route route s =
     (let routes = read_configured_routes s
      in if route \<notin> set routes then
           bindr (reject_if (length routes \<ge> MAX_TRACKED_ROUTES) TooManyRoutes) (\<lambda>_.
             Inr (write_configured_routes (routes @ [route]) s))
         else Inr s)"

subsection \<open>Views\<close>

definition get_default_fee :: "quote \<Rightarrow> (quote_error, u32) res" where
  "get_default_fee s = ok_or (default_fee s) NotInitialized"

definition get_route_fee :: "string \<Rightarrow> quote \<Rightarrow> (quote_error, u32) res" where
  "get_route_fee route s =
     (case route_fee s route of Some fee \<Rightarrow> Inr fee | None \<Rightarrow> get_default_fee s)"

definition get_route_fee_tiers :: "string \<Rightarrow> quote \<Rightarrow> (quote_error, fee_tier list) res" where
  "get_route_fee_tiers route s =
     ok_or (if admin_key s \<noteq> None then Some (unwrap_or (route_fee_tiers s route) []) else None)
       NotInitialized"

definition get_all_configured_routes :: "quote \<Rightarrow> (string \<times> u32) list" where
  "get_all_configured_routes s =
     List.map_filter (\<lambda>route.
       let tiers = (case get_route_fee_tiers route s of Inr t \<Rightarrow> t | Inl _ \<Rightarrow> [])
       in case tiers of
            lowest # _ \<Rightarrow> Some (route, tier_fee_bps lowest)
          | [] \<Rightarrow> (case get_route_fee route s of Inr fee \<Rightarrow> Some (route, fee) | Inl _ \<Rightarrow> None))
       (read_configured_routes s)"

definition quote_admin :: "quote \<Rightarrow> (quote_error, address) res" where
  "quote_admin s = ok_or (admin_key s) NotInitialized"

text \<open>The walk over the tiers stops at the first one above the amount.\<close>

fun matching_fee :: "i128 \<Rightarrow> fee_tier list \<Rightarrow> u32 option \<Rightarrow> u32 option" where
  "matching_fee amount [] found = found"
| "matching_fee amount (t # ts) found =
     (if sint amount \<ge> sint (min_amount t) then matching_fee amount ts (Some (tier_fee_bps t))
      else found)"

definition resolve_route_fee_bps :: "string \<Rightarrow> i128 \<Rightarrow> quote \<Rightarrow> (quote_error, u32) res" where
  "resolve_route_fee_bps route amount_in s =
     bindr (get_route_fee_tiers route s) (\<lambda>tiers.
       case matching_fee amount_in tiers None of
         Some fee \<Rightarrow> Inr fee
       | None \<Rightarrow> get_route_fee route s)"

subsection \<open>Quotes\<close>

text \<open>\<open>fee_bps as i128\<close> extends with zeros. The plain subtraction traps on overflow.\<close>

definition get_quote :: "quote_request \<Rightarrow> quote \<Rightarrow> (quote_error, quote_response, quote) tx" where
  "get_quote request s =
     bindr (reject_if (sint (rq_amount_in request) \<le> 0) InvalidAmount) (\<lambda>_.
     bindr (resolve_route_fee_bps (rq_route request) (rq_amount_in request) s) (\<lambda>fee_bps.
     bindr (ok_or (case checked_mul_i128 (rq_amount_in request) (ucast fee_bps) of
                     None \<Rightarrow> None
                   | Some v \<Rightarrow> checked_div_i128 v (ucast BPS_DENOMINATOR)) ArithmeticOverflow) (\<lambda>fee_amount.
     bindr (expect (checked_sub_i128 (rq_amount_in request) fee_amount)) (\<lambda>amount_out.
     let response = \<lparr>rs_route = rq_route request, rs_token_in = rq_token_in request,
           rs_token_out = rq_token_out request, rs_amount_in = rq_amount_in request,
           rs_amount_out = amount_out, rs_fee_amount = fee_amount, rs_fee_bps = fee_bps\<rparr>
     in Inr (response, publish ''quote_calculated''
               (VTuple [VStr (rq_route request), VI128 amount_out, VI128 fee_amount]) s)))))"

fun get_quotes_loop ::
    "quote_request list \<Rightarrow> quote_response list \<Rightarrow> quote
      \<Rightarrow> (quote_error, quote_response list, quote) tx" where
  "get_quotes_loop [] responses s = Inr (responses, s)"
| "get_quotes_loop (request # requests) responses s =
     bindr (get_quote request s) (\<lambda>(response, s').
       get_quotes_loop requests (responses @ [response]) s')"

definition get_quotes ::
    "quote_request list \<Rightarrow> quote \<Rightarrow> (quote_error, quote_response list, quote) tx" where
  "get_quotes requests s =
     bindr (reject_if (requests = []) NoQuotesProvided) (\<lambda>_. get_quotes_loop requests [] s)"

definition get_best_quote ::
    "quote_request list \<Rightarrow> quote \<Rightarrow> (quote_error, quote_response, quote) tx" where
  "get_best_quote requests s =
     bindr (get_quotes requests s) (\<lambda>(quotes, s1).
     bindr (expect (case quotes of [] \<Rightarrow> None | q # _ \<Rightarrow> Some q)) (\<lambda>first.
     let best_quote = fold (\<lambda>q best. if sint (rs_amount_out q) > sint (rs_amount_out best)
                                  then q else best) (tl quotes) first
     in Inr (best_quote, publish ''best_quote_selected''
               (VTuple [VStr (rs_route best_quote), VI128 (rs_amount_out best_quote)]) s1)))"

text \<open>A request that fails with an error is skipped; a trap would end the invocation.\<close>

fun get_quotes_sorted_loop ::
    "quote_request list \<Rightarrow> quote_response list \<Rightarrow> quote
      \<Rightarrow> (quote_error, quote_response list, quote) tx" where
  "get_quotes_sorted_loop [] sorted_quotes s = Inr (sorted_quotes, s)"
| "get_quotes_sorted_loop (request # requests) sorted_quotes s =
     (case get_quote request s of
        Inl Trap \<Rightarrow> Inl Trap
      | Inl (Err _) \<Rightarrow> get_quotes_sorted_loop requests sorted_quotes s
      | Inr (response, s') \<Rightarrow>
          (let pos = find_insertion_index (length sorted_quotes)
                 (\<lambda>idx. sint (rs_amount_out response) > sint (rs_amount_out (sorted_quotes ! idx)))
           in get_quotes_sorted_loop requests (vec_insert pos response sorted_quotes) s'))"

definition get_quotes_sorted ::
    "quote_request list \<Rightarrow> quote \<Rightarrow> (quote_error, quote_response list, quote) tx" where
  "get_quotes_sorted requests s =
     bindr (reject_if (requests = []) NoQuotesProvided) (\<lambda>_.
     bindr (reject_if (admin_key s = None) NotInitialized) (\<lambda>_.
     get_quotes_sorted_loop requests [] s))"

subsection \<open>Entry points of the admin\<close>

definition quote_initialize :: "address \<Rightarrow> u32 \<Rightarrow> quote \<Rightarrow> (quote_error, unit, quote) tx" where
  "quote_initialize admin default_fee_bps s =
     bindr (reject_if (admin_key s \<noteq> None) AlreadyInitialized) (\<lambda>_.
     bindr (reject_if (default_fee_bps > BPS_DENOMINATOR) InvalidFeeBps) (\<lambda>_.
     Inr ((), publish ''initialized'' (VTuple [VAddr admin, VU32 default_fee_bps])
       (s\<lparr>admin_key := Some admin, default_fee := Some default_fee_bps\<rparr>))))"

definition set_route_fee ::
    "env \<Rightarrow> address \<Rightarrow> string \<Rightarrow> u32 \<Rightarrow> quote \<Rightarrow> (quote_error, unit, quote) tx" where
  "set_route_fee env caller route fee_bps s =
     bindr (require_auth env caller) (\<lambda>_.
     bindr (require_admin caller NotInitialized Unauthorized s) (\<lambda>_.
     bindr (reject_if (fee_bps > BPS_DENOMINATOR) InvalidFeeBps) (\<lambda>_.
     bindr (track_configured_route route s) (\<lambda>s1.
     Inr ((), publish ''route_fee_set'' (VTuple [VStr route, VU32 fee_bps])
       (s1\<lparr>route_fee := (route_fee s1)(route \<mapsto> fee_bps)\<rparr>))))))"

definition unset_route_fee ::
    "env \<Rightarrow> address \<Rightarrow> string \<Rightarrow> quote \<Rightarrow> (quote_error, unit, quote) tx" where
  "unset_route_fee env caller route s =
     bindr (require_auth env caller) (\<lambda>_.
     bindr (require_admin caller NotInitialized Unauthorized s) (\<lambda>_.
     Inr ((), publish ''route_fee_unset'' (VStr route)
       (s\<lparr>route_fee := (route_fee s)(route := None),
          route_fee_tiers := (route_fee_tiers s)(route := None)\<rparr>))))"

fun sort_tiers :: "fee_tier list \<Rightarrow> fee_tier list \<Rightarrow> (quote_error, fee_tier list) res" where
  "sort_tiers [] sorted_tiers = Inr sorted_tiers"
| "sort_tiers (t # ts) sorted_tiers =
     bindr (reject_if (sint (min_amount t) < 0) InvalidFeeTier) (\<lambda>_.
     bindr (reject_if (tier_fee_bps t > BPS_DENOMINATOR) InvalidFeeBps) (\<lambda>_.
     let position = find_insertion_index (length sorted_tiers)
           (\<lambda>idx. sint (min_amount t) < sint (min_amount (sorted_tiers ! idx)))
     in sort_tiers ts (vec_insert position t sorted_tiers)))"

definition set_route_fee_tiers ::
    "env \<Rightarrow> address \<Rightarrow> string \<Rightarrow> fee_tier list \<Rightarrow> quote \<Rightarrow> (quote_error, unit, quote) tx" where
  "set_route_fee_tiers env caller route tiers s =
     bindr (require_auth env caller) (\<lambda>_.
     bindr (require_admin caller NotInitialized Unauthorized s) (\<lambda>_.
     bindr (reject_if (length tiers > MAX_FEE_TIERS_PER_ROUTE) TooManyTiers) (\<lambda>_.
     bindr (sort_tiers tiers []) (\<lambda>sorted_tiers.
     bindr (track_configured_route route s) (\<lambda>s1.
     Inr ((), publish ''route_fee_tiers_set''
         (VTuple [VStr route,
            VTuple (map (\<lambda>t. VTuple [VI128 (min_amount t), VU32 (tier_fee_bps t)]) sorted_tiers)])
       (s1\<lparr>route_fee_tiers := (route_fee_tiers s1)(route \<mapsto> sorted_tiers)\<rparr>)))))))"

definition set_default_fee ::
    "env \<Rightarrow> address \<Rightarrow> u32 \<Rightarrow> quote \<Rightarrow> (quote_error, unit, quote) tx" where
  "set_default_fee env caller fee_bps s =
     bindr (require_auth env caller) (\<lambda>_.
     bindr (require_admin caller NotInitialized Unauthorized s) (\<lambda>_.
     bindr (reject_if (fee_bps > BPS_DENOMINATOR) InvalidFeeBps) (\<lambda>_.
     Inr ((), publish ''default_fee_updated'' (VU32 fee_bps) (s\<lparr>default_fee := Some fee_bps\<rparr>)))))"

definition quote_transfer_admin ::
    "env \<Rightarrow> address \<Rightarrow> address \<Rightarrow> quote \<Rightarrow> (quote_error, unit, quote) tx" where
  "quote_transfer_admin env current new_admin s =
     bindr (require_auth env current) (\<lambda>_.
     bindr (require_admin current NotInitialized Unauthorized s) (\<lambda>_.
     Inr ((), admin_transfer_complete current new_admin s)))"

subsection \<open>The contract as a machine\<close>

text \<open>The quote functions write no storage but publish events, so they are calls too.\<close>

datatype quote_call = QInitialize address u32
  | QSetRouteFee address string u32
  | QUnsetRouteFee address string
  | QSetRouteFeeTiers address string "fee_tier list"
  | QSetDefaultFee address u32
  | QTransferAdmin address address
  | QGetQuote quote_request
  | QGetQuotes "quote_request list"
  | QGetBestQuote "quote_request list"
  | QGetQuotesSorted "quote_request list"

fun quote_step :: "env \<Rightarrow> quote_call \<Rightarrow> quote \<Rightarrow> (quote_error, quote) res" where
  "quote_step env (QInitialize a f) s = returns (quote_initialize a f s)"
| "quote_step env (QSetRouteFee c r f) s = returns (set_route_fee env c r f s)"
| "quote_step env (QUnsetRouteFee c r) s = returns (unset_route_fee env c r s)"
| "quote_step env (QSetRouteFeeTiers c r ts) s = returns (set_route_fee_tiers env c r ts s)"
| "quote_step env (QSetDefaultFee c f) s = returns (set_default_fee env c f s)"
| "quote_step env (QTransferAdmin c n) s = returns (quote_transfer_admin env c n s)"
| "quote_step env (QGetQuote q) s = returns (get_quote q s)"
| "quote_step env (QGetQuotes qs) s = returns (get_quotes qs s)"
| "quote_step env (QGetBestQuote qs) s = returns (get_best_quote qs s)"
| "quote_step env (QGetQuotesSorted qs) s = returns (get_quotes_sorted qs s)"

end
