(* ===== verification/Quote_Props.thy ===== *)
theory Quote_Props
  imports Quote
begin

text \<open>
  Correctness of router-quote: the storage invariant (fees of at most 100%, sorted tier schedules,
  a bounded index), exact fee arithmetic without traps, the choice of the tier, and the selection
  and ranking of quotes.
\<close>

subsection \<open>Insertion sort by position\<close>

lemma find_upt_takeWhile:
  "find_insertion_index (length xs) (\<lambda>i. P (xs ! i)) = length (takeWhile (\<lambda>x. \<not> P x) xs)"
proof -
  have "case find (\<lambda>i. P (xs ! i)) [0..<length xs] of
      Some i \<Rightarrow> i = length (takeWhile (\<lambda>x. \<not> P x) xs)
    | None \<Rightarrow> length xs = length (takeWhile (\<lambda>x. \<not> P x) xs)"
  proof (cases "find (\<lambda>i. P (xs ! i)) [0..<length xs]")
    case None
    then have "\<forall>i<length xs. \<not> P (xs ! i)" by (auto simp: find_None_iff)
    then have "takeWhile (\<lambda>x. \<not> P x) xs = xs" by (auto simp: in_set_conv_nth takeWhile_eq_all_conv)
    then show ?thesis by (simp only: None option.case)
  next
    case (Some i)
    then have i: "i < length xs" "P (xs ! i)" "\<And>j. j < i \<Longrightarrow> \<not> P (xs ! j)"
      by (auto simp: find_Some_iff nth_append)
    have "takeWhile (\<lambda>x. \<not> P x) xs = take i xs"
      using i by (intro takeWhile_eq_take_P_nth) auto
    with Some i(1) show ?thesis by simp
  qed
  then show ?thesis by (auto simp: find_insertion_index_def split: option.splits)
qed

lemma vec_insert_at:
  "vec_insert (find_insertion_index (length xs) (\<lambda>i. P (xs ! i))) x xs
     = takeWhile (\<lambda>x. \<not> P x) xs @ x # dropWhile (\<lambda>x. \<not> P x) xs"
  by (simp add: find_upt_takeWhile vec_insert_def takeWhile_eq_take [symmetric]
      dropWhile_eq_drop [symmetric])

lemma set_vec_insert [simp]: "set (vec_insert i x xs) = insert x (set xs)"
  by (simp add: vec_insert_def) (metis Un_insert_right append_take_drop_id set_append)

lemma length_vec_insert [simp]: "length (vec_insert i x xs) = Suc (length xs)"
  by (simp add: vec_insert_def)

lemma mset_vec_insert [simp]: "mset (vec_insert i x xs) = add_mset x (mset xs)"
  by (simp add: vec_insert_def) (metis append_take_drop_id mset_append union_commute)

text \<open>Ascending in a key: the new element goes before the first strictly greater one.\<close>

lemma sorted_vec_insert:
  fixes k :: "'a \<Rightarrow> int"
  assumes "sorted (map k xs)"
  shows "sorted (map k (vec_insert (find_insertion_index (length xs) (\<lambda>i. k x < k (xs ! i))) x xs))"
proof -
  have "sorted (map k (takeWhile (\<lambda>y. \<not> k x < k y) xs @ x # dropWhile (\<lambda>y. \<not> k x < k y) xs))"
    using assms
  proof (induction xs)
    case (Cons y ys)
    then show ?case by (auto dest: set_takeWhileD set_dropWhileD)
  qed simp
  then show ?thesis by (simp add: vec_insert_at [of _ "\<lambda>y. k x < k y", simplified])
qed


subsection \<open>The invariant\<close>

definition tiers_ok :: "fee_tier list \<Rightarrow> bool" where
  "tiers_ok ts \<longleftrightarrow> sorted (map (\<lambda>t. sint (min_amount t)) ts) \<and> length ts \<le> MAX_FEE_TIERS_PER_ROUTE
     \<and> (\<forall>t\<in>set ts. 0 \<le> sint (min_amount t) \<and> tier_fee_bps t \<le> BPS_DENOMINATOR)"

definition quote_inv :: "quote \<Rightarrow> bool" where
  "quote_inv s \<longleftrightarrow> (admin_key s = None \<longleftrightarrow> default_fee s = None)
     \<and> (\<forall>f. default_fee s = Some f \<longrightarrow> f \<le> BPS_DENOMINATOR)
     \<and> (\<forall>r f. route_fee s r = Some f \<longrightarrow> f \<le> BPS_DENOMINATOR)
     \<and> (\<forall>r ts. route_fee_tiers s r = Some ts \<longrightarrow> tiers_ok ts)
     \<and> distinct (read_configured_routes s) \<and> length (read_configured_routes s) \<le> MAX_TRACKED_ROUTES
     \<and> (\<forall>r. route_fee s r \<noteq> None \<or> route_fee_tiers s r \<noteq> None \<longrightarrow> r \<in> set (read_configured_routes s))"

lemma quote_inv_empty: "quote_inv quote_empty"
  by (simp add: quote_inv_def quote_empty_def read_configured_routes_def)

lemma publish_quote [simp]:
  "default_fee (publish t d s) = default_fee s" "route_fee (publish t d s) = route_fee s"
  "route_fee_tiers (publish t d s) = route_fee_tiers s"
  "configured_routes (publish t d s) = configured_routes s"
  by (simp_all add: publish_def)

lemma quote_inv_publish [simp]: "quote_inv (publish t d s) \<longleftrightarrow> quote_inv s"
  by (simp add: quote_inv_def read_configured_routes_def)

lemma sort_tiers_spec:
  assumes "sort_tiers ts acc = Inr out" and "sorted (map (\<lambda>t. sint (min_amount t)) acc)"
  shows "sorted (map (\<lambda>t. sint (min_amount t)) out) \<and> mset out = mset acc + mset ts
     \<and> (\<forall>t\<in>set ts. 0 \<le> sint (min_amount t) \<and> tier_fee_bps t \<le> BPS_DENOMINATOR)"
  using assms
proof (induction ts arbitrary: acc)
  case (Cons t ts)
  let ?acc = "vec_insert (find_insertion_index (length acc)
      (\<lambda>idx. sint (min_amount t) < sint (min_amount (acc ! idx)))) t acc"
  from Cons.prems(1) have t: "\<not> sint (min_amount t) < 0" "\<not> tier_fee_bps t > BPS_DENOMINATOR"
    and rest: "sort_tiers ts ?acc = Inr out"
    by (auto simp: res_simps Let_def)
  have "sorted (map (\<lambda>t. sint (min_amount t)) ?acc)" using Cons.prems(2) by (rule sorted_vec_insert)
  with Cons.IH [OF rest] t show ?case by auto
qed auto

lemma track_configured_route_Inr:
  assumes "track_configured_route r s = Inr s'" and "quote_inv s"
  shows "r \<in> set (read_configured_routes s')" and "quote_inv s'" and "admin_key s' = admin_key s"
    and "default_fee s' = default_fee s" and "route_fee s' = route_fee s"
    and "route_fee_tiers s' = route_fee_tiers s"
  using assms
  by (auto simp: track_configured_route_def Let_def res_simps quote_inv_def
      read_configured_routes_def write_configured_routes_def split: if_splits)

definition quote_frame :: "quote \<Rightarrow> quote \<Rightarrow> bool" where
  "quote_frame s s' \<longleftrightarrow> admin_key s' = admin_key s \<and> default_fee s' = default_fee s
     \<and> route_fee s' = route_fee s \<and> route_fee_tiers s' = route_fee_tiers s
     \<and> configured_routes s' = configured_routes s"

lemma quote_frame_refl [intro]: "quote_frame s s"
  by (simp add: quote_frame_def)

lemma quote_frame_trans: "quote_frame s s' \<Longrightarrow> quote_frame s' s'' \<Longrightarrow> quote_frame s s''"
  by (simp add: quote_frame_def)

lemma quote_frame_publish [simp]: "quote_frame s (publish t d s') \<longleftrightarrow> quote_frame s s'"
  by (simp add: quote_frame_def)

lemma quote_frame_inv: "quote_frame s s' \<Longrightarrow> quote_inv s' \<longleftrightarrow> quote_inv s"
  by (simp add: quote_frame_def quote_inv_def read_configured_routes_def)

subsection \<open>Quoting reads the configuration only\<close>

lemma get_quote_frame: "get_quote q s = Inr (rs, s') \<Longrightarrow> quote_frame s s'"
  by (auto simp: get_quote_def bindr_Inr_iff Let_def)

lemma get_quotes_loop_frame: "get_quotes_loop qs acc s = Inr (rs, s') \<Longrightarrow> quote_frame s s'"
proof (induction qs arbitrary: acc s)
  case (Cons q qs)
  then show ?case by (auto simp: bindr_Inr_iff intro: quote_frame_trans get_quote_frame)
qed auto

lemma get_quotes_frame: "get_quotes qs s = Inr (rs, s') \<Longrightarrow> quote_frame s s'"
  by (auto simp: get_quotes_def bindr_Inr_iff intro: get_quotes_loop_frame)

lemma get_best_quote_frame: "get_best_quote qs s = Inr (q, s') \<Longrightarrow> quote_frame s s'"
  by (auto simp: get_best_quote_def bindr_Inr_iff Let_def dest: get_quotes_frame)

lemma get_quotes_sorted_loop_frame:
  "get_quotes_sorted_loop qs acc s = Inr (rs, s') \<Longrightarrow> quote_frame s s'"
proof (induction qs arbitrary: acc s)
  case (Cons q qs)
  then show ?case
    by (auto simp: Let_def split: sum.splits fault.splits intro: quote_frame_trans get_quote_frame)
qed auto

lemma get_quotes_sorted_frame: "get_quotes_sorted qs s = Inr (rs, s') \<Longrightarrow> quote_frame s s'"
  by (auto simp: get_quotes_sorted_def bindr_Inr_iff intro: get_quotes_sorted_loop_frame)

fun quote_gated :: "quote_call \<Rightarrow> address option" where
  "quote_gated (QSetRouteFee c r f) = Some c"
| "quote_gated (QUnsetRouteFee c r) = Some c"
| "quote_gated (QSetRouteFeeTiers c r ts) = Some c"
| "quote_gated (QSetDefaultFee c f) = Some c"
| "quote_gated (QTransferAdmin c n) = Some c"
| "quote_gated _ = None"

lemma quote_step_gated:
  "quote_step env call s = Inr s' \<Longrightarrow> quote_gated call = Some a \<Longrightarrow> auth env a \<and> admin_key s = Some a"
  by (cases call) (auto simp: returns_Inr_iff bindr_Inr_iff require_auth_Inr_iff require_admin_Inr_iff
      set_route_fee_def unset_route_fee_def set_route_fee_tiers_def set_default_fee_def
      quote_transfer_admin_def)

lemma quote_step_open:
  assumes "quote_step env call s = Inr s'" and "quote_gated call = None" and "admin_key s = Some a"
  shows "quote_frame s s'"
  using assms
  by (cases call) (auto simp: returns_Inr_iff quote_initialize_def bindr_Inr_iff reject_if_Inr_iff
      dest: get_quote_frame get_quotes_frame get_best_quote_frame get_quotes_sorted_frame)

lemma set_route_fee_inv:
  assumes "set_route_fee env c r f s = Inr (u, s')" and "quote_inv s"
  shows "quote_inv s'"
proof -
  from assms obtain s1 where s1: "track_configured_route r s = Inr s1" and f: "f \<le> BPS_DENOMINATOR"
    and s': "s' = publish ''route_fee_set'' (VTuple [VStr r, VU32 f])
                    (s1\<lparr>route_fee := (route_fee s1)(r \<mapsto> f)\<rparr>)"
    by (auto simp: set_route_fee_def res_simps)
  from track_configured_route_Inr [OF s1 assms(2)] f show ?thesis
    by (auto simp: s' quote_inv_def read_configured_routes_def)
qed

lemma set_route_fee_tiers_Inr:
  assumes "set_route_fee_tiers env c r ts s = Inr (u, s')" and "quote_inv s"
  obtains out where "tiers_ok out" and "mset out = mset ts" and "quote_inv s'"
    and "route_fee_tiers s' = (route_fee_tiers s)(r \<mapsto> out)" and "admin_key s' = admin_key s"
    and "route_fee s' = route_fee s" and "default_fee s' = default_fee s"
proof -
  from assms obtain out s1 where out: "sort_tiers ts [] = Inr out"
    and s1: "track_configured_route r s = Inr s1" and len: "\<not> length ts > MAX_FEE_TIERS_PER_ROUTE"
    and pub: "\<exists>d. s' = publish ''route_fee_tiers_set'' d
                 (s1\<lparr>route_fee_tiers := (route_fee_tiers s1)(r \<mapsto> out)\<rparr>)"
    by (auto simp: set_route_fee_tiers_def res_simps)
  have s': "quote_frame (s1\<lparr>route_fee_tiers := (route_fee_tiers s1)(r \<mapsto> out)\<rparr>) s'"
    using pub by auto
  from sort_tiers_spec [OF out] have ms: "mset out = mset ts" by simp
  have len': "length out = length ts" and set': "set out = set ts"
    using ms by (metis size_mset, metis set_mset_mset)
  have ok: "tiers_ok out"
    using sort_tiers_spec [OF out] len set' len' by (simp add: tiers_ok_def)
  note t = track_configured_route_Inr [OF s1 assms(2)]
  have "quote_inv s'"
    using t ok quote_frame_inv [OF s'] by (auto simp: quote_inv_def read_configured_routes_def)
  then show ?thesis using that [OF ok ms] t s' by (simp add: quote_frame_def)
qed

lemma quote_step_inv:
  assumes "quote_inv s" and "quote_step env call s = Inr s'"
  shows "quote_inv s'"
proof (cases call)
  case (QInitialize a f)
  with assms show ?thesis
    by (auto simp: quote_initialize_def res_simps quote_inv_def read_configured_routes_def)
next
  case (QSetRouteFee c r f)
  with assms show ?thesis by (auto simp: returns_Inr_iff intro: set_route_fee_inv)
next
  case (QUnsetRouteFee c r)
  with assms show ?thesis
    by (auto simp: unset_route_fee_def res_simps quote_inv_def read_configured_routes_def
        split: if_splits)
next
  case (QSetRouteFeeTiers c r ts)
  with assms(2) obtain u where "set_route_fee_tiers env c r ts s = Inr (u, s')"
    by (auto simp: returns_Inr_iff)
  then show ?thesis using assms(1) by (rule set_route_fee_tiers_Inr)
next
  case (QSetDefaultFee c f)
  with assms show ?thesis
    by (auto simp: set_default_fee_def res_simps quote_inv_def read_configured_routes_def)
next
  case (QTransferAdmin c n)
  with assms show ?thesis
    by (auto simp: quote_transfer_admin_def res_simps quote_inv_def read_configured_routes_def
        admin_transfer_complete_def)
qed (use assms in \<open>auto simp: returns_Inr_iff quote_frame_inv
      dest: get_quote_frame get_quotes_frame get_best_quote_frame get_quotes_sorted_frame\<close>)

interpretation quote_machine: contract_machine quote_step quote_empty quote_inv
  by unfold_locales (use quote_inv_empty quote_step_inv in blast)+

interpretation quote_admin: admin_gated quote_step quote_empty quote_inv admin_key quote_gated quote_frame
proof unfold_locales
  fix env c s s' a
  assume "quote_step env c s = Inr s'" "quote_gated c = None" "admin_key s = Some a"
  then show "admin_key s' = Some a \<and> quote_frame s s'"
    using quote_step_open by (auto simp: quote_frame_def)
qed (auto simp: quote_step_gated intro: quote_frame_trans)


subsection \<open>The fee of a route\<close>

lemma matching_fee_none: "\<forall>t\<in>set ts. sint a < sint (min_amount t) \<Longrightarrow> matching_fee a ts found = found"
  by (cases ts) auto

lemma matching_fee_some:
  assumes "sorted (map (\<lambda>t. sint (min_amount t)) ts)" and "\<exists>t\<in>set ts. sint (min_amount t) \<le> sint a"
  shows "\<exists>t\<in>set ts. matching_fee a ts found = Some (tier_fee_bps t) \<and> sint (min_amount t) \<le> sint a
     \<and> (\<forall>u\<in>set ts. sint (min_amount u) \<le> sint a \<longrightarrow> sint (min_amount u) \<le> sint (min_amount t))"
  using assms
proof (induction ts arbitrary: found)
  case (Cons t ts)
  have t: "sint (min_amount t) \<le> sint a" using Cons.prems by force
  show ?case
  proof (cases "\<exists>u\<in>set ts. sint (min_amount u) \<le> sint a")
    case True
    with Cons obtain u where u: "u \<in> set ts" "matching_fee a ts (Some (tier_fee_bps t)) = Some (tier_fee_bps u)"
      "sint (min_amount u) \<le> sint a"
      "\<forall>v\<in>set ts. sint (min_amount v) \<le> sint a \<longrightarrow> sint (min_amount v) \<le> sint (min_amount u)"
      by fastforce
    have "sint (min_amount t) \<le> sint (min_amount u)" using Cons.prems(1) u(1) by simp
    with u t show ?thesis by auto
  next
    case False
    then have "matching_fee a ts (Some (tier_fee_bps t)) = Some (tier_fee_bps t)"
      by (intro matching_fee_none) auto
    with t False show ?thesis by auto
  qed
qed simp

lemma matching_fee_cases: "matching_fee a ts found = found \<or> (\<exists>t\<in>set ts. matching_fee a ts found = Some (tier_fee_bps t))"
  by (induction ts arbitrary: found) auto

lemma resolve_bounded:
  assumes "quote_inv s" and "admin_key s \<noteq> None"
  shows "\<exists>f. resolve_route_fee_bps r a s = Inr f \<and> f \<le> BPS_DENOMINATOR"
proof -
  obtain d where d: "default_fee s = Some d" "d \<le> BPS_DENOMINATOR"
    using assms by (auto simp: quote_inv_def)
  let ?ts = "unwrap_or (route_fee_tiers s r) []"
  have ts: "get_route_fee_tiers r s = Inr ?ts" using assms(2) by (simp add: get_route_fee_tiers_def)
  have ok: "\<forall>t\<in>set ?ts. tier_fee_bps t \<le> BPS_DENOMINATOR"
    using assms(1) by (cases "route_fee_tiers s r") (auto simp: quote_inv_def tiers_ok_def)
  have flat: "\<exists>f. get_route_fee r s = Inr f \<and> f \<le> BPS_DENOMINATOR"
    using assms(1) d by (auto simp: get_route_fee_def get_default_fee_def quote_inv_def split: option.splits)
  show ?thesis
    using matching_fee_cases [of a ?ts None] ok flat
    by (auto simp: resolve_route_fee_bps_def ts)
qed

subsection \<open>Fee arithmetic\<close>

lemma sint_ucast_bps: "sint (ucast (f :: u32) :: i128) = uint f"
proof -
  have f: "uint f < 2 ^ 32" "0 \<le> uint f" using unsigned_less [of f] by simp_all
  then have "signed_take_bit 127 (uint f) = uint f"
    by (intro signed_take_bit_int_eq_self) (rule order_trans [of _ 0], simp_all)
  then show ?thesis using f by (simp add: sint_uint unsigned_ucast_eq take_bit_int_eq_self)
qed

lemma uint_bps: "uint BPS_DENOMINATOR = 10000"
  by (simp add: BPS_DENOMINATOR_def)

lemma get_quote_value:
  assumes "0 < sint (rq_amount_in q)" and "resolve_route_fee_bps (rq_route q) (rq_amount_in q) s = Inr f"
    and "f \<le> BPS_DENOMINATOR" and "sint (rq_amount_in q) * uint f < 2 ^ 127"
  defines "fee \<equiv> sint (rq_amount_in q) * uint f div 10000"
  shows "\<exists>r s'. get_quote q s = Inr (r, s') \<and> rs_fee_bps r = f \<and> sint (rs_fee_amount r) = fee
    \<and> sint (rs_amount_out r) = sint (rq_amount_in q) - fee \<and> 0 \<le> fee \<and> fee \<le> sint (rq_amount_in q)"
proof -
  let ?a = "sint (rq_amount_in q)"
  have f: "0 \<le> uint f" "uint f \<le> 10000"
    using assms(3) uint_bps by (auto simp: word_le_def)
  have "?a * uint f \<le> ?a * 10000" using assms(1) f by (intro mult_left_mono) auto
  then have "fee \<le> ?a * 10000 div 10000" unfolding fee_def by (rule zdiv_mono1) simp
  then have fee: "0 \<le> fee" "fee \<le> ?a" using assms(1) f by (auto simp: fee_def pos_imp_zdiv_nonneg_iff)
  have a: "?a < 2 ^ 127" using in_i128_sint [of "rq_amount_in q"] by (simp add: in_i128_def)
  have nonneg: "0 \<le> ?a * uint f" using assms(1) f by simp
  have prod: "in_i128 (?a * uint f)" using nonneg assms(4) by (simp add: in_i128_def)
  have feeb: "in_i128 fee" and outb: "in_i128 (?a - fee)" using fee a by (auto simp: in_i128_def)
  have td: "trunc_div (?a * uint f) 10000 = fee"
    using nonneg by (cases "?a * uint f = 0") (auto simp: trunc_div_def fee_def sgn_if)
  define p where "p = ?a * uint f"
  define fee_w :: i128 where "fee_w = word_of_int fee"
  define out_w :: i128 where "out_w = word_of_int (?a - fee)"
  have w: "sint fee_w = fee" "sint out_w = ?a - fee"
    using feeb outb by (simp_all only: fee_w_def out_w_def sint_word_of_int_i128)
  have div: "checked_div_i128 (word_of_int p) (ucast BPS_DENOMINATOR) = Some fee_w"
    using prod td feeb unfolding p_def [symmetric]
    by (simp add: checked_div_i128_def i128_of_def sint_word_of_int_i128 sint_ucast_bps uint_bps fee_w_def)
      (simp add: BPS_DENOMINATOR_def)
  have mul: "checked_mul_i128 (rq_amount_in q) (ucast f) = Some (word_of_int p)"
    using prod unfolding p_def [symmetric]
    by (simp add: checked_mul_i128_def i128_of_def sint_ucast_bps p_def [symmetric])
  have sub: "checked_sub_i128 (rq_amount_in q) fee_w = Some out_w"
    using outb w by (simp only: checked_sub_i128_def i128_of_def out_w_def if_True)
  show ?thesis
    using assms(1,2) fee w by (simp add: get_quote_def reject_if_def mul div sub Let_def)
qed

lemma get_quote_overflow:
  assumes "0 < sint (rq_amount_in q)" and "resolve_route_fee_bps (rq_route q) (rq_amount_in q) s = Inr f"
    and "2 ^ 127 \<le> sint (rq_amount_in q) * uint f"
  shows "get_quote q s = Inl (Err ArithmeticOverflow)"
proof -
  have "checked_mul_i128 (rq_amount_in q) (ucast f) = None"
    using assms(3) by (simp add: checked_mul_i128_def i128_of_None_iff in_i128_def sint_ucast_bps)
  with assms(1,2) show ?thesis by (simp add: get_quote_def reject_if_def)
qed

lemma get_quote_no_trap:
  assumes "quote_inv s"
  shows "get_quote q s \<noteq> Inl Trap"
proof (cases "0 < sint (rq_amount_in q) \<and> admin_key s \<noteq> None")
  case True
  with resolve_bounded [OF assms] obtain f where
    "resolve_route_fee_bps (rq_route q) (rq_amount_in q) s = Inr f" "f \<le> BPS_DENOMINATOR" by blast
  with True get_quote_value get_quote_overflow show ?thesis
    by (metis fault.distinct(1) linorder_not_less old.sum.distinct(1) sum.inject(1))
next
  case False
  then show ?thesis
    by (cases "0 < sint (rq_amount_in q)")
      (auto simp: get_quote_def resolve_route_fee_bps_def get_route_fee_tiers_def reject_if_def)
qed


subsection \<open>Selection and ranking\<close>


text \<open>The response to a request, without the event: it depends on the configuration only.\<close>

definition response :: "quote \<Rightarrow> quote_request \<Rightarrow> (quote_error, quote_response) res" where
  "response s q = map_sum id fst (get_quote q s)"

lemma get_route_fee_frame: "quote_frame s t \<Longrightarrow> get_route_fee r t = get_route_fee r s"
  by (simp add: quote_frame_def get_route_fee_def get_default_fee_def cong: option.case_cong)

lemma resolve_frame: "quote_frame s t \<Longrightarrow> resolve_route_fee_bps r a t = resolve_route_fee_bps r a s"
  using get_route_fee_frame [of s t r]
  by (simp add: quote_frame_def resolve_route_fee_bps_def get_route_fee_tiers_def cong: option.case_cong)

lemma map_sum_bindr: "map_sum id f (bindr m g) = bindr m (\<lambda>x. map_sum id f (g x))"
  by (cases m) auto

lemma response_frame: "quote_frame s t \<Longrightarrow> response t = response s"
  by (rule ext) (simp add: response_def get_quote_def map_sum_bindr resolve_frame Let_def)

lemma response_Inr: "get_quote q s = Inr (r, s') \<Longrightarrow> response s q = Inr r"
  by (simp add: response_def)

lemma response_Inl: "get_quote q s = Inl e \<Longrightarrow> response s q = Inl e"
  by (simp add: response_def)

lemma get_quotes_loop_Inr:
  "get_quotes_loop qs acc s = Inr (rs, s') \<Longrightarrow> \<exists>new. rs = acc @ new \<and> map (response s) qs = map Inr new"
proof (induction qs arbitrary: acc s)
  case (Cons q qs)
  then obtain r s1 where r: "get_quote q s = Inr (r, s1)"
    and rest: "get_quotes_loop qs (acc @ [r]) s1 = Inr (rs, s')"
    by (auto simp: bindr_Inr_iff)
  from Cons.IH [OF rest] obtain new where "rs = acc @ r # new" "map (response s1) qs = map Inr new" by auto
  moreover have "response s1 = response s" using get_quote_frame [OF r] by (rule response_frame)
  ultimately show ?case using response_Inr [OF r] by (intro exI [of _ "r # new"]) simp
qed simp

lemma get_quotes_Inr:
  "get_quotes qs s = Inr (rs, s') \<Longrightarrow> qs \<noteq> [] \<and> map (response s) qs = map Inr rs"
  using get_quotes_loop_Inr [of qs "[]"] by (fastforce simp: get_quotes_def bindr_Inr_iff reject_if_Inr_iff)

definition better :: "quote_response \<Rightarrow> quote_response \<Rightarrow> quote_response" where
  "better q best = (if sint (rs_amount_out q) > sint (rs_amount_out best) then q else best)"

lemma fold_better:
  "fold better qs b \<in> set (b # qs)
     \<and> (\<forall>q\<in>set (b # qs). sint (rs_amount_out q) \<le> sint (rs_amount_out (fold better qs b)))"
proof (induction qs arbitrary: b)
  case (Cons q qs)
  let ?c = "better q b"
  have "fold better qs ?c \<in> set (?c # qs)"
    and ge: "\<forall>q\<in>set (?c # qs). sint (rs_amount_out q) \<le> sint (rs_amount_out (fold better qs ?c))"
    using Cons [of ?c] by blast+
  moreover have "?c = q \<or> ?c = b" by (simp add: better_def)
  moreover have "sint (rs_amount_out q) \<le> sint (rs_amount_out ?c)"
    "sint (rs_amount_out b) \<le> sint (rs_amount_out ?c)" by (auto simp: better_def)
  ultimately show ?case by (auto intro: order_trans)
qed simp

lemma sorted_loop_spec:
  assumes "\<And>q t. quote_frame s t \<Longrightarrow> get_quote q t \<noteq> Inl Trap" and "quote_frame s t"
    and "sorted (map (\<lambda>r. - sint (rs_amount_out r)) acc)"
  shows "\<exists>rs t'. get_quotes_sorted_loop qs acc t = Inr (rs, t')
     \<and> sorted (map (\<lambda>r. - sint (rs_amount_out r)) rs)
     \<and> mset rs = mset acc + mset (List.map_filter (\<lambda>q. case response s q of Inr r \<Rightarrow> Some r | Inl _ \<Rightarrow> None) qs)"
  using assms(2,3)
proof (induction qs arbitrary: acc t)
  case (Cons q qs)
  have resp: "response t q = response s q" using response_frame [OF Cons.prems(1)] by simp
  show ?case
  proof (cases "get_quote q t")
    case (Inl e)
    with assms(1) [OF Cons.prems(1), of q] obtain e' where "e = Err e'" by (cases e) auto
    with Inl Cons.IH [OF Cons.prems] response_Inl [OF Inl] resp show ?thesis
      by (simp add: List.map_filter_simps)
  next
    case (Inr p)
    then obtain r t1 where r: "get_quote q t = Inr (r, t1)" by (cases p) auto
    let ?acc = "vec_insert (find_insertion_index (length acc)
        (\<lambda>idx. sint (rs_amount_out r) > sint (rs_amount_out (acc ! idx)))) r acc"
    have "find_insertion_index (length acc) (\<lambda>idx. - sint (rs_amount_out r) < - sint (rs_amount_out (acc ! idx)))
       = find_insertion_index (length acc) (\<lambda>idx. sint (rs_amount_out r) > sint (rs_amount_out (acc ! idx)))"
      by simp
    with sorted_vec_insert [OF Cons.prems(2), of r]
    have "sorted (map (\<lambda>r. - sint (rs_amount_out r)) ?acc)" by simp
    moreover have "quote_frame s t1" using Cons.prems(1) get_quote_frame [OF r] by (rule quote_frame_trans)
    ultimately obtain rs t' where "get_quotes_sorted_loop qs ?acc t1 = Inr (rs, t')"
      "sorted (map (\<lambda>r. - sint (rs_amount_out r)) rs)"
      "mset rs = mset ?acc + mset (List.map_filter (\<lambda>q. case response s q of Inr r \<Rightarrow> Some r | Inl _ \<Rightarrow> None) qs)"
      using Cons.IH by blast
    with r response_Inr [OF r] resp show ?thesis by (simp add: List.map_filter_simps Let_def)
  qed
qed (simp add: List.map_filter_simps)


subsection \<open>Properties\<close>

text \<open>In every state router-quote can reach: a default fee is set exactly when there is an
  admin; no fee, flat, default or of a tier, is above 100%; every tier schedule is sorted by
  non-negative minimum and has at most 100 tiers; the index of configured routes has no duplicate,
  at most 500 names, and every route with a fee or a schedule.\<close>

theorem quote_reachable_inv: "quote_inv (run_txs quote_step quote_empty txs)"
  by (rule quote_machine.invar_run)

text \<open>C8. On an initialised contract a quote of a positive amount never traps: with \<open>f\<close> the fee
  of the route, at most 10000 basis points, it fails with \<open>ArithmeticOverflow\<close> exactly when
  \<open>amount * f\<close> leaves the 128-bit range, and otherwise charges \<open>amount * f div 10000\<close>,
  between nothing and the whole amount, and pays out the rest.\<close>

theorem get_quote_exact:
  assumes "quote_inv s" and "admin_key s \<noteq> None" and "0 < sint (rq_amount_in q)"
  shows "\<exists>f. resolve_route_fee_bps (rq_route q) (rq_amount_in q) s = Inr f \<and> f \<le> BPS_DENOMINATOR
     \<and> (if 2 ^ 127 \<le> sint (rq_amount_in q) * uint f
         then get_quote q s = Inl (Err ArithmeticOverflow)
         else \<exists>r s'. get_quote q s = Inr (r, s') \<and> rs_fee_bps r = f
            \<and> sint (rs_fee_amount r) = sint (rq_amount_in q) * uint f div 10000
            \<and> sint (rs_amount_out r) = sint (rq_amount_in q) - sint (rs_fee_amount r)
            \<and> 0 \<le> sint (rs_fee_amount r) \<and> 0 \<le> sint (rs_amount_out r))"
proof -
  obtain f where f: "resolve_route_fee_bps (rq_route q) (rq_amount_in q) s = Inr f" "f \<le> BPS_DENOMINATOR"
    using resolve_bounded [OF assms(1,2)] by blast
  let ?a = "sint (rq_amount_in q)" and ?fee = "sint (rq_amount_in q) * uint f div 10000"
  have "\<exists>r s'. get_quote q s = Inr (r, s') \<and> rs_fee_bps r = f \<and> sint (rs_fee_amount r) = ?fee
      \<and> sint (rs_amount_out r) = ?a - sint (rs_fee_amount r)
      \<and> 0 \<le> sint (rs_fee_amount r) \<and> 0 \<le> sint (rs_amount_out r)" if "\<not> 2 ^ 127 \<le> ?a * uint f"
    using get_quote_value [OF assms(3) f] that by force
  with f get_quote_overflow [OF assms(3) f(1)] show ?thesis by auto
qed

text \<open>After the admin stores a tier schedule, in any order, an amount is charged the fee of the
  tier with the highest minimum not above it, and an amount below every minimum the flat or
  default fee.\<close>

theorem tier_selection:
  assumes "quote_inv s" and "set_route_fee_tiers env c r ts s = Inr (u, s')"
  shows "if \<exists>t\<in>set ts. sint (min_amount t) \<le> sint a
     then \<exists>t\<in>set ts. resolve_route_fee_bps r a s' = Inr (tier_fee_bps t) \<and> sint (min_amount t) \<le> sint a
       \<and> (\<forall>t'\<in>set ts. sint (min_amount t') \<le> sint a \<longrightarrow> sint (min_amount t') \<le> sint (min_amount t))
     else resolve_route_fee_bps r a s' = get_route_fee r s"
proof -
  obtain out where out: "tiers_ok out" "mset out = mset ts" "route_fee_tiers s' = (route_fee_tiers s)(r \<mapsto> out)"
    "admin_key s' = admin_key s" "route_fee s' = route_fee s" "default_fee s' = default_fee s"
    using set_route_fee_tiers_Inr [OF assms(2,1)] .
  have set: "set out = set ts" using out(2) by (metis set_mset_mset)
  have admin: "admin_key s' \<noteq> None"
    using assms(2) out(4) by (auto simp: set_route_fee_tiers_def bindr_Inr_iff require_admin_Inr_iff)
  have flat: "get_route_fee r s' = get_route_fee r s"
    using out(5,6) by (simp add: get_route_fee_def get_default_fee_def cong: option.case_cong)
  have res: "resolve_route_fee_bps r a s' =
      (case matching_fee a out None of Some fee \<Rightarrow> Inr fee | None \<Rightarrow> get_route_fee r s)"
    using admin by (auto simp: resolve_route_fee_bps_def get_route_fee_tiers_def out(3) flat split: option.splits)
  show ?thesis
  proof (cases "\<exists>t\<in>set ts. sint (min_amount t) \<le> sint a")
    case True
    with matching_fee_some [of out a None] out(1) set
    obtain t where t: "t \<in> set ts" "matching_fee a out None = Some (tier_fee_bps t)"
      "sint (min_amount t) \<le> sint a"
      "\<forall>t'\<in>set ts. sint (min_amount t') \<le> sint a \<longrightarrow> sint (min_amount t') \<le> sint (min_amount t)"
      by (auto simp: tiers_ok_def)
    have "resolve_route_fee_bps r a s' = Inr (tier_fee_bps t)" using res t(2) by simp
    with True t show ?thesis by auto
  next
    case False
    then have "matching_fee a out None = None" using set by (intro matching_fee_none) auto
    then have "resolve_route_fee_bps r a s' = get_route_fee r s" using res by simp
    with False show ?thesis by (simp only: if_False)
  qed
qed

text \<open>\<open>get_best_quote\<close> returns a quote of one of the requests, and no request was quoted a
  higher output; each request was quoted (one failing request fails the call).\<close>

theorem best_quote_maximal:
  assumes "get_best_quote qs s = Inr (best, s')"
  shows "(\<exists>q\<in>set qs. response s q = Inr best)
     \<and> (\<forall>q\<in>set qs. \<exists>r. response s q = Inr r \<and> sint (rs_amount_out r) \<le> sint (rs_amount_out best))"
proof -
  obtain rs s1 where rs: "get_quotes qs s = Inr (rs, s1)" using assms by (auto simp: get_best_quote_def bindr_Inr_iff)
  have resp: "qs \<noteq> []" "map (response s) qs = map Inr rs" using get_quotes_Inr [OF rs] by auto
  then obtain r0 rs' where rs': "rs = r0 # rs'" by (cases rs) auto
  have "best = fold better rs' r0"
    using assms rs rs' by (simp add: get_best_quote_def Let_def better_def [abs_def])
  then have best: "best \<in> set rs" "\<forall>r\<in>set rs. sint (rs_amount_out r) \<le> sint (rs_amount_out best)"
    using fold_better [of rs' r0] rs' by auto
  have "Inr best \<in> set (map (response s) qs)" using best(1) resp(2) by simp
  then have A: "\<exists>q\<in>set qs. response s q = Inr best" by auto
  have "\<exists>r. response s q = Inr r \<and> sint (rs_amount_out r) \<le> sint (rs_amount_out best)" if "q \<in> set qs" for q
  proof -
    have "response s q \<in> set (map Inr rs)" using that resp(2) by (metis image_eqI set_map)
    then show ?thesis using best(2) by auto
  qed
  with A show ?thesis by blast
qed

text \<open>On an initialised contract \<open>get_quotes_sorted\<close> of a non-empty list of requests always
  returns, with the quotes of exactly the requests that can be quoted, best output first.\<close>

theorem quotes_sorted_spec:
  assumes "quote_inv s" and "admin_key s \<noteq> None" and "qs \<noteq> []"
  shows "\<exists>rs s'. get_quotes_sorted qs s = Inr (rs, s')
     \<and> sorted_wrt (\<lambda>r r'. sint (rs_amount_out r) \<ge> sint (rs_amount_out r')) rs
     \<and> mset rs = mset (List.map_filter (\<lambda>q. case response s q of Inr r \<Rightarrow> Some r | Inl _ \<Rightarrow> None) qs)"
proof -
  have "get_quote q t \<noteq> Inl Trap" if "quote_frame s t" for q t
    using get_quote_no_trap assms(1) quote_frame_inv [OF that] by blast
  then obtain rs t' where "get_quotes_sorted_loop qs [] s = Inr (rs, t')"
    "sorted (map (\<lambda>r. - sint (rs_amount_out r)) rs)"
    "mset rs = mset [] + mset (List.map_filter (\<lambda>q. case response s q of Inr r \<Rightarrow> Some r | Inl _ \<Rightarrow> None) qs)"
    using sorted_loop_spec [of s s "[]" qs] by auto
  with assms(2,3) show ?thesis
    by (auto simp: get_quotes_sorted_def reject_if_def sorted_wrt_map)
qed


subsection \<open>Concrete runs\<close>

definition signed :: env where
  "signed = \<lparr>timestamp = 0, sequence = 0, auth = (\<lambda>_. True)\<rparr>"

definition demo :: quote where
  "demo = run_txs quote_step quote_empty [(signed, QInitialize (Address 0) 30),
     (signed, QSetRouteFee (Address 0) ''usdc'' 100)]"

lemma quote_demo_inv: "quote_inv demo"
  unfolding demo_def by (rule quote_machine.invar_run)

lemmas quote_eval = quote_empty_def quote_initialize_def set_route_fee_def track_configured_route_def
  read_configured_routes_def write_configured_routes_def publish_def returns_def require_auth_def
  require_admin_def reject_if_def Let_def BPS_DENOMINATOR_def MAX_TRACKED_ROUTES_def

lemma quote_demo_sel:
  "admin_key demo = Some (Address 0)" "default_fee demo = Some 30" "route_fee demo = [''usdc'' \<mapsto> 100]"
  "route_fee_tiers demo = Map.empty" "configured_routes demo = Some [''usdc'']"
  by (simp_all add: demo_def signed_def quote_eval)

definition ask :: "string \<Rightarrow> i128 \<Rightarrow> quote_request" where
  "ask r a = \<lparr>rq_route = r, rq_token_in = Address 1, rq_token_out = Address 2, rq_amount_in = a\<rparr>"

lemma ask_sel [simp]: "rq_route (ask r a) = r" "rq_amount_in (ask r a) = a"
  by (simp_all add: ask_def)

lemma demo_fee: "resolve_route_fee_bps ''usdc'' a demo = Inr 100"
  by (simp add: resolve_route_fee_bps_def get_route_fee_tiers_def get_route_fee_def quote_demo_sel)

theorem get_quote_exact_witness:
  "\<exists>r s'. get_quote (ask ''usdc'' 1050) demo = Inr (r, s') \<and> sint (rs_fee_amount r) = 10
     \<and> sint (rs_amount_out r) = 1040"
  using get_quote_exact [OF quote_demo_inv, of "ask ''usdc'' 1050"] by (auto simp: quote_demo_sel demo_fee)

definition demo_tiers :: "fee_tier list" where
  "demo_tiers = [\<lparr>min_amount = 1000, tier_fee_bps = 10\<rparr>, \<lparr>min_amount = 100, tier_fee_bps = 20\<rparr>]"

theorem tier_selection_witness:
  "\<exists>s'. set_route_fee_tiers signed (Address 0) ''usdc'' demo_tiers demo = Inr ((), s')
     \<and> resolve_route_fee_bps ''usdc'' 500 s' = Inr 20"
proof -
  obtain s' where s': "set_route_fee_tiers signed (Address 0) ''usdc'' demo_tiers demo = Inr ((), s')"
    by (simp add: set_route_fee_tiers_def demo_tiers_def quote_demo_sel signed_def quote_eval
        MAX_FEE_TIERS_PER_ROUTE_def)
  with tier_selection [OF quote_demo_inv s', of 500] show ?thesis by (auto simp: demo_tiers_def)
qed

definition demo_asks :: "quote_request list" where
  "demo_asks = [ask ''usdc'' 1000, ask ''xlm'' 1000]"

theorem best_quote_maximal_witness:
  "\<exists>best s'. get_best_quote demo_asks demo = Inr (best, s')
     \<and> (\<forall>q\<in>set demo_asks. \<exists>r. response demo q = Inr r
          \<and> sint (rs_amount_out r) \<le> sint (rs_amount_out best))"
proof -
  obtain best s' where run: "get_best_quote demo_asks demo = Inr (best, s')"
    by (simp add: get_best_quote_def get_quotes_def demo_asks_def get_quote_def resolve_route_fee_bps_def
        get_route_fee_tiers_def get_route_fee_def get_default_fee_def quote_demo_sel reject_if_def
        checked_mul_i128_def checked_div_i128_def checked_sub_i128_def i128_of_def in_i128_def
        trunc_div_def BPS_DENOMINATOR_def Let_def)
  with best_quote_maximal [OF run] show ?thesis by blast
qed

theorem quotes_sorted_spec_witness:
  "\<exists>rs s'. get_quotes_sorted demo_asks demo = Inr (rs, s')
     \<and> sorted_wrt (\<lambda>r r'. sint (rs_amount_out r) \<ge> sint (rs_amount_out r')) rs"
  using quotes_sorted_spec [OF quote_demo_inv, of demo_asks] by (auto simp: quote_demo_sel demo_asks_def)

end
