(* ===== verification/Guards.thy ===== *)
theory Guards
  imports Common
begin

text \<open>
  The state of the contract router-middleware and its three per-concern modules
  (\<open>contracts/router-middleware/src/rate_limit.rs\<close>, \<open>circuit_breaker.rs\<close>,
  \<open>call_log.rs\<close>): the fixed-window counter per caller, the circuit breaker of a route and
  the ring buffer of its calls.
\<close>

subsection \<open>State\<close>

record rate_limit_state =
  calls_in_window :: u32
  window_start :: u64
  total_violations :: u32

record route_rate_limit_stats =
  total_calls_in_window :: u32
  stats_window_start :: u64
  stats_total_violations :: u32

record route_config =
  max_calls_per_window :: u32
  window_seconds :: u64
  enabled :: bool
  failure_threshold :: u32
  recovery_window_seconds :: u64
  log_retention :: u32
  burst_allowance :: u32

record circuit_breaker_state =
  failure_count :: u32
  opened_at :: u64
  is_open :: bool
  is_half_open :: bool

record route_call_state =
  rate_limits :: "(address, rate_limit_state) hmap"
  circuit_breaker :: circuit_breaker_state

record call_log_entry =
  cl_caller :: address
  cl_timestamp :: u64
  cl_success :: bool
  cl_route :: string

record call_log_state =
  log_entries :: "call_log_entry list"
  log_head :: u32
  log_count :: u32

record call_log_summary =
  sum_total_calls :: u32
  sum_success_count :: u32
  sum_failure_count :: u32
  last_call_timestamp :: u64

record caller_rate_limit_config =
  max_calls :: u32
  window_secs :: u64

datatype rate_limit_strategy = Reject | Throttle | LogOnly

datatype middleware_error = AlreadyInitialized | NotInitialized | Unauthorized | RateLimitExceeded
  | RouteDisabled | MiddlewareDisabled | InvalidConfig | CircuitOpen | Reentrancy

text \<open>One field per storage key, \<open>None\<close> when the key is absent.\<close>

record middleware = contract +
  route_call_state_key :: "string \<Rightarrow> route_call_state option"
  route_config_key :: "string \<Rightarrow> route_config option"
  global_enabled :: "bool option"
  total_calls :: "u64 option"
  call_log_key :: "string \<Rightarrow> call_log_state option"
  mw_configured_routes :: "string list option"
  call_log_summary_key :: "string \<Rightarrow> call_log_summary option"
  rate_limit_strategy_key :: "string \<Rightarrow> rate_limit_strategy option"
  caller_rate_limit :: "string \<Rightarrow> address \<Rightarrow> caller_rate_limit_config option"
  executing :: "string \<Rightarrow> bool option"
  last_rate_limit_prune :: "string \<Rightarrow> u64 option"

definition middleware_empty :: middleware where
  "middleware_empty = \<lparr>admin_key = None, events = [], route_call_state_key = Map.empty,
     route_config_key = Map.empty, global_enabled = None, total_calls = None, call_log_key = Map.empty,
     mw_configured_routes = None, call_log_summary_key = Map.empty, rate_limit_strategy_key = Map.empty,
     caller_rate_limit = (\<lambda>_. Map.empty), executing = Map.empty, last_rate_limit_prune = Map.empty\<rparr>"

definition RATE_LIMIT_STALE_WINDOW_MULTIPLIER :: u64 where
  "RATE_LIMIT_STALE_WINDOW_MULTIPLIER = 4"

definition RATE_LIMIT_PRUNE_INTERVAL :: u64 where
  "RATE_LIMIT_PRUNE_INTERVAL = 3600"

definition MAX_LOG_RETENTION :: u32 where
  "MAX_LOG_RETENTION = 10000"

subsection \<open>Rate limits (rate_limit.rs)\<close>

record rate_limit_check =
  exceeded :: bool
  updated_state :: rate_limit_state

definition window_elapsed :: "u64 \<Rightarrow> u64 \<Rightarrow> u64 \<Rightarrow> bool" where
  "window_elapsed now start window \<longleftrightarrow> now \<ge> saturating_add start window"

definition resolve_effective_window :: "middleware \<Rightarrow> string \<Rightarrow> address \<Rightarrow> u64 \<Rightarrow> u64" where
  "resolve_effective_window s route caller base_window =
     unwrap_or (map_option window_secs (caller_rate_limit s route caller)) base_window"

text \<open>The violation counter is incremented by a plain \<open>+\<close>, which traps at the top.\<close>

definition check_and_increment ::
    "env \<Rightarrow> address \<Rightarrow> route_call_state \<Rightarrow> u32 \<Rightarrow> u64 \<Rightarrow> (middleware_error, rate_limit_check) res" where
  "check_and_increment env caller rcs effective_limit effective_window =
     (let now = timestamp env;
          state = unwrap_or (map_of (rate_limits rcs) caller)
                    \<lparr>calls_in_window = 0, window_start = now, total_violations = 0\<rparr>;
          elapsed = window_elapsed now (window_start state) effective_window;
          calls = (if elapsed then 0 else calls_in_window state);
          start = (if elapsed then now else window_start state)
      in if calls \<ge> effective_limit then
           bindr (expect (checked_add (total_violations state) 1)) (\<lambda>violations.
           Inr \<lparr>exceeded = True, updated_state = \<lparr>calls_in_window = calls, window_start = start,
                  total_violations = violations\<rparr>\<rparr>)
         else
           bindr (expect (checked_add calls 1)) (\<lambda>calls'.
           Inr \<lparr>exceeded = False, updated_state = \<lparr>calls_in_window = calls', window_start = start,
                  total_violations = total_violations state\<rparr>\<rparr>))"

definition publish_throttled :: "address \<Rightarrow> string \<Rightarrow> middleware \<Rightarrow> middleware" where
  "publish_throttled caller route s =
     publish ''rate_limit_throttled'' (VTuple [VAddr caller, VStr route]) s"

definition publish_exceeded :: "address \<Rightarrow> string \<Rightarrow> middleware \<Rightarrow> middleware" where
  "publish_exceeded caller route s =
     publish ''rate_limit_exceeded'' (VTuple [VAddr caller, VStr route]) s"

definition reset_for_caller :: "string \<Rightarrow> address \<Rightarrow> middleware \<Rightarrow> middleware" where
  "reset_for_caller route caller s =
     publish ''rate_limit_reset'' (VTuple [VStr route, VAddr caller])
       (case route_call_state_key s route of
          Some rcs \<Rightarrow> s\<lparr>route_call_state_key := (route_call_state_key s)
            (route \<mapsto> rcs\<lparr>rate_limits := hmap_remove caller (rate_limits rcs)\<rparr>)\<rparr>
        | None \<Rightarrow> s)"

subsection \<open>Circuit breaker (circuit_breaker.rs)\<close>

definition closed_breaker :: circuit_breaker_state where
  "closed_breaker = \<lparr>failure_count = 0, opened_at = 0, is_open = False, is_half_open = False\<rparr>"

definition default_route_call_state :: route_call_state where
  "default_route_call_state = \<lparr>rate_limits = [], circuit_breaker = closed_breaker\<rparr>"

definition recovery_elapsed :: "circuit_breaker_state \<Rightarrow> route_config \<Rightarrow> u64 \<Rightarrow> bool" where
  "recovery_elapsed cb config now \<longleftrightarrow>
     recovery_window_seconds config > 0
     \<and> now \<ge> saturating_add (opened_at cb) (recovery_window_seconds config)"

text \<open>The result is whether the call is blocked, and the state with the breaker updated.\<close>

definition check_and_transition ::
    "env \<Rightarrow> route_config \<Rightarrow> route_call_state \<Rightarrow> bool \<times> route_call_state" where
  "check_and_transition env config rcs =
     (if is_open (circuit_breaker rcs) then
        if recovery_elapsed (circuit_breaker rcs) config (timestamp env) then
          (False, rcs\<lparr>circuit_breaker := (circuit_breaker rcs)\<lparr>is_open := False, is_half_open := True\<rparr>\<rparr>)
        else (True, rcs)
      else (False, rcs))"

definition handle_failure ::
    "env \<Rightarrow> string \<Rightarrow> route_config \<Rightarrow> circuit_breaker_state \<Rightarrow> middleware
      \<Rightarrow> (middleware_error, circuit_breaker_state, middleware) tx" where
  "handle_failure env route config cb s =
     (if is_half_open cb then
        (let cb' = cb\<lparr>is_half_open := False, is_open := True, opened_at := timestamp env,
                      failure_count := 1\<rparr>
         in Inr (cb', publish ''circuit_opened'' (VTuple [VStr route, VU32 (failure_count cb')]) s))
      else
        bindr (expect (checked_add (failure_count cb) 1)) (\<lambda>n.
        let cb1 = cb\<lparr>failure_count := n\<rparr>
        in if n \<ge> failure_threshold config then
             Inr (cb1\<lparr>is_open := True, opened_at := timestamp env\<rparr>,
                  publish ''circuit_opened'' (VTuple [VStr route, VU32 n]) s)
           else Inr (cb1, s)))"

definition handle_success ::
    "string \<Rightarrow> circuit_breaker_state \<Rightarrow> middleware \<Rightarrow> circuit_breaker_state \<times> middleware" where
  "handle_success route cb s =
     (if is_half_open cb then
        (cb\<lparr>is_half_open := False, failure_count := 0, opened_at := 0\<rparr>,
         publish ''circuit_closed'' (VStr route) s)
      else if \<not> is_open cb \<and> failure_count cb > 0 then (cb\<lparr>failure_count := 0\<rparr>, s)
      else (cb, s))"

definition breaker_reset :: "string \<Rightarrow> middleware \<Rightarrow> middleware" where
  "breaker_reset route s =
     publish ''circuit_reset'' (VStr route)
       (case route_call_state_key s route of
          Some rcs \<Rightarrow> s\<lparr>route_call_state_key := (route_call_state_key s)
            (route \<mapsto> rcs\<lparr>circuit_breaker := closed_breaker\<rparr>)\<rparr>
        | None \<Rightarrow> s)"

subsection \<open>Call log (call_log.rs)\<close>

text \<open>\<open>Vec::set\<close> traps when the index is out of range.\<close>

definition vec_set :: "nat \<Rightarrow> 'a \<Rightarrow> 'a list \<Rightarrow> ('e, 'a list) res" where
  "vec_set i x xs = (if i < length xs then Inr (xs[i := x]) else Inl Trap)"

definition ring_push ::
    "u32 \<Rightarrow> call_log_entry \<Rightarrow> call_log_state \<Rightarrow> (middleware_error, call_log_state) res" where
  "ring_push cap entry log =
     bindr (if length (log_entries log) < unat cap then
              Inr (log\<lparr>log_entries := log_entries log @ [entry]\<rparr>)
            else
              bindr (vec_set (unat (log_head log)) entry (log_entries log)) (\<lambda>entries'.
              bindr (expect (checked_add (log_head log) 1)) (\<lambda>next.
              Inr (log\<lparr>log_entries := entries', log_head := next mod cap\<rparr>)))) (\<lambda>log1.
     Inr (log1\<lparr>log_count := min (saturating_add (log_count log1) 1) cap\<rparr>))"

definition summary_add ::
    "env \<Rightarrow> bool \<Rightarrow> call_log_summary \<Rightarrow> (middleware_error, call_log_summary) res" where
  "summary_add env success sm =
     bindr (expect (checked_add (sum_total_calls sm) 1)) (\<lambda>total.
     bindr (if success
            then bindr (expect (checked_add (sum_success_count sm) 1)) (\<lambda>n.
                   Inr (sm\<lparr>sum_success_count := n\<rparr>))
            else bindr (expect (checked_add (sum_failure_count sm) 1)) (\<lambda>n.
                   Inr (sm\<lparr>sum_failure_count := n\<rparr>))) (\<lambda>sm1.
     Inr (sm1\<lparr>sum_total_calls := total, last_call_timestamp := timestamp env\<rparr>)))"

definition log_append ::
    "env \<Rightarrow> address \<Rightarrow> string \<Rightarrow> bool \<Rightarrow> route_config \<Rightarrow> middleware \<Rightarrow> (middleware_error, middleware) res" where
  "log_append env caller route success config s =
     (if log_retention config = 0 then Inr s
      else
        (let log = unwrap_or (call_log_key s route) \<lparr>log_entries = [], log_head = 0, log_count = 0\<rparr>;
             entry = \<lparr>cl_caller = caller, cl_timestamp = timestamp env, cl_success = success,
                      cl_route = route\<rparr>;
             summary = unwrap_or (call_log_summary_key s route)
               \<lparr>sum_total_calls = 0, sum_success_count = 0, sum_failure_count = 0, last_call_timestamp = 0\<rparr>
         in bindr (ring_push (log_retention config) entry log) (\<lambda>log'.
            bindr (summary_add env success summary) (\<lambda>summary'.
            Inr (s\<lparr>call_log_key := (call_log_key s)(route \<mapsto> log'),
                   call_log_summary_key := (call_log_summary_key s)(route \<mapsto> summary')\<rparr>)))))"

definition log_clear :: "string \<Rightarrow> middleware \<Rightarrow> middleware" where
  "log_clear route s =
     publish ''call_log_cleared'' (VStr route)
       (s\<lparr>call_log_key := (call_log_key s)(route := None),
          call_log_summary_key := (call_log_summary_key s)(route := None)\<rparr>)"

end
