(* ===== verification/Middleware.thy ===== *)
theory Middleware
  imports Guards
begin

text \<open>
  The contract router-middleware (\<open>contracts/router-middleware/src/lib.rs\<close>): the hooks
  \<open>pre_call\<close> and \<open>post_call\<close>, the administration of routes and limits, and the views.
  A write before a returned error is discarded by the host, so the error branches carry no state.
\<close>

subsection \<open>Administration\<close>

definition middleware_initialize :: "address \<Rightarrow> middleware \<Rightarrow> (middleware_error, unit, middleware) tx" where
  "middleware_initialize admin s =
     bindr (reject_if (admin_key s \<noteq> None) AlreadyInitialized) (\<lambda>_.
     Inr ((), s\<lparr>admin_key := Some admin, global_enabled := Some True, total_calls := Some 0\<rparr>))"

definition empty_call_log :: "address \<Rightarrow> string \<Rightarrow> u32 \<Rightarrow> call_log_state" where
  "empty_call_log caller route capacity =
     (let placeholder = \<lparr>cl_caller = caller, cl_timestamp = 0, cl_success = False, cl_route = route\<rparr>
      in \<lparr>log_entries = replicate (unat capacity) placeholder, log_head = 0, log_count = 0\<rparr>)"

definition configure_route ::
    "env \<Rightarrow> address \<Rightarrow> string \<Rightarrow> route_config \<Rightarrow> middleware \<Rightarrow> (middleware_error, unit, middleware) tx" where
  "configure_route env caller route config s =
     bindr (require_auth env caller) (\<lambda>_.
     bindr (require_admin caller NotInitialized Unauthorized s) (\<lambda>_.
     bindr (reject_if (window_seconds config = 0 \<and> max_calls_per_window config > 0) InvalidConfig) (\<lambda>_.
     bindr (reject_if (log_retention config > MAX_LOG_RETENTION) InvalidConfig) (\<lambda>_.
     let previous = map_option log_retention (route_config_key s route);
         s1 = s\<lparr>route_config_key := (route_config_key s)(route \<mapsto> config)\<rparr>;
         configured = unwrap_or (mw_configured_routes s1) [];
         s2 = (if route \<notin> set configured
               then s1\<lparr>mw_configured_routes := Some (configured @ [route])\<rparr> else s1);
         s3 = (if previous \<noteq> Some (log_retention config) then
                 (let t = (if previous \<noteq> None then log_clear route s2 else s2)
                  in if log_retention config > 0
                     then t\<lparr>call_log_key := (call_log_key t)
                              (route \<mapsto> empty_call_log caller route (log_retention config))\<rparr>
                     else t)
               else s2)
     in Inr ((), publish ''route_configured''
          (VTuple [VStr route, VU32 (max_calls_per_window config), VU64 (window_seconds config),
             VBool (enabled config), VU32 (failure_threshold config),
             VU64 (recovery_window_seconds config), VU32 (log_retention config),
             VU32 (burst_allowance config)]) s3)))))"

definition set_global_enabled ::
    "env \<Rightarrow> address \<Rightarrow> bool \<Rightarrow> middleware \<Rightarrow> (middleware_error, unit, middleware) tx" where
  "set_global_enabled env caller on s =
     bindr (require_auth env caller) (\<lambda>_.
     bindr (require_admin caller NotInitialized Unauthorized s) (\<lambda>_.
     Inr ((), publish ''middleware_enabled'' (VBool on) (s\<lparr>global_enabled := Some on\<rparr>))))"

definition reset_route_call_log ::
    "env \<Rightarrow> address \<Rightarrow> string \<Rightarrow> middleware \<Rightarrow> (middleware_error, unit, middleware) tx" where
  "reset_route_call_log env caller route s =
     bindr (require_auth env caller) (\<lambda>_.
     bindr (require_admin caller NotInitialized Unauthorized s) (\<lambda>_.
     Inr ((), log_clear route s)))"

definition reset_rate_limit ::
    "env \<Rightarrow> address \<Rightarrow> string \<Rightarrow> address \<Rightarrow> middleware \<Rightarrow> (middleware_error, unit, middleware) tx" where
  "reset_rate_limit env caller route target_caller s =
     bindr (require_auth env caller) (\<lambda>_.
     bindr (require_admin caller NotInitialized Unauthorized s) (\<lambda>_.
     Inr ((), reset_for_caller route target_caller s)))"

text \<open>The payload carries the strategy by the name of its variant.\<close>

fun strategy_val :: "rate_limit_strategy \<Rightarrow> val" where
  "strategy_val Reject = VStr ''Reject''"
| "strategy_val Throttle = VStr ''Throttle''"
| "strategy_val LogOnly = VStr ''LogOnly''"

definition set_rate_limit_strategy ::
    "env \<Rightarrow> address \<Rightarrow> string \<Rightarrow> rate_limit_strategy \<Rightarrow> middleware
      \<Rightarrow> (middleware_error, unit, middleware) tx" where
  "set_rate_limit_strategy env caller route strategy s =
     bindr (require_auth env caller) (\<lambda>_.
     bindr (require_admin caller NotInitialized Unauthorized s) (\<lambda>_.
     Inr ((), publish ''rate_limit_strategy_set'' (VTuple [VStr route, strategy_val strategy])
       (s\<lparr>rate_limit_strategy_key := (rate_limit_strategy_key s)(route \<mapsto> strategy)\<rparr>))))"

definition reset_circuit_breaker ::
    "env \<Rightarrow> address \<Rightarrow> string \<Rightarrow> middleware \<Rightarrow> (middleware_error, unit, middleware) tx" where
  "reset_circuit_breaker env caller route s =
     bindr (require_auth env caller) (\<lambda>_.
     bindr (require_admin caller NotInitialized Unauthorized s) (\<lambda>_.
     Inr ((), breaker_reset route s)))"

definition reset_guard ::
    "env \<Rightarrow> address \<Rightarrow> string \<Rightarrow> middleware \<Rightarrow> (middleware_error, unit, middleware) tx" where
  "reset_guard env caller route s =
     bindr (require_auth env caller) (\<lambda>_.
     bindr (require_admin caller NotInitialized Unauthorized s) (\<lambda>_.
     Inr ((), publish ''guard_reset'' (VStr route) (s\<lparr>executing := (executing s)(route := None)\<rparr>))))"

definition middleware_transfer_admin ::
    "env \<Rightarrow> address \<Rightarrow> address \<Rightarrow> middleware \<Rightarrow> (middleware_error, unit, middleware) tx" where
  "middleware_transfer_admin env current new_admin s =
     bindr (require_auth env current) (\<lambda>_.
     bindr (require_admin current NotInitialized Unauthorized s) (\<lambda>_.
     Inr ((), admin_transfer_complete current new_admin s)))"

definition configure_caller_rate_limit ::
    "env \<Rightarrow> address \<Rightarrow> string \<Rightarrow> address \<Rightarrow> u32 \<Rightarrow> u64 \<Rightarrow> middleware
      \<Rightarrow> (middleware_error, unit, middleware) tx" where
  "configure_caller_rate_limit env caller route target_caller calls secs s =
     bindr (require_auth env caller) (\<lambda>_.
     bindr (require_admin caller NotInitialized Unauthorized s) (\<lambda>_.
     bindr (reject_if (secs = 0 \<and> calls > 0) InvalidConfig) (\<lambda>_.
     Inr ((), publish ''caller_rate_limit_set''
         (VTuple [VStr route, VAddr target_caller, VU32 calls, VU64 secs])
       (s\<lparr>caller_rate_limit := (caller_rate_limit s)(route := (caller_rate_limit s route)
            (target_caller \<mapsto> \<lparr>max_calls = calls, window_secs = secs\<rparr>))\<rparr>)))))"

definition remove_caller_rate_limit ::
    "env \<Rightarrow> address \<Rightarrow> string \<Rightarrow> address \<Rightarrow> middleware \<Rightarrow> (middleware_error, unit, middleware) tx" where
  "remove_caller_rate_limit env caller route target_caller s =
     bindr (require_auth env caller) (\<lambda>_.
     bindr (require_admin caller NotInitialized Unauthorized s) (\<lambda>_.
     Inr ((), publish ''caller_rate_limit_removed'' (VTuple [VStr route, VAddr target_caller])
       (s\<lparr>caller_rate_limit := (caller_rate_limit s)(route := (caller_rate_limit s route)
            (target_caller := None))\<rparr>))))"

subsection \<open>The hooks\<close>

definition prune_stale_rate_limits ::
    "middleware \<Rightarrow> string \<Rightarrow> u64 \<Rightarrow> u64 \<Rightarrow> (address, rate_limit_state) hmap
      \<Rightarrow> bool \<times> (address, rate_limit_state) hmap" where
  "prune_stale_rate_limits s route now base_window limits =
     (let stale_callers = map fst (filter (\<lambda>(caller, state).
            let effective_window = resolve_effective_window s route caller base_window;
                stale_after = max (saturating_mul effective_window RATE_LIMIT_STALE_WINDOW_MULTIPLIER) 1
            in now \<ge> saturating_add (window_start state) stale_after) limits)
      in (stale_callers \<noteq> [], fold hmap_remove stale_callers limits))"

text \<open>
  The limit and window the caller is held to, if any: an override with a positive limit, else, when
  there is no override, the limit of the route plus its burst; an override of zero calls exempts.
\<close>

definition effective_limit ::
    "route_config \<Rightarrow> caller_rate_limit_config option \<Rightarrow> (u32 \<times> u64) option" where
  "effective_limit config caller_override =
     (let active_override = Option.bind caller_override (\<lambda>c. if max_calls c > 0 then Some c else None);
          caller_unlimited = (caller_override \<noteq> None \<and> active_override = None)
      in if \<not> caller_unlimited \<and> (max_calls_per_window config > 0 \<or> active_override \<noteq> None) then
           Some (unwrap_or (map_option (\<lambda>c. (max_calls c, window_secs c)) active_override)
                   (saturating_add (max_calls_per_window config) (burst_allowance config),
                    window_seconds config))
         else None)"

text \<open>The rate limit section: whether the state changed, the new route state, and the events.\<close>

definition enforce_rate_limit ::
    "env \<Rightarrow> address \<Rightarrow> string \<Rightarrow> route_config \<Rightarrow> bool \<Rightarrow> route_call_state \<Rightarrow> middleware
      \<Rightarrow> (middleware_error, bool \<times> route_call_state \<times> middleware) res" where
  "enforce_rate_limit env caller route config changed rcs s =
     (case effective_limit config (caller_rate_limit s route caller) of
        None \<Rightarrow> Inr (changed, rcs, s)
      | Some (limit, window) \<Rightarrow>
          bindr (check_and_increment env caller rcs limit window) (\<lambda>check.
          let rcs' = rcs\<lparr>rate_limits := hmap_set caller (updated_state check) (rate_limits rcs)\<rparr>
          in if exceeded check then
               (case unwrap_or (rate_limit_strategy_key s route) Reject of
                  Reject \<Rightarrow> Inl (Err RateLimitExceeded)
                | Throttle \<Rightarrow> Inr (True, rcs', publish_throttled caller route s)
                | LogOnly \<Rightarrow> Inr (True, rcs', publish_exceeded caller route s))
             else Inr (True, rcs', s)))"

text \<open>The section for a configured route: the new route state, when it changed.\<close>

definition compute_route_call_state ::
    "env \<Rightarrow> address \<Rightarrow> string \<Rightarrow> route_config \<Rightarrow> middleware
      \<Rightarrow> (middleware_error, route_call_state option \<times> middleware) res" where
  "compute_route_call_state env caller route config s =
     bindr (reject_if (\<not> enabled config) RouteDisabled) (\<lambda>_.
     let rcs0 = unwrap_or (route_call_state_key s route) default_route_call_state;
         now = timestamp env;
         last_prune = unwrap_or (last_rate_limit_prune s route) 0;
         should_prune = (now \<ge> saturating_add last_prune RATE_LIMIT_PRUNE_INTERVAL);
         (changed, limits) = (if should_prune
            then prune_stale_rate_limits s route now (window_seconds config) (rate_limits rcs0)
            else (False, rate_limits rcs0));
         rcs1 = rcs0\<lparr>rate_limits := limits\<rparr>;
         s1 = (if should_prune
               then s\<lparr>last_rate_limit_prune := (last_rate_limit_prune s)(route \<mapsto> now)\<rparr> else s)
     in bindr (if failure_threshold config > 0 then
                 (let (blocked, rcs2) = check_and_transition env config rcs1
                  in bindr (reject_if blocked CircuitOpen) (\<lambda>_.
                     Inr (changed \<or> circuit_breaker rcs2 \<noteq> circuit_breaker rcs1, rcs2)))
               else Inr (changed, rcs1)) (\<lambda>(changed1, rcs2).
        bindr (enforce_rate_limit env caller route config changed1 rcs2 s1) (\<lambda>(changed2, rcs3, s2).
        Inr (if changed2 then Some rcs3 else None, s2))))"

definition pre_call ::
    "env \<Rightarrow> address \<Rightarrow> string \<Rightarrow> middleware \<Rightarrow> (middleware_error, unit, middleware) tx" where
  "pre_call env caller route s =
     bindr (require_auth env caller) (\<lambda>_.
     bindr (reject_if (unwrap_or (executing s route) False) Reentrancy) (\<lambda>_.
     let s0 = s\<lparr>executing := (executing s)(route \<mapsto> True)\<rparr>
     in
     bindr (reject_if (\<not> unwrap_or (global_enabled s0) True) MiddlewareDisabled) (\<lambda>_.
     bindr (case route_config_key s0 route of
              Some config \<Rightarrow> compute_route_call_state env caller route config s0
            | None \<Rightarrow> Inr (None, s0)) (\<lambda>(new_route_call_state, s1).
     bindr (reject_if (\<not> unwrap_or (global_enabled s1) True) MiddlewareDisabled) (\<lambda>_.
     bindr (case route_config_key s1 route of
              Some config \<Rightarrow> reject_if (\<not> enabled config) RouteDisabled
            | None \<Rightarrow> Inr ()) (\<lambda>_.
     let s2 = (case new_route_call_state of
                 Some rcs \<Rightarrow> s1\<lparr>route_call_state_key := (route_call_state_key s1)(route \<mapsto> rcs)\<rparr>
               | None \<Rightarrow> s1)
     in
     bindr (expect (checked_add (unwrap_or (total_calls s2) 0) 1)) (\<lambda>total.
     let s3 = publish ''pre_call'' (VTuple [VAddr caller, VStr route]) (s2\<lparr>total_calls := Some total\<rparr>)
     in Inr ((), s3\<lparr>executing := (executing s3)(route := None)\<rparr>))))))))"

definition post_call ::
    "env \<Rightarrow> address \<Rightarrow> string \<Rightarrow> bool \<Rightarrow> middleware \<Rightarrow> (middleware_error, unit, middleware) tx" where
  "post_call env caller route success s =
     bindr (require_auth env caller) (\<lambda>_.
     let s0 = publish ''post_call'' (VTuple [VAddr caller, VStr route, VBool success]) s
     in
     case route_config_key s0 route of
       None \<Rightarrow> Inr ((), s0)
     | Some config \<Rightarrow>
         bindr (log_append env caller route success config s0) (\<lambda>s1.
         if failure_threshold config > 0 then
           (let rcs = unwrap_or (route_call_state_key s1 route) default_route_call_state
            in bindr (if success then Inr (handle_success route (circuit_breaker rcs) s1)
                      else handle_failure env route config (circuit_breaker rcs) s1) (\<lambda>(cb, s2).
               Inr ((), s2\<lparr>route_call_state_key :=
                 (route_call_state_key s2)(route \<mapsto> rcs\<lparr>circuit_breaker := cb\<rparr>)\<rparr>)))
         else Inr ((), s1)))"


subsection \<open>Views\<close>

definition get_global_enabled :: "middleware \<Rightarrow> bool" where
  "get_global_enabled s = unwrap_or (global_enabled s) True"

definition get_total_calls :: "middleware \<Rightarrow> u64" where
  "get_total_calls s = unwrap_or (total_calls s) 0"

text \<open>The index \<open>(head + i) % cap\<close>; the sum traps when it overflows.\<close>

definition ring_read :: "call_log_state \<Rightarrow> nat \<Rightarrow> (middleware_error, call_log_entry option) res" where
  "ring_read log i =
     bindr (expect (checked_add (log_head log) (of_nat i))) (\<lambda>k.
       let idx = unat k mod length (log_entries log)
       in Inr (if idx < length (log_entries log) then Some (log_entries log ! idx) else None))"

fun ring_reads :: "call_log_state \<Rightarrow> nat list \<Rightarrow> (middleware_error, call_log_entry list) res" where
  "ring_reads log [] = Inr []"
| "ring_reads log (i # is) =
     bindr (ring_read log i) (\<lambda>e. bindr (ring_reads log is) (\<lambda>es.
       Inr (case e of Some x \<Rightarrow> x # es | None \<Rightarrow> es)))"

definition get_call_log_internal ::
    "string \<Rightarrow> bool option \<Rightarrow> middleware \<Rightarrow> (middleware_error, call_log_entry list) res" where
  "get_call_log_internal route success_filter s =
     (case call_log_key s route of
        None \<Rightarrow> Inr []
      | Some log \<Rightarrow>
          (let n = unat (log_count log); cap = length (log_entries log);
               should_include = (\<lambda>e. case success_filter of None \<Rightarrow> True | Some status \<Rightarrow> cl_success e = status)
           in if n = 0 then Inr []
              else if cap = 0 then Inr []
              else if n < cap then Inr (filter should_include (take n (log_entries log)))
              else bindr (ring_reads log [0..<cap]) (\<lambda>es. Inr (filter should_include es))))"

definition get_call_log :: "string \<Rightarrow> middleware \<Rightarrow> (middleware_error, call_log_entry list) res" where
  "get_call_log route s = get_call_log_internal route None s"

definition get_call_log_filtered ::
    "string \<Rightarrow> bool \<Rightarrow> middleware \<Rightarrow> (middleware_error, call_log_entry list) res" where
  "get_call_log_filtered route success_only s = get_call_log_internal route (Some success_only) s"

definition get_call_log_length :: "string \<Rightarrow> middleware \<Rightarrow> u32" where
  "get_call_log_length route s = unwrap_or (map_option log_count (call_log_key s route)) 0"

definition get_call_log_summary :: "string \<Rightarrow> middleware \<Rightarrow> call_log_summary option" where
  "get_call_log_summary route s = call_log_summary_key s route"

definition get_rate_limit_state :: "env \<Rightarrow> string \<Rightarrow> address \<Rightarrow> middleware \<Rightarrow> rate_limit_state option" where
  "get_rate_limit_state env route caller s =
     Option.bind (route_call_state_key s route) (\<lambda>rcs.
     Option.bind (map_of (rate_limits rcs) caller) (\<lambda>state.
       case route_config_key s route of
         Some config \<Rightarrow>
           (let now = timestamp env;
                effective_window = resolve_effective_window s route caller (window_seconds config)
            in if window_elapsed now (window_start state) effective_window
               then Some \<lparr>calls_in_window = 0, window_start = now, total_violations = total_violations state\<rparr>
               else Some state)
       | None \<Rightarrow> Some state))"

fun stats_loop ::
    "env \<Rightarrow> string \<Rightarrow> middleware \<Rightarrow> (address, rate_limit_state) hmap \<Rightarrow> u32 \<Rightarrow> u32 \<Rightarrow> u64
      \<Rightarrow> (middleware_error, u32 \<times> u32 \<times> u64) res" where
  "stats_loop env route s [] calls violations earliest = Inr (calls, violations, earliest)"
| "stats_loop env route s ((caller, state) # m) calls violations earliest =
     (let (n, start) = (case route_config_key s route of
            Some cfg \<Rightarrow>
              if window_elapsed (timestamp env) (window_start state)
                   (resolve_effective_window s route caller (window_seconds cfg))
              then (0, timestamp env) else (calls_in_window state, window_start state)
          | None \<Rightarrow> (calls_in_window state, window_start state))
      in bindr (expect (checked_add calls n)) (\<lambda>calls'.
         bindr (expect (checked_add violations (total_violations state))) (\<lambda>violations'.
         stats_loop env route s m calls' violations' (if start < earliest then start else earliest))))"

definition get_route_rate_limit_stats ::
    "env \<Rightarrow> string \<Rightarrow> middleware \<Rightarrow> (middleware_error, route_rate_limit_stats option) res" where
  "get_route_rate_limit_stats env route s =
     (case route_call_state_key s route of
        None \<Rightarrow> Inr None
      | Some rcs \<Rightarrow>
          if rate_limits rcs = [] then Inr None
          else bindr (stats_loop env route s (rate_limits rcs) 0 0 (- 1)) (\<lambda>(calls, violations, earliest).
            Inr (Some \<lparr>total_calls_in_window = calls,
              stats_window_start = (if earliest = - 1 then timestamp env else earliest),
              stats_total_violations = violations\<rparr>)))"

definition get_route_config :: "string \<Rightarrow> middleware \<Rightarrow> route_config option" where
  "get_route_config route s = route_config_key s route"

definition get_configured_routes :: "middleware \<Rightarrow> string list" where
  "get_configured_routes s = unwrap_or (mw_configured_routes s) []"

definition get_circuit_breaker_state :: "env \<Rightarrow> string \<Rightarrow> middleware \<Rightarrow> circuit_breaker_state option" where
  "get_circuit_breaker_state env route s =
     map_option (\<lambda>rcs.
       let cb = circuit_breaker rcs
       in if is_open cb then
            (case route_config_key s route of
               Some config \<Rightarrow> if recovery_elapsed cb config (timestamp env)
                              then cb\<lparr>is_open := False, is_half_open := True\<rparr> else cb
             | None \<Rightarrow> cb)
          else cb) (route_call_state_key s route)"

definition middleware_admin :: "middleware \<Rightarrow> (middleware_error, address) res" where
  "middleware_admin s = ok_or (admin_key s) NotInitialized"

definition get_rate_limit_strategy :: "string \<Rightarrow> middleware \<Rightarrow> rate_limit_strategy" where
  "get_rate_limit_strategy route s = unwrap_or (rate_limit_strategy_key s route) Reject"

definition get_caller_rate_limit :: "string \<Rightarrow> address \<Rightarrow> middleware \<Rightarrow> caller_rate_limit_config option" where
  "get_caller_rate_limit route target_caller s = caller_rate_limit s route target_caller"

definition check_caller_rate_limit :: "env \<Rightarrow> string \<Rightarrow> address \<Rightarrow> middleware \<Rightarrow> bool" where
  "check_caller_rate_limit env route caller s =
     (case caller_rate_limit s route caller of
        None \<Rightarrow> True
      | Some config \<Rightarrow>
          if max_calls config = 0 then True
          else
            (let rcs = unwrap_or (route_call_state_key s route) default_route_call_state;
                 state = unwrap_or (map_of (rate_limits rcs) caller)
                   \<lparr>calls_in_window = 0, window_start = timestamp env, total_violations = 0\<rparr>;
                 calls = (if window_elapsed (timestamp env) (window_start state) (window_secs config)
                          then 0 else calls_in_window state)
             in calls < max_calls config))"

subsection \<open>The contract as a machine\<close>

datatype middleware_call = MInitialize address
  | MConfigureRoute address string route_config
  | MSetGlobalEnabled address bool
  | MResetCallLog address string
  | MResetRateLimit address string address
  | MSetStrategy address string rate_limit_strategy
  | MResetBreaker address string
  | MResetGuard address string
  | MTransferAdmin address address
  | MConfigureCaller address string address u32 u64
  | MRemoveCaller address string address
  | MPreCall address string
  | MPostCall address string bool

fun middleware_step :: "env \<Rightarrow> middleware_call \<Rightarrow> middleware \<Rightarrow> (middleware_error, middleware) res" where
  "middleware_step env (MInitialize a) s = returns (middleware_initialize a s)"
| "middleware_step env (MConfigureRoute c r cfg) s = returns (configure_route env c r cfg s)"
| "middleware_step env (MSetGlobalEnabled c on) s = returns (set_global_enabled env c on s)"
| "middleware_step env (MResetCallLog c r) s = returns (reset_route_call_log env c r s)"
| "middleware_step env (MResetRateLimit c r a) s = returns (reset_rate_limit env c r a s)"
| "middleware_step env (MSetStrategy c r st) s = returns (set_rate_limit_strategy env c r st s)"
| "middleware_step env (MResetBreaker c r) s = returns (reset_circuit_breaker env c r s)"
| "middleware_step env (MResetGuard c r) s = returns (reset_guard env c r s)"
| "middleware_step env (MTransferAdmin c n) s = returns (middleware_transfer_admin env c n s)"
| "middleware_step env (MConfigureCaller c r a m w) s = returns (configure_caller_rate_limit env c r a m w s)"
| "middleware_step env (MRemoveCaller c r a) s = returns (remove_caller_rate_limit env c r a s)"
| "middleware_step env (MPreCall c r) s = returns (pre_call env c r s)"
| "middleware_step env (MPostCall c r ok) s = returns (post_call env c r ok s)"

end
