(* ===== verification/Middleware_Props.thy ===== *)
theory Middleware_Props
  imports Middleware
begin

text \<open>
  Correctness of router-middleware: the storage invariant, the fixed-window rate limit over runs
  of calls, the circuit breaker as a refinement of a three-state machine, the call log as a bounded
  queue, and the agreement of the views with what \<open>pre_call\<close> enforces.
\<close>

subsection \<open>Frames\<close>

lemma publish_middleware [simp]:
  "route_call_state_key (publish t d s) = route_call_state_key s"
  "route_config_key (publish t d s) = route_config_key s"
  "global_enabled (publish t d s) = global_enabled s"
  "total_calls (publish t d s) = total_calls s"
  "call_log_key (publish t d s) = call_log_key s"
  "mw_configured_routes (publish t d s) = mw_configured_routes s"
  "call_log_summary_key (publish t d s) = call_log_summary_key s"
  "rate_limit_strategy_key (publish t d s) = rate_limit_strategy_key s"
  "caller_rate_limit (publish t d s) = caller_rate_limit s"
  "executing (publish t d s) = executing s"
  "last_rate_limit_prune (publish t d s) = last_rate_limit_prune s"
  by (simp_all add: publish_def)

definition mframe :: "middleware \<Rightarrow> middleware \<Rightarrow> bool" where
  "mframe s s' \<longleftrightarrow> (\<exists>ev lp. s' = s\<lparr>events := ev, last_rate_limit_prune := lp\<rparr>)"

lemma mframe_refl [intro]: "mframe s s"
  unfolding mframe_def by (rule exI [of _ "events s"], rule exI [of _ "last_rate_limit_prune s"]) simp

lemma mframe_trans: "mframe s s' \<Longrightarrow> mframe s' s'' \<Longrightarrow> mframe s s''"
  by (auto simp: mframe_def) (metis middleware.surjective middleware.update_convs contract.update_convs)

lemma mframe_publish [simp]: "mframe s (publish t d s)"
  unfolding mframe_def publish_def
  by (rule exI [of _ "events s @ [(t, d)]"], rule exI [of _ "last_rate_limit_prune s"]) simp

lemma mframe_prune [simp]: "mframe s (s\<lparr>last_rate_limit_prune := lp\<rparr>)"
  unfolding mframe_def by (rule exI [of _ "events s"], rule exI [of _ lp]) simp

lemma mframe_sel:
  assumes "mframe s s'"
  shows "admin_key s' = admin_key s" "route_call_state_key s' = route_call_state_key s"
    "route_config_key s' = route_config_key s" "global_enabled s' = global_enabled s"
    "total_calls s' = total_calls s" "call_log_key s' = call_log_key s"
    "mw_configured_routes s' = mw_configured_routes s" "call_log_summary_key s' = call_log_summary_key s"
    "rate_limit_strategy_key s' = rate_limit_strategy_key s"
    "caller_rate_limit s' = caller_rate_limit s" "executing s' = executing s"
  using assms by (auto simp: mframe_def)

subsection \<open>The hook in pieces\<close>

definition route_state :: "middleware \<Rightarrow> string \<Rightarrow> route_call_state" where
  "route_state s r = unwrap_or (route_call_state_key s r) default_route_call_state"

definition prune_due :: "env \<Rightarrow> string \<Rightarrow> middleware \<Rightarrow> bool" where
  "prune_due env r s \<longleftrightarrow>
     timestamp env \<ge> saturating_add (unwrap_or (last_rate_limit_prune s r) 0) RATE_LIMIT_PRUNE_INTERVAL"

definition pruned :: "env \<Rightarrow> string \<Rightarrow> route_config \<Rightarrow> middleware \<Rightarrow> bool \<times> (address, rate_limit_state) hmap" where
  "pruned env r cfg s = (if prune_due env r s
     then prune_stale_rate_limits s r (timestamp env) (window_seconds cfg) (rate_limits (route_state s r))
     else (False, rate_limits (route_state s r)))"

definition prune_mark :: "env \<Rightarrow> string \<Rightarrow> middleware \<Rightarrow> middleware" where
  "prune_mark env r s = (if prune_due env r s
     then s\<lparr>last_rate_limit_prune := (last_rate_limit_prune s)(r \<mapsto> timestamp env)\<rparr> else s)"

definition transit :: "env \<Rightarrow> route_config \<Rightarrow> route_call_state \<Rightarrow> bool \<times> route_call_state" where
  "transit env cfg rcs = (if failure_threshold cfg > 0 then check_and_transition env cfg rcs else (False, rcs))"

lemma prune_mark_frame [simp]: "mframe s (prune_mark env r s)"
  by (auto simp: prune_mark_def)

lemma compute_eq:
  "compute_route_call_state env c r cfg s =
     (if \<not> enabled cfg then Inl (Err RouteDisabled)
      else let rcs1 = (route_state s r)\<lparr>rate_limits := snd (pruned env r cfg s)\<rparr>;
               (blocked, rcs2) = transit env cfg rcs1
           in if blocked then Inl (Err CircuitOpen)
              else bindr (enforce_rate_limit env c r cfg
                     (fst (pruned env r cfg s) \<or> circuit_breaker rcs2 \<noteq> circuit_breaker rcs1) rcs2
                     (prune_mark env r s))
                   (\<lambda>(changed, rcs3, s2). Inr (if changed then Some rcs3 else None, s2)))"
  by (auto simp: compute_route_call_state_def Let_def reject_if_def route_state_def [symmetric]
      prune_due_def [symmetric] pruned_def prune_mark_def transit_def split: prod.splits)

lemma enforce_Inr:
  assumes "enforce_rate_limit env c r cfg ch rcs s = Inr (ch', rcs', s')"
  shows "mframe s s' \<and> circuit_breaker rcs' = circuit_breaker rcs \<and> (ch \<longrightarrow> ch') \<and> (\<not> ch' \<longrightarrow> rcs' = rcs)
     \<and> (case effective_limit cfg (caller_rate_limit s r c) of
          None \<Rightarrow> rate_limits rcs' = rate_limits rcs
        | Some (l, w) \<Rightarrow> \<exists>chk. check_and_increment env c rcs l w = Inr chk
            \<and> rate_limits rcs' = hmap_set c (updated_state chk) (rate_limits rcs)
            \<and> (exceeded chk \<longrightarrow> get_rate_limit_strategy r s \<noteq> Reject))"
  using assms
  by (auto simp: enforce_rate_limit_def bindr_Inr_iff Let_def publish_throttled_def publish_exceeded_def
      get_rate_limit_strategy_def split: option.splits if_splits rate_limit_strategy.splits)

lemma transit_sel: "rate_limits (snd (transit env cfg rcs)) = rate_limits rcs"
  by (simp add: transit_def check_and_transition_def)

lemma hmap_remove_id: "k \<notin> set (map fst m) \<Longrightarrow> hmap_remove k m = m"
  unfolding hmap_remove_def by (rule filter_True) (auto simp: image_iff)

lemma prune_unchanged: "fst (pruned env r cfg s) \<or> snd (pruned env r cfg s) = rate_limits (route_state s r)"
  by (auto simp: pruned_def prune_stale_rate_limits_def Let_def)

lemma transit_rate_limits [simp]:
  "fst (transit env cfg (rcs\<lparr>rate_limits := m\<rparr>)) = fst (transit env cfg rcs)"
  "circuit_breaker (snd (transit env cfg (rcs\<lparr>rate_limits := m\<rparr>)))
     = circuit_breaker (snd (transit env cfg rcs))"
  by (simp_all add: transit_def check_and_transition_def)

lemma check_and_increment_cong:
  "rate_limits rcs = rate_limits rcs' \<Longrightarrow>
     check_and_increment env c rcs l w = check_and_increment env c rcs' l w"
  by (simp add: check_and_increment_def)

lemma executing_update [simp]:
  "route_state (s\<lparr>executing := x\<rparr>) r = route_state s r"
  "pruned env r cfg (s\<lparr>executing := x\<rparr>) = pruned env r cfg s"
  "get_rate_limit_strategy r (s\<lparr>executing := x\<rparr>) = get_rate_limit_strategy r s"
  by (simp_all add: route_state_def pruned_def prune_due_def prune_stale_rate_limits_def
      resolve_effective_window_def get_rate_limit_strategy_def)

text \<open>A successful \<open>pre_call\<close> on a configured route, with the route state it leaves.\<close>

lemma pre_call_configured:
  assumes "pre_call env c r s = Inr (u, s')" and "route_config_key s r = Some cfg"
  obtains rcs where "auth env c" "enabled cfg" "get_global_enabled s"
    and "route_state s' r = rcs"
    and "\<not> fst (transit env cfg (route_state s r))"
    and "circuit_breaker rcs = circuit_breaker (snd (transit env cfg (route_state s r)))"
    and "case effective_limit cfg (caller_rate_limit s r c) of
          None \<Rightarrow> rate_limits rcs = snd (pruned env r cfg s)
        | Some (l, w) \<Rightarrow> \<exists>chk. check_and_increment env c
                ((route_state s r)\<lparr>rate_limits := snd (pruned env r cfg s)\<rparr>) l w = Inr chk
            \<and> rate_limits rcs = hmap_set c (updated_state chk) (snd (pruned env r cfg s))
            \<and> (exceeded chk \<longrightarrow> get_rate_limit_strategy r s \<noteq> Reject)"
    and "\<exists>ev lp. s' = s\<lparr>events := ev, last_rate_limit_prune := lp,
           route_call_state_key := (route_call_state_key s)(r := route_call_state_key s' r),
           total_calls := total_calls s', executing := (executing s)(r := None)\<rparr>"
    and "unat (get_total_calls s') = unat (get_total_calls s) + 1"
proof -
  let ?s0 = "s\<lparr>executing := (executing s)(r \<mapsto> True)\<rparr>"
  from assms obtain new s1 total where pre: "auth env c" "get_global_enabled s"
    and comp: "compute_route_call_state env c r cfg ?s0 = Inr (new, s1)"
    and total: "checked_add (unwrap_or (total_calls s1) 0) 1 = Some total"
    and s': "s' = (publish ''pre_call'' (VTuple [VAddr c, VStr r])
        ((case new of Some rcs \<Rightarrow> s1\<lparr>route_call_state_key := (route_call_state_key s1)(r \<mapsto> rcs)\<rparr>
          | None \<Rightarrow> s1)\<lparr>total_calls := Some total\<rparr>))
          \<lparr>executing := (executing s1)(r := None)\<rparr>"
    by (auto simp: pre_call_def bindr_Inr_iff Let_def res_simps get_global_enabled_def publish_def
        split: option.splits)
  let ?rcs1 = "(route_state s r)\<lparr>rate_limits := snd (pruned env r cfg s)\<rparr>"
  obtain blocked rcs2 where tr: "transit env cfg ?rcs1 = (blocked, rcs2)" by force
  from comp tr obtain ch rcs3 where en: "enabled cfg" "\<not> blocked"
    and enf: "enforce_rate_limit env c r cfg (fst (pruned env r cfg s)
        \<or> circuit_breaker rcs2 \<noteq> circuit_breaker ?rcs1) rcs2 (prune_mark env r ?s0) = Inr (ch, rcs3, s1)"
    and new: "new = (if ch then Some rcs3 else None)"
    by (auto simp: compute_eq bindr_Inr_iff split: if_splits)
  note E = enforce_Inr [OF enf]
  have rl2: "rate_limits rcs2 = snd (pruned env r cfg s)"
    using transit_sel [of env cfg ?rcs1] tr by simp
  have cb2: "circuit_breaker rcs2 = circuit_breaker (snd (transit env cfg (route_state s r)))"
    "\<not> fst (transit env cfg (route_state s r))"
    using transit_rate_limits [of env cfg "snd (pruned env r cfg s)" "route_state s r"] tr en(2) by auto
  have "mframe ?s0 s1" using E prune_mark_frame mframe_trans by blast
  then obtain ev lp where s1: "s1 = ?s0\<lparr>events := ev, last_rate_limit_prune := lp\<rparr>"
    by (auto simp: mframe_def)
  have same: "rcs3 = route_state s r" if "\<not> ch"
  proof -
    from that E have "\<not> fst (pruned env r cfg s)" "circuit_breaker rcs2 = circuit_breaker ?rcs1"
      and rcs3: "rcs3 = rcs2" by auto
    with prune_unchanged [of env r cfg s] rl2 show ?thesis by simp
  qed
  have rs: "route_state s' r = rcs3"
    using same by (cases ch) (simp_all add: route_state_def s' new s1)
  have "caller_rate_limit (prune_mark env r ?s0) = caller_rate_limit s"
    "get_rate_limit_strategy r (prune_mark env r ?s0) = get_rate_limit_strategy r s"
    by (auto simp: prune_mark_def get_rate_limit_strategy_def)
  with E rl2 have lim: "case effective_limit cfg (caller_rate_limit s r c) of
          None \<Rightarrow> rate_limits rcs3 = snd (pruned env r cfg s)
        | Some (l, w) \<Rightarrow> \<exists>chk. check_and_increment env c ?rcs1 l w = Inr chk
            \<and> rate_limits rcs3 = hmap_set c (updated_state chk) (snd (pruned env r cfg s))
            \<and> (exceeded chk \<longrightarrow> get_rate_limit_strategy r s \<noteq> Reject)"
    using check_and_increment_cong [of rcs2 ?rcs1 env c] by (auto split: option.splits)
  have upd: "\<exists>ev lp. s' = s\<lparr>events := ev, last_rate_limit_prune := lp,
           route_call_state_key := (route_call_state_key s)(r := route_call_state_key s' r),
           total_calls := total_calls s', executing := (executing s)(r := None)\<rparr>"
    by (rule exI [of _ "events s'"], rule exI [of _ lp]) (simp add: s' s1 new publish_def)
  have tot: "unat (get_total_calls s') = unat (get_total_calls s) + 1"
    using total by (simp add: checked_add_Some_iff get_total_calls_def s' s1 publish_def new)
  show ?thesis
    by (rule that [OF pre(1) en(1) pre(2) rs cb2(2) _ lim upd tot]) (use E cb2 in simp)
qed


text \<open>A route without configuration is only counted.\<close>

lemma pre_call_unconfigured:
  assumes "pre_call env c r s = Inr (u, s')" and "route_config_key s r = None"
  shows "auth env c \<and> get_global_enabled s \<and> unat (get_total_calls s') = unat (get_total_calls s) + 1
    \<and> (\<exists>ev. s' = s\<lparr>events := ev, total_calls := total_calls s', executing := (executing s)(r := None)\<rparr>)"
  using assms
  by (auto simp: pre_call_def bindr_Inr_iff Let_def res_simps get_global_enabled_def get_total_calls_def
      checked_add_Some_iff publish_def
      intro!: exI [of _ "events s @ [(''pre_call'', VTuple [VAddr c, VStr r])]"])

subsection \<open>The ring buffer is a bounded queue\<close>

definition log_ok :: "u32 \<Rightarrow> call_log_state \<Rightarrow> bool" where
  "log_ok cap log \<longleftrightarrow> 0 < unat cap \<and> unat cap \<le> 10000 \<and> unat (log_count log) \<le> length (log_entries log)
     \<and> (if length (log_entries log) < unat cap
        then log_head log = 0 \<and> unat (log_count log) = length (log_entries log)
        else length (log_entries log) = unat cap \<and> unat (log_head log) < unat cap
          \<and> (unat (log_count log) < unat cap \<longrightarrow> log_head log = log_count log))"

definition log_contents :: "call_log_state \<Rightarrow> call_log_entry list" where
  "log_contents log =
     (if unat (log_count log) < length (log_entries log) then take (unat (log_count log)) (log_entries log)
      else drop (unat (log_head log)) (log_entries log) @ take (unat (log_head log)) (log_entries log))"

lemma length_log_contents: "log_ok cap log \<Longrightarrow> length (log_contents log) = unat (log_count log)"
  by (auto simp: log_ok_def log_contents_def split: if_splits)

text \<open>Pushing onto a bounded queue drops the oldest element when it is full.\<close>

definition queue_push :: "nat \<Rightarrow> 'a \<Rightarrow> 'a list \<Rightarrow> 'a list" where
  "queue_push cap x xs = (if length xs = cap then tl xs else xs) @ [x]"

lemma unat_count_step:
  assumes "unat (n :: u32) \<le> unat cap" and "unat cap \<le> 10000"
  shows "unat (min (saturating_add n 1) cap) = min (unat n + 1) (unat cap)"
proof -
  have "unat (saturating_add n 1) = unat n + 1" using assms by (simp add: unat_saturating_add)
  then show ?thesis by (auto simp: min_def word_le_nat_alt)
qed

lemma unat_head_step:
  assumes "unat (h :: u32) < unat cap" and "unat cap \<le> 10000"
  obtains h' where "checked_add h 1 = Some h'" and "unat (h' mod cap) = (unat h + 1) mod unat cap"
proof -
  have "unat h + unat (1::u32) < 2 ^ LENGTH(32)" using assms by simp
  then have A: "checked_add h 1 = Some (h + 1)" by (simp add: checked_add_def)
  then have "unat (h + 1) = unat h + 1" by (simp add: checked_add_Some_iff)
  with A show ?thesis by (intro that [of "h + 1"]) (simp_all add: unat_mod)
qed

lemma ring_push_grow:
  assumes "log_ok cap log" and "length (log_entries log) < unat cap"
  shows "\<exists>log'. ring_push cap e log = Inr log' \<and> log_ok cap log'
     \<and> log_contents log' = queue_push (unat cap) e (log_contents log)"
proof -
  let ?n = "min (saturating_add (log_count log) 1) cap"
  have n: "unat (log_count log) = length (log_entries log)" "log_head log = 0" "unat cap \<le> 10000"
    using assms by (auto simp: log_ok_def)
  have n': "unat ?n = length (log_entries log) + 1"
    using unat_count_step [of "log_count log" cap] n assms(2) by simp
  have "ring_push cap e log = Inr (log\<lparr>log_entries := log_entries log @ [e], log_count := ?n\<rparr>)"
    using assms(2) by (simp add: ring_push_def)
  moreover have "log_ok cap (log\<lparr>log_entries := log_entries log @ [e], log_count := ?n\<rparr>)"
    using assms n n' by (auto simp: log_ok_def)
  moreover have "log_contents (log\<lparr>log_entries := log_entries log @ [e], log_count := ?n\<rparr>)
      = queue_push (unat cap) e (log_contents log)"
    using n n' assms(2) by (simp add: log_contents_def queue_push_def)
  ultimately show ?thesis by blast
qed

lemma drop_take_update:
  assumes "h < length es"
  shows "drop (Suc h mod length es) (es[h := e]) @ take (Suc h mod length es) (es[h := e])
     = tl (drop h es @ take h es) @ [e]"
proof -
  have d: "drop h es = es ! h # drop (Suc h) es" using assms by (rule Cons_nth_drop_Suc [symmetric])
  show ?thesis
  proof (cases "Suc h = length es")
    case True
    then have "es[h := e] = take h es @ [e]" by (simp add: upd_conv_take_nth_drop)
    with True d show ?thesis by simp
  next
    case False
    with assms have "Suc h < length es" by simp
    then have "take (Suc h) (es[h := e]) = take h es @ [e]"
      using assms by (simp add: take_Suc_conv_app_nth)
    with d \<open>Suc h < length es\<close> show ?thesis by simp
  qed
qed

lemma ring_push_full:
  assumes "log_ok cap log" and "\<not> length (log_entries log) < unat cap"
  shows "\<exists>log'. ring_push cap e log = Inr log' \<and> log_ok cap log'
     \<and> log_contents log' = queue_push (unat cap) e (log_contents log)"
proof -
  let ?n = "min (saturating_add (log_count log) 1) cap" and ?h = "unat (log_head log)"
    and ?es = "log_entries log"
  have l: "length ?es = unat cap" "?h < unat cap" "unat cap \<le> 10000"
    "unat (log_count log) \<le> unat cap" "unat (log_count log) < unat cap \<longrightarrow> log_head log = log_count log"
    using assms by (auto simp: log_ok_def)
  obtain h' where h': "checked_add (log_head log) 1 = Some h'" "unat (h' mod cap) = (?h + 1) mod unat cap"
    using unat_head_step l by blast
  have n': "unat ?n = min (unat (log_count log) + 1) (unat cap)" using unat_count_step l by blast
  let ?log' = "log\<lparr>log_entries := ?es[?h := e], log_head := h' mod cap, log_count := ?n\<rparr>"
  have "ring_push cap e log = Inr ?log'"
    using assms(2) l h'(1) by (simp add: ring_push_def vec_set_def)
  moreover have ok: "log_ok cap ?log'"
  proof -
    have "h' mod cap = ?n" if "unat ?n < unat cap"
    proof -
      from that n' have "unat (log_count log) + 1 < unat cap" by simp
      with l(5) h'(2) n' show ?thesis by (simp add: word_unat_eq_iff)
    qed
    then show ?thesis using l h' n' by (auto simp: log_ok_def)
  qed
  moreover have "log_contents ?log' = queue_push (unat cap) e (log_contents log)"
  proof (cases "unat (log_count log) < unat cap")
    case True
    then have h: "?h = unat (log_count log)" using l(5) by simp
    have upd: "take (Suc ?h) (?es[?h := e]) = take ?h ?es @ [e]"
      using l by (simp add: take_Suc_conv_app_nth)
    show ?thesis
    proof (cases "Suc ?h = unat cap")
      case True
      then show ?thesis using l h h'(2) n' upd by (simp add: log_contents_def queue_push_def)
    next
      case False
      then show ?thesis using l h h'(2) n' upd True by (simp add: log_contents_def queue_push_def)
    qed
  next
    case False
    then have "unat (log_count log) = unat cap" using l(4) by simp
    then show ?thesis
      using l h'(2) n' drop_take_update [of ?h ?es e] by (simp add: log_contents_def queue_push_def)
  qed
  ultimately show ?thesis by blast
qed

lemma ring_push_spec:
  "log_ok cap log \<Longrightarrow> \<exists>log'. ring_push cap e log = Inr log' \<and> log_ok cap log'
     \<and> log_contents log' = queue_push (unat cap) e (log_contents log)"
  using ring_push_grow ring_push_full by blast

lemma ring_reads_map:
  "(\<And>i. i \<in> set is \<Longrightarrow> ring_read log i = Inr (Some (f i))) \<Longrightarrow> ring_reads log is = Inr (map f is)"
  by (induction "is") auto

lemma ring_reads_contents:
  assumes "log_ok cap log" and "log_entries log \<noteq> []"
  shows "ring_reads log [0..<length (log_entries log)] =
     Inr (drop (unat (log_head log)) (log_entries log) @ take (unat (log_head log)) (log_entries log))"
proof -
  let ?es = "log_entries log" and ?h = "unat (log_head log)"
  have l: "length ?es \<le> 10000" "?h < length ?es" using assms by (auto simp: log_ok_def split: if_splits)
  have "ring_read log i = Inr (Some (?es ! ((?h + i) mod length ?es)))" if "i < length ?es" for i
  proof -
    have i: "unat (of_nat i :: u32) = i" using that l by (simp add: unat_of_nat)
    note lt = that
    obtain k where "checked_add (log_head log) (of_nat i) = Some k"
      using l lt by (cases "checked_add (log_head log) (of_nat i)") (auto simp: checked_add_None_iff i)
    then have "checked_add (log_head log) (of_nat i) = Some k" "unat k = ?h + i"
      by (simp_all add: checked_add_Some_iff i)
    then show ?thesis using assms(2) by (simp add: ring_read_def Let_def)
  qed
  then have "ring_reads log [0..<length ?es] = Inr (map (\<lambda>i. ?es ! ((?h + i) mod length ?es)) [0..<length ?es])"
    by (intro ring_reads_map) auto
  also have "map (\<lambda>i. ?es ! ((?h + i) mod length ?es)) [0..<length ?es] = rotate ?h ?es"
    by (rule nth_equalityI) (simp_all add: nth_rotate)
  also have "\<dots> = drop ?h ?es @ take ?h ?es" using l by (simp add: rotate_drop_take)
  finally show ?thesis .
qed

lemma get_call_log_contents:
  assumes "call_log_key s r = Some log" and "log_ok cap log"
  shows "get_call_log_internal r fil s = Inr (filter (\<lambda>e. case fil of None \<Rightarrow> True | Some b \<Rightarrow> cl_success e = b) (log_contents log))"
proof (cases "unat (log_count log) < length (log_entries log) \<or> log_entries log = []")
  case True
  then show ?thesis using assms
    by (auto simp: get_call_log_internal_def log_contents_def Let_def)
next
  case False
  then have ne: "log_entries log \<noteq> []" and "length (log_entries log) \<le> unat (log_count log)"
    by (auto simp: not_less)
  then have "0 < unat (log_count log)" by (metis gr0I length_0_conv le_zero_eq)
  then show ?thesis using assms False ne ring_reads_contents [OF assms(2)]
    by (simp add: get_call_log_internal_def log_contents_def Let_def)
qed

lemma log_ok_empty: "0 < unat cap \<Longrightarrow> unat cap \<le> 10000 \<Longrightarrow> log_ok cap (empty_call_log c r cap)"
  by (simp add: log_ok_def empty_call_log_def)

lemma log_ok_fresh: "0 < unat cap \<Longrightarrow> unat cap \<le> 10000 \<Longrightarrow> log_ok cap \<lparr>log_entries = [], log_head = 0, log_count = 0\<rparr>"
  by (simp add: log_ok_def)


subsection \<open>The invariant\<close>

definition breaker_ok :: "circuit_breaker_state \<Rightarrow> bool" where
  "breaker_ok cb \<longleftrightarrow> \<not> (is_open cb \<and> is_half_open cb)
     \<and> (is_open cb \<or> is_half_open cb \<longrightarrow> failure_count cb \<noteq> 0)"

definition states_ok :: "middleware \<Rightarrow> bool" where
  "states_ok s \<longleftrightarrow> (\<forall>r rcs. route_call_state_key s r = Some rcs \<longrightarrow>
     hmap_ok (rate_limits rcs) \<and> breaker_ok (circuit_breaker rcs))"

definition configs_ok :: "middleware \<Rightarrow> bool" where
  "configs_ok s \<longleftrightarrow> (\<forall>r cfg. route_config_key s r = Some cfg \<longrightarrow>
       (window_seconds cfg = 0 \<longrightarrow> max_calls_per_window cfg = 0) \<and> log_retention cfg \<le> MAX_LOG_RETENTION)
     \<and> (\<forall>r a c. caller_rate_limit s r a = Some c \<longrightarrow> window_secs c = 0 \<longrightarrow> max_calls c = 0)
     \<and> distinct (get_configured_routes s)
     \<and> (\<forall>r. r \<in> set (get_configured_routes s) \<longleftrightarrow> route_config_key s r \<noteq> None)"

definition summary_ok :: "call_log_summary \<Rightarrow> bool" where
  "summary_ok sm \<longleftrightarrow> unat (sum_total_calls sm) = unat (sum_success_count sm) + unat (sum_failure_count sm)"

definition logs_ok :: "middleware \<Rightarrow> bool" where
  "logs_ok s \<longleftrightarrow> (\<forall>r log. call_log_key s r = Some log \<longrightarrow>
       (\<exists>cfg. route_config_key s r = Some cfg \<and> log_ok (log_retention cfg) log))
     \<and> (\<forall>r sm. call_log_summary_key s r = Some sm \<longrightarrow> summary_ok sm \<and> call_log_key s r \<noteq> None)"

definition middleware_inv :: "middleware \<Rightarrow> bool" where
  "middleware_inv s \<longleftrightarrow> executing s = Map.empty \<and> states_ok s \<and> configs_ok s \<and> logs_ok s"

lemma middleware_inv_empty: "middleware_inv middleware_empty"
  by (simp add: middleware_inv_def states_ok_def configs_ok_def logs_ok_def middleware_empty_def
      get_configured_routes_def)

lemma inv_publish [simp]:
  "states_ok (publish t d s) = states_ok s" "configs_ok (publish t d s) = configs_ok s"
  "logs_ok (publish t d s) = logs_ok s" "middleware_inv (publish t d s) = middleware_inv s"
  by (simp_all add: middleware_inv_def states_ok_def configs_ok_def logs_ok_def get_configured_routes_def)

lemma route_state_ok:
  "states_ok s \<Longrightarrow> hmap_ok (rate_limits (route_state s r)) \<and> breaker_ok (circuit_breaker (route_state s r))"
  by (cases "route_call_state_key s r")
    (auto simp: states_ok_def route_state_def default_route_call_state_def closed_breaker_def breaker_ok_def)

lemma hmap_ok_fold_remove: "hmap_ok m \<Longrightarrow> hmap_ok (fold hmap_remove ks m)"
  by (induction ks arbitrary: m) auto

lemma pruned_ok: "hmap_ok (rate_limits (route_state s r)) \<Longrightarrow> hmap_ok (snd (pruned env r cfg s))"
  by (simp add: pruned_def prune_stale_rate_limits_def Let_def hmap_ok_fold_remove)

lemma transit_breaker_ok:
  "breaker_ok (circuit_breaker rcs) \<Longrightarrow> breaker_ok (circuit_breaker (snd (transit env cfg rcs)))"
  by (auto simp: transit_def check_and_transition_def breaker_ok_def)

lemma states_ok_update:
  "states_ok s \<Longrightarrow> hmap_ok (rate_limits rcs) \<Longrightarrow> breaker_ok (circuit_breaker rcs) \<Longrightarrow>
     states_ok (s\<lparr>route_call_state_key := (route_call_state_key s)(r \<mapsto> rcs)\<rparr>)"
  by (simp add: states_ok_def)

lemma pre_call_inv:
  assumes "middleware_inv s" and "pre_call env c r s = Inr (u, s')"
  shows "middleware_inv s'"
proof (cases "route_config_key s r")
  case None
  from pre_call_unconfigured [OF assms(2) None] obtain ev tc where
    "s' = s\<lparr>events := ev, total_calls := tc, executing := (executing s)(r := None)\<rparr>" by blast
  then show ?thesis using assms(1)
    by (simp add: middleware_inv_def states_ok_def configs_ok_def logs_ok_def get_configured_routes_def)
next
  case (Some cfg)
  from assms(1) have st: "states_ok s" by (simp add: middleware_inv_def)
  note ok = route_state_ok [OF st, of r]
  obtain rcs where rcs: "route_state s' r = rcs"
    and cb: "circuit_breaker rcs = circuit_breaker (snd (transit env cfg (route_state s r)))"
    and lim: "case effective_limit cfg (caller_rate_limit s r c) of
          None \<Rightarrow> rate_limits rcs = snd (pruned env r cfg s)
        | Some (l, w) \<Rightarrow> \<exists>chk. check_and_increment env c
                ((route_state s r)\<lparr>rate_limits := snd (pruned env r cfg s)\<rparr>) l w = Inr chk
            \<and> rate_limits rcs = hmap_set c (updated_state chk) (snd (pruned env r cfg s))
            \<and> (exceeded chk \<longrightarrow> get_rate_limit_strategy r s \<noteq> Reject)"
    and upd: "\<exists>ev lp. s' = s\<lparr>events := ev, last_rate_limit_prune := lp,
           route_call_state_key := (route_call_state_key s)(r := route_call_state_key s' r),
           total_calls := total_calls s', executing := (executing s)(r := None)\<rparr>"
    by (rule pre_call_configured [OF assms(2) Some]) blast
  have "hmap_ok (rate_limits rcs)"
    using lim pruned_ok [of s r env cfg] ok by (auto split: option.splits)
  moreover have "breaker_ok (circuit_breaker rcs)" using cb ok by (simp add: transit_breaker_ok)
  ultimately have new: "hmap_ok (rate_limits x) \<and> breaker_ok (circuit_breaker x)"
    if "route_call_state_key s' r = Some x" for x
    using that rcs by (simp add: route_state_def)
  obtain ev lp where s': "s' = s\<lparr>events := ev, last_rate_limit_prune := lp,
           route_call_state_key := (route_call_state_key s)(r := route_call_state_key s' r),
           total_calls := total_calls s', executing := (executing s)(r := None)\<rparr>"
    using upd by blast
  have sel: "route_call_state_key s' = (route_call_state_key s)(r := route_call_state_key s' r)"
    "executing s' = (executing s)(r := None)" "route_config_key s' = route_config_key s"
    "caller_rate_limit s' = caller_rate_limit s" "mw_configured_routes s' = mw_configured_routes s"
    "call_log_key s' = call_log_key s" "call_log_summary_key s' = call_log_summary_key s"
    by (subst s', simp)+
  have "route_call_state_key s' q = (if q = r then route_call_state_key s' r else route_call_state_key s q)" for q
    by (subst sel(1)) simp
  then have "states_ok s'" using st new by (metis states_ok_def)
  then show ?thesis using assms(1)
    by (simp add: middleware_inv_def configs_ok_def logs_ok_def get_configured_routes_def sel(2-7))
qed


definition failed_breaker :: "env \<Rightarrow> route_config \<Rightarrow> circuit_breaker_state \<Rightarrow> circuit_breaker_state" where
  "failed_breaker env cfg cb =
     (if is_half_open cb
      then cb\<lparr>is_half_open := False, is_open := True, opened_at := timestamp env, failure_count := 1\<rparr>
      else if failure_count cb + 1 \<ge> failure_threshold cfg
      then cb\<lparr>failure_count := failure_count cb + 1, is_open := True, opened_at := timestamp env\<rparr>
      else cb\<lparr>failure_count := failure_count cb + 1\<rparr>)"

lemma checked_add_Some_eq: "checked_add a b = Some c \<Longrightarrow> c = a + b \<and> unat c = unat a + unat b"
  by (auto simp: checked_add_def unat_word_ariths split: if_splits)

lemma handle_failure_Inr:
  assumes "handle_failure env r cfg cb s = Inr (cb', s')"
  shows "cb' = failed_breaker env cfg cb \<and> (\<exists>ev. s' = s\<lparr>events := ev\<rparr>)
     \<and> (\<not> is_half_open cb \<longrightarrow> unat (failure_count cb + 1) = unat (failure_count cb) + 1)"
proof -
  have ex: "\<exists>ev. s = s\<lparr>events := ev\<rparr>" by (rule exI [of _ "events s"]) simp
  show ?thesis
    using assms ex
    by (auto simp: handle_failure_def failed_breaker_def Let_def bindr_Inr_iff expect_Inr_iff publish_def
        dest!: checked_add_Some_eq split: if_splits)
qed

lemma handle_success_eq:
  "\<exists>ev. handle_success r cb s =
     ((if is_half_open cb then cb\<lparr>is_half_open := False, failure_count := 0, opened_at := 0\<rparr>
       else if is_open cb then cb else cb\<lparr>failure_count := 0\<rparr>), s\<lparr>events := ev\<rparr>)"
proof -
  have ex: "\<exists>ev. s = s\<lparr>events := ev\<rparr>" by (rule exI [of _ "events s"]) simp
  have zero: "failure_count cb = 0 \<Longrightarrow> cb\<lparr>failure_count := 0\<rparr> = cb" by simp
  show ?thesis using ex zero by (auto simp: handle_success_def publish_def word_gt_0)
qed

definition breaker_after :: "env \<Rightarrow> route_config \<Rightarrow> bool \<Rightarrow> circuit_breaker_state \<Rightarrow> circuit_breaker_state" where
  "breaker_after env cfg ok cb =
     (if \<not> ok then failed_breaker env cfg cb
      else if is_half_open cb then cb\<lparr>is_half_open := False, failure_count := 0, opened_at := 0\<rparr>
      else if is_open cb then cb else cb\<lparr>failure_count := 0\<rparr>)"

definition log_of :: "middleware \<Rightarrow> string \<Rightarrow> call_log_state" where
  "log_of s r = unwrap_or (call_log_key s r) \<lparr>log_entries = [], log_head = 0, log_count = 0\<rparr>"

definition summary_of :: "middleware \<Rightarrow> string \<Rightarrow> call_log_summary" where
  "summary_of s r = unwrap_or (call_log_summary_key s r)
     \<lparr>sum_total_calls = 0, sum_success_count = 0, sum_failure_count = 0, last_call_timestamp = 0\<rparr>"

lemma log_append_Inr:
  assumes "log_append env c r ok cfg s = Inr s'"
  shows "if log_retention cfg = 0 then s' = s
     else \<exists>log' sm'. ring_push (log_retention cfg) \<lparr>cl_caller = c, cl_timestamp = timestamp env,
              cl_success = ok, cl_route = r\<rparr> (log_of s r) = Inr log'
          \<and> summary_add env ok (summary_of s r) = Inr sm'
          \<and> s' = s\<lparr>call_log_key := (call_log_key s)(r \<mapsto> log'),
                 call_log_summary_key := (call_log_summary_key s)(r \<mapsto> sm')\<rparr>"
  using assms
  by (auto simp: log_append_def bindr_Inr_iff Let_def log_of_def summary_of_def split: if_splits)

lemma post_call_configured:
  assumes "post_call env c r ok s = Inr (u, s')" and "route_config_key s r = Some cfg"
  shows "auth env c
     \<and> (failure_threshold cfg > 0 \<longrightarrow> \<not> ok \<longrightarrow> \<not> is_half_open (circuit_breaker (route_state s r)) \<longrightarrow>
          unat (failure_count (circuit_breaker (route_state s r)) + 1)
            = unat (failure_count (circuit_breaker (route_state s r))) + 1)
     \<and> (\<exists>s0 s1 ev. s0 = publish ''post_call'' (VTuple [VAddr c, VStr r, VBool ok]) s
        \<and> log_append env c r ok cfg s0 = Inr s1
        \<and> s' = (if failure_threshold cfg > 0
              then s1\<lparr>events := ev, route_call_state_key := (route_call_state_key s)(r \<mapsto> (route_state s r)
                \<lparr>circuit_breaker := breaker_after env cfg ok (circuit_breaker (route_state s r))\<rparr>)\<rparr>
              else s1))"
proof -
  let ?s0 = "publish ''post_call'' (VTuple [VAddr c, VStr r, VBool ok]) s"
  from assms obtain s1 where auth: "auth env c" and app: "log_append env c r ok cfg ?s0 = Inr s1"
    and rest: "(if failure_threshold cfg > 0 then
           (let rcs = unwrap_or (route_call_state_key s1 r) default_route_call_state
            in bindr (if ok then Inr (handle_success r (circuit_breaker rcs) s1)
                      else handle_failure env r cfg (circuit_breaker rcs) s1) (\<lambda>(cb, s2).
               Inr ((), s2\<lparr>route_call_state_key :=
                 (route_call_state_key s2)(r \<mapsto> rcs\<lparr>circuit_breaker := cb\<rparr>)\<rparr>)))
         else Inr ((), s1)) = Inr (u, s')"
    by (auto simp: post_call_def bindr_Inr_iff Let_def require_auth_Inr_iff)
  have key: "route_call_state_key s1 = route_call_state_key s"
    using log_append_Inr [OF app] by (auto split: if_splits)
  show ?thesis
  proof (cases "failure_threshold cfg > 0")
    case False
    then show ?thesis using auth app rest by auto
  next
    case True
    let ?cb = "circuit_breaker (route_state s r)"
    show ?thesis
    proof (cases ok)
      case ok: True
      obtain ev where "handle_success r ?cb s1 = (breaker_after env cfg True ?cb, s1\<lparr>events := ev\<rparr>)"
        using handle_success_eq [of r ?cb s1] by (auto simp: breaker_after_def)
      then have "s' = s1\<lparr>events := ev, route_call_state_key := (route_call_state_key s)(r \<mapsto> (route_state s r)
                \<lparr>circuit_breaker := breaker_after env cfg True ?cb\<rparr>)\<rparr>"
        using rest True ok by (simp add: key route_state_def [symmetric] Let_def)
      then show ?thesis using auth app True ok by auto
    next
      case fail: False
      with rest True obtain cb s2 where hf: "handle_failure env r cfg ?cb s1 = Inr (cb, s2)"
        and s': "s' = s2\<lparr>route_call_state_key := (route_call_state_key s2)(r \<mapsto> (route_state s r)\<lparr>circuit_breaker := cb\<rparr>)\<rparr>"
        by (auto simp: bindr_Inr_iff key route_state_def [symmetric] Let_def)
      from handle_failure_Inr [OF hf] obtain ev where cb: "cb = breaker_after env cfg False ?cb"
        and s2: "s2 = s1\<lparr>events := ev\<rparr>"
        and no: "\<not> is_half_open ?cb \<longrightarrow> unat (failure_count ?cb + 1) = unat (failure_count ?cb) + 1"
        by (auto simp: breaker_after_def)
      have "s' = s1\<lparr>events := ev, route_call_state_key := (route_call_state_key s)(r \<mapsto> (route_state s r)
                \<lparr>circuit_breaker := breaker_after env cfg False ?cb\<rparr>)\<rparr>"
        by (simp add: s' s2 cb key)
      then show ?thesis using auth app True fail no by auto
    qed
  qed
qed


lemma breaker_after_ok:
  assumes "breaker_ok cb"
    and "\<not> ok \<longrightarrow> \<not> is_half_open cb \<longrightarrow> unat (failure_count cb + 1) = unat (failure_count cb) + 1"
  shows "breaker_ok (breaker_after env cfg ok cb)"
proof (cases "ok \<or> is_half_open cb")
  case True
  then show ?thesis using assms(1) by (auto simp: breaker_ok_def breaker_after_def failed_breaker_def)
next
  case False
  then have "failure_count cb + 1 \<noteq> 0" using assms(2) by (metis Suc_eq_plus1 nat.distinct(1) unsigned_0)
  then show ?thesis using assms(1) False by (auto simp: breaker_ok_def breaker_after_def failed_breaker_def)
qed

lemma summary_add_ok:
  assumes "summary_add env ok sm = Inr sm'" and "summary_ok sm"
  shows "summary_ok sm' \<and> unat (sum_total_calls sm') = unat (sum_total_calls sm) + 1
     \<and> unat (sum_success_count sm') = unat (sum_success_count sm) + (if ok then 1 else 0)"
  using assms
  by (auto simp: summary_add_def bindr_Inr_iff expect_Inr_iff checked_add_Some_iff summary_ok_def
      split: if_splits)

lemma logs_okD:
  "logs_ok s \<Longrightarrow> call_log_key s r = Some log \<Longrightarrow> route_config_key s r = Some cfg \<Longrightarrow>
     log_ok (log_retention cfg) log"
  by (fastforce simp: logs_ok_def)

lemma log_of_ok:
  assumes "logs_ok s" and "route_config_key s r = Some cfg" and "configs_ok s" and "log_retention cfg \<noteq> 0"
  shows "log_ok (log_retention cfg) (log_of s r)"
proof -
  have "0 < unat (log_retention cfg)" using assms(4) by (simp add: unat_gt_0)
  moreover have "unat (log_retention cfg) \<le> 10000"
    using assms(2,3) by (auto simp: configs_ok_def MAX_LOG_RETENTION_def word_le_nat_alt)
  ultimately show ?thesis
    using assms(1,2) by (cases "call_log_key s r") (auto simp: log_of_def log_ok_fresh dest: logs_okD)
qed

lemma summary_of_ok: "logs_ok s \<Longrightarrow> summary_ok (summary_of s r)"
  by (cases "call_log_summary_key s r") (auto simp: logs_ok_def summary_of_def summary_ok_def)

lemma log_append_ok:
  assumes "log_append env c r ok cfg s = Inr s'" and "logs_ok s" and "configs_ok s"
    and "route_config_key s r = Some cfg"
  shows "logs_ok s'"
proof (cases "log_retention cfg = 0")
  case True
  with log_append_Inr [OF assms(1)] assms(2) show ?thesis by simp
next
  case False
  with log_append_Inr [OF assms(1)] obtain log' sm' e where
    push: "ring_push (log_retention cfg) e (log_of s r) = Inr log'"
    and sm: "summary_add env ok (summary_of s r) = Inr sm'"
    and s': "s' = s\<lparr>call_log_key := (call_log_key s)(r \<mapsto> log'),
                 call_log_summary_key := (call_log_summary_key s)(r \<mapsto> sm')\<rparr>"
    by auto
  have "log_ok (log_retention cfg) log'"
    using ring_push_spec [OF log_of_ok [OF assms(2,4,3) False], of e] push by auto
  moreover have "summary_ok sm'" using summary_add_ok [OF sm summary_of_ok [OF assms(2)]] by blast
  ultimately show ?thesis using assms(2,4) by (auto simp: s' logs_ok_def)
qed

lemma log_append_sel:
  assumes "log_append env c r ok cfg s = Inr s'"
  shows "states_ok s' = states_ok s" "configs_ok s' = configs_ok s" "executing s' = executing s"
    "route_call_state_key s' = route_call_state_key s" "route_config_key s' = route_config_key s"
    "admin_key s' = admin_key s" "global_enabled s' = global_enabled s"
    "caller_rate_limit s' = caller_rate_limit s" "rate_limit_strategy_key s' = rate_limit_strategy_key s"
    "mw_configured_routes s' = mw_configured_routes s"
  using log_append_Inr [OF assms]
  by (auto simp: states_ok_def configs_ok_def get_configured_routes_def split: if_splits)

lemma logs_ok_states [simp]: "logs_ok (s\<lparr>events := ev, route_call_state_key := x\<rparr>) = logs_ok s"
  by (simp add: logs_ok_def)

lemma configs_ok_states [simp]: "configs_ok (s\<lparr>events := ev, route_call_state_key := x\<rparr>) = configs_ok s"
  by (simp add: configs_ok_def get_configured_routes_def)

lemma post_call_inv:
  assumes "middleware_inv s" and "post_call env c r ok s = Inr (u, s')"
  shows "middleware_inv s'"
proof (cases "route_config_key s r")
  case None
  with assms have "s' = publish ''post_call'' (VTuple [VAddr c, VStr r, VBool ok]) s"
    by (auto simp: post_call_def bindr_Inr_iff Let_def)
  then show ?thesis using assms(1) by simp
next
  case (Some cfg)
  let ?s0 = "publish ''post_call'' (VTuple [VAddr c, VStr r, VBool ok]) s"
  let ?cb = "circuit_breaker (route_state s r)"
  from post_call_configured [OF assms(2) Some] obtain s1 ev where
    app: "log_append env c r ok cfg ?s0 = Inr s1"
    and no: "failure_threshold cfg > 0 \<longrightarrow> \<not> ok \<longrightarrow> \<not> is_half_open ?cb \<longrightarrow>
          unat (failure_count ?cb + 1) = unat (failure_count ?cb) + 1"
    and s': "s' = (if failure_threshold cfg > 0
              then s1\<lparr>events := ev, route_call_state_key := (route_call_state_key s)(r \<mapsto> (route_state s r)
                \<lparr>circuit_breaker := breaker_after env cfg ok ?cb\<rparr>)\<rparr> else s1)" by blast
  have inv0: "states_ok s" "configs_ok s" "logs_ok s" "executing s = Map.empty"
    using assms(1) by (simp_all add: middleware_inv_def)
  have s1: "logs_ok s1" "configs_ok s1" "executing s1 = Map.empty" "states_ok s1"
    using log_append_ok [OF app] log_append_sel [OF app] inv0 Some by auto
  show ?thesis
  proof (cases "failure_threshold cfg > 0")
    case True
    have "breaker_ok (breaker_after env cfg ok ?cb)" "hmap_ok (rate_limits (route_state s r))"
      using route_state_ok [OF inv0(1), of r] no True by (auto intro: breaker_after_ok)
    then have "states_ok s'" using inv0(1) True by (simp add: s' states_ok_def)
    then show ?thesis using s1 True by (simp add: middleware_inv_def s')
  next
    case False
    then show ?thesis using s1 s' by (simp add: middleware_inv_def)
  qed
qed

lemma middleware_inv_frame:
  assumes "middleware_inv s" and "executing s' = Map.empty" and "route_call_state_key s' = route_call_state_key s"
    and "route_config_key s' = route_config_key s" and "caller_rate_limit s' = caller_rate_limit s"
    and "mw_configured_routes s' = mw_configured_routes s" and "call_log_key s' = call_log_key s"
    and "call_log_summary_key s' = call_log_summary_key s"
  shows "middleware_inv s'"
  using assms by (simp add: middleware_inv_def states_ok_def configs_ok_def logs_ok_def get_configured_routes_def)

lemma log_clear_sel [simp]:
  "call_log_key (log_clear r s) = (call_log_key s)(r := None)"
  "call_log_summary_key (log_clear r s) = (call_log_summary_key s)(r := None)"
  "route_config_key (log_clear r s) = route_config_key s" "executing (log_clear r s) = executing s"
  "route_call_state_key (log_clear r s) = route_call_state_key s" "admin_key (log_clear r s) = admin_key s"
  "caller_rate_limit (log_clear r s) = caller_rate_limit s"
  "mw_configured_routes (log_clear r s) = mw_configured_routes s"
  by (simp_all add: log_clear_def)

lemma log_clear_inv: "middleware_inv s \<Longrightarrow> middleware_inv (log_clear r s)"
  by (auto simp: middleware_inv_def states_ok_def configs_ok_def logs_ok_def get_configured_routes_def)

lemma configure_route_inv:
  assumes "middleware_inv s" and "configure_route env c r cfg s = Inr (u, s')"
  shows "middleware_inv s'"
proof -
  from assms(2) have win: "window_seconds cfg = 0 \<longrightarrow> max_calls_per_window cfg = 0"
    and ret: "log_retention cfg \<le> MAX_LOG_RETENTION"
    by (auto simp: configure_route_def bindr_Inr_iff reject_if_Inr_iff word_gt_0)
  let ?prev = "map_option log_retention (route_config_key s r)" and ?k = "log_retention cfg"
  let ?fresh = "empty_call_log c r ?k"
  from assms(2) have log': "call_log_key s' = (if ?prev = Some ?k then call_log_key s
        else if ?k > 0 then (call_log_key s)(r \<mapsto> ?fresh)
        else if ?prev \<noteq> None then (call_log_key s)(r := None) else call_log_key s)"
    and sum': "call_log_summary_key s' = (if ?prev = Some ?k \<or> ?prev = None then call_log_summary_key s
        else (call_log_summary_key s)(r := None))"
    and cfg': "route_config_key s' = (route_config_key s)(r \<mapsto> cfg)"
    and names: "get_configured_routes s' = (if r \<in> set (get_configured_routes s) then get_configured_routes s
        else get_configured_routes s @ [r])"
    and same: "executing s' = executing s" "route_call_state_key s' = route_call_state_key s"
      "caller_rate_limit s' = caller_rate_limit s"
    by (auto simp: configure_route_def bindr_Inr_iff Let_def get_configured_routes_def fun_upd_idem_iff)
  have fresh: "log_ok ?k ?fresh" if "?k > 0"
    using that ret by (intro log_ok_empty) (auto simp: MAX_LOG_RETENTION_def word_le_nat_alt word_less_nat_alt)
  have "configs_ok s'" using assms(1) win ret
    by (auto simp: middleware_inv_def configs_ok_def cfg' names same)
  moreover have "logs_ok s'"
  proof -
    have logs: "logs_ok s" using assms(1) by (simp add: middleware_inv_def)
    have none: "call_log_key s r = None" if "route_config_key s r = None"
      using logs that by (metis logs_ok_def option.distinct(1) option.exhaust)
    have "log_ok ?k log" if "call_log_key s' r = Some log" for log
    proof (cases "?prev = Some ?k")
      case True
      then obtain z where z: "route_config_key s r = Some z" "log_retention z = ?k" by auto
      have "call_log_key s r = Some log" using True that log' by simp
      from logs_okD [OF logs this z(1)] z(2) show ?thesis by simp
    next
      case False
      with that log' fresh none show ?thesis by (auto split: if_splits)
    qed
    then show ?thesis
      using logs none by (auto simp: logs_ok_def log' sum' cfg' split: if_splits)
  qed
  ultimately show ?thesis using assms(1) by (simp add: middleware_inv_def same states_ok_def)
qed

lemma reset_rate_limit_inv: "middleware_inv s \<Longrightarrow> middleware_inv (reset_for_caller r a s)"
  by (auto simp: reset_for_caller_def middleware_inv_def states_ok_def configs_ok_def logs_ok_def
      get_configured_routes_def split: option.splits)

lemma breaker_reset_inv: "middleware_inv s \<Longrightarrow> middleware_inv (breaker_reset r s)"
  by (auto simp: breaker_reset_def middleware_inv_def states_ok_def configs_ok_def logs_ok_def
      get_configured_routes_def closed_breaker_def breaker_ok_def split: option.splits)


lemma middleware_step_inv:
  assumes "middleware_inv s" and "middleware_step env call s = Inr s'"
  shows "middleware_inv s'"
proof (cases call)
  case (MInitialize a)
  with assms show ?thesis
    by (auto simp: returns_Inr_iff middleware_initialize_def bindr_Inr_iff middleware_inv_def states_ok_def
        configs_ok_def logs_ok_def get_configured_routes_def)
next
  case (MConfigureRoute c r cfg)
  with assms show ?thesis by (auto simp: returns_Inr_iff intro: configure_route_inv)
next
  case (MSetGlobalEnabled c on)
  with assms show ?thesis
    by (auto simp: returns_Inr_iff set_global_enabled_def bindr_Inr_iff middleware_inv_def states_ok_def
        configs_ok_def logs_ok_def get_configured_routes_def)
next
  case (MResetCallLog c r)
  with assms show ?thesis
    by (auto simp: returns_Inr_iff reset_route_call_log_def bindr_Inr_iff intro: log_clear_inv)
next
  case (MResetRateLimit c r a)
  with assms show ?thesis
    by (auto simp: returns_Inr_iff reset_rate_limit_def bindr_Inr_iff intro: reset_rate_limit_inv)
next
  case (MSetStrategy c r st)
  with assms show ?thesis
    by (auto simp: returns_Inr_iff set_rate_limit_strategy_def bindr_Inr_iff middleware_inv_def
        states_ok_def configs_ok_def logs_ok_def get_configured_routes_def)
next
  case (MResetBreaker c r)
  with assms show ?thesis
    by (auto simp: returns_Inr_iff reset_circuit_breaker_def bindr_Inr_iff intro: breaker_reset_inv)
next
  case (MResetGuard c r)
  with assms show ?thesis
    by (auto simp: returns_Inr_iff reset_guard_def bindr_Inr_iff middleware_inv_def
        states_ok_def configs_ok_def logs_ok_def get_configured_routes_def)
next
  case (MTransferAdmin c n)
  with assms show ?thesis
    by (auto simp: returns_Inr_iff middleware_transfer_admin_def bindr_Inr_iff admin_transfer_complete_def
        middleware_inv_def states_ok_def configs_ok_def logs_ok_def get_configured_routes_def)
next
  case (MConfigureCaller c r a m w)
  with assms show ?thesis
    by (auto simp: returns_Inr_iff configure_caller_rate_limit_def bindr_Inr_iff reject_if_Inr_iff word_gt_0
        middleware_inv_def states_ok_def configs_ok_def logs_ok_def get_configured_routes_def split: if_splits)
next
  case (MRemoveCaller c r a)
  with assms show ?thesis
    by (auto simp: returns_Inr_iff remove_caller_rate_limit_def bindr_Inr_iff middleware_inv_def
        states_ok_def configs_ok_def logs_ok_def get_configured_routes_def split: if_splits)
next
  case (MPreCall c r)
  with assms show ?thesis by (auto simp: returns_Inr_iff intro: pre_call_inv)
next
  case (MPostCall c r ok)
  with assms show ?thesis by (auto simp: returns_Inr_iff intro: post_call_inv)
qed

fun middleware_gated :: "middleware_call \<Rightarrow> address option" where
  "middleware_gated (MInitialize a) = None"
| "middleware_gated (MConfigureRoute c r cfg) = Some c"
| "middleware_gated (MSetGlobalEnabled c on) = Some c"
| "middleware_gated (MResetCallLog c r) = Some c"
| "middleware_gated (MResetRateLimit c r a) = Some c"
| "middleware_gated (MSetStrategy c r st) = Some c"
| "middleware_gated (MResetBreaker c r) = Some c"
| "middleware_gated (MResetGuard c r) = Some c"
| "middleware_gated (MTransferAdmin c n) = Some c"
| "middleware_gated (MConfigureCaller c r a m w) = Some c"
| "middleware_gated (MRemoveCaller c r a) = Some c"
| "middleware_gated (MPreCall c r) = None"
| "middleware_gated (MPostCall c r ok) = None"

text \<open>What a call nobody needs to be the admin for leaves alone: the whole configuration.\<close>

definition config_frame :: "middleware \<Rightarrow> middleware \<Rightarrow> bool" where
  "config_frame s s' \<longleftrightarrow> admin_key s' = admin_key s \<and> route_config_key s' = route_config_key s
     \<and> caller_rate_limit s' = caller_rate_limit s
     \<and> rate_limit_strategy_key s' = rate_limit_strategy_key s \<and> global_enabled s' = global_enabled s
     \<and> mw_configured_routes s' = mw_configured_routes s"

lemma config_frame_refl [intro]: "config_frame s s"
  by (simp add: config_frame_def)

lemma config_frame_trans: "config_frame s s' \<Longrightarrow> config_frame s' s'' \<Longrightarrow> config_frame s s''"
  by (simp add: config_frame_def)

lemma pre_call_frame:
  assumes "pre_call env c r s = Inr (u, s')"
  shows "config_frame s s'"
proof (cases "route_config_key s r")
  case None
  from pre_call_unconfigured [OF assms None] obtain ev tc where
    "s' = s\<lparr>events := ev, total_calls := tc, executing := (executing s)(r := None)\<rparr>" by blast
  then show ?thesis by (simp add: config_frame_def)
next
  case (Some cfg)
  obtain ev lp st tc where
    "s' = s\<lparr>events := ev, last_rate_limit_prune := lp, route_call_state_key := st,
           total_calls := tc, executing := (executing s)(r := None)\<rparr>"
    by (rule pre_call_configured [OF assms Some]) blast
  then show ?thesis by (simp add: config_frame_def)
qed

lemma post_call_frame:
  assumes "post_call env c r ok s = Inr (u, s')"
  shows "config_frame s s'"
proof (cases "route_config_key s r")
  case None
  with assms show ?thesis by (auto simp: post_call_def bindr_Inr_iff Let_def config_frame_def)
next
  case (Some cfg)
  from post_call_configured [OF assms Some] obtain s1 ev st where
    app: "log_append env c r ok cfg (publish ''post_call'' (VTuple [VAddr c, VStr r, VBool ok]) s) = Inr s1"
    and "s' = (if failure_threshold cfg > 0 then s1\<lparr>events := ev, route_call_state_key := st\<rparr> else s1)"
    by blast
  with log_append_sel [OF app] show ?thesis by (simp add: config_frame_def)
qed

lemma middleware_step_gated:
  "middleware_step env call s = Inr s' \<Longrightarrow> middleware_gated call = Some a \<Longrightarrow>
     auth env a \<and> admin_key s = Some a"
  by (cases call) (auto simp: returns_Inr_iff bindr_Inr_iff require_auth_Inr_iff require_admin_Inr_iff
      configure_route_def set_global_enabled_def reset_route_call_log_def reset_rate_limit_def
      set_rate_limit_strategy_def reset_circuit_breaker_def reset_guard_def middleware_transfer_admin_def
      configure_caller_rate_limit_def remove_caller_rate_limit_def)

lemma middleware_step_open:
  assumes "middleware_step env call s = Inr s'" and "middleware_gated call = None" and "admin_key s = Some a"
  shows "config_frame s s'"
  using assms
  by (cases call) (auto simp: returns_Inr_iff middleware_initialize_def bindr_Inr_iff reject_if_Inr_iff
      intro: pre_call_frame post_call_frame)

interpretation middleware_machine: contract_machine middleware_step middleware_empty middleware_inv
  by unfold_locales (use middleware_inv_empty middleware_step_inv in blast)+

interpretation middleware_admin: admin_gated middleware_step middleware_empty middleware_inv
    admin_key middleware_gated config_frame
proof unfold_locales
  fix env c s s' a
  assume "middleware_step env c s = Inr s'" "middleware_gated c = None" "admin_key s = Some a"
  then show "admin_key s' = Some a \<and> config_frame s s'"
    using middleware_step_open by (auto simp: config_frame_def)
qed (auto simp: middleware_step_gated intro: config_frame_trans)


subsection \<open>Rate limits over runs\<close>

lemma window_elapsed_iff:
  "window_elapsed now start w \<longleftrightarrow> min (unat start + unat w) (2 ^ 64 - 1) \<le> unat now"
  by (simp add: window_elapsed_def word_le_nat_alt unat_saturating_add)

lemma map_of_fold_remove:
  "map_of (fold hmap_remove ks m) k = (if k \<in> set ks then None else map_of m k)"
  by (induction ks arbitrary: m) auto

lemma hmap_ok_mem: "hmap_ok m \<Longrightarrow> (k, v) \<in> set m \<longleftrightarrow> map_of m k = Some v"
  by (simp add: hmap_ok_def strict_sorted_iff map_of_eq_Some_iff)

definition stale :: "middleware \<Rightarrow> string \<Rightarrow> u64 \<Rightarrow> u64 \<Rightarrow> address \<Rightarrow> rate_limit_state \<Rightarrow> bool" where
  "stale s r now base c st \<longleftrightarrow> now \<ge> saturating_add (window_start st)
     (max (saturating_mul (resolve_effective_window s r c base) RATE_LIMIT_STALE_WINDOW_MULTIPLIER) 1)"

lemma pruned_lookup:
  assumes "hmap_ok (rate_limits (route_state s r))"
  shows "map_of (snd (pruned env r cfg s)) c =
     (case map_of (rate_limits (route_state s r)) c of
        None \<Rightarrow> None
      | Some st \<Rightarrow> if prune_due env r s \<and> stale s r (timestamp env) (window_seconds cfg) c st
                   then None else Some st)"
proof -
  let ?m = "rate_limits (route_state s r)"
  let ?ks = "map fst (filter (\<lambda>(c, st). stale s r (timestamp env) (window_seconds cfg) c st) ?m)"
  have eq: "snd (pruned env r cfg s) = (if prune_due env r s then fold hmap_remove ?ks ?m else ?m)"
    by (simp add: pruned_def prune_stale_rate_limits_def stale_def Let_def)
  have "c \<in> set ?ks \<longleftrightarrow> (\<exists>st. map_of ?m c = Some st \<and> stale s r (timestamp env) (window_seconds cfg) c st)"
    using hmap_ok_mem [OF assms] by force
  then show ?thesis by (auto simp: eq map_of_fold_remove split: option.splits)
qed

text \<open>An evicted entry's window has run out, so eviction never changes what a caller may do.\<close>

lemma stale_elapsed:
  "stale s r now base c st \<Longrightarrow> window_elapsed now (window_start st) (resolve_effective_window s r c base)"
proof -
  let ?w = "resolve_effective_window s r c base"
  let ?v = "max (saturating_mul ?w RATE_LIMIT_STALE_WINDOW_MULTIPLIER) 1"
  assume "stale s r now base c st"
  then have "min (unat (window_start st) + unat ?v) (2 ^ 64 - 1) \<le> unat now"
    by (simp add: stale_def word_le_nat_alt unat_saturating_add)
  moreover have "unat ?w \<le> unat ?v"
  proof -
    have "unat (saturating_mul ?w 4) = min (unat ?w * 4) (2 ^ 64 - 1)" by (simp add: unat_saturating_mul)
    moreover have "unat ?w < 2 ^ LENGTH(64)" by (rule unsigned_less)
    ultimately have "unat ?w \<le> unat (saturating_mul ?w 4)" by simp
    also have "\<dots> \<le> unat ?v" by (simp add: RATE_LIMIT_STALE_WINDOW_MULTIPLIER_def word_le_nat_alt [symmetric])
    finally show ?thesis .
  qed
  ultimately show ?thesis by (auto simp: window_elapsed_iff)
qed

lemma effective_limit_window:
  "effective_limit cfg (caller_rate_limit s r c) = Some (l, w) \<Longrightarrow>
     w = resolve_effective_window s r c (window_seconds cfg) \<and> l \<noteq> 0"
proof (cases "caller_rate_limit s r c")
  case None
  assume "effective_limit cfg (caller_rate_limit s r c) = Some (l, w)"
  with None have w: "w = window_seconds cfg" and pos: "max_calls_per_window cfg > 0"
    and l: "l = saturating_add (max_calls_per_window cfg) (burst_allowance cfg)"
    by (auto simp: effective_limit_def Let_def split: if_splits)
  have "unat l \<noteq> 0"
    using pos unsigned_less [of "max_calls_per_window cfg"]
    by (simp add: l unat_saturating_add word_less_nat_alt)
  then show ?thesis using w None by (auto simp: resolve_effective_window_def)
next
  case (Some c')
  assume "effective_limit cfg (caller_rate_limit s r c) = Some (l, w)"
  with Some show ?thesis
    by (auto simp: effective_limit_def resolve_effective_window_def Let_def split: if_splits)
qed

text \<open>The calls used and the start of the window \<open>check_and_increment\<close> works with.\<close>

definition usage :: "u64 \<Rightarrow> u64 \<Rightarrow> rate_limit_state option \<Rightarrow> u32 \<times> u64" where
  "usage now w entry = (case entry of
      None \<Rightarrow> (0, now)
    | Some st \<Rightarrow> if window_elapsed now (window_start st) w then (0, now) else (calls_in_window st, window_start st))"

lemma usage_pruned:
  assumes "hmap_ok (rate_limits (route_state s r))"
    and "effective_limit cfg (caller_rate_limit s r c) = Some (l, w)"
  shows "usage (timestamp env) w (map_of (snd (pruned env r cfg s)) c)
     = usage (timestamp env) w (map_of (rate_limits (route_state s r)) c)"
  using stale_elapsed [of s r "timestamp env" "window_seconds cfg" c] effective_limit_window [OF assms(2)]
  by (auto simp: pruned_lookup [OF assms(1)] usage_def split: option.splits)

lemma check_and_increment_usage:
  assumes "check_and_increment env c rcs l w = Inr chk"
  defines "u \<equiv> usage (timestamp env) w (map_of (rate_limits rcs) c)"
  shows "exceeded chk \<longleftrightarrow> l \<le> fst u" and "window_start (updated_state chk) = snd u"
    and "unat (calls_in_window (updated_state chk)) = unat (fst u) + (if exceeded chk then 0 else 1)"
  using assms(1)
  by (auto simp: check_and_increment_def u_def usage_def Let_def bindr_Inr_iff expect_Inr_iff
      checked_add_Some_iff split: option.splits if_splits)

text \<open>The number of calls of \<open>c\<close> on route \<open>r\<close> that a run admits.\<close>

fun admitted :: "address \<Rightarrow> string \<Rightarrow> middleware \<Rightarrow> (env \<times> middleware_call) list \<Rightarrow> nat" where
  "admitted c r s [] = 0"
| "admitted c r s ((env, call) # txs) =
     (case middleware_step env call s of
        Inl _ \<Rightarrow> admitted c r s txs
      | Inr s' \<Rightarrow> (if call = MPreCall c r then 1 else 0) + admitted c r s' txs)"

definition entry :: "middleware \<Rightarrow> string \<Rightarrow> address \<Rightarrow> rate_limit_state option" where
  "entry s r c = map_of (rate_limits (route_state s r)) c"

text \<open>
  The calls left to a caller during the \<open>w\<close> seconds from \<open>t0\<close>: the rest of a window that began
  in them, or the rest of an older window and one full window more.
\<close>

definition budget :: "nat \<Rightarrow> nat \<Rightarrow> rate_limit_state option \<Rightarrow> nat" where
  "budget l t0 e = (case e of
      None \<Rightarrow> l
    | Some st \<Rightarrow> (l - unat (calls_in_window st)) + (if t0 \<le> unat (window_start st) then 0 else l))"

lemma budget_admit:
  assumes "e' = Some \<lparr>calls_in_window = k, window_start = snd (usage now w e), total_violations = v\<rparr>"
    and "unat k = unat (fst (usage now w e)) + 1" and "\<not> l \<le> fst (usage now w e)"
    and "t0 \<le> unat now" and "unat now < t0 + unat w" and "t0 + unat w < 2 ^ 64"
  shows "budget (unat l) t0 e' + 1 \<le> budget (unat l) t0 e"
proof (cases e)
  case None
  with assms show ?thesis by (simp add: budget_def usage_def word_le_nat_alt)
next
  case (Some st)
  show ?thesis
  proof (cases "window_elapsed now (window_start st) w")
    case False
    with assms Some show ?thesis by (auto simp: budget_def usage_def word_le_nat_alt)
  next
    case True
    then have "unat (window_start st) < t0" using assms(5,6) by (auto simp: window_elapsed_iff)
    with True assms Some show ?thesis by (simp add: budget_def usage_def word_le_nat_alt)
  qed
qed


lemma route_state_other:
  "s' = s\<lparr>events := ev, last_rate_limit_prune := lp,
      route_call_state_key := (route_call_state_key s)(q := x), total_calls := tc, executing := ex\<rparr> \<Longrightarrow>
     q \<noteq> r \<Longrightarrow> route_state s' r = route_state s r"
  by (simp add: route_state_def)

lemma pre_call_other_route:
  assumes "pre_call env c q s = Inr (u, s')" and "q \<noteq> r"
  shows "route_state s' r = route_state s r"
proof (cases "route_config_key s q")
  case None
  from pre_call_unconfigured [OF assms(1) None] obtain ev tc where
    "s' = s\<lparr>events := ev, total_calls := tc, executing := (executing s)(q := None)\<rparr>" by blast
  then show ?thesis by (simp add: route_state_def)
next
  case (Some cfg)
  obtain ev lp x tc where
    "s' = s\<lparr>events := ev, last_rate_limit_prune := lp, route_call_state_key := (route_call_state_key s)(q := x),
           total_calls := tc, executing := (executing s)(q := None)\<rparr>"
    by (rule pre_call_configured [OF assms(1) Some]) blast
  then show ?thesis using assms(2) by (rule route_state_other)
qed

lemma post_call_rate_limits:
  assumes "post_call env c q ok s = Inr (u, s')"
  shows "rate_limits (route_state s' r) = rate_limits (route_state s r)"
proof (cases "route_config_key s q")
  case None
  with assms show ?thesis by (auto simp: post_call_def bindr_Inr_iff Let_def route_state_def)
next
  case (Some cfg)
  from post_call_configured [OF assms Some] obtain s1 ev cb where
    app: "log_append env c q ok cfg (publish ''post_call'' (VTuple [VAddr c, VStr q, VBool ok]) s) = Inr s1"
    and "s' = (if failure_threshold cfg > 0 then s1\<lparr>events := ev, route_call_state_key :=
          (route_call_state_key s)(q \<mapsto> (route_state s q)\<lparr>circuit_breaker := cb\<rparr>)\<rparr> else s1)" by blast
  with log_append_sel(4) [OF app] show ?thesis by (auto simp: route_state_def)
qed

lemma post_call_other_route:
  assumes "post_call env c q ok s = Inr (u, s')" and "q \<noteq> r"
  shows "route_state s' r = route_state s r"
proof (cases "route_config_key s q")
  case None
  with assms show ?thesis by (auto simp: post_call_def bindr_Inr_iff Let_def route_state_def)
next
  case (Some cfg)
  from post_call_configured [OF assms(1) Some] obtain s1 ev rcs where
    app: "log_append env c q ok cfg (publish ''post_call'' (VTuple [VAddr c, VStr q, VBool ok]) s) = Inr s1"
    and "s' = (if failure_threshold cfg > 0 then s1\<lparr>events := ev, route_call_state_key :=
          (route_call_state_key s)(q \<mapsto> rcs)\<rparr> else s1)" by blast
  with log_append_sel(4) [OF app] assms(2) show ?thesis by (auto simp: route_state_def)
qed

lemma pre_call_entry_same:
  assumes "pre_call env c r s = Inr (u, s')" and "route_config_key s r = Some cfg" and "states_ok s"
    and "effective_limit cfg (caller_rate_limit s r c) = Some (l, w)" and "get_rate_limit_strategy r s = Reject"
  shows "\<exists>k v. entry s' r c = Some \<lparr>calls_in_window = k,
       window_start = snd (usage (timestamp env) w (entry s r c)), total_violations = v\<rparr>
     \<and> unat k = unat (fst (usage (timestamp env) w (entry s r c))) + 1
     \<and> \<not> l \<le> fst (usage (timestamp env) w (entry s r c))"
proof -
  have ok: "hmap_ok (rate_limits (route_state s r))" using route_state_ok [OF assms(3)] by blast
  obtain rcs chk where rs: "route_state s' r = rcs"
    and chk: "check_and_increment env c ((route_state s r)\<lparr>rate_limits := snd (pruned env r cfg s)\<rparr>) l w = Inr chk"
    and rl: "rate_limits rcs = hmap_set c (updated_state chk) (snd (pruned env r cfg s))"
    and ex: "\<not> exceeded chk"
    by (rule pre_call_configured [OF assms(1,2)]) (auto simp: assms(4,5))
  have u: "usage (timestamp env) w (map_of (rate_limits ((route_state s r)
      \<lparr>rate_limits := snd (pruned env r cfg s)\<rparr>)) c) = usage (timestamp env) w (entry s r c)"
    using usage_pruned [OF ok assms(4), of env] by (simp add: entry_def)
  note U = check_and_increment_usage [OF chk, unfolded u]
  have "entry s' r c = Some (updated_state chk)" by (simp add: entry_def rs rl)
  then show ?thesis
    using ex U by (intro exI [of _ "calls_in_window (updated_state chk)"]
        exI [of _ "total_violations (updated_state chk)"]) simp
qed

lemma pre_call_entry_other:
  assumes "pre_call env c' r s = Inr (u, s')" and "route_config_key s r = Some cfg" and "states_ok s"
    and "c' \<noteq> c"
  shows "entry s' r c = entry s r c
     \<or> (entry s' r c = None \<and> (\<exists>st. entry s r c = Some st \<and> stale s r (timestamp env) (window_seconds cfg) c st))"
proof -
  have ok: "hmap_ok (rate_limits (route_state s r))" using route_state_ok [OF assms(3)] by blast
  obtain rcs where rs: "route_state s' r = rcs"
    and lim: "case effective_limit cfg (caller_rate_limit s r c') of
          None \<Rightarrow> rate_limits rcs = snd (pruned env r cfg s)
        | Some (l, w) \<Rightarrow> \<exists>chk. check_and_increment env c'
                ((route_state s r)\<lparr>rate_limits := snd (pruned env r cfg s)\<rparr>) l w = Inr chk
            \<and> rate_limits rcs = hmap_set c' (updated_state chk) (snd (pruned env r cfg s))
            \<and> (exceeded chk \<longrightarrow> get_rate_limit_strategy r s \<noteq> Reject)"
    by (rule pre_call_configured [OF assms(1,2)]) blast
  have "map_of (rate_limits (route_state s' r)) c = map_of (snd (pruned env r cfg s)) c"
    using assms(4) lim by (auto simp: rs split: option.splits)
  then show ?thesis by (auto simp: entry_def pruned_lookup [OF ok] split: option.splits)
qed


lemma budget_step:
  assumes "middleware_step env call s = Inr s'" and "middleware_gated call = None" and "middleware_inv s"
    and "admin_key s = Some a" and "route_config_key s r = Some cfg"
    and "effective_limit cfg (caller_rate_limit s r c) = Some (l, w)" and "get_rate_limit_strategy r s = Reject"
    and "t0 \<le> unat (timestamp env)" and "unat (timestamp env) < t0 + unat w" and "t0 + unat w < 2 ^ 64"
  shows "budget (unat l) t0 (entry s' r c) + (if call = MPreCall c r then 1 else 0)
     \<le> budget (unat l) t0 (entry s r c)"
proof -
  have st: "states_ok s" using assms(3) by (simp add: middleware_inv_def)
  show ?thesis
  proof (cases call)
    case (MInitialize b)
    with assms(1,4) show ?thesis
      by (auto simp: returns_Inr_iff middleware_initialize_def bindr_Inr_iff reject_if_Inr_iff)
  next
    case (MPostCall c' q ok)
    with assms(1) obtain u where "post_call env c' q ok s = Inr (u, s')" by (auto simp: returns_Inr_iff)
    from post_call_rate_limits [OF this] MPostCall show ?thesis by (simp add: entry_def)
  next
    case (MPreCall c' q)
    with assms(1) obtain u where pre: "pre_call env c' q s = Inr (u, s')" by (auto simp: returns_Inr_iff)
    show ?thesis
    proof (cases "q = r")
      case False
      with pre_call_other_route [OF pre, of r] MPreCall show ?thesis by (simp add: entry_def)
    next
      case q: True
      with pre have pre: "pre_call env c' r s = Inr (u, s')" by simp
      show ?thesis
      proof (cases "c' = c")
        case True
        with pre have "pre_call env c r s = Inr (u, s')" by simp
        from pre_call_entry_same [OF this assms(5) st assms(6,7)] obtain k v where
          "entry s' r c = Some \<lparr>calls_in_window = k, window_start = snd (usage (timestamp env) w (entry s r c)),
             total_violations = v\<rparr>"
          "unat k = unat (fst (usage (timestamp env) w (entry s r c))) + 1"
          "\<not> l \<le> fst (usage (timestamp env) w (entry s r c))" by blast
        from budget_admit [OF this assms(8,9,10)] show ?thesis by simp
      next
        case False
        from pre_call_entry_other [OF pre assms(5) st False] show ?thesis
        proof
          assume "entry s' r c = entry s r c"
          then show ?thesis using MPreCall False by simp
        next
          assume "entry s' r c = None
            \<and> (\<exists>st. entry s r c = Some st \<and> stale s r (timestamp env) (window_seconds cfg) c st)"
          then obtain st where none: "entry s' r c = None" and e: "entry s r c = Some st"
            and "stale s r (timestamp env) (window_seconds cfg) c st" by blast
          then have "window_elapsed (timestamp env) (window_start st) w"
            using stale_elapsed effective_limit_window [OF assms(6)] by blast
          then have "unat (window_start st) < t0" using assms(9,10) by (auto simp: window_elapsed_iff)
          then show ?thesis using none e MPreCall False by (simp add: budget_def)
        qed
      qed
    qed
  qed (use assms(2) in simp_all)
qed

lemma admitted_budget:
  assumes "middleware_inv s" and "admin_key s = Some a" and "route_config_key s r = Some cfg"
    and "effective_limit cfg (caller_rate_limit s r c) = Some (l, w)" and "get_rate_limit_strategy r s = Reject"
    and "t0 + unat w < 2 ^ 64"
    and "\<forall>(env, call)\<in>set txs. middleware_gated call = None
           \<and> t0 \<le> unat (timestamp env) \<and> unat (timestamp env) < t0 + unat w"
  shows "admitted c r s txs \<le> budget (unat l) t0 (entry s r c)"
  using assms(1-5,7)
proof (induction txs arbitrary: s)
  case (Cons tx txs)
  obtain env call where tx: "tx = (env, call)" by force
  show ?case
  proof (cases "middleware_step env call s")
    case (Inl e)
    with Cons tx show ?thesis by simp
  next
    case (Inr s')
    from Cons.prems tx have open_call: "middleware_gated call = None"
      and t: "t0 \<le> unat (timestamp env)" "unat (timestamp env) < t0 + unat w" by auto
    note frame = middleware_step_open [OF Inr open_call Cons.prems(2)]
    have "middleware_inv s'" using Cons.prems(1) Inr by (rule middleware_step_inv)
    then have "admitted c r s' txs \<le> budget (unat l) t0 (entry s' r c)"
      using frame Cons.prems by (intro Cons.IH)
        (auto simp: config_frame_def get_rate_limit_strategy_def)
    with budget_step [OF Inr open_call Cons.prems(1-5) t assms(6)] Inr tx show ?thesis by simp
  qed
qed simp


subsection \<open>What makes a call fail\<close>

lemma bindr_Inl_iff: "bindr m f = Inl e \<longleftrightarrow> m = Inl e \<or> (\<exists>x. m = Inr x \<and> f x = Inl e)"
  by (cases m) auto

lemma reject_if_Inl_iff: "reject_if b e = Inl x \<longleftrightarrow> b \<and> x = Err e"
  by (auto simp: reject_if_def)

lemma check_and_increment_Inl: "check_and_increment env c rcs l w = Inl e \<Longrightarrow> e = Trap"
  by (auto simp: check_and_increment_def Let_def bindr_Inl_iff expect_def split: if_splits option.splits)

lemma check_and_increment_ok:
  assumes "\<not> l \<le> fst (usage (timestamp env) w (map_of (rate_limits rcs) c))"
  shows "\<exists>chk. check_and_increment env c rcs l w = Inr chk"
proof (cases "check_and_increment env c rcs l w")
  case (Inl e)
  let ?u = "fst (usage (timestamp env) w (map_of (rate_limits rcs) c))"
  have "unat l < 2 ^ LENGTH(32)" by (rule unsigned_less)
  then have "unat ?u + unat (1::u32) < 2 ^ LENGTH(32)"
    using assms by (simp add: word_le_nat_alt)
  then have some: "\<exists>n. checked_add ?u 1 = Some n" by (simp add: checked_add_def)
  with Inl assms show ?thesis
    by (auto simp: check_and_increment_def Let_def usage_def split: option.splits if_splits)
qed blast

lemma enforce_errors: "enforce_rate_limit env c r cfg ch rcs s = Inl e \<Longrightarrow> e = Trap \<or> e = Err RateLimitExceeded"
  by (auto simp: enforce_rate_limit_def bindr_Inl_iff Let_def
      dest: check_and_increment_Inl split: option.splits if_splits rate_limit_strategy.splits)

definition admissible :: "env \<Rightarrow> address \<Rightarrow> string \<Rightarrow> route_config \<Rightarrow> middleware \<Rightarrow> bool" where
  "admissible env c r cfg s \<longleftrightarrow> auth env c \<and> get_global_enabled s \<and> route_config_key s r = Some cfg \<and> enabled cfg"

text \<open>The last part of \<open>pre_call\<close> as a function of what the route section returned.\<close>

definition pre_call_rest ::
    "address \<Rightarrow> string \<Rightarrow> route_call_state option \<times> middleware \<Rightarrow> (middleware_error, unit, middleware) tx" where
  "pre_call_rest c r p = (case p of (new_route_call_state, s1) \<Rightarrow>
     bindr (reject_if (\<not> unwrap_or (global_enabled s1) True) MiddlewareDisabled) (\<lambda>_.
     bindr (case route_config_key s1 r of
              Some config \<Rightarrow> reject_if (\<not> enabled config) RouteDisabled
            | None \<Rightarrow> Inr ()) (\<lambda>_.
     let s2 = (case new_route_call_state of
                 Some rcs \<Rightarrow> s1\<lparr>route_call_state_key := (route_call_state_key s1)(r \<mapsto> rcs)\<rparr>
               | None \<Rightarrow> s1)
     in
     bindr (expect (checked_add (unwrap_or (total_calls s2) 0) 1)) (\<lambda>total.
     let s3 = publish ''pre_call'' (VTuple [VAddr c, VStr r]) (s2\<lparr>total_calls := Some total\<rparr>)
     in Inr ((), s3\<lparr>executing := (executing s3)(r := None)\<rparr>)))))"

lemma pre_call_split:
  assumes "admissible env c r cfg s" and "middleware_inv s"
  shows "pre_call env c r s = bindr (compute_route_call_state env c r cfg
      (s\<lparr>executing := (executing s)(r \<mapsto> True)\<rparr>)) (pre_call_rest c r)"
  using assms
  by (simp add: pre_call_def admissible_def get_global_enabled_def middleware_inv_def reject_if_def Let_def
      pre_call_rest_def [abs_def])

lemma pre_call_rest_Inr:
  assumes "admissible env c r cfg s" and "mframe (s\<lparr>executing := x\<rparr>) s1"
  shows "pre_call_rest c r (new, s1) \<noteq> Inl (Err e)"
    and "unat (get_total_calls s) + 1 < 2 ^ 64 \<Longrightarrow> \<exists>s'. pre_call_rest c r (new, s1) = Inr ((), s')"
proof -
  have s1: "global_enabled s1 = global_enabled s" "route_config_key s1 = route_config_key s"
    "total_calls s1 = total_calls s" using mframe_sel [OF assms(2)] by simp_all
  have total: "total_calls (case new of Some rcs \<Rightarrow> s1\<lparr>route_call_state_key := (route_call_state_key s1)(r \<mapsto> rcs)\<rparr>
               | None \<Rightarrow> s1) = total_calls s" by (simp add: s1 split: option.splits)
  show "pre_call_rest c r (new, s1) \<noteq> Inl (Err e)"
    using assms(1) by (auto simp: pre_call_rest_def admissible_def get_global_enabled_def s1
        reject_if_def Let_def total bindr_Inl_iff expect_def split: option.splits)
  assume "unat (get_total_calls s) + 1 < 2 ^ 64"
  then have "\<exists>n. checked_add (unwrap_or (total_calls s) 0) 1 = Some n"
    by (simp add: checked_add_def get_total_calls_def)
  then show "\<exists>s'. pre_call_rest c r (new, s1) = Inr ((), s')"
    using assms(1) by (auto simp: pre_call_rest_def admissible_def get_global_enabled_def s1
        reject_if_def Let_def total)
qed

lemma pre_call_circuit:
  assumes "admissible env c r cfg s" and "middleware_inv s"
  shows "pre_call env c r s = Inl (Err CircuitOpen) \<longleftrightarrow> fst (transit env cfg (route_state s r))"
proof -
  let ?s0 = "s\<lparr>executing := (executing s)(r \<mapsto> True)\<rparr>"
  let ?rcs1 = "(route_state s r)\<lparr>rate_limits := snd (pruned env r cfg s)\<rparr>"
  obtain blocked rcs2 where tr: "transit env cfg ?rcs1 = (blocked, rcs2)" by force
  have b: "blocked \<longleftrightarrow> fst (transit env cfg (route_state s r))"
    using transit_rate_limits(1) [of env cfg "snd (pruned env r cfg s)" "route_state s r"] tr by simp
  have en: "enabled cfg" using assms(1) by (simp add: admissible_def)
  show ?thesis
  proof (cases blocked)
    case True
    then have "compute_route_call_state env c r cfg ?s0 = Inl (Err CircuitOpen)"
      using en tr by (simp add: compute_eq)
    with pre_call_split [OF assms] True b show ?thesis by simp
  next
    case False
    have "pre_call env c r s \<noteq> Inl (Err CircuitOpen)"
    proof (cases "compute_route_call_state env c r cfg ?s0")
      case (Inl e)
      with en tr False have "e = Trap \<or> e = Err RateLimitExceeded"
        by (auto simp: compute_eq bindr_Inl_iff dest: enforce_errors split: if_splits)
      with pre_call_split [OF assms] Inl show ?thesis by auto
    next
      case (Inr p)
      obtain new s1 where p: "p = (new, s1)" by force
      have "mframe ?s0 s1"
      proof -
        from Inr p en tr False obtain ch ch' rcs3 where
          "enforce_rate_limit env c r cfg ch rcs2 (prune_mark env r ?s0) = Inr (ch', rcs3, s1)"
          by (auto simp: compute_eq bindr_Inr_iff split: if_splits)
        with enforce_Inr prune_mark_frame mframe_trans show ?thesis by blast
      qed
      with pre_call_rest_Inr(1) [OF assms(1)] pre_call_split [OF assms] Inr p show ?thesis by simp
    qed
    with False b show ?thesis by simp
  qed
qed


lemma pre_call_within_limit:
  assumes "admissible env c r cfg s" and "middleware_inv s" and "\<not> fst (transit env cfg (route_state s r))"
    and "effective_limit cfg (caller_rate_limit s r c) = Some (l, w)" and "get_rate_limit_strategy r s = Reject"
    and "unat (get_total_calls s) + 1 < 2 ^ 64"
  shows "(\<exists>s'. pre_call env c r s = Inr ((), s')) \<longleftrightarrow> \<not> l \<le> fst (usage (timestamp env) w (entry s r c))"
proof
  assume "\<exists>s'. pre_call env c r s = Inr ((), s')"
  then obtain s' where "pre_call env c r s = Inr ((), s')" ..
  then show "\<not> l \<le> fst (usage (timestamp env) w (entry s r c))"
    using pre_call_entry_same [of env c r s "()" s' cfg l w] assms by (auto simp: admissible_def middleware_inv_def)
next
  assume free: "\<not> l \<le> fst (usage (timestamp env) w (entry s r c))"
  let ?s0 = "s\<lparr>executing := (executing s)(r \<mapsto> True)\<rparr>"
  let ?rcs1 = "(route_state s r)\<lparr>rate_limits := snd (pruned env r cfg s)\<rparr>"
  have ok: "hmap_ok (rate_limits (route_state s r))"
    using assms(2) route_state_ok by (auto simp: middleware_inv_def)
  obtain rcs2 where tr: "transit env cfg ?rcs1 = (False, rcs2)"
    using transit_rate_limits(1) [of env cfg "snd (pruned env r cfg s)" "route_state s r"] assms(3)
    by (cases "transit env cfg ?rcs1") auto
  have rl: "rate_limits rcs2 = snd (pruned env r cfg s)" using transit_sel [of env cfg ?rcs1] tr by simp
  have u: "usage (timestamp env) w (map_of (rate_limits rcs2) c) = usage (timestamp env) w (entry s r c)"
    using usage_pruned [OF ok assms(4), of env] by (simp add: rl entry_def)
  obtain chk where chk: "check_and_increment env c rcs2 l w = Inr chk"
    using check_and_increment_ok [of l env w rcs2 c] free u by auto
  have ex: "\<not> exceeded chk" using check_and_increment_usage(1) [OF chk] free u by simp
  let ?mark = "prune_mark env r ?s0"
  have lim: "effective_limit cfg (caller_rate_limit ?mark r c) = Some (l, w)"
    using assms(4) by (simp add: prune_mark_def)
  obtain rcs3 where enf: "enforce_rate_limit env c r cfg ch rcs2 ?mark = Inr (True, rcs3, ?mark)" for ch
    using chk ex lim by (simp add: enforce_rate_limit_def Let_def)
  have comp: "compute_route_call_state env c r cfg ?s0 = Inr (Some rcs3, ?mark)"
    using assms(1) tr enf by (simp add: compute_eq admissible_def)
  obtain s' where "pre_call_rest c r (Some rcs3, ?mark) = Inr ((), s')"
    using pre_call_rest_Inr(2) [OF assms(1) prune_mark_frame assms(6)] by blast
  then show "\<exists>s'. pre_call env c r s = Inr ((), s')"
    using pre_call_split [OF assms(1,2)] comp by simp
qed

subsection \<open>The breaker as a three-state machine\<close>

datatype breaker_view = Closed nat | Open | Half_Open

definition view_of :: "circuit_breaker_state \<Rightarrow> breaker_view" where
  "view_of cb = (if is_open cb then Open else if is_half_open cb then Half_Open
     else Closed (unat (failure_count cb)))"

text \<open>
  The specification, with failure threshold \<open>n\<close>: an admitted call turns an open breaker, whose
  recovery is then over, half-open; \<open>n\<close> reported failures in a row open a closed breaker; the
  next report decides a half-open one; an open breaker ignores reports.
\<close>

datatype breaker_event = Admit | Report bool

inductive breaker_step :: "nat \<Rightarrow> breaker_event \<Rightarrow> breaker_view \<Rightarrow> breaker_view \<Rightarrow> bool" for n where
  admit: "v \<noteq> Open \<Longrightarrow> breaker_step n Admit v v"
| recover: "breaker_step n Admit Open Half_Open"
| fail: "k + 1 < n \<Longrightarrow> breaker_step n (Report False) (Closed k) (Closed (k + 1))"
| trip: "n \<le> k + 1 \<Longrightarrow> breaker_step n (Report False) (Closed k) Open"
| ok: "breaker_step n (Report True) (Closed k) (Closed 0)"
| probe_fail: "breaker_step n (Report False) Half_Open Open"
| probe_ok: "breaker_step n (Report True) Half_Open (Closed 0)"
| ignore: "breaker_step n (Report b) Open Open"

inductive_simps breaker_step_Admit: "breaker_step n Admit v v'"
inductive_simps breaker_step_Report: "breaker_step n (Report b) v v'"

fun breaker_event_of :: "string \<Rightarrow> middleware_call \<Rightarrow> breaker_event option" where
  "breaker_event_of r (MPreCall c q) = (if q = r then Some Admit else None)"
| "breaker_event_of r (MPostCall c q b) = (if q = r then Some (Report b) else None)"
| "breaker_event_of r _ = None"

lemma view_of_transit:
  assumes "\<not> fst (transit env cfg rcs)" and "failure_threshold cfg > 0"
  shows "breaker_step n Admit (view_of (circuit_breaker rcs))
     (view_of (circuit_breaker (snd (transit env cfg rcs))))"
  using assms
  by (auto simp: transit_def check_and_transition_def view_of_def breaker_step_Admit split: if_splits)

lemma view_of_report:
  assumes "breaker_ok cb"
    and "\<not> b \<longrightarrow> \<not> is_half_open cb \<longrightarrow> unat (failure_count cb + 1) = unat (failure_count cb) + 1"
  shows "breaker_step (unat (failure_threshold cfg)) (Report b) (view_of cb) (view_of (breaker_after env cfg b cb))"
proof (cases b)
  case True
  then show ?thesis using assms(1)
    by (auto simp: view_of_def breaker_after_def breaker_step_Report breaker_ok_def)
next
  case False
  show ?thesis
  proof (cases "is_half_open cb")
    case True
    with False assms(1) show ?thesis
      by (auto simp: view_of_def breaker_after_def failed_breaker_def breaker_step_Report breaker_ok_def)
  next
    case closed: False
    then have "failure_count cb + 1 \<ge> failure_threshold cfg \<longleftrightarrow>
        unat (failure_threshold cfg) \<le> unat (failure_count cb) + 1"
      and "unat (failure_count cb + 1) = unat (failure_count cb) + 1"
      using assms(2) False by (simp_all add: word_le_nat_alt)
    with False closed show ?thesis
      by (auto simp: view_of_def breaker_after_def failed_breaker_def breaker_step_Report not_le)
  qed
qed

subsection \<open>Properties\<close>

text \<open>C25. In every state router-middleware can reach: no reentrancy guard is left set; every
  configuration has a window when it has a limit and at most 10,000 log entries; no breaker is both
  open and half-open, and an open or half-open one has counted a failure; every call log is a
  well-formed ring of the configured capacity, and every summary is the sum of its parts.\<close>

theorem middleware_reachable_inv: "middleware_inv (run_txs middleware_step middleware_empty txs)"
  by (rule middleware_machine.invar_run)

text \<open>C3. The rate limit holds over runs: with a limit of \<open>l\<close> calls per \<open>w\<close> seconds in force
  for a caller on a route under the strategy Reject, whatever calls of the hooks are made by anyone
  during \<open>w\<close> seconds, at most \<open>2 * l\<close> of the caller's are admitted on the route, and at most
  \<open>l\<close> when the caller had no record before.\<close>

theorem rate_limit_bound:
  assumes "middleware_inv s" and "admin_key s = Some a" and "route_config_key s r = Some cfg"
    and "effective_limit cfg (caller_rate_limit s r c) = Some (l, w)" and "get_rate_limit_strategy r s = Reject"
    and "t0 + unat w < 2 ^ 64"
    and "\<forall>(env, call)\<in>set txs. middleware_gated call = None
           \<and> t0 \<le> unat (timestamp env) \<and> unat (timestamp env) < t0 + unat w"
  shows "admitted c r s txs \<le> (if entry s r c = None then unat l else 2 * unat l)"
  using admitted_budget [OF assms] by (cases "entry s r c") (auto simp: budget_def split: if_splits)

text \<open>C6. The circuit breaker refines a three-state machine: each successful hook on the route is
  exactly one step of it with the configured threshold (an admitted call, or a reported success or
  failure), and a hook on another route leaves it alone.\<close>

theorem breaker_refines:
  assumes "middleware_inv s" and "route_config_key s r = Some cfg" and "failure_threshold cfg > 0"
    and "middleware_step env call s = Inr s'" and "call = MPreCall c q \<or> call = MPostCall c q b"
  shows "case breaker_event_of r call of
       Some ev \<Rightarrow> breaker_step (unat (failure_threshold cfg)) ev
         (view_of (circuit_breaker (route_state s r))) (view_of (circuit_breaker (route_state s' r)))
     | None \<Rightarrow> circuit_breaker (route_state s' r) = circuit_breaker (route_state s r)"
  using assms(5)
proof
  assume call: "call = MPreCall c q"
  with assms(4) obtain u where pre: "pre_call env c q s = Inr (u, s')" by (auto simp: returns_Inr_iff)
  show ?thesis
  proof (cases "q = r")
    case True
    with pre have pre: "pre_call env c r s = Inr (u, s')" by simp
    obtain rcs where rs: "route_state s' r = rcs" and free: "\<not> fst (transit env cfg (route_state s r))"
      and cb: "circuit_breaker rcs = circuit_breaker (snd (transit env cfg (route_state s r)))"
      by (rule pre_call_configured [OF pre assms(2)]) blast
    show ?thesis using view_of_transit [OF free assms(3)] call True by (simp add: rs cb)
  next
    case False
    then show ?thesis using pre_call_other_route [OF pre False] call by simp
  qed
next
  assume call: "call = MPostCall c q b"
  with assms(4) obtain u where post: "post_call env c q b s = Inr (u, s')" by (auto simp: returns_Inr_iff)
  have ok: "breaker_ok (circuit_breaker (route_state s r))"
    using assms(1) route_state_ok by (auto simp: middleware_inv_def)
  show ?thesis
  proof (cases "q = r")
    case True
    with post have post: "post_call env c r b s = Inr (u, s')" by simp
    let ?cb = "circuit_breaker (route_state s r)"
    from post_call_configured [OF post assms(2)] assms(3) obtain s1 ev where
      no: "\<not> b \<longrightarrow> \<not> is_half_open ?cb \<longrightarrow> unat (failure_count ?cb + 1) = unat (failure_count ?cb) + 1"
      and "s' = s1\<lparr>events := ev, route_call_state_key := (route_call_state_key s)(r \<mapsto> (route_state s r)
                \<lparr>circuit_breaker := breaker_after env cfg b ?cb\<rparr>)\<rparr>" by auto
    then have "circuit_breaker (route_state s' r) = breaker_after env cfg b ?cb"
      by (simp add: route_state_def)
    with view_of_report [OF ok no] call True show ?thesis by simp
  next
    case False
    then show ?thesis using post_call_other_route [OF post False] call by simp
  qed
qed


text \<open>The breaker view predicts enforcement: with the route and the middleware enabled and the
  caller signed, \<open>pre_call\<close> fails with \<open>CircuitOpen\<close> exactly when the breaker is active on
  the route and \<open>get_circuit_breaker_state\<close> shows it open at that time.\<close>

theorem breaker_view_predicts:
  assumes "middleware_inv s" and "admissible env c r cfg s"
  shows "pre_call env c r s = Inl (Err CircuitOpen) \<longleftrightarrow>
     failure_threshold cfg > 0 \<and> (\<exists>cb. get_circuit_breaker_state env r s = Some cb \<and> is_open cb)"
proof -
  have cfg: "route_config_key s r = Some cfg" using assms(2) by (simp add: admissible_def)
  have "fst (transit env cfg (route_state s r)) \<longleftrightarrow>
      failure_threshold cfg > 0 \<and> (\<exists>cb. get_circuit_breaker_state env r s = Some cb \<and> is_open cb)"
    by (cases "route_call_state_key s r")
      (auto simp: transit_def check_and_transition_def route_state_def get_circuit_breaker_state_def cfg
        default_route_call_state_def closed_breaker_def Let_def)
  with pre_call_circuit [OF assms(2,1)] show ?thesis by simp
qed

text \<open>C24. The call log is a bounded queue: reporting a call on a route that keeps \<open>k > 0\<close> entries
  appends the entry, dropping the oldest when there are \<open>k\<close> already, and the view returns the
  queue in order; the number of entries is \<open>get_call_log_length\<close> and never above \<open>k\<close>.\<close>

theorem call_log_queue:
  assumes "middleware_inv s" and "route_config_key s r = Some cfg" and "log_retention cfg > 0"
    and "post_call env c r ok s = Inr (u, s')"
  shows "\<exists>xs. get_call_log r s = Inr xs
     \<and> get_call_log r s' = Inr (queue_push (unat (log_retention cfg))
         \<lparr>cl_caller = c, cl_timestamp = timestamp env, cl_success = ok, cl_route = r\<rparr> xs)
     \<and> length xs = unat (get_call_log_length r s) \<and> length xs \<le> unat (log_retention cfg)"
proof -
  let ?k = "log_retention cfg" and ?s0 = "publish ''post_call'' (VTuple [VAddr c, VStr r, VBool ok]) s"
  let ?e = "\<lparr>cl_caller = c, cl_timestamp = timestamp env, cl_success = ok, cl_route = r\<rparr>"
  have inv: "logs_ok s" "configs_ok s" using assms(1) by (simp_all add: middleware_inv_def)
  have k: "?k \<noteq> 0" using assms(3) by (simp add: word_gt_0)
  have old: "log_ok ?k (log_of s r)" using log_of_ok [OF inv(1) assms(2) inv(2) k] .
  from post_call_configured [OF assms(4,2)] obtain s1 ev rcs where
    app: "log_append env c r ok cfg ?s0 = Inr s1"
    and s': "s' = (if failure_threshold cfg > 0 then s1\<lparr>events := ev, route_call_state_key := rcs\<rparr> else s1)"
    by blast
  from log_append_Inr [OF app] k obtain log' where push: "ring_push ?k ?e (log_of s r) = Inr log'"
    and key: "call_log_key s1 r = Some log'" by (auto simp: log_of_def)
  have new: "log_ok ?k log'" "log_contents log' = queue_push (unat ?k) ?e (log_contents (log_of s r))"
    using ring_push_spec [OF old, of ?e] push by auto
  have "call_log_key s' r = Some log'" using key by (simp add: s')
  from get_call_log_contents [OF this new(1), of None]
  have "get_call_log r s' = Inr (queue_push (unat ?k) ?e (log_contents (log_of s r)))"
    by (simp add: get_call_log_def new(2))
  moreover have "get_call_log r s = Inr (log_contents (log_of s r))"
    using get_call_log_contents [of s r _ ?k None] logs_okD [OF inv(1) _ assms(2)]
    by (cases "call_log_key s r")
      (auto simp: get_call_log_def log_of_def get_call_log_internal_def log_contents_def)
  moreover have "length (log_contents (log_of s r)) = unat (get_call_log_length r s)"
    using length_log_contents [OF old] by (cases "call_log_key s r") (auto simp: log_of_def get_call_log_length_def)
  moreover have "unat (get_call_log_length r s) \<le> unat ?k"
    using old by (cases "call_log_key s r")
      (auto simp: log_of_def get_call_log_length_def log_ok_def split: if_splits)
  ultimately show ?thesis by (intro exI [of _ "log_contents (log_of s r)"]) simp
qed

text \<open>The view of a caller's override predicts enforcement: with a positive override, the
  strategy Reject, every other gate passed and the call counter not full, \<open>pre_call\<close> succeeds
  exactly when \<open>check_caller_rate_limit\<close> says so.\<close>

theorem override_view_predicts:
  assumes "middleware_inv s" and "admissible env c r cfg s"
    and "\<not> (failure_threshold cfg > 0 \<and> (\<exists>cb. get_circuit_breaker_state env r s = Some cb \<and> is_open cb))"
    and "caller_rate_limit s r c = Some lim" and "max_calls lim > 0"
    and "get_rate_limit_strategy r s = Reject" and "unat (get_total_calls s) + 1 < 2 ^ 64"
  shows "(\<exists>s'. pre_call env c r s = Inr ((), s')) \<longleftrightarrow> check_caller_rate_limit env r c s"
proof -
  have cfg: "route_config_key s r = Some cfg" using assms(2) by (simp add: admissible_def)
  have free: "\<not> fst (transit env cfg (route_state s r))"
    using assms(3) by (cases "route_call_state_key s r")
      (auto simp: transit_def check_and_transition_def route_state_def get_circuit_breaker_state_def cfg
        default_route_call_state_def closed_breaker_def Let_def)
  have eff: "effective_limit cfg (caller_rate_limit s r c) = Some (max_calls lim, window_secs lim)"
    using assms(4,5) by (simp add: effective_limit_def Let_def)
  have "check_caller_rate_limit env r c s \<longleftrightarrow>
      \<not> max_calls lim \<le> fst (usage (timestamp env) (window_secs lim) (entry s r c))"
    using assms(4,5)
    by (auto simp: check_caller_rate_limit_def usage_def entry_def route_state_def Let_def not_le
        split: option.splits)
  with pre_call_within_limit [OF assms(2,1) free eff assms(6,7)] show ?thesis by simp
qed

subsection \<open>Concrete runs\<close>

definition at_time :: "u64 \<Rightarrow> env" where
  "at_time t = \<lparr>timestamp = t, sequence = 0, auth = (\<lambda>_. True)\<rparr>"

lemma at_time_sel [simp]: "timestamp (at_time t) = t" "auth (at_time t) a"
  by (simp_all add: at_time_def)

text \<open>
  A route with one call per minute, a breaker that trips after one failure and recovers after 30
  seconds, and two log entries. The breaker tripped at time 11; caller 2 has an override.
\<close>

definition demo_config :: route_config where
  "demo_config = \<lparr>max_calls_per_window = 1, window_seconds = 60, enabled = True, failure_threshold = 1,
     recovery_window_seconds = 30, log_retention = 2, burst_allowance = 0\<rparr>"

definition demo :: middleware where
  "demo = middleware_empty\<lparr>admin_key := Some (Address 0), global_enabled := Some True,
     total_calls := Some 1, mw_configured_routes := Some [''swap''],
     route_config_key := [''swap'' \<mapsto> demo_config],
     caller_rate_limit := (\<lambda>_. Map.empty)(''swap'' := [Address 2 \<mapsto> \<lparr>max_calls = 3, window_secs = 5\<rparr>]),
     route_call_state_key := [''swap'' \<mapsto> \<lparr>rate_limits = [(Address 1,
        \<lparr>calls_in_window = 1, window_start = 10, total_violations = 0\<rparr>)],
      circuit_breaker = \<lparr>failure_count = 1, opened_at = 11, is_open = True, is_half_open = False\<rparr>\<rparr>]\<rparr>"

lemma middleware_demo_sel [simp]:
  "admin_key demo = Some (Address 0)" "global_enabled demo = Some True" "total_calls demo = Some 1"
  "mw_configured_routes demo = Some [''swap'']" "route_config_key demo = [''swap'' \<mapsto> demo_config]"
  "caller_rate_limit demo = (\<lambda>_. Map.empty)(''swap'' := [Address 2 \<mapsto> \<lparr>max_calls = 3, window_secs = 5\<rparr>])"
  "route_call_state_key demo = [''swap'' \<mapsto> \<lparr>rate_limits = [(Address 1,
        \<lparr>calls_in_window = 1, window_start = 10, total_violations = 0\<rparr>)],
      circuit_breaker = \<lparr>failure_count = 1, opened_at = 11, is_open = True, is_half_open = False\<rparr>\<rparr>]"
  "rate_limit_strategy_key demo = Map.empty" "executing demo = Map.empty"
  "call_log_key demo = Map.empty" "call_log_summary_key demo = Map.empty"
  "last_rate_limit_prune demo = Map.empty"
  by (simp_all add: demo_def middleware_empty_def)

lemma demo_config_sel [simp]:
  "max_calls_per_window demo_config = 1" "window_seconds demo_config = 60" "enabled demo_config"
  "failure_threshold demo_config = 1" "recovery_window_seconds demo_config = 30"
  "log_retention demo_config = 2" "burst_allowance demo_config = 0"
  by (simp_all add: demo_config_def)

lemma middleware_demo_inv: "middleware_inv demo"
proof -
  have "states_ok demo" by (simp add: states_ok_def hmap_ok_def breaker_ok_def)
  moreover have "configs_ok demo"
    by (auto simp: configs_ok_def get_configured_routes_def MAX_LOG_RETENTION_def word_le_nat_alt
        split: if_splits)
  moreover have "logs_ok demo" by (simp add: logs_ok_def)
  ultimately show ?thesis by (simp add: middleware_inv_def)
qed

lemma demo_admissible: "admissible (at_time t) c ''swap'' demo_config demo"
  by (simp add: admissible_def get_global_enabled_def)

theorem rate_limit_bound_witness:
  "admitted (Address 2) ''swap'' demo (replicate 9 (at_time 50, MPreCall (Address 2) ''swap'')) \<le> 3"
  using rate_limit_bound [OF middleware_demo_inv, of "Address 0" "''swap''" demo_config "Address 2" 3 5 50
      "replicate 9 (at_time 50, MPreCall (Address 2) ''swap'')"]
  by (simp add: effective_limit_def get_rate_limit_strategy_def entry_def route_state_def Let_def)

lemma demo_post: "\<exists>s'. post_call (at_time 20) (Address 1) ''swap'' False demo = Inr ((), s')"
  by (simp add: post_call_def log_append_def ring_push_def summary_add_def handle_failure_def
      checked_add_def Let_def)

theorem breaker_refines_witness:
  "\<exists>s'. post_call (at_time 20) (Address 1) ''swap'' False demo = Inr ((), s')
     \<and> breaker_step 1 (Report False) Open (view_of (circuit_breaker (route_state s' ''swap'')))"
proof -
  obtain s' where s': "post_call (at_time 20) (Address 1) ''swap'' False demo = Inr ((), s')"
    using demo_post by blast
  then have "middleware_step (at_time 20) (MPostCall (Address 1) ''swap'' False) demo = Inr s'"
    by (simp add: returns_def)
  moreover have "view_of (circuit_breaker (route_state demo ''swap'')) = Open"
    by (simp add: route_state_def view_of_def)
  ultimately show ?thesis
    using breaker_refines [OF middleware_demo_inv, of "''swap''" demo_config "at_time 20"
        "MPostCall (Address 1) ''swap'' False" s' "Address 1" "''swap''" False] s' by simp
qed

theorem breaker_view_predicts_witness:
  "pre_call (at_time 20) (Address 1) ''swap'' demo = Inl (Err CircuitOpen)"
  using breaker_view_predicts [OF middleware_demo_inv demo_admissible, of 20 "Address 1"]
  by (simp add: get_circuit_breaker_state_def recovery_elapsed_def saturating_add_def word_conv Let_def)

theorem call_log_queue_witness:
  "\<exists>s'. post_call (at_time 20) (Address 1) ''swap'' False demo = Inr ((), s')
     \<and> get_call_log ''swap'' s' = Inr [\<lparr>cl_caller = Address 1, cl_timestamp = 20, cl_success = False,
          cl_route = ''swap''\<rparr>]"
proof -
  obtain s' where s': "post_call (at_time 20) (Address 1) ''swap'' False demo = Inr ((), s')"
    using demo_post by blast
  with call_log_queue [OF middleware_demo_inv _ _ s', of demo_config] show ?thesis
    by (simp add: get_call_log_def get_call_log_internal_def queue_push_def)
qed

theorem override_view_predicts_witness:
  "\<exists>s'. pre_call (at_time 50) (Address 2) ''swap'' demo = Inr ((), s')"
  using override_view_predicts [OF middleware_demo_inv demo_admissible, of 50 "Address 2"
      "\<lparr>max_calls = 3, window_secs = 5\<rparr>"]
  by (simp add: get_circuit_breaker_state_def recovery_elapsed_def saturating_add_def word_conv Let_def
      get_rate_limit_strategy_def get_total_calls_def check_caller_rate_limit_def)

text \<open>
  Without an override \<open>check_caller_rate_limit\<close> looks at nothing: caller 1 has used up the limit of
  the route, the view still answers that the next \<open>pre_call\<close> would pass, and it is rejected.
\<close>

lemma check_caller_ignores_route_limit:
  "check_caller_rate_limit (at_time 50) ''swap'' (Address 1) demo
     \<and> \<not> (\<exists>s'. pre_call (at_time 50) (Address 1) ''swap'' demo = Inr ((), s'))"
proof -
  have "\<not> fst (transit (at_time 50) demo_config (route_state demo ''swap''))"
    by (simp add: transit_def check_and_transition_def route_state_def recovery_elapsed_def
        saturating_add_def word_conv)
  then show ?thesis
    using pre_call_within_limit [OF demo_admissible middleware_demo_inv, of 50 "Address 1" 1 60]
    by (simp add: effective_limit_def get_rate_limit_strategy_def get_total_calls_def entry_def
        route_state_def usage_def window_elapsed_def saturating_add_def word_conv
        check_caller_rate_limit_def Let_def)
qed

end
