(* ===== verification/Access.thy ===== *)
theory Access
  imports Common
begin

text \<open>
  The contract router-access (\<open>contracts/router-access/src/lib.rs\<close>): roles granted to
  addresses, with an expiry per grant, one parent per role from which holders of the parent
  inherit the role, a blacklist, and three indices kept beside the grants (the members of a role,
  the roles of an address, the member count of a role).

  The body of \<open>grant_role_internal\<close> holds both sides of an unresolved merge and does not
  parse. Its checks up to the duplicate test are common to both sides (\<open>grant_checks\<close>). For
  the rest the model follows the side whose order the comment in the function asks for: the cap
  on members, the tracking of the role name, then \<open>activate_role_grant\<close> and the event.
\<close>

subsection \<open>State\<close>

datatype access_error = AlreadyInitialized | NotInitialized | Unauthorized | AlreadyHasRole
  | RoleNotFound | Blacklisted | CannotBlacklistAdmin | DestinationAlreadyHasRole
  | HierarchyCycle | InvalidExpiry | HierarchyTooDeep | MaxRolesExceeded
  | MaxGrantsPerRoleExceeded

text \<open>
  One field per storage key; \<open>admin_key\<close> is \<open>DataKey::SuperAdmin\<close>. The list-valued keys
  read as empty when absent, as every reader of them does.
\<close>

record access = contract +
  has_role_key :: "string \<Rightarrow> address \<Rightarrow> bool option"
  role_admin :: "string \<Rightarrow> address option"
  blacklisted_key :: "address \<Rightarrow> bool option"
  role_members :: "string \<Rightarrow> address list"
  role_member_count :: "string \<Rightarrow> u32 option"
  address_roles :: "address \<Rightarrow> string list"
  role_expiry :: "string \<Rightarrow> address \<Rightarrow> u64 option"
  role_parent :: "string \<Rightarrow> string option"
  all_roles :: "string list"
  role_limits :: "(u32 \<times> u32) option"

definition access_empty :: access where
  "access_empty = \<lparr>admin_key = None, events = [], has_role_key = (\<lambda>_. Map.empty),
     role_admin = Map.empty, blacklisted_key = Map.empty, role_members = (\<lambda>_. []),
     role_member_count = Map.empty, address_roles = (\<lambda>_. []), role_expiry = (\<lambda>_. Map.empty),
     role_parent = Map.empty, all_roles = [], role_limits = None\<rparr>"

definition MAX_HIERARCHY_DEPTH :: nat where
  "MAX_HIERARCHY_DEPTH = 16"

definition DEFAULT_MAX_ROLES :: u32 where
  "DEFAULT_MAX_ROLES = 100"

definition DEFAULT_MAX_GRANTS_PER_ROLE :: u32 where
  "DEFAULT_MAX_GRANTS_PER_ROLE = 1000"

definition U64_MAX :: u64 where
  "U64_MAX = - 1"

subsection \<open>Who holds a role\<close>

definition is_blacklisted :: "address \<Rightarrow> access \<Rightarrow> bool" where
  "is_blacklisted target s = unwrap_or (blacklisted_key s target) False"

text \<open>The expiry is the last second at which the grant is valid.\<close>

definition has_direct_role_internal :: "env \<Rightarrow> access \<Rightarrow> address \<Rightarrow> string \<Rightarrow> bool" where
  "has_direct_role_internal env s account role \<longleftrightarrow>
     unwrap_or (has_role_key s role account) False
     \<and> (case role_expiry s role account of
          Some expires_at \<Rightarrow> \<not> timestamp env > expires_at | None \<Rightarrow> True)"

text \<open>The walk up the parents; \<open>depth\<close> counts the roles visited.\<close>

function has_role_walk :: "env \<Rightarrow> access \<Rightarrow> address \<Rightarrow> string \<Rightarrow> nat \<Rightarrow> bool" where
  "has_role_walk env s account current depth =
     (if has_direct_role_internal env s account current then True
      else if depth + 1 \<ge> MAX_HIERARCHY_DEPTH then False
      else (case role_parent s current of
              Some parent \<Rightarrow> has_role_walk env s account parent (depth + 1)
            | None \<Rightarrow> False))"
  by pat_completeness auto

termination
  by (relation "measure (\<lambda>(env, s, account, current, depth). MAX_HIERARCHY_DEPTH - depth)") auto

declare has_role_walk.simps [simp del]

definition has_role_internal :: "env \<Rightarrow> access \<Rightarrow> address \<Rightarrow> string \<Rightarrow> bool" where
  "has_role_internal env s account role \<longleftrightarrow>
     \<not> is_blacklisted account s \<and> has_role_walk env s account role 0"

subsection \<open>Permission checks\<close>

definition require_super_admin :: "address \<Rightarrow> access \<Rightarrow> (access_error, unit) res" where
  "require_super_admin caller s =
     bindr (reject_if (is_blacklisted caller s) Blacklisted) (\<lambda>_.
     bindr (ok_or (admin_key s) NotInitialized) (\<lambda>admin.
     reject_if (admin \<noteq> caller) Unauthorized))"

definition require_role_manager ::
    "address \<Rightarrow> string \<Rightarrow> access \<Rightarrow> (access_error, unit) res" where
  "require_role_manager caller role s =
     bindr (reject_if (is_blacklisted caller s) Blacklisted) (\<lambda>_.
     bindr (ok_or (admin_key s) NotInitialized) (\<lambda>admin.
     if admin = caller then Inr ()
     else (case role_admin s role of
             Some a \<Rightarrow> if a = caller then Inr () else Inl (Err Unauthorized)
           | None \<Rightarrow> Inl (Err Unauthorized))))"

subsection \<open>Bookkeeping of a grant\<close>

definition role_limits_internal :: "access \<Rightarrow> u32 \<times> u32" where
  "role_limits_internal s =
     unwrap_or (role_limits s) (DEFAULT_MAX_ROLES, DEFAULT_MAX_GRANTS_PER_ROLE)"

definition track_role_in_all_roles :: "string \<Rightarrow> access \<Rightarrow> (access_error, access) res" where
  "track_role_in_all_roles role s =
     (if role \<notin> set (all_roles s) then
        (case role_limits_internal s of (max_roles, _) \<Rightarrow>
           bindr (reject_if (length (all_roles s) \<ge> unat max_roles) MaxRolesExceeded) (\<lambda>_.
           Inr (s\<lparr>all_roles := all_roles s @ [role]\<rparr>)))
      else Inr s)"

text \<open>\<open>remove1\<close> is the removal at the first matching position, if any.\<close>

definition deactivate_role_grant :: "env \<Rightarrow> string \<Rightarrow> address \<Rightarrow> access \<Rightarrow> access" where
  "deactivate_role_grant env role target s =
     (let was_active = has_role_internal env s target role;
          s1 = s\<lparr>has_role_key := (has_role_key s)(role := (has_role_key s role)(target := None))\<rparr>;
          s2 = (if was_active then
                  s1\<lparr>role_member_count := (role_member_count s1)(role \<mapsto>
                     saturating_sub (unwrap_or (role_member_count s1 role) 0) 1)\<rparr>
                else s1);
          s3 = s2\<lparr>role_members := (role_members s2)(role := remove1 target (role_members s2 role))\<rparr>;
          s4 = s3\<lparr>address_roles :=
                 (address_roles s3)(target := remove1 role (address_roles s3 target))\<rparr>
      in s4\<lparr>role_expiry := (role_expiry s4)(role := (role_expiry s4 role)(target := None))\<rparr>)"

definition activate_role_grant ::
    "string \<Rightarrow> address \<Rightarrow> u64 \<Rightarrow> bool \<Rightarrow> access \<Rightarrow> access" where
  "activate_role_grant role account expiry_timestamp was_already_active s =
     (let s1 = s\<lparr>has_role_key :=
                 (has_role_key s)(role := (has_role_key s role)(account \<mapsto> True))\<rparr>;
          members = role_members s1 role;
          s2 = s1\<lparr>role_members := (role_members s1)(role :=
                 if account \<notin> set members then members @ [account] else members)\<rparr>;
          s3 = (if \<not> was_already_active then
                  s2\<lparr>role_member_count := (role_member_count s2)(role \<mapsto>
                     saturating_add (unwrap_or (role_member_count s2 role) 0) 1)\<rparr>
                else s2);
          roles = address_roles s3 account;
          s4 = s3\<lparr>address_roles := (address_roles s3)(account :=
                 if role \<notin> set roles then roles @ [role] else roles)\<rparr>
      in s4\<lparr>role_expiry :=
              (role_expiry s4)(role := (role_expiry s4 role)(account \<mapsto> expiry_timestamp))\<rparr>)"

definition adjust_role_member_counts_for_blacklist_change ::
    "env \<Rightarrow> address \<Rightarrow> bool \<Rightarrow> access \<Rightarrow> access" where
  "adjust_role_member_counts_for_blacklist_change env target increment s =
     fold (\<lambda>role s.
        if has_direct_role_internal env s target role then
          (let current = unwrap_or (role_member_count s role) 0;
               new_count = (if increment then saturating_add current 1
                            else saturating_sub current 1)
           in s\<lparr>role_member_count := (role_member_count s)(role \<mapsto> new_count)\<rparr>)
        else s)
       (address_roles s target) s"

text \<open>The walk of \<open>ensure_no_role_parent_cycle\<close>; the new edge itself has depth 1.\<close>

function parent_walk :: "access \<Rightarrow> string \<Rightarrow> string \<Rightarrow> nat \<Rightarrow> (access_error, unit) res" where
  "parent_walk s role current depth =
     (if current = role then Inl (Err HierarchyCycle)
      else if depth \<ge> MAX_HIERARCHY_DEPTH then Inl (Err HierarchyTooDeep)
      else (case role_parent s current of
              Some parent \<Rightarrow> parent_walk s role parent (depth + 1)
            | None \<Rightarrow> Inr ()))"
  by pat_completeness auto

termination
  by (relation "measure (\<lambda>(s, role, current, depth). MAX_HIERARCHY_DEPTH - depth)") auto

declare parent_walk.simps [simp del]

definition ensure_no_role_parent_cycle ::
    "string \<Rightarrow> string \<Rightarrow> access \<Rightarrow> (access_error, unit) res" where
  "ensure_no_role_parent_cycle role parent_role s = parent_walk s role parent_role 1"

subsection \<open>Granting\<close>

text \<open>
  The checks that come first: the expiry of the grant and whether the account holds the role
  through an assignment that exists.
\<close>

definition grant_checks ::
    "env \<Rightarrow> address \<Rightarrow> string \<Rightarrow> u64 option \<Rightarrow> access \<Rightarrow> (access_error, u64 \<times> bool) res" where
  "grant_checks env account role expires_in s =
     bindr (reject_if (is_blacklisted account s) Blacklisted) (\<lambda>_.
     let has_raw_assignment = (has_role_key s role account \<noteq> None) in
     bindr (case expires_in of
              Some seconds \<Rightarrow> ok_or (checked_add (timestamp env) seconds) InvalidExpiry
            | None \<Rightarrow> Inr U64_MAX) (\<lambda>expiry_timestamp.
     let currently_active = has_raw_assignment \<and> has_role_internal env s account role in
     bindr (reject_if (currently_active
              \<and> unwrap_or (role_expiry s role account) U64_MAX = expiry_timestamp) AlreadyHasRole)
       (\<lambda>_. Inr (expiry_timestamp, currently_active))))"

definition check_grant_cap :: "address \<Rightarrow> string \<Rightarrow> access \<Rightarrow> (access_error, unit) res" where
  "check_grant_cap account role s =
     (if account \<notin> set (role_members s role) then
        (case role_limits_internal s of (_, max_grants) \<Rightarrow>
           reject_if (unwrap_or (role_member_count s role) 0 \<ge> max_grants) MaxGrantsPerRoleExceeded)
      else Inr ())"

definition grant_role_internal ::
    "env \<Rightarrow> string \<Rightarrow> u64 option \<Rightarrow> address \<Rightarrow> access \<Rightarrow> (access_error, access) res" where
  "grant_role_internal env role expires_in account s =
     bindr (grant_checks env account role expires_in s) (\<lambda>(expiry_timestamp, currently_active).
     bindr (check_grant_cap account role s) (\<lambda>_.
     bindr (track_role_in_all_roles role s) (\<lambda>s1.
     Inr (publish ''role_granted'' (VTuple [VAddr account, VStr role, VU64 expiry_timestamp])
            (activate_role_grant role account expiry_timestamp currently_active s1)))))"

fun access_error_to_batch :: "access_error \<Rightarrow> batch_item_error" where
  "access_error_to_batch AlreadyHasRole = AlreadyExists"
| "access_error_to_batch Unauthorized = batch_item_error.Unauthorized"
| "access_error_to_batch Blacklisted = Custom ''Blacklisted''"
| "access_error_to_batch InvalidExpiry = Custom ''InvalidExpiry''"
| "access_error_to_batch AlreadyInitialized = Custom ''AlreadyInitialized''"
| "access_error_to_batch NotInitialized = Custom ''NotInitialized''"
| "access_error_to_batch RoleNotFound = Custom ''RoleNotFound''"
| "access_error_to_batch CannotBlacklistAdmin = Custom ''CannotBlacklistAdmin''"
| "access_error_to_batch DestinationAlreadyHasRole = Custom ''DestinationAlreadyHasRole''"
| "access_error_to_batch HierarchyCycle = Custom ''HierarchyCycle''"
| "access_error_to_batch HierarchyTooDeep = Custom ''HierarchyTooDeep''"
| "access_error_to_batch MaxRolesExceeded = Custom ''MaxRolesExceeded''"
| "access_error_to_batch MaxGrantsPerRoleExceeded = Custom ''MaxGrantsPerRoleExceeded''"

subsection \<open>Entry points\<close>

definition access_initialize :: "address \<Rightarrow> access \<Rightarrow> (access_error, unit, access) tx" where
  "access_initialize super_admin s =
     (if admin_key s \<noteq> None then Inl (Err AlreadyInitialized)
      else Inr ((), s\<lparr>admin_key := Some super_admin\<rparr>))"

definition set_role_limits ::
    "env \<Rightarrow> address \<Rightarrow> u32 option \<Rightarrow> u32 option \<Rightarrow> access \<Rightarrow> (access_error, unit, access) tx" where
  "set_role_limits env caller max_roles max_grants_per_role s =
     bindr (require_auth env caller) (\<lambda>_.
     bindr (require_super_admin caller s) (\<lambda>_.
     let effective_max_roles = unwrap_or max_roles DEFAULT_MAX_ROLES;
         effective_max_grants = unwrap_or max_grants_per_role DEFAULT_MAX_GRANTS_PER_ROLE
     in Inr ((), publish ''role_limits_set''
                   (VTuple [VU32 effective_max_roles, VU32 effective_max_grants])
                   (s\<lparr>role_limits := Some (effective_max_roles, effective_max_grants)\<rparr>))))"

definition grant_role ::
    "env \<Rightarrow> address \<Rightarrow> address \<Rightarrow> string \<Rightarrow> u64 option \<Rightarrow> access \<Rightarrow> (access_error, unit, access) tx" where
  "grant_role env admin account role expires_in s =
     bindr (require_auth env admin) (\<lambda>_.
     bindr (require_role_manager admin role s) (\<lambda>_.
     bindr (grant_role_internal env role expires_in account s) (\<lambda>s'. Inr ((), s'))))"

definition grant_role_batch ::
    "env \<Rightarrow> address \<Rightarrow> address list \<Rightarrow> string \<Rightarrow> u64 option \<Rightarrow> bool \<Rightarrow> access
      \<Rightarrow> (access_error, batch_result, access) tx" where
  "grant_role_batch env admin accounts role expires_in fail_fast s =
     bindr (require_auth env admin) (\<lambda>_.
     bindr (require_role_manager admin role s) (\<lambda>_.
     batch_loop (grant_role_internal env role expires_in) access_error_to_batch fail_fast 0
       accounts s batch_new))"

definition revoke_role ::
    "env \<Rightarrow> address \<Rightarrow> string \<Rightarrow> address \<Rightarrow> access \<Rightarrow> (access_error, unit, access) tx" where
  "revoke_role env caller role target s =
     bindr (require_auth env caller) (\<lambda>_.
     bindr (require_role_manager caller role s) (\<lambda>_.
     bindr (reject_if (has_role_key s role target = None) RoleNotFound) (\<lambda>_.
     Inr ((), publish ''role_revoked'' (VTuple [VStr role, VAddr target])
                (deactivate_role_grant env role target s)))))"

definition set_role_admin ::
    "env \<Rightarrow> address \<Rightarrow> string \<Rightarrow> address \<Rightarrow> access \<Rightarrow> (access_error, unit, access) tx" where
  "set_role_admin env caller role admin s =
     bindr (require_auth env caller) (\<lambda>_.
     bindr (require_super_admin caller s) (\<lambda>_.
     bindr (reject_if (is_blacklisted admin s) Blacklisted) (\<lambda>_.
     bindr (track_role_in_all_roles role s) (\<lambda>s1.
     Inr ((), publish ''role_admin_set'' (VTuple [VStr role, VAddr admin])
                (s1\<lparr>role_admin := (role_admin s1)(role \<mapsto> admin)\<rparr>))))))"

definition set_role_parent ::
    "env \<Rightarrow> address \<Rightarrow> string \<Rightarrow> string \<Rightarrow> access \<Rightarrow> (access_error, unit, access) tx" where
  "set_role_parent env caller role parent_role s =
     bindr (require_auth env caller) (\<lambda>_.
     bindr (require_super_admin caller s) (\<lambda>_.
     bindr (ensure_no_role_parent_cycle role parent_role s) (\<lambda>_.
     bindr (track_role_in_all_roles role s) (\<lambda>s1.
     bindr (track_role_in_all_roles parent_role s1) (\<lambda>s2.
     Inr ((), publish ''role_parent_set'' (VTuple [VStr role, VStr parent_role])
                (s2\<lparr>role_parent := (role_parent s2)(role \<mapsto> parent_role)\<rparr>)))))))"

definition blacklist ::
    "env \<Rightarrow> address \<Rightarrow> address \<Rightarrow> access \<Rightarrow> (access_error, unit, access) tx" where
  "blacklist env caller target s =
     bindr (require_auth env caller) (\<lambda>_.
     bindr (require_super_admin caller s) (\<lambda>_.
     bindr (reject_if (target = caller) CannotBlacklistAdmin) (\<lambda>_.
     if is_blacklisted target s then Inr ((), s)
     else
       let s1 = adjust_role_member_counts_for_blacklist_change env target False s
       in Inr ((), publish ''address_blacklisted'' (VAddr target)
                     (s1\<lparr>blacklisted_key := (blacklisted_key s1)(target \<mapsto> True)\<rparr>)))))"

definition unblacklist ::
    "env \<Rightarrow> address \<Rightarrow> address \<Rightarrow> access \<Rightarrow> (access_error, unit, access) tx" where
  "unblacklist env caller target s =
     bindr (require_auth env caller) (\<lambda>_.
     bindr (require_super_admin caller s) (\<lambda>_.
     if \<not> is_blacklisted target s then Inr ((), s)
     else
       let s1 = s\<lparr>blacklisted_key := (blacklisted_key s)(target := None)\<rparr>;
           s2 = adjust_role_member_counts_for_blacklist_change env target True s1
       in Inr ((), publish ''address_unblacklisted'' (VAddr target) s2)))"

definition transfer_role_membership ::
    "env \<Rightarrow> address \<Rightarrow> string \<Rightarrow> address \<Rightarrow> address \<Rightarrow> access \<Rightarrow> (access_error, unit, access) tx" where
  "transfer_role_membership env caller role from to s =
     bindr (require_auth env caller) (\<lambda>_.
     bindr (require_role_manager caller role s) (\<lambda>_.
     bindr (reject_if (\<not> has_role_internal env s from role) RoleNotFound) (\<lambda>_.
     if from = to then Inr ((), s)
     else
       bindr (reject_if (has_role_internal env s to role) DestinationAlreadyHasRole) (\<lambda>_.
       bindr (ok_or (role_expiry s role from) RoleNotFound) (\<lambda>expiry.
       bindr (reject_if (is_blacklisted to s) Blacklisted) (\<lambda>_.
       let s1 = deactivate_role_grant env role from s in
       bindr (track_role_in_all_roles role s1) (\<lambda>s2.
       let s3 = activate_role_grant role to expiry False s2;
           s4 = publish ''role_granted'' (VTuple [VAddr to, VStr role, VU64 expiry]) s3
       in Inr ((), publish ''role_revoked'' (VTuple [VStr role, VAddr from]) s4))))))))"

definition transfer_super_admin ::
    "env \<Rightarrow> address \<Rightarrow> address \<Rightarrow> access \<Rightarrow> (access_error, unit, access) tx" where
  "transfer_super_admin env current new_admin s =
     bindr (require_auth env current) (\<lambda>_.
     bindr (require_super_admin current s) (\<lambda>_.
     bindr (reject_if (is_blacklisted new_admin s) Blacklisted) (\<lambda>_.
     Inr ((), publish ''admin_transferred'' (VTuple [VAddr current, VAddr new_admin])
                (s\<lparr>admin_key := Some new_admin\<rparr>)))))"

definition expire_role ::
    "env \<Rightarrow> address \<Rightarrow> string \<Rightarrow> address \<Rightarrow> access \<Rightarrow> (access_error, unit, access) tx" where
  "expire_role env caller role target s =
     bindr (require_auth env caller) (\<lambda>_.
     bindr (require_super_admin caller s) (\<lambda>_.
     bindr (reject_if (has_role_key s role target = None) RoleNotFound) (\<lambda>_.
     Inr ((), publish ''role_expired'' (VTuple [VStr role, VAddr target])
                (deactivate_role_grant env role target s)))))"

subsection \<open>Views\<close>

definition get_role_limits :: "access \<Rightarrow> u32 \<times> u32" where
  "get_role_limits s = role_limits_internal s"

definition has_role :: "env \<Rightarrow> address \<Rightarrow> string \<Rightarrow> access \<Rightarrow> bool" where
  "has_role env account role s = has_role_internal env s account role"

definition is_role_expired :: "env \<Rightarrow> string \<Rightarrow> address \<Rightarrow> access \<Rightarrow> bool" where
  "is_role_expired env role target s =
     (if has_role_internal env s target role then False
      else (case role_expiry s role target of
              Some expires_at \<Rightarrow> timestamp env > expires_at | None \<Rightarrow> False))"

definition get_role_member_count :: "string \<Rightarrow> access \<Rightarrow> u32" where
  "get_role_member_count role s = unwrap_or (role_member_count s role) 0"

definition get_role_expiry :: "string \<Rightarrow> address \<Rightarrow> access \<Rightarrow> u64 option" where
  "get_role_expiry role target s = role_expiry s role target"

definition get_role_admin :: "string \<Rightarrow> access \<Rightarrow> address option" where
  "get_role_admin role s = role_admin s role"

definition get_role_parent :: "string \<Rightarrow> access \<Rightarrow> string option" where
  "get_role_parent role s = role_parent s role"

definition list_all_roles :: "access \<Rightarrow> string list" where
  "list_all_roles s = all_roles s"

definition get_role_members :: "env \<Rightarrow> string \<Rightarrow> access \<Rightarrow> address list" where
  "get_role_members env role s =
     filter (\<lambda>member. has_role_internal env s member role) (role_members s role)"

definition get_roles_for_address :: "address \<Rightarrow> access \<Rightarrow> string list" where
  "get_roles_for_address addr s = address_roles s addr"

definition super_admin :: "access \<Rightarrow> (access_error, address) res" where
  "super_admin s = ok_or (admin_key s) NotInitialized"

subsection \<open>The contract as a machine\<close>

datatype access_call = AInitialize address
  | ASetLimits address "u32 option" "u32 option"
  | AGrant address address string "u64 option"
  | AGrantBatch address "address list" string "u64 option" bool
  | ARevoke address string address
  | ASetRoleAdmin address string address
  | ASetRoleParent address string string
  | ABlacklist address address
  | AUnblacklist address address
  | ATransferMembership address string address address
  | ATransferSuperAdmin address address
  | AExpire address string address

fun access_step :: "env \<Rightarrow> access_call \<Rightarrow> access \<Rightarrow> (access_error, access) res" where
  "access_step env (AInitialize a) s = returns (access_initialize a s)"
| "access_step env (ASetLimits c r g) s = returns (set_role_limits env c r g s)"
| "access_step env (AGrant c a r e) s = returns (grant_role env c a r e s)"
| "access_step env (AGrantBatch c as r e ff) s = returns (grant_role_batch env c as r e ff s)"
| "access_step env (ARevoke c r t) s = returns (revoke_role env c r t s)"
| "access_step env (ASetRoleAdmin c r a) s = returns (set_role_admin env c r a s)"
| "access_step env (ASetRoleParent c r p) s = returns (set_role_parent env c r p s)"
| "access_step env (ABlacklist c t) s = returns (blacklist env c t s)"
| "access_step env (AUnblacklist c t) s = returns (unblacklist env c t s)"
| "access_step env (ATransferMembership c r f t) s =
     returns (transfer_role_membership env c r f t s)"
| "access_step env (ATransferSuperAdmin c n) s = returns (transfer_super_admin env c n s)"
| "access_step env (AExpire c r t) s = returns (expire_role env c r t s)"

end
