(* ===== verification/Access_Props.thy ===== *)
theory Access_Props
  imports Access
begin

text \<open>
  Correctness of router-access: the storage invariant (the three indices agree with the grants,
  the hierarchy is acyclic, the super-admin is never blacklisted), the walk up the hierarchy
  against its specification as a closure, who may change what, the effect of revocation and
  transfer, and the member count.
\<close>

subsection \<open>Writers, field by field\<close>

lemma publish_access [simp]:
  "has_role_key (publish t d s) = has_role_key s" "role_admin (publish t d s) = role_admin s"
  "blacklisted_key (publish t d s) = blacklisted_key s"
  "role_members (publish t d s) = role_members s"
  "role_member_count (publish t d s) = role_member_count s"
  "address_roles (publish t d s) = address_roles s" "role_expiry (publish t d s) = role_expiry s"
  "role_parent (publish t d s) = role_parent s" "all_roles (publish t d s) = all_roles s"
  "role_limits (publish t d s) = role_limits s"
  by (simp_all add: publish_def)

lemma deactivate_sel [simp]:
  "admin_key (deactivate_role_grant env r t s) = admin_key s"
  "events (deactivate_role_grant env r t s) = events s"
  "role_admin (deactivate_role_grant env r t s) = role_admin s"
  "blacklisted_key (deactivate_role_grant env r t s) = blacklisted_key s"
  "role_parent (deactivate_role_grant env r t s) = role_parent s"
  "all_roles (deactivate_role_grant env r t s) = all_roles s"
  "role_limits (deactivate_role_grant env r t s) = role_limits s"
  "has_role_key (deactivate_role_grant env r t s) =
     (has_role_key s)(r := (has_role_key s r)(t := None))"
  "role_members (deactivate_role_grant env r t s) =
     (role_members s)(r := remove1 t (role_members s r))"
  "address_roles (deactivate_role_grant env r t s) =
     (address_roles s)(t := remove1 r (address_roles s t))"
  "role_expiry (deactivate_role_grant env r t s) =
     (role_expiry s)(r := (role_expiry s r)(t := None))"
  "role_member_count (deactivate_role_grant env r t s) =
     (if has_role_internal env s t r
      then (role_member_count s)(r \<mapsto> saturating_sub (unwrap_or (role_member_count s r) 0) 1)
      else role_member_count s)"
  by (simp_all add: deactivate_role_grant_def Let_def)

lemma activate_sel [simp]:
  "admin_key (activate_role_grant r a e w s) = admin_key s"
  "events (activate_role_grant r a e w s) = events s"
  "role_admin (activate_role_grant r a e w s) = role_admin s"
  "blacklisted_key (activate_role_grant r a e w s) = blacklisted_key s"
  "role_parent (activate_role_grant r a e w s) = role_parent s"
  "all_roles (activate_role_grant r a e w s) = all_roles s"
  "role_limits (activate_role_grant r a e w s) = role_limits s"
  "has_role_key (activate_role_grant r a e w s) =
     (has_role_key s)(r := (has_role_key s r)(a \<mapsto> True))"
  "role_members (activate_role_grant r a e w s) = (role_members s)(r :=
     if a \<in> set (role_members s r) then role_members s r else role_members s r @ [a])"
  "address_roles (activate_role_grant r a e w s) = (address_roles s)(a :=
     if r \<in> set (address_roles s a) then address_roles s a else address_roles s a @ [r])"
  "role_expiry (activate_role_grant r a e w s) =
     (role_expiry s)(r := (role_expiry s r)(a \<mapsto> e))"
  "role_member_count (activate_role_grant r a e w s) =
     (if w then role_member_count s
      else (role_member_count s)(r \<mapsto> saturating_add (unwrap_or (role_member_count s r) 0) 1))"
  by (simp_all add: activate_role_grant_def Let_def)

lemma track_role_Inr_iff [res_simps]:
  "track_role_in_all_roles r s = Inr s' \<longleftrightarrow>
     (r \<in> set (all_roles s) \<or> length (all_roles s) < unat (fst (role_limits_internal s)))
     \<and> s' = s\<lparr>all_roles := if r \<in> set (all_roles s) then all_roles s else all_roles s @ [r]\<rparr>"
  by (cases "role_limits_internal s") (auto simp: track_role_in_all_roles_def res_simps)

lemma require_super_admin_Inr_iff [res_simps]:
  "require_super_admin c s = Inr u \<longleftrightarrow> \<not> is_blacklisted c s \<and> admin_key s = Some c"
  by (auto simp: require_super_admin_def res_simps)

lemma require_role_manager_Inr_iff [res_simps]:
  "require_role_manager c r s = Inr u \<longleftrightarrow> \<not> is_blacklisted c s \<and> admin_key s \<noteq> None
     \<and> (admin_key s = Some c \<or> role_admin s r = Some c)"
  by (auto simp: require_role_manager_def res_simps split: option.splits if_splits)

lemma has_direct_cong:
  "has_role_key s' = has_role_key s \<Longrightarrow> role_expiry s' = role_expiry s \<Longrightarrow>
     has_direct_role_internal env s' = has_direct_role_internal env s"
  by (simp add: has_direct_role_internal_def fun_eq_iff)

text \<open>The two adjustments touch the counts only.\<close>

definition adjusted :: "bool \<Rightarrow> u32 \<Rightarrow> u32" where
  "adjusted increment n = (if increment then saturating_add n 1 else saturating_sub n 1)"

lemma adjust_fold:
  assumes "distinct roles"
  shows "fold (\<lambda>role s.
        if has_direct_role_internal env s t role then
          (let current = unwrap_or (role_member_count s role) 0;
               new_count = (if inc then saturating_add current 1 else saturating_sub current 1)
           in s\<lparr>role_member_count := (role_member_count s)(role \<mapsto> new_count)\<rparr>)
        else s) roles s
     = s\<lparr>role_member_count := (\<lambda>r. if r \<in> set roles \<and> has_direct_role_internal env s t r
           then Some (adjusted inc (unwrap_or (role_member_count s r) 0))
           else role_member_count s r)\<rparr>"
  using assms
proof (induction roles arbitrary: s)
  case (Cons x xs)
  have direct: "has_direct_role_internal env (s\<lparr>role_member_count := c\<rparr>) t
      = has_direct_role_internal env s t" for c
    by (rule fun_cong [OF has_direct_cong]) simp_all
  show ?case
    using Cons.prems
    by (cases "has_direct_role_internal env s t x")
      (auto simp: Cons.IH direct Let_def adjusted_def fun_eq_iff intro!: access.equality)
qed simp

lemma adjust_eq:
  "distinct (address_roles s t) \<Longrightarrow>
   adjust_role_member_counts_for_blacklist_change env t inc s =
     s\<lparr>role_member_count := (\<lambda>r. if r \<in> set (address_roles s t) \<and> has_direct_role_internal env s t r
           then Some (adjusted inc (unwrap_or (role_member_count s r) 0))
           else role_member_count s r)\<rparr>"
  unfolding adjust_role_member_counts_for_blacklist_change_def by (rule adjust_fold)

subsection \<open>The walk up the hierarchy\<close>

definition parent_edge :: "access \<Rightarrow> string \<Rightarrow> string \<Rightarrow> bool" where
  "parent_edge s r p \<longleftrightarrow> role_parent s r = Some p"

lemma edge_iff:
  "role_parent s r = Some p \<Longrightarrow> parent_edge s r x \<longleftrightarrow> x = p"
  "role_parent s r = None \<Longrightarrow> \<not> parent_edge s r x"
  by (auto simp: parent_edge_def)

text \<open>The specification: a valid direct grant of the role or of one of its ancestors.\<close>

definition inherits :: "env \<Rightarrow> access \<Rightarrow> address \<Rightarrow> string \<Rightarrow> bool" where
  "inherits env s a r \<longleftrightarrow> (\<exists>q. (parent_edge s)\<^sup>*\<^sup>* r q \<and> has_direct_role_internal env s a q)"

lemma walk_iff:
  "depth < MAX_HIERARCHY_DEPTH \<Longrightarrow> has_role_walk env s a r depth \<longleftrightarrow>
     (\<exists>k q. depth + k < MAX_HIERARCHY_DEPTH \<and> (parent_edge s ^^ k) r q
        \<and> has_direct_role_internal env s a q)"
proof (induction env s a r depth rule: has_role_walk.induct)
  case (1 env s a r depth)
  let ?found = "\<lambda>d k q. d + k < MAX_HIERARCHY_DEPTH \<and> (parent_edge s ^^ k) r q
        \<and> has_direct_role_internal env s a q"
  have split: "(\<exists>k q. ?found depth k q) \<longleftrightarrow> has_direct_role_internal env s a r
      \<or> (\<exists>p k q. parent_edge s r p \<and> Suc depth + k < MAX_HIERARCHY_DEPTH
           \<and> (parent_edge s ^^ k) p q \<and> has_direct_role_internal env s a q)" (is "?l \<longleftrightarrow> ?d \<or> ?r")
  proof
    assume ?l
    then obtain k q where k: "?found depth k q" by blast
    show "?d \<or> ?r"
    proof (cases k)
      case 0
      with k show ?thesis by simp
    next
      case (Suc n)
      with k have "(parent_edge s ^^ Suc n) r q" by simp
      then obtain p where "parent_edge s r p" "(parent_edge s ^^ n) p q"
        by (blast dest: relpowp_Suc_D2)
      with k Suc show ?thesis by auto
    qed
  next
    assume "?d \<or> ?r"
    then show ?l
    proof
      assume ?d
      with 1(2) have "?found depth 0 r" by simp
      then show ?l by blast
    next
      assume ?r
      then obtain p k q where "parent_edge s r p" "Suc depth + k < MAX_HIERARCHY_DEPTH"
        "(parent_edge s ^^ k) p q" "has_direct_role_internal env s a q" by blast
      moreover from this have "(parent_edge s ^^ Suc k) r q" by (blast intro: relpowp_Suc_I2)
      ultimately have "?found depth (Suc k) q" by simp
      then show ?l by blast
    qed
  qed
  show ?case
  proof (cases "has_direct_role_internal env s a r")
    case True
    with split show ?thesis by (simp add: has_role_walk.simps)
  next
    case False
    show ?thesis
    proof (cases "depth + 1 \<ge> MAX_HIERARCHY_DEPTH")
      case True
      then show ?thesis
        unfolding split by (subst has_role_walk.simps) (use False in simp)
    next
      case deep: False
      show ?thesis
      proof (cases "role_parent s r")
        case None
        then show ?thesis
          unfolding split by (subst has_role_walk.simps) (use False deep None in \<open>simp add: edge_iff\<close>)
      next
        case (Some p)
        with 1(1) [OF False deep Some] deep
        show ?thesis
          unfolding split by (subst has_role_walk.simps) (use False Some in \<open>simp add: edge_iff\<close>)
      qed
    qed
  qed
qed

lemma has_role_iff:
  "has_role_internal env s a r \<longleftrightarrow> \<not> is_blacklisted a s
     \<and> (\<exists>k q. k < MAX_HIERARCHY_DEPTH \<and> (parent_edge s ^^ k) r q \<and> has_direct_role_internal env s a q)"
  by (simp add: has_role_internal_def walk_iff [of 0] MAX_HIERARCHY_DEPTH_def)

lemma has_role_sound: "has_role_internal env s a r \<Longrightarrow> \<not> is_blacklisted a s \<and> inherits env s a r"
  unfolding has_role_iff inherits_def rtranclp_power by blast

lemma has_role_direct:
  "\<not> is_blacklisted a s \<Longrightarrow> has_direct_role_internal env s a r \<Longrightarrow> has_role_internal env s a r"
  unfolding has_role_iff MAX_HIERARCHY_DEPTH_def by (metis relpowp_0_I zero_less_numeral)

text \<open>An accepted edge: the chain above it ends in time and misses the child.\<close>

lemma edge_fun: "parent_edge s r p \<Longrightarrow> parent_edge s r q \<Longrightarrow> p = q"
  by (simp add: parent_edge_def)

lemma parent_walk_ok:
  "parent_walk s role cur depth = Inr () \<Longrightarrow>
     (\<exists>n apex. depth + n < MAX_HIERARCHY_DEPTH \<and> (parent_edge s ^^ n) cur apex \<and> role_parent s apex = None)
     \<and> \<not> (parent_edge s)\<^sup>*\<^sup>* cur role"
proof (induction s role cur depth rule: parent_walk.induct)
  case (1 s role cur depth)
  then have ne: "cur \<noteq> role" and d: "depth < MAX_HIERARCHY_DEPTH"
    by (simp_all add: parent_walk.simps [of s role cur] split: if_splits)
  show ?case
  proof (cases "role_parent s cur")
    case None
    have "\<not> (parent_edge s)\<^sup>*\<^sup>* cur role"
      using ne None by (auto elim: converse_rtranclpE simp: parent_edge_def)
    moreover have "(parent_edge s ^^ 0) cur cur" by simp
    ultimately show ?thesis using None d by (metis add_0_right)
  next
    case (Some p)
    with 1(2) ne d have w: "parent_walk s role p (depth + 1) = Inr ()"
      by (simp add: parent_walk.simps [of s role cur])
    from 1(1) [OF ne _ Some w] d obtain n apex where
      n: "depth + 1 + n < MAX_HIERARCHY_DEPTH" "(parent_edge s ^^ n) p apex" "role_parent s apex = None"
      and no: "\<not> (parent_edge s)\<^sup>*\<^sup>* p role" by auto
    from Some have e: "parent_edge s cur p" by (simp add: parent_edge_def)
    with n(2) have "(parent_edge s ^^ Suc n) cur apex" by (blast intro: relpowp_Suc_I2)
    moreover from n(1) have "depth + Suc n < MAX_HIERARCHY_DEPTH" by simp
    moreover have "\<not> (parent_edge s)\<^sup>*\<^sup>* cur role"
    proof
      assume "(parent_edge s)\<^sup>*\<^sup>* cur role"
      then show False
      proof (cases rule: converse_rtranclpE)
        case (step p')
        with e edge_fun no show ?thesis by blast
      qed (use ne in simp)
    qed
    ultimately show ?thesis using n(3) by blast
  qed
qed

text \<open>A chain that ends after \<open>n\<close> edges has no longer path.\<close>

lemma chain_bound:
  "(parent_edge s ^^ n) r apex \<Longrightarrow> role_parent s apex = None \<Longrightarrow> (parent_edge s)\<^sup>*\<^sup>* r q \<Longrightarrow>
     \<exists>k\<le>n. (parent_edge s ^^ k) r q"
proof (induction n arbitrary: r)
  case 0
  then show ?case by (auto elim: converse_rtranclpE simp: parent_edge_def)
next
  case (Suc n)
  from Suc.prems(1) obtain p where p: "parent_edge s r p" "(parent_edge s ^^ n) p apex"
    by (blast dest: relpowp_Suc_D2)
  from Suc.prems(3) show ?case
  proof (cases rule: converse_rtranclpE)
    case base
    then have "(parent_edge s ^^ 0) r q" by simp
    then show ?thesis by blast
  next
    case (step p')
    with p edge_fun have "(parent_edge s)\<^sup>*\<^sup>* p q" by blast
    from Suc.IH [OF p(2) Suc.prems(2) this] p(1) show ?thesis
      by (metis Suc_le_mono relpowp_Suc_I2)
  qed
qed

lemma has_role_exact:
  assumes "(parent_edge s ^^ n) r apex" and "role_parent s apex = None" and "n < MAX_HIERARCHY_DEPTH"
  shows "has_role_internal env s a r \<longleftrightarrow> \<not> is_blacklisted a s \<and> inherits env s a r"
  unfolding has_role_iff inherits_def
  using chain_bound [OF assms(1,2)] assms(3) by (meson le_less_trans relpowp_imp_rtranclp)

subsection \<open>The invariant\<close>

text \<open>The three indices describe the same set of grants.\<close>

definition grant_indexed :: "access \<Rightarrow> string \<Rightarrow> address \<Rightarrow> bool" where
  "grant_indexed s r a \<longleftrightarrow> has_role_key s r a \<noteq> Some False
     \<and> (a \<in> set (role_members s r) \<longleftrightarrow> has_role_key s r a \<noteq> None)
     \<and> (r \<in> set (address_roles s a) \<longleftrightarrow> has_role_key s r a \<noteq> None)
     \<and> (role_expiry s r a \<noteq> None \<longleftrightarrow> has_role_key s r a \<noteq> None)"

definition grants_ok :: "access \<Rightarrow> bool" where
  "grants_ok s \<longleftrightarrow> (\<forall>r a. grant_indexed s r a)
     \<and> (\<forall>r. distinct (role_members s r)) \<and> (\<forall>a. distinct (address_roles s a))"

text \<open>Every role in use is listed, once.\<close>

definition roles_ok :: "access \<Rightarrow> bool" where
  "roles_ok s \<longleftrightarrow> distinct (all_roles s)
     \<and> (\<forall>r a. has_role_key s r a \<noteq> None \<longrightarrow> r \<in> set (all_roles s))
     \<and> (\<forall>r. role_admin s r \<noteq> None \<longrightarrow> r \<in> set (all_roles s))
     \<and> (\<forall>r p. role_parent s r = Some p \<longrightarrow> r \<in> set (all_roles s) \<and> p \<in> set (all_roles s))"

definition hierarchy_ok :: "access \<Rightarrow> bool" where
  "hierarchy_ok s \<longleftrightarrow> acyclicP (parent_edge s)"

definition blacklist_ok :: "access \<Rightarrow> bool" where
  "blacklist_ok s \<longleftrightarrow> (\<forall>a. blacklisted_key s a \<noteq> Some False)
     \<and> (admin_key s = None \<longrightarrow> blacklisted_key s = Map.empty)
     \<and> (\<forall>a. admin_key s = Some a \<longrightarrow> \<not> is_blacklisted a s)"

definition access_inv :: "access \<Rightarrow> bool" where
  "access_inv s \<longleftrightarrow> grants_ok s \<and> roles_ok s \<and> hierarchy_ok s \<and> blacklist_ok s"

lemma parent_edge_cong: "role_parent s' = role_parent s \<Longrightarrow> parent_edge s' = parent_edge s"
  by (simp add: parent_edge_def fun_eq_iff)

lemma is_blacklisted_cong:
  "blacklisted_key s' = blacklisted_key s \<Longrightarrow> is_blacklisted a s' = is_blacklisted a s"
  by (simp add: is_blacklisted_def)

text \<open>The parts of the invariant depend on their own fields only.\<close>

lemma grants_ok_cong:
  "has_role_key s' = has_role_key s \<Longrightarrow> role_members s' = role_members s \<Longrightarrow>
   address_roles s' = address_roles s \<Longrightarrow> role_expiry s' = role_expiry s \<Longrightarrow>
   grants_ok s' = grants_ok s"
  by (simp add: grants_ok_def grant_indexed_def)

lemma roles_ok_cong:
  "has_role_key s' = has_role_key s \<Longrightarrow> role_admin s' = role_admin s \<Longrightarrow>
   role_parent s' = role_parent s \<Longrightarrow> all_roles s' = all_roles s \<Longrightarrow> roles_ok s' = roles_ok s"
  by (simp add: roles_ok_def)

lemma hierarchy_ok_cong: "role_parent s' = role_parent s \<Longrightarrow> hierarchy_ok s' = hierarchy_ok s"
  by (simp add: hierarchy_ok_def parent_edge_def)

lemma blacklist_ok_cong:
  "blacklisted_key s' = blacklisted_key s \<Longrightarrow> admin_key s' = admin_key s \<Longrightarrow>
   blacklist_ok s' = blacklist_ok s"
  by (simp add: blacklist_ok_def is_blacklisted_def)

lemmas inv_congs = grants_ok_cong roles_ok_cong hierarchy_ok_cong blacklist_ok_cong

lemma access_inv_cong:
  "has_role_key s' = has_role_key s \<Longrightarrow> role_members s' = role_members s \<Longrightarrow>
   address_roles s' = address_roles s \<Longrightarrow> role_expiry s' = role_expiry s \<Longrightarrow>
   role_admin s' = role_admin s \<Longrightarrow> role_parent s' = role_parent s \<Longrightarrow>
   all_roles s' = all_roles s \<Longrightarrow> blacklisted_key s' = blacklisted_key s \<Longrightarrow>
   admin_key s' = admin_key s \<Longrightarrow> access_inv s' = access_inv s"
  unfolding access_inv_def
  by (metis grants_ok_cong roles_ok_cong hierarchy_ok_cong blacklist_ok_cong)

lemma publish_inv [simp]: "access_inv (publish t d s) = access_inv s"
  by (rule access_inv_cong) simp_all

lemma access_inv_empty: "access_inv access_empty"
proof -
  have none: "\<not> parent_edge access_empty r p" for r p
    by (simp add: parent_edge_def access_empty_def)
  then have "{(r, p). parent_edge access_empty r p} = {}" by simp
  then have "hierarchy_ok access_empty" by (simp add: hierarchy_ok_def acyclic_def)
  then show ?thesis
    by (simp add: access_inv_def grants_ok_def grant_indexed_def roles_ok_def blacklist_ok_def)
      (simp add: access_empty_def)
qed

text \<open>The writers keep it.\<close>

lemma deactivate_inv: "access_inv s \<Longrightarrow> access_inv (deactivate_role_grant env r t s)"
proof -
  let ?s = "deactivate_role_grant env r t s"
  assume inv: "access_inv s"
  then have "grants_ok ?s"
    by (auto simp: access_inv_def grants_ok_def grant_indexed_def)
  moreover from inv have "roles_ok ?s"
    by (auto simp: access_inv_def roles_ok_def)
  ultimately show ?thesis
    using inv hierarchy_ok_cong [of ?s s] blacklist_ok_cong [of ?s s] by (simp add: access_inv_def)
qed

lemma activate_inv:
  "access_inv s \<Longrightarrow> r \<in> set (all_roles s) \<Longrightarrow> access_inv (activate_role_grant r a e w s)"
proof -
  let ?s = "activate_role_grant r a e w s"
  assume inv: "access_inv s" and r: "r \<in> set (all_roles s)"
  from inv have "grants_ok ?s"
    by (auto simp: access_inv_def grants_ok_def grant_indexed_def)
  moreover from inv r have "roles_ok ?s"
    by (auto simp: access_inv_def roles_ok_def)
  ultimately show ?thesis
    using inv hierarchy_ok_cong [of ?s s] blacklist_ok_cong [of ?s s] by (simp add: access_inv_def)
qed

lemma track_inv:
  "access_inv s \<Longrightarrow> track_role_in_all_roles r s = Inr s' \<Longrightarrow>
     access_inv s' \<and> r \<in> set (all_roles s') \<and> set (all_roles s) \<subseteq> set (all_roles s')"
proof -
  assume inv: "access_inv s" and "track_role_in_all_roles r s = Inr s'"
  then have s': "s' = s\<lparr>all_roles := if r \<in> set (all_roles s) then all_roles s else all_roles s @ [r]\<rparr>"
    by (simp add: res_simps)
  with inv have "roles_ok s'"
    by (auto simp: access_inv_def roles_ok_def)
  with inv s' grants_ok_cong [of s' s] hierarchy_ok_cong [of s' s] blacklist_ok_cong [of s' s]
  show ?thesis by (auto simp: access_inv_def)
qed

lemma adjust_inv:
  "access_inv s \<Longrightarrow> access_inv (adjust_role_member_counts_for_blacklist_change env t inc s)"
proof -
  assume inv: "access_inv s"
  then have "distinct (address_roles s t)" by (simp add: access_inv_def grants_ok_def)
  then obtain c where "adjust_role_member_counts_for_blacklist_change env t inc s
      = s\<lparr>role_member_count := c\<rparr>" by (simp add: adjust_eq)
  moreover have "access_inv (s\<lparr>role_member_count := c\<rparr>) = access_inv s"
    by (rule access_inv_cong) simp_all
  ultimately show ?thesis using inv by simp
qed

lemma limits_inv [simp]: "access_inv (s\<lparr>role_limits := l\<rparr>) = access_inv s"
  by (rule access_inv_cong) simp_all

lemma set_admin_inv:
  "access_inv s \<Longrightarrow> \<not> is_blacklisted a s \<Longrightarrow> access_inv (s\<lparr>admin_key := Some a\<rparr>)"
  using grants_ok_cong [of "s\<lparr>admin_key := Some a\<rparr>" s] roles_ok_cong [of "s\<lparr>admin_key := Some a\<rparr>" s]
    hierarchy_ok_cong [of "s\<lparr>admin_key := Some a\<rparr>" s]
  by (auto simp: access_inv_def blacklist_ok_def is_blacklisted_def)

lemma set_role_admin_inv:
  "access_inv s \<Longrightarrow> r \<in> set (all_roles s) \<Longrightarrow> access_inv (s\<lparr>role_admin := (role_admin s)(r \<mapsto> a)\<rparr>)"
  using grants_ok_cong [of "s\<lparr>role_admin := (role_admin s)(r \<mapsto> a)\<rparr>" s]
    hierarchy_ok_cong [of "s\<lparr>role_admin := (role_admin s)(r \<mapsto> a)\<rparr>" s]
    blacklist_ok_cong [of "s\<lparr>role_admin := (role_admin s)(r \<mapsto> a)\<rparr>" s]
  by (auto simp: access_inv_def roles_ok_def)

lemma set_blacklist_inv:
  "access_inv s \<Longrightarrow> admin_key s = Some a \<Longrightarrow> t \<noteq> a \<Longrightarrow> v \<noteq> Some False \<Longrightarrow>
     access_inv (s\<lparr>blacklisted_key := (blacklisted_key s)(t := v)\<rparr>)"
  using grants_ok_cong [of "s\<lparr>blacklisted_key := (blacklisted_key s)(t := v)\<rparr>" s]
    hierarchy_ok_cong [of "s\<lparr>blacklisted_key := (blacklisted_key s)(t := v)\<rparr>" s]
    roles_ok_cong [of "s\<lparr>blacklisted_key := (blacklisted_key s)(t := v)\<rparr>" s]
  by (auto simp: access_inv_def blacklist_ok_def is_blacklisted_def)

text \<open>A new parent edge closes no cycle.\<close>

lemma set_role_parent_inv:
  assumes inv: "access_inv s" and no_path: "\<not> (parent_edge s)\<^sup>*\<^sup>* p r"
    and "r \<in> set (all_roles s)" and "p \<in> set (all_roles s)"
  shows "access_inv (s\<lparr>role_parent := (role_parent s)(r \<mapsto> p)\<rparr>)" (is "access_inv ?s")
proof -
  let ?edges = "{(x, y). parent_edge s x y}"
  from no_path have "(p, r) \<notin> ?edges\<^sup>*" by (simp add: rtranclp_rtrancl_eq)
  with inv have "acyclic (insert (r, p) ?edges)"
    by (simp add: access_inv_def hierarchy_ok_def acyclic_insert)
  then have "acyclic {(x, y). parent_edge ?s x y}"
    by (rule acyclic_subset) (auto simp: parent_edge_def split: if_splits)
  then have "hierarchy_ok ?s" by (simp add: hierarchy_ok_def)
  moreover have "roles_ok ?s"
    using inv assms(3,4) by (auto simp: access_inv_def roles_ok_def)
  ultimately show ?thesis
    using inv grants_ok_cong [of ?s s] blacklist_ok_cong [of ?s s] by (simp add: access_inv_def)
qed

subsection \<open>What a successful call means\<close>

lemma track_role_keeps:
  "track_role_in_all_roles r s = Inr s' \<Longrightarrow> \<exists>rs. s' = s\<lparr>all_roles := rs\<rparr>"
  unfolding track_role_Inr_iff by blast

lemma access_initialize_iff:
  "access_initialize a s = Inr ((), s') \<longleftrightarrow> admin_key s = None \<and> s' = s\<lparr>admin_key := Some a\<rparr>"
  by (auto simp: access_initialize_def)

lemma set_role_limits_iff:
  "set_role_limits env c r g s = Inr ((), s') \<longleftrightarrow>
     auth env c \<and> \<not> is_blacklisted c s \<and> admin_key s = Some c
     \<and> s' = publish ''role_limits_set'' (VTuple [VU32 (unwrap_or r DEFAULT_MAX_ROLES),
               VU32 (unwrap_or g DEFAULT_MAX_GRANTS_PER_ROLE)])
             (s\<lparr>role_limits := Some (unwrap_or r DEFAULT_MAX_ROLES,
                unwrap_or g DEFAULT_MAX_GRANTS_PER_ROLE)\<rparr>)"
  by (auto simp: set_role_limits_def res_simps Let_def)

lemma grant_internal_iff:
  "grant_role_internal env r e a s = Inr s' \<longleftrightarrow>
     (\<exists>x w s1. grant_checks env a r e s = Inr (x, w) \<and> check_grant_cap a r s = Inr ()
        \<and> track_role_in_all_roles r s = Inr s1
        \<and> s' = publish ''role_granted'' (VTuple [VAddr a, VStr r, VU64 x])
                 (activate_role_grant r a x w s1))"
  by (auto simp: grant_role_internal_def res_simps)

lemma grant_role_iff:
  "grant_role env c a r e s = Inr ((), s') \<longleftrightarrow>
     auth env c \<and> require_role_manager c r s = Inr () \<and> grant_role_internal env r e a s = Inr s'"
  by (auto simp: grant_role_def res_simps simp del: require_role_manager_Inr_iff)

lemma grant_role_batch_iff:
  "grant_role_batch env c as r e ff s = Inr (b, s') \<longleftrightarrow>
     auth env c \<and> require_role_manager c r s = Inr ()
     \<and> batch_loop (grant_role_internal env r e) access_error_to_batch ff 0 as s batch_new = Inr (b, s')"
  by (auto simp: grant_role_batch_def res_simps simp del: require_role_manager_Inr_iff)

lemma revoke_role_iff:
  "revoke_role env c r t s = Inr ((), s') \<longleftrightarrow>
     auth env c \<and> require_role_manager c r s = Inr () \<and> has_role_key s r t \<noteq> None
     \<and> s' = publish ''role_revoked'' (VTuple [VStr r, VAddr t]) (deactivate_role_grant env r t s)"
  by (auto simp: revoke_role_def res_simps simp del: require_role_manager_Inr_iff)

lemma expire_role_iff:
  "expire_role env c r t s = Inr ((), s') \<longleftrightarrow>
     auth env c \<and> \<not> is_blacklisted c s \<and> admin_key s = Some c \<and> has_role_key s r t \<noteq> None
     \<and> s' = publish ''role_expired'' (VTuple [VStr r, VAddr t]) (deactivate_role_grant env r t s)"
  by (auto simp: expire_role_def res_simps)

lemma set_role_admin_iff:
  "set_role_admin env c r a s = Inr ((), s') \<longleftrightarrow>
     auth env c \<and> \<not> is_blacklisted c s \<and> admin_key s = Some c \<and> \<not> is_blacklisted a s
     \<and> (\<exists>s1. track_role_in_all_roles r s = Inr s1
        \<and> s' = publish ''role_admin_set'' (VTuple [VStr r, VAddr a])
                 (s1\<lparr>role_admin := (role_admin s1)(r \<mapsto> a)\<rparr>))"
  by (auto simp: set_role_admin_def res_simps simp del: track_role_Inr_iff)

lemma set_role_parent_iff:
  "set_role_parent env c r p s = Inr ((), s') \<longleftrightarrow>
     auth env c \<and> \<not> is_blacklisted c s \<and> admin_key s = Some c
     \<and> ensure_no_role_parent_cycle r p s = Inr ()
     \<and> (\<exists>s1 s2. track_role_in_all_roles r s = Inr s1 \<and> track_role_in_all_roles p s1 = Inr s2
        \<and> s' = publish ''role_parent_set'' (VTuple [VStr r, VStr p])
                 (s2\<lparr>role_parent := (role_parent s2)(r \<mapsto> p)\<rparr>))"
  by (auto simp: set_role_parent_def res_simps simp del: track_role_Inr_iff)

lemma blacklist_iff:
  "blacklist env c t s = Inr ((), s') \<longleftrightarrow>
     auth env c \<and> \<not> is_blacklisted c s \<and> admin_key s = Some c \<and> t \<noteq> c
     \<and> (if is_blacklisted t s then s' = s
        else s' = publish ''address_blacklisted'' (VAddr t)
          ((adjust_role_member_counts_for_blacklist_change env t False s)
             \<lparr>blacklisted_key := (blacklisted_key
                (adjust_role_member_counts_for_blacklist_change env t False s))(t \<mapsto> True)\<rparr>))"
  by (auto simp: blacklist_def res_simps Let_def split: if_splits)

lemma unblacklist_iff:
  "unblacklist env c t s = Inr ((), s') \<longleftrightarrow>
     auth env c \<and> \<not> is_blacklisted c s \<and> admin_key s = Some c
     \<and> (if is_blacklisted t s
        then s' = publish ''address_unblacklisted'' (VAddr t)
          (adjust_role_member_counts_for_blacklist_change env t True
             (s\<lparr>blacklisted_key := (blacklisted_key s)(t := None)\<rparr>))
        else s' = s)"
  by (auto simp: unblacklist_def res_simps Let_def split: if_splits)

lemma transfer_role_membership_iff:
  "transfer_role_membership env c r from to s = Inr ((), s') \<longleftrightarrow>
     auth env c \<and> require_role_manager c r s = Inr () \<and> has_role_internal env s from r
     \<and> (if from = to then s' = s
        else \<not> has_role_internal env s to r \<and> \<not> is_blacklisted to s
          \<and> (\<exists>x s2. role_expiry s r from = Some x
               \<and> track_role_in_all_roles r (deactivate_role_grant env r from s) = Inr s2
               \<and> s' = publish ''role_revoked'' (VTuple [VStr r, VAddr from])
                        (publish ''role_granted'' (VTuple [VAddr to, VStr r, VU64 x])
                          (activate_role_grant r to x False s2))))"
  by (auto simp: transfer_role_membership_def res_simps Let_def
      simp del: track_role_Inr_iff require_role_manager_Inr_iff split: if_splits)

lemma transfer_super_admin_iff:
  "transfer_super_admin env c n s = Inr ((), s') \<longleftrightarrow>
     auth env c \<and> \<not> is_blacklisted c s \<and> admin_key s = Some c \<and> \<not> is_blacklisted n s
     \<and> s' = publish ''admin_transferred'' (VTuple [VAddr c, VAddr n]) (s\<lparr>admin_key := Some n\<rparr>)"
  by (auto simp: transfer_super_admin_def res_simps)

lemmas access_iffs = access_initialize_iff set_role_limits_iff grant_role_iff grant_role_batch_iff
  revoke_role_iff expire_role_iff set_role_admin_iff set_role_parent_iff blacklist_iff
  unblacklist_iff transfer_role_membership_iff transfer_super_admin_iff

subsection \<open>Every transaction keeps the invariant\<close>

lemma grant_internal_inv:
  "access_inv s \<Longrightarrow> grant_role_internal env r e a s = Inr s' \<Longrightarrow> access_inv s'"
  unfolding grant_internal_iff by (metis track_inv activate_inv publish_inv)

lemma set_role_parent_keeps_inv:
  assumes inv: "access_inv s" and "set_role_parent env c r p s = Inr ((), s')"
  shows "access_inv s'"
proof -
  from assms(2) obtain s1 s2 where ok: "ensure_no_role_parent_cycle r p s = Inr ()"
    and s1: "track_role_in_all_roles r s = Inr s1" and s2: "track_role_in_all_roles p s1 = Inr s2"
    and s': "s' = publish ''role_parent_set'' (VTuple [VStr r, VStr p])
               (s2\<lparr>role_parent := (role_parent s2)(r \<mapsto> p)\<rparr>)"
    unfolding set_role_parent_iff by blast
  note t1 = track_inv [OF inv s1]
  then have t2: "access_inv s2 \<and> p \<in> set (all_roles s2) \<and> set (all_roles s1) \<subseteq> set (all_roles s2)"
    using track_inv s2 by blast
  from ok have "\<not> (parent_edge s)\<^sup>*\<^sup>* p r"
    unfolding ensure_no_role_parent_cycle_def by (blast dest: parent_walk_ok)
  moreover have "parent_edge s2 = parent_edge s"
    using track_role_keeps [OF s1] track_role_keeps [OF s2] by (auto simp: parent_edge_def fun_eq_iff)
  ultimately have "\<not> (parent_edge s2)\<^sup>*\<^sup>* p r" by simp
  with t1 t2 have "access_inv (s2\<lparr>role_parent := (role_parent s2)(r \<mapsto> p)\<rparr>)"
    by (intro set_role_parent_inv) auto
  with s' show ?thesis by simp
qed

lemma blacklist_keeps_inv:
  assumes "access_inv s" and "blacklist env c t s = Inr ((), s')"
  shows "access_inv s'"
proof (cases "is_blacklisted t s")
  case False
  let ?s = "adjust_role_member_counts_for_blacklist_change env t False s"
  have "distinct (address_roles s t)" using assms(1) by (simp add: access_inv_def grants_ok_def)
  then have "admin_key ?s = admin_key s" by (simp add: adjust_eq)
  moreover have "access_inv ?s" using assms(1) by (rule adjust_inv)
  ultimately have "access_inv (?s\<lparr>blacklisted_key := (blacklisted_key ?s)(t \<mapsto> True)\<rparr>)"
    using assms(2) set_blacklist_inv [of ?s c t "Some True"] by (simp add: blacklist_iff)
  with assms(2) False show ?thesis by (simp add: blacklist_iff)
qed (use assms in \<open>simp add: blacklist_iff\<close>)

lemma unblacklist_keeps_inv:
  assumes "access_inv s" and "unblacklist env c t s = Inr ((), s')"
  shows "access_inv s'"
proof (cases "is_blacklisted t s")
  case True
  with assms have "t \<noteq> c" "admin_key s = Some c" by (auto simp: unblacklist_iff)
  with assms(1) have "access_inv (s\<lparr>blacklisted_key := (blacklisted_key s)(t := None)\<rparr>)"
    using set_blacklist_inv [of s c t None] by simp
  then show ?thesis using assms(2) True by (simp add: unblacklist_iff adjust_inv)
qed (use assms in \<open>simp add: unblacklist_iff\<close>)

lemma transfer_membership_keeps_inv:
  assumes "access_inv s" and "transfer_role_membership env c r from to s = Inr ((), s')"
  shows "access_inv s'"
proof (cases "from = to")
  case False
  with assms(2) obtain x s2 where s2: "track_role_in_all_roles r (deactivate_role_grant env r from s) = Inr s2"
    and s': "s' = publish ''role_revoked'' (VTuple [VStr r, VAddr from])
               (publish ''role_granted'' (VTuple [VAddr to, VStr r, VU64 x])
                 (activate_role_grant r to x False s2))"
    unfolding transfer_role_membership_iff by auto
  have "access_inv s2 \<and> r \<in> set (all_roles s2)"
    using track_inv [OF deactivate_inv [OF assms(1)] s2] by blast
  with s' show ?thesis by (simp add: activate_inv)
qed (use assms in \<open>simp add: transfer_role_membership_iff\<close>)

lemma set_role_admin_keeps_inv:
  "access_inv s \<Longrightarrow> set_role_admin env c r a s = Inr ((), s') \<Longrightarrow> access_inv s'"
  unfolding set_role_admin_iff by (metis track_inv set_role_admin_inv publish_inv)

lemma access_initialize_keeps_inv:
  "access_inv s \<Longrightarrow> access_initialize a s = Inr ((), s') \<Longrightarrow> access_inv s'"
proof -
  assume inv: "access_inv s" and init: "access_initialize a s = Inr ((), s')"
  then have "\<not> is_blacklisted a s"
    by (auto simp: access_initialize_iff access_inv_def blacklist_ok_def is_blacklisted_def)
  with inv init show ?thesis by (simp add: access_initialize_iff set_admin_inv)
qed

lemma access_step_inv:
  assumes "access_inv s" and "access_step env c s = Inr s'"
  shows "access_inv s'"
proof (cases c)
  case (AGrantBatch a as r e ff)
  with assms(2) obtain b where
    "batch_loop (grant_role_internal env r e) access_error_to_batch ff 0 as s batch_new = Inr (b, s')"
    by (auto simp: res_simps grant_role_batch_iff)
  then show ?thesis
    using batch_loop_invar [of access_inv "grant_role_internal env r e" s] grant_internal_inv assms(1)
    by blast
next
  case (AInitialize a)
  with assms show ?thesis by (auto simp: res_simps intro: access_initialize_keeps_inv)
next
  case (ASetLimits a r g)
  with assms show ?thesis by (auto simp: res_simps set_role_limits_iff)
next
  case (AGrant c a r e)
  with assms show ?thesis by (auto simp: res_simps grant_role_iff intro: grant_internal_inv)
next
  case (ARevoke c r t)
  with assms show ?thesis by (auto simp: res_simps revoke_role_iff deactivate_inv)
next
  case (ASetRoleAdmin c r a)
  with assms show ?thesis by (auto simp: res_simps intro: set_role_admin_keeps_inv)
next
  case (ASetRoleParent c r p)
  with assms show ?thesis by (auto simp: res_simps intro: set_role_parent_keeps_inv)
next
  case (ABlacklist c t)
  with assms show ?thesis by (auto simp: res_simps intro: blacklist_keeps_inv)
next
  case (AUnblacklist c t)
  with assms show ?thesis by (auto simp: res_simps intro: unblacklist_keeps_inv)
next
  case (ATransferMembership c r f t)
  with assms show ?thesis by (auto simp: res_simps intro: transfer_membership_keeps_inv)
next
  case (ATransferSuperAdmin c n)
  with assms show ?thesis by (auto simp: res_simps transfer_super_admin_iff set_admin_inv)
next
  case (AExpire c r t)
  with assms show ?thesis by (auto simp: res_simps expire_role_iff deactivate_inv)
qed

interpretation access_machine: contract_machine access_step access_empty access_inv
  by unfold_locales (rule access_inv_empty, rule access_step_inv)

text \<open>
  Calls only the super-admin may make. All others leave the hierarchy, the role admins, the
  blacklist and the limits as they are.
\<close>

fun access_gated :: "access_call \<Rightarrow> address option" where
  "access_gated (ASetLimits c r g) = Some c"
| "access_gated (ASetRoleAdmin c r a) = Some c"
| "access_gated (ASetRoleParent c r p) = Some c"
| "access_gated (ABlacklist c t) = Some c"
| "access_gated (AUnblacklist c t) = Some c"
| "access_gated (ATransferSuperAdmin c n) = Some c"
| "access_gated (AExpire c r t) = Some c"
| "access_gated _ = None"

definition same_policy :: "access \<Rightarrow> access \<Rightarrow> bool" where
  "same_policy s s' \<longleftrightarrow> role_parent s' = role_parent s \<and> role_admin s' = role_admin s
     \<and> blacklisted_key s' = blacklisted_key s \<and> role_limits s' = role_limits s"

lemma grant_internal_policy:
  "grant_role_internal env r e a s = Inr s' \<Longrightarrow> admin_key s' = admin_key s \<and> same_policy s s'"
  unfolding grant_internal_iff same_policy_def by (auto dest!: track_role_keeps)

lemma grant_batch_policy:
  assumes "batch_loop (grant_role_internal env r e) err ff i as s b = Inr (b', s')"
  shows "admin_key s' = admin_key s \<and> same_policy s s'"
  by (rule batch_loop_rel [where R = "\<lambda>s s'. admin_key s' = admin_key s \<and> same_policy s s'",
        OF grant_internal_policy _ _ assms]) (auto simp: same_policy_def)

lemma access_gated_auth:
  "access_step env c s = Inr s' \<Longrightarrow> access_gated c = Some a \<Longrightarrow> auth env a \<and> admin_key s = Some a"
  by (cases c) (auto simp: res_simps access_iffs simp del: track_role_Inr_iff)

lemma access_open_frame:
  assumes "access_step env c s = Inr s'" and "access_gated c = None" and "admin_key s = Some a"
  shows "admin_key s' = Some a \<and> same_policy s s'"
proof (cases c)
  case (AInitialize b)
  with assms show ?thesis by (auto simp: res_simps access_initialize_iff)
next
  case (AGrant b d r e)
  with assms show ?thesis by (auto simp: res_simps grant_role_iff dest!: grant_internal_policy)
next
  case (AGrantBatch b ds r e ff)
  with assms show ?thesis by (auto simp: res_simps grant_role_batch_iff dest!: grant_batch_policy)
next
  case (ARevoke b r t)
  with assms show ?thesis by (auto simp: res_simps revoke_role_iff same_policy_def)
next
  case (ATransferMembership b r f t)
  with assms show ?thesis
    by (cases "f = t")
      (auto simp: returns_Inr_iff transfer_role_membership_iff same_policy_def dest!: track_role_keeps)
qed (use assms in simp_all)

interpretation access_admin: admin_gated access_step access_empty access_inv admin_key access_gated same_policy
proof unfold_locales
  fix env c s s' a
  assume "access_step env c s = Inr s'" and "access_gated c = None" and "admin_key s = Some a"
  then show "admin_key s' = Some a \<and> same_policy s s'" by (rule access_open_frame)
qed (auto simp: same_policy_def dest: access_gated_auth)

subsection \<open>Who may change a grant\<close>

text \<open>A signer that is not blacklisted and is the super-admin or the admin of the role.\<close>

definition manager_signed :: "env \<Rightarrow> access \<Rightarrow> string \<Rightarrow> bool" where
  "manager_signed env s r \<longleftrightarrow> (\<exists>m. auth env m \<and> \<not> is_blacklisted m s
     \<and> (admin_key s = Some m \<or> role_admin s r = Some m))"

definition same_grants :: "string \<Rightarrow> access \<Rightarrow> access \<Rightarrow> bool" where
  "same_grants r s s' \<longleftrightarrow> has_role_key s' r = has_role_key s r \<and> role_expiry s' r = role_expiry s r
     \<and> role_members s' r = role_members s r"

lemma manager_signedI:
  "auth env c \<Longrightarrow> require_role_manager c r s = Inr () \<Longrightarrow> manager_signed env s r"
  "auth env c \<Longrightarrow> \<not> is_blacklisted c s \<Longrightarrow> admin_key s = Some c \<Longrightarrow> manager_signed env s r"
  by (auto simp: manager_signed_def res_simps)

lemma same_grants_refl [simp]: "same_grants r s s"
  by (simp add: same_grants_def)

lemma same_grants_trans: "same_grants r s s' \<Longrightarrow> same_grants r s' s'' \<Longrightarrow> same_grants r s s''"
  by (simp add: same_grants_def)

lemma grant_internal_other:
  "grant_role_internal env r e a s = Inr s' \<Longrightarrow> q \<noteq> r \<Longrightarrow> same_grants q s s'"
  unfolding grant_internal_iff same_grants_def by (auto dest!: track_role_keeps)

lemma grant_batch_other:
  assumes "batch_loop (grant_role_internal env r e) err ff i as s b = Inr (b', s')" and "q \<noteq> r"
  shows "same_grants q s s'"
  by (rule batch_loop_rel [where R = "same_grants q", OF _ _ _ assms(1)])
    (auto intro: grant_internal_other [OF _ assms(2)] same_grants_trans)

lemma adjust_grants:
  assumes "access_inv s"
  shows "same_grants q s (adjust_role_member_counts_for_blacklist_change env t inc s)"
  using assms by (subst adjust_eq) (simp_all add: same_grants_def access_inv_def grants_ok_def)

lemma unsigned_grants:
  assumes inv: "access_inv s" and step: "access_step env c s = Inr s'"
    and unsigned: "\<not> manager_signed env s q"
  shows "same_grants q s s'"
proof (cases c)
  case (AInitialize b)
  with step show ?thesis by (auto simp: res_simps access_initialize_iff same_grants_def)
next
  case (AGrant b d r e)
  with step unsigned have "q \<noteq> r" "grant_role_internal env r e d s = Inr s'"
    by (auto simp: returns_Inr_iff grant_role_iff dest: manager_signedI(1))
  then show ?thesis by (metis grant_internal_other)
next
  case (AGrantBatch b ds r e ff)
  with step obtain x where "auth env b" "require_role_manager b r s = Inr ()"
    "batch_loop (grant_role_internal env r e) access_error_to_batch ff 0 ds s batch_new = Inr (x, s')"
    by (auto simp: returns_Inr_iff grant_role_batch_iff)
  moreover from this(1,2) unsigned have "q \<noteq> r" by (auto dest: manager_signedI(1))
  ultimately show ?thesis by (metis grant_batch_other)
next
  case (ARevoke b r t)
  with step have "auth env b" "require_role_manager b r s = Inr ()"
    and s': "s' = publish ''role_revoked'' (VTuple [VStr r, VAddr t]) (deactivate_role_grant env r t s)"
    by (simp_all add: returns_Inr_iff revoke_role_iff)
  then have "q \<noteq> r" using unsigned by (auto dest: manager_signedI(1))
  with s' show ?thesis by (simp add: same_grants_def)
next
  case (ATransferMembership b r f t)
  with step have m: "auth env b" "require_role_manager b r s = Inr ()"
    by (simp_all add: returns_Inr_iff transfer_role_membership_iff)
  then have "q \<noteq> r" using unsigned by (auto dest: manager_signedI(1))
  with step ATransferMembership show ?thesis
    by (cases "f = t")
      (auto simp: returns_Inr_iff transfer_role_membership_iff same_grants_def dest!: track_role_keeps)
next
  case (AUnblacklist b t)
  with step unsigned show ?thesis
    by (auto simp: returns_Inr_iff unblacklist_iff dest: manager_signedI(2))
qed (use step unsigned in
  \<open>auto simp: returns_Inr_iff access_iffs dest: manager_signedI(2)\<close>)

text \<open>
  C20. The grants of a role change only in a transaction signed by the super-admin or by the admin
  of that role, and never by a blacklisted signer: in every other transaction, whatever it calls,
  the holders of the role and the expiry of each of them stay as they were. The admin of one role
  has no power over another.
\<close>

theorem grant_authority:
  assumes "access_step env c (run_txs access_step access_empty txs) = Inr s'"
    and "\<not> manager_signed env (run_txs access_step access_empty txs) r"
  shows "has_role_key s' r a = has_role_key (run_txs access_step access_empty txs) r a
     \<and> role_expiry s' r a = role_expiry (run_txs access_step access_empty txs) r a"
  using unsigned_grants [OF access_machine.invar_run assms] by (simp add: same_grants_def)

text \<open>
  C17. In every state the contract can reach, the member list of a role, the role list of an address
  and the stored expiries describe the same set of grants, every role in use is listed, the parent
  relation has no cycle and the super-admin is not blacklisted.
\<close>

theorem access_invariant:
  "access_inv (run_txs access_step access_empty txs)"
  by (rule access_machine.invar_run)

text \<open>
  As long as the super-admin signs nothing, no sequence of transactions replaces the
  super-admin or changes the role hierarchy, the role admins, the blacklist or the limits.
\<close>

theorem access_policy_needs_admin:
  assumes "access_inv s" and "admin_key s = Some a" and "\<forall>(env, c)\<in>set txs. \<not> auth env a"
  shows "admin_key (run_txs access_step s txs) = Some a \<and> same_policy s (run_txs access_step s txs)"
  by (rule access_admin.unsigned_run [OF assms])

subsection \<open>The hierarchy\<close>

lemma edges_avoiding:
  assumes "\<not> (parent_edge s)\<^sup>*\<^sup>* p r" and "\<And>x. x \<noteq> r \<Longrightarrow> role_parent s' x = role_parent s x"
  shows "(parent_edge s' ^^ n) p x \<longleftrightarrow> (parent_edge s ^^ n) p x"
proof (induction n arbitrary: x)
  case (Suc n)
  have "(parent_edge s ^^ n) p y \<Longrightarrow> y \<noteq> r" for y
    using assms(1) by (auto dest: relpowp_imp_rtranclp)
  then have "(parent_edge s ^^ n) p y \<and> parent_edge s' y x \<longleftrightarrow> (parent_edge s ^^ n) p y \<and> parent_edge s y x" for y
    using assms(2) by (auto simp: parent_edge_def)
  with Suc show ?case by auto
qed simp

text \<open>Above an accepted edge the hierarchy is as before.\<close>

lemma set_role_parent_chain:
  assumes "set_role_parent env c r p s = Inr ((), s')"
  shows "\<not> (parent_edge s)\<^sup>*\<^sup>* p r" and "role_parent s' = (role_parent s)(r \<mapsto> p)"
    and "has_role_key s' = has_role_key s" and "role_expiry s' = role_expiry s"
    and "blacklisted_key s' = blacklisted_key s"
    and "\<exists>n apex. Suc n < MAX_HIERARCHY_DEPTH \<and> (parent_edge s ^^ n) p apex \<and> role_parent s apex = None"
proof -
  from assms obtain s1 s2 where ok: "ensure_no_role_parent_cycle r p s = Inr ()"
    and s1: "track_role_in_all_roles r s = Inr s1" and s2: "track_role_in_all_roles p s1 = Inr s2"
    and s': "s' = publish ''role_parent_set'' (VTuple [VStr r, VStr p])
               (s2\<lparr>role_parent := (role_parent s2)(r \<mapsto> p)\<rparr>)"
    unfolding set_role_parent_iff by blast
  from ok show "\<not> (parent_edge s)\<^sup>*\<^sup>* p r"
    and "\<exists>n apex. Suc n < MAX_HIERARCHY_DEPTH \<and> (parent_edge s ^^ n) p apex \<and> role_parent s apex = None"
    unfolding ensure_no_role_parent_cycle_def using parent_walk_ok [of s r p 1] by simp_all
  from track_role_keeps [OF s1] track_role_keeps [OF s2] s'
  show "role_parent s' = (role_parent s)(r \<mapsto> p)" "has_role_key s' = has_role_key s"
    "role_expiry s' = role_expiry s" "blacklisted_key s' = blacklisted_key s" by auto
qed

lemma inherits_parent:
  assumes "role_parent s r = Some p"
  shows "inherits env s a r \<longleftrightarrow> has_direct_role_internal env s a r \<or> inherits env s a p"
proof
  assume "inherits env s a r"
  then obtain q where q: "(parent_edge s)\<^sup>*\<^sup>* r q" "has_direct_role_internal env s a q"
    by (auto simp: inherits_def)
  from q(1) show "has_direct_role_internal env s a r \<or> inherits env s a p"
  proof (cases rule: converse_rtranclpE)
    case base
    with q(2) show ?thesis by simp
  next
    case (step y)
    with assms have "y = p" by (simp add: parent_edge_def)
    with step(2) q(2) show ?thesis by (auto simp: inherits_def)
  qed
next
  have e: "parent_edge s r p" using assms by (simp add: parent_edge_def)
  assume "has_direct_role_internal env s a r \<or> inherits env s a p"
  then show "inherits env s a r"
    unfolding inherits_def using e by (meson converse_rtranclp_into_rtranclp rtranclp.rtrancl_refl)
qed

text \<open>
  Linking a role to a parent: the role is then held exactly by its own unexpired holders and by
  every holder of the parent or of any ancestor of the parent, blacklisted addresses excepted. The
  bounded walk of \<open>has_role_internal\<close> reaches the end of the chain above an accepted edge.
\<close>

theorem set_role_parent_effect:
  assumes "set_role_parent env c r p s = Inr ((), s')"
  shows "has_role env' a r s' \<longleftrightarrow>
    \<not> is_blacklisted a s \<and> (has_direct_role_internal env' s a r \<or> inherits env' s a p)"
proof -
  note new = set_role_parent_chain [OF assms]
  have same: "(parent_edge s' ^^ n) p x \<longleftrightarrow> (parent_edge s ^^ n) p x" for n x
    by (rule edges_avoiding [OF new(1)]) (simp add: new(2))
  from new(6) obtain n apex where n: "Suc n < MAX_HIERARCHY_DEPTH"
    "(parent_edge s ^^ n) p apex" "role_parent s apex = None" by blast
  have edge: "role_parent s' r = Some p" by (simp add: new(2))
  have "apex \<noteq> r" using n(2) new(1) by (auto dest: relpowp_imp_rtranclp)
  then have root: "role_parent s' apex = None" using n(3) by (simp add: new(2))
  have "(parent_edge s' ^^ Suc n) r apex"
    using n(2) same edge by (metis parent_edge_def relpowp_Suc_I2)
  from has_role_exact [OF this root n(1)]
  have "has_role env' a r s' \<longleftrightarrow> \<not> is_blacklisted a s' \<and> inherits env' s' a r"
    by (simp add: has_role_def)
  moreover have "inherits env' s' a p \<longleftrightarrow> inherits env' s a p"
    unfolding inherits_def rtranclp_power using same has_direct_cong [OF new(3,4)] by simp
  moreover have "is_blacklisted a s' = is_blacklisted a s" by (rule is_blacklisted_cong [OF new(5)])
  ultimately show ?thesis
    using inherits_parent [OF edge] has_direct_cong [OF new(3,4)] by simp
qed

subsection \<open>Granting, revoking, transferring\<close>

lemma u64_max_top: "\<not> U64_MAX < x"
  by (simp add: U64_MAX_def)

lemma grant_checks_iff:
  "grant_checks env a r e s = Inr (x, w) \<longleftrightarrow> \<not> is_blacklisted a s
     \<and> (case e of None \<Rightarrow> x = U64_MAX | Some d \<Rightarrow> unat x = unat (timestamp env) + unat d)
     \<and> (w \<longleftrightarrow> has_role_key s r a \<noteq> None \<and> has_role_internal env s a r)
     \<and> (w \<longrightarrow> unwrap_or (role_expiry s r a) U64_MAX \<noteq> x)"
  by (auto simp: grant_checks_def res_simps Let_def checked_add_Some_iff split: option.splits)

lemma check_grant_cap_iff:
  "check_grant_cap a r s = Inr () \<longleftrightarrow> a \<in> set (role_members s r)
     \<or> get_role_member_count r s < snd (role_limits_internal s)"
  by (cases "role_limits_internal s")
    (auto simp: check_grant_cap_def res_simps get_role_member_count_def not_le)

lemma grant_expiry_valid:
  "grant_checks env a r e s = Inr (x, w) \<Longrightarrow> timestamp env \<le> x"
proof (cases e)
  case None
  then show "grant_checks env a r e s = Inr (x, w) \<Longrightarrow> timestamp env \<le> x"
    using u64_max_top [of "timestamp env"] by (simp add: grant_checks_iff)
qed (simp add: grant_checks_iff word_conv)

text \<open>
  A successful grant takes effect at once: the account holds the role directly, until its
  expiry, which is the requested number of seconds from now without wrap-around (or never), it is
  listed on both sides, and no other grant changes.
\<close>

theorem grant_role_effect:
  assumes "grant_role env c a r e s = Inr ((), s')"
  shows "has_role env a r s' \<and> a \<in> set (role_members s' r) \<and> r \<in> set (address_roles s' a)
    \<and> (\<exists>x. role_expiry s' r a = Some x
         \<and> (case e of None \<Rightarrow> x = U64_MAX | Some d \<Rightarrow> unat x = unat (timestamp env) + unat d)
         \<and> has_direct_role_internal env' s' a r = (timestamp env' \<le> x))
    \<and> (\<forall>q b. (q, b) \<noteq> (r, a) \<longrightarrow>
         has_role_key s' q b = has_role_key s q b \<and> role_expiry s' q b = role_expiry s q b)"
proof -
  from assms obtain x w s1 where g: "grant_checks env a r e s = Inr (x, w)"
    and t: "track_role_in_all_roles r s = Inr s1"
    and s': "s' = publish ''role_granted'' (VTuple [VAddr a, VStr r, VU64 x])
               (activate_role_grant r a x w s1)"
    by (auto simp: grant_role_iff grant_internal_iff)
  from track_role_keeps [OF t] obtain rs where s1: "s1 = s\<lparr>all_roles := rs\<rparr>" by blast
  have direct: "has_direct_role_internal env'' s' a r = (timestamp env'' \<le> x)" for env''
    by (simp add: s' has_direct_role_internal_def not_less)
  have "\<not> is_blacklisted a s'"
    using g s' s1 by (simp add: grant_checks_iff is_blacklisted_def)
  then have "has_role env a r s'"
    using has_role_direct direct grant_expiry_valid [OF g] by (simp add: has_role_def)
  moreover have "a \<in> set (role_members s' r)" "r \<in> set (address_roles s' a)"
    "role_expiry s' r a = Some x" by (simp_all add: s')
  moreover have "\<forall>q b. (q, b) \<noteq> (r, a) \<longrightarrow>
      has_role_key s' q b = has_role_key s q b \<and> role_expiry s' q b = role_expiry s q b"
    by (auto simp: s' s1)
  ultimately show ?thesis using direct g by (auto simp: grant_checks_iff)
qed

text \<open>
  Revocation removes the grant from all indices and nothing else: afterwards the address can
  hold the role only through an ancestor of it, and no other direct grant changes, at any time. The
  member count drops only when the address held the role at the moment of the call: revoking a
  grant that had lapsed leaves the count where it was.
\<close>

theorem revoke_role_effect:
  assumes "access_inv s" and "revoke_role env c r t s = Inr ((), s')"
  shows "t \<notin> set (role_members s' r) \<and> r \<notin> set (address_roles s' t) \<and> role_expiry s' r t = None
    \<and> (has_role env' t r s' \<longrightarrow> (\<exists>p. role_parent s r = Some p \<and> inherits env' s t p))
    \<and> (\<forall>q a. (q, a) \<noteq> (r, t) \<longrightarrow>
         has_direct_role_internal env' s' a q = has_direct_role_internal env' s a q)
    \<and> get_role_member_count r s' = (if has_role env t r s
         then saturating_sub (get_role_member_count r s) 1 else get_role_member_count r s)"
proof -
  have s': "s' = publish ''role_revoked'' (VTuple [VStr r, VAddr t]) (deactivate_role_grant env r t s)"
    using assms(2) by (simp add: revoke_role_iff)
  have direct: "has_direct_role_internal env' s' a q
      = ((q, a) \<noteq> (r, t) \<and> has_direct_role_internal env' s a q)" for a q
    by (auto simp: s' has_direct_role_internal_def)
  have "has_role env' t r s' \<longrightarrow> (\<exists>p. role_parent s r = Some p \<and> inherits env' s t p)"
  proof
    assume "has_role env' t r s'"
    then have "inherits env' s' t r" by (auto simp: has_role_def dest: has_role_sound)
    then obtain q where q: "(parent_edge s')\<^sup>*\<^sup>* r q" "has_direct_role_internal env' s' t q"
      by (auto simp: inherits_def)
    from q(2) direct have "q \<noteq> r" by auto
    with q(1) obtain p where p: "parent_edge s' r p" "(parent_edge s')\<^sup>*\<^sup>* p q"
      by (auto elim: converse_rtranclpE)
    have "parent_edge s' = parent_edge s" by (simp add: s' parent_edge_def fun_eq_iff)
    with p q(2) direct show "\<exists>p. role_parent s r = Some p \<and> inherits env' s t p"
      by (auto simp: inherits_def parent_edge_def)
  qed
  moreover have "t \<notin> set (role_members s' r)" "r \<notin> set (address_roles s' t)" "role_expiry s' r t = None"
    using assms(1) by (simp_all add: s' access_inv_def grants_ok_def)
  moreover have "get_role_member_count r s' = (if has_role env t r s
      then saturating_sub (get_role_member_count r s) 1 else get_role_member_count r s)"
    by (simp add: s' get_role_member_count_def has_role_def)
  ultimately show ?thesis using direct by simp
qed

lemma sat_sub_add_1: "saturating_add (saturating_sub c 1) 1 = max 1 (c :: u32)"
proof -
  have "unat c < 2 ^ LENGTH(32)" by (rule unsigned_less)
  then show ?thesis
    by (auto simp: word_unat_eq_iff unat_saturating_add unat_saturating_sub max_def word_conv)
qed

text \<open>
  A transfer of membership moves the direct grant with its expiry: the destination holds it
  exactly until the expiry of the source, the source no longer holds it directly, no other grant
  changes and the member count stays the same (or becomes 1 if it was 0).
\<close>

theorem transfer_membership_effect:
  assumes "transfer_role_membership env c r from to s = Inr ((), s')" and "from \<noteq> to"
  shows "\<exists>x. role_expiry s r from = Some x \<and> role_expiry s' r to = Some x
    \<and> has_direct_role_internal env' s' to r = (timestamp env' \<le> x)
    \<and> \<not> has_direct_role_internal env' s' from r
    \<and> (\<forall>q a. (q, a) \<noteq> (r, from) \<and> (q, a) \<noteq> (r, to) \<longrightarrow>
         has_role_key s' q a = has_role_key s q a \<and> role_expiry s' q a = role_expiry s q a)
    \<and> get_role_member_count r s' = max 1 (get_role_member_count r s)"
proof -
  from assms obtain x s2 where act: "has_role_internal env s from r"
    and x: "role_expiry s r from = Some x"
    and t: "track_role_in_all_roles r (deactivate_role_grant env r from s) = Inr s2"
    and s': "s' = publish ''role_revoked'' (VTuple [VStr r, VAddr from])
               (publish ''role_granted'' (VTuple [VAddr to, VStr r, VU64 x])
                 (activate_role_grant r to x False s2))"
    unfolding transfer_role_membership_iff by auto
  from track_role_keeps [OF t] obtain rs where s2: "s2 = (deactivate_role_grant env r from s)\<lparr>all_roles := rs\<rparr>"
    by blast
  have "get_role_member_count r s' = max 1 (get_role_member_count r s)"
    using act by (simp add: s' s2 get_role_member_count_def sat_sub_add_1)
  moreover have "has_direct_role_internal env' s' to r = (timestamp env' \<le> x)"
    "\<not> has_direct_role_internal env' s' from r"
    using assms(2) by (simp_all add: s' s2 has_direct_role_internal_def not_less)
  ultimately show ?thesis using x assms(2) by (auto simp: s' s2)
qed

subsection \<open>The member count\<close>

definition active_members :: "access \<Rightarrow> string \<Rightarrow> address list" where
  "active_members s r = filter (\<lambda>a. \<not> is_blacklisted a s) (role_members s r)"

definition counts_exact :: "access \<Rightarrow> bool" where
  "counts_exact s \<longleftrightarrow> (\<forall>r. unat (get_role_member_count r s) = length (active_members s r))"

text \<open>No grant has lapsed at the time of the call.\<close>

definition none_lapsed :: "env \<Rightarrow> access \<Rightarrow> bool" where
  "none_lapsed env s \<longleftrightarrow> (\<forall>r a x. role_expiry s r a = Some x \<longrightarrow> timestamp env \<le> x)"

lemma grants_okD:
  "access_inv s \<Longrightarrow> a \<in> set (role_members s r) \<longleftrightarrow> has_role_key s r a \<noteq> None"
  "access_inv s \<Longrightarrow> r \<in> set (address_roles s a) \<longleftrightarrow> has_role_key s r a \<noteq> None"
  "access_inv s \<Longrightarrow> has_role_key s r a \<noteq> Some False"
  "access_inv s \<Longrightarrow> role_expiry s r a = None \<longleftrightarrow> has_role_key s r a = None"
  "access_inv s \<Longrightarrow> distinct (role_members s r)"
  "access_inv s \<Longrightarrow> distinct (address_roles s a)"
  unfolding access_inv_def grants_ok_def grant_indexed_def by blast+

lemma direct_iff_member:
  assumes "access_inv s" and "none_lapsed env s"
  shows "has_direct_role_internal env s a r \<longleftrightarrow> a \<in> set (role_members s r)"
  using grants_okD(1) [OF assms(1), of a r] grants_okD(3,4) [OF assms(1), of r a] assms(2)
  by (cases "has_role_key s r a")
    (auto simp: has_direct_role_internal_def none_lapsed_def not_less split: option.splits)

lemma is_blacklisted_writers [simp]:
  "is_blacklisted a (publish t d s) = is_blacklisted a s"
  "is_blacklisted a (activate_role_grant r b x w s) = is_blacklisted a s"
  "is_blacklisted a (deactivate_role_grant env r b s) = is_blacklisted a s"
  by (simp_all add: is_blacklisted_def)

lemma counts_cong:
  "role_member_count s' = role_member_count s \<Longrightarrow> role_members s' = role_members s \<Longrightarrow>
   blacklisted_key s' = blacklisted_key s \<Longrightarrow> counts_exact s' = counts_exact s"
  by (simp add: counts_exact_def active_members_def get_role_member_count_def is_blacklisted_def)

lemma counts_publish [simp]: "counts_exact (publish t d s) = counts_exact s"
  by (rule counts_cong) simp_all

lemma deactivate_counts:
  assumes "access_inv s" and "none_lapsed env s" and "counts_exact s" and "has_role_key s r t \<noteq> None"
  shows "counts_exact (deactivate_role_grant env r t s)"
proof -
  let ?s = "deactivate_role_grant env r t s"
  from assms(1,4) have t: "t \<in> set (role_members s r)" by (simp add: grants_okD)
  have act: "active_members ?s q = (if q = r then remove1 t (active_members s r) else active_members s q)" for q
    by (simp add: active_members_def filter_remove1)
  have "has_role_internal env s t r \<longleftrightarrow> t \<in> set (active_members s r)"
    using t assms(1,2) has_role_direct has_role_sound
    by (auto simp: active_members_def direct_iff_member)
  with assms(3) show ?thesis
    by (auto simp: counts_exact_def act get_role_member_count_def length_remove1 unat_saturating_sub
        remove1_idem)
qed

lemma activate_counts:
  assumes "counts_exact s" and "\<not> is_blacklisted a s"
    and "w \<longleftrightarrow> a \<in> set (role_members s r)"
    and "\<not> w \<longrightarrow> unat (get_role_member_count r s) + 1 < 2 ^ 32"
  shows "counts_exact (activate_role_grant r a x w s)"
proof -
  let ?s = "activate_role_grant r a x w s"
  have "active_members ?s q = (if q = r \<and> \<not> w then active_members s r @ [a] else active_members s q)" for q
    using assms(2,3) by (auto simp: active_members_def)
  with assms show ?thesis
    by (auto simp: counts_exact_def get_role_member_count_def unat_saturating_add)
qed

lemma grant_internal_counts:
  assumes "access_inv s" and "none_lapsed env s" and "counts_exact s"
    and "grant_role_internal env r e a s = Inr s'"
  shows "counts_exact s' \<and> none_lapsed env s'"
proof -
  from assms(4) obtain x w s1 where g: "grant_checks env a r e s = Inr (x, w)"
    and cap: "check_grant_cap a r s = Inr ()" and t: "track_role_in_all_roles r s = Inr s1"
    and s': "s' = publish ''role_granted'' (VTuple [VAddr a, VStr r, VU64 x])
               (activate_role_grant r a x w s1)"
    unfolding grant_internal_iff by blast
  from track_role_keeps [OF t] obtain rs where s1: "s1 = s\<lparr>all_roles := rs\<rparr>" by blast
  have w: "w \<longleftrightarrow> a \<in> set (role_members s r)"
    using g assms(1,2) has_role_direct direct_iff_member grants_okD(1) [OF assms(1)]
    by (auto simp: grant_checks_iff)
  have "unat (get_role_member_count r s) + 1 < 2 ^ LENGTH(32)" if "\<not> w"
  proof -
    from that cap w have "get_role_member_count r s < snd (role_limits_internal s)"
      by (simp add: check_grant_cap_iff)
    then show ?thesis
      using unsigned_less [of "snd (role_limits_internal s)", where ?'a = nat] by (simp add: word_conv)
  qed
  moreover have "counts_exact s1" using assms(3) s1 counts_cong [of s1 s] by simp
  ultimately have "counts_exact (activate_role_grant r a x w s1)"
    using w g by (intro activate_counts)
      (simp_all add: s1 grant_checks_iff is_blacklisted_def get_role_member_count_def)
  moreover have "none_lapsed env s'"
    using assms(2) grant_expiry_valid [OF g] by (auto simp: none_lapsed_def s' s1 split: if_splits)
  ultimately show ?thesis by (simp add: s')
qed

lemma grant_batch_counts:
  assumes "access_inv s" and "none_lapsed env s" and "counts_exact s"
    and "batch_loop (grant_role_internal env r e) err ff i as s b = Inr (b', s')"
  shows "counts_exact s'"
proof -
  have "access_inv s' \<and> none_lapsed env s' \<and> counts_exact s'"
    by (rule batch_loop_invar [where P = "\<lambda>s. access_inv s \<and> none_lapsed env s \<and> counts_exact s",
          OF _ _ assms(4)])
      (use assms(1-3) grant_internal_inv grant_internal_counts in \<open>blast+\<close>)
  then show ?thesis by blast
qed

lemma transfer_counts:
  assumes "access_inv s" and "none_lapsed env s" and "counts_exact s"
    and "transfer_role_membership env c r from to s = Inr ((), s')"
  shows "counts_exact s'"
proof (cases "from = to")
  case False
  with assms(4) obtain x s2 where act: "has_role_internal env s from r" "\<not> has_role_internal env s to r"
    "\<not> is_blacklisted to s" and x: "role_expiry s r from = Some x"
    and t: "track_role_in_all_roles r (deactivate_role_grant env r from s) = Inr s2"
    and s': "s' = publish ''role_revoked'' (VTuple [VStr r, VAddr from])
               (publish ''role_granted'' (VTuple [VAddr to, VStr r, VU64 x])
                 (activate_role_grant r to x False s2))"
    unfolding transfer_role_membership_iff by auto
  let ?s1 = "deactivate_role_grant env r from s"
  from track_role_keeps [OF t] obtain rs where s2: "s2 = ?s1\<lparr>all_roles := rs\<rparr>" by blast
  have key: "has_role_key s r from \<noteq> None" using x grants_okD(4) [OF assms(1), of r "from"] by auto
  have "to \<notin> set (role_members s r)"
    using act(2,3) has_role_direct direct_iff_member [OF assms(1,2)] by auto
  then have "to \<notin> set (role_members s2 r)" by (simp add: s2 notin_set_remove1)
  moreover have "counts_exact s2"
    using deactivate_counts [OF assms(1-3) key] counts_cong [of s2 ?s1] by (simp add: s2)
  moreover have "unat (get_role_member_count r s2) + 1 < 2 ^ LENGTH(32)"
  proof -
    have "from \<in> set (active_members s r)"
      using key act(1) grants_okD(1) [OF assms(1)] by (auto simp: active_members_def dest: has_role_sound)
    then have "0 < unat (get_role_member_count r s)"
      using assms(3) by (auto simp: counts_exact_def length_pos_if_in_set)
    moreover have "get_role_member_count r s2 = saturating_sub (get_role_member_count r s) 1"
      using act(1) by (simp add: s2 get_role_member_count_def)
    moreover have "unat (get_role_member_count r s) < 2 ^ LENGTH(32)" by (rule unsigned_less)
    ultimately show ?thesis by (simp add: unat_saturating_sub)
  qed
  ultimately have "counts_exact (activate_role_grant r to x False s2)"
    using act(3) by (intro activate_counts) (simp_all add: s2 is_blacklisted_def)
  then show ?thesis by (simp add: s')
qed (use assms in \<open>simp add: transfer_role_membership_iff\<close>)

text \<open>The state after the two blacklist calls, with the counts they leave.\<close>

definition recount :: "env \<Rightarrow> address \<Rightarrow> bool \<Rightarrow> access \<Rightarrow> string \<Rightarrow> u32 option" where
  "recount env t inc s = (\<lambda>r. if r \<in> set (address_roles s t) \<and> has_direct_role_internal env s t r
     then Some (adjusted inc (unwrap_or (role_member_count s r) 0)) else role_member_count s r)"

lemma blacklist_state:
  assumes "access_inv s" and "blacklist env c t s = Inr ((), s')" and "\<not> is_blacklisted t s"
  shows "\<exists>ev. s' = s\<lparr>role_member_count := recount env t False s,
     blacklisted_key := (blacklisted_key s)(t \<mapsto> True), events := ev\<rparr>"
proof -
  from assms(2,3) adjust_eq [OF grants_okD(6) [OF assms(1)], of env t False]
  have "s' = publish ''address_blacklisted'' (VAddr t) (s\<lparr>role_member_count := recount env t False s,
     blacklisted_key := (blacklisted_key s)(t \<mapsto> True)\<rparr>)"
    by (simp add: blacklist_iff recount_def)
  then show ?thesis unfolding publish_def by simp blast
qed

lemma unblacklist_state:
  assumes "access_inv s" and "unblacklist env c t s = Inr ((), s')" and "is_blacklisted t s"
  shows "\<exists>ev. s' = s\<lparr>role_member_count := recount env t True s,
     blacklisted_key := (blacklisted_key s)(t := None), events := ev\<rparr>"
proof -
  let ?s = "s\<lparr>blacklisted_key := (blacklisted_key s)(t := None)\<rparr>"
  have "distinct (address_roles ?s t)" using grants_okD(6) [OF assms(1)] by simp
  moreover have "has_direct_role_internal env ?s = has_direct_role_internal env s"
    by (rule has_direct_cong) simp_all
  ultimately have "s' = publish ''address_unblacklisted'' (VAddr t) (s\<lparr>role_member_count := recount env t True s,
     blacklisted_key := (blacklisted_key s)(t := None)\<rparr>)"
    using assms(2,3) by (simp add: unblacklist_iff recount_def adjust_eq cong: if_cong)
  then show ?thesis unfolding publish_def by simp blast
qed

lemma recount_live:
  assumes "access_inv s" and "none_lapsed env s"
  shows "recount env t inc s = (\<lambda>r. if t \<in> set (role_members s r)
     then Some (adjusted inc (unwrap_or (role_member_count s r) 0)) else role_member_count s r)"
  using grants_okD(1,2) [OF assms(1)] direct_iff_member [OF assms] by (auto simp: recount_def)

lemma filter_minus_one:
  "distinct xs \<Longrightarrow> x \<in> set xs \<Longrightarrow> P x \<Longrightarrow>
     length (filter P xs) = Suc (length (filter (\<lambda>y. P y \<and> y \<noteq> x) xs))"
  by (induction xs) (auto intro!: arg_cong [where f = length] filter_cong)

lemma blacklist_counts:
  assumes "access_inv s" and "none_lapsed env s" and "counts_exact s"
    and "blacklist env c t s = Inr ((), s')"
  shows "counts_exact s'"
proof (cases "is_blacklisted t s")
  case False
  from blacklist_state [OF assms(1,4) False] recount_live [OF assms(1,2)] obtain ev where
    s': "s' = s\<lparr>role_member_count := \<lambda>r. if t \<in> set (role_members s r)
            then Some (adjusted False (unwrap_or (role_member_count s r) 0)) else role_member_count s r,
       blacklisted_key := (blacklisted_key s)(t \<mapsto> True), events := ev\<rparr>" by auto
  have bl: "is_blacklisted a s' \<longleftrightarrow> a = t \<or> is_blacklisted a s" for a
    by (simp add: s' is_blacklisted_def)
  have "unat (get_role_member_count r s') = length (active_members s' r)" for r
  proof (cases "t \<in> set (role_members s r)")
    case True
    have "length (active_members s r) = Suc (length (active_members s' r))"
      using filter_minus_one [OF grants_okD(5) [OF assms(1)] True, of "\<lambda>a. \<not> is_blacklisted a s"] False
      by (simp add: active_members_def bl conj_commute) (simp add: s')
    with True assms(3) show ?thesis
      by (simp add: counts_exact_def get_role_member_count_def s' adjusted_def unat_saturating_sub)
  next
    case notin: False
    then have "active_members s' r = active_members s r"
      unfolding active_members_def bl by (auto simp: s' intro!: filter_cong)
    with notin assms(3) show ?thesis by (simp add: counts_exact_def get_role_member_count_def s')
  qed
  then show ?thesis by (simp add: counts_exact_def)
qed (use assms in \<open>simp add: blacklist_iff\<close>)

lemma unblacklist_counts:
  assumes "access_inv s" and "none_lapsed env s" and "counts_exact s"
    and "\<forall>r. length (role_members s r) < 2 ^ 32" and "unblacklist env c t s = Inr ((), s')"
  shows "counts_exact s'"
proof (cases "is_blacklisted t s")
  case True
  from unblacklist_state [OF assms(1,5) True] recount_live [OF assms(1,2)] obtain ev where
    s': "s' = s\<lparr>role_member_count := \<lambda>r. if t \<in> set (role_members s r)
            then Some (adjusted True (unwrap_or (role_member_count s r) 0)) else role_member_count s r,
       blacklisted_key := (blacklisted_key s)(t := None), events := ev\<rparr>" by auto
  have bl: "is_blacklisted a s' \<longleftrightarrow> a \<noteq> t \<and> is_blacklisted a s" for a
    by (simp add: s' is_blacklisted_def)
  have "unat (get_role_member_count r s') = length (active_members s' r)" for r
  proof (cases "t \<in> set (role_members s r)")
    case mem: True
    have less: "(\<not> is_blacklisted a s' \<and> a \<noteq> t) = (\<not> is_blacklisted a s)" for a
      using True by (auto simp: bl)
    have len: "length (active_members s' r) = Suc (length (active_members s r))"
      using filter_minus_one [OF grants_okD(5) [OF assms(1)] mem, of "\<lambda>a. \<not> is_blacklisted a s'"] True
      unfolding active_members_def less by (simp add: bl) (simp add: s')
    moreover have "length (active_members s' r) \<le> length (role_members s r)"
      unfolding active_members_def by (simp add: s')
    moreover have "length (role_members s r) < 2 ^ 32" using assms(4) by blast
    ultimately show ?thesis
      using mem assms(3)
      by (simp add: counts_exact_def get_role_member_count_def s' adjusted_def unat_saturating_add)
  next
    case notin: False
    then have "active_members s' r = active_members s r"
      unfolding active_members_def bl by (auto simp: s' intro!: filter_cong)
    with notin assms(3) show ?thesis by (simp add: counts_exact_def get_role_member_count_def s')
  qed
  then show ?thesis by (simp add: counts_exact_def)
qed (use assms in \<open>simp add: unblacklist_iff\<close>)

text \<open>
  As long as no grant has lapsed, the stored member count of every role is exact: every
  transaction keeps it equal to the number of listed members that are not blacklisted. (The host's
  vectors hold fewer than \<open>2^32\<close> entries.)
\<close>

theorem member_count_exact:
  assumes "access_inv s" and "counts_exact s" and "none_lapsed env s"
    and "\<forall>r. length (role_members s r) < 2 ^ 32"
    and "access_step env c s = Inr s'"
  shows "unat (get_role_member_count r s')
    = length (filter (\<lambda>a. \<not> is_blacklisted a s') (role_members s' r))"
proof -
  have "counts_exact s'"
  proof (cases c)
    case (AInitialize a)
    with assms counts_cong [of s' s] show ?thesis by (auto simp: returns_Inr_iff access_initialize_iff)
  next
    case (ASetLimits a m g)
    with assms counts_cong [of s' s] show ?thesis by (auto simp: returns_Inr_iff set_role_limits_iff)
  next
    case (AGrant a b q e)
    with assms show ?thesis
      by (auto simp: returns_Inr_iff grant_role_iff dest: grant_internal_counts [OF assms(1,3,2)])
  next
    case (AGrantBatch a bs q e ff)
    with assms show ?thesis
      by (auto simp: returns_Inr_iff grant_role_batch_iff dest: grant_batch_counts [OF assms(1,3,2)])
  next
    case (ARevoke a q t)
    with assms show ?thesis by (auto simp: returns_Inr_iff revoke_role_iff deactivate_counts)
  next
    case (ASetRoleAdmin a q b)
    with assms counts_cong [of s' s] show ?thesis
      by (auto simp: returns_Inr_iff set_role_admin_iff dest!: track_role_keeps)
  next
    case (ASetRoleParent a q p)
    with assms counts_cong [of s' s] show ?thesis
      by (auto simp: returns_Inr_iff set_role_parent_iff dest!: track_role_keeps)
  next
    case (ABlacklist a t)
    with assms show ?thesis by (auto simp: returns_Inr_iff dest: blacklist_counts [OF assms(1,3,2)])
  next
    case (AUnblacklist a t)
    with assms show ?thesis
      by (auto simp: returns_Inr_iff dest: unblacklist_counts [OF assms(1,3,2,4)])
  next
    case (ATransferMembership a q f t)
    with assms show ?thesis by (auto simp: returns_Inr_iff dest: transfer_counts [OF assms(1,3,2)])
  next
    case (ATransferSuperAdmin a n)
    with assms counts_cong [of s' s] show ?thesis
      by (auto simp: returns_Inr_iff transfer_super_admin_iff)
  next
    case (AExpire a q t)
    with assms show ?thesis by (auto simp: returns_Inr_iff expire_role_iff deactivate_counts)
  qed
  then show ?thesis by (simp add: counts_exact_def active_members_def)
qed

text \<open>
  While no grant has lapsed, \<open>unblacklist\<close> undoes \<open>blacklist\<close>: after blacklisting an
  address and taking it off the list again, the whole state is what it was, member counts included;
  only the two events are added.
\<close>

theorem blacklist_roundtrip:
  assumes "access_inv s" and "counts_exact s" and "none_lapsed env s" and "none_lapsed env' s"
    and "\<not> is_blacklisted t s"
    and "blacklist env c t s = Inr ((), s1)" and "unblacklist env' c' t s1 = Inr ((), s2)"
  shows "\<exists>ev. s2 = s\<lparr>events := ev\<rparr>"
proof -
  from blacklist_state [OF assms(1,6,5)] obtain ev1 where
    s1: "s1 = s\<lparr>role_member_count := recount env t False s,
       blacklisted_key := (blacklisted_key s)(t \<mapsto> True), events := ev1\<rparr>" by blast
  have inv1: "access_inv s1" using blacklist_keeps_inv [OF assms(1,6)] .
  have "is_blacklisted t s1" by (simp add: s1 is_blacklisted_def)
  from unblacklist_state [OF inv1 assms(7) this] obtain ev2 where
    s2: "s2 = s1\<lparr>role_member_count := recount env' t True s1,
       blacklisted_key := (blacklisted_key s1)(t := None), events := ev2\<rparr>" by blast
  have live: "none_lapsed env' s1" using assms(4) by (simp add: s1 none_lapsed_def)
  have "recount env' t True s1 r = role_member_count s r" for r
  proof (cases "t \<in> set (role_members s r)")
    case True
    then have "t \<in> set (active_members s r)" using assms(5) by (simp add: active_members_def)
    then have pos: "0 < unat (get_role_member_count r s)"
      using assms(2) by (auto simp: counts_exact_def length_pos_if_in_set)
    then obtain n where n: "role_member_count s r = Some n" "0 < unat n"
      by (cases "role_member_count s r") (auto simp: get_role_member_count_def)
    have "adjusted True (adjusted False n) = n"
      using n(2) by (auto simp: adjusted_def sat_sub_add_1 max_def word_conv)
    with True n show ?thesis
      unfolding recount_live [OF inv1 live] by (simp add: s1 recount_live [OF assms(1,3)])
  next
    case False
    then show ?thesis
      unfolding recount_live [OF inv1 live] by (simp add: s1 recount_live [OF assms(1,3)])
  qed
  then have "recount env' t True s1 = role_member_count s" by blast
  moreover have "blacklisted_key s t = None"
    using assms(1,5) by (cases "blacklisted_key s t")
      (auto simp: access_inv_def blacklist_ok_def is_blacklisted_def)
  then have "(blacklisted_key s)(t := None) = blacklisted_key s" by (simp add: fun_upd_idem)
  ultimately have "s2 = s\<lparr>events := ev2\<rparr>" unfolding s2 by (simp add: s1)
  then show ?thesis by blast
qed

subsection \<open>A small contract, for the witnesses\<close>

text \<open>Address 0 is the super-admin; address 4 holds \<open>op\<close> until second 10, address 2 for ever.\<close>

definition op :: string where "op = ''op''"

definition chief :: string where "chief = ''chief''"

definition access_demo :: access where
  "access_demo = \<lparr>admin_key = Some (Address 0), events = [],
     has_role_key = (\<lambda>r. if r = op then [Address 4 \<mapsto> True, Address 2 \<mapsto> True] else Map.empty),
     role_admin = Map.empty, blacklisted_key = Map.empty,
     role_members = (\<lambda>r. if r = op then [Address 4, Address 2] else []),
     role_member_count = [op \<mapsto> 2],
     address_roles = (\<lambda>a. if a = Address 4 \<or> a = Address 2 then [op] else []),
     role_expiry = (\<lambda>r. if r = op then [Address 4 \<mapsto> 10, Address 2 \<mapsto> U64_MAX] else Map.empty),
     role_parent = Map.empty, all_roles = [op, chief], role_limits = None\<rparr>"

definition at_time :: "u64 \<Rightarrow> env" where
  "at_time t = \<lparr>timestamp = t, sequence = 0, auth = (\<lambda>a. a = Address 0)\<rparr>"

lemma access_time_sel [simp]: "timestamp (at_time t) = t" "auth (at_time t) a \<longleftrightarrow> a = Address 0"
  by (simp_all add: at_time_def)

lemma access_demo_sel:
  "admin_key access_demo = Some (Address 0)"
  "has_role_key access_demo op = [Address 4 \<mapsto> True, Address 2 \<mapsto> True]"
  "role_members access_demo op = [Address 4, Address 2]"
  "role_expiry access_demo op = [Address 4 \<mapsto> 10, Address 2 \<mapsto> U64_MAX]"
  "role_parent access_demo = Map.empty" "all_roles access_demo = [op, chief]"
  "role_limits access_demo = None" "get_role_member_count op access_demo = 2"
  "\<not> is_blacklisted a access_demo" "role_admin access_demo = Map.empty"
  by (simp_all add: access_demo_def get_role_member_count_def is_blacklisted_def)

lemma access_demo_inv: "access_inv access_demo"
proof -
  have "{(r, p). parent_edge access_demo r p} = {}" by (simp add: parent_edge_def access_demo_def)
  then have "hierarchy_ok access_demo" by (simp add: hierarchy_ok_def acyclic_def)
  then show ?thesis
    by (simp add: access_inv_def grants_ok_def grant_indexed_def roles_ok_def blacklist_ok_def
        is_blacklisted_def)
      (auto simp: access_demo_def op_def chief_def)
qed

lemma access_demo_counts: "counts_exact access_demo"
  by (simp add: counts_exact_def active_members_def is_blacklisted_def get_role_member_count_def
      access_demo_def)

lemma access_demo_live: "t \<le> 10 \<Longrightarrow> none_lapsed (at_time t) access_demo"
  using u64_max_top [of t]
  by (auto simp: none_lapsed_def access_demo_def not_less split: if_splits)

lemma access_demo_held:
  "has_role_internal (at_time t) access_demo (Address 4) op \<longleftrightarrow> t \<le> 10"
proof -
  have "has_role_internal (at_time t) access_demo (Address 4) op
      \<longleftrightarrow> has_direct_role_internal (at_time t) access_demo (Address 4) op"
    unfolding has_role_internal_def by (subst has_role_walk.simps) (simp add: access_demo_sel)
  then show ?thesis by (simp add: has_direct_role_internal_def access_demo_sel not_less)
qed

theorem access_policy_needs_admin_witness:
  "admin_key (run_txs access_step access_demo [((at_time 0)\<lparr>auth := (\<lambda>_. False)\<rparr>, AInitialize (Address 9))])
     = Some (Address 0)"
  using access_policy_needs_admin [OF access_demo_inv, of "Address 0"
      "[((at_time 0)\<lparr>auth := (\<lambda>_. False)\<rparr>, AInitialize (Address 9))]"]
  by (simp add: access_demo_sel)

theorem set_role_parent_effect_witness:
  "\<exists>s'. set_role_parent (at_time 0) (Address 0) chief op access_demo = Inr ((), s')
     \<and> has_role (at_time 5) (Address 4) chief s' \<and> \<not> has_role (at_time 11) (Address 4) chief s'"
proof -
  have ok: "ensure_no_role_parent_cycle chief op access_demo = Inr ()"
    unfolding ensure_no_role_parent_cycle_def
    by (subst parent_walk.simps) (simp add: access_demo_sel op_def chief_def MAX_HIERARCHY_DEPTH_def)
  have track: "track_role_in_all_roles r access_demo = Inr access_demo" if "r = op \<or> r = chief" for r
    using that by (auto simp: track_role_in_all_roles_def access_demo_sel)
  from ok obtain s' where s': "set_role_parent (at_time 0) (Address 0) chief op access_demo = Inr ((), s')"
    by (simp add: set_role_parent_iff access_demo_sel track)
  have direct: "has_direct_role_internal (at_time t) access_demo (Address 4) r \<longleftrightarrow> r = op \<and> t \<le> 10" for t r
    by (simp add: has_direct_role_internal_def access_demo_def not_less)
  have "has_role (at_time t) (Address 4) chief s' \<longleftrightarrow> t \<le> 10" for t
    unfolding set_role_parent_effect [OF s'] inherits_def direct
    using access_demo_sel(5) by (auto simp: access_demo_sel chief_def op_def)
  with s' show ?thesis by simp
qed

theorem grant_role_effect_witness:
  "\<exists>s'. grant_role (at_time 0) (Address 0) (Address 3) op (Some 7) access_demo = Inr ((), s')
     \<and> has_role (at_time 0) (Address 3) op s' \<and> role_expiry s' op (Address 3) = Some 7"
proof -
  have "grant_checks (at_time 0) (Address 3) op (Some 7) access_demo = Inr (7, False)"
    by (simp add: grant_checks_iff access_demo_sel)
  moreover have "check_grant_cap (Address 3) op access_demo = Inr ()"
    by (simp add: check_grant_cap_iff access_demo_sel role_limits_internal_def DEFAULT_MAX_GRANTS_PER_ROLE_def)
  moreover have "track_role_in_all_roles op access_demo = Inr access_demo"
    by (simp add: track_role_in_all_roles_def access_demo_sel)
  ultimately obtain s' where s': "grant_role (at_time 0) (Address 0) (Address 3) op (Some 7) access_demo = Inr ((), s')"
    by (auto simp: grant_role_iff grant_internal_iff require_role_manager_Inr_iff access_demo_sel)
  from grant_role_effect [OF s', of "at_time 0"] s' show ?thesis
    by (auto simp: word_unat_eq_iff)
qed

theorem revoke_role_effect_witness:
  "\<exists>s'. revoke_role (at_time 20) (Address 0) op (Address 4) access_demo = Inr ((), s')
     \<and> Address 4 \<notin> set (role_members s' op) \<and> get_role_member_count op s' = 2"
proof -
  obtain s' where s': "revoke_role (at_time 20) (Address 0) op (Address 4) access_demo = Inr ((), s')"
    by (simp add: revoke_role_iff require_role_manager_Inr_iff access_demo_sel)
  have "\<not> has_role (at_time 20) (Address 4) op access_demo"
    by (simp add: has_role_def access_demo_held)
  with revoke_role_effect [OF access_demo_inv s'] s' show ?thesis by (simp add: access_demo_sel)
qed

theorem transfer_membership_effect_witness:
  "\<exists>s'. transfer_role_membership (at_time 5) (Address 0) op (Address 4) (Address 3) access_demo = Inr ((), s')
     \<and> role_expiry s' op (Address 3) = Some 10 \<and> get_role_member_count op s' = 2"
proof -
  have "\<not> has_role_internal (at_time 5) access_demo (Address 3) op"
    unfolding has_role_internal_def
    by (subst has_role_walk.simps) (simp add: access_demo_sel has_direct_role_internal_def)
  moreover have "has_role_internal (at_time 5) access_demo (Address 4) op"
    by (simp add: access_demo_held)
  ultimately obtain s' where
    s': "transfer_role_membership (at_time 5) (Address 0) op (Address 4) (Address 3) access_demo = Inr ((), s')"
    by (simp add: transfer_role_membership_iff require_role_manager_Inr_iff access_demo_sel
        track_role_in_all_roles_def)
  from transfer_membership_effect [OF s', of "at_time 0"] s' show ?thesis
    by (auto simp: access_demo_sel max_def)
qed

lemma access_demo_blacklist:
  "\<exists>s1. blacklist (at_time 1) (Address 0) (Address 4) access_demo = Inr ((), s1)
     \<and> admin_key s1 = Some (Address 0) \<and> \<not> is_blacklisted (Address 0) s1"
  using grants_okD(6) [OF access_demo_inv, of "Address 4"]
  by (simp add: blacklist_iff access_demo_sel adjust_eq is_blacklisted_def) (simp add: access_demo_def)

theorem member_count_exact_witness:
  "\<exists>s1. access_step (at_time 1) (ABlacklist (Address 0) (Address 4)) access_demo = Inr s1
     \<and> unat (get_role_member_count op s1) = length (filter (\<lambda>a. \<not> is_blacklisted a s1) (role_members s1 op))"
proof -
  from access_demo_blacklist obtain s1 where
    "blacklist (at_time 1) (Address 0) (Address 4) access_demo = Inr ((), s1)" by blast
  then have s1: "access_step (at_time 1) (ABlacklist (Address 0) (Address 4)) access_demo = Inr s1"
    by (simp add: returns_Inr_iff)
  have "\<forall>r. length (role_members access_demo r) < 2 ^ 32" by (simp add: access_demo_def)
  from member_count_exact [OF access_demo_inv access_demo_counts access_demo_live this s1] s1
  show ?thesis by auto
qed

theorem blacklist_roundtrip_witness:
  "\<exists>s1 s2 ev. blacklist (at_time 1) (Address 0) (Address 4) access_demo = Inr ((), s1)
     \<and> unblacklist (at_time 2) (Address 0) (Address 4) s1 = Inr ((), s2)
     \<and> s2 = access_demo\<lparr>events := ev\<rparr>"
proof -
  from access_demo_blacklist obtain s1 where
    s1: "blacklist (at_time 1) (Address 0) (Address 4) access_demo = Inr ((), s1)"
    and admin: "admin_key s1 = Some (Address 0)" "\<not> is_blacklisted (Address 0) s1" by blast
  obtain s2 where s2: "unblacklist (at_time 2) (Address 0) (Address 4) s1 = Inr ((), s2)"
    using admin by (cases "is_blacklisted (Address 4) s1") (auto simp: unblacklist_iff)
  have "\<not> is_blacklisted (Address 4) access_demo" by (simp add: access_demo_sel)
  from blacklist_roundtrip [OF access_demo_inv access_demo_counts _ _ this s1 s2] s1 s2
  show ?thesis using access_demo_live by simp
qed

lemmas access_eval = returns_def access_initialize_def set_role_limits_def grant_role_def revoke_role_def
  set_role_admin_def at_time_def require_auth_def require_super_admin_def require_role_manager_def is_blacklisted_def
  grant_role_internal_def grant_checks_def check_grant_cap_def track_role_in_all_roles_def
  role_limits_internal_def DEFAULT_MAX_ROLES_def DEFAULT_MAX_GRANTS_PER_ROLE_def
  activate_role_grant_def deactivate_role_grant_def publish_def checked_add_def saturating_add_def
  has_role_internal_def has_role_walk.simps has_direct_role_internal_def MAX_HIERARCHY_DEPTH_def
  U64_MAX_def access_empty_def get_role_member_count_def

text \<open>The admin of one role grants it; the grants of the other role stay.\<close>

theorem grant_authority_witness:
  "\<exists>s'. access_step ((at_time 0)\<lparr>auth := (\<lambda>a. a = Address 3)\<rparr>) (AGrant (Address 3) (Address 4) chief None)
        (run_txs access_step access_empty
           [(at_time 0, AInitialize (Address 0)), (at_time 0, ASetRoleAdmin (Address 0) chief (Address 3))]) = Inr s'
     \<and> has_role_key s' op (Address 4) = None"
proof -
  let ?env = "(at_time 0)\<lparr>auth := (\<lambda>a. a = Address 3)\<rparr>"
  let ?txs = "[(at_time 0, AInitialize (Address 0)), (at_time 0, ASetRoleAdmin (Address 0) chief (Address 3))]"
  let ?s = "run_txs access_step access_empty ?txs"
  obtain s' where s': "access_step ?env (AGrant (Address 3) (Address 4) chief None) ?s = Inr s'"
    by (simp add: access_eval Let_def)
  have "\<not> manager_signed ?env ?s op"
    by (simp add: manager_signed_def access_eval Let_def op_def chief_def)
  from grant_authority [OF s' this, of "Address 4"] s' show ?thesis
    by (simp add: access_eval Let_def)
qed

text \<open>A cap of one member; the member's grant lapses at second 10 and is revoked at second 20.\<close>

definition lapsed_run :: access where
  "lapsed_run = run_txs access_step access_empty
     [(at_time 0, AInitialize (Address 0)), (at_time 0, ASetLimits (Address 0) None (Some 1)),
      (at_time 0, AGrant (Address 0) (Address 4) op (Some 10)),
      (at_time 20, ARevoke (Address 0) op (Address 4))]"

text \<open>
  A revoked grant that had lapsed stays in the member count for good: there is a run after which
  a role has no member at all, its count is 1, and with a cap of one member the role can be granted
  to nobody.
\<close>

theorem lapsed_revocation_fills_role:
  "role_members lapsed_run op = [] \<and> get_role_member_count op lapsed_run = 1
     \<and> grant_role (at_time 20) (Address 0) (Address 3) op None lapsed_run
       = Inl (Err MaxGrantsPerRoleExceeded)"
  by (simp add: lapsed_run_def access_eval Let_def)

text \<open>Roles linked from the bottom up: every link is accepted, at depth 1.\<close>

definition rung :: "nat \<Rightarrow> string" where
  "rung n = replicate n CHR ''r''"

definition ladder_txs :: "nat \<Rightarrow> (env \<times> access_call) list" where
  "ladder_txs n = (at_time 0, AInitialize (Address 0)) #
     map (\<lambda>i. (at_time 0, ASetRoleParent (Address 0) (rung i) (rung (Suc i)))) [0..<n]"

definition ladder_state :: "nat \<Rightarrow> access \<Rightarrow> bool" where
  "ladder_state n s \<longleftrightarrow> admin_key s = Some (Address 0) \<and> blacklisted_key s = Map.empty
     \<and> role_limits s = None \<and> has_role_key s = (\<lambda>_. Map.empty) \<and> role_members s = (\<lambda>_. [])
     \<and> role_member_count s = Map.empty
     \<and> (\<forall>i. role_parent s (rung i) = (if i < n then Some (rung (Suc i)) else None))
     \<and> all_roles s = (if n = 0 then [] else map rung [0..<Suc n])"

lemma rung_eq [simp]: "rung i = rung j \<longleftrightarrow> i = j"
  by (metis rung_def length_replicate)

lemma rung_mem [simp]: "rung i \<in> rung ` A \<longleftrightarrow> i \<in> A"
  by auto

lemma ladder_extend:
  assumes "ladder_state n s" and "n < 90"
  shows "\<exists>s'. access_step (at_time 0) (ASetRoleParent (Address 0) (rung n) (rung (Suc n))) s = Inr s'
    \<and> ladder_state (Suc n) s'"
proof -
  let ?s1 = "s\<lparr>all_roles := map rung [0..<Suc n]\<rparr>" and ?s2 = "s\<lparr>all_roles := map rung [0..<Suc (Suc n)]\<rparr>"
  from assms(1) have cycle: "ensure_no_role_parent_cycle (rung n) (rung (Suc n)) s = Inr ()"
    unfolding ensure_no_role_parent_cycle_def
    by (subst parent_walk.simps) (simp add: ladder_state_def MAX_HIERARCHY_DEPTH_def)
  have t1: "track_role_in_all_roles (rung n) s = Inr ?s1"
    using assms(1) unfolding track_role_Inr_iff
    by (cases n) (auto simp: ladder_state_def role_limits_internal_def DEFAULT_MAX_ROLES_def)
  have t2: "track_role_in_all_roles (rung (Suc n)) ?s1 = Inr ?s2"
    using assms unfolding track_role_Inr_iff
    by (simp add: ladder_state_def role_limits_internal_def DEFAULT_MAX_ROLES_def)
  show ?thesis
    using assms(1) cycle t1 t2
    by (simp add: returns_Inr_iff set_role_parent_iff ladder_state_def is_blacklisted_def)
qed

lemma ladder_run:
  "n \<le> 90 \<Longrightarrow> ladder_state n (run_txs access_step access_empty (ladder_txs n))"
proof (induction n)
  case 0
  show ?case by (simp add: ladder_txs_def ladder_state_def access_eval)
next
  case (Suc n)
  then obtain s' where "access_step (at_time 0) (ASetRoleParent (Address 0) (rung n) (rung (Suc n)))
      (run_txs access_step access_empty (ladder_txs n)) = Inr s'" "ladder_state (Suc n) s'"
    using ladder_extend by force
  moreover have "ladder_txs (Suc n)
      = ladder_txs n @ [(at_time 0, ASetRoleParent (Address 0) (rung n) (rung (Suc n)))]"
    by (simp add: ladder_txs_def)
  ultimately show ?case by (simp add: run_txs_append)
qed

lemma ladder_grant:
  assumes "ladder_state n s" and "0 < n"
  shows "\<exists>s'. access_step (at_time 0) (AGrant (Address 0) (Address 4) (rung n) None) s = Inr s'
    \<and> role_parent s' = role_parent s \<and> blacklisted_key s' = Map.empty
    \<and> (\<forall>r. has_direct_role_internal (at_time 0) s' (Address 4) r \<longleftrightarrow> r = rung n)"
proof -
  have "rung n \<in> set (all_roles s)" using assms by (simp add: ladder_state_def)
  then have t: "track_role_in_all_roles (rung n) s = Inr s"
    by (simp add: track_role_in_all_roles_def)
  have g: "grant_checks (at_time 0) (Address 4) (rung n) None s = Inr (U64_MAX, False)"
    using assms(1) by (simp add: grant_checks_iff ladder_state_def is_blacklisted_def)
  have c: "check_grant_cap (Address 4) (rung n) s = Inr ()"
    using assms(1) by (simp add: check_grant_cap_iff ladder_state_def get_role_member_count_def
        role_limits_internal_def DEFAULT_MAX_GRANTS_PER_ROLE_def)
  let ?s' = "publish ''role_granted'' (VTuple [VAddr (Address 4), VStr (rung n), VU64 U64_MAX])
    (activate_role_grant (rung n) (Address 4) U64_MAX False s)"
  have "access_step (at_time 0) (AGrant (Address 0) (Address 4) (rung n) None) s = Inr ?s'"
    using assms(1) t g c
    by (auto simp: returns_Inr_iff grant_role_iff grant_internal_iff require_role_manager_Inr_iff
        ladder_state_def is_blacklisted_def)
  moreover have "role_parent ?s' = role_parent s \<and> blacklisted_key ?s' = Map.empty"
    using assms(1) by (simp add: ladder_state_def)
  moreover have "has_direct_role_internal (at_time 0) ?s' (Address 4) r \<longleftrightarrow> r = rung n" for r
    using assms(1) u64_max_top [of 0]
    by (auto simp: has_direct_role_internal_def ladder_state_def split: option.splits)
  ultimately show ?thesis by blast
qed

lemma ladder_path:
  assumes "\<forall>i. role_parent s (rung i) = (if i < n then Some (rung (Suc i)) else None)"
  shows "(parent_edge s ^^ k) (rung i) q \<longleftrightarrow> q = rung (i + k) \<and> (k = 0 \<or> i + k \<le> n)"
proof (induction k arbitrary: q)
  case (Suc k)
  then show ?case using assms by (auto simp: parent_edge_def relcompp_apply split: if_splits)
qed auto

text \<open>
  The depth limit is checked only above the new edge, not below it: for every number of
  roles there is a run, all of whose links are accepted, that ends with a hierarchy in which the
  holder of the top role holds a role exactly when it is fewer than 16 links below the top,
  although every role of the ladder inherits from the top.
\<close>

theorem ladder_truncated:
  "\<forall>n \<le> 90. 0 < n \<longrightarrow> (\<exists>s'. access_step (at_time 0) (AGrant (Address 0) (Address 4) (rung n) None)
       (run_txs access_step access_empty (ladder_txs n)) = Inr s'
     \<and> (\<forall>i \<le> n. inherits (at_time 0) s' (Address 4) (rung i))
     \<and> (\<forall>i \<le> n. has_role (at_time 0) (Address 4) (rung i) s' \<longleftrightarrow> n - i < MAX_HIERARCHY_DEPTH))"
proof (intro allI impI)
  fix n :: nat
  assume n: "n \<le> 90" "0 < n"
  let ?s = "run_txs access_step access_empty (ladder_txs n)"
  from ladder_grant [OF ladder_run [OF n(1)] n(2)] obtain s' where
    s': "access_step (at_time 0) (AGrant (Address 0) (Address 4) (rung n) None) ?s = Inr s'"
    "role_parent s' = role_parent ?s" "blacklisted_key s' = Map.empty"
    and direct: "\<And>r. has_direct_role_internal (at_time 0) s' (Address 4) r \<longleftrightarrow> r = rung n" by blast
  have path: "(parent_edge s' ^^ k) (rung i) q \<longleftrightarrow> q = rung (i + k) \<and> (k = 0 \<or> i + k \<le> n)" for k i q
    by (rule ladder_path) (use ladder_run [OF n(1)] s'(2) in \<open>simp add: ladder_state_def\<close>)
  have "inherits (at_time 0) s' (Address 4) (rung i)" if "i \<le> n" for i
  proof -
    have "(parent_edge s' ^^ (n - i)) (rung i) (rung n)" using that by (simp add: path)
    then show ?thesis unfolding inherits_def direct by (blast dest: relpowp_imp_rtranclp)
  qed
  moreover have "has_role (at_time 0) (Address 4) (rung i) s' \<longleftrightarrow> n - i < MAX_HIERARCHY_DEPTH" if "i \<le> n" for i
  proof -
    have "(\<exists>k q. k < MAX_HIERARCHY_DEPTH \<and> (parent_edge s' ^^ k) (rung i) q \<and> q = rung n)
        \<longleftrightarrow> n - i < MAX_HIERARCHY_DEPTH"
      using that unfolding path by (metis add_diff_cancel_left' le_add_diff_inverse order_refl rung_eq)
    then show ?thesis
      using s'(3) by (simp add: has_role_def has_role_iff direct is_blacklisted_def)
  qed
  ultimately show "\<exists>s'. access_step (at_time 0) (AGrant (Address 0) (Address 4) (rung n) None) ?s = Inr s'
     \<and> (\<forall>i \<le> n. inherits (at_time 0) s' (Address 4) (rung i))
     \<and> (\<forall>i \<le> n. has_role (at_time 0) (Address 4) (rung i) s' \<longleftrightarrow> n - i < MAX_HIERARCHY_DEPTH)"
    using s'(1) by blast
qed

theorem ladder_truncated_witness:
  "\<exists>s'. inherits (at_time 0) s' (Address 4) (rung 0) \<and> \<not> has_role (at_time 0) (Address 4) (rung 0) s'"
  using ladder_truncated [rule_format, of 16] by (auto simp: MAX_HIERARCHY_DEPTH_def)

end
