(* ===== verification/Core.thy ===== *)
theory Core
  imports Common
begin

text \<open>
  The contract router-core (\<open>contracts/router-core/src/lib.rs\<close> and \<open>scoring.rs\<close>): the
  routing table. Routes have a name, an address, an optional expiry ledger, a pause flag, metadata
  with tags, a score, aliases, and dependencies with a reverse index; the highest-scoring route is
  cached. The crate holds two versions of \<open>recompute_best_route\<close>, both modelled.
\<close>

subsection \<open>State\<close>

datatype resolve_error = RouterPaused | RouteNotFound | RoutePaused | NotInitialized | RouteExpired

text \<open>The variants \<open>Ok\<close> and \<open>Err\<close> of \<open>BatchResolveResult\<close>.\<close>

datatype batch_resolve_result = Resolved address | Unresolved resolve_error

datatype router_error = AlreadyInitialized | NotInitialized | Unauthorized | RouteNotFound
  | RoutePaused | RouterPaused | RouteAlreadyExists | InvalidRouteName | InvalidMetadata
  | CircularDependency | RouteInUse | InvalidAddress | RouteExpired | InvalidScore
  | InvalidTtlExtension | RecursionLimitExceeded | TooManyRoutes | InvalidScoringWeights

record route_metadata =
  description :: string
  tags :: "string list"
  md_owner :: address

record route_entry =
  rt_address :: address
  rt_name :: string
  rt_paused :: bool
  updated_by :: address
  rt_expires_at :: "u32 option"

record route_register_input =
  ri_name :: string
  ri_address :: address

record route_score =
  liquidity_score :: u32
  fee_bps :: u32
  reliability_score :: u32

record route_score_input =
  si_name :: string
  si_score :: route_score

record scoring_weights =
  liquidity_weight :: i64
  reliability_weight :: i64
  fee_divisor :: i64

record router_stats =
  total_routes :: u32
  active_routes :: u32
  paused_routes :: u32
  expired_routes :: u32
  alias_count :: u32
  scored_routes :: u32

text \<open>
  One field per storage key. The list-valued keys (\<open>RouteNames\<close>, \<open>Aliases\<close>,
  \<open>Dependencies\<close>, \<open>Dependents\<close>) read as empty when absent, as every reader of them does.
\<close>

record router = contract +
  route_key :: "string \<Rightarrow> route_entry option"
  route_names :: "string list"
  route_count_key :: "u32 option"
  max_routes_key :: "u32 option"
  paused_key :: "bool option"
  total_routed_key :: "u64 option"
  alias_key :: "string \<Rightarrow> string option"
  alias_names :: "string list"
  score_key :: "string \<Rightarrow> route_score option"
  metadata_key :: "string \<Rightarrow> route_metadata option"
  dependencies_key :: "string \<Rightarrow> string list"
  dependents_key :: "string \<Rightarrow> string list"
  best_route_key :: "string option"
  scoring_weights_key :: "scoring_weights option"

definition router_empty :: router where
  "router_empty = \<lparr>admin_key = None, events = [], route_key = Map.empty, route_names = [],
     route_count_key = None, max_routes_key = None, paused_key = None, total_routed_key = None,
     alias_key = Map.empty, alias_names = [], score_key = Map.empty, metadata_key = Map.empty,
     dependencies_key = (\<lambda>_. []), dependents_key = (\<lambda>_. []), best_route_key = None,
     scoring_weights_key = None\<rparr>"

definition MAX_METADATA_DESCRIPTION_LEN :: nat where
  "MAX_METADATA_DESCRIPTION_LEN = 256"

definition MAX_METADATA_TAGS :: nat where
  "MAX_METADATA_TAGS = 5"

definition MAX_METADATA_TAG_LEN :: nat where
  "MAX_METADATA_TAG_LEN = 256"

definition MAX_SCORE_VALUE :: u32 where
  "MAX_SCORE_VALUE = 100"

definition DEFAULT_MAX_ROUTES :: u32 where
  "DEFAULT_MAX_ROUTES = 1000"

definition MAX_SCORING_WEIGHT :: i64 where
  "MAX_SCORING_WEIGHT = 1000"

definition DEFAULT_SCORING_WEIGHTS :: scoring_weights where
  "DEFAULT_SCORING_WEIGHTS = \<lparr>liquidity_weight = 1, reliability_weight = 1, fee_divisor = 10\<rparr>"

definition MAX_RECURSION_DEPTH :: nat where
  "MAX_RECURSION_DEPTH = 10"

text \<open>The identifier of the address with the all-zero key.\<close>

definition ZERO_ADDRESS :: address where
  "ZERO_ADDRESS = Address 0"

definition I64_MIN :: i64 where
  "I64_MIN = word_of_int (- (2 ^ 63))"

definition is_route_expired :: "env \<Rightarrow> route_entry \<Rightarrow> bool" where
  "is_route_expired env entry \<longleftrightarrow>
     (case rt_expires_at entry of None \<Rightarrow> False | Some ex \<Rightarrow> sequence env > ex)"

subsection \<open>Validation\<close>

definition validate_score :: "route_score \<Rightarrow> (router_error, unit) res" where
  "validate_score score =
     reject_if (liquidity_score score > MAX_SCORE_VALUE \<or> fee_bps score > MAX_SCORE_VALUE
       \<or> reliability_score score > MAX_SCORE_VALUE) InvalidScore"

definition name_byte :: "char \<Rightarrow> bool" where
  "name_byte c \<longleftrightarrow> (let b = of_char c :: nat in
     (97 \<le> b \<and> b \<le> 122) \<or> (65 \<le> b \<and> b \<le> 90) \<or> (48 \<le> b \<and> b \<le> 57) \<or> b = 45 \<or> b = 47)"

definition validate_route_name :: "router \<Rightarrow> string \<Rightarrow> (router_error, unit) res" where
  "validate_route_name s name =
     bindr (reject_if (length name = 0 \<or> length name > 64) InvalidRouteName) (\<lambda>_.
     bindr (for_each (\<lambda>b. reject_if (\<not> name_byte b) InvalidRouteName) name) (\<lambda>_.
     bindr (reject_if (route_key s name \<noteq> None) RouteAlreadyExists) (\<lambda>_.
     reject_if (alias_key s name \<noteq> None) RouteAlreadyExists)))"

definition validate_metadata :: "route_metadata \<Rightarrow> (router_error, unit) res" where
  "validate_metadata meta =
     bindr (reject_if (length (description meta) > MAX_METADATA_DESCRIPTION_LEN
         \<or> length (tags meta) > MAX_METADATA_TAGS) InvalidMetadata) (\<lambda>_.
     for_each (\<lambda>tag.
       bindr (reject_if (length tag = 0 \<or> length tag > MAX_METADATA_TAG_LEN) InvalidMetadata) (\<lambda>_.
       reject_if (\<forall>b\<in>set tag. b = CHR '' '') InvalidMetadata)) (tags meta))"

definition validate_some_metadata :: "route_metadata option \<Rightarrow> (router_error, unit) res" where
  "validate_some_metadata metadata =
     (case metadata of None \<Rightarrow> Inr () | Some meta \<Rightarrow> validate_metadata meta)"

definition is_zero_address :: "address \<Rightarrow> bool" where
  "is_zero_address a \<longleftrightarrow> a = ZERO_ADDRESS"

fun router_error_to_batch :: "router_error \<Rightarrow> batch_item_error" where
  "router_error_to_batch RouteAlreadyExists = AlreadyExists"
| "router_error_to_batch InvalidRouteName = InvalidName"
| "router_error_to_batch InvalidMetadata = batch_item_error.InvalidMetadata"
| "router_error_to_batch Unauthorized = batch_item_error.Unauthorized"
| "router_error_to_batch RouteNotFound = Custom ''RouteNotFound''"
| "router_error_to_batch AlreadyInitialized = Custom ''AlreadyInitialized''"
| "router_error_to_batch NotInitialized = Custom ''NotInitialized''"
| "router_error_to_batch RoutePaused = Custom ''RoutePaused''"
| "router_error_to_batch RouterPaused = Custom ''RouterPaused''"
| "router_error_to_batch CircularDependency = Custom ''CircularDependency''"
| "router_error_to_batch RouteInUse = Custom ''RouteInUse''"
| "router_error_to_batch InvalidAddress = Custom ''InvalidAddress''"
| "router_error_to_batch RouteExpired = Custom ''RouteExpired''"
| "router_error_to_batch InvalidScore = Custom ''InvalidScore''"
| "router_error_to_batch TooManyRoutes = Custom ''TooManyRoutes''"
| "router_error_to_batch InvalidTtlExtension = Custom ''InvalidTtlExtension''"
| "router_error_to_batch RecursionLimitExceeded = Custom ''RecursionLimitExceeded''"
| "router_error_to_batch InvalidScoringWeights = Custom ''InvalidScoringWeights''"

subsection \<open>Scoring\<close>

definition scoring_weights_internal :: "router \<Rightarrow> scoring_weights" where
  "scoring_weights_internal s = unwrap_or (scoring_weights_key s) DEFAULT_SCORING_WEIGHTS"

text \<open>The composite score; \<open>as i64\<close> of an unsigned 32-bit value loses nothing.\<close>

definition composite_score :: "scoring_weights \<Rightarrow> route_score \<Rightarrow> (router_error, i64) res" where
  "composite_score weights score =
     bindr (expect (checked_mul_i64 (liquidity_weight weights) (ucast (liquidity_score score)))) (\<lambda>a.
     bindr (expect (checked_mul_i64 (reliability_weight weights) (ucast (reliability_score score)))) (\<lambda>b.
     bindr (expect (checked_add_i64 a b)) (\<lambda>sum.
     bindr (expect (checked_div_i64 (ucast (fee_bps score)) (fee_divisor weights))) (\<lambda>fee.
     expect (checked_sub_i64 sum fee)))))"

text \<open>
  The scan all selections share: routes that are missing or not \<open>eligible\<close>, and routes without
  a score, are skipped; a later route replaces the best one only with a strictly higher score.
\<close>

fun best_loop ::
    "(route_entry \<Rightarrow> bool) \<Rightarrow> (route_score \<Rightarrow> (router_error, i64) res) \<Rightarrow> router \<Rightarrow> string list
      \<Rightarrow> string option \<Rightarrow> i64 \<Rightarrow> (router_error, string option \<times> i64) res" where
  "best_loop eligible composite s [] best_name best_score = Inr (best_name, best_score)"
| "best_loop eligible composite s (name # names) best_name best_score =
     (case route_key s name of
        None \<Rightarrow> best_loop eligible composite s names best_name best_score
      | Some e \<Rightarrow>
          if \<not> eligible e then best_loop eligible composite s names best_name best_score
          else (case score_key s name of
                  None \<Rightarrow> best_loop eligible composite s names best_name best_score
                | Some score \<Rightarrow>
                    bindr (composite score) (\<lambda>c.
                    if sint c > sint best_score
                    then best_loop eligible composite s names (Some name) c
                    else best_loop eligible composite s names best_name best_score)))"

definition cache_best :: "string option \<Rightarrow> i64 \<Rightarrow> router \<Rightarrow> router" where
  "cache_best best_name best_score s =
     (case best_name of
        Some name \<Rightarrow> publish ''best_route_selected'' (VTuple [VStr name, VI64 best_score])
                       (s\<lparr>best_route_key := Some name\<rparr>)
      | None \<Rightarrow> s\<lparr>best_route_key := None\<rparr>)"

text \<open>\<open>RouterCore::recompute_best_route\<close>, which does not look at the expiry.\<close>

definition recompute_best_route :: "router \<Rightarrow> (router_error, router) res" where
  "recompute_best_route s =
     bindr (best_loop (\<lambda>e. \<not> rt_paused e) (composite_score (scoring_weights_internal s)) s
              (route_names s) None I64_MIN) (\<lambda>(best_name, best_score).
     Inr (cache_best best_name best_score s))"

text \<open>\<open>scoring::recompute_best_route\<close>, which skips expired routes.\<close>

definition scoring_recompute_best_route :: "env \<Rightarrow> router \<Rightarrow> (router_error, router) res" where
  "scoring_recompute_best_route env s =
     bindr (best_loop (\<lambda>e. \<not> rt_paused e \<and> \<not> is_route_expired env e)
              (composite_score (scoring_weights_internal s)) s (route_names s) None I64_MIN)
       (\<lambda>(best_name, best_score).
     Inr (cache_best best_name best_score s))"

subsection \<open>Registration and removal\<close>

definition core_initialize ::
    "env \<Rightarrow> address \<Rightarrow> u32 option \<Rightarrow> router \<Rightarrow> (router_error, unit, router) tx" where
  "core_initialize env admin max_routes s =
     bindr (require_auth env admin) (\<lambda>_.
     bindr (reject_if (admin_key s \<noteq> None) AlreadyInitialized) (\<lambda>_.
     bindr (reject_if (max_routes = Some 0) InvalidRouteName) (\<lambda>_.
     Inr ((), s\<lparr>admin_key := Some admin, route_names := [], alias_names := [],
                paused_key := Some False, total_routed_key := Some 0, route_count_key := Some 0,
                max_routes_key := Some (unwrap_or max_routes DEFAULT_MAX_ROUTES)\<rparr>))))"

text \<open>The writes both registration functions end with.\<close>

definition store_route ::
    "route_entry \<Rightarrow> route_metadata option \<Rightarrow> u32 \<Rightarrow> router \<Rightarrow> (router_error, router) res" where
  "store_route entry metadata n_routes s =
     (let name = rt_name entry;
          s1 = s\<lparr>route_key := (route_key s)(name \<mapsto> entry)\<rparr>;
          s2 = (case metadata of
                  Some meta \<Rightarrow> s1\<lparr>metadata_key := (metadata_key s1)(name \<mapsto> meta)\<rparr>
                | None \<Rightarrow> s1);
          s3 = s2\<lparr>route_names := route_names s2 @ [name]\<rparr>
      in bindr (expect (checked_add n_routes 1)) (\<lambda>n.
         Inr (publish ''route_registered'' (VTuple [VStr name, VAddr (rt_address entry)])
                (s3\<lparr>route_count_key := Some n\<rparr>))))"

definition register_route ::
    "env \<Rightarrow> address \<Rightarrow> string \<Rightarrow> address \<Rightarrow> route_metadata option \<Rightarrow> router
      \<Rightarrow> (router_error, unit, router) tx" where
  "register_route env caller name addr metadata s =
     bindr (require_auth env caller) (\<lambda>_.
     bindr (require_admin caller NotInitialized Unauthorized s) (\<lambda>_.
     bindr (validate_route_name s name) (\<lambda>_.
     bindr (reject_if (is_zero_address addr) InvalidAddress) (\<lambda>_.
     let n_routes = unwrap_or (route_count_key s) 0;
         max_n = unwrap_or (max_routes_key s) DEFAULT_MAX_ROUTES in
     bindr (reject_if (n_routes \<ge> max_n) TooManyRoutes) (\<lambda>_.
     bindr (validate_some_metadata metadata) (\<lambda>_.
     bindr (store_route \<lparr>rt_address = addr, rt_name = name, rt_paused = False,
              updated_by = caller, rt_expires_at = None\<rparr> metadata n_routes s) (\<lambda>s'.
     Inr ((), s'))))))))"

definition register_route_internal ::
    "address \<Rightarrow> string \<Rightarrow> address \<Rightarrow> route_metadata option \<Rightarrow> u32 option \<Rightarrow> router
      \<Rightarrow> (router_error, router) res" where
  "register_route_internal caller name addr metadata expires s =
     bindr (validate_route_name s name) (\<lambda>_.
     bindr (reject_if (is_zero_address addr) InvalidAddress) (\<lambda>_.
     bindr (validate_some_metadata metadata) (\<lambda>_.
     let n_routes = unwrap_or (route_count_key s) 0;
         max_n = unwrap_or (max_routes_key s) DEFAULT_MAX_ROUTES in
     bindr (reject_if (n_routes \<ge> max_n) TooManyRoutes) (\<lambda>_.
     store_route \<lparr>rt_address = addr, rt_name = name, rt_paused = False,
              updated_by = caller, rt_expires_at = expires\<rparr> metadata n_routes s))))"

definition register_route_with_ttl ::
    "env \<Rightarrow> address \<Rightarrow> string \<Rightarrow> address \<Rightarrow> u32 option \<Rightarrow> router \<Rightarrow> (router_error, unit, router) tx" where
  "register_route_with_ttl env caller name addr ttl_ledgers s =
     bindr (require_auth env caller) (\<lambda>_.
     bindr (require_admin caller NotInitialized Unauthorized s) (\<lambda>_.
     bindr (reject_if (ttl_ledgers = Some 0) InvalidTtlExtension) (\<lambda>_.
     let expires = map_option (saturating_add (sequence env)) ttl_ledgers in
     bindr (register_route_internal caller name addr None expires s) (\<lambda>s1.
     Inr ((), case expires of
                Some ex \<Rightarrow> publish ''route_ttl_set'' (VTuple [VStr name, VU32 ex]) s1
              | None \<Rightarrow> s1)))))"

definition extend_route_ttl ::
    "env \<Rightarrow> address \<Rightarrow> string \<Rightarrow> u32 \<Rightarrow> router \<Rightarrow> (router_error, unit, router) tx" where
  "extend_route_ttl env caller name additional_ledgers s =
     bindr (require_auth env caller) (\<lambda>_.
     bindr (require_admin caller NotInitialized Unauthorized s) (\<lambda>_.
     bindr (reject_if (additional_ledgers = 0) InvalidTtlExtension) (\<lambda>_.
     bindr (ok_or (route_key s name) RouteNotFound) (\<lambda>entry.
     bindr (reject_if (is_route_expired env entry) RouteExpired) (\<lambda>_.
     let base = unwrap_or (rt_expires_at entry) (sequence env);
         new_expiry = saturating_add base additional_ledgers;
         entry' = entry\<lparr>rt_expires_at := Some new_expiry, updated_by := caller\<rparr>
     in Inr ((), publish ''route_ttl_extended'' (VTuple [VStr name, VU32 new_expiry])
                   (s\<lparr>route_key := (route_key s)(name \<mapsto> entry')\<rparr>)))))))"

definition update_route ::
    "env \<Rightarrow> address \<Rightarrow> string \<Rightarrow> address \<Rightarrow> router \<Rightarrow> (router_error, unit, router) tx" where
  "update_route env caller name new_address s =
     bindr (require_auth env caller) (\<lambda>_.
     bindr (require_admin caller NotInitialized Unauthorized s) (\<lambda>_.
     bindr (reject_if (is_zero_address new_address) InvalidAddress) (\<lambda>_.
     bindr (ok_or (route_key s name) RouteNotFound) (\<lambda>entry.
     let old_address = rt_address entry;
         entry' = entry\<lparr>rt_address := new_address, updated_by := caller\<rparr>
     in Inr ((), publish ''route_overwritten''
                   (VTuple [VStr name, VAddr old_address, VAddr new_address])
                   (publish ''route_updated'' (VStr name)
                     (s\<lparr>route_key := (route_key s)(name \<mapsto> entry')\<rparr>)))))))"

definition route_has_dependents :: "router \<Rightarrow> string \<Rightarrow> bool" where
  "route_has_dependents s name \<longleftrightarrow> dependents_key s name \<noteq> []"

text \<open>The loop of \<open>remove_dependency_edges_for_route\<close>; an empty list stands for a removed key.\<close>

fun remove_edges :: "string \<Rightarrow> string list \<Rightarrow> (string \<Rightarrow> string list) \<Rightarrow> string \<Rightarrow> string list" where
  "remove_edges name [] d = d"
| "remove_edges name (dep # deps) d =
     remove_edges name deps (d(dep := filter (\<lambda>entry. entry \<noteq> name) (d dep)))"

definition remove_dependency_edges_for_route :: "string \<Rightarrow> router \<Rightarrow> router" where
  "remove_dependency_edges_for_route name s =
     s\<lparr>dependents_key := remove_edges name (dependencies_key s name) (dependents_key s)\<rparr>"

fun remove_aliases_loop ::
    "string \<Rightarrow> string list \<Rightarrow> (string \<Rightarrow> string option) \<times> string list
      \<Rightarrow> (string \<Rightarrow> string option) \<times> string list" where
  "remove_aliases_loop route_name [] acc = acc"
| "remove_aliases_loop route_name (al # als) (m, updated) =
     (case m al of
        Some original_name \<Rightarrow>
          if original_name = route_name then remove_aliases_loop route_name als (m(al := None), updated)
          else remove_aliases_loop route_name als (m, updated @ [al])
      | None \<Rightarrow> remove_aliases_loop route_name als (m, updated))"

definition remove_aliases_for_route :: "string \<Rightarrow> router \<Rightarrow> router" where
  "remove_aliases_for_route route_name s =
     (case remove_aliases_loop route_name (alias_names s) (alias_key s, []) of
        (m, updated) \<Rightarrow> s\<lparr>alias_key := m, alias_names := updated\<rparr>)"

text \<open>The checks and the writes both removal functions share.\<close>

definition remove_checks :: "string \<Rightarrow> router \<Rightarrow> (router_error, unit) res" where
  "remove_checks name s =
     bindr (reject_if (route_key s name = None) RouteNotFound) (\<lambda>_.
     reject_if (route_has_dependents s name) RouteInUse)"

definition drop_route :: "string \<Rightarrow> router \<Rightarrow> router" where
  "drop_route name s =
     (let s1 = s\<lparr>route_key := (route_key s)(name := None),
                 metadata_key := (metadata_key s)(name := None),
                 score_key := (score_key s)(name := None)\<rparr>;
          s2 = remove_dependency_edges_for_route name s1;
          s3 = s2\<lparr>dependencies_key := (dependencies_key s2)(name := []),
                  dependents_key := (dependents_key s2)(name := [])\<rparr>;
          s4 = s3\<lparr>route_names := filter (\<lambda>route_name. route_name \<noteq> name) (route_names s3)\<rparr>;
          n_routes = unwrap_or (route_count_key s4) 0
      in s4\<lparr>route_count_key := Some (saturating_sub n_routes 1)\<rparr>)"

definition remove_route ::
    "env \<Rightarrow> address \<Rightarrow> string \<Rightarrow> router \<Rightarrow> (router_error, unit, router) tx" where
  "remove_route env caller name s =
     bindr (require_auth env caller) (\<lambda>_.
     bindr (require_admin caller NotInitialized Unauthorized s) (\<lambda>_.
     bindr (remove_checks name s) (\<lambda>_.
     let s1 = remove_aliases_for_route name (drop_route name s) in
     bindr (recompute_best_route s1) (\<lambda>s2.
     Inr ((), publish ''route_removed'' (VStr name) s2)))))"

definition remove_route_internal :: "string \<Rightarrow> router \<Rightarrow> (router_error, router) res" where
  "remove_route_internal name s =
     bindr (remove_checks name s) (\<lambda>_.
     Inr (publish ''route_removed'' (VStr name)
            (remove_aliases_for_route name (drop_route name s))))"

text \<open>
  The validation passes of the batches with \<open>fail_fast\<close>: the first failing item with its error,
  if there is one; \<open>seen\<close> holds the names of the items before.
\<close>

fun register_check ::
    "router \<Rightarrow> u32 \<Rightarrow> u32 \<Rightarrow> nat \<Rightarrow> route_register_input list \<Rightarrow> string list
      \<Rightarrow> (router_error, (nat \<times> batch_item_error) option) res" where
  "register_check s current_count max_n i [] seen = Inr None"
| "register_check s current_count max_n i (r # rs) seen =
     (if ri_name r \<in> set seen then Inr (Some (i, AlreadyExists))
      else (case validate_route_name s (ri_name r) of
              Inl Trap \<Rightarrow> Inl Trap
            | Inl (Err e) \<Rightarrow> Inr (Some (i, router_error_to_batch e))
            | Inr u \<Rightarrow>
                if is_zero_address (ri_address r)
                then Inr (Some (i, router_error_to_batch InvalidAddress))
                else bindr (expect (checked_add current_count (of_nat (length seen)))) (\<lambda>n.
                     if n \<ge> max_n then Inr (Some (i, router_error_to_batch TooManyRoutes))
                     else register_check s current_count max_n (Suc i) rs (seen @ [ri_name r]))))"

definition register_input :: "address \<Rightarrow> route_register_input \<Rightarrow> router \<Rightarrow> (router_error, router) res" where
  "register_input caller r s = register_route_internal caller (ri_name r) (ri_address r) None None s"

definition register_routes_batch ::
    "env \<Rightarrow> address \<Rightarrow> route_register_input list \<Rightarrow> bool \<Rightarrow> router
      \<Rightarrow> (router_error, batch_result, router) tx" where
  "register_routes_batch env caller routes fail_fast s =
     bindr (require_auth env caller) (\<lambda>_.
     bindr (require_admin caller NotInitialized Unauthorized s) (\<lambda>_.
     if fail_fast then
       bindr (register_check s (unwrap_or (route_count_key s) 0)
                (unwrap_or (max_routes_key s) DEFAULT_MAX_ROUTES) 0 routes []) (\<lambda>bad.
       case bad of
         Some (i, e) \<Rightarrow> Inr (record_failure (of_nat i) e batch_new, s)
       | None \<Rightarrow> batch_all (register_input caller) 0 routes s batch_new)
     else batch_loop (register_input caller) router_error_to_batch False 0 routes s batch_new))"

fun remove_check :: "router \<Rightarrow> nat \<Rightarrow> string list \<Rightarrow> string list \<Rightarrow> (nat \<times> batch_item_error) option" where
  "remove_check s i [] seen = None"
| "remove_check s i (name # names) seen =
     (if name \<in> set seen \<or> route_key s name = None
      then Some (i, router_error_to_batch RouteNotFound)
      else if route_has_dependents s name then Some (i, router_error_to_batch RouteInUse)
      else remove_check s (Suc i) names (seen @ [name]))"

definition remove_routes_batch ::
    "env \<Rightarrow> address \<Rightarrow> string list \<Rightarrow> bool \<Rightarrow> router \<Rightarrow> (router_error, batch_result, router) tx" where
  "remove_routes_batch env caller names fail_fast s =
     bindr (require_auth env caller) (\<lambda>_.
     bindr (require_admin caller NotInitialized Unauthorized s) (\<lambda>_.
     case (if fail_fast then remove_check s 0 names [] else None) of
       Some (i, e) \<Rightarrow> Inr (record_failure (of_nat i) e batch_new, s)
     | None \<Rightarrow>
         bindr (if fail_fast then batch_all remove_route_internal 0 names s batch_new
                else batch_loop remove_route_internal router_error_to_batch False 0 names s batch_new)
           (\<lambda>(r, s1).
         bindr (recompute_best_route s1) (\<lambda>s2. Inr (r, s2)))))"

subsection \<open>Resolution\<close>

text \<open>The cached best route, unless it has expired since.\<close>

definition cached_best :: "env \<Rightarrow> router \<Rightarrow> string option" where
  "cached_best env s =
     (case best_route_key s of
        Some best \<Rightarrow>
          (if (case route_key s best of Some e \<Rightarrow> \<not> is_route_expired env e | None \<Rightarrow> False)
           then Some best else None)
      | None \<Rightarrow> None)"

text \<open>
  \<open>resolve\<close> as \<open>batch_resolve\<close> calls it, within the contract: the events published before
  an error stay. As an entry point the error discards them (\<open>resolve\<close>).
\<close>

definition resolve_at :: "env \<Rightarrow> string \<Rightarrow> router \<Rightarrow> (router_error, address) res \<times> router" where
  "resolve_at env name s =
     (if admin_key s = None then (Inl (Err NotInitialized), s)
      else if unwrap_or (paused_key s) False then (Inl (Err RouterPaused), s)
      else (case (case alias_key s name of Some original \<Rightarrow> (original, True) | None \<Rightarrow> (name, False)) of
        (resolved_name, alias_used) \<Rightarrow>
          let final_name = unwrap_or (cached_best env s) resolved_name;
              s1 = (if alias_used
                    then publish ''alias_resolved'' (VTuple [VStr name, VStr final_name]) s else s)
          in (case route_key s1 final_name of
                None \<Rightarrow> (Inl (Err RouteNotFound), s1)
              | Some entry \<Rightarrow>
                  if is_route_expired env entry
                  then (Inl (Err RouteExpired),
                        publish ''route_resolve_expired'' (VTuple [VStr final_name]) s1)
                  else if rt_paused entry
                  then (Inl (Err RoutePaused),
                        publish ''route_resolve_paused'' (VTuple [VStr final_name]) s1)
                  else (case checked_add (unwrap_or (total_routed_key s1) 0) 1 of
                          None \<Rightarrow> (Inl Trap, s1)
                        | Some n \<Rightarrow>
                            (Inr (rt_address entry),
                             publish ''routed'' (VTuple [VStr final_name, VAddr (rt_address entry)])
                               (s1\<lparr>total_routed_key := Some n\<rparr>))))))"

definition resolve :: "env \<Rightarrow> string \<Rightarrow> router \<Rightarrow> (router_error, address, router) tx" where
  "resolve env name s =
     (case resolve_at env name s of (r, s') \<Rightarrow> bindr r (\<lambda>a. Inr (a, s')))"

fun batch_outcome :: "(router_error, address) res \<Rightarrow> batch_resolve_result" where
  "batch_outcome (Inr a) = Resolved a"
| "batch_outcome (Inl (Err RouterPaused)) = Unresolved resolve_error.RouterPaused"
| "batch_outcome (Inl (Err RoutePaused)) = Unresolved resolve_error.RoutePaused"
| "batch_outcome (Inl (Err NotInitialized)) = Unresolved resolve_error.NotInitialized"
| "batch_outcome (Inl (Err RouteExpired)) = Unresolved resolve_error.RouteExpired"
| "batch_outcome (Inl e) = Unresolved resolve_error.RouteNotFound"

fun batch_resolve_loop ::
    "env \<Rightarrow> string list \<Rightarrow> router \<Rightarrow> batch_resolve_result list
      \<Rightarrow> (router_error, batch_resolve_result list, router) tx" where
  "batch_resolve_loop env [] s results = Inr (results, s)"
| "batch_resolve_loop env (name # names) s results =
     (case resolve_at env name s of
        (Inl Trap, s') \<Rightarrow> Inl Trap
      | (r, s') \<Rightarrow> batch_resolve_loop env names s' (results @ [batch_outcome r]))"

definition batch_resolve ::
    "env \<Rightarrow> string list \<Rightarrow> router \<Rightarrow> (router_error, batch_resolve_result list, router) tx" where
  "batch_resolve env names s = batch_resolve_loop env names s []"

definition set_route_paused ::
    "env \<Rightarrow> address \<Rightarrow> string \<Rightarrow> bool \<Rightarrow> router \<Rightarrow> (router_error, unit, router) tx" where
  "set_route_paused env caller name paused s =
     bindr (require_auth env caller) (\<lambda>_.
     bindr (require_admin caller NotInitialized Unauthorized s) (\<lambda>_.
     bindr (ok_or (route_key s name) RouteNotFound) (\<lambda>entry.
     let entry' = entry\<lparr>rt_paused := paused, updated_by := caller\<rparr> in
     bindr (recompute_best_route
              (publish ''route_paused'' (VTuple [VStr name, VBool paused])
                (s\<lparr>route_key := (route_key s)(name \<mapsto> entry')\<rparr>))) (\<lambda>s'.
     Inr ((), s')))))"

definition set_paused :: "env \<Rightarrow> address \<Rightarrow> bool \<Rightarrow> router \<Rightarrow> (router_error, unit, router) tx" where
  "set_paused env caller paused s =
     bindr (require_auth env caller) (\<lambda>_.
     bindr (require_admin caller NotInitialized Unauthorized s) (\<lambda>_.
     Inr ((), publish ''router_paused'' (VBool paused) (s\<lparr>paused_key := Some paused\<rparr>))))"

subsection \<open>Dependencies\<close>

text \<open>\<open>stack\<close> is the path from the start to \<open>current\<close>; it is popped after the loop.\<close>

function visit_dependencies ::
    "router \<Rightarrow> string \<Rightarrow> string \<Rightarrow> string list \<Rightarrow> nat \<Rightarrow> (router_error, unit) res" where
  "visit_dependencies s current target stack depth =
     (if depth > MAX_RECURSION_DEPTH then Inl (Err RecursionLimitExceeded)
      else if current \<in> set stack then Inl (Err CircularDependency)
      else if current = target then Inl (Err CircularDependency)
      else for_each (\<lambda>dependency.
             visit_dependencies s dependency target (stack @ [current]) (depth + 1))
           (dependencies_key s current))"
  by pat_completeness auto

termination
  by (relation "measure (\<lambda>(s, current, target, stack, depth). Suc MAX_RECURSION_DEPTH - depth)") auto

declare visit_dependencies.simps [simp del]

definition validate_dependency_cycle :: "router \<Rightarrow> string \<Rightarrow> string \<Rightarrow> (router_error, unit) res" where
  "validate_dependency_cycle s route depends_on = visit_dependencies s depends_on route [] 0"

definition set_route_dependency ::
    "env \<Rightarrow> address \<Rightarrow> string \<Rightarrow> string \<Rightarrow> router \<Rightarrow> (router_error, unit, router) tx" where
  "set_route_dependency env caller route depends_on s =
     bindr (require_auth env caller) (\<lambda>_.
     bindr (require_admin caller NotInitialized Unauthorized s) (\<lambda>_.
     bindr (reject_if (route_key s route = None) RouteNotFound) (\<lambda>_.
     bindr (reject_if (route_key s depends_on = None) RouteNotFound) (\<lambda>_.
     bindr (reject_if (route = depends_on) CircularDependency) (\<lambda>_.
     bindr (validate_dependency_cycle s route depends_on) (\<lambda>_.
     if depends_on \<in> set (dependencies_key s route) then Inr ((), s)
     else (let s1 = s\<lparr>dependencies_key :=
                  (dependencies_key s)(route := dependencies_key s route @ [depends_on])\<rparr>
           in Inr ((), s1\<lparr>dependents_key :=
                  (dependents_key s1)(depends_on := dependents_key s1 depends_on @ [route])\<rparr>))))))))"

text \<open>\<open>resolved_names\<close> and \<open>resolved\<close> grow together.\<close>

function resolve_dependencies_recursive ::
    "env \<Rightarrow> router \<Rightarrow> string list \<Rightarrow> nat \<Rightarrow> string \<Rightarrow> string list \<times> (string \<times> address) list
      \<Rightarrow> (router_error, string list \<times> (string \<times> address) list) res" where
  "resolve_dependencies_recursive env s active_stack depth name (resolved_names, resolved) =
     (if depth > MAX_RECURSION_DEPTH then Inl (Err RecursionLimitExceeded)
      else if name \<in> set active_stack then Inl (Err CircularDependency)
      else if name \<in> set resolved_names then Inr (resolved_names, resolved)
      else bindr (fold_each
               (\<lambda>dependency acc.
                 resolve_dependencies_recursive env s (active_stack @ [name]) (depth + 1) dependency acc)
               (dependencies_key s name) (resolved_names, resolved))
             (\<lambda>(names1, resolved1).
           bindr (ok_or (route_key s name) RouteNotFound) (\<lambda>entry.
           bindr (reject_if (rt_paused entry) RoutePaused) (\<lambda>_.
           bindr (reject_if (is_route_expired env entry) RouteExpired) (\<lambda>_.
           Inr (names1 @ [name], resolved1 @ [(name, rt_address entry)]))))))"
  by pat_completeness auto

termination
  by (relation "measure (\<lambda>(env, s, stack, depth, name, acc). Suc MAX_RECURSION_DEPTH - depth)") auto

declare resolve_dependencies_recursive.simps [simp del]

definition resolve_with_dependencies ::
    "env \<Rightarrow> string \<Rightarrow> router \<Rightarrow> (router_error, (string \<times> address) list) res" where
  "resolve_with_dependencies env name s =
     bindr (reject_if (unwrap_or (paused_key s) False) RouterPaused) (\<lambda>_.
     bindr (reject_if (route_key s name = None) RouteNotFound) (\<lambda>_.
     bindr (resolve_dependencies_recursive env s [] 0 name ([], [])) (\<lambda>(resolved_names, resolved).
     Inr resolved)))"

definition get_route_dependencies :: "string \<Rightarrow> router \<Rightarrow> (router_error, string list) res" where
  "get_route_dependencies route s =
     bindr (reject_if (route_key s route = None) RouteNotFound) (\<lambda>_. Inr (dependencies_key s route))"

subsection \<open>Metadata and tags\<close>

definition update_metadata ::
    "env \<Rightarrow> address \<Rightarrow> string \<Rightarrow> route_metadata option \<Rightarrow> router \<Rightarrow> (router_error, unit, router) tx" where
  "update_metadata env caller name metadata s =
     bindr (require_auth env caller) (\<lambda>_.
     bindr (require_admin caller NotInitialized Unauthorized s) (\<lambda>_.
     bindr (reject_if (route_key s name = None) RouteNotFound) (\<lambda>_.
     bindr (validate_some_metadata metadata) (\<lambda>_.
     Inr ((), publish ''metadata_updated'' (VTuple [VStr name, VBool (metadata \<noteq> None)])
                (s\<lparr>metadata_key := (metadata_key s)(name := metadata)\<rparr>))))))"

definition add_route_tag ::
    "env \<Rightarrow> address \<Rightarrow> string \<Rightarrow> string \<Rightarrow> router \<Rightarrow> (router_error, unit, router) tx" where
  "add_route_tag env caller name tag s =
     bindr (require_auth env caller) (\<lambda>_.
     bindr (require_admin caller NotInitialized Unauthorized s) (\<lambda>_.
     bindr (reject_if (route_key s name = None) RouteNotFound) (\<lambda>_.
     let metadata = unwrap_or (metadata_key s name) \<lparr>description = '''', tags = [], md_owner = caller\<rparr>
     in if tag \<in> set (tags metadata) then Inr ((), s)
        else (let metadata' = metadata\<lparr>tags := tags metadata @ [tag]\<rparr> in
          bindr (validate_metadata metadata') (\<lambda>_.
          Inr ((), publish ''route_tag_added'' (VTuple [VStr name, VStr tag])
                     (s\<lparr>metadata_key := (metadata_key s)(name \<mapsto> metadata')\<rparr>)))))))"

definition remove_route_tag ::
    "env \<Rightarrow> address \<Rightarrow> string \<Rightarrow> string \<Rightarrow> router \<Rightarrow> (router_error, unit, router) tx" where
  "remove_route_tag env caller name tag s =
     bindr (require_auth env caller) (\<lambda>_.
     bindr (require_admin caller NotInitialized Unauthorized s) (\<lambda>_.
     bindr (reject_if (route_key s name = None) RouteNotFound) (\<lambda>_.
     case metadata_key s name of
       None \<Rightarrow> Inr ((), s)
     | Some metadata \<Rightarrow>
         (let updated_tags = filter (\<lambda>existing_tag. existing_tag \<noteq> tag) (tags metadata);
              removed = (tag \<in> set (tags metadata))
          in if removed
             then Inr ((), publish ''route_tag_removed'' (VTuple [VStr name, VStr tag])
                    (s\<lparr>metadata_key := (metadata_key s)(name \<mapsto> metadata\<lparr>tags := updated_tags\<rparr>)\<rparr>))
             else Inr ((), s)))))"

text \<open>A listed name whose entry has expired; a missing entry does not count as expired.\<close>

definition name_expired :: "env \<Rightarrow> router \<Rightarrow> string \<Rightarrow> bool" where
  "name_expired env s name \<longleftrightarrow>
     unwrap_or (map_option (is_route_expired env) (route_key s name)) False"

definition get_routes_by_tag :: "env \<Rightarrow> string \<Rightarrow> router \<Rightarrow> string list" where
  "get_routes_by_tag env tag s =
     filter (\<lambda>name. \<not> name_expired env s name
         \<and> (case metadata_key s name of Some metadata \<Rightarrow> tag \<in> set (tags metadata) | None \<Rightarrow> False))
       (route_names s)"

fun add_tags :: "string list \<Rightarrow> string list \<Rightarrow> string list" where
  "add_tags known [] = known"
| "add_tags known (tag # rest) = add_tags (if tag \<in> set known then known else known @ [tag]) rest"

fun all_tags_loop :: "env \<Rightarrow> router \<Rightarrow> string list \<Rightarrow> string list \<Rightarrow> string list" where
  "all_tags_loop env s [] known = known"
| "all_tags_loop env s (name # names) known =
     (if name_expired env s name then all_tags_loop env s names known
      else (case metadata_key s name of
              Some metadata \<Rightarrow> all_tags_loop env s names (add_tags known (tags metadata))
            | None \<Rightarrow> all_tags_loop env s names known))"

definition get_all_tags :: "env \<Rightarrow> router \<Rightarrow> string list" where
  "get_all_tags env s = all_tags_loop env s (route_names s) []"

subsection \<open>Limits and aliases\<close>

text \<open>
  The call of \<open>publish\<close> in \<open>set_max_routes\<close> holds two merged versions of its arguments and
  does not compile; the model publishes the documented event, with the old and the new limit.
\<close>

definition set_max_routes :: "env \<Rightarrow> address \<Rightarrow> u32 \<Rightarrow> router \<Rightarrow> (router_error, unit, router) tx" where
  "set_max_routes env caller max_n s =
     bindr (require_auth env caller) (\<lambda>_.
     bindr (require_admin caller NotInitialized Unauthorized s) (\<lambda>_.
     bindr (reject_if (max_n = 0) InvalidRouteName) (\<lambda>_.
     let old_max = unwrap_or (max_routes_key s) DEFAULT_MAX_ROUTES
     in Inr ((), publish ''max_routes_updated'' (VTuple [VU32 old_max, VU32 max_n])
                   (s\<lparr>max_routes_key := Some max_n\<rparr>)))))"

definition add_alias_internal :: "string \<Rightarrow> string \<Rightarrow> router \<Rightarrow> (router_error, router) res" where
  "add_alias_internal al target s =
     (let s1 = s\<lparr>alias_key := (alias_key s)(al \<mapsto> target)\<rparr>
      in Inr (if al \<in> set (alias_names s1) then s1
              else s1\<lparr>alias_names := alias_names s1 @ [al]\<rparr>))"

definition add_alias ::
    "env \<Rightarrow> address \<Rightarrow> string \<Rightarrow> string \<Rightarrow> router \<Rightarrow> (router_error, unit, router) tx" where
  "add_alias env caller existing_name alias_name s =
     bindr (require_auth env caller) (\<lambda>_.
     bindr (require_admin caller NotInitialized Unauthorized s) (\<lambda>_.
     bindr (reject_if (route_key s existing_name = None) RouteNotFound) (\<lambda>_.
     bindr (validate_route_name s alias_name) (\<lambda>_.
     bindr (add_alias_internal alias_name existing_name s) (\<lambda>s1.
     bindr (scoring_recompute_best_route env
              (publish ''alias_added'' (VTuple [VStr existing_name, VStr alias_name]) s1)) (\<lambda>s2.
     Inr ((), s2)))))))"

definition remove_alias :: "env \<Rightarrow> address \<Rightarrow> string \<Rightarrow> router \<Rightarrow> (router_error, unit, router) tx" where
  "remove_alias env caller alias_name s =
     bindr (require_auth env caller) (\<lambda>_.
     bindr (require_admin caller NotInitialized Unauthorized s) (\<lambda>_.
     bindr (reject_if (alias_key s alias_name = None) RouteNotFound) (\<lambda>_.
     let s1 = s\<lparr>alias_key := (alias_key s)(alias_name := None)\<rparr>;
         s2 = s1\<lparr>alias_names := filter (\<lambda>al. al \<noteq> alias_name) (alias_names s1)\<rparr> in
     bindr (scoring_recompute_best_route env (publish ''alias_removed'' (VStr alias_name) s2)) (\<lambda>s3.
     Inr ((), s3)))))"

definition core_transfer_admin ::
    "env \<Rightarrow> address \<Rightarrow> address \<Rightarrow> router \<Rightarrow> (router_error, unit, router) tx" where
  "core_transfer_admin env current new_admin s =
     bindr (require_auth env current) (\<lambda>_.
     bindr (require_admin current NotInitialized Unauthorized s) (\<lambda>_.
     Inr ((), admin_transfer_complete current new_admin s)))"

subsection \<open>Scores\<close>

definition weights_event :: "scoring_weights \<Rightarrow> router \<Rightarrow> router" where
  "weights_event weights =
     publish ''scoring_weights_updated'' (VTuple [VI64 (liquidity_weight weights),
       VI64 (reliability_weight weights), VI64 (fee_divisor weights)])"

definition set_scoring_weights ::
    "env \<Rightarrow> address \<Rightarrow> scoring_weights \<Rightarrow> router \<Rightarrow> (router_error, unit, router) tx" where
  "set_scoring_weights env caller weights s =
     bindr (require_auth env caller) (\<lambda>_.
     bindr (require_admin caller NotInitialized Unauthorized s) (\<lambda>_.
     bindr (reject_if (sint (fee_divisor weights) \<le> 0 \<or> sint (liquidity_weight weights) < 0
         \<or> sint (liquidity_weight weights) > sint MAX_SCORING_WEIGHT
         \<or> sint (reliability_weight weights) < 0
         \<or> sint (reliability_weight weights) > sint MAX_SCORING_WEIGHT) InvalidScoringWeights) (\<lambda>_.
     bindr (recompute_best_route
              (weights_event weights (s\<lparr>scoring_weights_key := Some weights\<rparr>))) (\<lambda>s1.
     Inr ((), weights_event weights s1)))))"

definition score_event :: "string \<Rightarrow> route_score \<Rightarrow> router \<Rightarrow> router" where
  "score_event name score =
     publish ''route_scored'' (VTuple [VStr name, VU32 (liquidity_score score), VU32 (fee_bps score),
       VU32 (reliability_score score)])"

definition set_route_score ::
    "env \<Rightarrow> address \<Rightarrow> string \<Rightarrow> route_score \<Rightarrow> router \<Rightarrow> (router_error, unit, router) tx" where
  "set_route_score env caller name score s =
     bindr (require_auth env caller) (\<lambda>_.
     bindr (require_admin caller NotInitialized Unauthorized s) (\<lambda>_.
     bindr (reject_if (route_key s name = None) RouteNotFound) (\<lambda>_.
     bindr (validate_score score) (\<lambda>_.
     bindr (recompute_best_route
              (score_event name score (s\<lparr>score_key := (score_key s)(name \<mapsto> score)\<rparr>))) (\<lambda>s1.
     Inr ((), s1))))))"

fun store_scores :: "route_score_input list \<Rightarrow> router \<Rightarrow> router" where
  "store_scores [] s = s"
| "store_scores (item # items) s =
     store_scores items (score_event (si_name item) (si_score item)
       (s\<lparr>score_key := (score_key s)(si_name item \<mapsto> si_score item)\<rparr>))"

definition set_route_scores_batch ::
    "env \<Rightarrow> address \<Rightarrow> route_score_input list \<Rightarrow> router \<Rightarrow> (router_error, unit, router) tx" where
  "set_route_scores_batch env caller scores s =
     bindr (require_auth env caller) (\<lambda>_.
     bindr (require_admin caller NotInitialized Unauthorized s) (\<lambda>_.
     bindr (for_each (\<lambda>item.
              bindr (reject_if (route_key s (si_name item) = None) RouteNotFound) (\<lambda>_.
              validate_score (si_score item))) scores) (\<lambda>_.
     bindr (recompute_best_route (store_scores scores s)) (\<lambda>s1. Inr ((), s1)))))"

text \<open>The score \<open>get_best_route\<close> uses, with fixed weights.\<close>

definition fixed_composite :: "route_score \<Rightarrow> (router_error, i64) res" where
  "fixed_composite score =
     bindr (expect (checked_add_i64 (ucast (liquidity_score score)) (ucast (reliability_score score)))) (\<lambda>sum.
     bindr (expect (checked_div_i64 (ucast (fee_bps score)) 10)) (\<lambda>fee.
     expect (checked_sub_i64 sum fee)))"

definition get_best_route ::
    "env \<Rightarrow> string list \<Rightarrow> i64 \<Rightarrow> string option \<Rightarrow> router \<Rightarrow> (router_error, string option, router) tx" where
  "get_best_route env candidates min_score fallback_name s =
     bindr (reject_if (unwrap_or (paused_key s) False) RouterPaused) (\<lambda>_.
     bindr (best_loop (\<lambda>e. \<not> rt_paused e \<and> \<not> is_route_expired env e) fixed_composite s
              candidates None I64_MIN) (\<lambda>(best_name, best_score).
     if sint best_score \<ge> sint min_score then
       Inr (best_name, case best_name of
              Some name \<Rightarrow> publish ''best_route_selected'' (VTuple [VStr name, VI64 best_score]) s
            | None \<Rightarrow> s)
     else Inr (fallback_name, s)))"

subsection \<open>Views\<close>

definition get_route :: "string \<Rightarrow> router \<Rightarrow> route_entry option" where
  "get_route name s = route_key s name"

definition get_route_expiry :: "string \<Rightarrow> router \<Rightarrow> u32 option" where
  "get_route_expiry name s = Option.bind (route_key s name) rt_expires_at"

definition get_metadata :: "string \<Rightarrow> router \<Rightarrow> route_metadata option" where
  "get_metadata name s = metadata_key s name"

definition total_routed :: "router \<Rightarrow> u64" where
  "total_routed s = unwrap_or (total_routed_key s) 0"

definition route_count :: "router \<Rightarrow> u32" where
  "route_count s = unwrap_or (route_count_key s) 0"

definition get_max_routes :: "router \<Rightarrow> u32" where
  "get_max_routes s = unwrap_or (max_routes_key s) DEFAULT_MAX_ROUTES"

definition core_admin :: "router \<Rightarrow> (router_error, address) res" where
  "core_admin s = ok_or (admin_key s) NotInitialized"

definition get_all_routes :: "env \<Rightarrow> router \<Rightarrow> string list" where
  "get_all_routes env s = filter (\<lambda>name. \<not> name_expired env s name) (route_names s)"

fun stats_scan :: "env \<Rightarrow> router \<Rightarrow> string list \<Rightarrow> router_stats \<Rightarrow> router_stats" where
  "stats_scan env s [] st = st"
| "stats_scan env s (name # names) st =
     (let st1 = st\<lparr>total_routes := total_routes st + 1\<rparr>;
          st2 = (case route_key s name of
                   Some e \<Rightarrow>
                     if is_route_expired env e then st1\<lparr>expired_routes := expired_routes st1 + 1\<rparr>
                     else if rt_paused e then st1\<lparr>paused_routes := paused_routes st1 + 1\<rparr>
                     else st1\<lparr>active_routes := active_routes st1 + 1\<rparr>
                 | None \<Rightarrow> st1);
          st3 = (if score_key s name \<noteq> None then st2\<lparr>scored_routes := scored_routes st2 + 1\<rparr> else st2)
      in stats_scan env s names st3)"

definition get_stats :: "env \<Rightarrow> router \<Rightarrow> router_stats" where
  "get_stats env s =
     (stats_scan env s (route_names s) \<lparr>total_routes = 0, active_routes = 0, paused_routes = 0,
        expired_routes = 0, alias_count = 0, scored_routes = 0\<rparr>)
       \<lparr>alias_count := of_nat (length (alias_names s))\<rparr>"

definition get_routes_paginated :: "env \<Rightarrow> u32 \<Rightarrow> u32 \<Rightarrow> router \<Rightarrow> string list" where
  "get_routes_paginated env start limit s =
     (let names = get_all_routes env s; n_names = length names in
      if unat start \<ge> n_names \<or> limit = 0 then []
      else (let end_index = min (unat (saturating_add start limit)) n_names
            in map (\<lambda>i. names ! i) [unat start..<end_index]))"

definition get_alias_target :: "string \<Rightarrow> router \<Rightarrow> string option" where
  "get_alias_target alias_name s = alias_key s alias_name"

definition get_scoring_weights :: "router \<Rightarrow> scoring_weights" where
  "get_scoring_weights s = scoring_weights_internal s"

definition get_route_score :: "string \<Rightarrow> router \<Rightarrow> route_score option" where
  "get_route_score name s = score_key s name"

subsection \<open>The contract as a machine\<close>

datatype core_call = RInitialize address "u32 option"
  | RRegister address string address "route_metadata option"
  | RRegisterTtl address string address "u32 option"
  | RExtendTtl address string u32
  | RUpdate address string address
  | RRemove address string
  | RRegisterBatch address "route_register_input list" bool
  | RRemoveBatch address "string list" bool
  | RResolve string
  | RBatchResolve "string list"
  | RSetRoutePaused address string bool
  | RSetPaused address bool
  | RSetDependency address string string
  | RUpdateMetadata address string "route_metadata option"
  | RAddTag address string string
  | RRemoveTag address string string
  | RSetMaxRoutes address u32
  | RAddAlias address string string
  | RRemoveAlias address string
  | RTransferAdmin address address
  | RSetWeights address scoring_weights
  | RSetScore address string route_score
  | RSetScores address "route_score_input list"
  | RGetBest "string list" i64 "string option"

fun core_step :: "env \<Rightarrow> core_call \<Rightarrow> router \<Rightarrow> (router_error, router) res" where
  "core_step env (RInitialize a m) s = returns (core_initialize env a m s)"
| "core_step env (RRegister c n a m) s = returns (register_route env c n a m s)"
| "core_step env (RRegisterTtl c n a t) s = returns (register_route_with_ttl env c n a t s)"
| "core_step env (RExtendTtl c n k) s = returns (extend_route_ttl env c n k s)"
| "core_step env (RUpdate c n a) s = returns (update_route env c n a s)"
| "core_step env (RRemove c n) s = returns (remove_route env c n s)"
| "core_step env (RRegisterBatch c rs ff) s = returns (register_routes_batch env c rs ff s)"
| "core_step env (RRemoveBatch c ns ff) s = returns (remove_routes_batch env c ns ff s)"
| "core_step env (RResolve n) s = returns (resolve env n s)"
| "core_step env (RBatchResolve ns) s = returns (batch_resolve env ns s)"
| "core_step env (RSetRoutePaused c n p) s = returns (set_route_paused env c n p s)"
| "core_step env (RSetPaused c p) s = returns (set_paused env c p s)"
| "core_step env (RSetDependency c r d) s = returns (set_route_dependency env c r d s)"
| "core_step env (RUpdateMetadata c n m) s = returns (update_metadata env c n m s)"
| "core_step env (RAddTag c n t) s = returns (add_route_tag env c n t s)"
| "core_step env (RRemoveTag c n t) s = returns (remove_route_tag env c n t s)"
| "core_step env (RSetMaxRoutes c m) s = returns (set_max_routes env c m s)"
| "core_step env (RAddAlias c e a) s = returns (add_alias env c e a s)"
| "core_step env (RRemoveAlias c a) s = returns (remove_alias env c a s)"
| "core_step env (RTransferAdmin c n) s = returns (core_transfer_admin env c n s)"
| "core_step env (RSetWeights c w) s = returns (set_scoring_weights env c w s)"
| "core_step env (RSetScore c n sc) s = returns (set_route_score env c n sc s)"
| "core_step env (RSetScores c scs) s = returns (set_route_scores_batch env c scs s)"
| "core_step env (RGetBest ns m f) s = returns (get_best_route env ns m f s)"

end
