(* ===== verification/Core_Props.thy ===== *)
theory Core_Props
  imports Core
begin

text \<open>
  Correctness of router-core: the invariant of the routing table with its indices, the cached best
  route, the dependency graph and its resolution in order, batches, and who may change what.
\<close>

subsection \<open>Writers, field by field\<close>

lemma publish_router [simp]:
  "route_key (publish t d s) = route_key s" "route_names (publish t d s) = route_names s"
  "route_count_key (publish t d s) = route_count_key s" "max_routes_key (publish t d s) = max_routes_key s"
  "paused_key (publish t d s) = paused_key s" "total_routed_key (publish t d s) = total_routed_key s"
  "alias_key (publish t d s) = alias_key s" "alias_names (publish t d s) = alias_names s"
  "score_key (publish t d s) = score_key s" "metadata_key (publish t d s) = metadata_key s"
  "dependencies_key (publish t d s) = dependencies_key s"
  "dependents_key (publish t d s) = dependents_key s"
  "best_route_key (publish t d s) = best_route_key s"
  "scoring_weights_key (publish t d s) = scoring_weights_key s"
  by (simp_all add: publish_def)

lemma admin_transfer_router [simp]:
  "route_key (admin_transfer_complete c n s) = route_key s"
  "route_names (admin_transfer_complete c n s) = route_names s"
  "route_count_key (admin_transfer_complete c n s) = route_count_key s"
  "max_routes_key (admin_transfer_complete c n s) = max_routes_key s"
  "paused_key (admin_transfer_complete c n s) = paused_key s"
  "total_routed_key (admin_transfer_complete c n s) = total_routed_key s"
  "alias_key (admin_transfer_complete c n s) = alias_key s"
  "alias_names (admin_transfer_complete c n s) = alias_names s"
  "score_key (admin_transfer_complete c n s) = score_key s"
  "metadata_key (admin_transfer_complete c n s) = metadata_key s"
  "dependencies_key (admin_transfer_complete c n s) = dependencies_key s"
  "dependents_key (admin_transfer_complete c n s) = dependents_key s"
  "best_route_key (admin_transfer_complete c n s) = best_route_key s"
  "scoring_weights_key (admin_transfer_complete c n s) = scoring_weights_key s"
  by (simp_all add: admin_transfer_complete_def)

lemma cache_best_sel [simp]:
  "admin_key (cache_best b v s) = admin_key s"
  "route_key (cache_best b v s) = route_key s" "route_names (cache_best b v s) = route_names s"
  "route_count_key (cache_best b v s) = route_count_key s"
  "max_routes_key (cache_best b v s) = max_routes_key s"
  "paused_key (cache_best b v s) = paused_key s"
  "total_routed_key (cache_best b v s) = total_routed_key s"
  "alias_key (cache_best b v s) = alias_key s" "alias_names (cache_best b v s) = alias_names s"
  "score_key (cache_best b v s) = score_key s" "metadata_key (cache_best b v s) = metadata_key s"
  "dependencies_key (cache_best b v s) = dependencies_key s"
  "dependents_key (cache_best b v s) = dependents_key s"
  "best_route_key (cache_best b v s) = b"
  "scoring_weights_key (cache_best b v s) = scoring_weights_key s"
  by (cases b; simp add: cache_best_def)+

lemma remove_edges_apply:
  "remove_edges name deps d x = (if x \<in> set deps then filter (\<lambda>entry. entry \<noteq> name) (d x) else d x)"
proof (induction deps arbitrary: d)
  case (Cons dep deps)
  have "filter (\<lambda>entry. entry \<noteq> name) (filter (\<lambda>entry. entry \<noteq> name) xs)
      = filter (\<lambda>entry. entry \<noteq> name) xs" for xs by simp
  then show ?case by (simp add: Cons.IH)
qed simp

lemma drop_route_sel [simp]:
  "admin_key (drop_route n s) = admin_key s" "events (drop_route n s) = events s"
  "route_key (drop_route n s) = (route_key s)(n := None)"
  "route_names (drop_route n s) = filter (\<lambda>m. m \<noteq> n) (route_names s)"
  "route_count_key (drop_route n s) = Some (saturating_sub (unwrap_or (route_count_key s) 0) 1)"
  "max_routes_key (drop_route n s) = max_routes_key s" "paused_key (drop_route n s) = paused_key s"
  "total_routed_key (drop_route n s) = total_routed_key s"
  "alias_key (drop_route n s) = alias_key s" "alias_names (drop_route n s) = alias_names s"
  "score_key (drop_route n s) = (score_key s)(n := None)"
  "metadata_key (drop_route n s) = (metadata_key s)(n := None)"
  "dependencies_key (drop_route n s) = (dependencies_key s)(n := [])"
  "dependents_key (drop_route n s) = (\<lambda>x. if x = n then []
     else if x \<in> set (dependencies_key s n) then filter (\<lambda>m. m \<noteq> n) (dependents_key s x)
     else dependents_key s x)"
  "best_route_key (drop_route n s) = best_route_key s"
  "scoring_weights_key (drop_route n s) = scoring_weights_key s"
  by (auto simp: drop_route_def Let_def remove_dependency_edges_for_route_def remove_edges_apply)

text \<open>The loop over the aliases keeps exactly those that point elsewhere.\<close>

lemma remove_aliases_loop_result:
  "distinct als \<Longrightarrow> (\<forall>al \<in> set als. m al \<noteq> None) \<Longrightarrow>
     remove_aliases_loop n als (m, upd) =
       (\<lambda>al. if al \<in> set als \<and> m al = Some n then None else m al,
        upd @ filter (\<lambda>al. m al \<noteq> Some n) als)"
proof (induction als arbitrary: m upd)
  case (Cons a als)
  then obtain t where t: "m a = Some t" by auto
  show ?case
  proof (cases "t = n")
    case True
    have "remove_aliases_loop n als (m(a := None), upd) =
        (\<lambda>al. if al \<in> set als \<and> (m(a := None)) al = Some n then None else (m(a := None)) al,
         upd @ filter (\<lambda>al. (m(a := None)) al \<noteq> Some n) als)"
      using Cons.prems by (intro Cons.IH) auto
    moreover have "filter (\<lambda>al. (m(a := None)) al \<noteq> Some n) als = filter (\<lambda>al. m al \<noteq> Some n) als"
      using Cons.prems(1) by (intro filter_cong) auto
    ultimately show ?thesis using t True by (auto simp: fun_eq_iff)
  next
    case False
    with Cons t show ?thesis by (auto simp: fun_eq_iff)
  qed
qed simp

lemma remove_aliases_sel [simp]:
  "admin_key (remove_aliases_for_route n s) = admin_key s"
  "events (remove_aliases_for_route n s) = events s"
  "route_key (remove_aliases_for_route n s) = route_key s"
  "route_names (remove_aliases_for_route n s) = route_names s"
  "route_count_key (remove_aliases_for_route n s) = route_count_key s"
  "max_routes_key (remove_aliases_for_route n s) = max_routes_key s"
  "paused_key (remove_aliases_for_route n s) = paused_key s"
  "total_routed_key (remove_aliases_for_route n s) = total_routed_key s"
  "score_key (remove_aliases_for_route n s) = score_key s"
  "metadata_key (remove_aliases_for_route n s) = metadata_key s"
  "dependencies_key (remove_aliases_for_route n s) = dependencies_key s"
  "dependents_key (remove_aliases_for_route n s) = dependents_key s"
  "best_route_key (remove_aliases_for_route n s) = best_route_key s"
  "scoring_weights_key (remove_aliases_for_route n s) = scoring_weights_key s"
  by (simp_all add: remove_aliases_for_route_def split: prod.splits)

subsection \<open>The invariant\<close>

definition valid_name :: "string \<Rightarrow> bool" where
  "valid_name n \<longleftrightarrow> 1 \<le> length n \<and> length n \<le> 64 \<and> (\<forall>b\<in>set n. name_byte b)"

definition routes_ok :: "router \<Rightarrow> bool" where
  "routes_ok s \<longleftrightarrow> distinct (route_names s) \<and> set (route_names s) = dom (route_key s)
     \<and> (\<forall>n e. route_key s n = Some e \<longrightarrow>
          rt_name e = n \<and> valid_name n \<and> rt_address e \<noteq> ZERO_ADDRESS)
     \<and> unat (unwrap_or (route_count_key s) 0) = length (route_names s)
     \<and> (admin_key s = None \<longrightarrow> route_names s = [] \<and> alias_names s = [])"

definition aliases_ok :: "router \<Rightarrow> bool" where
  "aliases_ok s \<longleftrightarrow> distinct (alias_names s) \<and> set (alias_names s) = dom (alias_key s)
     \<and> (\<forall>al t. alias_key s al = Some t \<longrightarrow>
          route_key s al = None \<and> route_key s t \<noteq> None \<and> valid_name al)"

definition score_ok :: "route_score \<Rightarrow> bool" where
  "score_ok sc \<longleftrightarrow> liquidity_score sc \<le> MAX_SCORE_VALUE \<and> fee_bps sc \<le> MAX_SCORE_VALUE
     \<and> reliability_score sc \<le> MAX_SCORE_VALUE"

definition weights_ok :: "scoring_weights \<Rightarrow> bool" where
  "weights_ok w \<longleftrightarrow> 0 < sint (fee_divisor w) \<and> 0 \<le> sint (liquidity_weight w)
     \<and> sint (liquidity_weight w) \<le> 1000 \<and> 0 \<le> sint (reliability_weight w)
     \<and> sint (reliability_weight w) \<le> 1000"

definition data_ok :: "router \<Rightarrow> bool" where
  "data_ok s \<longleftrightarrow>
     (\<forall>n sc. score_key s n = Some sc \<longrightarrow> route_key s n \<noteq> None \<and> score_ok sc)
     \<and> (\<forall>n md. metadata_key s n = Some md \<longrightarrow> route_key s n \<noteq> None \<and> validate_metadata md = Inr ())
     \<and> weights_ok (scoring_weights_internal s)"

definition dep_rel :: "router \<Rightarrow> (string \<times> string) set" where
  "dep_rel s = {(n, d). d \<in> set (dependencies_key s n)}"

definition deps_ok :: "router \<Rightarrow> bool" where
  "deps_ok s \<longleftrightarrow>
     (\<forall>n d. d \<in> set (dependencies_key s n) \<longleftrightarrow> n \<in> set (dependents_key s d))
     \<and> (\<forall>n. distinct (dependencies_key s n) \<and> distinct (dependents_key s n))
     \<and> (\<forall>n d. d \<in> set (dependencies_key s n) \<longrightarrow> route_key s n \<noteq> None \<and> route_key s d \<noteq> None)
     \<and> acyclic (dep_rel s)"

text \<open>The score in exact arithmetic, and the routes that take part in every selection.\<close>

definition exact_score :: "scoring_weights \<Rightarrow> route_score \<Rightarrow> int" where
  "exact_score w sc = sint (liquidity_weight w) * uint (liquidity_score sc)
     + sint (reliability_weight w) * uint (reliability_score sc)
     - uint (fee_bps sc) div sint (fee_divisor w)"

definition rank :: "(route_entry \<Rightarrow> bool) \<Rightarrow> (route_score \<Rightarrow> int) \<Rightarrow> router \<Rightarrow> string \<Rightarrow> int option" where
  "rank eligible f s n =
     (case route_key s n of None \<Rightarrow> None
      | Some e \<Rightarrow> if eligible e then map_option f (score_key s n) else None)"

definition permanent :: "route_entry \<Rightarrow> bool" where
  "permanent e \<longleftrightarrow> \<not> rt_paused e \<and> rt_expires_at e = None"

text \<open>
  The cached route is registered, scored and not paused, and no route of a selection has a higher
  score; without a cached route no route of the selection has a score. The cached route itself may
  have expired: \<open>RouterCore::recompute_best_route\<close> does not look at the expiry.
\<close>

definition cache_for :: "(route_entry \<Rightarrow> bool) \<Rightarrow> router \<Rightarrow> bool" where
  "cache_for sel s \<longleftrightarrow>
     (case best_route_key s of
        None \<Rightarrow> \<forall>n. rank sel (exact_score (scoring_weights_internal s)) s n = None
      | Some b \<Rightarrow> (\<exists>v. rank (\<lambda>e. \<not> rt_paused e) (exact_score (scoring_weights_internal s)) s b = Some v
          \<and> (\<forall>n w. rank sel (exact_score (scoring_weights_internal s)) s n = Some w \<longrightarrow> w \<le> v)))"

abbreviation cache_ok :: "router \<Rightarrow> bool" where
  "cache_ok \<equiv> cache_for permanent"

lemmas cache_ok_def = cache_for_def

definition inv_for :: "(route_entry \<Rightarrow> bool) \<Rightarrow> router \<Rightarrow> bool" where
  "inv_for sel s \<longleftrightarrow> routes_ok s \<and> aliases_ok s \<and> data_ok s \<and> deps_ok s \<and> cache_for sel s"

abbreviation core_inv :: "router \<Rightarrow> bool" where
  "core_inv \<equiv> inv_for permanent"

lemmas core_inv_def = inv_for_def

text \<open>
  The selections the cache can be kept for: both recomputations consider all their routes, and a
  transaction that leaves the pause flag alone and moves the expiry of a live route brings no new
  route in. The permanent routes are one, the routes live at the time of the transaction another.
\<close>

definition selection :: "env \<Rightarrow> (route_entry \<Rightarrow> bool) \<Rightarrow> bool" where
  "selection env sel \<longleftrightarrow> (\<forall>e. sel e \<longrightarrow> \<not> rt_paused e \<and> \<not> is_route_expired env e)
     \<and> (\<forall>e e'. sel e' \<and> rt_paused e' = rt_paused e
          \<and> (rt_expires_at e' = rt_expires_at e \<or> rt_expires_at e' \<noteq> None \<and> \<not> is_route_expired env e) \<longrightarrow> sel e)"

definition live_route :: "env \<Rightarrow> route_entry \<Rightarrow> bool" where
  "live_route env e \<longleftrightarrow> \<not> rt_paused e \<and> \<not> is_route_expired env e"

lemma permanent_selection: "selection env permanent"
  by (auto simp: selection_def permanent_def is_route_expired_def)

lemma live_selection: "selection env (live_route env)"
  by (auto simp: selection_def live_route_def is_route_expired_def)

lemma selection_keep:
  assumes "selection env sel"
  shows "\<not> is_route_expired env e \<Longrightarrow> sel (e\<lparr>rt_expires_at := Some x, updated_by := a\<rparr>) \<longrightarrow> sel e"
    and "sel (e\<lparr>rt_address := t, updated_by := a\<rparr>) \<longrightarrow> sel e"
proof -
  from assms have keep: "sel e' \<Longrightarrow> rt_paused e' = rt_paused e \<Longrightarrow> rt_expires_at e' = rt_expires_at e
      \<or> rt_expires_at e' \<noteq> None \<and> \<not> is_route_expired env e \<Longrightarrow> sel e" for e'
    unfolding selection_def by blast
  show "\<not> is_route_expired env e \<Longrightarrow> sel (e\<lparr>rt_expires_at := Some x, updated_by := a\<rparr>) \<longrightarrow> sel e"
    using keep [of "e\<lparr>rt_expires_at := Some x, updated_by := a\<rparr>"] by simp
  show "sel (e\<lparr>rt_address := t, updated_by := a\<rparr>) \<longrightarrow> sel e"
    using keep [of "e\<lparr>rt_address := t, updated_by := a\<rparr>"] by simp
qed

subsection \<open>Scores\<close>

lemma u32_as_i64: "sint (ucast (x :: u32) :: i64) = uint x"
proof -
  have x: "0 \<le> uint x" "uint x < 2 ^ 32" using uint_lt2p [of x] by simp_all
  have "- (2 ^ 63) \<le> uint x" by (rule order_trans [OF _ x(1)]) simp
  moreover have "uint x < 2 ^ 63" by (rule less_trans [OF x(2)]) simp
  ultimately have "signed_take_bit 63 (uint x) = uint x" by (rule signed_take_bit_int_eq_self)
  with x show ?thesis
    by (simp add: sint_uint unsigned_ucast_eq take_bit_int_eq_self)
qed

lemma score_ok_bounds:
  assumes "score_ok sc"
  shows "uint (liquidity_score sc) \<le> 100" "uint (fee_bps sc) \<le> 100" "uint (reliability_score sc) \<le> 100"
  using assms by (simp_all add: score_ok_def MAX_SCORE_VALUE_def word_le_def)

lemma exact_score_bounds:
  assumes "weights_ok w" and "score_ok sc"
  shows "- 100 \<le> exact_score w sc" and "exact_score w sc \<le> 200000"
proof -
  have part: "0 \<le> a * uint x \<and> a * uint x \<le> 100000" if "0 \<le> a" "a \<le> 1000" "uint x \<le> 100"
    for a :: int and x :: u32
    using that mult_mono [of a 1000 "uint x" 100] by simp
  have fee: "0 \<le> uint (fee_bps sc) div sint (fee_divisor w)"
    "uint (fee_bps sc) div sint (fee_divisor w) \<le> 100"
    using assms(1) score_ok_bounds(2) [OF assms(2)] zdiv_mono2 [of "uint (fee_bps sc)" 1 "sint (fee_divisor w)"]
    by (simp_all add: weights_ok_def pos_imp_zdiv_nonneg_iff)
  show "- 100 \<le> exact_score w sc" "exact_score w sc \<le> 200000"
    using part [of "sint (liquidity_weight w)" "liquidity_score sc"]
      part [of "sint (reliability_weight w)" "reliability_score sc"] fee
      score_ok_bounds [OF assms(2)] assms(1)
    unfolding exact_score_def weights_ok_def by linarith+
qed

lemma composite_exact:
  assumes "weights_ok w" and "score_ok sc"
  shows "\<exists>c. composite_score w sc = Inr c \<and> sint c = exact_score w sc"
proof -
  let ?l = "sint (liquidity_weight w) * uint (liquidity_score sc)"
  let ?r = "sint (reliability_weight w) * uint (reliability_score sc)"
  let ?f = "uint (fee_bps sc) div sint (fee_divisor w)"
  have part: "0 \<le> a * uint x \<and> a * uint x \<le> 100000" if "0 \<le> a" "a \<le> 1000" "uint x \<le> 100"
    for a :: int and x :: u32
    using that mult_mono [of a 1000 "uint x" 100] by simp
  note b = score_ok_bounds [OF assms(2)]
  have l: "0 \<le> ?l" "?l \<le> 100000" and r: "0 \<le> ?r" "?r \<le> 100000"
    using part assms(1) b unfolding weights_ok_def by blast+
  have f: "0 \<le> ?f" "?f \<le> 100"
    using assms(1) b(2) zdiv_mono2 [of "uint (fee_bps sc)" 1 "sint (fee_divisor w)"]
    by (simp_all add: weights_ok_def pos_imp_zdiv_nonneg_iff)
  have div: "trunc_div (uint (fee_bps sc)) (sint (fee_divisor w)) = ?f" "fee_divisor w \<noteq> 0"
    using assms(1) by (auto simp: trunc_div_def weights_ok_def sgn_if)
  have small: "in_i64 ?l" "in_i64 ?r" "in_i64 (?l + ?r)" "in_i64 ?f" "in_i64 (?l + ?r - ?f)"
    using l r f by (simp_all add: in_i64_def)
  from i64_of_exists [OF small(1)] obtain a where
    a: "checked_mul_i64 (liquidity_weight w) (ucast (liquidity_score sc)) = Some a" "sint a = ?l"
    by (auto simp: checked_mul_i64_def u32_as_i64)
  from i64_of_exists [OF small(2)] obtain c where
    c: "checked_mul_i64 (reliability_weight w) (ucast (reliability_score sc)) = Some c" "sint c = ?r"
    by (auto simp: checked_mul_i64_def u32_as_i64)
  from i64_of_exists [OF small(3)] obtain sum where
    sum: "checked_add_i64 a c = Some sum" "sint sum = ?l + ?r"
    by (auto simp: checked_add_i64_def a(2) c(2))
  from i64_of_exists [OF small(4)] obtain fee where
    fee: "checked_div_i64 (ucast (fee_bps sc)) (fee_divisor w) = Some fee" "sint fee = ?f"
    by (auto simp: checked_div_i64_def u32_as_i64 div)
  from i64_of_exists [OF small(5)] obtain res where
    res: "checked_sub_i64 sum fee = Some res" "sint res = ?l + ?r - ?f"
    by (auto simp: checked_sub_i64_def sum(2) fee(2))
  show ?thesis
    using a(1) c(1) sum(1) fee(1) res by (simp add: composite_score_def exact_score_def)
qed

lemma default_weights_ok: "weights_ok DEFAULT_SCORING_WEIGHTS"
  by (simp add: weights_ok_def DEFAULT_SCORING_WEIGHTS_def)

text \<open>\<open>get_best_route\<close> computes with the default weights.\<close>

lemma fixed_composite_default: "fixed_composite sc = composite_score DEFAULT_SCORING_WEIGHTS sc"
proof -
  have "checked_mul_i64 1 (ucast x) = Some (ucast x :: i64)" for x :: u32
    by (simp add: checked_mul_i64_def i64_of_Some_iff)
  then show ?thesis
    by (simp add: fixed_composite_def composite_score_def DEFAULT_SCORING_WEIGHTS_def)
qed

subsection \<open>Selection\<close>

text \<open>The scan on exact values.\<close>

fun pick :: "(string \<Rightarrow> int option) \<Rightarrow> string list \<Rightarrow> string option \<times> int \<Rightarrow> string option \<times> int" where
  "pick rk [] bv = bv"
| "pick rk (n # ns) bv =
     (case rk n of None \<Rightarrow> pick rk ns bv
      | Some c \<Rightarrow> pick rk ns (if c > snd bv then (Some n, c) else bv))"

lemma best_loop_pick:
  assumes "\<forall>n\<in>set ns. \<forall>sc. score_key s n = Some sc \<longrightarrow> (\<exists>c. f sc = Inr c \<and> sint c = ex sc)"
  shows "\<exists>v'. best_loop el f s ns b v = Inr (fst (pick (rank el ex s) ns (b, sint v)), v')
    \<and> sint v' = snd (pick (rank el ex s) ns (b, sint v))"
  using assms
proof (induction ns arbitrary: b v)
  case (Cons n ns)
  show ?case
  proof (cases "route_key s n")
    case None
    with Cons show ?thesis by (simp add: rank_def)
  next
    case (Some e)
    show ?thesis
    proof (cases "el e \<and> score_key s n \<noteq> None")
      case True
      then obtain sc where sc: "score_key s n = Some sc" by auto
      with Cons.prems obtain c where c: "f sc = Inr c" "sint c = ex sc" by auto
      have "rank el ex s n = Some (sint c)" using Some True sc c by (simp add: rank_def)
      with Some True sc c(1) Cons.IH [of "Some n" c] Cons.IH [of b v] Cons.prems show ?thesis by simp
    next
      case False
      with Some have "rank el ex s n = None" by (auto simp: rank_def)
      with Some False Cons show ?thesis by auto
    qed
  qed
qed simp

lemma pick_result:
  obtains (kept) "pick rk ns (b, v) = (b, v)" and "\<forall>n\<in>set ns. \<forall>c. rk n = Some c \<longrightarrow> c \<le> v"
  | (found) ps n qs c where "ns = ps @ n # qs" and "pick rk ns (b, v) = (Some n, c)" and "rk n = Some c"
      and "v < c" and "\<forall>m\<in>set ps. \<forall>w. rk m = Some w \<longrightarrow> w < c" and "\<forall>m\<in>set qs. \<forall>w. rk m = Some w \<longrightarrow> w \<le> c"
proof -
  have "(pick rk ns (b, v) = (b, v) \<and> (\<forall>n\<in>set ns. \<forall>c. rk n = Some c \<longrightarrow> c \<le> v))
    \<or> (\<exists>ps n qs c. ns = ps @ n # qs \<and> pick rk ns (b, v) = (Some n, c) \<and> rk n = Some c \<and> v < c
      \<and> (\<forall>m\<in>set ps. \<forall>w. rk m = Some w \<longrightarrow> w < c) \<and> (\<forall>m\<in>set qs. \<forall>w. rk m = Some w \<longrightarrow> w \<le> c))"
  proof (induction ns arbitrary: b v)
    case (Cons n ns)
    consider (skip) "\<forall>c. rk n = Some c \<longrightarrow> c \<le> v" | (take) c where "rk n = Some c" "v < c"
      by force
    then show ?case
    proof cases
      case skip
      then have eq: "pick rk (n # ns) (b, v) = pick rk ns (b, v)" by (cases "rk n") auto
      from Cons.IH [of b v] show ?thesis
      proof
        assume "pick rk ns (b, v) = (b, v) \<and> (\<forall>n\<in>set ns. \<forall>c. rk n = Some c \<longrightarrow> c \<le> v)"
        with skip eq show ?thesis by simp
      next
        assume "\<exists>ps m qs c. ns = ps @ m # qs \<and> pick rk ns (b, v) = (Some m, c) \<and> rk m = Some c \<and> v < c
          \<and> (\<forall>m\<in>set ps. \<forall>w. rk m = Some w \<longrightarrow> w < c) \<and> (\<forall>m\<in>set qs. \<forall>w. rk m = Some w \<longrightarrow> w \<le> c)"
        then obtain ps m qs c where f: "ns = ps @ m # qs" "pick rk ns (b, v) = (Some m, c)" "rk m = Some c" "v < c"
          "\<forall>m\<in>set ps. \<forall>w. rk m = Some w \<longrightarrow> w < c" "\<forall>m\<in>set qs. \<forall>w. rk m = Some w \<longrightarrow> w \<le> c" by blast
        with skip have "\<forall>m\<in>set (n # ps). \<forall>w. rk m = Some w \<longrightarrow> w < c" by fastforce
        with f eq show ?thesis by (metis append_Cons)
      qed
    next
      case (take c)
      then have eq: "pick rk (n # ns) (b, v) = pick rk ns (Some n, c)" by simp
      from Cons.IH [of "Some n" c] show ?thesis
      proof
        assume "pick rk ns (Some n, c) = (Some n, c) \<and> (\<forall>n\<in>set ns. \<forall>d. rk n = Some d \<longrightarrow> d \<le> c)"
        with take eq have "n # ns = [] @ n # ns \<and> pick rk (n # ns) (b, v) = (Some n, c) \<and> rk n = Some c
          \<and> v < c \<and> (\<forall>m\<in>set []. \<forall>w. rk m = Some w \<longrightarrow> w < c) \<and> (\<forall>m\<in>set ns. \<forall>w. rk m = Some w \<longrightarrow> w \<le> c)"
          by simp
        then show ?thesis by blast
      next
        assume "\<exists>ps m qs d. ns = ps @ m # qs \<and> pick rk ns (Some n, c) = (Some m, d) \<and> rk m = Some d \<and> c < d
          \<and> (\<forall>m\<in>set ps. \<forall>w. rk m = Some w \<longrightarrow> w < d) \<and> (\<forall>m\<in>set qs. \<forall>w. rk m = Some w \<longrightarrow> w \<le> d)"
        then obtain ps m qs d where f: "ns = ps @ m # qs" "pick rk ns (Some n, c) = (Some m, d)" "rk m = Some d" "c < d"
          "\<forall>m\<in>set ps. \<forall>w. rk m = Some w \<longrightarrow> w < d" "\<forall>m\<in>set qs. \<forall>w. rk m = Some w \<longrightarrow> w \<le> d" by blast
        with take have "\<forall>m\<in>set (n # ps). \<forall>w. rk m = Some w \<longrightarrow> w < d" "v < d" by auto
        with f eq show ?thesis by (metis append_Cons)
      qed
    qed
  qed simp
  then show thesis using kept found by blast
qed

lemma rank_Some_iff:
  "rank el ex s n = Some v \<longleftrightarrow>
     (\<exists>e sc. route_key s n = Some e \<and> el e \<and> score_key s n = Some sc \<and> v = ex sc)"
  by (auto simp: rank_def split: option.splits if_splits)

text \<open>What both versions of \<open>recompute_best_route\<close> compute, for any test of eligibility.\<close>

lemma scan_result:
  assumes "data_ok s"
  shows "\<exists>v. best_loop el (composite_score (scoring_weights_internal s)) s ns None I64_MIN
      = Inr (fst (pick (rank el (exact_score (scoring_weights_internal s)) s) ns (None, - (2 ^ 63))), v)
    \<and> sint v = snd (pick (rank el (exact_score (scoring_weights_internal s)) s) ns (None, - (2 ^ 63)))"
proof -
  have "\<forall>n\<in>set ns. \<forall>sc. score_key s n = Some sc \<longrightarrow>
      (\<exists>c. composite_score (scoring_weights_internal s) sc = Inr c
         \<and> sint c = exact_score (scoring_weights_internal s) sc)"
    using assms composite_exact by (auto simp: data_ok_def)
  from best_loop_pick [OF this, of el None I64_MIN] show ?thesis
    by (simp add: I64_MIN_def sint_word_of_int_i64 in_i64_def)
qed

lemma scan_best:
  assumes "data_ok s" and "\<And>n v. rk n = Some v \<Longrightarrow> n \<in> set ns"
    and rk: "rk = rank el (exact_score (scoring_weights_internal s)) s"
  shows "case fst (pick rk ns (None, - (2 ^ 63))) of
      None \<Rightarrow> \<forall>n. rk n = None
    | Some b \<Rightarrow> (\<exists>v. rk b = Some v \<and> (\<forall>n w. rk n = Some w \<longrightarrow> w \<le> v))"
proof -
  have low: "- (2 ^ 63) < v" if "rk n = Some v" for n v
    using that assms(1) exact_score_bounds(1) unfolding rk rank_Some_iff data_ok_def by fastforce
  show ?thesis
  proof (cases rule: pick_result [of rk ns None "- (2 ^ 63)"])
    case kept
    have "rk n = None" for n
    proof (cases "rk n")
      case (Some v)
      with kept(2) assms(2) low show ?thesis by fastforce
    qed simp
    with kept(1) show ?thesis by simp
  next
    case (found ps n qs c)
    have "w \<le> c" if "rk m = Some w" for m w
    proof -
      from assms(2) [OF that] found(1) have "m \<in> set ps \<or> m = n \<or> m \<in> set qs" by auto
      with that found show ?thesis by fastforce
    qed
    with found(2,3) show ?thesis by simp
  qed
qed

text \<open>Recomputing never fails, leaves the rest of the state alone and restores the cache.\<close>

lemma selection_eligible:
  assumes "selection env sel"
  shows "rank sel f s n = Some v \<Longrightarrow> rank (\<lambda>e. \<not> rt_paused e) f s n = Some v"
    and "rank sel f s n = Some v \<Longrightarrow> rank (\<lambda>e. \<not> rt_paused e \<and> \<not> is_route_expired env e) f s n = Some v"
proof -
  have "sel e \<Longrightarrow> \<not> rt_paused e \<and> \<not> is_route_expired env e" for e
    using assms unfolding selection_def by blast
  then show "rank sel f s n = Some v \<Longrightarrow> rank (\<lambda>e. \<not> rt_paused e) f s n = Some v"
    and "rank sel f s n = Some v \<Longrightarrow> rank (\<lambda>e. \<not> rt_paused e \<and> \<not> is_route_expired env e) f s n = Some v"
    by (auto simp: rank_Some_iff)
qed

lemma live_unpaused:
  "rank (\<lambda>e. \<not> rt_paused e \<and> \<not> is_route_expired env e) f s n = Some v \<Longrightarrow>
     rank (\<lambda>e. \<not> rt_paused e) f s n = Some v"
  by (auto simp: rank_Some_iff)

lemma same_view [simp]:
  "scoring_weights_internal (cache_best b v s) = scoring_weights_internal s"
  "rank el f (cache_best b v s) = rank el f s"
  "scoring_weights_internal (publish t d s) = scoring_weights_internal s"
  "rank el f (publish t d s) = rank el f s"
  by (auto simp: scoring_weights_internal_def rank_def fun_eq_iff split: option.splits)

lemma cache_best_ok:
  assumes "data_ok s" and "set (route_names s) = dom (route_key s)"
    and "\<And>f n v. rank sel f s n = Some v \<Longrightarrow> rank el f s n = Some v"
    and "\<And>f n v. rank el f s n = Some v \<Longrightarrow> rank (\<lambda>e. \<not> rt_paused e) f s n = Some v"
    and "best_loop el (composite_score (scoring_weights_internal s)) s (route_names s) None I64_MIN = Inr (b, v)"
  shows "cache_for sel (cache_best b v s)"
proof -
  let ?w = "scoring_weights_internal s"
  let ?rk = "rank el (exact_score ?w) s"
  from scan_result [OF assms(1), of el "route_names s"] assms(5)
  have b: "b = fst (pick ?rk (route_names s) (None, - (2 ^ 63)))" by auto
  have mem: "\<And>n v. ?rk n = Some v \<Longrightarrow> n \<in> set (route_names s)"
    using assms(2) by (auto simp: rank_Some_iff)
  have best: "case b of None \<Rightarrow> \<forall>n. ?rk n = None
      | Some b \<Rightarrow> (\<exists>v. ?rk b = Some v \<and> (\<forall>n w. ?rk n = Some w \<longrightarrow> w \<le> v))"
    unfolding b by (rule scan_best [OF assms(1) mem refl])
  show ?thesis
  proof (cases b)
    case None
    with best have "\<forall>n. ?rk n = None" by simp
    with assms(3) have "\<forall>n. rank sel (exact_score ?w) s n = None"
      by (metis option.exhaust option.distinct(1))
    with None show ?thesis by (simp add: cache_ok_def)
  next
    case (Some m)
    with best obtain v where v: "?rk m = Some v" "\<forall>n w. ?rk n = Some w \<longrightarrow> w \<le> v" by auto
    have "rank (\<lambda>e. \<not> rt_paused e) (exact_score ?w) s m = Some v" using v(1) by (rule assms(4))
    moreover have "\<forall>n w. rank sel (exact_score ?w) s n = Some w \<longrightarrow> w \<le> v"
      using v(2) assms(3) by blast
    ultimately show ?thesis using Some by (simp add: cache_ok_def)
  qed
qed

lemma recompute_ok:
  assumes sel: "selection env sel" and "data_ok s" and "set (route_names s) = dom (route_key s)"
  shows "\<exists>b v. recompute_best_route s = Inr (cache_best b v s) \<and> cache_for sel (cache_best b v s)"
    and "\<exists>b v. scoring_recompute_best_route env s = Inr (cache_best b v s) \<and> cache_for sel (cache_best b v s)"
proof -
  let ?el = "\<lambda>e. \<not> rt_paused e" and ?el' = "\<lambda>e. \<not> rt_paused e \<and> \<not> is_route_expired env e"
  from scan_result [OF assms(2)] obtain b v where
    "best_loop ?el (composite_score (scoring_weights_internal s)) s (route_names s) None I64_MIN = Inr (b, v)" by blast
  with cache_best_ok [OF assms(2,3) _ _ this, of sel] selection_eligible(1) [OF sel]
  show "\<exists>b v. recompute_best_route s = Inr (cache_best b v s) \<and> cache_for sel (cache_best b v s)"
    by (auto simp: recompute_best_route_def)
  from scan_result [OF assms(2)] obtain b v where
    "best_loop ?el' (composite_score (scoring_weights_internal s)) s (route_names s) None I64_MIN = Inr (b, v)" by blast
  with cache_best_ok [OF assms(2,3) _ _ this, of sel] selection_eligible(2) [OF sel] live_unpaused
  show "\<exists>b v. scoring_recompute_best_route env s = Inr (cache_best b v s) \<and> cache_for sel (cache_best b v s)"
    by (auto simp: scoring_recompute_best_route_def)
qed

text \<open>Events and the cache do not matter to the tables.\<close>

lemma tables_frame [simp]:
  "routes_ok (publish t d s) = routes_ok s" "aliases_ok (publish t d s) = aliases_ok s"
  "data_ok (publish t d s) = data_ok s" "deps_ok (publish t d s) = deps_ok s"
  "cache_for sel (publish t d s) = cache_for sel s"
  "routes_ok (cache_best b v s) = routes_ok s" "aliases_ok (cache_best b v s) = aliases_ok s"
  "data_ok (cache_best b v s) = data_ok s" "deps_ok (cache_best b v s) = deps_ok s"
  by (simp_all add: routes_ok_def aliases_ok_def data_ok_def deps_ok_def dep_rel_def cache_ok_def
      cong: option.case_cong)

definition tables_ok :: "router \<Rightarrow> bool" where
  "tables_ok s \<longleftrightarrow> routes_ok s \<and> aliases_ok s \<and> data_ok s \<and> deps_ok s"

lemma core_inv_tables: "inv_for sel s \<longleftrightarrow> tables_ok s \<and> cache_for sel s"
  by (auto simp: core_inv_def tables_ok_def)

lemma tables_ok_frame [simp]:
  "tables_ok (publish t d s) = tables_ok s" "tables_ok (cache_best b v s) = tables_ok s"
  by (simp_all add: tables_ok_def)

lemma tables_recompute_for:
  assumes sel: "selection env sel" and "tables_ok s"
  shows "\<exists>b v. recompute_best_route s = Inr (cache_best b v s) \<and> inv_for sel (cache_best b v s)"
    and "\<exists>b v. scoring_recompute_best_route env s = Inr (cache_best b v s) \<and> inv_for sel (cache_best b v s)"
proof -
  have "data_ok s" "set (route_names s) = dom (route_key s)"
    using assms(2) by (simp_all add: tables_ok_def routes_ok_def)
  note ok = recompute_ok [OF sel this]
  from ok(1) assms(2) show "\<exists>b v. recompute_best_route s = Inr (cache_best b v s) \<and> inv_for sel (cache_best b v s)"
    by (auto simp: core_inv_tables)
  from ok(2) assms(2)
  show "\<exists>b v. scoring_recompute_best_route env s = Inr (cache_best b v s) \<and> inv_for sel (cache_best b v s)"
    by (fastforce simp: core_inv_tables)
qed

lemmas tables_recompute = tables_recompute_for [OF permanent_selection]

lemma recompute_Inr_for:
  assumes "selection env sel" and "tables_ok s"
  shows "recompute_best_route s = Inr s' \<Longrightarrow> (\<exists>b v. s' = cache_best b v s) \<and> inv_for sel s'"
    and "scoring_recompute_best_route env s = Inr s' \<Longrightarrow> (\<exists>b v. s' = cache_best b v s) \<and> inv_for sel s'"
  using tables_recompute_for [OF assms] by auto

lemmas recompute_Inr = recompute_Inr_for [OF permanent_selection]

lemma cache_ok_keep:
  assumes "cache_for sel s" and "best_route_key s' = best_route_key s"
    and w: "scoring_weights_key s' = scoring_weights_key s"
    and "\<And>f n v. rank sel f s' n = Some v \<Longrightarrow> rank sel f s n = Some v"
    and "\<And>f n v. rank (\<lambda>e. \<not> rt_paused e) f s n = Some v \<Longrightarrow> rank (\<lambda>e. \<not> rt_paused e) f s' n = Some v"
  shows "cache_for sel s'"
proof -
  have w: "scoring_weights_internal s' = scoring_weights_internal s"
    using w by (simp add: scoring_weights_internal_def)
  show ?thesis
  proof (cases "best_route_key s")
    case None
    with assms(1) have none: "rank sel (exact_score (scoring_weights_internal s)) s n = None" for n
      by (simp add: cache_ok_def)
    have "rank sel (exact_score (scoring_weights_internal s)) s' n = None" for n
    proof (cases "rank sel (exact_score (scoring_weights_internal s)) s' n")
      case (Some v)
      then show ?thesis using assms(4) none by fastforce
    qed simp
    with None assms(2) w show ?thesis by (simp add: cache_ok_def)
  next
    case (Some b)
    with assms(1) obtain v where
      "rank (\<lambda>e. \<not> rt_paused e) (exact_score (scoring_weights_internal s)) s b = Some v"
      "\<forall>n w. rank sel (exact_score (scoring_weights_internal s)) s n = Some w \<longrightarrow> w \<le> v"
      by (auto simp: cache_ok_def)
    with assms(4,5) have
      "rank (\<lambda>e. \<not> rt_paused e) (exact_score (scoring_weights_internal s)) s' b = Some v"
      "\<forall>n w. rank sel (exact_score (scoring_weights_internal s)) s' n = Some w \<longrightarrow> w \<le> v" by blast+
    with Some assms(2) w show ?thesis by (simp add: cache_ok_def)
  qed
qed

subsection \<open>Every transaction keeps the invariant\<close>

lemma validate_route_name_iff [res_simps]:
  "validate_route_name s n = Inr u \<longleftrightarrow> valid_name n \<and> route_key s n = None \<and> alias_key s n = None"
  by (auto simp: validate_route_name_def valid_name_def res_simps not_less Suc_le_eq)

lemma store_route_Inr:
  assumes "store_route e md n s = Inr s'"
  obtains m where "checked_add n 1 = Some m"
    and "admin_key s' = admin_key s" "route_key s' = (route_key s)(rt_name e \<mapsto> e)"
    "route_names s' = route_names s @ [rt_name e]" "route_count_key s' = Some m"
    "max_routes_key s' = max_routes_key s" "paused_key s' = paused_key s"
    "total_routed_key s' = total_routed_key s" "alias_key s' = alias_key s"
    "alias_names s' = alias_names s" "score_key s' = score_key s"
    "metadata_key s' = (case md of None \<Rightarrow> metadata_key s | Some d \<Rightarrow> (metadata_key s)(rt_name e \<mapsto> d))"
    "dependencies_key s' = dependencies_key s" "dependents_key s' = dependents_key s"
    "best_route_key s' = best_route_key s" "scoring_weights_key s' = scoring_weights_key s"
  using assms by (cases md) (auto simp: store_route_def Let_def res_simps)

lemma rank_update_route:
  assumes "route_key s' = (route_key s)(n \<mapsto> e')" and "score_key s' = score_key s"
  shows "rank el f s' m = (if m = n then (if el e' then map_option f (score_key s n) else None) else rank el f s m)"
  by (simp add: rank_def assms cong: option.case_cong if_cong)

lemma store_route_inv:
  assumes inv: "inv_for sel s" and adm: "admin_key s \<noteq> None"
    and new: "route_key s (rt_name e) = None" "alias_key s (rt_name e) = None" "valid_name (rt_name e)"
    and addr: "rt_address e \<noteq> ZERO_ADDRESS" and md: "validate_some_metadata md = Inr ()"
    and "store_route e md (unwrap_or (route_count_key s) 0) s = Inr s'"
  shows "inv_for sel s'"
proof -
  from assms(8) obtain m where m: "checked_add (unwrap_or (route_count_key s) 0) 1 = Some m"
    and s': "admin_key s' = admin_key s" "route_key s' = (route_key s)(rt_name e \<mapsto> e)"
    "route_names s' = route_names s @ [rt_name e]" "route_count_key s' = Some m"
    "alias_key s' = alias_key s" "alias_names s' = alias_names s" "score_key s' = score_key s"
    "metadata_key s' = (case md of None \<Rightarrow> metadata_key s | Some d \<Rightarrow> (metadata_key s)(rt_name e \<mapsto> d))"
    "dependencies_key s' = dependencies_key s" "dependents_key s' = dependents_key s"
    "best_route_key s' = best_route_key s" "scoring_weights_key s' = scoring_weights_key s"
    by (rule store_route_Inr) blast
  have ok: "routes_ok s" "aliases_ok s" "data_ok s" "deps_ok s" "cache_for sel s"
    using inv by (simp_all add: core_inv_def)
  have "routes_ok s'"
    using ok(1) new m adm addr unfolding routes_ok_def
    by (auto simp: s' checked_add_Some_iff dom_def)
  moreover have "aliases_ok s'"
    using ok(2) new unfolding aliases_ok_def by (auto simp: s')
  moreover have none: "score_key s (rt_name e) = None"
    using ok(3) new(1) unfolding data_ok_def by (metis not_None_eq)
  have "data_ok s'"
    using ok(3) md none unfolding data_ok_def
    by (cases md) (auto simp: s' scoring_weights_internal_def validate_some_metadata_def)
  moreover have "deps_ok s'"
    using ok(4) unfolding deps_ok_def dep_rel_def by (auto simp: s')
  moreover have fresh: "rank el f s (rt_name e) = None" for el and f :: "route_score \<Rightarrow> int"
    using new(1) by (simp add: rank_def)
  have "cache_for sel s'"
    by (rule cache_ok_keep [OF ok(5)])
      (auto simp: s' rank_update_route [OF s'(2,7)] none fresh split: if_splits)
  ultimately show ?thesis by (simp add: core_inv_def)
qed

text \<open>An entry replaced under its own name.\<close>

lemma tables_update_entry:
  assumes "tables_ok s" and "route_key s n = Some e" and "rt_name e' = n" and "rt_address e' \<noteq> ZERO_ADDRESS"
  shows "tables_ok (s\<lparr>route_key := (route_key s)(n \<mapsto> e')\<rparr>)"
proof -
  let ?s = "s\<lparr>route_key := (route_key s)(n \<mapsto> e')\<rparr>"
  have ok: "routes_ok s" "aliases_ok s" "data_ok s" "deps_ok s"
    using assms(1) by (simp_all add: tables_ok_def)
  have dom: "dom ((route_key s)(n \<mapsto> e')) = dom (route_key s)" using assms(2) by auto
  have "routes_ok ?s" using ok(1) assms(2-4) unfolding routes_ok_def by (auto simp: dom)
  moreover have "aliases_ok ?s" using ok(2) assms(2) unfolding aliases_ok_def by fastforce
  moreover have "data_ok ?s"
    using ok(3) unfolding data_ok_def by (auto simp: scoring_weights_internal_def)
  moreover have "deps_ok ?s" using ok(4) unfolding deps_ok_def dep_rel_def by auto
  ultimately show ?thesis by (simp add: tables_ok_def)
qed

lemma core_inv_update_entry:
  assumes "inv_for sel s" and "route_key s n = Some e" and "rt_name e' = n" and "rt_address e' \<noteq> ZERO_ADDRESS"
    and "rt_paused e' = rt_paused e" and "sel e' \<longrightarrow> sel e"
  shows "inv_for sel (s\<lparr>route_key := (route_key s)(n \<mapsto> e')\<rparr>)"
proof -
  let ?s = "s\<lparr>route_key := (route_key s)(n \<mapsto> e')\<rparr>"
  have "cache_for sel ?s"
  proof (rule cache_ok_keep)
    show "cache_for sel s" using assms(1) by (simp add: core_inv_def)
  next
    fix f m v
    assume "rank sel f ?s m = Some v"
    with assms(2,5,6) show "rank sel f s m = Some v"
      by (auto simp: rank_Some_iff split: if_splits)
  next
    fix f m v
    assume "rank (\<lambda>e. \<not> rt_paused e) f s m = Some v"
    with assms(2,5) show "rank (\<lambda>e. \<not> rt_paused e) f ?s m = Some v"
      by (auto simp: rank_Some_iff)
  qed simp_all
  then show ?thesis using tables_update_entry [OF _ assms(2-4)] assms(1) by (simp add: core_inv_tables)
qed

lemma entry_facts:
  assumes "inv_for sel s" and "route_key s n = Some e"
  shows "rt_name e = n" and "rt_address e \<noteq> ZERO_ADDRESS" and "n \<in> set (route_names s)" and "valid_name n"
  using assms unfolding core_inv_def routes_ok_def by auto

text \<open>Removal.\<close>

lemma length_without: "distinct xs \<Longrightarrow> x \<in> set xs \<Longrightarrow> Suc (length (filter (\<lambda>y. y \<noteq> x) xs)) = length xs"
proof (induction xs)
  case (Cons a xs)
  show ?case
  proof (cases "a = x")
    case True
    with Cons.prems have "filter (\<lambda>y. y \<noteq> x) xs = xs" by (auto simp: filter_id_conv)
    with True show ?thesis by simp
  qed (use Cons in simp)
qed simp

lemma tables_remove:
  assumes "tables_ok s" and "route_key s n \<noteq> None" and "dependents_key s n = []"
  shows "tables_ok (remove_aliases_for_route n (drop_route n s))"
proof -
  let ?d = "drop_route n s" and ?r = "remove_aliases_for_route n (drop_route n s)"
  have ok: "routes_ok s" "aliases_ok s" "data_ok s" "deps_ok s"
    using assms(1) by (simp_all add: tables_ok_def)
  have names: "n \<in> set (route_names s)" "distinct (route_names s)"
    using ok(1) assms(2) by (auto simp: routes_ok_def)
  then have len: "Suc (length (filter (\<lambda>m. m \<noteq> n) (route_names s))) = length (route_names s)"
    by (intro length_without)
  have adm: "admin_key s \<noteq> None" using ok(1) names(1) unfolding routes_ok_def by auto
  have "routes_ok ?r"
    using ok(1) adm len unfolding routes_ok_def by (auto simp: unat_saturating_sub)
  moreover have al: "alias_key ?r = (\<lambda>al. if alias_key s al = Some n then None else alias_key s al)"
    "alias_names ?r = filter (\<lambda>al. alias_key s al \<noteq> Some n) (alias_names s)"
  proof -
    have "aliases_ok s" by (rule ok(2))
    then have "distinct (alias_names ?d)" "\<forall>al\<in>set (alias_names ?d). alias_key ?d al \<noteq> None"
      and dom: "set (alias_names s) = dom (alias_key s)"
      by (auto simp: aliases_ok_def)
    note loop = remove_aliases_loop_result [OF this(1,2), of n "[]"]
    show "alias_key ?r = (\<lambda>al. if alias_key s al = Some n then None else alias_key s al)"
      using loop dom by (auto simp: remove_aliases_for_route_def fun_eq_iff)
    show "alias_names ?r = filter (\<lambda>al. alias_key s al \<noteq> Some n) (alias_names s)"
      using loop by (simp add: remove_aliases_for_route_def)
  qed
  have "aliases_ok ?r"
    using ok(2) unfolding aliases_ok_def by (auto simp: al split: if_splits)
  moreover have "data_ok ?r"
    using ok(3) unfolding data_ok_def by (auto simp: scoring_weights_internal_def)
  moreover have "deps_ok ?r"
  proof -
    have nobody: "n \<notin> set (dependencies_key s m)" for m
      using ok(4) assms(3) unfolding deps_ok_def by auto
    have "dep_rel ?r \<subseteq> dep_rel s" by (auto simp: dep_rel_def split: if_splits)
    then have "acyclic (dep_rel ?r)" using ok(4) acyclic_subset unfolding deps_ok_def by blast
    then show ?thesis using ok(4) nobody unfolding deps_ok_def by auto
  qed
  ultimately show ?thesis by (simp add: tables_ok_def)
qed

lemma visit_Inr_iff:
  "visit_dependencies s c t st d = Inr () \<longleftrightarrow> d \<le> MAX_RECURSION_DEPTH \<and> c \<notin> set st \<and> c \<noteq> t
     \<and> (\<forall>x\<in>set (dependencies_key s c). visit_dependencies s x t (st @ [c]) (d + 1) = Inr ())"
  by (subst visit_dependencies.simps) (simp add: res_simps not_less)

text \<open>A successful visit has looked at everything below its start.\<close>

lemma visit_reach:
  "visit_dependencies s c t st d = Inr () \<Longrightarrow> (c, m) \<in> (dep_rel s)\<^sup>* \<Longrightarrow> m \<noteq> t"
proof (induction s c t st d rule: visit_dependencies.induct)
  case (1 s c t st d)
  have ok: "\<not> d > MAX_RECURSION_DEPTH" "c \<notin> set st" "c \<noteq> t"
    and below: "\<forall>x\<in>set (dependencies_key s c). visit_dependencies s x t (st @ [c]) (d + 1) = Inr ()"
    using "1.prems"(1) by (simp_all add: visit_Inr_iff [of s c])
  show ?case
  proof (cases "m = c")
    case False
    with "1.prems"(2) obtain x where x: "(c, x) \<in> dep_rel s" "(x, m) \<in> (dep_rel s)\<^sup>*"
      by (metis converse_rtranclE)
    then have "x \<in> set (dependencies_key s c)" by (simp add: dep_rel_def)
    with "1.IH" [OF ok this] below x(2) show ?thesis by blast
  qed (use ok in simp)
qed

lemma set_dependency_inv:
  assumes "inv_for sel s" and "set_route_dependency env c r d s = Inr ((), s')"
  shows "inv_for sel s'"
proof -
  have ok: "routes_ok s" "aliases_ok s" "data_ok s" "deps_ok s" "cache_for sel s"
    using assms(1) by (simp_all add: core_inv_def)
  from assms(2) have routes: "route_key s r \<noteq> None" "route_key s d \<noteq> None" "r \<noteq> d"
    and visit: "visit_dependencies s d r [] 0 = Inr ()"
    and s': "s' = (if d \<in> set (dependencies_key s r) then s
      else s\<lparr>dependencies_key := (dependencies_key s)(r := dependencies_key s r @ [d]),
             dependents_key := (dependents_key s)(d := dependents_key s d @ [r])\<rparr>)"
    by (auto simp: set_route_dependency_def validate_dependency_cycle_def res_simps Let_def split: if_splits)
  show ?thesis
  proof (cases "d \<in> set (dependencies_key s r)")
    case True
    with s' assms(1) show ?thesis by simp
  next
    case False
    have new: "r \<notin> set (dependents_key s d)" using ok(4) False unfolding deps_ok_def by blast
    have rel: "dep_rel s' = insert (r, d) (dep_rel s)"
      using False by (auto simp: s' dep_rel_def split: if_splits)
    have "(d, r) \<notin> (dep_rel s)\<^sup>*" using visit_reach [OF visit] by blast
    then have "acyclic (dep_rel s')" using ok(4) unfolding rel deps_ok_def by (simp add: acyclic_insert)
    then have "deps_ok s'"
      using ok(4) False new routes unfolding deps_ok_def by (auto simp: s')
    moreover have "routes_ok s'" "aliases_ok s'" "data_ok s'"
      using ok(1-3) False unfolding s' routes_ok_def aliases_ok_def data_ok_def scoring_weights_internal_def
      by simp_all
    moreover have "cache_for sel s'"
      by (rule cache_ok_keep [OF ok(5)]) (use False in \<open>simp_all add: s' rank_Some_iff\<close>)
    ultimately show ?thesis by (simp add: core_inv_def)
  qed
qed

lemma validate_score_iff [res_simps]: "validate_score sc = Inr u \<longleftrightarrow> score_ok sc"
  by (auto simp: validate_score_def score_ok_def res_simps not_less)

lemma tables_set_score:
  assumes "tables_ok s" and "route_key s n \<noteq> None" and "score_ok sc"
  shows "tables_ok (score_event n sc (s\<lparr>score_key := (score_key s)(n \<mapsto> sc)\<rparr>))"
  using assms unfolding tables_ok_def routes_ok_def aliases_ok_def data_ok_def deps_ok_def dep_rel_def
  by (auto simp: score_event_def scoring_weights_internal_def)

lemma tables_store_scores:
  "tables_ok s \<Longrightarrow> \<forall>x\<in>set xs. route_key s (si_name x) \<noteq> None \<and> score_ok (si_score x) \<Longrightarrow>
     tables_ok (store_scores xs s)"
proof (induction xs arbitrary: s)
  case (Cons x xs)
  then have "tables_ok (score_event (si_name x) (si_score x) (s\<lparr>score_key := (score_key s)(si_name x \<mapsto> si_score x)\<rparr>))"
    by (intro tables_set_score) simp_all
  then show ?case using Cons by (simp add: score_event_def)
qed simp

lemma store_scores_sel [simp]:
  "admin_key (store_scores xs s) = admin_key s" "route_key (store_scores xs s) = route_key s"
  "route_names (store_scores xs s) = route_names s" "alias_key (store_scores xs s) = alias_key s"
  by (induction xs arbitrary: s) (simp_all add: score_event_def)

lemma tables_add_alias:
  assumes "tables_ok s" and "route_key s t \<noteq> None" and "valid_name a" "route_key s a = None" "alias_key s a = None"
  shows "tables_ok (s\<lparr>alias_key := (alias_key s)(a \<mapsto> t), alias_names := alias_names s @ [a]\<rparr>)"
proof -
  have "a \<notin> set (alias_names s)" using assms(1,5) by (auto simp: tables_ok_def aliases_ok_def)
  moreover have "admin_key s \<noteq> None"
    using assms(1,2) unfolding tables_ok_def routes_ok_def by (metis domIff empty_iff list.set(1))
  ultimately show ?thesis
    using assms unfolding tables_ok_def routes_ok_def aliases_ok_def data_ok_def deps_ok_def dep_rel_def
    by (auto simp: scoring_weights_internal_def)
qed

lemma tables_remove_alias:
  assumes "tables_ok s"
  shows "tables_ok (s\<lparr>alias_key := (alias_key s)(a := None), alias_names := filter (\<lambda>x. x \<noteq> a) (alias_names s)\<rparr>)"
  using assms unfolding tables_ok_def routes_ok_def aliases_ok_def data_ok_def deps_ok_def dep_rel_def
  by (auto simp: scoring_weights_internal_def)

lemma core_initialize_iff:
  "core_initialize env a m s = Inr (u, s') \<longleftrightarrow> auth env a \<and> admin_key s = None \<and> m \<noteq> Some 0
     \<and> s' = s\<lparr>admin_key := Some a, route_names := [], alias_names := [], paused_key := Some False,
          total_routed_key := Some 0, route_count_key := Some 0,
          max_routes_key := Some (unwrap_or m DEFAULT_MAX_ROUTES)\<rparr>"
  by (auto simp: core_initialize_def res_simps)

definition fresh_entry :: "address \<Rightarrow> string \<Rightarrow> address \<Rightarrow> u32 option \<Rightarrow> route_entry" where
  "fresh_entry c n a ex = \<lparr>rt_address = a, rt_name = n, rt_paused = False, updated_by = c,
     rt_expires_at = ex\<rparr>"

lemma fresh_entry_sel [simp]:
  "rt_name (fresh_entry c n a ex) = n" "rt_address (fresh_entry c n a ex) = a"
  "rt_paused (fresh_entry c n a ex) = False" "rt_expires_at (fresh_entry c n a ex) = ex"
  by (simp_all add: fresh_entry_def)

lemma register_route_internal_iff:
  "register_route_internal c n a md ex s = Inr s' \<longleftrightarrow>
     valid_name n \<and> route_key s n = None \<and> alias_key s n = None \<and> a \<noteq> ZERO_ADDRESS
     \<and> validate_some_metadata md = Inr ()
     \<and> unwrap_or (route_count_key s) 0 < unwrap_or (max_routes_key s) DEFAULT_MAX_ROUTES
     \<and> store_route (fresh_entry c n a ex) md (unwrap_or (route_count_key s) 0) s = Inr s'"
  by (auto simp: register_route_internal_def res_simps Let_def not_le is_zero_address_def fresh_entry_def)

lemma register_route_iff:
  "register_route env c n a md s = Inr (u, s') \<longleftrightarrow> auth env c \<and> admin_key s = Some c
     \<and> register_route_internal c n a md None s = Inr s'"
  by (auto simp: register_route_def register_route_internal_iff res_simps Let_def not_le is_zero_address_def
      fresh_entry_def)

lemma register_route_with_ttl_iff:
  "register_route_with_ttl env c n a ttl s = Inr (u, s') \<longleftrightarrow> auth env c \<and> admin_key s = Some c
     \<and> ttl \<noteq> Some 0 \<and> (\<exists>s1. register_route_internal c n a None
          (map_option (saturating_add (sequence env)) ttl) s = Inr s1
        \<and> s' = (case ttl of None \<Rightarrow> s1 | Some k \<Rightarrow> publish ''route_ttl_set''
             (VTuple [VStr n, VU32 (saturating_add (sequence env) k)]) s1))"
  by (cases ttl) (auto simp: register_route_with_ttl_def res_simps Let_def)

lemma extend_route_ttl_iff:
  "extend_route_ttl env c n k s = Inr (u, s') \<longleftrightarrow> auth env c \<and> admin_key s = Some c \<and> k \<noteq> 0
     \<and> (\<exists>e ex. route_key s n = Some e \<and> \<not> is_route_expired env e
        \<and> ex = saturating_add (unwrap_or (rt_expires_at e) (sequence env)) k
        \<and> s' = publish ''route_ttl_extended'' (VTuple [VStr n, VU32 ex])
            (s\<lparr>route_key := (route_key s)(n \<mapsto> e\<lparr>rt_expires_at := Some ex, updated_by := c\<rparr>)\<rparr>))"
  by (auto simp: extend_route_ttl_def res_simps Let_def)

lemma update_route_iff:
  "update_route env c n a s = Inr (u, s') \<longleftrightarrow> auth env c \<and> admin_key s = Some c \<and> a \<noteq> ZERO_ADDRESS
     \<and> (\<exists>e. route_key s n = Some e
        \<and> s' = publish ''route_overwritten'' (VTuple [VStr n, VAddr (rt_address e), VAddr a])
            (publish ''route_updated'' (VStr n)
              (s\<lparr>route_key := (route_key s)(n \<mapsto> e\<lparr>rt_address := a, updated_by := c\<rparr>)\<rparr>)))"
  by (auto simp: update_route_def res_simps Let_def is_zero_address_def)

lemma remove_checks_iff [res_simps]:
  "remove_checks n s = Inr u \<longleftrightarrow> route_key s n \<noteq> None \<and> dependents_key s n = []"
  by (simp add: remove_checks_def res_simps route_has_dependents_def)

lemma remove_route_iff:
  "remove_route env c n s = Inr (u, s') \<longleftrightarrow> auth env c \<and> admin_key s = Some c
     \<and> route_key s n \<noteq> None \<and> dependents_key s n = []
     \<and> (\<exists>s1. recompute_best_route (remove_aliases_for_route n (drop_route n s)) = Inr s1
        \<and> s' = publish ''route_removed'' (VStr n) s1)"
  by (auto simp: remove_route_def res_simps Let_def)

lemma remove_route_internal_iff:
  "remove_route_internal n s = Inr s' \<longleftrightarrow> route_key s n \<noteq> None \<and> dependents_key s n = []
     \<and> s' = publish ''route_removed'' (VStr n) (remove_aliases_for_route n (drop_route n s))"
  by (auto simp: remove_route_internal_def res_simps)

lemma set_route_paused_iff:
  "set_route_paused env c n p s = Inr (u, s') \<longleftrightarrow> auth env c \<and> admin_key s = Some c
     \<and> (\<exists>e. route_key s n = Some e
        \<and> recompute_best_route (publish ''route_paused'' (VTuple [VStr n, VBool p])
            (s\<lparr>route_key := (route_key s)(n \<mapsto> e\<lparr>rt_paused := p, updated_by := c\<rparr>)\<rparr>)) = Inr s')"
  by (auto simp: set_route_paused_def res_simps Let_def)

lemma set_paused_iff:
  "set_paused env c p s = Inr (u, s') \<longleftrightarrow> auth env c \<and> admin_key s = Some c
     \<and> s' = publish ''router_paused'' (VBool p) (s\<lparr>paused_key := Some p\<rparr>)"
  by (auto simp: set_paused_def res_simps)

lemma update_metadata_iff:
  "update_metadata env c n md s = Inr (u, s') \<longleftrightarrow> auth env c \<and> admin_key s = Some c
     \<and> route_key s n \<noteq> None \<and> validate_some_metadata md = Inr ()
     \<and> s' = publish ''metadata_updated'' (VTuple [VStr n, VBool (md \<noteq> None)])
         (s\<lparr>metadata_key := (metadata_key s)(n := md)\<rparr>)"
  by (auto simp: update_metadata_def res_simps)

lemma add_route_tag_Inr:
  assumes "add_route_tag env c n t s = Inr (u, s')"
  obtains "auth env c" "admin_key s = Some c" "route_key s n \<noteq> None"
    and "s' = s \<or> (\<exists>md. validate_metadata md = Inr ()
      \<and> s' = publish ''route_tag_added'' (VTuple [VStr n, VStr t]) (s\<lparr>metadata_key := (metadata_key s)(n \<mapsto> md)\<rparr>))"
  using assms by (auto simp: add_route_tag_def res_simps Let_def split: if_splits)

lemma remove_route_tag_Inr:
  assumes "remove_route_tag env c n t s = Inr (u, s')"
  obtains "auth env c" "admin_key s = Some c" "route_key s n \<noteq> None"
    and "s' = s \<or> (\<exists>md. metadata_key s n = Some md
      \<and> s' = publish ''route_tag_removed'' (VTuple [VStr n, VStr t])
          (s\<lparr>metadata_key := (metadata_key s)(n \<mapsto> md\<lparr>tags := filter (\<lambda>x. x \<noteq> t) (tags md)\<rparr>)\<rparr>))"
  using assms by (auto simp: remove_route_tag_def res_simps Let_def split: option.splits if_splits)

lemma set_max_routes_iff:
  "set_max_routes env c m s = Inr (u, s') \<longleftrightarrow> auth env c \<and> admin_key s = Some c \<and> m \<noteq> 0
     \<and> s' = publish ''max_routes_updated''
         (VTuple [VU32 (unwrap_or (max_routes_key s) DEFAULT_MAX_ROUTES), VU32 m]) (s\<lparr>max_routes_key := Some m\<rparr>)"
  by (auto simp: set_max_routes_def res_simps Let_def)

lemma core_transfer_admin_iff:
  "core_transfer_admin env c n s = Inr (u, s') \<longleftrightarrow> auth env c \<and> admin_key s = Some c
     \<and> s' = admin_transfer_complete c n s"
  by (auto simp: core_transfer_admin_def res_simps)

lemma set_scoring_weights_iff:
  "set_scoring_weights env c w s = Inr (u, s') \<longleftrightarrow> auth env c \<and> admin_key s = Some c \<and> weights_ok w
     \<and> (\<exists>s1. recompute_best_route (weights_event w (s\<lparr>scoring_weights_key := Some w\<rparr>)) = Inr s1
        \<and> s' = weights_event w s1)"
  by (auto simp: set_scoring_weights_def res_simps weights_ok_def not_le not_less MAX_SCORING_WEIGHT_def)

lemma set_route_score_iff:
  "set_route_score env c n sc s = Inr (u, s') \<longleftrightarrow> auth env c \<and> admin_key s = Some c
     \<and> route_key s n \<noteq> None \<and> score_ok sc
     \<and> recompute_best_route (score_event n sc (s\<lparr>score_key := (score_key s)(n \<mapsto> sc)\<rparr>)) = Inr s'"
  by (auto simp: set_route_score_def res_simps)

lemma set_route_scores_batch_iff:
  "set_route_scores_batch env c xs s = Inr (u, s') \<longleftrightarrow> auth env c \<and> admin_key s = Some c
     \<and> (\<forall>x\<in>set xs. route_key s (si_name x) \<noteq> None \<and> score_ok (si_score x))
     \<and> recompute_best_route (store_scores xs s) = Inr s'"
  by (auto simp: set_route_scores_batch_def res_simps)

lemma add_alias_iff:
  assumes "aliases_ok s"
  shows "add_alias env c t a s = Inr (u, s') \<longleftrightarrow> auth env c \<and> admin_key s = Some c
     \<and> route_key s t \<noteq> None \<and> valid_name a \<and> route_key s a = None \<and> alias_key s a = None
     \<and> scoring_recompute_best_route env (publish ''alias_added'' (VTuple [VStr t, VStr a])
         (s\<lparr>alias_key := (alias_key s)(a \<mapsto> t), alias_names := alias_names s @ [a]\<rparr>)) = Inr s'"
proof -
  have "alias_key s a = None \<longleftrightarrow> a \<notin> set (alias_names s)"
    using assms by (auto simp: aliases_ok_def)
  then show ?thesis by (auto simp: add_alias_def add_alias_internal_def res_simps Let_def)
qed

lemma remove_alias_iff:
  "remove_alias env c a s = Inr (u, s') \<longleftrightarrow> auth env c \<and> admin_key s = Some c \<and> alias_key s a \<noteq> None
     \<and> scoring_recompute_best_route env (publish ''alias_removed'' (VStr a)
         (s\<lparr>alias_key := (alias_key s)(a := None), alias_names := filter (\<lambda>x. x \<noteq> a) (alias_names s)\<rparr>)) = Inr s'"
  by (auto simp: remove_alias_def res_simps Let_def)

lemma set_route_dependency_auth:
  "set_route_dependency env c r d s = Inr (u, s') \<Longrightarrow> auth env c \<and> admin_key s = Some c"
  by (auto simp: set_route_dependency_def res_simps)

text \<open>Resolution changes nothing but the counter and the events.\<close>

definition only_counted :: "router \<Rightarrow> router \<Rightarrow> bool" where
  "only_counted s s' \<longleftrightarrow> (\<exists>n ev. s' = s\<lparr>total_routed_key := n, events := ev\<rparr>)"

lemma only_counted_refl [simp]: "only_counted s s"
proof -
  have "s = s\<lparr>total_routed_key := total_routed_key s, events := events s\<rparr>" by simp
  then show ?thesis unfolding only_counted_def by blast
qed

lemma only_counted_trans: "only_counted s s' \<Longrightarrow> only_counted s' s'' \<Longrightarrow> only_counted s s''"
  unfolding only_counted_def by force

lemma only_counted_publish: "only_counted s s' \<Longrightarrow> only_counted s (publish t d s')"
  unfolding only_counted_def publish_def by force

lemma only_counted_total: "only_counted s s' \<Longrightarrow> only_counted s (s'\<lparr>total_routed_key := n\<rparr>)"
proof -
  assume "only_counted s s'"
  then obtain m ev where "s' = s\<lparr>total_routed_key := m, events := ev\<rparr>" by (auto simp: only_counted_def)
  then have "s'\<lparr>total_routed_key := n\<rparr> = s\<lparr>total_routed_key := n, events := ev\<rparr>" by simp
  then show ?thesis unfolding only_counted_def by blast
qed

lemma resolve_at_only_counted: "only_counted s (snd (resolve_at env n s))"
  by (simp add: resolve_at_def Let_def only_counted_publish only_counted_total
      split: prod.split option.split)

lemma resolve_iff:
  "resolve env n s = Inr (a, s') \<longleftrightarrow> resolve_at env n s = (Inr a, s')"
  by (auto simp: resolve_def res_simps split: prod.splits)

lemma batch_resolve_only_counted:
  "batch_resolve_loop env ns s rs = Inr (rs', s') \<Longrightarrow> only_counted s s'"
proof (induction ns arbitrary: s rs)
  case (Cons n ns)
  obtain r s1 where r: "resolve_at env n s = (r, s1)" by force
  then have s1: "only_counted s s1" using resolve_at_only_counted [of s env n] by simp
  from Cons.prems r have "batch_resolve_loop env ns s1 (rs @ [batch_outcome r]) = Inr (rs', s')"
    by (cases r rule: batch_outcome.cases) auto
  with Cons.IH s1 only_counted_trans show ?case by blast
qed simp

lemma get_best_route_only_counted:
  "get_best_route env ns m f s = Inr (r, s') \<Longrightarrow> only_counted s s'"
  by (auto simp: get_best_route_def res_simps only_counted_publish split: option.splits if_splits)

text \<open>The items of the batches.\<close>

lemma register_input_inv:
  assumes "inv_for sel s \<and> admin_key s \<noteq> None" and "register_input c x s = Inr s'"
  shows "inv_for sel s' \<and> admin_key s' \<noteq> None"
proof -
  from assms(2) have reg: "register_route_internal c (ri_name x) (ri_address x) None None s = Inr s'"
    by (simp add: register_input_def)
  then have st: "store_route (fresh_entry c (ri_name x) (ri_address x) None) None
      (unwrap_or (route_count_key s) 0) s = Inr s'"
    by (simp add: register_route_internal_iff)
  have "inv_for sel s'"
    by (rule store_route_inv [OF _ _ _ _ _ _ _ st])
      (use assms(1) reg in \<open>simp_all add: register_route_internal_iff\<close>)
  moreover have "admin_key s' = admin_key s" using st by (rule store_route_Inr)
  ultimately show ?thesis using assms(1) by simp
qed

lemma register_internal_inv:
  assumes "inv_for sel s" and "admin_key s \<noteq> None" and "register_route_internal c n a md ex s = Inr s'"
  shows "inv_for sel s'"
  by (rule store_route_inv [OF assms(1,2), where e = "fresh_entry c n a ex" and md = md])
    (use assms(3) in \<open>simp_all add: register_route_internal_iff\<close>)

lemma remove_internal_tables:
  "tables_ok s \<Longrightarrow> remove_route_internal n s = Inr s' \<Longrightarrow> tables_ok s'"
  by (auto simp: remove_route_internal_iff intro!: tables_remove)

lemma batch_all_invar:
  assumes "\<And>x s s'. P s \<Longrightarrow> f x s = Inr s' \<Longrightarrow> P s'" and "P s"
    and "batch_all f i xs s r = Inr (r', s')"
  shows "P s'"
proof -
  from assms(3) have "fold_each f xs s = Inr s'" by (auto simp: batch_all_fold res_simps)
  then show ?thesis by (rule fold_each_invar [where P = P, rotated -1]) (use assms(1,2) in blast)+
qed

lemma tables_cong:
  assumes "tables_ok s" and "admin_key s' = None \<longleftrightarrow> admin_key s = None"
    and "route_key s' = route_key s" "route_names s' = route_names s"
    "route_count_key s' = route_count_key s" "alias_key s' = alias_key s" "alias_names s' = alias_names s"
    "score_key s' = score_key s" "metadata_key s' = metadata_key s"
    "dependencies_key s' = dependencies_key s" "dependents_key s' = dependents_key s"
    "scoring_weights_key s' = scoring_weights_key s"
  shows "tables_ok s'"
proof -
  have "dep_rel s' = dep_rel s" by (simp add: dep_rel_def assms)
  with assms show ?thesis
    unfolding tables_ok_def routes_ok_def aliases_ok_def data_ok_def deps_ok_def
    by (simp add: scoring_weights_internal_def)
qed

lemma core_inv_cong:
  assumes "inv_for sel s" and "admin_key s' = None \<longleftrightarrow> admin_key s = None"
    and "route_key s' = route_key s" "route_names s' = route_names s"
    "route_count_key s' = route_count_key s" "alias_key s' = alias_key s" "alias_names s' = alias_names s"
    "score_key s' = score_key s" "metadata_key s' = metadata_key s"
    "dependencies_key s' = dependencies_key s" "dependents_key s' = dependents_key s"
    "scoring_weights_key s' = scoring_weights_key s" "best_route_key s' = best_route_key s"
  shows "inv_for sel s'"
proof -
  have "tables_ok s'" by (rule tables_cong [of s]) (use assms in \<open>simp_all add: core_inv_tables\<close>)
  moreover have "cache_for sel s'"
    by (rule cache_ok_keep [where s = s]) (use assms in \<open>simp_all add: core_inv_def rank_Some_iff\<close>)
  ultimately show ?thesis by (simp add: core_inv_tables)
qed

lemma only_counted_core_inv:
  assumes "only_counted s s'" and "inv_for sel s"
  shows "inv_for sel s'"
  by (rule core_inv_cong [OF assms(2)]) (use assms(1) in \<open>auto simp: only_counted_def\<close>)

lemma core_inv_metadata:
  assumes "inv_for sel s" and "route_key s n \<noteq> None" and "\<forall>d. md = Some d \<longrightarrow> validate_metadata d = Inr ()"
  shows "inv_for sel (s\<lparr>metadata_key := (metadata_key s)(n := md)\<rparr>)"
proof -
  let ?s = "s\<lparr>metadata_key := (metadata_key s)(n := md)\<rparr>"
  have "data_ok ?s" using assms unfolding core_inv_def data_ok_def
    by (auto simp: scoring_weights_internal_def split: if_splits)
  moreover have "dep_rel ?s = dep_rel s" by (simp add: dep_rel_def)
  moreover have "cache_for sel ?s"
    by (rule cache_ok_keep [where s = s]) (use assms in \<open>simp_all add: core_inv_def rank_Some_iff\<close>)
  ultimately show ?thesis
    using assms(1) by (simp add: core_inv_def routes_ok_def aliases_ok_def deps_ok_def)
qed

lemma core_inv_empty: "inv_for sel router_empty"
  by (simp add: core_inv_def routes_ok_def aliases_ok_def data_ok_def deps_ok_def cache_ok_def dep_rel_def
      router_empty_def scoring_weights_internal_def default_weights_ok rank_def acyclic_def)

lemma removed_tags_valid:
  "validate_metadata md = Inr () \<Longrightarrow> validate_metadata (md\<lparr>tags := filter P (tags md)\<rparr>) = Inr ()"
  using order_trans [OF length_filter_le [of P "tags md"]]
  by (auto simp: validate_metadata_def res_simps not_less)

lemma register_loops:
  assumes "inv_for sel s \<and> admin_key s \<noteq> None"
  shows "batch_all (register_input c) i rs s r = Inr (r', s') \<Longrightarrow> inv_for sel s' \<and> admin_key s' \<noteq> None"
    and "batch_loop (register_input c) err ff i rs s r = Inr (r', s') \<Longrightarrow> inv_for sel s' \<and> admin_key s' \<noteq> None"
  by (erule batch_all_invar [where P = "\<lambda>s. inv_for sel s \<and> admin_key s \<noteq> None", rotated 2],
      erule (1) register_input_inv, rule assms)
    (erule batch_loop_invar [where P = "\<lambda>s. inv_for sel s \<and> admin_key s \<noteq> None", rotated 2],
      erule (1) register_input_inv, rule assms)

lemma remove_loops:
  assumes "tables_ok s"
  shows "batch_all remove_route_internal i ns s r = Inr (r', s') \<Longrightarrow> tables_ok s'"
    and "batch_loop remove_route_internal err ff i ns s r = Inr (r', s') \<Longrightarrow> tables_ok s'"
  by (erule batch_all_invar [where P = tables_ok, rotated 2], erule (1) remove_internal_tables, rule assms)
    (erule batch_loop_invar [where P = tables_ok, rotated 2], erule (1) remove_internal_tables, rule assms)

lemma register_routes_batch_inv:
  assumes "inv_for sel s" and "register_routes_batch env c rs ff s = Inr (r, s')"
  shows "inv_for sel s' \<and> auth env c \<and> admin_key s = Some c"
proof -
  from assms(2) have adm: "auth env c" "admin_key s = Some c"
    and cases: "s' = s \<or> batch_all (register_input c) 0 rs s batch_new = Inr (r, s')
      \<or> batch_loop (register_input c) router_error_to_batch False 0 rs s batch_new = Inr (r, s')"
    by (auto simp: register_routes_batch_def res_simps split: if_splits option.splits)
  have start: "inv_for sel s \<and> admin_key s \<noteq> None" using assms(1) adm by simp
  from cases have "inv_for sel s' \<and> admin_key s' \<noteq> None"
    using start register_loops [OF start]
    by blast
  with adm show ?thesis by simp
qed

lemma remove_routes_batch_inv:
  assumes sel: "selection env sel" and inv: "inv_for sel s" and "remove_routes_batch env c ns ff s = Inr (r, s')"
  shows "inv_for sel s' \<and> auth env c \<and> admin_key s = Some c"
proof -
  from assms(3) have adm: "auth env c" "admin_key s = Some c"
    and cases: "s' = s \<or> (\<exists>s1. (batch_all remove_route_internal 0 ns s batch_new = Inr (r, s1)
      \<or> batch_loop remove_route_internal router_error_to_batch False 0 ns s batch_new = Inr (r, s1))
      \<and> recompute_best_route s1 = Inr s')"
    by (auto simp: remove_routes_batch_def res_simps split: if_splits option.splits)
  have start: "tables_ok s" using inv by (simp add: core_inv_tables)
  from cases show ?thesis
  proof
    assume "\<exists>s1. (batch_all remove_route_internal 0 ns s batch_new = Inr (r, s1)
      \<or> batch_loop remove_route_internal router_error_to_batch False 0 ns s batch_new = Inr (r, s1))
      \<and> recompute_best_route s1 = Inr s'"
    then obtain s1 where "tables_ok s1" "recompute_best_route s1 = Inr s'"
      using remove_loops [OF start]
      by blast
    with recompute_Inr_for(1) [OF sel] adm show ?thesis by blast
  qed (use inv adm in simp)
qed

lemma initialize_inv:
  assumes "inv_for sel s" and "core_initialize env a m s = Inr (u, s')"
  shows "inv_for sel s'"
proof -
  from assms(2) have none: "admin_key s = None"
    and s': "s' = s\<lparr>admin_key := Some a, route_names := [], alias_names := [], paused_key := Some False,
          total_routed_key := Some 0, route_count_key := Some 0,
          max_routes_key := Some (unwrap_or m DEFAULT_MAX_ROUTES)\<rparr>"
    by (simp_all add: core_initialize_iff)
  have empty: "route_names s = []" "alias_names s = []" "unat (unwrap_or (route_count_key s) 0) = 0"
    using assms(1) none by (auto simp: core_inv_def routes_ok_def)
  have "dep_rel s' = dep_rel s" by (simp add: s' dep_rel_def)
  then have "tables_ok s'"
    using assms(1) empty unfolding core_inv_tables tables_ok_def routes_ok_def aliases_ok_def data_ok_def deps_ok_def
    by (simp add: s' scoring_weights_internal_def)
  moreover have "cache_for sel s'"
    by (rule cache_ok_keep [where s = s]) (use assms(1) in \<open>simp_all add: s' core_inv_def rank_Some_iff\<close>)
  ultimately show ?thesis by (simp add: core_inv_tables)
qed

lemma core_step_inv:
  assumes sel: "selection env sel" and inv: "inv_for sel s" and step: "core_step env c s = Inr s'"
  shows "inv_for sel s'"
proof -
  have tab: "tables_ok s" using inv by (simp add: core_inv_tables)
  have al: "aliases_ok s" using inv by (simp add: core_inv_def)
  show ?thesis
  proof (cases c)
    case (RInitialize a m)
    with step initialize_inv [OF inv] show ?thesis by (auto simp: res_simps)
  next
    case (RRegister a n t m)
    with step register_internal_inv [OF inv] show ?thesis by (auto simp: res_simps register_route_iff)
  next
    case (RRegisterTtl a n t k)
    with step register_internal_inv [OF inv] show ?thesis
      by (cases k) (auto simp: res_simps register_route_with_ttl_iff core_inv_tables)
  next
    case (RExtendTtl a n k)
    with step obtain e ex where e: "route_key s n = Some e" and ex: "\<not> is_route_expired env e"
      and s': "s' = publish ''route_ttl_extended'' (VTuple [VStr n, VU32 ex])
         (s\<lparr>route_key := (route_key s)(n \<mapsto> e\<lparr>rt_expires_at := Some ex, updated_by := a\<rparr>)\<rparr>)"
      by (auto simp: res_simps extend_route_ttl_iff)
    have "inv_for sel (s\<lparr>route_key := (route_key s)(n \<mapsto> e\<lparr>rt_expires_at := Some ex, updated_by := a\<rparr>)\<rparr>)"
      by (rule core_inv_update_entry [OF inv e]) (use entry_facts [OF inv e] selection_keep(1) [OF sel ex] in simp_all)
    then show ?thesis by (simp add: s' core_inv_tables)
  next
    case (RUpdate a n t)
    with step obtain e where e: "route_key s n = Some e" and t: "t \<noteq> ZERO_ADDRESS" and
      s': "s' = publish ''route_overwritten'' (VTuple [VStr n, VAddr (rt_address e), VAddr t])
         (publish ''route_updated'' (VStr n)
           (s\<lparr>route_key := (route_key s)(n \<mapsto> e\<lparr>rt_address := t, updated_by := a\<rparr>)\<rparr>))"
      by (auto simp: res_simps update_route_iff)
    have "inv_for sel (s\<lparr>route_key := (route_key s)(n \<mapsto> e\<lparr>rt_address := t, updated_by := a\<rparr>)\<rparr>)"
      by (rule core_inv_update_entry [OF inv e]) (use entry_facts [OF inv e] t selection_keep(2) [OF sel] in simp_all)
    then show ?thesis by (simp add: s' core_inv_tables)
  next
    case (RRemove a n)
    with step obtain s1 where
      "recompute_best_route (remove_aliases_for_route n (drop_route n s)) = Inr s1"
      "route_key s n \<noteq> None" "dependents_key s n = []" "s' = publish ''route_removed'' (VStr n) s1"
      by (auto simp: res_simps remove_route_iff)
    with recompute_Inr_for(1) [OF sel tables_remove [OF tab], of n s1] show ?thesis by (simp add: core_inv_tables)
  next
    case (RRegisterBatch a rs ff)
    with step register_routes_batch_inv [OF inv] show ?thesis by (auto simp: returns_Inr_iff)
  next
    case (RRemoveBatch a ns ff)
    with step remove_routes_batch_inv [OF sel inv] show ?thesis by (auto simp: returns_Inr_iff)
  next
    case (RResolve n)
    with step obtain a where "resolve_at env n s = (Inr a, s')" by (auto simp: res_simps resolve_iff)
    with resolve_at_only_counted [of s env n] only_counted_core_inv inv show ?thesis by simp
  next
    case (RBatchResolve ns)
    with step have "only_counted s s'"
      by (auto simp: returns_Inr_iff batch_resolve_def dest: batch_resolve_only_counted)
    with only_counted_core_inv inv show ?thesis by blast
  next
    case (RSetRoutePaused a n p)
    with step obtain e where e: "route_key s n = Some e"
      and rec: "recompute_best_route (publish ''route_paused'' (VTuple [VStr n, VBool p])
         (s\<lparr>route_key := (route_key s)(n \<mapsto> e\<lparr>rt_paused := p, updated_by := a\<rparr>)\<rparr>)) = Inr s'"
      by (auto simp: res_simps set_route_paused_iff)
    have "tables_ok (s\<lparr>route_key := (route_key s)(n \<mapsto> e\<lparr>rt_paused := p, updated_by := a\<rparr>)\<rparr>)"
      by (rule tables_update_entry [OF tab e]) (use entry_facts [OF inv e] in simp_all)
    with recompute_Inr_for(1) [OF sel _ rec] show ?thesis by simp
  next
    case (RSetPaused a p)
    with step core_inv_cong [OF inv] show ?thesis by (auto simp: res_simps set_paused_iff)
  next
    case (RSetDependency a r d)
    with step set_dependency_inv [OF inv] show ?thesis by (auto simp: res_simps)
  next
    case (RUpdateMetadata a n md)
    then have "\<forall>d. md = Some d \<longrightarrow> validate_metadata d = Inr ()" "route_key s n \<noteq> None"
      "s' = publish ''metadata_updated'' (VTuple [VStr n, VBool (md \<noteq> None)])
         (s\<lparr>metadata_key := (metadata_key s)(n := md)\<rparr>)"
      using step by (auto simp: res_simps update_metadata_iff validate_some_metadata_def)
    with core_inv_metadata [OF inv] show ?thesis by (simp add: core_inv_tables)
  next
    case (RAddTag a n t)
    with step obtain u where "add_route_tag env a n t s = Inr (u, s')" by (auto simp: returns_Inr_iff)
    then show ?thesis
    proof (rule add_route_tag_Inr)
      assume "route_key s n \<noteq> None" and "s' = s \<or> (\<exists>md. validate_metadata md = Inr ()
        \<and> s' = publish ''route_tag_added'' (VTuple [VStr n, VStr t]) (s\<lparr>metadata_key := (metadata_key s)(n \<mapsto> md)\<rparr>))"
      with core_inv_metadata [OF inv, of n] inv show ?thesis by (auto simp: core_inv_tables)
    qed
  next
    case (RRemoveTag a n t)
    with step obtain u where "remove_route_tag env a n t s = Inr (u, s')" by (auto simp: returns_Inr_iff)
    then show ?thesis
    proof (rule remove_route_tag_Inr)
      assume r: "route_key s n \<noteq> None" and "s' = s \<or> (\<exists>md. metadata_key s n = Some md
        \<and> s' = publish ''route_tag_removed'' (VTuple [VStr n, VStr t])
          (s\<lparr>metadata_key := (metadata_key s)(n \<mapsto> md\<lparr>tags := filter (\<lambda>x. x \<noteq> t) (tags md)\<rparr>)\<rparr>))"
      then consider "s' = s" | md where "metadata_key s n = Some md"
        "s' = publish ''route_tag_removed'' (VTuple [VStr n, VStr t])
          (s\<lparr>metadata_key := (metadata_key s)(n \<mapsto> md\<lparr>tags := filter (\<lambda>x. x \<noteq> t) (tags md)\<rparr>)\<rparr>)"
        by blast
      then show ?thesis
      proof cases
        case (2 md)
        have "validate_metadata md = Inr ()" using inv 2(1) by (auto simp: core_inv_def data_ok_def)
        with core_inv_metadata [OF inv r] removed_tags_valid 2(2) show ?thesis by (simp add: core_inv_tables)
      qed (use inv in simp)
    qed
  next
    case (RSetMaxRoutes a m)
    with step core_inv_cong [OF inv] show ?thesis by (auto simp: res_simps set_max_routes_iff)
  next
    case (RAddAlias a t n)
    with step add_alias_iff [OF al] obtain
      "route_key s t \<noteq> None" "valid_name n" "route_key s n = None" "alias_key s n = None"
      and rec: "scoring_recompute_best_route env (publish ''alias_added'' (VTuple [VStr t, VStr n])
         (s\<lparr>alias_key := (alias_key s)(n \<mapsto> t), alias_names := alias_names s @ [n]\<rparr>)) = Inr s'"
      by (auto simp: res_simps)
    with tables_add_alias [OF tab] recompute_Inr_for(2) [OF sel _ rec] show ?thesis by simp
  next
    case (RRemoveAlias a n)
    with step have rec: "scoring_recompute_best_route env (publish ''alias_removed'' (VStr n)
         (s\<lparr>alias_key := (alias_key s)(n := None), alias_names := filter (\<lambda>x. x \<noteq> n) (alias_names s)\<rparr>)) = Inr s'"
      by (auto simp: res_simps remove_alias_iff)
    with tables_remove_alias [OF tab] recompute_Inr_for(2) [OF sel _ rec] show ?thesis by simp
  next
    case (RTransferAdmin a n)
    with step core_inv_cong [OF inv] show ?thesis by (auto simp: res_simps core_transfer_admin_iff)
  next
    case (RSetWeights a w)
    with step obtain s1 where "weights_ok w" and
      rec: "recompute_best_route (weights_event w (s\<lparr>scoring_weights_key := Some w\<rparr>)) = Inr s1"
      and s': "s' = weights_event w s1"
      by (auto simp: res_simps set_scoring_weights_iff)
    then have "tables_ok (weights_event w (s\<lparr>scoring_weights_key := Some w\<rparr>))"
      using tab unfolding tables_ok_def weights_event_def
      by (auto simp: routes_ok_def aliases_ok_def data_ok_def deps_ok_def dep_rel_def scoring_weights_internal_def)
    with recompute_Inr_for(1) [OF sel _ rec] s' show ?thesis by (simp add: weights_event_def core_inv_tables)
  next
    case (RSetScore a n sc)
    with step have rec: "recompute_best_route (score_event n sc (s\<lparr>score_key := (score_key s)(n \<mapsto> sc)\<rparr>)) = Inr s'"
      "route_key s n \<noteq> None" "score_ok sc" by (auto simp: res_simps set_route_score_iff)
    with tables_set_score [OF tab] recompute_Inr_for(1) [OF sel] show ?thesis by blast
  next
    case (RSetScores a xs)
    with step have rec: "recompute_best_route (store_scores xs s) = Inr s'"
      "\<forall>x\<in>set xs. route_key s (si_name x) \<noteq> None \<and> score_ok (si_score x)"
      by (auto simp: res_simps set_route_scores_batch_iff)
    with tables_store_scores [OF tab] recompute_Inr_for(1) [OF sel] show ?thesis by blast
  next
    case (RGetBest ns m f)
    with step have "only_counted s s'"
      by (auto simp: returns_Inr_iff dest: get_best_route_only_counted)
    with only_counted_core_inv inv show ?thesis by blast
  qed
qed

interpretation core_machine: contract_machine core_step router_empty core_inv
  by unfold_locales (rule core_inv_empty, rule core_step_inv [OF permanent_selection])

text \<open>
  As long as the ledger sequence does not go back, the cache holds for the routes live at any later
  moment: a recomputation considers all routes live at its own.
\<close>

lemma live_later:
  assumes "inv_for (live_route env) s" and "sequence env \<le> sequence env'"
  shows "inv_for (live_route env') s"
proof -
  have live: "live_route env' e \<Longrightarrow> live_route env e" for e
    using assms(2) by (auto simp: live_route_def is_route_expired_def split: option.splits)
  have later: "rank (live_route env') f s n = Some v \<Longrightarrow> rank (live_route env) f s n = Some v" for f n v
    using live by (auto simp: rank_Some_iff)
  have "cache_for (live_route env) s" using assms(1) by (simp add: core_inv_def)
  then have "cache_for (live_route env') s"
  proof (cases "best_route_key s")
    case None
    with \<open>cache_for (live_route env) s\<close>
    have "\<forall>n. rank (live_route env) (exact_score (scoring_weights_internal s)) s n = None"
      by (simp add: cache_for_def)
    then have "\<forall>n. rank (live_route env') (exact_score (scoring_weights_internal s)) s n = None"
      using later by (metis option.exhaust option.distinct(1))
    with None show ?thesis by (simp add: cache_for_def)
  next
    case (Some b)
    with \<open>cache_for (live_route env) s\<close> later show ?thesis unfolding cache_for_def by fastforce
  qed
  with assms(1) show ?thesis by (simp add: core_inv_def)
qed

lemma run_live:
  assumes "sorted (map (\<lambda>(env, _). sequence env) txs @ [sequence env])"
  shows "inv_for (live_route env) (run_txs core_step router_empty txs)"
  using assms
proof (induction txs arbitrary: env rule: rev_induct)
  case Nil
  then show ?case by (simp add: core_inv_empty)
next
  case (snoc tx txs)
  obtain e c where tx: "tx = (e, c)" by force
  from snoc.prems have le: "sequence e \<le> sequence env"
    and "sorted (map (\<lambda>(env, _). sequence env) txs @ [sequence e])" by (auto simp: tx sorted_append)
  from snoc.IH [OF this(2)] have inv: "inv_for (live_route e) (run_txs core_step router_empty txs)" .
  have "inv_for (live_route e) (run_txs core_step router_empty (txs @ [tx]))"
    using inv core_step_inv [OF live_selection inv]
    by (cases "core_step e c (run_txs core_step router_empty txs)") (simp_all add: tx run_txs_append)
  then show ?case using le by (rule live_later)
qed

end
