(* ===== verification/Core_Routes.thy ===== *)
theory Core_Routes
  imports Core_Props
begin

text \<open>
  The properties of router-core: what a resolution returns, the order in which dependencies are
  resolved, batches that apply as a whole, pages and statistics of the table, and the authority of
  the admin. They rest on the invariant of Core_Props.
\<close>

text \<open>
  C2. In every state the contract can reach, the routing table agrees with its indices and the route
  count; names are well-formed, aliases are distinct from routes and point to routes; scores and
  metadata belong to registered routes and are within their bounds; the dependency graph has no
  cycle, its reverse index is exact and no route depends on a missing one; and the cached best
  route is registered, scored and not paused, with a score no permanent route exceeds. When the
  ledger sequence has not gone back between the transactions, no route that is live now exceeds it
  either, whatever its expiry. (The cached route itself may have expired since, or before.)
\<close>

theorem core_invariant:
  "core_inv (run_txs core_step router_empty txs)
   \<and> (sorted (map (\<lambda>(env, _). sequence env) txs @ [sequence now]) \<longrightarrow>
        cache_for (live_route now) (run_txs core_step router_empty txs))"
proof (intro conjI impI)
  show "core_inv (run_txs core_step router_empty txs)" by (rule core_machine.invar_run)
next
  assume "sorted (map (\<lambda>(env, _). sequence env) txs @ [sequence now])"
  from run_live [OF this] show "cache_for (live_route now) (run_txs core_step router_empty txs)"
    by (simp add: core_inv_def)
qed

subsection \<open>Resolving with dependencies\<close>

text \<open>
  The accumulated routes: distinct, live, with the stored address, and each after its dependencies.
\<close>

definition live :: "env \<Rightarrow> router \<Rightarrow> string \<Rightarrow> bool" where
  "live env s n \<longleftrightarrow> (\<exists>e. route_key s n = Some e \<and> \<not> rt_paused e \<and> \<not> is_route_expired env e)"

definition ordered :: "env \<Rightarrow> router \<Rightarrow> (string \<times> address) list \<Rightarrow> bool" where
  "ordered env s res \<longleftrightarrow> distinct (map fst res)
     \<and> (\<forall>i<length res. live env s (fst (res ! i))
          \<and> snd (res ! i) = rt_address (the (route_key s (fst (res ! i))))
          \<and> set (dependencies_key s (fst (res ! i))) \<subseteq> set (map fst (take i res)))"

lemma ordered_snoc:
  assumes "ordered env s res" and "n \<notin> set (map fst res)" and "route_key s n = Some e"
    and "\<not> rt_paused e" and "\<not> is_route_expired env e"
    and "set (dependencies_key s n) \<subseteq> set (map fst res)"
  shows "ordered env s (res @ [(n, rt_address e)])"
  using assms unfolding ordered_def live_def by (auto simp: nth_append less_Suc_eq)

lemma fold_each_induct:
  assumes "\<And>x a. x \<in> set xs \<Longrightarrow> P a \<Longrightarrow> (case f x a of Inl e \<Rightarrow> E e | Inr a' \<Rightarrow> P a' \<and> R x a a')"
    and "\<And>x a a' a''. R x a a' \<Longrightarrow> T a' a'' \<Longrightarrow> T a a''" and "\<And>a. T a a"
    and "\<And>x a a' a''. R x a a' \<Longrightarrow> T a' a'' \<Longrightarrow> Q x a''"
    and "P a"
  shows "case fold_each f xs a of Inl e \<Rightarrow> E e | Inr a' \<Rightarrow> P a' \<and> T a a' \<and> (\<forall>x\<in>set xs. Q x a')"
  using assms(1,5)
proof (induction xs arbitrary: a)
  case (Cons x xs)
  show ?case
  proof (cases "f x a")
    case (Inl e)
    with Cons.prems(1) [of x a] Cons.prems(2) show ?thesis by simp
  next
    case (Inr a1)
    with Cons.prems(1) [of x a] Cons.prems(2) have a1: "P a1" "R x a a1" by simp_all
    have "case fold_each f xs a1 of Inl e \<Rightarrow> E e | Inr a' \<Rightarrow> P a' \<and> T a1 a' \<and> (\<forall>x\<in>set xs. Q x a')"
      using Cons.IH [of a1] Cons.prems(1) a1(1) by (metis list.set_intros(2))
    with Inr a1(2) assms(2,4) show ?thesis by (auto split: sum.splits)
  qed
qed (simp add: assms(3))

text \<open>How a resolution can fail: the cause is a route below the requested one.\<close>

definition blocked_below :: "env \<Rightarrow> router \<Rightarrow> nat \<Rightarrow> string \<Rightarrow> router_error fault \<Rightarrow> bool" where
  "blocked_below env s depth n e \<longleftrightarrow>
     e = Err RecursionLimitExceeded \<and> (\<exists>k m. (n, m) \<in> dep_rel s ^^ k \<and> depth + k > MAX_RECURSION_DEPTH)
     \<or> e = Err RoutePaused \<and> (\<exists>m en. (n, m) \<in> (dep_rel s)\<^sup>* \<and> route_key s m = Some en \<and> rt_paused en)
     \<or> e = Err RouteExpired \<and> (\<exists>m en. (n, m) \<in> (dep_rel s)\<^sup>* \<and> route_key s m = Some en
         \<and> is_route_expired env en)"

lemma blocked_below_step:
  assumes "(n, x) \<in> dep_rel s" and "blocked_below env s (d + 1) x e"
  shows "blocked_below env s d n e"
proof -
  have up: "(n, m) \<in> (dep_rel s)\<^sup>*" if "(x, m) \<in> (dep_rel s)\<^sup>*" for m
    using assms(1) that by (rule converse_rtrancl_into_rtrancl)
  have "\<exists>k m. (n, m) \<in> dep_rel s ^^ k \<and> d + k > MAX_RECURSION_DEPTH"
    if "(x, m) \<in> dep_rel s ^^ k" "d + 1 + k > MAX_RECURSION_DEPTH" for k m
    using relpow_Suc_I2 [OF assms(1) that(1)] that(2) by (intro exI [of _ "Suc k"]) auto
  with assms(2) up show ?thesis unfolding blocked_below_def by blast
qed

definition extends :: "router \<Rightarrow> string \<Rightarrow> string list \<Rightarrow> string list \<Rightarrow> bool" where
  "extends s n names names' \<longleftrightarrow> set names \<subseteq> set names'
     \<and> (\<forall>m\<in>set names' - set names. (n, m) \<in> (dep_rel s)\<^sup>*)"

lemma resolve_recursive_spec:
  assumes "deps_ok s"
  shows "route_key s n \<noteq> None \<Longrightarrow> \<forall>x\<in>set st. (x, n) \<in> (dep_rel s)\<^sup>+ \<Longrightarrow> ordered env s res \<Longrightarrow>
    names = map fst res \<Longrightarrow>
    (case resolve_dependencies_recursive env s st d n (names, res) of
       Inl e \<Rightarrow> blocked_below env s d n e
     | Inr (names', res') \<Rightarrow> names' = map fst res' \<and> ordered env s res' \<and> extends s n names names'
         \<and> n \<in> set names' \<and> (n \<notin> set names \<longrightarrow> last names' = n))"
  using assms
proof (induction env s st d n "(names, res)" arbitrary: names res rule: resolve_dependencies_recursive.induct)
  case (1 env s st d n names res)
  let ?r = "dep_rel s"
  have acyc: "acyclic ?r" using "1.prems"(5) by (simp add: deps_ok_def)
  have nst: "n \<notin> set st" using "1.prems"(2) acyc unfolding acyclic_def by blast
  show ?case
  proof (cases "d > MAX_RECURSION_DEPTH")
    case True
    then have "blocked_below env s d n (Err RecursionLimitExceeded)"
      unfolding blocked_below_def by (intro disjI1 conjI exI [of _ 0]) auto
    with True show ?thesis by (simp add: resolve_dependencies_recursive.simps [of env s st d n])
  next
    case d: False
    show ?thesis
    proof (cases "n \<in> set names")
      case True
      with "1.prems" d nst show ?thesis
        by (simp add: resolve_dependencies_recursive.simps [of env s st d n] extends_def)
    next
      case new: False
      let ?f = "resolve_dependencies_recursive env s (st @ [n]) (d + 1)"
      let ?P = "\<lambda>a. fst a = map fst (snd a) \<and> ordered env s (snd a)"
      let ?R = "\<lambda>x a a'. (n, x) \<in> ?r \<and> extends s x (fst a) (fst a') \<and> x \<in> set (fst a')"
      let ?T = "\<lambda>a a'. set (fst a) \<subseteq> set (fst a') \<and> (\<forall>m\<in>set (fst a') - set (fst a). (n, m) \<in> ?r\<^sup>+)"
      let ?Q = "\<lambda>x a'. x \<in> set (fst a')"
      have step: "case ?f x a of Inl e \<Rightarrow> blocked_below env s d n e | Inr a' \<Rightarrow> ?P a' \<and> ?R x a a'"
        if x: "x \<in> set (dependencies_key s n)" and a: "?P a" for x a
      proof -
        obtain ns rs where ns: "a = (ns, rs)" by force
        have edge: "(n, x) \<in> ?r" using x by (simp add: dep_rel_def)
        have "route_key s x \<noteq> None" using "1.prems"(5) x unfolding deps_ok_def by blast
        moreover have "\<forall>y\<in>set (st @ [n]). (y, x) \<in> ?r\<^sup>+"
          using "1.prems"(2) edge by (auto intro: trancl_into_trancl)
        ultimately have "case ?f x (ns, rs) of Inl e \<Rightarrow> blocked_below env s (d + 1) x e
          | Inr (names', res') \<Rightarrow> names' = map fst res' \<and> ordered env s res' \<and> extends s x ns names'
              \<and> x \<in> set names' \<and> (x \<notin> set ns \<longrightarrow> last names' = x)"
          using "1.hyps" [OF d nst new x] a ns "1.prems"(5) by simp
        with ns edge blocked_below_step [OF edge] show ?thesis by (auto split: sum.splits)
      qed
      have all: "case fold_each ?f (dependencies_key s n) (names, res) of Inl e \<Rightarrow> blocked_below env s d n e
        | Inr a' \<Rightarrow> ?P a' \<and> ?T (names, res) a' \<and> (\<forall>x\<in>set (dependencies_key s n). ?Q x a')"
      proof (rule fold_each_induct [where R = ?R, OF step])
        fix x and a a' a'' :: "string list \<times> (string \<times> address) list"
        assume R: "?R x a a'" and T: "?T a' a''"
        have "(n, m) \<in> ?r\<^sup>+" if "(x, m) \<in> ?r\<^sup>*" for m
          using R that by (meson rtrancl_into_trancl2)
        with R T show "?T a a''" unfolding extends_def by blast
        show "?Q x a''" using R T by blast
      qed (use "1.prems" in auto)
      show ?thesis
      proof (cases "fold_each ?f (dependencies_key s n) (names, res)")
        case (Inl e)
        with all d nst new show ?thesis
          by (simp add: resolve_dependencies_recursive.simps [of env s st d n])
      next
        case (Inr acc)
        obtain names1 res1 where acc: "acc = (names1, res1)" by force
        from all Inr acc have a: "names1 = map fst res1" "ordered env s res1" "set names \<subseteq> set names1"
          "\<forall>m\<in>set names1 - set names. (n, m) \<in> ?r\<^sup>+" "set (dependencies_key s n) \<subseteq> set names1" by auto
        have fresh: "n \<notin> set names1" using a(4) new acyc unfolding acyclic_def by blast
        obtain e where e: "route_key s n = Some e" using "1.prems"(1) by auto
        have run: "resolve_dependencies_recursive env s st d n (names, res) =
            (if rt_paused e then Inl (Err RoutePaused) else if is_route_expired env e then Inl (Err RouteExpired)
             else Inr (names1 @ [n], res1 @ [(n, rt_address e)]))"
          using Inr acc d nst new e by (simp add: resolve_dependencies_recursive.simps [of env s st d n])
        have "extends s n names (names1 @ [n])"
          using a(3,4) unfolding extends_def by (auto intro: trancl_into_rtrancl)
        moreover have "ordered env s (res1 @ [(n, rt_address e)])" if "\<not> rt_paused e" "\<not> is_route_expired env e"
          using ordered_snoc [OF a(2) _ e that] fresh a(1,5) by simp
        moreover have "blocked_below env s d n (Err RoutePaused)" if "rt_paused e"
          using that e unfolding blocked_below_def by blast
        moreover have "blocked_below env s d n (Err RouteExpired)" if "is_route_expired env e"
          using that e unfolding blocked_below_def by blast
        ultimately show ?thesis using run a(1) by simp
      qed
    qed
  qed
qed

lemma closed_reach:
  assumes "\<forall>m\<in>A. \<forall>d. (m, d) \<in> r \<longrightarrow> d \<in> A" and "n \<in> A"
  shows "r\<^sup>* `` {n} \<subseteq> A"
proof
  fix m
  assume "m \<in> r\<^sup>* `` {n}"
  then have "(n, m) \<in> r\<^sup>*" by simp
  then show "m \<in> A" by (induction rule: rtrancl_induct) (use assms in blast)+
qed

lemma resolve_with_dependencies_cases:
  assumes "core_inv s" and "\<not> unwrap_or (paused_key s) False" and "route_key s n \<noteq> None"
  shows "case resolve_with_dependencies env n s of
      Inl e \<Rightarrow> blocked_below env s 0 n e
    | Inr res \<Rightarrow> ordered env s res \<and> set (map fst res) = (dep_rel s)\<^sup>* `` {n} \<and> last (map fst res) = n"
proof -
  have deps: "deps_ok s" using assms(1) by (simp add: core_inv_def)
  have "ordered env s []" by (simp add: ordered_def)
  from resolve_recursive_spec [OF deps assms(3) _ this, of "[]" "[]" 0]
  have spec: "case resolve_dependencies_recursive env s [] 0 n ([], []) of
       Inl e \<Rightarrow> blocked_below env s 0 n e
     | Inr (names', res') \<Rightarrow> names' = map fst res' \<and> ordered env s res' \<and> extends s n [] names'
         \<and> n \<in> set names' \<and> last names' = n" by (auto split: sum.splits)
  show ?thesis
  proof (cases "resolve_dependencies_recursive env s [] 0 n ([], [])")
    case (Inl e)
    with spec assms(2,3) show ?thesis by (auto simp: resolve_with_dependencies_def)
  next
    case (Inr acc)
    obtain names res where acc: "acc = (names, res)" by force
    have "names = map fst res \<and> ordered env s res \<and> extends s n [] names
      \<and> n \<in> set names \<and> last names = n" using spec
      unfolding Inr acc sum.case prod.case .
    then have res: "names = map fst res" "ordered env s res" "extends s n [] names"
      "n \<in> set names" "last names = n" by blast+
    have "d \<in> set (map fst res)" if "m \<in> set (map fst res)" "(m, d) \<in> dep_rel s" for m d
    proof -
      from that(1) obtain i where "i < length res" "m = fst (res ! i)" by (auto simp: in_set_conv_nth)
      with res(2) that(2) have "d \<in> set (map fst (take i res))" by (auto simp: ordered_def dep_rel_def)
      then show ?thesis by (auto dest: in_set_takeD)
    qed
    then have "(dep_rel s)\<^sup>* `` {n} \<subseteq> set (map fst res)"
      using res(1,4) by (intro closed_reach) auto
    moreover have "set (map fst res) \<subseteq> (dep_rel s)\<^sup>* `` {n}" using res(1,3) by (auto simp: extends_def)
    ultimately show ?thesis
      using Inr acc res assms(2,3) by (auto simp: resolve_with_dependencies_def)
  qed
qed

text \<open>
  C7. A successful \<open>resolve_with_dependencies\<close> returns every route reachable from the requested
  one through dependencies, and no other, each once and with its stored address; every route comes
  after all its direct dependencies, the requested one last, and none is paused or expired.
\<close>

theorem dependencies_resolved:
  assumes "core_inv s" and "resolve_with_dependencies env n s = Inr res"
  shows "distinct (map fst res) \<and> set (map fst res) = {m. (n, m) \<in> (dep_rel s)\<^sup>*} \<and> last (map fst res) = n
    \<and> (\<forall>i<length res. \<exists>e. route_key s (fst (res ! i)) = Some e \<and> snd (res ! i) = rt_address e
         \<and> \<not> rt_paused e \<and> \<not> is_route_expired env e
         \<and> set (dependencies_key s (fst (res ! i))) \<subseteq> fst ` set (take i res))"
proof -
  have "\<not> unwrap_or (paused_key s) False" "route_key s n \<noteq> None"
    using assms(2) by (auto simp: resolve_with_dependencies_def res_simps)
  from resolve_with_dependencies_cases [OF assms(1) this, of env] assms(2)
  have "ordered env s res" "set (map fst res) = (dep_rel s)\<^sup>* `` {n}" "last (map fst res) = n" by simp_all
  then show ?thesis by (auto simp: ordered_def live_def)
qed

text \<open>
  When the router is not paused and the route exists, \<open>resolve_with_dependencies\<close> fails only
  because some route below the requested one is paused or expired, or lies more than 10 links
  below; it never reports a cycle or a missing route, and it succeeds when all routes below are
  live and within 10 links.
\<close>

theorem dependencies_failures:
  assumes "core_inv s" and "\<not> unwrap_or (paused_key s) False" and "route_key s n \<noteq> None"
  shows "(case resolve_with_dependencies env n s of
      Inr res \<Rightarrow> True
    | Inl e \<Rightarrow> e \<in> {Err RecursionLimitExceeded, Err RoutePaused, Err RouteExpired}
        \<and> (e = Err RecursionLimitExceeded \<longrightarrow> (\<exists>k m. (n, m) \<in> dep_rel s ^^ k \<and> k > 10))
        \<and> (e = Err RoutePaused \<longrightarrow> (\<exists>m en. (n, m) \<in> (dep_rel s)\<^sup>* \<and> route_key s m = Some en \<and> rt_paused en))
        \<and> (e = Err RouteExpired \<longrightarrow>
             (\<exists>m en. (n, m) \<in> (dep_rel s)\<^sup>* \<and> route_key s m = Some en \<and> is_route_expired env en)))"
proof (cases "resolve_with_dependencies env n s")
  case (Inl e)
  with resolve_with_dependencies_cases [OF assms, of env] have "blocked_below env s 0 n e" by simp
  then have "e \<in> {Err RecursionLimitExceeded, Err RoutePaused, Err RouteExpired}"
    "e = Err RecursionLimitExceeded \<longrightarrow> (\<exists>k m. (n, m) \<in> dep_rel s ^^ k \<and> k > 10)"
    "e = Err RoutePaused \<longrightarrow> (\<exists>m en. (n, m) \<in> (dep_rel s)\<^sup>* \<and> route_key s m = Some en \<and> rt_paused en)"
    "e = Err RouteExpired \<longrightarrow>
       (\<exists>m en. (n, m) \<in> (dep_rel s)\<^sup>* \<and> route_key s m = Some en \<and> is_route_expired env en)"
    unfolding blocked_below_def MAX_RECURSION_DEPTH_def by (elim disjE; simp)+
  with Inl show ?thesis by simp
qed simp

subsection \<open>Resolving one route\<close>

definition selected_score :: "router \<Rightarrow> string \<Rightarrow> int option" where
  "selected_score s n = rank (\<lambda>e. \<not> rt_paused e) (exact_score (scoring_weights_internal s)) s n"

text \<open>The route a successful resolution has taken.\<close>

lemma resolve_Inr:
  assumes "resolve env name s = Inr (a, s')"
  obtains n e where "n = unwrap_or (cached_best env s) (unwrap_or (alias_key s name) name)"
    and "route_key s n = Some e" and "a = rt_address e" and "\<not> rt_paused e" and "\<not> is_route_expired env e"
    and "only_counted s s'" and "checked_add (total_routed s) 1 = total_routed_key s'"
    and "admin_key s \<noteq> None" and "\<not> unwrap_or (paused_key s) False"
proof -
  from assms have at: "resolve_at env name s = (Inr a, s')" by (simp add: resolve_iff)
  let ?n = "unwrap_or (cached_best env s) (unwrap_or (alias_key s name) name)"
  have n: "unwrap_or (cached_best env s) (case alias_key s name of Some original \<Rightarrow> original | None \<Rightarrow> name) = ?n"
    by (cases "alias_key s name") simp_all
  have "only_counted s s'" using resolve_at_only_counted [of s env name] at by simp
  moreover from at have "admin_key s \<noteq> None" "\<not> unwrap_or (paused_key s) False"
    by (auto simp: resolve_at_def split: if_splits)
  moreover from at obtain e where "route_key s ?n = Some e" "a = rt_address e" "\<not> rt_paused e"
      "\<not> is_route_expired env e" "checked_add (total_routed s) 1 = total_routed_key s'"
    by (cases "alias_key s name")
      (auto simp: resolve_at_def Let_def total_routed_def split: if_splits option.splits)
  ultimately show thesis using that by blast
qed

text \<open>
  C5. A successful \<open>resolve\<close> returns the address of a live route, counts it once and changes
  nothing else. The route is the cached best one unless that has expired, and then no permanent
  scored route has a higher score; otherwise it is the requested route or the one its alias
  stands for.
\<close>

theorem resolve_selects:
  assumes "core_inv s" and "resolve env name s = Inr (a, s')"
  shows "\<exists>n e. route_key s n = Some e \<and> a = rt_address e \<and> \<not> rt_paused e \<and> \<not> is_route_expired env e
    \<and> (case cached_best env s of
         Some b \<Rightarrow> n = b \<and> (\<exists>v. selected_score s b = Some v \<and> (\<forall>m w. rank permanent
             (exact_score (scoring_weights_internal s)) s m = Some w \<longrightarrow> w \<le> v))
       | None \<Rightarrow> n = unwrap_or (alias_key s name) name)
    \<and> (\<exists>ev. s' = s\<lparr>total_routed_key := total_routed_key s', events := ev\<rparr>)
    \<and> unat (total_routed s') = unat (total_routed s) + 1"
proof -
  obtain n e where n: "n = unwrap_or (cached_best env s) (unwrap_or (alias_key s name) name)"
    and e: "route_key s n = Some e" "a = rt_address e" "\<not> rt_paused e" "\<not> is_route_expired env e"
    and frame: "only_counted s s'" and total: "checked_add (total_routed s) 1 = total_routed_key s'"
    using assms(2) by (rule resolve_Inr) blast
  have "case cached_best env s of
         Some b \<Rightarrow> n = b \<and> (\<exists>v. selected_score s b = Some v \<and> (\<forall>m w. rank permanent
             (exact_score (scoring_weights_internal s)) s m = Some w \<longrightarrow> w \<le> v))
       | None \<Rightarrow> n = unwrap_or (alias_key s name) name"
  proof (cases "cached_best env s")
    case (Some b)
    then have "best_route_key s = Some b"
      by (auto simp: cached_best_def split: option.splits if_splits)
    with assms(1) Some n show ?thesis by (simp add: core_inv_def cache_ok_def selected_score_def)
  qed (use n in simp)
  moreover have "\<exists>ev. s' = s\<lparr>total_routed_key := total_routed_key s', events := ev\<rparr>"
    using frame by (auto simp: only_counted_def)
  moreover have "unat (total_routed s') = unat (total_routed s) + 1"
  proof -
    obtain m where "total_routed_key s' = Some m"
      using total assms(2) by (auto simp: resolve_iff resolve_at_def Let_def split: if_splits option.splits prod.splits)
    with total have "checked_add (total_routed s) 1 = Some m" by simp
    with \<open>total_routed_key s' = Some m\<close> show ?thesis
      by (simp add: checked_add_Some_iff total_routed_def)
  qed
  ultimately show ?thesis using e by blast
qed

text \<open>
  C30. While the cached best route has not expired, every name resolves, to the address of that
  route: also a name that was never registered, and a route that is paused or expired itself.
\<close>

theorem resolve_any_name:
  assumes "core_inv s" and "admin_key s \<noteq> None" and "\<not> unwrap_or (paused_key s) False"
    and "cached_best env s = Some b" and "unat (total_routed s) + 1 < 2 ^ 64"
  shows "\<exists>e. route_key s b = Some e \<and> (\<forall>name. \<exists>s'. resolve env name s = Inr (rt_address e, s'))"
proof -
  from assms(4) obtain e where b: "best_route_key s = Some b" "route_key s b = Some e" "\<not> is_route_expired env e"
    by (auto simp: cached_best_def split: option.splits if_splits)
  with assms(1) have live: "\<not> rt_paused e" by (auto simp: core_inv_def cache_ok_def rank_Some_iff)
  have "checked_add (total_routed s) 1 = Some (total_routed s + 1)"
    using assms(5) by (simp add: checked_add_def)
  then have "\<exists>s'. resolve env name s = Inr (rt_address e, s')" for name
    using assms(2-4) b(2,3) live
    by (cases "alias_key s name") (auto simp: resolve_def resolve_at_def Let_def total_routed_def)
  with b(2) show ?thesis by blast
qed

subsection \<open>Batch resolution\<close>

text \<open>Resolution does not read what it writes, up to the overflow of the counter.\<close>

lemma resolve_at_answer:
  assumes "only_counted s s1" and "unat (total_routed s1) + 1 < 2 ^ 64" and "unat (total_routed s) + 1 < 2 ^ 64"
  shows "fst (resolve_at env n s1) = fst (resolve_at env n s)"
proof -
  obtain t ev where s1: "s1 = s\<lparr>total_routed_key := t, events := ev\<rparr>"
    using assms(1) by (auto simp: only_counted_def)
  have "checked_add (unwrap_or t 0) 1 = Some (unwrap_or t 0 + 1)"
    "checked_add (unwrap_or (total_routed_key s) 0) 1 = Some (unwrap_or (total_routed_key s) 0 + 1)"
    using assms(2,3) s1 by (simp_all add: checked_add_def total_routed_def)
  then show ?thesis
    by (simp add: resolve_at_def Let_def s1 cached_best_def split: option.splits prod.splits)
qed

lemma resolve_at_total:
  "unat (total_routed s) + 1 < 2 ^ 64 \<Longrightarrow> fst (resolve_at env n s) \<noteq> Inl Trap
     \<and> unat (total_routed (snd (resolve_at env n s))) \<le> unat (total_routed s) + 1"
proof -
  assume "unat (total_routed s) + 1 < 2 ^ 64"
  then have t: "checked_add (unwrap_or (total_routed_key s) 0) 1 = Some (unwrap_or (total_routed_key s) 0 + 1)"
    "unat (unwrap_or (total_routed_key s) 0 + 1) = unat (total_routed s) + 1"
    by (simp_all add: checked_add_def total_routed_def unat_word_ariths)
  then show ?thesis
    by (simp add: resolve_at_def Let_def total_routed_def split: option.splits prod.splits)
qed

lemma batch_resolve_loop_answers:
  "only_counted s s1 \<Longrightarrow> unat (total_routed s) + 1 < 2 ^ 64 \<Longrightarrow>
     unat (total_routed s1) + length ns < 2 ^ 64 \<Longrightarrow>
     \<exists>s2. batch_resolve_loop env ns s1 rs
       = Inr (rs @ map (\<lambda>n. batch_outcome (fst (resolve_at env n s))) ns, s2) \<and> only_counted s s2"
proof (induction ns arbitrary: s1 rs)
  case (Cons n ns)
  obtain r s2 where r: "resolve_at env n s1 = (r, s2)" by force
  have lim: "unat (total_routed s1) + 1 < 2 ^ 64" using Cons.prems(3) by simp
  have "r = fst (resolve_at env n s)" using resolve_at_answer [OF Cons.prems(1) lim Cons.prems(2)] r by (metis fst_conv)
  moreover have "r \<noteq> Inl Trap" "unat (total_routed s2) \<le> unat (total_routed s1) + 1"
    using resolve_at_total [OF lim, of env n] r by simp_all
  moreover have "only_counted s s2"
    using only_counted_trans [OF Cons.prems(1)] resolve_at_only_counted [of s1 env n] r by simp
  moreover have "batch_resolve_loop env (n # ns) s1 rs = batch_resolve_loop env ns s2 (rs @ [batch_outcome r])"
    using r \<open>r \<noteq> Inl Trap\<close> by (cases r rule: batch_outcome.cases) auto
  ultimately show ?case using Cons.IH [of s2 "rs @ [batch_outcome r]"] Cons.prems by simp
qed simp

text \<open>
  \<open>batch_resolve\<close> never fails: it gives for every name, in order, the answer \<open>resolve\<close> gives
  on the state before the batch, an error for an error (any error outside the four listed ones
  as \<open>RouteNotFound\<close>), as long as the counter of resolutions does not overflow.
\<close>

theorem batch_resolve_pointwise:
  assumes "unat (total_routed s) + length names + 1 < 2 ^ 64"
  shows "\<exists>s'. batch_resolve env names s = Inr
      (map (\<lambda>n. case resolve env n s of Inr (a, _) \<Rightarrow> Resolved a | Inl e \<Rightarrow> batch_outcome (Inl e)) names, s')
    \<and> only_counted s s'"
proof -
  have "batch_outcome (fst (resolve_at env n s))
      = (case resolve env n s of Inr (a, _) \<Rightarrow> Resolved a | Inl e \<Rightarrow> batch_outcome (Inl e))" for n
    by (cases "resolve_at env n s"; cases "fst (resolve_at env n s)") (simp_all add: resolve_def)
  with batch_resolve_loop_answers [OF only_counted_refl, of s names env "[]"] assms show ?thesis
    by (simp add: batch_resolve_def)
qed

subsection \<open>Batches that apply as a whole\<close>

text \<open>Inputs that can all be registered, after those already seen.\<close>

definition registrable :: "router \<Rightarrow> string list \<Rightarrow> route_register_input list \<Rightarrow> bool" where
  "registrable s seen rs \<longleftrightarrow> distinct (map ri_name rs) \<and> set (map ri_name rs) \<inter> set seen = {}
     \<and> (\<forall>r\<in>set rs. valid_name (ri_name r) \<and> route_key s (ri_name r) = None
          \<and> alias_key s (ri_name r) = None \<and> ri_address r \<noteq> ZERO_ADDRESS)"

lemma validate_name_no_trap: "validate_route_name s n \<noteq> Inl Trap"
proof -
  have bytes: "for_each (\<lambda>b. reject_if (\<not> name_byte b) InvalidRouteName) xs \<noteq> Inl Trap" for xs
    by (induction xs) (simp_all add: reject_if_def)
  show ?thesis
    using bytes [of n, unfolded reject_if_def]
    by (auto simp: validate_route_name_def reject_if_def bindr_def split: sum.splits if_splits)
qed

lemma register_check_result:
  assumes "seen = [] \<or> unat n0 + length seen \<le> unat max_n"
  shows "\<exists>bad. register_check s n0 max_n i rs seen = Inr bad
    \<and> (bad = None \<longrightarrow> registrable s seen rs
         \<and> (rs = [] \<or> unat n0 + length seen + length rs \<le> unat max_n))
    \<and> (\<forall>j e. bad = Some (j, e) \<longrightarrow> i \<le> j \<and> j < i + length rs)"
  using assms
proof (induction rs arbitrary: seen i)
  case Nil
  then show ?case by (simp add: registrable_def)
next
  case (Cons r rs)
  have "unat max_n < 2 ^ LENGTH(32)" "unat n0 < 2 ^ LENGTH(32)" by (rule unsigned_less)+
  with Cons.prems have small: "unat n0 + length seen < 2 ^ 32" by auto
  then have len: "unat (of_nat (length seen) :: u32) = length seen"
    by (simp add: unsigned_of_nat take_bit_nat_eq_self)
  obtain n where n: "checked_add n0 (of_nat (length seen)) = Some n" "unat n = unat n0 + length seen"
    using small len checked_add_Some_iff [of n0 "of_nat (length seen)" "n0 + of_nat (length seen)"]
    by (auto simp: checked_add_def)
  show ?case
  proof (cases "ri_name r \<in> set seen")
    case new: False
    show ?thesis
    proof (cases "validate_route_name s (ri_name r)")
      case (Inl e)
      with validate_name_no_trap [of s "ri_name r"] new show ?thesis by (cases e) auto
    next
      case (Inr u)
      then have ok: "valid_name (ri_name r)" "route_key s (ri_name r) = None" "alias_key s (ri_name r) = None"
        by (simp_all add: validate_route_name_iff)
      show ?thesis
      proof (cases "is_zero_address (ri_address r) \<or> n \<ge> max_n")
        case True
        with new Inr n(1) show ?thesis by auto
      next
        case False
        then have room: "unat n0 + length (seen @ [ri_name r]) \<le> unat max_n"
          using n(2) by (simp add: word_conv not_le)
        from Cons.IH [OF disjI2 [OF this], of "Suc i"] obtain bad where bad:
          "register_check s n0 max_n (Suc i) rs (seen @ [ri_name r]) = Inr bad"
          "bad = None \<longrightarrow> registrable s (seen @ [ri_name r]) rs
             \<and> (rs = [] \<or> unat n0 + length (seen @ [ri_name r]) + length rs \<le> unat max_n)"
          "\<forall>j e. bad = Some (j, e) \<longrightarrow> Suc i \<le> j \<and> j < Suc i + length rs" by blast
        have "registrable s seen (r # rs)" if "registrable s (seen @ [ri_name r]) rs"
          using that new ok False unfolding registrable_def by (auto simp: is_zero_address_def)
        with bad new Inr n(1) False room show ?thesis by fastforce
      qed
    qed
  qed simp
qed

text \<open>After a passed check every registration succeeds.\<close>

lemma register_all_routes:
  assumes "registrable s [] rs" and "rs = [] \<or> unat (route_count s) + length rs \<le> unat (get_max_routes s)"
  shows "\<exists>s'. fold_each (register_input c) rs s = Inr s'
    \<and> (\<forall>n. route_key s' n = (case map_of (map (\<lambda>r. (ri_name r, fresh_entry c (ri_name r) (ri_address r) None)) rs) n of
         Some e \<Rightarrow> Some e | None \<Rightarrow> route_key s n))
    \<and> route_names s' = route_names s @ map ri_name rs"
  using assms
proof (induction rs arbitrary: s)
  case (Cons r rs)
  let ?e = "fresh_entry c (ri_name r) (ri_address r) None"
  have "unat (get_max_routes s) < 2 ^ LENGTH(32)" by (rule unsigned_less)
  with Cons.prems(2) have "unat (route_count s) + 1 < 2 ^ 32" by auto
  then obtain n where n: "checked_add (route_count s) 1 = Some n" "unat n = unat (route_count s) + 1"
    using checked_add_Some_iff [of "route_count s" 1 "route_count s + 1"] by (auto simp: checked_add_def)
  obtain s1 where st: "store_route ?e None (unwrap_or (route_count_key s) 0) s = Inr s1"
    using n(1) by (auto simp: store_route_def Let_def route_count_def)
  then have s1: "route_key s1 = (route_key s)(ri_name r \<mapsto> ?e)" "route_names s1 = route_names s @ [ri_name r]"
    "alias_key s1 = alias_key s" "max_routes_key s1 = max_routes_key s" "route_count_key s1 = Some n"
    using n(1) by (auto elim!: store_route_Inr simp: route_count_def)
  have less: "unwrap_or (route_count_key s) 0 < unwrap_or (max_routes_key s) DEFAULT_MAX_ROUTES"
    using Cons.prems(2) by (simp add: word_less_nat_alt route_count_def get_max_routes_def)
  have "register_input c r s = Inr s1"
    using Cons.prems(1) st less
    by (simp add: register_input_def register_route_internal_iff registrable_def validate_some_metadata_def)
  moreover have "registrable s1 [] rs"
  proof -
    have "ri_name x \<noteq> ri_name r" if "x \<in> set rs" for x
    proof -
      have "ri_name r \<notin> ri_name ` set rs" using Cons.prems(1) by (simp add: registrable_def)
      with imageI [OF that, of ri_name] show ?thesis by metis
    qed
    with Cons.prems(1) show ?thesis unfolding registrable_def by (simp add: s1)
  qed
  moreover have "rs = [] \<or> unat (route_count s1) + length rs \<le> unat (get_max_routes s1)"
    using Cons.prems(2) n(2) by (simp add: route_count_def get_max_routes_def s1)
  ultimately obtain s' where s': "fold_each (register_input c) (r # rs) s = Inr s'"
    "\<forall>n. route_key s' n = (case map_of (map (\<lambda>r. (ri_name r, fresh_entry c (ri_name r) (ri_address r) None)) rs) n of
         Some e \<Rightarrow> Some e | None \<Rightarrow> route_key s1 n)"
    "route_names s' = route_names s1 @ map ri_name rs"
    using Cons.IH [of s1] by auto
  have "map_of (map (\<lambda>r. (ri_name r, fresh_entry c (ri_name r) (ri_address r) None)) rs) (ri_name r) = None"
    using Cons.prems(1) by (auto simp: registrable_def map_of_eq_None_iff)
  with s' show ?case by (auto simp: s1 split: option.split)
qed simp

text \<open>
  A batch registration with \<open>fail_fast\<close> by the admin always returns a report, and applies
  everything or nothing: either every index is a success and exactly the given routes are added, in
  order, fresh and pointing to the given addresses, or one index within the batch is a failure and
  the state is unchanged.
\<close>

theorem register_batch_all_or_nothing:
  assumes "auth env c" and "admin_key s = Some c"
  shows "\<exists>r s'. register_routes_batch env c rs True s = Inr (r, s')
    \<and> (failures r = [] \<and> successes r = map of_nat [0..<length rs]
         \<and> route_names s' = route_names s @ map ri_name rs
         \<and> (\<forall>x\<in>set rs. route_key s' (ri_name x) = Some (fresh_entry c (ri_name x) (ri_address x) None))
         \<and> (\<forall>n. n \<notin> ri_name ` set rs \<longrightarrow> route_key s' n = route_key s n)
       \<or> s' = s \<and> successes r = [] \<and> (\<exists>i e. i < length rs \<and> failures r = [\<lparr>bf_index = of_nat i, bf_error = e\<rparr>]))"
proof -
  from register_check_result [of "[]" "route_count s" "get_max_routes s" s 0 rs] obtain bad where bad:
    "register_check s (route_count s) (get_max_routes s) 0 rs [] = Inr bad"
    "bad = None \<longrightarrow> registrable s [] rs
       \<and> (rs = [] \<or> unat (route_count s) + length rs \<le> unat (get_max_routes s))"
    "\<forall>j e. bad = Some (j, e) \<longrightarrow> j < length rs" by auto
  show ?thesis
  proof (cases bad)
    case (Some b)
    obtain i e where "b = (i, e)" by force
    with Some bad assms show ?thesis
      by (auto simp: register_routes_batch_def route_count_def get_max_routes_def)
  next
    case None
    with bad(2) have reg: "registrable s [] rs"
      "rs = [] \<or> unat (route_count s) + length rs \<le> unat (get_max_routes s)" by simp_all
    let ?m = "map (\<lambda>r. (ri_name r, fresh_entry c (ri_name r) (ri_address r) None)) rs"
    from register_all_routes [OF reg, of c] obtain s' where s': "fold_each (register_input c) rs s = Inr s'"
      "\<forall>n. route_key s' n = (case map_of ?m n of Some e \<Rightarrow> Some e | None \<Rightarrow> route_key s n)"
      "route_names s' = route_names s @ map ri_name rs" by blast
    have "distinct (map fst ?m)" using reg(1) by (simp add: registrable_def comp_def)
    then have "map_of ?m (ri_name x) = Some (fresh_entry c (ri_name x) (ri_address x) None)" if "x \<in> set rs" for x
      using that by (intro map_of_is_SomeI) auto
    moreover have "map_of ?m n = None" if "n \<notin> ri_name ` set rs" for n
      using that by (force simp: map_of_eq_None_iff)
    moreover have "register_routes_batch env c rs True s
        = Inr (batch_new\<lparr>successes := map of_nat [0..<length rs]\<rparr>, s')"
      using bad(1) None s'(1) assms
      by (simp add: register_routes_batch_def route_count_def get_max_routes_def batch_all_fold)
    ultimately show ?thesis using s'(2,3) by simp
  qed
qed

lemma remove_check_result:
  "remove_check s i names seen = None \<Longrightarrow> distinct names \<and> set names \<inter> set seen = {}
     \<and> (\<forall>n\<in>set names. route_key s n \<noteq> None \<and> dependents_key s n = [])"
  "remove_check s i names seen = Some (j, e) \<Longrightarrow> j < i + length names"
  by (induction s i names seen rule: remove_check.induct)
    (auto simp: route_has_dependents_def split: if_splits)

lemma remove_all:
  "distinct names \<Longrightarrow> \<forall>n\<in>set names. route_key s n \<noteq> None \<and> dependents_key s n = [] \<Longrightarrow>
     \<exists>s'. fold_each remove_route_internal names s = Inr s'
       \<and> route_key s' = (\<lambda>n. if n \<in> set names then None else route_key s n)"
proof (induction names arbitrary: s)
  case (Cons n names)
  let ?s = "publish ''route_removed'' (VStr n) (remove_aliases_for_route n (drop_route n s))"
  have "remove_route_internal n s = Inr ?s" using Cons.prems(2) by (simp add: remove_route_internal_iff)
  moreover have "\<forall>m\<in>set names. route_key ?s m \<noteq> None \<and> dependents_key ?s m = []"
    using Cons.prems by auto
  ultimately show ?case using Cons.IH [of ?s] Cons.prems(1) by (auto simp: fun_eq_iff)
qed simp

text \<open>
  A batch removal with \<open>fail_fast\<close> by the admin always returns a report, and removes all the
  named routes or none: either every index is a success and exactly these routes are gone, or one
  index within the batch is a failure and the state is unchanged.
\<close>

theorem remove_batch_all_or_nothing:
  assumes "core_inv s" and "auth env c" and "admin_key s = Some c"
  shows "\<exists>r s'. remove_routes_batch env c names True s = Inr (r, s')
    \<and> (failures r = [] \<and> successes r = map of_nat [0..<length names]
         \<and> route_key s' = (\<lambda>n. if n \<in> set names then None else route_key s n)
       \<or> s' = s \<and> successes r = [] \<and> (\<exists>i e. i < length names \<and> failures r = [\<lparr>bf_index = of_nat i, bf_error = e\<rparr>]))"
proof (cases "remove_check s 0 names []")
  case (Some b)
  obtain i e where b: "b = (i, e)" by force
  with Some have "i < length names" using remove_check_result(2) [of s 0 names "[]" i e] by simp
  with Some b assms(2,3) show ?thesis by (auto simp: remove_routes_batch_def)
next
  case None
  then have "distinct names" "\<forall>n\<in>set names. route_key s n \<noteq> None \<and> dependents_key s n = []"
    using remove_check_result(1) by blast+
  from remove_all [OF this] obtain s1 where s1: "fold_each remove_route_internal names s = Inr s1"
    "route_key s1 = (\<lambda>n. if n \<in> set names then None else route_key s n)" by blast
  let ?r = "batch_new\<lparr>successes := map of_nat [0..<length names]\<rparr>"
  have all: "batch_all remove_route_internal 0 names s batch_new = Inr (?r, s1)"
    using s1(1) by (simp add: batch_all_fold)
  have "tables_ok s" using assms(1) by (simp add: core_inv_tables)
  from tables_recompute(1) [OF remove_loops(1) [OF this all]] obtain b v where
    "recompute_best_route s1 = Inr (cache_best b v s1)" by blast
  with None all assms(2,3) have "remove_routes_batch env c names True s = Inr (?r, cache_best b v s1)"
    by (simp add: remove_routes_batch_def)
  with s1(2) show ?thesis by simp
qed

subsection \<open>Registering and removing again\<close>

text \<open>
  C31. Removing a route right after its registration restores every table: only the events, the
  cached best route (recomputed) and the representation of the count can differ.
\<close>

theorem register_remove_roundtrip:
  assumes "core_inv s" and "register_route env c n a md s = Inr (u, s1)"
    and "remove_route env' c' n s1 = Inr (u', s2)"
  shows "\<exists>b ev. s2 = s\<lparr>route_count_key := Some (route_count s), best_route_key := b, events := ev\<rparr>"
proof -
  from assms(2) have adm: "admin_key s = Some c" and reg: "register_route_internal c n a md None s = Inr s1"
    by (simp_all add: register_route_iff)
  then have new: "route_key s n = None" "alias_key s n = None"
    and st: "store_route (fresh_entry c n a None) md (route_count s) s = Inr s1"
    by (simp_all add: register_route_internal_iff route_count_def)
  from st obtain m where m: "checked_add (route_count s) 1 = Some m"
    and s1: "admin_key s1 = admin_key s" "route_key s1 = (route_key s)(n \<mapsto> fresh_entry c n a None)"
    "route_names s1 = route_names s @ [n]" "route_count_key s1 = Some m"
    "max_routes_key s1 = max_routes_key s" "paused_key s1 = paused_key s"
    "total_routed_key s1 = total_routed_key s" "alias_key s1 = alias_key s"
    "alias_names s1 = alias_names s" "score_key s1 = score_key s"
    "metadata_key s1 = (case md of None \<Rightarrow> metadata_key s | Some d \<Rightarrow> (metadata_key s)(n \<mapsto> d))"
    "dependencies_key s1 = dependencies_key s" "dependents_key s1 = dependents_key s"
    "best_route_key s1 = best_route_key s" "scoring_weights_key s1 = scoring_weights_key s"
    by (rule store_route_Inr) (simp cong: option.case_cong)
  have inv1: "core_inv s1"
    by (rule register_internal_inv [OF assms(1) _ reg]) (use adm in simp)
  let ?d = "remove_aliases_for_route n (drop_route n s1)"
  from assms(3) obtain s3 where gone: "dependents_key s1 n = []" "route_key s1 n \<noteq> None"
    and rec: "recompute_best_route ?d = Inr s3" and s2: "s2 = publish ''route_removed'' (VStr n) s3"
    by (auto simp: remove_route_iff)
  have "tables_ok ?d" using inv1 gone by (intro tables_remove) (simp_all add: core_inv_tables)
  from recompute_Inr(1) [OF this rec] obtain b v where s3: "s3 = cache_best b v ?d" by blast
  note ok = assms(1) [unfolded core_inv_def]
  have none: "score_key s n = None" "metadata_key s n = None" "dependencies_key s n = []"
    "n \<notin> set (route_names s)"
    using ok new(1) unfolding data_ok_def deps_ok_def routes_ok_def
    by (metis not_None_eq, metis not_None_eq, metis list.set_intros(1) neq_Nil_conv, auto)
  have untargeted: "alias_key s al \<noteq> Some n" for al
    using ok new(1) unfolding aliases_ok_def by blast
  have al: "alias_key ?d = alias_key s" "alias_names ?d = alias_names s"
  proof -
    have "distinct (alias_names s)" "\<forall>al\<in>set (alias_names s). alias_key s al \<noteq> None"
      using ok by (auto simp: aliases_ok_def)
    from remove_aliases_loop_result [OF this, of n "[]"] untargeted
    show "alias_key ?d = alias_key s" "alias_names ?d = alias_names s"
      by (simp_all add: remove_aliases_for_route_def s1)
  qed
  have dep: "dependents_key s n = []" using gone by (simp add: s1)
  have "unat m = unat (route_count s) + 1" using m by (simp add: checked_add_Some_iff)
  then have cnt: "saturating_sub m 1 = route_count s"
    by (simp add: word_unat_eq_iff unat_saturating_sub)
  have meta: "(case md of None \<Rightarrow> metadata_key s | Some d \<Rightarrow> (metadata_key s)(n \<mapsto> d)) x
      = metadata_key s x" if "x \<noteq> n" for x
    using that by (cases md) simp_all
  have names: "filter (\<lambda>m. m \<noteq> n) (route_names s) = route_names s"
    using none(4) by (auto simp: filter_id_conv)
  have "s2 = s\<lparr>route_count_key := Some (route_count s), best_route_key := b, events := events s2\<rparr>"
    by (rule router.equality)
      (use new none dep in \<open>auto simp: s2 s3 al names meta cnt s1 fun_eq_iff\<close>)
  then show ?thesis by blast
qed

subsection \<open>Pages and statistics\<close>

lemma names_bounded:
  assumes "core_inv s"
  shows "length (route_names s) < 2 ^ 32"
proof -
  have "unat (route_count s) < 2 ^ LENGTH(32)" by (rule unsigned_less)
  with assms show ?thesis by (simp add: core_inv_def routes_ok_def route_count_def)
qed

text \<open>
  A page is the slice of the list of unexpired routes it asks for: \<open>limit\<close> names from
  \<open>start\<close> on, for all 32-bit arguments, although the end of the page is computed with saturation;
  consecutive pages of any positive size therefore list every route exactly once.
\<close>

theorem pages_are_slices:
  assumes "core_inv s"
  shows "get_routes_paginated env start limit s = take (unat limit) (drop (unat start) (get_all_routes env s))"
proof -
  let ?ns = "get_all_routes env s"
  have "length ?ns \<le> length (route_names s)" by (simp add: get_all_routes_def)
  with names_bounded [OF assms] have len: "length ?ns < 2 ^ 32" by simp
  show ?thesis
  proof (cases "length ?ns \<le> unat start \<or> limit = 0")
    case True
    then show ?thesis by (auto simp: get_routes_paginated_def Let_def)
  next
    case False
    have en: "min (unat (saturating_add start limit)) (length ?ns) = min (unat start + unat limit) (length ?ns)"
      using len by (auto simp: unat_saturating_add)
    have "map ((!) ?ns) [a..<min (a + k) (length ?ns)] = take k (drop a ?ns)" if "a < length ?ns" for a k
    proof (subst list_eq_iff_nth_eq, intro conjI allI impI)
      fix i
      assume "i < length (map ((!) ?ns) [a..<min (a + k) (length ?ns)])"
      then have i: "i < k" "a + i < length ?ns" "a + i < min (a + k) (length ?ns)" by auto
      then show "map ((!) ?ns) [a..<min (a + k) (length ?ns)] ! i = take k (drop a ?ns) ! i"
        by simp
    qed (use that in auto)
    from this [of "unat start" "unat limit"] False
    have "map ((!) ?ns) [unat start..<min (unat start + unat limit) (length ?ns)]
        = take (unat limit) (drop (unat start) ?ns)" by simp
    with False en show ?thesis by (simp add: get_routes_paginated_def Let_def)
  qed
qed

lemma stats_scan_counts:
  assumes "\<forall>n\<in>set ns. route_key s n \<noteq> None"
  shows "total_routes (stats_scan env s ns st) = total_routes st + of_nat (length ns)
    \<and> expired_routes (stats_scan env s ns st)
        = expired_routes st + of_nat (length (filter (name_expired env s) ns))
    \<and> paused_routes (stats_scan env s ns st) = paused_routes st
        + of_nat (length (filter (\<lambda>n. \<not> name_expired env s n \<and> rt_paused (the (route_key s n))) ns))
    \<and> active_routes (stats_scan env s ns st) = active_routes st + of_nat (length (filter (live env s) ns))
    \<and> scored_routes (stats_scan env s ns st)
        = scored_routes st + of_nat (length (filter (\<lambda>n. score_key s n \<noteq> None) ns))"
  using assms
proof (induction ns arbitrary: st)
  case (Cons n ns)
  then obtain e where e: "route_key s n = Some e" by auto
  then have l: "live env s n \<longleftrightarrow> \<not> is_route_expired env e \<and> \<not> rt_paused e"
    "name_expired env s n \<longleftrightarrow> is_route_expired env e"
    by (auto simp: live_def name_expired_def)
  show ?case
    using Cons.IH Cons.prems e l by (auto simp: Let_def add.assoc add.commute add.left_commute)
qed simp

text \<open>
  The statistics partition the routes: active, paused and expired routes add up to the total,
  which is the stored route count; active are exactly the live ones, and the aliases and the
  scores are counted exactly.
\<close>

theorem stats_partition:
  assumes "core_inv s"
  shows "unat (total_routes (get_stats env s)) = length (route_names s)
    \<and> total_routes (get_stats env s) = route_count s
    \<and> unat (active_routes (get_stats env s)) = card {n. live env s n}
    \<and> unat (active_routes (get_stats env s)) + unat (paused_routes (get_stats env s))
        + unat (expired_routes (get_stats env s)) = unat (total_routes (get_stats env s))
    \<and> unat (scored_routes (get_stats env s)) = card {n. score_key s n \<noteq> None}"
proof -
  let ?ns = "route_names s"
  have ok: "distinct ?ns" "set ?ns = dom (route_key s)" "unat (route_count s) = length ?ns"
    using assms by (simp_all add: core_inv_def routes_ok_def route_count_def)
  have small: "unat (of_nat (length (filter P ?ns)) :: u32) = length (filter P ?ns)" for P
  proof -
    have "length (filter P ?ns) < 2 ^ 32" using length_filter_le [of P ?ns] names_bounded [OF assms] by linarith
    then show ?thesis by (simp add: unsigned_of_nat take_bit_nat_eq_self)
  qed
  have all: "unat (of_nat (length ?ns) :: u32) = length ?ns" using small [of "\<lambda>_. True"] by simp
  have "\<forall>n\<in>set ?ns. route_key s n \<noteq> None" using ok(2) by auto
  note counts = stats_scan_counts [OF this, of env]
  have live: "card {n. live env s n} = length (filter (live env s) ?ns)"
  proof -
    have "{n. live env s n} = set (filter (live env s) ?ns)" using ok(2) by (auto simp: live_def)
    then show ?thesis using ok(1) by (metis distinct_card distinct_filter)
  qed
  have scored: "card {n. score_key s n \<noteq> None} = length (filter (\<lambda>n. score_key s n \<noteq> None) ?ns)"
  proof -
    have "{n. score_key s n \<noteq> None} = set (filter (\<lambda>n. score_key s n \<noteq> None) ?ns)"
      using assms ok(2) by (auto simp: core_inv_def data_ok_def)
    then show ?thesis using ok(1) by (metis distinct_card distinct_filter)
  qed
  have split: "length (filter (live env s) xs)
      + length (filter (\<lambda>n. \<not> name_expired env s n \<and> rt_paused (the (route_key s n))) xs)
      + length (filter (name_expired env s) xs) = length xs" if "set xs \<subseteq> dom (route_key s)" for xs
    using that by (induction xs) (auto simp: live_def name_expired_def)
  have "total_routes (get_stats env s) = of_nat (length ?ns)"
    "active_routes (get_stats env s) = of_nat (length (filter (live env s) ?ns))"
    "paused_routes (get_stats env s)
      = of_nat (length (filter (\<lambda>n. \<not> name_expired env s n \<and> rt_paused (the (route_key s n))) ?ns))"
    "expired_routes (get_stats env s) = of_nat (length (filter (name_expired env s) ?ns))"
    "scored_routes (get_stats env s) = of_nat (length (filter (\<lambda>n. score_key s n \<noteq> None) ?ns))"
    using counts by (simp_all add: get_stats_def)
  moreover have "(of_nat (length ?ns) :: u32) = route_count s"
    using ok(3) all by (simp add: word_unat_eq_iff)
  ultimately show ?thesis
    using small all live scored split [of ?ns] ok(2) by simp
qed

end
