(* ===== verification/Core_Safety.thy ===== *)
theory Core_Safety
  imports Core_Routes
begin

text \<open>
  What router-core keeps to: only the admin changes the table, no call panics, the choice
  \<open>get_best_route\<close> makes, and the chain of dependencies that is accepted but cannot be resolved.
\<close>

subsection \<open>Authority\<close>

text \<open>The calls the admin check guards; the others only resolve, or initialise.\<close>

fun core_gated :: "core_call \<Rightarrow> address option" where
  "core_gated (RInitialize a m) = None"
| "core_gated (RResolve n) = None"
| "core_gated (RBatchResolve ns) = None"
| "core_gated (RGetBest ns m f) = None"
| "core_gated (RRegister c n a m) = Some c"
| "core_gated (RRegisterTtl c n a t) = Some c"
| "core_gated (RExtendTtl c n k) = Some c"
| "core_gated (RUpdate c n a) = Some c"
| "core_gated (RRemove c n) = Some c"
| "core_gated (RRegisterBatch c rs ff) = Some c"
| "core_gated (RRemoveBatch c ns ff) = Some c"
| "core_gated (RSetRoutePaused c n p) = Some c"
| "core_gated (RSetPaused c p) = Some c"
| "core_gated (RSetDependency c r d) = Some c"
| "core_gated (RUpdateMetadata c n m) = Some c"
| "core_gated (RAddTag c n t) = Some c"
| "core_gated (RRemoveTag c n t) = Some c"
| "core_gated (RSetMaxRoutes c m) = Some c"
| "core_gated (RAddAlias c e a) = Some c"
| "core_gated (RRemoveAlias c a) = Some c"
| "core_gated (RTransferAdmin c n) = Some c"
| "core_gated (RSetWeights c w) = Some c"
| "core_gated (RSetScore c n sc) = Some c"
| "core_gated (RSetScores c scs) = Some c"

lemma guarded_call:
  "bindr (require_auth env c) (\<lambda>_. bindr (require_admin c e1 e2 s) f) = Inr y \<Longrightarrow>
     auth env c \<and> admin_key s = Some c"
  by (auto simp: res_simps)

lemmas core_entry_points = register_route_def register_route_with_ttl_def extend_route_ttl_def
  update_route_def remove_route_def register_routes_batch_def remove_routes_batch_def
  set_route_paused_def set_paused_def set_route_dependency_def update_metadata_def add_route_tag_def
  remove_route_tag_def set_max_routes_def add_alias_def remove_alias_def core_transfer_admin_def
  set_scoring_weights_def set_route_score_def set_route_scores_batch_def

lemma core_gated_auth:
  assumes "core_step env c s = Inr s'" and "core_gated c = Some a"
  shows "auth env a \<and> admin_key s = Some a"
  using assms
  by (cases c) (simp_all only: core_step.simps core_gated.simps returns_Inr_iff core_entry_points
      option.distinct option.inject, (erule exE, drule guarded_call, simp)+)

lemma core_open_frame:
  assumes "core_step env c s = Inr s'" and "core_gated c = None" and "admin_key s = Some a"
  shows "admin_key s' = Some a \<and> only_counted s s'"
proof -
  have "only_counted s s'"
  proof (cases c)
    case (RInitialize x m)
    with assms show ?thesis by (auto simp: res_simps core_initialize_iff)
  next
    case (RResolve n)
    with assms(1) obtain r where "resolve env n s = Inr (r, s')" by (auto simp: res_simps)
    with resolve_at_only_counted [of s env n] show ?thesis by (simp add: resolve_iff)
  next
    case (RBatchResolve ns)
    with assms(1) show ?thesis
      by (auto simp: res_simps batch_resolve_def intro: batch_resolve_only_counted)
  next
    case (RGetBest ns m f)
    with assms(1) show ?thesis by (auto simp: res_simps intro: get_best_route_only_counted)
  qed (use assms(2) in simp_all)
  with assms(3) show ?thesis by (auto simp: only_counted_def)
qed

interpretation core_admin: admin_gated core_step router_empty core_inv admin_key core_gated only_counted
  by unfold_locales
    (erule (1) core_gated_auth, erule (2) core_open_frame, rule only_counted_refl, erule (1) only_counted_trans)

text \<open>
  C21. No sequence of transactions that the admin has not signed changes the routing table: routes,
  aliases, scores, metadata, dependencies, limits, pause flags, the cached best route and the admin
  stay as they are; only the counter of resolutions and the events can move.
\<close>

theorem core_needs_admin:
  assumes "admin_key (run_txs core_step router_empty pre) = Some a"
    and "\<forall>(env, c)\<in>set txs. \<not> auth env a"
  shows "\<exists>n ev. run_txs core_step router_empty (pre @ txs)
    = (run_txs core_step router_empty pre)\<lparr>total_routed_key := n, events := ev\<rparr>"
  using core_admin.unsigned_run [OF core_machine.invar_run assms]
  by (simp add: run_txs_append only_counted_def)

subsection \<open>The best of some candidates\<close>

abbreviation candidate_rank :: "env \<Rightarrow> router \<Rightarrow> string \<Rightarrow> int option" where
  "candidate_rank env s \<equiv> rank (\<lambda>e. \<not> rt_paused e \<and> \<not> is_route_expired env e)
     (exact_score DEFAULT_SCORING_WEIGHTS) s"

lemma candidates_scan:
  assumes "data_ok s"
  shows "\<exists>v. best_loop (\<lambda>e. \<not> rt_paused e \<and> \<not> is_route_expired env e) fixed_composite s ns None I64_MIN
      = Inr (fst (pick (candidate_rank env s) ns (None, - (2 ^ 63))), v)
    \<and> sint v = snd (pick (candidate_rank env s) ns (None, - (2 ^ 63)))"
proof -
  have "\<forall>n\<in>set ns. \<forall>sc. score_key s n = Some sc \<longrightarrow>
      (\<exists>c. fixed_composite sc = Inr c \<and> sint c = exact_score DEFAULT_SCORING_WEIGHTS sc)"
    using assms composite_exact [OF default_weights_ok] by (auto simp: data_ok_def fixed_composite_default)
  from best_loop_pick [OF this, of "\<lambda>e. \<not> rt_paused e \<and> \<not> is_route_expired env e" None I64_MIN]
  show ?thesis by (simp add: I64_MIN_def sint_word_of_int_i64 in_i64_def)
qed

text \<open>
  While the router is not paused, \<open>get_best_route\<close> never fails. It selects the first candidate
  of highest score among those live and scored, with the weights 1, 1 and 10 whatever weights the
  admin has set, and returns it if the score reaches the minimum and the fallback otherwise. With
  no such candidate it returns the fallback, except when the minimum is the least 64-bit value:
  then it returns nothing.
\<close>

theorem best_route_choice:
  assumes "core_inv s" and "\<not> unwrap_or (paused_key s) False"
  shows "\<exists>r s'. get_best_route env cs min_score fallback s = Inr (r, s') \<and> only_counted s s'
    \<and> ((\<exists>ps n qs c. cs = ps @ n # qs \<and> candidate_rank env s n = Some c
          \<and> (\<forall>x\<in>set ps. \<forall>w. candidate_rank env s x = Some w \<longrightarrow> w < c)
          \<and> (\<forall>x\<in>set qs. \<forall>w. candidate_rank env s x = Some w \<longrightarrow> w \<le> c)
          \<and> r = (if c \<ge> sint min_score then Some n else fallback))
       \<or> (\<forall>x\<in>set cs. candidate_rank env s x = None)
          \<and> r = (if sint min_score = - (2 ^ 63) then None else fallback))"
proof -
  let ?rk = "candidate_rank env s"
  have data: "data_ok s" using assms(1) by (simp add: core_inv_def)
  obtain v where scan: "best_loop (\<lambda>e. \<not> rt_paused e \<and> \<not> is_route_expired env e) fixed_composite s cs None I64_MIN
      = Inr (fst (pick ?rk cs (None, - (2 ^ 63))), v)"
    and v: "sint v = snd (pick ?rk cs (None, - (2 ^ 63)))"
    using candidates_scan [OF data] by blast
  let ?b = "fst (pick ?rk cs (None, - (2 ^ 63)))"
  let ?r = "if sint v \<ge> sint min_score then ?b else fallback"
  have run: "\<exists>s'. get_best_route env cs min_score fallback s = Inr (?r, s')"
    using assms(2) scan by (simp add: get_best_route_def)
  have low: "- 100 \<le> w" if sel: "?rk x = Some w" for x w
  proof -
    obtain sc where "score_ok sc" "w = exact_score DEFAULT_SCORING_WEIGHTS sc"
      using sel data by (auto simp: rank_Some_iff data_ok_def)
    with exact_score_bounds(1) [OF default_weights_ok] show ?thesis by simp
  qed
  from run obtain s' where s': "get_best_route env cs min_score fallback s = Inr (?r, s')" by blast
  have frame: "only_counted s s'" using s' by (rule get_best_route_only_counted)
  show ?thesis
  proof (cases rule: pick_result [of ?rk cs None "- (2 ^ 63)"])
    case kept
    have none: "?rk x = None" if "x \<in> set cs" for x
    proof (cases "?rk x")
      case (Some w)
      with kept(2) that have "w \<le> - (2 ^ 63)" by blast
      with low [OF Some] show ?thesis by simp
    qed simp
    have "sint min_score \<le> - (2 ^ 63) \<longleftrightarrow> sint min_score = - (2 ^ 63)"
      using in_i64_sint [of min_score] unfolding in_i64_def by linarith
    then have "?r = (if sint min_score = - (2 ^ 63) then None else fallback)"
      using v kept(1) by simp
    with s' frame none show ?thesis by (intro exI [of _ ?r] exI [of _ s'] conjI disjI2) simp_all
  next
    case (found ps n qs c)
    with v have "?r = (if c \<ge> sint min_score then Some n else fallback)" by simp
    with s' frame found(1,3,5,6) show ?thesis
      by (intro exI [of _ ?r] exI [of _ s'] conjI disjI1 exI [of _ ps] exI [of _ n] exI [of _ qs] exI [of _ c])
  qed
qed

subsection \<open>No panics\<close>

lemma bindr_trap [simp]:
  "bindr m f = Inl Trap \<longleftrightarrow> m = Inl Trap \<or> (\<exists>x. m = Inr x \<and> f x = Inl Trap)"
  by (cases m) auto

lemma primitive_traps [simp]:
  "reject_if b e \<noteq> Inl Trap" "ok_or v e \<noteq> Inl Trap" "require_admin c e1 e2 s \<noteq> Inl Trap"
  "expect v = Inl Trap \<longleftrightarrow> v = None" "require_auth env a = Inl Trap \<longleftrightarrow> \<not> auth env a"
  by (auto simp: reject_if_def ok_or_def require_admin_def expect_def require_auth_def trap_unless_def
      split: option.splits)

lemma returns_trap [simp]: "returns r = Inl Trap \<longleftrightarrow> r = Inl Trap"
  by (cases r) (simp_all add: returns_def)

lemma for_each_trap: "for_each f xs = Inl Trap \<Longrightarrow> \<exists>x\<in>set xs. f x = Inl Trap"
  by (induction xs) auto

lemma validations_no_trap [simp]:
  "validate_route_name s n \<noteq> Inl Trap" "validate_metadata md \<noteq> Inl Trap"
  "validate_some_metadata m \<noteq> Inl Trap" "validate_score sc \<noteq> Inl Trap"
proof -
  show "validate_route_name s n \<noteq> Inl Trap" by (rule validate_name_no_trap)
  show md: "validate_metadata md \<noteq> Inl Trap" for md
    by (auto simp: validate_metadata_def dest!: for_each_trap)
  show "validate_some_metadata m \<noteq> Inl Trap"
    by (simp add: validate_some_metadata_def md split: option.split)
  show "validate_score sc \<noteq> Inl Trap" by (simp add: validate_score_def)
qed

lemma visit_no_trap [simp]: "visit_dependencies s c t st d \<noteq> Inl Trap"
proof (induction s c t st d rule: visit_dependencies.induct)
  case (1 s c t st d)
  then show ?case by (subst visit_dependencies.simps) (auto dest: for_each_trap)
qed

text \<open>The count cannot overflow: a registration is admitted only below the 32-bit maximum.\<close>

lemma store_route_no_trap:
  assumes "n < m"
  shows "store_route e md n s \<noteq> Inl Trap"
proof -
  have "unat m < 2 ^ LENGTH(32)" by (rule unsigned_less)
  with assms have "unat n + 1 < 2 ^ 32" by (simp add: word_less_nat_alt)
  then show ?thesis by (simp add: store_route_def Let_def checked_add_def split: option.split)
qed

lemma register_internal_no_trap: "register_route_internal c n a md ex s \<noteq> Inl Trap"
  by (auto simp: register_route_internal_def Let_def res_simps not_le dest: store_route_no_trap)

lemma remove_internal_no_trap: "remove_route_internal n s \<noteq> Inl Trap"
  by (simp add: remove_route_internal_def remove_checks_def)

lemma loops_no_trap:
  assumes "\<And>x s. f x s \<noteq> Inl Trap"
  shows "batch_loop f err ff i xs s r \<noteq> Inl Trap" and "batch_all f i xs s r \<noteq> Inl Trap"
proof -
  obtain r' s' where "batch_loop f err ff i xs s r = Inr (r', s')"
    using batch_loop_total [where f = f, OF assms] by blast
  then show "batch_loop f err ff i xs s r \<noteq> Inl Trap" by simp
  show "batch_all f i xs s r \<noteq> Inl Trap"
    by (induction xs arbitrary: i s r) (simp_all add: assms)
qed

lemma register_check_no_trap: "register_check s n m 0 rs [] \<noteq> Inl Trap"
  using register_check_result [of "[]" n m s 0 rs] by auto

lemma recompute_no_trap:
  assumes "tables_ok s"
  shows "recompute_best_route s \<noteq> Inl Trap" and "scoring_recompute_best_route env s \<noteq> Inl Trap"
  using tables_recompute(1) [OF assms] tables_recompute(2) [OF assms, of env] by auto

lemma batch_entry_points_no_trap:
  assumes "core_inv s" and "auth env c"
  shows "register_routes_batch env c rs ff s \<noteq> Inl Trap" and "remove_routes_batch env c ns ff s \<noteq> Inl Trap"
proof -
  have reg: "register_input c x s \<noteq> Inl Trap" for x s
    by (simp add: register_input_def register_internal_no_trap)
  note reg_loops = loops_no_trap [where f = "register_input c", OF reg]
  show "register_routes_batch env c rs ff s \<noteq> Inl Trap"
    using assms(2) by (auto simp: register_routes_batch_def register_check_no_trap reg_loops split: option.splits)
  note rem_loops = loops_no_trap [where f = remove_route_internal, OF remove_internal_no_trap]
  have start: "tables_ok s" using assms(1) by (simp add: core_inv_tables)
  show "remove_routes_batch env c ns ff s \<noteq> Inl Trap"
    using assms(2) by (auto simp: remove_routes_batch_def rem_loops split: option.splits if_splits
        dest!: remove_loops [OF start] dest: recompute_no_trap)
qed

fun resolutions :: "core_call \<Rightarrow> nat" where
  "resolutions (RResolve n) = 1"
| "resolutions (RBatchResolve ns) = length ns"
| "resolutions c = 0"

fun core_signer :: "core_call \<Rightarrow> address option" where
  "core_signer (RInitialize a m) = Some a"
| "core_signer c = core_gated c"


lemma core_step_no_trap:
  assumes inv: "core_inv s" and signed: "\<forall>a. core_signer c = Some a \<longrightarrow> auth env a"
    and room: "unat (total_routed s) + resolutions c + 1 < 2 ^ 64"
  shows "core_step env c s \<noteq> Inl Trap"
proof -
  have tab: "tables_ok s" using inv by (simp add: core_inv_tables)
  have al: "aliases_ok s" using inv by (simp add: core_inv_def)
  show ?thesis
  proof (cases c)
    case (RInitialize a m)
    with signed show ?thesis by (simp add: core_initialize_def)
  next
    case (RRegister a n t m)
    with signed show ?thesis
      by (auto simp: register_route_def Let_def res_simps not_le dest: store_route_no_trap)
  next
    case (RRegisterTtl a n t k)
    with signed show ?thesis
      by (simp add: register_route_with_ttl_def Let_def register_internal_no_trap)
  next
    case (RRemove a n)
    with signed recompute_no_trap(1) [OF tables_remove [OF tab], of n] show ?thesis
      by (auto simp: remove_route_def Let_def remove_checks_def res_simps route_has_dependents_def)
  next
    case (RRegisterBatch a rs ff)
    with signed batch_entry_points_no_trap(1) [OF inv] show ?thesis by simp
  next
    case (RRemoveBatch a ns ff)
    with signed batch_entry_points_no_trap(2) [OF inv] show ?thesis by simp
  next
    case (RResolve n)
    with resolve_at_total [of s env n] room show ?thesis by (auto simp: resolve_def split: prod.splits)
  next
    case (RBatchResolve ns)
    with batch_resolve_loop_answers [OF only_counted_refl, of s ns env "[]"] room show ?thesis
      by (auto simp: batch_resolve_def)
  next
    case (RSetRoutePaused a n p)
    have "recompute_best_route (publish ''route_paused'' (VTuple [VStr n, VBool p])
        (s\<lparr>route_key := (route_key s)(n \<mapsto> e\<lparr>rt_paused := p, updated_by := a\<rparr>)\<rparr>)) \<noteq> Inl Trap"
      if "route_key s n = Some e" for e
      by (rule recompute_no_trap(1), unfold tables_ok_frame, rule tables_update_entry [OF tab that])
        (use entry_facts [OF inv that] in simp_all)
    with RSetRoutePaused signed show ?thesis by (auto simp: set_route_paused_def Let_def res_simps)
  next
    case (RSetDependency a r d)
    with signed show ?thesis by (simp add: set_route_dependency_def validate_dependency_cycle_def Let_def)
  next
    case (RAddAlias a t n)
    have "scoring_recompute_best_route env (publish ''alias_added'' (VTuple [VStr t, VStr n])
        (s\<lparr>alias_key := (alias_key s)(n \<mapsto> t), alias_names := alias_names s @ [n]\<rparr>)) \<noteq> Inl Trap"
      if "route_key s t \<noteq> None" "valid_name n" "route_key s n = None" "alias_key s n = None"
      by (rule recompute_no_trap(2)) (use tables_add_alias [OF tab that] in simp)
    moreover have "n \<notin> set (alias_names s)" if "alias_key s n = None"
      using al that by (auto simp: aliases_ok_def)
    ultimately show ?thesis using RAddAlias signed
      by (auto simp: add_alias_def add_alias_internal_def Let_def res_simps)
  next
    case (RRemoveAlias a n)
    with signed recompute_no_trap(2) [OF tables_remove_alias [OF tab]] show ?thesis
      by (auto simp: remove_alias_def Let_def res_simps recompute_no_trap(2) tables_remove_alias [OF tab])
  next
    case (RSetWeights a w)
    have "recompute_best_route (weights_event w (s\<lparr>scoring_weights_key := Some w\<rparr>)) \<noteq> Inl Trap" if "weights_ok w"
      using tab that unfolding weights_event_def tables_ok_def
      by (intro recompute_no_trap(1))
        (auto simp: tables_ok_def routes_ok_def aliases_ok_def data_ok_def deps_ok_def dep_rel_def scoring_weights_internal_def)
    with RSetWeights signed show ?thesis
      by (auto simp: set_scoring_weights_def res_simps weights_ok_def MAX_SCORING_WEIGHT_def)
  next
    case (RSetScore a n sc)
    with signed recompute_no_trap(1) [OF tables_set_score [OF tab]] show ?thesis
      by (auto simp: set_route_score_def res_simps)
  next
    case (RSetScores a xs)
    with signed recompute_no_trap(1) [OF tables_store_scores [OF tab]] show ?thesis
      by (auto simp: set_route_scores_batch_def res_simps dest!: for_each_trap)
  next
    case (RGetBest ns m f)
    have "data_ok s" using inv by (simp add: core_inv_def)
    from candidates_scan [OF this, of env ns] RGetBest show ?thesis
      by (auto simp: get_best_route_def split: if_splits)
  qed (use signed in \<open>auto simp: extend_route_ttl_def update_route_def set_paused_def update_metadata_def
      add_route_tag_def remove_route_tag_def set_max_routes_def core_transfer_admin_def Let_def
      split: option.splits\<close>)
qed

text \<open>
  C15. In every reachable state a call that carries the signature it asks for never panics: each
  \<open>unwrap\<close>, each addition to the route count and each product of weights and scores is within its
  bounds, so the call succeeds or returns an error of the contract. Only the 64-bit counter of
  resolutions could overflow, after \<open>2 ^ 64 - 2\<close> of them.
\<close>

theorem core_never_panics:
  assumes "s = run_txs core_step router_empty txs" and "\<forall>a. core_signer c = Some a \<longrightarrow> auth env a"
    and "unat (total_routed s) + resolutions c + 1 < 2 ^ 64"
  shows "(\<exists>s'. core_step env c s = Inr s') \<or> (\<exists>e. core_step env c s = Inl (Err e))"
proof (cases "core_step env c s")
  case (Inl e)
  have "core_inv s" unfolding assms(1) by (rule core_machine.invar_run)
  from core_step_no_trap [OF this assms(2,3)] Inl show ?thesis by (cases e) simp_all
qed simp

subsection \<open>The longest chain\<close>

text \<open>A chain of routes, each depending on the next one only.\<close>

definition chain :: "router \<Rightarrow> string list \<Rightarrow> bool" where
  "chain s ns \<longleftrightarrow> distinct ns
     \<and> (\<forall>k<length ns. dependencies_key s (ns ! k) = (if Suc k < length ns then [ns ! Suc k] else []))"

lemma visit_chain:
  assumes "chain s ns" and "length ns \<le> Suc MAX_RECURSION_DEPTH" and "r \<notin> set ns"
  shows "k < length ns \<Longrightarrow> visit_dependencies s (ns ! k) r (take k ns) k = Inr ()"
proof (induction "length ns - k" arbitrary: k)
  case (Suc m)
  have deps: "dependencies_key s (ns ! k) = (if Suc k < length ns then [ns ! Suc k] else [])"
    and dist: "distinct ns" using assms(1) Suc.prems by (simp_all add: chain_def)
  have fresh: "ns ! k \<notin> set (take k ns)"
    using dist Suc.prems by (auto simp: in_set_conv_nth nth_eq_iff_index_eq)
  have ne: "ns ! k \<noteq> r" using Suc.prems assms(3) by (metis nth_mem)
  have "take (Suc k) ns = take k ns @ [ns ! k]" using Suc.prems by (rule take_Suc_conv_app_nth)
  with Suc.hyps(1) [of "Suc k"] Suc.hyps(2)
  have "visit_dependencies s (ns ! Suc k) r (take k ns @ [ns ! k]) (k + 1) = Inr ()"
    if "Suc k < length ns" using that by simp
  then show ?case
    using deps fresh ne Suc.prems assms(2) by (subst visit_dependencies.simps) simp
qed simp

lemma resolve_chain:
  assumes "chain s ns" and "r \<notin> set ns" and "length ns = Suc MAX_RECURSION_DEPTH"
  shows "k < length ns \<Longrightarrow> resolve_dependencies_recursive env s (r # take k ns) (Suc k) (ns ! k) ([], [])
    = Inl (Err RecursionLimitExceeded)"
proof (induction "length ns - k" arbitrary: k)
  case (Suc m)
  show ?case
  proof (cases "k = MAX_RECURSION_DEPTH")
    case True
    then show ?thesis by (subst resolve_dependencies_recursive.simps) simp
  next
    case False
    with Suc.prems assms(3) have k: "Suc k < length ns" "k < MAX_RECURSION_DEPTH" by simp_all
    have deps: "dependencies_key s (ns ! k) = [ns ! Suc k]"
      and dist: "distinct ns" using assms(1) k(1) by (simp_all add: chain_def)
    have fresh: "ns ! k \<notin> set (take k ns)"
      using dist Suc.prems by (auto simp: in_set_conv_nth nth_eq_iff_index_eq)
    have ne: "ns ! k \<noteq> r" using Suc.prems assms(2) by (metis nth_mem)
    have "take (Suc k) ns = take k ns @ [ns ! k]" using Suc.prems by (rule take_Suc_conv_app_nth)
    with Suc.hyps(1) [of "Suc k"] Suc.hyps(2) k(1)
    have "resolve_dependencies_recursive env s (r # take k ns @ [ns ! k]) (Suc (Suc k)) (ns ! Suc k) ([], [])
        = Inl (Err RecursionLimitExceeded)" by simp
    with deps fresh ne k(2) show ?thesis
      by (subst resolve_dependencies_recursive.simps) simp
  qed
qed simp

text \<open>
  The check of a new dependency admits one link more than \<open>resolve_with_dependencies\<close> can
  follow: on top of a chain of 11 routes the link is accepted, and from then on the new top cannot
  be resolved.
\<close>

theorem accepted_chain_unresolvable:
  assumes "chain s ns" and "length ns = 11" and "r \<notin> set ns"
    and "route_key s r \<noteq> None" and "route_key s (ns ! 0) \<noteq> None" and "dependencies_key s r = []"
    and "auth env c" and "admin_key s = Some c" and "\<not> unwrap_or (paused_key s) False"
  shows "\<exists>s'. set_route_dependency env c r (ns ! 0) s = Inr ((), s')
    \<and> resolve_with_dependencies env' r s' = Inl (Err RecursionLimitExceeded)"
proof -
  have len: "length ns = Suc MAX_RECURSION_DEPTH" "0 < length ns"
    using assms(2) by (simp_all add: MAX_RECURSION_DEPTH_def)
  have ne: "r \<noteq> ns ! 0" using assms(3) len(2) by (metis nth_mem)
  from visit_chain [OF assms(1) _ assms(3), of 0] len
  have ok: "visit_dependencies s (ns ! 0) r [] 0 = Inr ()" by simp
  let ?s = "s\<lparr>dependencies_key := (dependencies_key s)(r := [ns ! 0]),
      dependents_key := (dependents_key s)(ns ! 0 := dependents_key s (ns ! 0) @ [r])\<rparr>"
  have run: "set_route_dependency env c r (ns ! 0) s = Inr ((), ?s)"
    using assms(4-8) ne ok by (simp add: set_route_dependency_def validate_dependency_cycle_def reject_if_def)
  have "chain ?s ns" using assms(1,3) by (auto simp: chain_def)
  from resolve_chain [OF this assms(3) len(1) len(2), of env']
  have "resolve_dependencies_recursive env' ?s [r] 1 (ns ! 0) ([], []) = Inl (Err RecursionLimitExceeded)"
    by simp
  then have "resolve_dependencies_recursive env' ?s [] 0 r ([], []) = Inl (Err RecursionLimitExceeded)"
    by (subst resolve_dependencies_recursive.simps) simp
  then have "resolve_with_dependencies env' r ?s = Inl (Err RecursionLimitExceeded)"
    using assms(4,9) by (simp add: resolve_with_dependencies_def reject_if_def)
  with run show ?thesis by blast
qed

end
