(* ===== verification/Core_Demo.thy ===== *)
theory Core_Demo
  imports Core_Safety
begin

text \<open>
  Concrete states of router-core that satisfy the invariant, and the properties of Core_Routes and
  Core_Safety applied to them.
\<close>

subsection \<open>A table of three routes\<close>

text \<open>Every address signs, at ledger \<open>n\<close>.\<close>

definition core_env :: "u32 \<Rightarrow> env" where
  "core_env n = \<lparr>timestamp = 0, sequence = n, auth = (\<lambda>_. True)\<rparr>"

lemma core_env_sel [simp]: "sequence (core_env n) = n" "auth (core_env n) a"
  by (simp_all add: core_env_def)

text \<open>
  Three routes: ''a'' depends on ''b'' and ''c'', ''b'' on ''c''; ''b'' expires after ledger 20 and
  has the alias ''x''; ''c'' has a score and is the cached best route.
\<close>

abbreviation core_demo_entry :: "string \<Rightarrow> u32 option \<Rightarrow> route_entry" where
  "core_demo_entry n ex \<equiv> fresh_entry (Address 4) n (Address 9) ex"

definition core_demo :: router where
  "core_demo = router_empty\<lparr>admin_key := Some (Address 4),
     route_key := [''a'' \<mapsto> core_demo_entry ''a'' None, ''b'' \<mapsto> core_demo_entry ''b'' (Some 20),
       ''c'' \<mapsto> core_demo_entry ''c'' None],
     route_names := [''a'', ''b'', ''c''], route_count_key := Some 3, paused_key := Some False,
     total_routed_key := Some 0, alias_key := [''x'' \<mapsto> ''b''], alias_names := [''x''],
     score_key := [''c'' \<mapsto> \<lparr>liquidity_score = 50, fee_bps = 10, reliability_score = 40\<rparr>],
     dependencies_key := (\<lambda>_. [])(''a'' := [''b'', ''c''], ''b'' := [''c'']),
     dependents_key := (\<lambda>_. [])(''b'' := [''a''], ''c'' := [''a'', ''b'']),
     best_route_key := Some ''c''\<rparr>"

lemma core_demo_sel [simp]:
  "admin_key core_demo = Some (Address 4)"
  "route_key core_demo = [''a'' \<mapsto> core_demo_entry ''a'' None, ''b'' \<mapsto> core_demo_entry ''b'' (Some 20),
       ''c'' \<mapsto> core_demo_entry ''c'' None]"
  "route_names core_demo = [''a'', ''b'', ''c'']" "route_count_key core_demo = Some 3"
  "max_routes_key core_demo = None"
  "paused_key core_demo = Some False" "total_routed_key core_demo = Some 0"
  "alias_key core_demo = [''x'' \<mapsto> ''b'']" "alias_names core_demo = [''x'']"
  "score_key core_demo = [''c'' \<mapsto> \<lparr>liquidity_score = 50, fee_bps = 10, reliability_score = 40\<rparr>]"
  "metadata_key core_demo = Map.empty"
  "dependencies_key core_demo = (\<lambda>_. [])(''a'' := [''b'', ''c''], ''b'' := [''c''])"
  "dependents_key core_demo = (\<lambda>_. [])(''b'' := [''a''], ''c'' := [''a'', ''b''])"
  "best_route_key core_demo = Some ''c''" "scoring_weights_key core_demo = None"
  by (simp_all add: core_demo_def router_empty_def)

lemma core_demo_names [simp]: "valid_name ''a''" "valid_name ''b''" "valid_name ''c''" "valid_name ''x''" "valid_name ''d''"
  by (simp_all add: valid_name_def name_byte_def)

lemma core_demo_acyclic: "acyclic (dep_rel core_demo)"
proof (rule acyclic_subset [OF wf_acyclic])
  let ?f = "\<lambda>n. if n = ''a'' then 0 else if n = ''b'' then 1 else (2::nat)"
  show "wf (measure ?f)" by simp
qed (auto simp: dep_rel_def split: if_splits)

lemma core_demo_inv: "core_inv core_demo"
proof -
  have w: "scoring_weights_internal core_demo = DEFAULT_SCORING_WEIGHTS"
    by (simp add: scoring_weights_internal_def)
  have "routes_ok core_demo"
    by (auto simp: routes_ok_def ZERO_ADDRESS_def split: if_splits)
  moreover have "aliases_ok core_demo"
    by (auto simp: aliases_ok_def split: if_splits)
  moreover have "data_ok core_demo"
    by (auto simp: data_ok_def w default_weights_ok score_ok_def MAX_SCORE_VALUE_def)
  moreover have "deps_ok core_demo"
    using core_demo_acyclic by (auto simp: deps_ok_def split: if_splits)
  moreover have "cache_ok core_demo"
    by (auto simp: cache_ok_def rank_Some_iff w split: if_splits)
  ultimately show ?thesis by (simp add: core_inv_def)
qed

subsection \<open>Witnesses\<close>

text \<open>A run in which a route that expires later is the best one.\<close>

definition core_demo_txs :: "(env \<times> core_call) list" where
  "core_demo_txs = [(core_env 1, RInitialize (Address 4) None),
     (core_env 2, RRegisterTtl (Address 4) ''a'' (Address 9) (Some 20)),
     (core_env 3, RRegister (Address 4) ''b'' (Address 9) None),
     (core_env 4, RSetScore (Address 4) ''a'' \<lparr>liquidity_score = 50, fee_bps = 10, reliability_score = 40\<rparr>),
     (core_env 5, RSetScore (Address 4) ''b'' \<lparr>liquidity_score = 5, fee_bps = 10, reliability_score = 4\<rparr>)]"

lemma core_invariant_witness:
  "cache_for (live_route (core_env 6)) (run_txs core_step router_empty core_demo_txs)"
  using core_invariant [of core_demo_txs "core_env 6"] by (simp add: core_demo_txs_def)

lemma demo_resolution:
  "resolve_with_dependencies (core_env 5) ''a'' core_demo
     = Inr [(''c'', Address 9), (''b'', Address 9), (''a'', Address 9)]"
proof -
  have c: "resolve_dependencies_recursive (core_env 5) core_demo [''a'', ''b''] (Suc (Suc 0)) ''c'' ([], [])
      = Inr ([''c''], [(''c'', Address 9)])"
    by (subst resolve_dependencies_recursive.simps) (simp add: MAX_RECURSION_DEPTH_def is_route_expired_def)
  have b: "resolve_dependencies_recursive (core_env 5) core_demo [''a''] (Suc 0) ''b'' ([], [])
      = Inr ([''c'', ''b''], [(''c'', Address 9), (''b'', Address 9)])"
    using c by (subst resolve_dependencies_recursive.simps)
      (simp add: MAX_RECURSION_DEPTH_def is_route_expired_def)
  have c': "resolve_dependencies_recursive (core_env 5) core_demo [''a''] (Suc 0) ''c''
        ([''c'', ''b''], [(''c'', Address 9), (''b'', Address 9)])
      = Inr ([''c'', ''b''], [(''c'', Address 9), (''b'', Address 9)])"
    by (subst resolve_dependencies_recursive.simps) (simp add: MAX_RECURSION_DEPTH_def)
  have "resolve_dependencies_recursive (core_env 5) core_demo [] 0 ''a'' ([], [])
      = Inr ([''c'', ''b'', ''a''], [(''c'', Address 9), (''b'', Address 9), (''a'', Address 9)])"
    using b c' by (subst resolve_dependencies_recursive.simps)
      (simp add: MAX_RECURSION_DEPTH_def is_route_expired_def)
  then show ?thesis by (simp add: resolve_with_dependencies_def)
qed

lemma dependencies_resolved_witness:
  "resolve_with_dependencies (core_env 5) ''a'' core_demo
      = Inr [(''c'', Address 9), (''b'', Address 9), (''a'', Address 9)]
   \<and> {m. (''a'', m) \<in> (dep_rel core_demo)\<^sup>*} = {''a'', ''b'', ''c''}"
proof -
  from dependencies_resolved [OF core_demo_inv demo_resolution]
  have "set (map fst [(''c'', Address 9), (''b'', Address 9), (''a'', Address 9)])
      = {m. (''a'', m) \<in> (dep_rel core_demo)\<^sup>*}" by blast
  then have "{m. (''a'', m) \<in> (dep_rel core_demo)\<^sup>*} = {''a'', ''b'', ''c''}" by auto
  with demo_resolution show ?thesis by blast
qed

lemma dependencies_failures_witness:
  "\<exists>e m en. resolve_with_dependencies (core_env 30) ''a'' core_demo = Inl (Err RouteExpired)
     \<and> (''a'', m) \<in> (dep_rel core_demo)\<^sup>* \<and> route_key core_demo m = Some en \<and> is_route_expired (core_env 30) en"
proof -
  have c: "resolve_dependencies_recursive (core_env 30) core_demo [''a'', ''b''] (Suc (Suc 0)) ''c'' ([], [])
      = Inr ([''c''], [(''c'', Address 9)])"
    by (subst resolve_dependencies_recursive.simps) (simp add: MAX_RECURSION_DEPTH_def is_route_expired_def)
  have b: "resolve_dependencies_recursive (core_env 30) core_demo [''a''] (Suc 0) ''b'' ([], [])
      = Inl (Err RouteExpired)"
    using c by (subst resolve_dependencies_recursive.simps)
      (simp add: MAX_RECURSION_DEPTH_def is_route_expired_def)
  have "resolve_dependencies_recursive (core_env 30) core_demo [] 0 ''a'' ([], []) = Inl (Err RouteExpired)"
    using b by (subst resolve_dependencies_recursive.simps) (simp add: MAX_RECURSION_DEPTH_def)
  then have run: "resolve_with_dependencies (core_env 30) ''a'' core_demo = Inl (Err RouteExpired)"
    by (simp add: resolve_with_dependencies_def)
  from dependencies_failures [OF core_demo_inv, where n = "''a''" and env = "core_env 30"] run show ?thesis by auto
qed

lemma demo_best [simp]: "cached_best (core_env n) core_demo = Some ''c''"
  by (simp add: cached_best_def is_route_expired_def)

lemma resolve_any_name_witness:
  "\<forall>name. \<exists>s'. resolve (core_env 5) name core_demo = Inr (Address 9, s')"
  using resolve_any_name [OF core_demo_inv, of "core_env 5" "''c''"] by (simp add: total_routed_def)

lemma resolve_selects_witness:
  "\<exists>s'. resolve (core_env 5) ''x'' core_demo = Inr (Address 9, s') \<and> unat (total_routed s') = 1
     \<and> selected_score core_demo ''c'' = Some 89"
proof -
  obtain s' where s': "resolve (core_env 5) ''x'' core_demo = Inr (Address 9, s')"
    by (simp add: resolve_def resolve_at_def Let_def is_route_expired_def checked_add_def)
  from resolve_selects [OF core_demo_inv this] s' show ?thesis
    by (auto simp: total_routed_def selected_score_def rank_def scoring_weights_internal_def
        DEFAULT_SCORING_WEIGHTS_def exact_score_def)
qed

lemma batch_resolve_pointwise_witness:
  "\<exists>s'. batch_resolve (core_env 5) [''a'', ''no such route''] core_demo
      = Inr ([Resolved (Address 9), Resolved (Address 9)], s') \<and> only_counted core_demo s'"
  using batch_resolve_pointwise [of core_demo "[''a'', ''no such route'']" "core_env 5"]
  by (simp add: total_routed_def resolve_def resolve_at_def Let_def is_route_expired_def checked_add_def)

lemma register_batch_all_or_nothing_witness:
  "\<exists>r s'. register_routes_batch (core_env 5) (Address 4)
      [\<lparr>ri_name = ''d'', ri_address = Address 8\<rparr>, \<lparr>ri_name = ''a'', ri_address = Address 8\<rparr>] True core_demo
      = Inr (r, s') \<and> s' = core_demo \<and> failures r \<noteq> []"
proof -
  from register_batch_all_or_nothing [of "core_env 5" "Address 4" core_demo
      "[\<lparr>ri_name = ''d'', ri_address = Address 8\<rparr>, \<lparr>ri_name = ''a'', ri_address = Address 8\<rparr>]"]
  obtain r s' where r: "register_routes_batch (core_env 5) (Address 4)
      [\<lparr>ri_name = ''d'', ri_address = Address 8\<rparr>, \<lparr>ri_name = ''a'', ri_address = Address 8\<rparr>] True core_demo
      = Inr (r, s')" "s' = core_demo \<and> failures r \<noteq> [] \<or> failures r = []"
    by auto
  moreover have "failures r \<noteq> []"
    using r(1) by (auto simp: register_routes_batch_def validate_route_name_def name_byte_def reject_if_def
        is_zero_address_def ZERO_ADDRESS_def checked_add_def DEFAULT_MAX_ROUTES_def split: if_splits)
  ultimately show ?thesis by blast
qed

lemma remove_batch_all_or_nothing_witness:
  "\<exists>r s'. remove_routes_batch (core_env 5) (Address 4) [''a''] True core_demo = Inr (r, s')
     \<and> failures r = [] \<and> dom (route_key s') = {''b'', ''c''}"
proof -
  from remove_batch_all_or_nothing [OF core_demo_inv, of "core_env 5" "Address 4" "[''a'']"]
  obtain r s' where r: "remove_routes_batch (core_env 5) (Address 4) [''a''] True core_demo = Inr (r, s')"
    "failures r = [] \<and> route_key s' = (\<lambda>n. if n \<in> set [''a''] then None else route_key core_demo n)
      \<or> failures r \<noteq> []"
    by auto
  moreover have "failures r = []"
    using r(1) by (auto simp: remove_routes_batch_def route_has_dependents_def remove_route_internal_iff
        res_simps split: if_splits)
  ultimately show ?thesis by (auto split: if_splits)
qed

lemma register_remove_roundtrip_witness:
  "\<exists>s1 s2 b ev. register_route (core_env 5) (Address 4) ''d'' (Address 8) None core_demo = Inr ((), s1)
     \<and> remove_route (core_env 6) (Address 4) ''d'' s1 = Inr ((), s2)
     \<and> s2 = core_demo\<lparr>route_count_key := Some (route_count core_demo), best_route_key := b, events := ev\<rparr>"
proof -
  obtain s1 where st: "store_route (fresh_entry (Address 4) ''d'' (Address 8) None) None 3 core_demo = Inr s1"
    by (simp add: store_route_def Let_def checked_add_def)
  then have reg: "register_route (core_env 5) (Address 4) ''d'' (Address 8) None core_demo = Inr ((), s1)"
    by (simp add: register_route_iff register_route_internal_iff validate_some_metadata_def
        ZERO_ADDRESS_def DEFAULT_MAX_ROUTES_def)
  from st have s1: "route_key s1 ''d'' \<noteq> None" "dependents_key s1 ''d'' = []" "admin_key s1 = Some (Address 4)"
    by (auto elim!: store_route_Inr)
  from reg have "register_route_internal (Address 4) ''d'' (Address 8) None None core_demo = Inr s1"
    by (simp add: register_route_iff)
  from register_internal_inv [OF core_demo_inv _ this] have "core_inv s1" by simp
  then have "tables_ok s1" by (simp add: core_inv_tables)
  from tables_recompute(1) [OF tables_remove [OF this s1(1,2)]] obtain s3 where
    "recompute_best_route (remove_aliases_for_route ''d'' (drop_route ''d'' s1)) = Inr s3" by blast
  with s1 have rem: "remove_route (core_env 6) (Address 4) ''d'' s1
      = Inr ((), publish ''route_removed'' (VStr ''d'') s3)" by (simp add: remove_route_iff)
  from register_remove_roundtrip [OF core_demo_inv reg rem] reg rem show ?thesis by blast
qed

lemma pages_are_slices_witness:
  "get_routes_paginated (core_env 30) 1 4294967295 core_demo = [''c'']"
proof -
  have "get_all_routes (core_env 30) core_demo = [''a'', ''c'']"
    by (simp add: get_all_routes_def name_expired_def is_route_expired_def)
  then show ?thesis
    using pages_are_slices [OF core_demo_inv, of "core_env 30" 1 4294967295] by simp
qed

lemma stats_partition_witness:
  "unat (total_routes (get_stats (core_env 30) core_demo)) = 3
   \<and> unat (active_routes (get_stats (core_env 30) core_demo))
     + unat (paused_routes (get_stats (core_env 30) core_demo))
     + unat (expired_routes (get_stats (core_env 30) core_demo)) = 3"
  using stats_partition [OF core_demo_inv, of "core_env 30"] by (simp add: route_count_def)

definition core_setup :: "(env \<times> core_call) list" where
  "core_setup = [(core_env 1, RInitialize (Address 4) None)]"

lemma core_setup_admin: "admin_key (run_txs core_step router_empty core_setup) = Some (Address 4)"
  by (simp add: core_setup_def core_initialize_def router_empty_def returns_def DEFAULT_MAX_ROUTES_def)

lemma core_needs_admin_witness:
  "\<exists>n ev. run_txs core_step router_empty
      (core_setup @ [(core_env 2\<lparr>auth := (\<lambda>a. a = Address 5)\<rparr>, RSetPaused (Address 5) True)])
    = (run_txs core_step router_empty core_setup)\<lparr>total_routed_key := n, events := ev\<rparr>"
  by (rule core_needs_admin [OF core_setup_admin]) simp

lemma best_route_choice_witness:
  "\<exists>r s'. get_best_route (core_env 5) [''a'', ''c''] 90 (Some ''a'') core_demo = Inr (r, s')
     \<and> only_counted core_demo s' \<and> r = Some ''a''"
proof -
  have rk: "candidate_rank (core_env 5) core_demo = [''c'' \<mapsto> 89]"
    by (auto simp: rank_def is_route_expired_def exact_score_def DEFAULT_SCORING_WEIGHTS_def fun_eq_iff)
  from best_route_choice [OF core_demo_inv, of "core_env 5" "[''a'', ''c'']" 90 "Some ''a''"]
  obtain r s' where "get_best_route (core_env 5) [''a'', ''c''] 90 (Some ''a'') core_demo = Inr (r, s')"
    "only_counted core_demo s'"
    "(\<exists>n c. [''c'' \<mapsto> 89] n = Some c \<and> r = (if c \<ge> sint (90 :: i64) then Some n else Some ''a''))
      \<or> r = (if sint (90 :: i64) = - (2 ^ 63) then None else Some ''a'')"
    unfolding rk by auto
  then show ?thesis by (auto split: if_splits)
qed

text \<open>A chain of eleven routes below a twelfth, each pointing to the next.\<close>

definition ladder_names :: "string list" where
  "ladder_names = [''b'', ''c'', ''d'', ''e'', ''f'', ''g'', ''h'', ''i'', ''j'', ''k'', ''l'']"

definition core_ladder :: router where
  "core_ladder = router_empty\<lparr>admin_key := Some (Address 4),
     route_key := (\<lambda>n. if n \<in> set (''a'' # ladder_names) then Some (core_demo_entry n None) else None),
     dependencies_key := (\<lambda>n. case map_of (zip ladder_names (tl ladder_names)) n of
       Some d \<Rightarrow> [d] | None \<Rightarrow> [])\<rparr>"

lemma core_ladder_chain: "chain core_ladder ladder_names"
proof -
  have "\<forall>k\<in>set [0..<11]. dependencies_key core_ladder (ladder_names ! k)
      = (if Suc k < length ladder_names then [ladder_names ! Suc k] else [])"
    by (simp add: upt_rec core_ladder_def ladder_names_def)
  then show ?thesis by (simp add: chain_def ladder_names_def)
qed

lemma accepted_chain_unresolvable_witness:
  "\<exists>s'. set_route_dependency (core_env 5) (Address 4) ''a'' ''b'' core_ladder = Inr ((), s')
     \<and> resolve_with_dependencies (core_env 6) ''a'' s' = Inl (Err RecursionLimitExceeded)"
  using accepted_chain_unresolvable [OF core_ladder_chain, of "''a''" "core_env 5" "Address 4" "core_env 6"]
  by (simp add: core_ladder_def ladder_names_def router_empty_def)

lemma core_never_panics_witness:
  "(\<exists>s'. core_step (core_env 5) (RSetPaused (Address 4) True)
       (run_txs core_step router_empty core_setup) = Inr s')
   \<or> (\<exists>e. core_step (core_env 5) (RSetPaused (Address 4) True)
       (run_txs core_step router_empty core_setup) = Inl (Err e))"
proof (rule core_never_panics [OF refl])
  show "unat (total_routed (run_txs core_step router_empty core_setup))
      + resolutions (RSetPaused (Address 4) True) + 1 < 2 ^ 64"
    by (simp add: core_setup_def core_initialize_def router_empty_def returns_def DEFAULT_MAX_ROUTES_def
        total_routed_def)
qed simp

end
