(* ===== verification/Multicall.thy ===== *)
theory Multicall
  imports Common
begin

text \<open>
  The contract router-multicall (\<open>contracts/router-multicall/src/lib.rs\<close>): batches of
  cross-contract calls. What a call does is outside the repository: it is the parameter
  \<open>invoke\<close>, which maps the target, the function, the arguments and the ledger (the rest of the
  world, of any type, and this contract's own storage, which a callee could change by calling
  back) to whether the call succeeded and the ledger after it.
\<close>

subsection \<open>State\<close>

datatype multicall_error = AlreadyInitialized | NotInitialized | Unauthorized | BatchTooLarge
  | EmptyBatch | RequiredCallFailed | InvalidConfig | Reentrancy | GasLimitExceeded | ArgsTooLarge

record call_descriptor =
  cd_target :: address
  cd_function :: symbol
  required :: bool
  instruction_budget :: "u64 option"
  cd_args :: "val list"

record multicall = contract +
  max_batch_size_key :: "u32 option"
  total_batches_key :: "u64 option"
  executing :: "bool option"
  batch_result_key :: "u64 \<Rightarrow> u32 \<Rightarrow> call_result option"
  batch_call_count :: "u64 \<Rightarrow> u32 option"

definition multicall_empty :: multicall where
  "multicall_empty = \<lparr>admin_key = None, events = [], max_batch_size_key = None,
     total_batches_key = None, executing = None, batch_result_key = (\<lambda>_. Map.empty),
     batch_call_count = Map.empty\<rparr>"

definition MAX_ARGS_PER_CALL :: nat where
  "MAX_ARGS_PER_CALL = 20"

definition MAX_STORED_BATCHES :: u64 where
  "MAX_STORED_BATCHES = 50"

type_synonym 'w ledger = "('w, multicall) ledger_of"

type_synonym 'w invoke = "('w, multicall) invoke_of"

subsection \<open>Configuration\<close>

definition multicall_initialize ::
    "address \<Rightarrow> u32 \<Rightarrow> multicall \<Rightarrow> (multicall_error, unit, multicall) tx" where
  "multicall_initialize admin max_batch_size s =
     bindr (reject_if (admin_key s \<noteq> None) AlreadyInitialized) (\<lambda>_.
     bindr (reject_if (max_batch_size = 0) InvalidConfig) (\<lambda>_.
     Inr ((), publish ''initialized'' (VTuple [VAddr admin, VU32 max_batch_size])
                (s\<lparr>admin_key := Some admin, max_batch_size_key := Some max_batch_size,
                   total_batches_key := Some 0\<rparr>))))"

definition set_max_batch_size ::
    "env \<Rightarrow> address \<Rightarrow> u32 \<Rightarrow> multicall \<Rightarrow> (multicall_error, unit, multicall) tx" where
  "set_max_batch_size env caller max_batch_size s =
     bindr (require_auth env caller) (\<lambda>_.
     bindr (require_admin caller NotInitialized Unauthorized s) (\<lambda>_.
     bindr (reject_if (max_batch_size = 0) InvalidConfig) (\<lambda>_.
     let old_max = unwrap_or (max_batch_size_key s) 0
     in Inr ((), publish ''max_batch_size_updated'' (VTuple [VU32 old_max, VU32 max_batch_size])
                   (s\<lparr>max_batch_size_key := Some max_batch_size\<rparr>)))))"

definition multicall_transfer_admin ::
    "env \<Rightarrow> address \<Rightarrow> address \<Rightarrow> multicall \<Rightarrow> (multicall_error, unit, multicall) tx" where
  "multicall_transfer_admin env current new_admin s =
     bindr (require_auth env current) (\<lambda>_.
     bindr (require_admin current NotInitialized Unauthorized s) (\<lambda>_.
     Inr ((), admin_transfer_complete current new_admin s)))"

subsection \<open>A batch\<close>

text \<open>The pre-flight checks; the declared budgets are summed only under a limit.\<close>

fun preflight ::
    "u64 option \<Rightarrow> u64 \<Rightarrow> call_descriptor list \<Rightarrow> (multicall_error, unit) res" where
  "preflight max_total_gas cumulative [] = Inr ()"
| "preflight max_total_gas cumulative (call # calls) =
     bindr (reject_if (length (cd_args call) > MAX_ARGS_PER_CALL) ArgsTooLarge) (\<lambda>_.
     case (max_total_gas, instruction_budget call) of
       (Some gas_limit, Some budget) \<Rightarrow>
         (let cumulative' = saturating_add cumulative budget
          in bindr (reject_if (cumulative' > gas_limit) GasLimitExceeded) (\<lambda>_.
             preflight max_total_gas cumulative' calls))
     | _ \<Rightarrow> preflight max_total_gas cumulative calls)"

definition failure_reason :: "call_descriptor \<Rightarrow> batch_item_error" where
  "failure_reason call = Custom (if instruction_budget call \<noteq> None
     then FAILURE_REASON_BUDGET_EXCEEDED else FAILURE_REASON_INVOKE_FAILED)"

text \<open>
  The call loop. \<open>i\<close> is \<open>call_index\<close>: at most the length of the batch, which fits a
  \<open>u32\<close>. The result holds the number of calls processed.
\<close>

fun call_loop ::
    "'w invoke \<Rightarrow> address \<Rightarrow> u64 \<Rightarrow> bool \<Rightarrow> bool \<Rightarrow> bool \<Rightarrow> nat \<Rightarrow> call_descriptor list
      \<Rightarrow> 'w ledger \<Rightarrow> batch_call_result
      \<Rightarrow> (multicall_error, nat \<times> batch_call_result \<times> 'w ledger) res" where
  "call_loop invoke caller batch_id simulate store_results fail_fast i [] l r = Inr (i, r, l)"
| "call_loop invoke caller batch_id simulate store_results fail_fast i (call # calls) l r =
     (case invoke (cd_target call) (cd_function call) (cd_args call) l of
        (success, w, s) \<Rightarrow>
          (let result = \<lparr>cr_target = cd_target call, cr_function = cd_function call,
                         cr_success = success\<rparr>;
               s1 = (if store_results \<and> \<not> simulate then
                       s\<lparr>batch_result_key := (batch_result_key s)(batch_id :=
                          (batch_result_key s batch_id)(of_nat i \<mapsto> result))\<rparr>
                     else s);
               r1 = (if success then record_call_success (of_nat i) result r
                     else record_call_failure (of_nat i) (failure_reason call) r);
               s2 = publish ''call_result''
                      (VTuple [VAddr caller, VAddr (cd_target call), VStr (cd_function call),
                               VBool success, VU32 (of_nat i), VBool simulate]) s1
           in if \<not> success \<and> required call then Inl (Err RequiredCallFailed)
              else if \<not> success \<and> fail_fast then Inr (Suc i, r1, w, s2)
              else call_loop invoke caller batch_id simulate store_results fail_fast (Suc i) calls
                     (w, s2) r1))"

text \<open>Removal of the results of the batch that leaves the window of stored batches.\<close>

definition prune_stale :: "u64 \<Rightarrow> multicall \<Rightarrow> multicall" where
  "prune_stale new_batch_id s =
     (if new_batch_id > MAX_STORED_BATCHES then
        (let stale_id = new_batch_id - MAX_STORED_BATCHES - 1
         in case batch_call_count s stale_id of
              None \<Rightarrow> s
            | Some stale_count \<Rightarrow>
                s\<lparr>batch_result_key := (batch_result_key s)(stale_id :=
                    fold (\<lambda>i m. m(of_nat i := None)) [0..<unat stale_count]
                      (batch_result_key s stale_id)),
                  batch_call_count := (batch_call_count s)(stale_id := None)\<rparr>)
      else s)"

definition execute_batch ::
    "'w invoke \<Rightarrow> env \<Rightarrow> address \<Rightarrow> call_descriptor list \<Rightarrow> bool \<Rightarrow> bool \<Rightarrow> bool \<Rightarrow> u64 option
      \<Rightarrow> 'w ledger \<Rightarrow> (multicall_error, batch_call_result, 'w ledger) tx" where
  "execute_batch invoke env caller calls simulate store_results fail_fast max_total_gas l =
     (case l of (w, s) \<Rightarrow>
     bindr (require_auth env caller) (\<lambda>_.
     bindr (reject_if (unwrap_or (executing s) False) Reentrancy) (\<lambda>_.
     let s1 = s\<lparr>executing := Some True\<rparr> in
     bindr (ok_or (max_batch_size_key s1) NotInitialized) (\<lambda>max_size.
     bindr (reject_if (calls = []) EmptyBatch) (\<lambda>_.
     bindr (reject_if (length calls > unat max_size) BatchTooLarge) (\<lambda>_.
     bindr (preflight max_total_gas 0 calls) (\<lambda>_.
     let batch_id = unwrap_or (total_batches_key s1) 0 in
     bindr (call_loop invoke caller batch_id simulate store_results fail_fast 0 calls (w, s1)
              batch_call_new) (\<lambda>(call_index, result, w', s2).
     bindr (if simulate then Inr s2
            else bindr (expect (checked_add batch_id 1)) (\<lambda>new_batch_id.
              let s3 = s2\<lparr>total_batches_key := Some new_batch_id\<rparr>;
                  s4 = (if store_results then
                          s3\<lparr>batch_call_count := (batch_call_count s3)(batch_id \<mapsto> of_nat call_index)\<rparr>
                        else s3)
              in Inr (prune_stale new_batch_id s4))) (\<lambda>s5.
     let s6 = s5\<lparr>executing := None\<rparr>;
         succeeded = of_nat (length (call_successes result));
         failed = of_nat (length (call_failures result))
     in Inr (result, w', publish ''batch_executed''
               (VTuple [VAddr caller, VU64 batch_id, VU32 succeeded, VU32 failed,
                        VU32 (of_nat call_index), VBool simulate]) s6))))))))))"

subsection \<open>Views\<close>

definition total_batches :: "multicall \<Rightarrow> (multicall_error, u64) res" where
  "total_batches s = ok_or (total_batches_key s) NotInitialized"

definition max_batch_size :: "multicall \<Rightarrow> (multicall_error, u32) res" where
  "max_batch_size s = ok_or (max_batch_size_key s) NotInitialized"

definition multicall_admin :: "multicall \<Rightarrow> (multicall_error, address) res" where
  "multicall_admin s = ok_or (admin_key s) NotInitialized"

definition get_batch_result ::
    "u64 \<Rightarrow> u32 \<Rightarrow> multicall \<Rightarrow> (multicall_error, call_result option) res" where
  "get_batch_result batch_id call_index s = Inr (batch_result_key s batch_id call_index)"

text \<open>
  The reading loop stops at the first missing index; the increment of \<open>call_index\<close> traps on
  overflow, which bounds the recursion.
\<close>

function read_results ::
    "multicall \<Rightarrow> u64 \<Rightarrow> u32 \<Rightarrow> call_result list \<Rightarrow> (multicall_error, call_result list) res" where
  "read_results s batch_id call_index results =
     (case batch_result_key s batch_id call_index of
        None \<Rightarrow> Inr results
      | Some result \<Rightarrow>
          (case checked_add call_index 1 of
             None \<Rightarrow> Inl Trap
           | Some next \<Rightarrow> read_results s batch_id next (results @ [result])))"
  by pat_completeness auto

termination
proof (relation "measure (\<lambda>(s, b, i, r). 2 ^ 32 - unat i)")
  fix s :: multicall and b :: u64 and i :: u32 and r :: "call_result list"
    and x :: call_result and j :: u32
  assume "checked_add i 1 = Some j"
  then have "unat j = unat i + 1" by (simp add: checked_add_Some_iff)
  moreover have "unat j < 2 ^ LENGTH(32)" by (rule unsigned_less)
  ultimately show "((s, b, j, r @ [x]), s, b, i, r) \<in> measure (\<lambda>(s, b, i, r). 2 ^ 32 - unat i)" by simp
qed simp

declare read_results.simps [simp del]

definition get_batch_results ::
    "u64 \<Rightarrow> multicall \<Rightarrow> (multicall_error, call_result list) res" where
  "get_batch_results batch_id s = read_results s batch_id 0 []"

subsection \<open>The contract as a machine\<close>

datatype multicall_call = UInitialize address u32
  | UExecuteBatch address "call_descriptor list" bool bool bool "u64 option"
  | USetMaxBatchSize address u32
  | UTransferAdmin address address

definition on_contract ::
    "(multicall \<Rightarrow> (multicall_error, unit, multicall) tx) \<Rightarrow> 'w ledger
      \<Rightarrow> (multicall_error, 'w ledger) res" where
  "on_contract f l = (case l of (w, s) \<Rightarrow> bindr (f s) (\<lambda>(_, s'). Inr (w, s')))"

fun multicall_step ::
    "'w invoke \<Rightarrow> env \<Rightarrow> multicall_call \<Rightarrow> 'w ledger \<Rightarrow> (multicall_error, 'w ledger) res" where
  "multicall_step invoke env (UInitialize a n) l = on_contract (multicall_initialize a n) l"
| "multicall_step invoke env (UExecuteBatch c calls sim store ff gas) l =
     returns (execute_batch invoke env c calls sim store ff gas l)"
| "multicall_step invoke env (USetMaxBatchSize c n) l = on_contract (set_max_batch_size env c n) l"
| "multicall_step invoke env (UTransferAdmin c n) l =
     on_contract (multicall_transfer_admin env c n) l"

end
