(* ===== verification/Multicall_Props.thy ===== *)
theory Multicall_Props
  imports Multicall
begin

text \<open>
  Correctness of router-multicall: what a batch reports against what its calls did, the reentrancy
  guard against callees that call back, the window of stored results, and reading them back.
\<close>

subsection \<open>Writers, field by field\<close>

lemma publish_multicall [simp]:
  "max_batch_size_key (publish t d s) = max_batch_size_key s"
  "total_batches_key (publish t d s) = total_batches_key s"
  "executing (publish t d s) = executing s"
  "batch_result_key (publish t d s) = batch_result_key s"
  "batch_call_count (publish t d s) = batch_call_count s"
  by (simp_all add: publish_def)

lemma admin_transfer_multicall [simp]:
  "max_batch_size_key (admin_transfer_complete c n s) = max_batch_size_key s"
  "total_batches_key (admin_transfer_complete c n s) = total_batches_key s"
  "executing (admin_transfer_complete c n s) = executing s"
  "batch_result_key (admin_transfer_complete c n s) = batch_result_key s"
  "batch_call_count (admin_transfer_complete c n s) = batch_call_count s"
  by (simp_all add: admin_transfer_complete_def)

lemma record_call_sel [simp]:
  "call_successes (record_call_success i v r) = call_successes r @ [\<lparr>bs_index = i, bs_result = v\<rparr>]"
  "call_failures (record_call_success i v r) = call_failures r"
  "call_successes (record_call_failure i e r) = call_successes r"
  "call_failures (record_call_failure i e r) = call_failures r @ [\<lparr>bf_index = i, bf_error = e\<rparr>]"
  "call_successes batch_call_new = []" "call_failures batch_call_new = []"
  by (simp_all add: record_call_success_def record_call_failure_def batch_call_new_def)

lemma on_contract_Inr_iff [res_simps]:
  "on_contract f l = Inr l' \<longleftrightarrow> (\<exists>s'. f (snd l) = Inr ((), s') \<and> l' = (fst l, s'))"
  by (cases l) (auto simp: on_contract_def res_simps)

lemma multicall_initialize_iff:
  "multicall_initialize a n s = Inr ((), s') \<longleftrightarrow> admin_key s = None \<and> n \<noteq> 0
     \<and> s' = publish ''initialized'' (VTuple [VAddr a, VU32 n])
         (s\<lparr>admin_key := Some a, max_batch_size_key := Some n, total_batches_key := Some 0\<rparr>)"
  by (auto simp: multicall_initialize_def res_simps)

lemma set_max_batch_size_iff:
  "set_max_batch_size env c n s = Inr ((), s') \<longleftrightarrow> auth env c \<and> admin_key s = Some c \<and> n \<noteq> 0
     \<and> s' = publish ''max_batch_size_updated''
         (VTuple [VU32 (unwrap_or (max_batch_size_key s) 0), VU32 n]) (s\<lparr>max_batch_size_key := Some n\<rparr>)"
  by (auto simp: set_max_batch_size_def res_simps Let_def)

lemma multicall_transfer_admin_iff:
  "multicall_transfer_admin env c n s = Inr ((), s') \<longleftrightarrow> auth env c \<and> admin_key s = Some c
     \<and> s' = admin_transfer_complete c n s"
  by (auto simp: multicall_transfer_admin_def res_simps)

lemma unat_of_nat_u32: "n < 2 ^ 32 \<Longrightarrow> unat (of_nat n :: u32) = n"
  by (simp add: unsigned_of_nat take_bit_nat_eq_self)

subsection \<open>Calls back into the contract\<close>

text \<open>
  What code outside this contract can make of its storage: any sequence of successful entry-point
  calls, by anyone, in any state of the world.
\<close>

inductive touched :: "'w invoke \<Rightarrow> multicall \<Rightarrow> multicall \<Rightarrow> bool" for invoke where
  untouched: "touched invoke s s"
| called: "touched invoke s s' \<Longrightarrow> multicall_step invoke env c (w, s') = Inr (w', s'')
     \<Longrightarrow> touched invoke s s''"

text \<open>The rule of the host: only a contract's own code writes its storage.\<close>

definition host_law :: "'w invoke \<Rightarrow> bool" where
  "host_law invoke \<longleftrightarrow> (\<forall>t f args w s b w' s'.
     invoke t f args (w, s) = (b, (w', s')) \<longrightarrow> touched invoke s s')"

text \<open>What a running batch relies on.\<close>

definition same_batches :: "multicall \<Rightarrow> multicall \<Rightarrow> bool" where
  "same_batches s s' \<longleftrightarrow> executing s' = executing s \<and> total_batches_key s' = total_batches_key s
     \<and> batch_result_key s' = batch_result_key s \<and> batch_call_count s' = batch_call_count s"

definition config_ok :: "multicall \<Rightarrow> bool" where
  "config_ok s \<longleftrightarrow> (max_batch_size_key s = None \<longleftrightarrow> admin_key s = None)
     \<and> (total_batches_key s = None \<longleftrightarrow> admin_key s = None) \<and> max_batch_size_key s \<noteq> Some 0"

lemma execute_batch_guarded:
  "executing s = Some True \<Longrightarrow> execute_batch invoke env c calls sim store ff gas (w, s) \<noteq> Inr x"
  by (auto simp: execute_batch_def res_simps)

lemma touched_running:
  assumes "touched invoke s s'" and "executing s = Some True" and "admin_key s \<noteq> None" and "config_ok s"
  shows "same_batches s s' \<and> admin_key s' \<noteq> None \<and> config_ok s'"
  using assms
proof (induction rule: touched.induct)
  case untouched
  then show ?case by (simp add: same_batches_def)
next
  case (called s s' env c w w' s'')
  then have s': "same_batches s s'" "admin_key s' \<noteq> None" "config_ok s'" by blast+
  then have run: "executing s' = Some True" using called.prems(1) by (simp add: same_batches_def)
  show ?case
  proof (cases c)
    case (UInitialize a n)
    with called.hyps(2) s'(2) show ?thesis by (simp add: res_simps multicall_initialize_iff)
  next
    case (UExecuteBatch a calls sim store ff gas)
    with called.hyps(2) execute_batch_guarded [OF run, of invoke] show ?thesis by (auto simp: returns_Inr_iff)
  next
    case (USetMaxBatchSize a n)
    with called.hyps(2) s' show ?thesis
      by (auto simp: res_simps set_max_batch_size_iff same_batches_def config_ok_def)
  next
    case (UTransferAdmin a n)
    with called.hyps(2) s' show ?thesis
      by (auto simp: res_simps multicall_transfer_admin_iff same_batches_def config_ok_def)
  qed
qed

subsection \<open>The call loop\<close>

definition item_result :: "call_descriptor \<Rightarrow> bool \<Rightarrow> call_result" where
  "item_result call b = \<lparr>cr_target = cd_target call, cr_function = cd_function call, cr_success = b\<rparr>"

text \<open>The outcomes a batch can have, call by call.\<close>

fun outcomes_ok :: "bool \<Rightarrow> call_descriptor list \<Rightarrow> bool list \<Rightarrow> bool" where
  "outcomes_ok ff [] bs \<longleftrightarrow> bs = []"
| "outcomes_ok ff (c # cs) [] \<longleftrightarrow> False"
| "outcomes_ok ff (c # cs) (b # bs) \<longleftrightarrow>
     (if b then outcomes_ok ff cs bs else \<not> required c \<and> (if ff then bs = [] else outcomes_ok ff cs bs))"

definition success_entries :: "nat \<Rightarrow> call_descriptor list \<Rightarrow> bool list \<Rightarrow> batch_call_success list" where
  "success_entries i cs bs = map (\<lambda>((j, c), b). \<lparr>bs_index = of_nat j, bs_result = item_result c True\<rparr>)
     (filter snd (zip (enumerate i cs) bs))"

definition failure_entries :: "nat \<Rightarrow> call_descriptor list \<Rightarrow> bool list \<Rightarrow> batch_failure list" where
  "failure_entries i cs bs = map (\<lambda>((j, c), b). \<lparr>bf_index = of_nat j, bf_error = failure_reason c\<rparr>)
     (filter (\<lambda>x. \<not> snd x) (zip (enumerate i cs) bs))"

lemma entries_simps [simp]:
  "success_entries i cs [] = []" "failure_entries i cs [] = []"
  "success_entries i (c # cs) (b # bs) = (if b then
     \<lparr>bs_index = of_nat i, bs_result = item_result c True\<rparr> # success_entries (Suc i) cs bs
     else success_entries (Suc i) cs bs)"
  "failure_entries i (c # cs) (b # bs) = (if b then failure_entries (Suc i) cs bs
     else \<lparr>bf_index = of_nat i, bf_error = failure_reason c\<rparr> # failure_entries (Suc i) cs bs)"
  by (simp_all add: success_entries_def failure_entries_def)

text \<open>The callee gave this answer, in some state of the ledger.\<close>

definition answered :: "'w invoke \<Rightarrow> call_descriptor \<Rightarrow> bool \<Rightarrow> bool" where
  "answered invoke c b \<longleftrightarrow>
     (\<exists>l l'. invoke (cd_target c) (cd_function c) (cd_args c) l = (b, l'))"

text \<open>What one iteration leaves behind.\<close>

definition after_call ::
    "address \<Rightarrow> u64 \<Rightarrow> bool \<Rightarrow> bool \<Rightarrow> nat \<Rightarrow> call_descriptor \<Rightarrow> bool \<Rightarrow> multicall \<Rightarrow> multicall" where
  "after_call caller bid sim store i c b s = publish ''call_result''
     (VTuple [VAddr caller, VAddr (cd_target c), VStr (cd_function c), VBool b, VU32 (of_nat i), VBool sim])
     (if store \<and> \<not> sim then s\<lparr>batch_result_key := (batch_result_key s)(bid :=
        (batch_result_key s bid)(of_nat i \<mapsto> item_result c b))\<rparr> else s)"

lemma after_call_sel [simp]:
  "executing (after_call a bid sim store i c b s) = executing s"
  "admin_key (after_call a bid sim store i c b s) = admin_key s"
  "max_batch_size_key (after_call a bid sim store i c b s) = max_batch_size_key s"
  "total_batches_key (after_call a bid sim store i c b s) = total_batches_key s"
  "batch_call_count (after_call a bid sim store i c b s) = batch_call_count s"
  "batch_result_key (after_call a bid sim store i c b s) =
     (if store \<and> \<not> sim then (batch_result_key s)(bid :=
        (batch_result_key s bid)(of_nat i \<mapsto> item_result c b)) else batch_result_key s)"
  by (simp_all add: after_call_def)

lemma after_call_config: "config_ok (after_call a bid sim store i c b s) \<longleftrightarrow> config_ok s"
  by (simp add: config_ok_def)

definition record_outcome :: "nat \<Rightarrow> call_descriptor \<Rightarrow> bool \<Rightarrow> batch_call_result \<Rightarrow> batch_call_result" where
  "record_outcome i c b r = (if b then record_call_success (of_nat i) (item_result c True) r
     else record_call_failure (of_nat i) (failure_reason c) r)"

lemma call_loop_step:
  assumes "call_loop invoke a bid sim store ff i (c # cs) l r = Inr (k, r', l')"
  obtains b w s where "invoke (cd_target c) (cd_function c) (cd_args c) l = (b, w, s)"
    and "b \<or> \<not> required c"
    and "if \<not> b \<and> ff then k = Suc i \<and> r' = record_outcome i c b r \<and> l' = (w, after_call a bid sim store i c b s)
       else call_loop invoke a bid sim store ff (Suc i) cs (w, after_call a bid sim store i c b s)
              (record_outcome i c b r) = Inr (k, r', l')"
proof -
  obtain b w s where inv: "invoke (cd_target c) (cd_function c) (cd_args c) l = (b, w, s)"
    by (metis prod_cases3)
  with assms have "b \<or> \<not> required c"
    "if \<not> b \<and> ff then k = Suc i \<and> r' = record_outcome i c b r \<and> l' = (w, after_call a bid sim store i c b s)
       else call_loop invoke a bid sim store ff (Suc i) cs (w, after_call a bid sim store i c b s)
              (record_outcome i c b r) = Inr (k, r', l')"
    by (auto simp: Let_def item_result_def record_outcome_def after_call_def split: if_splits)
  with inv show thesis by (rule that)
qed

text \<open>The report follows the outcomes, and each outcome is what the callee answered.\<close>

lemma call_loop_report:
  assumes "call_loop invoke a bid sim store ff i cs l r = Inr (k, r', l')"
  shows "\<exists>bs. k = i + length bs \<and> outcomes_ok ff cs bs
    \<and> (\<forall>j < length bs. answered invoke (cs ! j) (bs ! j))
    \<and> call_successes r' = call_successes r @ success_entries i cs bs
    \<and> call_failures r' = call_failures r @ failure_entries i cs bs"
  using assms
proof (induction cs arbitrary: i l r)
  case Nil
  then show ?case by (intro exI [of _ "[]"]) simp
next
  case (Cons c cs)
  from Cons.prems show ?case
  proof (rule call_loop_step)
    fix b w s
    assume inv: "invoke (cd_target c) (cd_function c) (cd_args c) l = (b, w, s)"
      and req: "b \<or> \<not> required c"
      and rest: "if \<not> b \<and> ff then k = Suc i \<and> r' = record_outcome i c b r \<and> l' = (w, after_call a bid sim store i c b s)
       else call_loop invoke a bid sim store ff (Suc i) cs (w, after_call a bid sim store i c b s)
              (record_outcome i c b r) = Inr (k, r', l')"
    from inv have ans: "answered invoke c b" unfolding answered_def by blast
    show ?thesis
    proof (cases "\<not> b \<and> ff")
      case True
      with rest req ans show ?thesis
        by (intro exI [of _ "[b]"]) (auto simp: record_outcome_def)
    next
      case False
      with rest have "call_loop invoke a bid sim store ff (Suc i) cs (w, after_call a bid sim store i c b s)
              (record_outcome i c b r) = Inr (k, r', l')" by simp
      from Cons.IH [OF this] obtain bs where bs: "k = Suc i + length bs" "outcomes_ok ff cs bs"
        "\<forall>j < length bs. answered invoke (cs ! j) (bs ! j)"
        "call_successes r' = call_successes (record_outcome i c b r) @ success_entries (Suc i) cs bs"
        "call_failures r' = call_failures (record_outcome i c b r) @ failure_entries (Suc i) cs bs" by blast
      have "answered invoke ((c # cs) ! j) ((b # bs) ! j)" if "j < Suc (length bs)" for j
        using that ans bs(3) by (cases j) auto
      with bs False req show ?thesis
        by (intro exI [of _ "b # bs"]) (auto simp: record_outcome_def)
    qed
  qed
qed

lemma outcomes_facts:
  "outcomes_ok ff cs bs \<Longrightarrow> length bs \<le> length cs
     \<and> (length bs < length cs \<longrightarrow> ff \<and> bs \<noteq> [] \<and> \<not> last bs)
     \<and> (\<forall>j < length bs. bs ! j \<or> \<not> required (cs ! j))
     \<and> (ff \<longrightarrow> (\<forall>j. Suc j < length bs \<longrightarrow> bs ! j))"
proof (induction ff cs bs rule: outcomes_ok.induct)
  case (3 ff c cs b bs)
  show ?case
  proof (cases b)
    case True
    with 3 show ?thesis by (auto simp: nth_Cons split: nat.splits)
  next
    case False
    with 3 show ?thesis by (cases ff) (auto simp: nth_Cons split: nat.splits)
  qed
qed simp_all
text \<open>The storage side of the loop: only the results of this batch are written.\<close>

lemma call_loop_storage:
  assumes "host_law invoke"
    and "call_loop invoke a bid sim store ff i cs (w, s) r = Inr (k, r', (w', s'))"
    and "executing s = Some True" and "admin_key s \<noteq> None" and "config_ok s"
    and "i + length cs < 2 ^ 32"
  shows "\<exists>bs. k = i + length bs \<and> outcomes_ok ff cs bs
    \<and> call_successes r' = call_successes r @ success_entries i cs bs
    \<and> call_failures r' = call_failures r @ failure_entries i cs bs
    \<and> executing s' = Some True \<and> admin_key s' \<noteq> None \<and> config_ok s'
    \<and> total_batches_key s' = total_batches_key s \<and> batch_call_count s' = batch_call_count s
    \<and> (\<forall>b. b \<noteq> bid \<longrightarrow> batch_result_key s' b = batch_result_key s b)
    \<and> (\<forall>x. batch_result_key s' bid x =
         (if store \<and> \<not> sim \<and> i \<le> unat x \<and> unat x < k
          then Some (item_result (cs ! (unat x - i)) (bs ! (unat x - i))) else batch_result_key s bid x))"
  using assms(2-)
proof (induction cs arbitrary: i w s r)
  case Nil
  then show ?case by (intro exI [of _ "[]"]) auto
next
  case (Cons c cs)
  from Cons.prems(1) show ?case
  proof (rule call_loop_step)
    fix b w1 s1
    assume inv: "invoke (cd_target c) (cd_function c) (cd_args c) (w, s) = (b, w1, s1)"
      and req: "b \<or> \<not> required c"
      and rest: "if \<not> b \<and> ff then k = Suc i \<and> r' = record_outcome i c b r
            \<and> (w', s') = (w1, after_call a bid sim store i c b s1)
       else call_loop invoke a bid sim store ff (Suc i) cs (w1, after_call a bid sim store i c b s1)
              (record_outcome i c b r) = Inr (k, r', (w', s'))"
    have i: "unat (of_nat i :: u32) = i" using Cons.prems(5) by (simp add: unat_of_nat_u32)
    from assms(1) inv have "touched invoke s s1" unfolding host_law_def by blast
    then have s1: "same_batches s s1" "admin_key s1 \<noteq> None" "config_ok s1"
      using touched_running Cons.prems(2-4) by blast+
    let ?s = "after_call a bid sim store i c b s1"
    have conf: "config_ok ?s" using s1(3) by (rule after_call_config [THEN iffD2])
    have here: "batch_result_key ?s bid x = (if store \<and> \<not> sim \<and> unat x = i
        then Some (item_result c b) else batch_result_key s bid x)" for x
      using s1(1) i by (auto simp: same_batches_def word_unat_eq_iff)
    have else_where: "q \<noteq> bid \<Longrightarrow> batch_result_key ?s q = batch_result_key s q" for q
      using s1(1) by (simp add: same_batches_def)
    show ?thesis
    proof (cases "\<not> b \<and> ff")
      case True
      with rest req s1 here else_where conf show ?thesis
        by (intro exI [of _ "[b]"]) (auto simp: record_outcome_def same_batches_def Cons.prems(2))
    next
      case False
      with rest have "call_loop invoke a bid sim store ff (Suc i) cs (w1, ?s)
              (record_outcome i c b r) = Inr (k, r', (w', s'))" by simp
      from Cons.IH [OF this] s1 conf Cons.prems(2,5) obtain bs where
        bs: "k = Suc i + length bs" "outcomes_ok ff cs bs"
        "call_successes r' = call_successes (record_outcome i c b r) @ success_entries (Suc i) cs bs"
        "call_failures r' = call_failures (record_outcome i c b r) @ failure_entries (Suc i) cs bs"
        and st: "executing s' = Some True" "admin_key s' \<noteq> None" "config_ok s'"
        "total_batches_key s' = total_batches_key ?s" "batch_call_count s' = batch_call_count ?s"
        and other: "\<forall>q. q \<noteq> bid \<longrightarrow> batch_result_key s' q = batch_result_key ?s q"
        and own: "\<forall>x. batch_result_key s' bid x = (if store \<and> \<not> sim \<and> Suc i \<le> unat x \<and> unat x < k
          then Some (item_result (cs ! (unat x - Suc i)) (bs ! (unat x - Suc i)))
          else batch_result_key ?s bid x)"
        by (auto simp: same_batches_def)
      have "batch_result_key s' bid x =
         (if store \<and> \<not> sim \<and> i \<le> unat x \<and> unat x < k
          then Some (item_result ((c # cs) ! (unat x - i)) ((b # bs) ! (unat x - i)))
          else batch_result_key s bid x)" for x
      proof (cases "unat x = i")
        case True
        with own here bs(1) show ?thesis by simp
      next
        case False
        have "Suc i \<le> unat x \<Longrightarrow> unat x - i = Suc (unat x - Suc i)" by simp
        with False own here show ?thesis by auto
      qed
      with bs st other else_where s1(1) False req show ?thesis
        by (intro exI [of _ "b # bs"]) (auto simp: record_outcome_def same_batches_def)
    qed
  qed
qed

subsection \<open>The whole batch\<close>

lemma prune_fold:
  "fold (\<lambda>i m. m(of_nat i := None)) [0..<n] m = (\<lambda>x :: u32. if unat x < n then None else m x)"
  if "n \<le> 2 ^ 32" for m :: "u32 \<Rightarrow> call_result option"
  using that
proof (induction n)
  case (Suc n)
  then have "unat (of_nat n :: u32) = n" by (simp add: unat_of_nat_u32)
  then have "x = of_nat n \<longleftrightarrow> unat x = n" for x :: u32 by (auto simp: word_unat_eq_iff)
  with Suc show ?case by (auto simp: fun_eq_iff less_Suc_eq)
qed simp

lemma prune_stale_sel [simp]:
  "executing (prune_stale n s) = executing s" "admin_key (prune_stale n s) = admin_key s"
  "max_batch_size_key (prune_stale n s) = max_batch_size_key s"
  "total_batches_key (prune_stale n s) = total_batches_key s"
  by (simp_all add: prune_stale_def Let_def split: option.splits)

text \<open>A batch that succeeds, in terms of its checks and its loop.\<close>

definition finish_batch :: "u64 \<Rightarrow> bool \<Rightarrow> bool \<Rightarrow> nat \<Rightarrow> multicall \<Rightarrow> (multicall_error, multicall) res" where
  "finish_batch bid sim store k s = (if sim then Inr s
     else bindr (expect (checked_add bid 1)) (\<lambda>n.
       Inr (prune_stale n (if store then s\<lparr>total_batches_key := Some n,
              batch_call_count := (batch_call_count s)(bid \<mapsto> of_nat k)\<rparr>
            else s\<lparr>total_batches_key := Some n\<rparr>))))"

lemma finish_batch_eq:
  "(if simulate then Inr s2
    else bindr (expect (checked_add bid 1)) (\<lambda>new_batch_id.
      let s3 = s2\<lparr>total_batches_key := Some new_batch_id\<rparr>;
          s4 = (if store_results then
                  s3\<lparr>batch_call_count := (batch_call_count s3)(bid \<mapsto> of_nat k)\<rparr>
                else s3)
      in Inr (prune_stale new_batch_id s4))) = finish_batch bid simulate store_results k s2"
  by (simp add: finish_batch_def Let_def cong: if_cong)

lemma execute_batch_Inr:
  assumes "execute_batch invoke env a calls sim store ff gas (w, s) = Inr (r, (w', s'))"
  obtains m k s2 s5 where "auth env a" and "\<not> unwrap_or (executing s) False"
    and "max_batch_size_key s = Some m" and "calls \<noteq> []" and "length calls \<le> unat m"
    and "call_loop invoke a (unwrap_or (total_batches_key s) 0) sim store ff 0 calls
           (w, s\<lparr>executing := Some True\<rparr>) batch_call_new = Inr (k, r, (w', s2))"
    and "finish_batch (unwrap_or (total_batches_key s) 0) sim store k s2 = Inr s5"
    and "s' = publish ''batch_executed'' (VTuple [VAddr a, VU64 (unwrap_or (total_batches_key s) 0),
           VU32 (of_nat (length (call_successes r))), VU32 (of_nat (length (call_failures r))),
           VU32 (of_nat k), VBool sim]) (s5\<lparr>executing := None\<rparr>)"
proof -
  let ?bid = "unwrap_or (total_batches_key s) 0"
  from assms obtain m where checks: "auth env a" "\<not> unwrap_or (executing s) False"
    "max_batch_size_key s = Some m" "calls \<noteq> []" "length calls \<le> unat m"
    and "bindr (call_loop invoke a ?bid sim store ff 0 calls (w, s\<lparr>executing := Some True\<rparr>) batch_call_new)
      (\<lambda>(k, result, w1, s2). bindr (finish_batch ?bid sim store k s2) (\<lambda>s5.
        let s6 = s5\<lparr>executing := None\<rparr>;
            succeeded = of_nat (length (call_successes result));
            failed = of_nat (length (call_failures result))
        in Inr (result, w1, publish ''batch_executed''
             (VTuple [VAddr a, VU64 ?bid, VU32 succeeded, VU32 failed, VU32 (of_nat k), VBool sim]) s6)))
      = Inr (r, (w', s'))"
    unfolding execute_batch_def finish_batch_eq by (auto simp: res_simps Let_def not_less)
  then obtain k s2 s5 where
    "call_loop invoke a ?bid sim store ff 0 calls (w, s\<lparr>executing := Some True\<rparr>) batch_call_new
      = Inr (k, r, (w', s2))"
    "finish_batch ?bid sim store k s2 = Inr s5"
    "s' = publish ''batch_executed'' (VTuple [VAddr a, VU64 ?bid,
           VU32 (of_nat (length (call_successes r))), VU32 (of_nat (length (call_failures r))),
           VU32 (of_nat k), VBool sim]) (s5\<lparr>executing := None\<rparr>)"
    by (auto simp: bindr_Inr_iff Let_def)
  with checks show thesis by (rule that)
qed

subsection \<open>The invariant\<close>

text \<open>
  Between transactions no batch is running, results are stored for the batches of a window of
  \<open>MAX_STORED_BATCHES\<close>, and for each of them exactly below the recorded count.
\<close>

definition window_ok :: "multicall \<Rightarrow> bool" where
  "window_ok s \<longleftrightarrow>
     (\<forall>b x. batch_result_key s b x \<noteq> None \<longleftrightarrow> (\<exists>n. batch_call_count s b = Some n \<and> x < n))
     \<and> (\<forall>b n. batch_call_count s b = Some n \<longrightarrow>
          (\<exists>t. total_batches_key s = Some t \<and> unat b < unat t \<and> unat t \<le> unat b + 50))"

definition multicall_inv :: "multicall \<Rightarrow> bool" where
  "multicall_inv s \<longleftrightarrow> executing s = None \<and> config_ok s \<and> window_ok s"

lemma multicall_inv_empty: "multicall_inv multicall_empty"
  by (simp add: multicall_inv_def config_ok_def window_ok_def multicall_empty_def)

lemma multicall_inv_cong:
  "same_batches s s' \<Longrightarrow> config_ok s' \<Longrightarrow> multicall_inv s \<Longrightarrow> multicall_inv s'"
  by (simp add: multicall_inv_def window_ok_def same_batches_def)

lemma prune_stale_results:
  assumes "unat new = unat old + 1"
  shows "batch_result_key (prune_stale new s) b x = (if 50 < unat new \<and> unat b + 51 = unat new
      \<and> (\<exists>n. batch_call_count s b = Some n \<and> x < n) then None else batch_result_key s b x)"
    and "batch_call_count (prune_stale new s) b
      = (if 50 < unat new \<and> unat b + 51 = unat new then None else batch_call_count s b)"
proof -
  let ?stale = "new - MAX_STORED_BATCHES - 1"
  have fifty: "MAX_STORED_BATCHES < new \<longleftrightarrow> 50 < unat new"
    by (simp add: MAX_STORED_BATCHES_def word_conv)
  have stale: "b = ?stale \<longleftrightarrow> unat b + 51 = unat new" if "50 < unat new"
  proof -
    have "unat (new - 50) = unat new - 50"
      using that by (simp add: unat_sub_if_size word_conv)
    moreover from this that have "unat (new - 50 - 1) = unat (new - 50) - 1"
      by (simp add: unat_sub_if_size word_conv)
    ultimately show ?thesis using that by (auto simp: word_unat_eq_iff MAX_STORED_BATCHES_def)
  qed
  have fold: "fold (\<lambda>i m. m(of_nat i := None)) [0..<unat n] m x = (if x < n then None else m x)"
    for n :: u32 and m :: "u32 \<Rightarrow> call_result option"
  proof -
    have "unat n < 2 ^ LENGTH(32)" by (rule unsigned_less)
    then show ?thesis by (simp add: prune_fold word_conv)
  qed
  show "batch_result_key (prune_stale new s) b x = (if 50 < unat new \<and> unat b + 51 = unat new
      \<and> (\<exists>n. batch_call_count s b = Some n \<and> x < n) then None else batch_result_key s b x)"
    using stale fifty
    by (cases "batch_call_count s ?stale") (auto simp: prune_stale_def Let_def fold)
  show "batch_call_count (prune_stale new s) b
      = (if 50 < unat new \<and> unat b + 51 = unat new then None else batch_call_count s b)"
    using stale fifty
    by (cases "batch_call_count s ?stale") (auto simp: prune_stale_def Let_def)
qed

text \<open>What a successful batch leaves, whatever its callees did to the contract.\<close>

definition leaves_window :: "u64 \<Rightarrow> u64 \<Rightarrow> bool" where
  "leaves_window new b \<longleftrightarrow> 50 < unat new \<and> unat b + 51 = unat new"

lemma execute_batch_effect:
  assumes "host_law invoke" and "multicall_inv s"
    and "execute_batch invoke env a calls sim store ff gas (w, s) = Inr (r, (w', s'))"
  obtains bs t where "total_batches_key s = Some t" and "outcomes_ok ff calls bs"
    and "call_successes r = success_entries 0 calls bs" and "call_failures r = failure_entries 0 calls bs"
    and "length bs < 2 ^ 32"
    and "executing s' = None" and "config_ok s'"
    and "sim \<longrightarrow> same_batches s s'"
    and "\<not> sim \<longrightarrow> (\<exists>n. unat n = unat t + 1 \<and> total_batches_key s' = Some n
      \<and> (\<forall>b. batch_call_count s' b = (if leaves_window n b then None
            else if store \<and> b = t then Some (of_nat (length bs)) else batch_call_count s b))
      \<and> (\<forall>b x. batch_result_key s' b x = (if leaves_window n b then None
            else if store \<and> b = t \<and> unat x < length bs
              then Some (item_result (calls ! unat x) (bs ! unat x)) else batch_result_key s b x)))"
proof -
  from assms(3) obtain m k s2 s5 where m: "max_batch_size_key s = Some m"
    and len: "length calls \<le> unat m"
    and loop: "call_loop invoke a (unwrap_or (total_batches_key s) 0) sim store ff 0 calls
           (w, s\<lparr>executing := Some True\<rparr>) batch_call_new = Inr (k, r, (w', s2))"
    and fin: "finish_batch (unwrap_or (total_batches_key s) 0) sim store k s2 = Inr s5"
    and s': "s' = publish ''batch_executed'' (VTuple [VAddr a, VU64 (unwrap_or (total_batches_key s) 0),
           VU32 (of_nat (length (call_successes r))), VU32 (of_nat (length (call_failures r))),
           VU32 (of_nat k), VBool sim]) (s5\<lparr>executing := None\<rparr>)"
    by (rule execute_batch_Inr) blast
  from assms(2) have inv: "executing s = None" "config_ok s" "window_ok s"
    by (simp_all add: multicall_inv_def)
  from inv(2) m obtain t where t: "total_batches_key s = Some t" and adm: "admin_key s \<noteq> None"
    by (auto simp: config_ok_def)
  have "unat m < 2 ^ LENGTH(32)" by (rule unsigned_less)
  with len have small: "0 + length calls < 2 ^ 32" by simp
  have conf: "config_ok (s\<lparr>executing := Some True\<rparr>)" using inv(2) unfolding config_ok_def by simp
  from call_loop_storage [OF assms(1) loop _ _ conf small] adm t obtain bs where
    bs: "k = length bs" "outcomes_ok ff calls bs" "call_successes r = success_entries 0 calls bs"
      "call_failures r = failure_entries 0 calls bs"
    and s2: "executing s2 = Some True" "config_ok s2" "total_batches_key s2 = Some t"
      "batch_call_count s2 = batch_call_count s" "\<forall>b. b \<noteq> t \<longrightarrow> batch_result_key s2 b = batch_result_key s b"
    and own: "\<forall>x. batch_result_key s2 t x = (if store \<and> \<not> sim \<and> unat x < k
       then Some (item_result (calls ! unat x) (bs ! unat x)) else batch_result_key s t x)"
    by auto
  have short: "length bs < 2 ^ 32" using outcomes_facts [OF bs(2)] small by linarith
  show thesis
  proof (cases sim)
    case True
    then have s5: "s5 = s2" using fin by (simp add: finish_batch_def)
    have "batch_result_key s2 = batch_result_key s"
    proof (intro ext)
      fix b x show "batch_result_key s2 b x = batch_result_key s b x"
        using s2(5) own True by (cases "b = t") simp_all
    qed
    then have "same_batches s s'" using s2 t inv(1) by (simp add: same_batches_def s' s5)
    moreover have "config_ok s'" using s2(2) unfolding config_ok_def s' s5 by simp
    ultimately show thesis using that [OF t bs(2-4) short] True by (simp add: s')
  next
    case False
    with fin t obtain n where n: "unat n = unat t + 1"
      and s5: "s5 = prune_stale n (if store then s2\<lparr>total_batches_key := Some n,
              batch_call_count := (batch_call_count s2)(t \<mapsto> of_nat k)\<rparr> else s2\<lparr>total_batches_key := Some n\<rparr>)"
      by (auto simp: finish_batch_def res_simps checked_add_Some_iff)
    let ?s = "if store then s2\<lparr>total_batches_key := Some n,
              batch_call_count := (batch_call_count s2)(t \<mapsto> of_nat k)\<rparr> else s2\<lparr>total_batches_key := Some n\<rparr>"
    have count: "batch_call_count s' b = (if leaves_window n b then None
            else if store \<and> b = t then Some (of_nat (length bs)) else batch_call_count s b)" for b
      using s2(4) bs(1) by (simp add: s' s5 prune_stale_results(2) [OF n] leaves_window_def)
    have not_stale: "\<not> leaves_window n t" using n by (simp add: leaves_window_def)
    have "batch_result_key s' b x = (if leaves_window n b then None
            else if store \<and> b = t \<and> unat x < length bs
              then Some (item_result (calls ! unat x) (bs ! unat x)) else batch_result_key s b x)" for b x
    proof (cases "b = t")
      case True
      then show ?thesis
        using own bs(1) False n
        by (simp add: s' s5 prune_stale_results(1) [OF n] leaves_window_def)
    next
      case other: False
      have "batch_call_count ?s b = batch_call_count s b" "batch_result_key ?s b = batch_result_key s b"
        using other s2(4,5) by simp_all
      moreover have "batch_result_key s b x \<noteq> None \<longleftrightarrow> (\<exists>n. batch_call_count s b = Some n \<and> x < n)"
        using inv(3) by (simp add: window_ok_def)
      ultimately show ?thesis
        using other by (cases "batch_result_key s b x")
          (auto simp: s' s5 prune_stale_results(1) [OF n] leaves_window_def)
    qed
    moreover have "total_batches_key s' = Some n" by (simp add: s' s5)
    moreover have "config_ok s'" using s2(2,3) unfolding config_ok_def s' s5 by simp
    ultimately show thesis using that [OF t bs(2-4) short] n count False by (simp add: s')
  qed
qed

lemma execute_batch_inv:
  assumes "host_law invoke" and "multicall_inv s"
    and "execute_batch invoke env a calls sim store ff gas (w, s) = Inr (r, (w', s'))"
  shows "multicall_inv s'"
proof -
  obtain bs t where t: "total_batches_key s = Some t" and "outcomes_ok ff calls bs"
    and "call_successes r = success_entries 0 calls bs" and "call_failures r = failure_entries 0 calls bs"
    and short: "length bs < 2 ^ 32" and ex: "executing s' = None" and conf: "config_ok s'"
    and sim: "sim \<longrightarrow> same_batches s s'"
    and run: "\<not> sim \<longrightarrow> (\<exists>n. unat n = unat t + 1 \<and> total_batches_key s' = Some n
      \<and> (\<forall>b. batch_call_count s' b = (if leaves_window n b then None
            else if store \<and> b = t then Some (of_nat (length bs)) else batch_call_count s b))
      \<and> (\<forall>b x. batch_result_key s' b x = (if leaves_window n b then None
            else if store \<and> b = t \<and> unat x < length bs
              then Some (item_result (calls ! unat x) (bs ! unat x)) else batch_result_key s b x)))"
    by (rule execute_batch_effect [OF assms]) blast
  show ?thesis
  proof (cases sim)
    case True
    with sim conf assms(2) multicall_inv_cong show ?thesis by blast
  next
    case False
    with run obtain n where n: "unat n = unat t + 1" "total_batches_key s' = Some n"
      and count: "\<And>b. batch_call_count s' b = (if leaves_window n b then None
            else if store \<and> b = t then Some (of_nat (length bs)) else batch_call_count s b)"
      and result: "\<And>b x. batch_result_key s' b x = (if leaves_window n b then None
            else if store \<and> b = t \<and> unat x < length bs
              then Some (item_result (calls ! unat x) (bs ! unat x)) else batch_result_key s b x)"
      by blast
    from assms(2) have win: "window_ok s" by (simp add: multicall_inv_def)
    have fresh: "batch_call_count s t = None"
      using win t by (auto simp: window_ok_def)
    have len: "x < of_nat (length bs) \<longleftrightarrow> unat x < length bs" for x :: u32
      using short by (simp add: word_conv unat_of_nat_u32)
    have "window_ok s'"
      unfolding window_ok_def
    proof (intro conjI allI impI)
      fix b x
      show "batch_result_key s' b x \<noteq> None \<longleftrightarrow> (\<exists>c. batch_call_count s' b = Some c \<and> x < c)"
        using win fresh by (auto simp: count result len window_ok_def)
    next
      fix b c
      assume c: "batch_call_count s' b = Some c"
      then have stay: "\<not> leaves_window n b" by (auto simp: count)
      have "unat b < unat n \<and> unat n \<le> unat b + 50"
      proof (cases "store \<and> b = t")
        case False
        with c stay have "batch_call_count s b = Some c" by (simp add: count)
        with win t have "unat b < unat t" "unat t \<le> unat b + 50" by (auto simp: window_ok_def)
        with n(1) stay show ?thesis by (auto simp: leaves_window_def)
      qed (use n(1) in simp)
      with n(2) show "\<exists>t. total_batches_key s' = Some t \<and> unat b < unat t \<and> unat t \<le> unat b + 50"
        by simp
    qed
    with ex conf show ?thesis by (simp add: multicall_inv_def)
  qed
qed

lemma multicall_step_inv:
  assumes "host_law invoke" and "multicall_inv (snd l)" and "multicall_step invoke env c l = Inr l'"
  shows "multicall_inv (snd l')"
proof (cases c)
  case (UExecuteBatch a calls sim store ff gas)
  obtain w s w' s' where l: "l = (w, s)" "l' = (w', s')" by force
  with UExecuteBatch assms(3) obtain r where
    "execute_batch invoke env a calls sim store ff gas (w, s) = Inr (r, (w', s'))"
    by (auto simp: returns_Inr_iff)
  with execute_batch_inv [OF assms(1)] assms(2) l show ?thesis by simp
next
  case (UInitialize a n)
  with assms(2,3) show ?thesis
    by (auto simp: res_simps multicall_initialize_iff multicall_inv_def config_ok_def window_ok_def)
next
  case (USetMaxBatchSize a n)
  with assms(2,3) show ?thesis
    by (auto simp: res_simps set_max_batch_size_iff multicall_inv_def config_ok_def window_ok_def)
next
  case (UTransferAdmin a n)
  with assms(2,3) show ?thesis
    by (auto simp: res_simps multicall_transfer_admin_iff multicall_inv_def config_ok_def window_ok_def)
qed

text \<open>A host that forbids calling back obeys the rule; the contract is a machine over the ledger.\<close>

lemma sealed_law: "host_law (sealed f :: 'w invoke)"
  unfolding host_law_def
proof (intro allI impI)
  fix t fn args b and w w' :: 'w and s s' :: multicall
  assume "sealed f t fn args (w, s) = (b, (w', s'))"
  then have "s' = s" by (rule sealed_keeps)
  then show "touched (sealed f) s s'" by (simp add: touched.untouched)
qed

interpretation multicall_machine: contract_machine "multicall_step (sealed f)" "(w0, multicall_empty)"
    "\<lambda>l. multicall_inv (snd l)" for f and w0 :: 'w
  by unfold_locales (simp add: multicall_inv_empty, rule multicall_step_inv [OF sealed_law])

fun multicall_gated :: "multicall_call \<Rightarrow> address option" where
  "multicall_gated (USetMaxBatchSize c n) = Some c"
| "multicall_gated (UTransferAdmin c n) = Some c"
| "multicall_gated _ = None"

lemma call_loop_sealed:
  "call_loop (sealed f) a bid sim store ff i cs (w, s) r = Inr (k, r', (w', s')) \<Longrightarrow>
     admin_key s' = admin_key s \<and> max_batch_size_key s' = max_batch_size_key s"
proof (induction cs arbitrary: i w s r)
  case (Cons c cs)
  from Cons.prems show ?case
  proof (rule call_loop_step)
    fix b w1 s1
    assume inv: "sealed f (cd_target c) (cd_function c) (cd_args c) (w, s) = (b, w1, s1)"
      and rest: "if \<not> b \<and> ff then k = Suc i \<and> r' = record_outcome i c b r
            \<and> (w', s') = (w1, after_call a bid sim store i c b s1)
       else call_loop (sealed f) a bid sim store ff (Suc i) cs (w1, after_call a bid sim store i c b s1)
              (record_outcome i c b r) = Inr (k, r', (w', s'))"
    from inv have s1: "s1 = s" by (rule sealed_keeps)
    show ?thesis
    proof (cases "\<not> b \<and> ff")
      case True
      with rest s1 show ?thesis by simp
    next
      case False
      with rest have "call_loop (sealed f) a bid sim store ff (Suc i) cs (w1, after_call a bid sim store i c b s1)
              (record_outcome i c b r) = Inr (k, r', (w', s'))" by simp
      from Cons.IH [OF this] s1 show ?thesis by simp
    qed
  qed
qed simp

lemma execute_batch_sealed:
  assumes "execute_batch (sealed f) env a calls sim store ff gas (w, s) = Inr (r, (w', s'))"
  shows "admin_key s' = admin_key s \<and> max_batch_size_key s' = max_batch_size_key s"
proof -
  from assms obtain k s2 s5 where
    "call_loop (sealed f) a (unwrap_or (total_batches_key s) 0) sim store ff 0 calls
           (w, s\<lparr>executing := Some True\<rparr>) batch_call_new = Inr (k, r, (w', s2))"
    and "finish_batch (unwrap_or (total_batches_key s) 0) sim store k s2 = Inr s5"
    and "admin_key s' = admin_key s5" "max_batch_size_key s' = max_batch_size_key s5"
    by (rule execute_batch_Inr) simp
  then show ?thesis
    by (auto simp: finish_batch_def res_simps dest!: call_loop_sealed split: if_splits)
qed

interpretation multicall_admin: admin_gated "multicall_step (sealed f)" "(w0, multicall_empty)"
    "\<lambda>l. multicall_inv (snd l)" "\<lambda>l. admin_key (snd l)" multicall_gated
    "\<lambda>l l'. max_batch_size_key (snd l') = max_batch_size_key (snd l)" for f and w0 :: 'w
proof unfold_locales
  fix env c and l l' :: "'w ledger" and a
  assume step: "multicall_step (sealed f) env c l = Inr l'" and "multicall_gated c = Some a"
  then show "auth env a \<and> admin_key (snd l) = Some a"
    by (cases c) (auto simp: res_simps set_max_batch_size_iff multicall_transfer_admin_iff)
next
  fix env c and l l' :: "'w ledger" and a
  assume step: "multicall_step (sealed f) env c l = Inr l'" and "multicall_gated c = None"
    and "admin_key (snd l) = Some a"
  then show "admin_key (snd l') = Some a \<and> max_batch_size_key (snd l') = max_batch_size_key (snd l)"
    by (cases c; cases l; cases l')
      (auto simp: res_simps multicall_initialize_iff dest!: execute_batch_sealed)
qed simp_all

subsection \<open>The properties\<close>

text \<open>
  C40. In every state the contract can reach, no batch is left running, whatever its callees did by
  calling back into the contract; at most the last 50 batches have stored results, and a batch has
  results exactly for the indices below its recorded call count.
\<close>

theorem multicall_invariant:
  assumes "host_law invoke"
  shows "multicall_inv (snd (run_txs (multicall_step invoke) (w, multicall_empty) txs))"
proof -
  have "contract_machine (multicall_step invoke) (w, multicall_empty) (\<lambda>l. multicall_inv (snd l))"
    by unfold_locales (simp add: multicall_inv_empty, rule multicall_step_inv [OF assms])
  then show ?thesis by (rule contract_machine.invar_run)
qed

text \<open>
  A batch that returns reports, index by index and in order, what its calls answered: it
  processed a prefix of the calls, the whole batch unless \<open>fail_fast\<close> stopped it at a failure;
  no processed call that failed was a required one; and each processed call is recorded once, as a
  success with its target and function or as a failure with its reason.
\<close>

theorem execute_batch_report:
  assumes "execute_batch invoke env a calls sim store ff gas (w, s) = Inr (r, (w', s'))"
  shows "\<exists>bs. length bs \<le> length calls \<and> (length bs < length calls \<longrightarrow> ff \<and> \<not> last bs)
    \<and> (\<forall>j < length bs. answered invoke (calls ! j) (bs ! j) \<and> (bs ! j \<or> \<not> required (calls ! j)))
    \<and> (ff \<longrightarrow> (\<forall>j. Suc j < length bs \<longrightarrow> bs ! j))
    \<and> call_successes r = success_entries 0 calls bs \<and> call_failures r = failure_entries 0 calls bs"
proof -
  from assms obtain k s2 where
    "call_loop invoke a (unwrap_or (total_batches_key s) 0) sim store ff 0 calls
           (w, s\<lparr>executing := Some True\<rparr>) batch_call_new = Inr (k, r, (w', s2))"
    by (rule execute_batch_Inr) blast
  from call_loop_report [OF this] obtain bs where "outcomes_ok ff calls bs"
    "\<forall>j < length bs. answered invoke (calls ! j) (bs ! j)"
    "call_successes r = success_entries 0 calls bs" "call_failures r = failure_entries 0 calls bs"
    by auto
  with outcomes_facts [of ff calls bs] show ?thesis by (intro exI [of _ bs]) simp
qed

text \<open>
  C39. Reentrancy: even if callees call back into the contract, through any entry points and in any
  number, a successful batch counts itself exactly once (a simulated one not at all), leaves the
  guard released, and writes the stored results of no other batch, except that it drops those of
  the batch leaving the window.
\<close>

theorem batch_survives_reentrancy:
  assumes "host_law invoke" and "multicall_inv s"
    and "execute_batch invoke env a calls sim store ff gas (w, s) = Inr (r, (w', s'))"
  shows "executing s' = None \<and> (\<exists>t. total_batches_key s = Some t
    \<and> (sim \<longrightarrow> total_batches_key s' = Some t \<and> batch_result_key s' = batch_result_key s)
    \<and> (\<not> sim \<longrightarrow> (\<exists>n. total_batches_key s' = Some n \<and> unat n = unat t + 1
         \<and> (\<forall>b. b \<noteq> t \<longrightarrow> batch_result_key s' b
              = (if unat b + 51 = unat n then Map.empty else batch_result_key s b)))))"
proof -
  obtain bs t where t: "total_batches_key s = Some t" and ex: "executing s' = None"
    and sim: "sim \<longrightarrow> same_batches s s'"
    and run: "\<not> sim \<longrightarrow> (\<exists>n. unat n = unat t + 1 \<and> total_batches_key s' = Some n
      \<and> (\<forall>b. batch_call_count s' b = (if leaves_window n b then None
            else if store \<and> b = t then Some (of_nat (length bs)) else batch_call_count s b))
      \<and> (\<forall>b x. batch_result_key s' b x = (if leaves_window n b then None
            else if store \<and> b = t \<and> unat x < length bs
              then Some (item_result (calls ! unat x) (bs ! unat x)) else batch_result_key s b x)))"
    by (rule execute_batch_effect [OF assms]) blast
  show ?thesis
  proof (cases sim)
    case True
    with sim t ex show ?thesis by (simp add: same_batches_def)
  next
    case False
    with run obtain n where n: "unat n = unat t + 1" "total_batches_key s' = Some n"
      and res: "\<And>b x. batch_result_key s' b x = (if leaves_window n b then None
            else if store \<and> b = t \<and> unat x < length bs
              then Some (item_result (calls ! unat x) (bs ! unat x)) else batch_result_key s b x)"
      by blast
    have "batch_result_key s' b = (if unat b + 51 = unat n then Map.empty else batch_result_key s b)"
      if "b \<noteq> t" for b
      using that by (auto simp: res leaves_window_def fun_eq_iff)
    with False n t ex show ?thesis by auto
  qed
qed

lemma read_results_upto:
  assumes "\<And>x. batch_result_key s b x \<noteq> None \<longleftrightarrow> unat x < n" and "n < 2 ^ 32"
  shows "i \<le> n \<Longrightarrow> read_results s b (of_nat i) acc
    = Inr (acc @ map (\<lambda>j. the (batch_result_key s b (of_nat j))) [i..<n])"
proof (induction "n - i" arbitrary: i acc)
  case 0
  then have i: "i = n" by simp
  have "batch_result_key s b (of_nat i) = None"
    using assms(1) [of "of_nat i"] assms(2) i by (simp add: unat_of_nat_u32)
  with i show ?case by (simp add: read_results.simps [of s b "of_nat n"])
next
  case (Suc m)
  then have i: "i < n" and u: "unat (of_nat i :: u32) = i" using assms(2) by (simp_all add: unat_of_nat_u32)
  then obtain v where v: "batch_result_key s b (of_nat i) = Some v"
    using assms(1) [of "of_nat i"] by auto
  have "unat (of_nat (Suc i) :: u32) = Suc i" using i assms(2) by (intro unat_of_nat_u32) simp
  then have next_i: "checked_add (of_nat i :: u32) 1 = Some (of_nat (Suc i))"
    using u by (simp add: checked_add_Some_iff)
  have "read_results s b (of_nat (Suc i)) (acc @ [v])
      = Inr ((acc @ [v]) @ map (\<lambda>j. the (batch_result_key s b (of_nat j))) [Suc i..<n])"
    by (rule Suc.hyps(1)) (use Suc.hyps(2) i in auto)
  then show ?case
    using v next_i i by (subst read_results.simps) (simp add: upt_conv_Cons)
qed

text \<open>
  Reading back: after a stored batch, \<open>get_batch_results\<close> returns for its id the results
  of exactly the processed calls, in their order, each with the target and function of the call and
  the answer of the callee.
\<close>

theorem stored_results_read_back:
  assumes "host_law invoke" and "multicall_inv s"
    and "execute_batch invoke env a calls False True ff gas (w, s) = Inr (r, (w', s'))"
  shows "\<exists>bs t. total_batches_key s = Some t
    \<and> call_successes r = success_entries 0 calls bs \<and> call_failures r = failure_entries 0 calls bs
    \<and> get_batch_results t s' = Inr (map2 item_result calls bs)"
proof -
  obtain bs t where t: "total_batches_key s = Some t" and out: "outcomes_ok ff calls bs"
    and rep: "call_successes r = success_entries 0 calls bs" "call_failures r = failure_entries 0 calls bs"
    and short: "length bs < 2 ^ 32"
    and run: "\<not> False \<longrightarrow> (\<exists>n. unat n = unat t + 1 \<and> total_batches_key s' = Some n
      \<and> (\<forall>b. batch_call_count s' b = (if leaves_window n b then None
            else if True \<and> b = t then Some (of_nat (length bs)) else batch_call_count s b))
      \<and> (\<forall>b x. batch_result_key s' b x = (if leaves_window n b then None
            else if True \<and> b = t \<and> unat x < length bs
              then Some (item_result (calls ! unat x) (bs ! unat x)) else batch_result_key s b x)))"
    by (rule execute_batch_effect [OF assms]) blast
  have len: "length bs \<le> length calls" using outcomes_facts [OF out] by blast
  have win: "window_ok s" using assms(2) by (simp add: multicall_inv_def)
  then have "batch_call_count s t = None" using t by (auto simp: window_ok_def)
  with win have none: "batch_result_key s t x = None" for x
    unfolding window_ok_def by (metis option.distinct(1))
  from run obtain n where n: "unat n = unat t + 1"
    and res: "\<And>x. batch_result_key s' t x = (if leaves_window n t then None
            else if unat x < length bs
              then Some (item_result (calls ! unat x) (bs ! unat x)) else batch_result_key s t x)"
    by auto
  have own: "batch_result_key s' t x
      = (if unat x < length bs then Some (item_result (calls ! unat x) (bs ! unat x)) else None)" for x
    using res none n by (simp add: leaves_window_def)
  have "get_batch_results t s' = Inr (map (\<lambda>j. the (batch_result_key s' t (of_nat j))) [0..<length bs])"
    unfolding get_batch_results_def
    using read_results_upto [of s' t "length bs" 0 "[]"] own short by simp
  also have "map (\<lambda>j. the (batch_result_key s' t (of_nat j))) [0..<length bs] = map2 item_result calls bs"
    using len short by (intro nth_equalityI) (simp_all add: own unat_of_nat_u32)
  finally show ?thesis using t rep by blast
qed

definition declared_budgets :: "call_descriptor list \<Rightarrow> nat" where
  "declared_budgets calls = sum_list (map (\<lambda>c. case instruction_budget c of None \<Rightarrow> 0 | Some b \<Rightarrow> unat b) calls)"

lemma min_add_cap: "min x m \<le> g \<and> min (min x m + z) m \<le> g \<longleftrightarrow> min (x + z) m \<le> (g :: nat)"
  by (auto simp: min_def)

lemma preflight_unlimited:
  "preflight None c calls = Inr () \<longleftrightarrow> (\<forall>call \<in> set calls. length (cd_args call) \<le> 20)"
  by (induction calls) (auto simp: MAX_ARGS_PER_CALL_def res_simps)

lemma preflight_limited:
  "unat c \<le> unat g \<Longrightarrow> preflight (Some g) c calls = Inr () \<longleftrightarrow>
     (\<forall>call \<in> set calls. length (cd_args call) \<le> 20)
     \<and> min (unat c + declared_budgets calls) (2 ^ 64 - 1) \<le> unat g"
proof (induction calls arbitrary: c)
  case (Cons call calls)
  show ?case
  proof (cases "instruction_budget call")
    case None
    with Cons show ?thesis by (simp add: MAX_ARGS_PER_CALL_def res_simps declared_budgets_def not_less)
  next
    case (Some b)
    let ?c = "saturating_add c b"
    have sat: "unat ?c = min (unat c + unat b) (2 ^ 64 - 1)"
      using unat_saturating_add [of c b] by simp
    have decl: "declared_budgets (call # calls) = unat b + declared_budgets calls"
      using Some by (simp add: declared_budgets_def)
    have "preflight (Some g) c (call # calls) = Inr () \<longleftrightarrow>
        length (cd_args call) \<le> 20 \<and> unat ?c \<le> unat g \<and> preflight (Some g) ?c calls = Inr ()"
      using Some by (auto simp: MAX_ARGS_PER_CALL_def res_simps Let_def word_conv not_less)
    also have "\<dots> \<longleftrightarrow> length (cd_args call) \<le> 20 \<and> unat ?c \<le> unat g
        \<and> (\<forall>call \<in> set calls. length (cd_args call) \<le> 20)
        \<and> min (unat ?c + declared_budgets calls) (2 ^ 64 - 1) \<le> unat g"
      using Cons.IH by blast
    finally have pre: "preflight (Some g) c (call # calls) = Inr () \<longleftrightarrow>
        length (cd_args call) \<le> 20 \<and> (\<forall>call \<in> set calls. length (cd_args call) \<le> 20)
        \<and> unat ?c \<le> unat g \<and> min (unat ?c + declared_budgets calls) (2 ^ 64 - 1) \<le> unat g"
      by blast
    have "unat ?c \<le> unat g \<and> min (unat ?c + declared_budgets calls) (2 ^ 64 - 1) \<le> unat g
        \<longleftrightarrow> min (unat c + declared_budgets (call # calls)) (2 ^ 64 - 1) \<le> unat g"
      unfolding sat using min_add_cap by (simp add: decl add.assoc)
    with pre show ?thesis by simp
  qed
qed (simp add: min_def declared_budgets_def)

text \<open>
  The pre-flight check is exact: it passes when every call has at most 20 arguments and, under a
  gas limit, the declared budgets sum up to at most the limit, the sum taken without wrap-around
  and capped at the largest 64-bit value.
\<close>

theorem preflight_exact:
  "preflight gas 0 calls = Inr () \<longleftrightarrow> (\<forall>call \<in> set calls. length (cd_args call) \<le> 20)
    \<and> (case gas of None \<Rightarrow> True | Some g \<Rightarrow> min (declared_budgets calls) (2 ^ 64 - 1) \<le> unat g)"
  by (cases gas) (simp_all add: preflight_unlimited preflight_limited)

subsection \<open>A small contract, for the witnesses\<close>

text \<open>A contract after three batches; the callee at address 9 refuses every call.\<close>

definition multicall_demo :: multicall where
  "multicall_demo = multicall_empty\<lparr>admin_key := Some (Address 0), max_batch_size_key := Some 4,
     total_batches_key := Some 3\<rparr>"

definition refusing :: "unit invoke" where
  "refusing = sealed (\<lambda>t fn args w. (t \<noteq> Address 9, w))"

definition demo_call :: "address \<Rightarrow> call_descriptor" where
  "demo_call t = \<lparr>cd_target = t, cd_function = ''ping'', required = False, instruction_budget = None,
     cd_args = []\<rparr>"

definition anyone :: env where
  "anyone = \<lparr>timestamp = 0, sequence = 0, auth = (\<lambda>_. True)\<rparr>"

lemma multicall_demo_inv: "multicall_inv multicall_demo"
  by (simp add: multicall_demo_def multicall_inv_def config_ok_def window_ok_def multicall_empty_def)

lemma refusing_law: "host_law refusing"
  unfolding refusing_def by (rule sealed_law)

lemma multicall_demo_run:
  "\<exists>r s'. execute_batch refusing anyone (Address 1) [demo_call (Address 5), demo_call (Address 9)]
     False True False None ((), multicall_demo) = Inr (r, ((), s'))"
  by (simp add: execute_batch_def anyone_def multicall_demo_def multicall_empty_def refusing_def
      sealed_def demo_call_def Let_def MAX_ARGS_PER_CALL_def reject_if_def checked_add_def)

theorem multicall_invariant_witness:
  "multicall_inv (snd (run_txs (multicall_step refusing) ((), multicall_empty)
     [(anyone, UInitialize (Address 0) 4)]))"
  by (rule multicall_invariant [OF refusing_law])

theorem execute_batch_report_witness:
  "\<exists>r s' bs. execute_batch refusing anyone (Address 1) [demo_call (Address 5), demo_call (Address 9)]
     False True False None ((), multicall_demo) = Inr (r, ((), s'))
     \<and> call_failures r = failure_entries 0 [demo_call (Address 5), demo_call (Address 9)] bs
     \<and> bs = [True, False]"
proof -
  obtain r s' where run: "execute_batch refusing anyone (Address 1) [demo_call (Address 5), demo_call (Address 9)]
     False True False None ((), multicall_demo) = Inr (r, ((), s'))" using multicall_demo_run by blast
  let ?calls = "[demo_call (Address 5), demo_call (Address 9)]"
  from execute_batch_report [OF run] obtain bs where
    "length bs \<le> length ?calls" "length bs < length ?calls \<longrightarrow> False \<and> \<not> last bs"
    and ans: "\<forall>j < length bs. answered refusing (?calls ! j) (bs ! j) \<and> (bs ! j \<or> \<not> required (?calls ! j))"
    and rep: "call_failures r = failure_entries 0 ?calls bs" by blast
  then have len: "length bs = 2" by simp
  with ans [rule_format, of 0] ans [rule_format, of 1]
  have "answered refusing (demo_call (Address 5)) (bs ! 0)"
    "answered refusing (demo_call (Address 9)) (bs ! Suc 0)" by simp_all
  then have "bs ! 0" "\<not> bs ! Suc 0"
    by (auto simp: answered_def refusing_def sealed_def demo_call_def)
  with len have "bs = [True, False]"
    by (auto simp: length_Suc_conv numeral_2_eq_2)
  with run rep show ?thesis by blast
qed

theorem batch_survives_reentrancy_witness:
  "\<exists>r s' n. execute_batch refusing anyone (Address 1) [demo_call (Address 5), demo_call (Address 9)]
     False True False None ((), multicall_demo) = Inr (r, ((), s'))
     \<and> total_batches_key s' = Some n \<and> unat n = 4"
proof -
  obtain r s' where run: "execute_batch refusing anyone (Address 1) [demo_call (Address 5), demo_call (Address 9)]
     False True False None ((), multicall_demo) = Inr (r, ((), s'))" using multicall_demo_run by blast
  from batch_survives_reentrancy [OF refusing_law multicall_demo_inv run] run show ?thesis
    by (auto simp: multicall_demo_def)
qed

theorem stored_results_read_back_witness:
  "\<exists>r s' bs. execute_batch refusing anyone (Address 1) [demo_call (Address 5), demo_call (Address 9)]
     False True False None ((), multicall_demo) = Inr (r, ((), s'))
     \<and> get_batch_results 3 s' = Inr (map2 item_result [demo_call (Address 5), demo_call (Address 9)] bs)"
proof -
  obtain r s' where run: "execute_batch refusing anyone (Address 1) [demo_call (Address 5), demo_call (Address 9)]
     False True False None ((), multicall_demo) = Inr (r, ((), s'))" using multicall_demo_run by blast
  from stored_results_read_back [OF refusing_law multicall_demo_inv run] run show ?thesis
    by (auto simp: multicall_demo_def)
qed

theorem preflight_exact_witness:
  "preflight (Some 5) 0 [(demo_call (Address 5))\<lparr>instruction_budget := Some 6\<rparr>] \<noteq> Inr ()"
  using preflight_exact [of "Some 5" "[(demo_call (Address 5))\<lparr>instruction_budget := Some 6\<rparr>]"]
  by (simp add: declared_budgets_def del: preflight.simps)

end
