(* ===== verification/Execution.thy ===== *)
theory Execution
  imports Common
begin

text \<open>
  The contract router-execution (\<open>contracts/router-execution/src/lib.rs\<close>): a call with retries
  and backoff, fee estimation and a bounded history. As in router-multicall, what the called
  contract does is the parameter \<open>invoke\<close>.
\<close>

subsection \<open>State\<close>

datatype execution_error = NetworkTimeout | NetworkUnavailable | SimulationFailed
  | SimulationInsufficientResources | ContractRejected | ContractNotFound
  | ContractFunctionNotFound | AlreadyInitialized | NotInitialized | Unauthorized | InvalidConfig
  | InvalidAmount | ArgsTooLarge

fun error_code :: "execution_error \<Rightarrow> u32" where
  "error_code NetworkTimeout = 101"
| "error_code NetworkUnavailable = 102"
| "error_code SimulationFailed = 201"
| "error_code SimulationInsufficientResources = 202"
| "error_code ContractRejected = 301"
| "error_code ContractNotFound = 302"
| "error_code ContractFunctionNotFound = 303"
| "error_code AlreadyInitialized = 401"
| "error_code NotInitialized = 402"
| "error_code Unauthorized = 403"
| "error_code InvalidConfig = 404"
| "error_code InvalidAmount = 405"
| "error_code ArgsTooLarge = 406"

record execution_request =
  rq_target :: address
  rq_function :: symbol
  simulate_first :: bool
  rq_max_retries :: u32
  rq_args :: "val list"
  rq_amount :: i128

record execution_record =
  rec_timestamp :: u64
  rec_target :: address
  rec_function :: symbol
  rec_success :: bool
  fee_paid :: i128

record execution_result =
  er_target :: address
  er_function :: symbol
  er_success :: bool
  attempts :: u32
  simulated :: bool

record simulation_result =
  sr_target :: address
  sr_function :: symbol
  sr_success :: bool
  would_fail :: bool
  sr_message :: string

record fee_estimate =
  base_fee :: i128
  resource_fee :: i128
  total_fee :: i128
  surge_multiplier :: u32
  high_load :: bool

text \<open>An absent history reads as empty, as every reader of it does.\<close>

record execution = contract +
  max_retries_key :: "u32 option"
  total_executions :: "u64 option"
  total_errors :: "u64 option"
  backoff_base_ms :: "u64 option"
  backoff_multiplier :: "u32 option"
  exec_history :: "execution_record list"
  max_history_key :: "u32 option"

definition execution_empty :: execution where
  "execution_empty = \<lparr>admin_key = None, events = [], max_retries_key = None,
     total_executions = None, total_errors = None, backoff_base_ms = None,
     backoff_multiplier = None, exec_history = [], max_history_key = None\<rparr>"

definition MAX_ARGS_PER_CALL :: nat where
  "MAX_ARGS_PER_CALL = 20"

definition FIXED_POINT_SCALE :: u32 where
  "FIXED_POINT_SCALE = 100"

definition MIN_BACKOFF_MULTIPLIER :: u32 where
  "MIN_BACKOFF_MULTIPLIER = FIXED_POINT_SCALE"

definition MAX_BACKOFF_MULTIPLIER :: u32 where
  "MAX_BACKOFF_MULTIPLIER = 10000"

definition DEFAULT_MAX_HISTORY_SIZE :: u32 where
  "DEFAULT_MAX_HISTORY_SIZE = 1000"

definition MAX_HISTORY_SIZE_CAP :: u32 where
  "MAX_HISTORY_SIZE_CAP = 10000"

definition MAX_BACKOFF_MS :: u64 where
  "MAX_BACKOFF_MS = 3600000"

definition BASE_FEE_STROOPS :: i128 where
  "BASE_FEE_STROOPS = 100"

definition FEE_SCALE_DIVISOR :: i128 where
  "FEE_SCALE_DIVISOR = 1000"

definition MIN_RESOURCE_FEE_STROOPS :: i128 where
  "MIN_RESOURCE_FEE_STROOPS = 100"

definition HIGH_LOAD_THRESHOLD_BPS :: u32 where
  "HIGH_LOAD_THRESHOLD_BPS = 8000"

definition SURGE_MULTIPLIER :: u32 where
  "SURGE_MULTIPLIER = 200"

definition NORMAL_MULTIPLIER :: u32 where
  "NORMAL_MULTIPLIER = 100"

type_synonym 'w eledger = "('w, execution) ledger_of"

type_synonym 'w einvoke = "('w, execution) invoke_of"

subsection \<open>Helpers\<close>

definition evict_oldest :: "execution_record list \<Rightarrow> u32 \<Rightarrow> execution_record list" where
  "evict_oldest history cap =
     (if length history > unat cap then drop (length history - unat cap) history else history)"

text \<open>The plain operators of the code trap on overflow; \<open>/\<close> never does with these divisors.\<close>

definition compute_base_and_resource_fee :: "i128 \<Rightarrow> (execution_error, i128 \<times> i128) res" where
  "compute_base_and_resource_fee amount =
     bindr (expect (checked_div_i128 amount FEE_SCALE_DIVISOR)) (\<lambda>scaled.
     Inr (BASE_FEE_STROOPS,
          if sint scaled < sint MIN_RESOURCE_FEE_STROOPS then MIN_RESOURCE_FEE_STROOPS else scaled))"

definition compute_actual_fee :: "i128 \<Rightarrow> (execution_error, i128) res" where
  "compute_actual_fee amount =
     bindr (compute_base_and_resource_fee amount) (\<lambda>(base, resource).
     expect (checked_add_i128 base resource))"

text \<open>
  The backoff loop on a \<open>u128\<close>: \<open>None\<close> is the early return of \<open>MAX_BACKOFF_MS\<close>. The
  number of remaining iterations is structural.
\<close>

definition checked_mul_u128 :: "128 word \<Rightarrow> 128 word \<Rightarrow> 128 word option" where
  "checked_mul_u128 a b = (if unat a * unat b < 2 ^ 128 then Some (a * b) else None)"

fun backoff_loop :: "u32 \<Rightarrow> nat \<Rightarrow> 128 word \<Rightarrow> 128 word option" where
  "backoff_loop multiplier 0 backoff = Some backoff"
| "backoff_loop multiplier (Suc n) backoff =
     (case checked_mul_u128 backoff (ucast multiplier) of
        None \<Rightarrow> None
      | Some v \<Rightarrow>
          (let backoff' = v div ucast FIXED_POINT_SCALE
           in if backoff' \<ge> ucast MAX_BACKOFF_MS then None
              else backoff_loop multiplier n backoff'))"

definition compute_backoff_ms :: "u64 \<Rightarrow> u32 \<Rightarrow> u32 \<Rightarrow> u64" where
  "compute_backoff_ms base_ms multiplier attempt_index =
     (if base_ms = 0 \<or> multiplier \<le> FIXED_POINT_SCALE then min base_ms MAX_BACKOFF_MS
      else (case backoff_loop multiplier (unat attempt_index) (ucast base_ms) of
              None \<Rightarrow> MAX_BACKOFF_MS
            | Some backoff \<Rightarrow> ucast backoff))"

definition increment :: "u64 option \<Rightarrow> u64 option" where
  "increment counter = Some (saturating_add (unwrap_or counter 0) 1)"

definition log_error ::
    "address \<Rightarrow> symbol \<Rightarrow> execution_error \<Rightarrow> u32 \<Rightarrow> execution \<Rightarrow> execution" where
  "log_error target fn e n s =
     publish ''execution_error'' (VTuple [VAddr target, VStr fn, VU32 (error_code e), VU32 n])
       (s\<lparr>total_errors := increment (total_errors s)\<rparr>)"

definition append_history ::
    "env \<Rightarrow> address \<Rightarrow> symbol \<Rightarrow> bool \<Rightarrow> i128 \<Rightarrow> execution \<Rightarrow> execution" where
  "append_history env target fn success fee s =
     (let history = exec_history s @ [\<lparr>rec_timestamp = timestamp env, rec_target = target,
            rec_function = fn, rec_success = success, fee_paid = fee\<rparr>];
          max_history = unwrap_or (max_history_key s) DEFAULT_MAX_HISTORY_SIZE
      in s\<lparr>exec_history := evict_oldest history max_history\<rparr>)"

definition dry_run_invoke ::
    "'w einvoke \<Rightarrow> address \<Rightarrow> symbol \<Rightarrow> val list \<Rightarrow> 'w eledger \<Rightarrow> bool \<times> 'w eledger" where
  "dry_run_invoke invoke target fn args l = invoke target fn args l"

subsection \<open>Configuration\<close>

definition valid_multiplier :: "u32 \<Rightarrow> bool" where
  "valid_multiplier m \<longleftrightarrow> MIN_BACKOFF_MULTIPLIER \<le> m \<and> m \<le> MAX_BACKOFF_MULTIPLIER"

definition execution_initialize ::
    "address \<Rightarrow> u32 \<Rightarrow> u64 \<Rightarrow> u32 \<Rightarrow> execution \<Rightarrow> (execution_error, unit, execution) tx" where
  "execution_initialize admin max_retries base_ms multiplier s =
     bindr (reject_if (admin_key s \<noteq> None) AlreadyInitialized) (\<lambda>_.
     bindr (reject_if (max_retries = 0 \<or> max_retries > 5) InvalidConfig) (\<lambda>_.
     bindr (reject_if (\<not> valid_multiplier multiplier) InvalidConfig) (\<lambda>_.
     Inr ((), s\<lparr>admin_key := Some admin, max_retries_key := Some max_retries,
                backoff_base_ms := Some base_ms, backoff_multiplier := Some multiplier,
                total_executions := Some 0, total_errors := Some 0\<rparr>))))"

definition set_backoff_config ::
    "env \<Rightarrow> address \<Rightarrow> u64 \<Rightarrow> u32 \<Rightarrow> execution \<Rightarrow> (execution_error, unit, execution) tx" where
  "set_backoff_config env caller base_ms multiplier s =
     bindr (require_auth env caller) (\<lambda>_.
     bindr (require_admin caller NotInitialized Unauthorized s) (\<lambda>_.
     bindr (reject_if (\<not> valid_multiplier multiplier) InvalidConfig) (\<lambda>_.
     let old_base_ms = unwrap_or (backoff_base_ms s) 0;
         old_multiplier = unwrap_or (backoff_multiplier s) FIXED_POINT_SCALE
     in Inr ((), publish ''backoff_config_updated''
                   (VTuple [VU64 old_base_ms, VU32 old_multiplier, VU64 base_ms, VU32 multiplier])
                   (s\<lparr>backoff_base_ms := Some base_ms, backoff_multiplier := Some multiplier\<rparr>)))))"

definition set_max_retries ::
    "env \<Rightarrow> address \<Rightarrow> u32 \<Rightarrow> execution \<Rightarrow> (execution_error, unit, execution) tx" where
  "set_max_retries env caller new_max s =
     bindr (require_auth env caller) (\<lambda>_.
     bindr (require_admin caller NotInitialized Unauthorized s) (\<lambda>_.
     bindr (reject_if (new_max = 0 \<or> new_max > 5) InvalidConfig) (\<lambda>_.
     Inr ((), publish ''max_retries_updated''
                (VTuple [VU32 (unwrap_or (max_retries_key s) 0), VU32 new_max])
                (s\<lparr>max_retries_key := Some new_max\<rparr>)))))"

definition set_max_history_size ::
    "env \<Rightarrow> address \<Rightarrow> u32 \<Rightarrow> execution \<Rightarrow> (execution_error, unit, execution) tx" where
  "set_max_history_size env caller new_max s =
     bindr (require_auth env caller) (\<lambda>_.
     bindr (require_admin caller NotInitialized Unauthorized s) (\<lambda>_.
     bindr (reject_if (new_max = 0 \<or> new_max > MAX_HISTORY_SIZE_CAP) InvalidConfig) (\<lambda>_.
     let old_max = unwrap_or (max_history_key s) DEFAULT_MAX_HISTORY_SIZE
     in Inr ((), publish ''max_history_size_updated'' (VTuple [VU32 old_max, VU32 new_max])
                   (s\<lparr>max_history_key := Some new_max,
                      exec_history := evict_oldest (exec_history s) new_max\<rparr>)))))"

definition execution_transfer_admin ::
    "env \<Rightarrow> address \<Rightarrow> address \<Rightarrow> execution \<Rightarrow> (execution_error, unit, execution) tx" where
  "execution_transfer_admin env current new_admin s =
     bindr (require_auth env current) (\<lambda>_.
     bindr (require_admin current NotInitialized Unauthorized s) (\<lambda>_.
     Inr ((), admin_transfer_complete current new_admin s)))"

subsection \<open>Execution with retries\<close>

text \<open>
  What the retry loop needs besides the request: the number of retries, the backoff configuration
  and the fee to record.
\<close>

record retry_plan =
  plan_retries :: u32
  plan_base_ms :: u64
  plan_multiplier :: u32
  plan_fee :: i128

text \<open>
  One iteration per attempt; \<open>carried\<close> is the result of the simulation, used up by the first
  attempt. The writes that precede the returned error are kept in the model as the code has them,
  in the \<open>let\<close>, although the host discards them with the error.
\<close>

function retry_loop ::
    "'w einvoke \<Rightarrow> env \<Rightarrow> execution_request \<Rightarrow> retry_plan \<Rightarrow> bool option \<Rightarrow> u32 \<Rightarrow> 'w eledger
      \<Rightarrow> (execution_error, execution_result, 'w eledger) tx" where
  "retry_loop invoke env rq plan carried n l =
     (case checked_add n 1 of
        None \<Rightarrow> Inl Trap
      | Some k \<Rightarrow>
     (case (case carried of
              Some result \<Rightarrow> (result, l)
            | None \<Rightarrow> dry_run_invoke invoke (rq_target rq) (rq_function rq) (rq_args rq) l) of
        (invoke_ok, w, s) \<Rightarrow>
          if invoke_ok then
            (let s1 = s\<lparr>total_executions := increment (total_executions s)\<rparr>;
                 s2 = append_history env (rq_target rq) (rq_function rq) True (plan_fee plan) s1;
                 exec_result = \<lparr>er_target = rq_target rq, er_function = rq_function rq,
                   er_success = True, attempts = k, simulated = simulate_first rq\<rparr>
             in Inr (exec_result, w, publish ''execution_result''
                  (VTuple [VAddr (rq_target rq), VStr (rq_function rq), VBool True, VU32 k]) s2))
          else if k \<le> plan_retries plan then
            (let delay_ms = compute_backoff_ms (plan_base_ms plan) (plan_multiplier plan) (k - 1)
             in retry_loop invoke env rq plan None k
                  (w, publish ''execution_retry''
                     (VTuple [VAddr (rq_target rq), VStr (rq_function rq), VU32 k, VU64 delay_ms]) s))
          else
            (let s1 = log_error (rq_target rq) (rq_function rq) ContractRejected k s;
                 s2 = append_history env (rq_target rq) (rq_function rq) False (plan_fee plan) s1
             in Inl (Err ContractRejected))))"
  by pat_completeness auto

termination
proof (relation "measure (\<lambda>(invoke, env, rq, plan, carried, n, l). 2 ^ 32 - unat n)")
  fix n k :: u32
  assume "checked_add n 1 = Some k"
  then have "unat k = unat n + 1" by (simp add: checked_add_Some_iff)
  moreover have "unat k < 2 ^ LENGTH(32)" by (rule unsigned_less)
  ultimately show "((invoke, env, rq, plan, None, k, l), invoke, env, rq, plan, c, n, l')
      \<in> measure (\<lambda>(invoke, env, rq, plan, carried, n, l). 2 ^ 32 - unat n)"
    for invoke :: "'w einvoke" and env :: env and rq :: execution_request and plan :: retry_plan
      and c :: "bool option" and l l' :: "'w eledger" by simp
qed simp

declare retry_loop.simps [simp del]

definition execute ::
    "'w einvoke \<Rightarrow> env \<Rightarrow> address \<Rightarrow> execution_request \<Rightarrow> 'w eledger
      \<Rightarrow> (execution_error, execution_result, 'w eledger) tx" where
  "execute invoke env caller rq l =
     bindr (require_auth env caller) (\<lambda>_.
     bindr (reject_if (admin_key (snd l) = None) NotInitialized) (\<lambda>_.
     bindr (reject_if (sint (rq_amount rq) \<le> 0) InvalidAmount) (\<lambda>_.
     bindr (reject_if (length (rq_args rq) > MAX_ARGS_PER_CALL) ArgsTooLarge) (\<lambda>_.
     bindr (ok_or (max_retries_key (snd l)) NotInitialized) (\<lambda>max_retries.
     let effective_retries = (if rq_max_retries rq < max_retries then rq_max_retries rq
                              else max_retries) in
     bindr (compute_actual_fee (rq_amount rq)) (\<lambda>fee.
     bindr (if simulate_first rq then
              (case dry_run_invoke invoke (rq_target rq) (rq_function rq) (rq_args rq) l of
                 (sim_ok, w, s) \<Rightarrow>
                   if \<not> sim_ok then
                     (let s1 = log_error (rq_target rq) (rq_function rq) SimulationFailed 0 s;
                          s2 = append_history env (rq_target rq) (rq_function rq) False 0 s1
                      in Inl (Err SimulationFailed))
                   else Inr (Some sim_ok, (w, s)))
            else Inr (None, l)) (\<lambda>(carried, l1).
     retry_loop invoke env rq
       \<lparr>plan_retries = effective_retries,
        plan_base_ms = unwrap_or (backoff_base_ms (snd l1)) 0,
        plan_multiplier = unwrap_or (backoff_multiplier (snd l1)) 100,
        plan_fee = fee\<rparr> carried 0 l1)))))))"

definition simulate ::
    "'w einvoke \<Rightarrow> env \<Rightarrow> address \<Rightarrow> address \<Rightarrow> symbol \<Rightarrow> val list \<Rightarrow> 'w eledger
      \<Rightarrow> (execution_error, simulation_result, 'w eledger) tx" where
  "simulate invoke env caller target fn args l =
     bindr (require_auth env caller) (\<lambda>_.
     bindr (reject_if (admin_key (snd l) = None) NotInitialized) (\<lambda>_.
     bindr (reject_if (length args > MAX_ARGS_PER_CALL) ArgsTooLarge) (\<lambda>_.
     case dry_run_invoke invoke target fn args l of
       (sim_ok, w, s) \<Rightarrow>
         (let message = (if sim_ok then ''simulation succeeded''
                         else ''simulation failed: transaction would be rejected'')
          in Inr (\<lparr>sr_target = target, sr_function = fn, sr_success = sim_ok,
                   would_fail = (\<not> sim_ok), sr_message = message\<rparr>,
                  w, publish ''simulation_result''
                       (VTuple [VAddr target, VStr fn, VBool sim_ok]) s)))))"

subsection \<open>Fees\<close>

definition mul_i128 :: "i128 \<Rightarrow> i128 \<Rightarrow> (execution_error, i128) res" where
  "mul_i128 a b = expect (checked_mul_i128 a b)"

definition estimate_fee ::
    "address \<Rightarrow> symbol \<Rightarrow> i128 \<Rightarrow> u32 \<Rightarrow> execution \<Rightarrow> (execution_error, fee_estimate, execution) tx" where
  "estimate_fee target fn amount caller_asserted_load_bps s =
     bindr (reject_if (admin_key s = None) NotInitialized) (\<lambda>_.
     bindr (reject_if (sint amount \<le> 0) InvalidAmount) (\<lambda>_.
     bindr (compute_base_and_resource_fee amount) (\<lambda>(base, resource).
     case (if caller_asserted_load_bps \<ge> HIGH_LOAD_THRESHOLD_BPS then (SURGE_MULTIPLIER, True)
           else (NORMAL_MULTIPLIER, False)) of
       (surge, high) \<Rightarrow>
     bindr (expect (checked_add_i128 base resource)) (\<lambda>sum.
     bindr (mul_i128 sum (ucast surge)) (\<lambda>scaled.
     bindr (expect (checked_div_i128 scaled (ucast FIXED_POINT_SCALE))) (\<lambda>total.
     Inr (\<lparr>base_fee = base, resource_fee = resource, total_fee = total,
           surge_multiplier = surge, high_load = high\<rparr>,
          publish ''fee_estimated'' (VTuple [VI128 total, VBool high]) s)))))))"

subsection \<open>Views\<close>

definition backoff_config :: "execution \<Rightarrow> (execution_error, u64 \<times> u32) res" where
  "backoff_config s =
     bindr (reject_if (admin_key s = None) NotInitialized) (\<lambda>_.
     Inr (unwrap_or (backoff_base_ms s) 0, unwrap_or (backoff_multiplier s) FIXED_POINT_SCALE))"

definition max_retries :: "execution \<Rightarrow> (execution_error, u32) res" where
  "max_retries s = ok_or (max_retries_key s) NotInitialized"

definition max_history_size :: "execution \<Rightarrow> (execution_error, u32) res" where
  "max_history_size s =
     bindr (reject_if (admin_key s = None) NotInitialized) (\<lambda>_.
     Inr (unwrap_or (max_history_key s) DEFAULT_MAX_HISTORY_SIZE))"

text \<open>The loop of \<open>get_execution_history\<close>, from index \<open>i\<close> down.\<close>

fun newest :: "execution_record list \<Rightarrow> nat \<Rightarrow> nat \<Rightarrow> execution_record list" where
  "newest history 0 to_take = []"
| "newest history (Suc i) to_take =
     (if to_take = 0 then [] else history ! i # newest history i (to_take - 1))"

definition get_execution_history ::
    "u32 \<Rightarrow> execution \<Rightarrow> (execution_error, execution_record list) res" where
  "get_execution_history limit s =
     bindr (reject_if (admin_key s = None) NotInitialized) (\<lambda>_.
     let len = length (exec_history s);
         to_take = (if unat limit > len then len else unat limit)
     in Inr (newest (exec_history s) len to_take))"

definition execution_history_len :: "execution \<Rightarrow> (execution_error, u32) res" where
  "execution_history_len s =
     bindr (reject_if (admin_key s = None) NotInitialized) (\<lambda>_.
     Inr (of_nat (length (exec_history s))))"

definition execution_admin :: "execution \<Rightarrow> (execution_error, address) res" where
  "execution_admin s = ok_or (admin_key s) NotInitialized"

definition stats :: "execution \<Rightarrow> u64 \<times> u64" where
  "stats s = (unwrap_or (total_executions s) 0, unwrap_or (total_errors s) 0)"

subsection \<open>The contract as a machine\<close>

datatype execution_call = EInitialize address u32 u64 u32
  | EExecute address execution_request
  | ESimulate address address symbol "val list"
  | EEstimateFee address symbol i128 u32
  | ESetBackoff address u64 u32
  | ESetMaxRetries address u32
  | ESetMaxHistory address u32
  | ETransferAdmin address address

definition on_execution ::
    "(execution \<Rightarrow> (execution_error, 'a, execution) tx) \<Rightarrow> 'w eledger \<Rightarrow> (execution_error, 'w eledger) res" where
  "on_execution f l = (case l of (w, s) \<Rightarrow> bindr (f s) (\<lambda>(_, s'). Inr (w, s')))"

fun execution_step ::
    "'w einvoke \<Rightarrow> env \<Rightarrow> execution_call \<Rightarrow> 'w eledger \<Rightarrow> (execution_error, 'w eledger) res" where
  "execution_step invoke env (EInitialize a r b m) l = on_execution (execution_initialize a r b m) l"
| "execution_step invoke env (EExecute c rq) l = returns (execute invoke env c rq l)"
| "execution_step invoke env (ESimulate c t fn args) l = returns (simulate invoke env c t fn args l)"
| "execution_step invoke env (EEstimateFee t fn amount load) l =
     on_execution (estimate_fee t fn amount load) l"
| "execution_step invoke env (ESetBackoff c b m) l = on_execution (set_backoff_config env c b m) l"
| "execution_step invoke env (ESetMaxRetries c n) l = on_execution (set_max_retries env c n) l"
| "execution_step invoke env (ESetMaxHistory c n) l = on_execution (set_max_history_size env c n) l"
| "execution_step invoke env (ETransferAdmin c n) l =
     on_execution (execution_transfer_admin env c n) l"

end
