(* ===== verification/Execution_Props.thy ===== *)
theory Execution_Props
  imports Execution
begin

text \<open>
  Correctness of router-execution: the retry loop against its attempts one by one, the fees and the
  backoff delays in exact arithmetic, the bounded history, and what the contract never records.
\<close>

subsection \<open>Writers, field by field\<close>

lemma publish_execution [simp]:
  "max_retries_key (publish t d s) = max_retries_key s"
  "total_executions (publish t d s) = total_executions s"
  "total_errors (publish t d s) = total_errors s"
  "backoff_base_ms (publish t d s) = backoff_base_ms s"
  "backoff_multiplier (publish t d s) = backoff_multiplier s"
  "exec_history (publish t d s) = exec_history s" "max_history_key (publish t d s) = max_history_key s"
  by (simp_all add: publish_def)

lemma admin_transfer_execution [simp]:
  "max_retries_key (admin_transfer_complete c n s) = max_retries_key s"
  "total_executions (admin_transfer_complete c n s) = total_executions s"
  "total_errors (admin_transfer_complete c n s) = total_errors s"
  "backoff_base_ms (admin_transfer_complete c n s) = backoff_base_ms s"
  "backoff_multiplier (admin_transfer_complete c n s) = backoff_multiplier s"
  "exec_history (admin_transfer_complete c n s) = exec_history s"
  "max_history_key (admin_transfer_complete c n s) = max_history_key s"
  by (simp_all add: admin_transfer_complete_def)

definition new_record :: "env \<Rightarrow> address \<Rightarrow> symbol \<Rightarrow> bool \<Rightarrow> i128 \<Rightarrow> execution_record" where
  "new_record env t fn b fee = \<lparr>rec_timestamp = timestamp env, rec_target = t, rec_function = fn,
     rec_success = b, fee_paid = fee\<rparr>"

lemma append_history_sel [simp]:
  "admin_key (append_history env t fn b fee s) = admin_key s"
  "events (append_history env t fn b fee s) = events s"
  "max_retries_key (append_history env t fn b fee s) = max_retries_key s"
  "total_executions (append_history env t fn b fee s) = total_executions s"
  "total_errors (append_history env t fn b fee s) = total_errors s"
  "backoff_base_ms (append_history env t fn b fee s) = backoff_base_ms s"
  "backoff_multiplier (append_history env t fn b fee s) = backoff_multiplier s"
  "max_history_key (append_history env t fn b fee s) = max_history_key s"
  "exec_history (append_history env t fn b fee s) =
     evict_oldest (exec_history s @ [new_record env t fn b fee])
       (unwrap_or (max_history_key s) DEFAULT_MAX_HISTORY_SIZE)"
  by (simp_all add: append_history_def new_record_def Let_def)

lemma on_execution_Inr_iff [res_simps]:
  "on_execution f l = Inr l' \<longleftrightarrow> (\<exists>x s'. f (snd l) = Inr (x, s') \<and> l' = (fst l, s'))"
  by (cases l) (auto simp: on_execution_def res_simps)

lemma evict_oldest_length: "length (evict_oldest h cap) \<le> unat cap"
  by (simp add: evict_oldest_def)

lemma evict_oldest_set: "set (evict_oldest h cap) \<subseteq> set h"
  by (simp add: evict_oldest_def set_drop_subset)

subsection \<open>Fees\<close>

text \<open>The fee in exact arithmetic.\<close>

definition exact_resource :: "i128 \<Rightarrow> int" where
  "exact_resource amount = max 100 (sint amount div 1000)"

lemma sint_consts [simp]:
  "sint BASE_FEE_STROOPS = 100" "sint FEE_SCALE_DIVISOR = 1000" "sint MIN_RESOURCE_FEE_STROOPS = 100"
  "FEE_SCALE_DIVISOR \<noteq> 0"
  by (simp_all add: BASE_FEE_STROOPS_def FEE_SCALE_DIVISOR_def MIN_RESOURCE_FEE_STROOPS_def)

lemma i128_of_exists: "in_i128 z \<Longrightarrow> \<exists>x. i128_of z = Some x \<and> sint x = z"
  by (simp add: i128_of_def sint_word_of_int_i128)

lemma base_and_resource:
  assumes "0 < sint amount"
  shows "\<exists>r. compute_base_and_resource_fee amount = Inr (BASE_FEE_STROOPS, r)
    \<and> sint r = exact_resource amount"
proof -
  have bound: "sint amount < 2 ^ 127" using sint_lt [of amount] by simp
  have td: "trunc_div (sint amount) 1000 = sint amount div 1000"
    using assms by (simp add: trunc_div_def)
  have "0 \<le> sint amount div 1000" "sint amount div 1000 \<le> sint amount"
    using assms zdiv_mono2 [of "sint amount" 1 1000] by (simp_all add: pos_imp_zdiv_nonneg_iff)
  with bound have "0 \<le> sint amount div 1000" "sint amount div 1000 < 2 ^ 127" by linarith+
  then have "in_i128 (sint amount div 1000)" by (simp add: in_i128_def)
  from i128_of_exists [OF this] obtain q where
    q: "checked_div_i128 amount FEE_SCALE_DIVISOR = Some q" "sint q = sint amount div 1000"
    by (auto simp: checked_div_i128_def td)
  then show ?thesis
    by (auto simp: compute_base_and_resource_fee_def exact_resource_def)
qed
lemma exact_resource_bounds:
  assumes "0 < sint amount"
  shows "100 \<le> exact_resource amount" and "exact_resource amount \<le> 2 ^ 127 div 1000 + 100"
proof -
  have "sint amount < 2 ^ 127" using sint_lt [of amount] by simp
  then have "sint amount div 1000 \<le> 2 ^ 127 div 1000" by (intro zdiv_mono1) simp_all
  then show "100 \<le> exact_resource amount" "exact_resource amount \<le> 2 ^ 127 div 1000 + 100"
    by (simp_all add: exact_resource_def)
qed

lemma actual_fee:
  assumes "0 < sint amount"
  shows "\<exists>fee. compute_actual_fee amount = Inr fee \<and> sint fee = 100 + exact_resource amount"
proof -
  from base_and_resource [OF assms] obtain r where
    r: "compute_base_and_resource_fee amount = Inr (BASE_FEE_STROOPS, r)" "sint r = exact_resource amount" by blast
  have "in_i128 (100 + exact_resource amount)"
    using exact_resource_bounds [OF assms] by (simp add: in_i128_def)
  from i128_of_exists [OF this] obtain fee where
    "checked_add_i128 BASE_FEE_STROOPS r = Some fee" "sint fee = 100 + exact_resource amount"
    by (auto simp: checked_add_i128_def r(2))
  with r show ?thesis by (simp add: compute_actual_fee_def)
qed

text \<open>
  A fee estimate of an initialised contract for a positive amount never traps, for any
  128-bit amount: it is the base fee of 100 plus a thousandth of the amount, at least 100, doubled
  when the asserted load reaches 80%. Without surge it equals the fee that \<open>execute\<close> records.
\<close>

theorem estimate_fee_exact:
  assumes "admin_key s \<noteq> None" and "0 < sint amount"
  shows "\<exists>f s'. estimate_fee target fn amount load s = Inr (f, s')
    \<and> sint (base_fee f) = 100 \<and> sint (resource_fee f) = max 100 (sint amount div 1000)
    \<and> sint (total_fee f) = (100 + max 100 (sint amount div 1000)) * (if load \<ge> 8000 then 2 else 1)
    \<and> high_load f = (load \<ge> 8000)
    \<and> (load < 8000 \<longrightarrow> compute_actual_fee amount = Inr (total_fee f))"
proof -
  from base_and_resource [OF assms(2)] obtain r where
    r: "compute_base_and_resource_fee amount = Inr (BASE_FEE_STROOPS, r)" "sint r = exact_resource amount" by blast
  from actual_fee [OF assms(2)] obtain sum where
    sum: "compute_actual_fee amount = Inr sum" "sint sum = 100 + exact_resource amount" by blast
  with r have add: "checked_add_i128 BASE_FEE_STROOPS r = Some sum"
    by (simp add: compute_actual_fee_def res_simps)
  define surge where "surge = (if load \<ge> 8000 then SURGE_MULTIPLIER else NORMAL_MULTIPLIER)"
  have surge: "sint (ucast surge :: i128) = (if load \<ge> 8000 then 200 else 100)"
    by (simp add: surge_def SURGE_MULTIPLIER_def NORMAL_MULTIPLIER_def)
  let ?m = "if load \<ge> 8000 then 200 else 100 :: int"
  have fits: "in_i128 ((100 + exact_resource amount) * ?m)"
    using exact_resource_bounds [OF assms(2)] by (simp add: in_i128_def)
  from i128_of_exists [OF fits] obtain scaled where
    scaled: "checked_mul_i128 sum (ucast surge) = Some scaled"
      "sint scaled = (100 + exact_resource amount) * ?m"
    by (auto simp: checked_mul_i128_def sum(2) surge)
  have pos: "0 < 100 + exact_resource amount" using exact_resource_bounds [OF assms(2)] by simp
  then have "trunc_div ((100 + exact_resource amount) * ?m) 100
      = (100 + exact_resource amount) * (if load \<ge> 8000 then 2 else 1)"
    by (simp add: trunc_div_def sgn_mult)
  moreover have "in_i128 ((100 + exact_resource amount) * (if load \<ge> 8000 then 2 else 1))"
    using fits pos by (auto simp: in_i128_def)
  moreover have "sint (ucast FIXED_POINT_SCALE :: i128) = 100" "(ucast FIXED_POINT_SCALE :: i128) \<noteq> 0"
    by (simp_all add: FIXED_POINT_SCALE_def)
  ultimately obtain total where total: "checked_div_i128 scaled (ucast FIXED_POINT_SCALE) = Some total"
    "sint total = (100 + exact_resource amount) * (if load \<ge> 8000 then 2 else 1)"
    using i128_of_exists [of "(100 + exact_resource amount) * (if load \<ge> 8000 then 2 else 1)"]
    by (auto simp: checked_div_i128_def scaled(2))
  have "sint total = sint sum" if "\<not> 8000 \<le> load"
    using that total(2) sum(2) by simp
  then have "load < 8000 \<longrightarrow> total = sum" by (metis signed_word_eqI not_le)
  moreover have "estimate_fee target fn amount load s = Inr (\<lparr>base_fee = BASE_FEE_STROOPS, resource_fee = r,
      total_fee = total, surge_multiplier = surge, high_load = (load \<ge> 8000)\<rparr>,
      publish ''fee_estimated'' (VTuple [VI128 total, VBool (load \<ge> 8000)]) s)"
    using assms r(1) add scaled(1) total(1)
    by (cases "admin_key s"; cases "8000 \<le> load")
      (simp_all add: estimate_fee_def mul_i128_def HIGH_LOAD_THRESHOLD_BPS_def surge_def)
  ultimately show ?thesis
    using r(2) total(2) sum(1) by (simp add: exact_resource_def)
qed

subsection \<open>Backoff\<close>

text \<open>The delay in exact arithmetic: one rounding per attempt.\<close>

primrec exact_backoff :: "nat \<Rightarrow> nat \<Rightarrow> nat \<Rightarrow> nat" where
  "exact_backoff base m 0 = base"
| "exact_backoff base m (Suc n) = exact_backoff base m n * m div 100"

lemma exact_backoff_shift: "exact_backoff base m (Suc n) = exact_backoff (base * m div 100) m n"
  by (induction n) simp_all

lemma exact_backoff_grows: "100 \<le> m \<Longrightarrow> x \<le> exact_backoff x m n"
proof (induction n)
  case (Suc n)
  have "exact_backoff x m n * 100 \<le> exact_backoff x m n * m" using Suc.prems by simp
  then have "exact_backoff x m n \<le> exact_backoff x m n * m div 100"
    by (metis div_le_mono nonzero_mult_div_cancel_right zero_neq_numeral)
  with Suc show ?case by simp
qed simp

lemma exact_backoff_one: "exact_backoff x 100 n = x"
  by (induction n) simp_all

lemma unat_word_mult: "unat a * unat b < 2 ^ LENGTH('a) \<Longrightarrow> unat (a * b :: 'a::len word) = unat a * unat b"
  by (simp add: unat_word_ariths)

lemma unat_widen:
  "unat (ucast (a :: u32) :: 128 word) = unat a" "unat (ucast (b :: u64) :: 128 word) = unat b"
proof -
  have "unat a < 2 ^ LENGTH(32)" "unat b < 2 ^ LENGTH(64)" by (rule unsigned_less)+
  then show "unat (ucast a :: 128 word) = unat a" "unat (ucast b :: 128 word) = unat b"
    by (simp_all add: unsigned_ucast_eq take_bit_nat_eq_self)
qed

lemma unat_narrow: "unat v < 2 ^ 64 \<Longrightarrow> unat (ucast (v :: 128 word) :: u64) = unat v"
  by (simp add: unsigned_ucast_eq take_bit_nat_eq_self)

lemma backoff_loop_exact:
  assumes "FIXED_POINT_SCALE < m" and "unat b < 3600000"
  shows "case backoff_loop m n b of
       None \<Rightarrow> 3600000 \<le> exact_backoff (unat b) (unat m) n
     | Some v \<Rightarrow> unat v = exact_backoff (unat b) (unat m) n \<and> unat v < 3600000"
  using assms(2)
proof (induction n arbitrary: b)
  case (Suc n)
  have "unat m < 2 ^ LENGTH(32)" by (rule unsigned_less)
  then have "unat b * unat m < 3600000 * 2 ^ 32"
    using Suc.prems by (intro mult_strict_mono) simp_all
  then have small: "unat b * unat (ucast m :: 128 word) < 2 ^ 128" by (simp add: unat_widen)
  then have mul: "checked_mul_u128 b (ucast m) = Some (b * ucast m)"
    by (simp add: checked_mul_u128_def)
  let ?v = "b * ucast m div ucast FIXED_POINT_SCALE :: 128 word"
  have v: "unat ?v = unat b * unat m div 100"
    using unat_word_mult [of b "ucast m"] small
    by (simp add: unat_div_distrib FIXED_POINT_SCALE_def unat_widen)
  have ge: "?v \<ge> ucast MAX_BACKOFF_MS \<longleftrightarrow> 3600000 \<le> unat ?v"
    by (simp add: word_conv MAX_BACKOFF_MS_def)
  have m: "100 \<le> unat m" using assms(1) by (simp add: FIXED_POINT_SCALE_def word_conv)
  show ?case
  proof (cases "3600000 \<le> unat ?v")
    case True
    with exact_backoff_grows [OF m, of "unat ?v" n] show ?thesis
      unfolding exact_backoff_shift using mul ge v by (simp add: Let_def)
  next
    case False
    with Suc.IH [of ?v] have "case backoff_loop m n ?v of
       None \<Rightarrow> 3600000 \<le> exact_backoff (unat b * unat m div 100) (unat m) n
     | Some v \<Rightarrow> unat v = exact_backoff (unat b * unat m div 100) (unat m) n \<and> unat v < 3600000"
      unfolding v by simp
    with False show ?thesis
      unfolding exact_backoff_shift by (simp add: Let_def mul ge)
  qed
qed simp

text \<open>
  For a base delay of at most an hour and any accepted multiplier, the delay before a retry is
  the base grown once per earlier attempt, in exact arithmetic with one rounding down per step,
  and cut off at one hour; no intermediate product is lost, whatever the attempt number.
\<close>

theorem backoff_exact:
  assumes "base \<le> MAX_BACKOFF_MS" and "FIXED_POINT_SCALE \<le> m"
  shows "unat (compute_backoff_ms base m n) = min 3600000 (exact_backoff (unat base) (unat m) (unat n))"
proof -
  have max_ms: "unat MAX_BACKOFF_MS = 3600000" by (simp add: MAX_BACKOFF_MS_def)
  have base: "unat base \<le> 3600000" using assms(1) by (simp add: word_conv max_ms)
  have m: "100 \<le> unat m" using assms(2) by (simp add: FIXED_POINT_SCALE_def word_conv)
  show ?thesis
  proof (cases "base = 0 \<or> m \<le> FIXED_POINT_SCALE")
    case True
    have "exact_backoff 0 k i = 0" for k i by (induction i) simp_all
    moreover have "m = FIXED_POINT_SCALE" if "base \<noteq> 0" using that True assms(2) by simp
    then have "unat m = 100" if "base \<noteq> 0" using that by (simp add: FIXED_POINT_SCALE_def)
    ultimately show ?thesis
      using True assms(1) base by (cases "base = 0") (auto simp: compute_backoff_ms_def exact_backoff_one min_def)
  next
    case False
    then have big: "FIXED_POINT_SCALE < m" by (simp add: not_le)
    let ?b = "ucast base :: 128 word"
    have b: "unat ?b = unat base" by (simp add: unat_widen)
    show ?thesis
    proof (cases "unat base < 3600000")
      case True
      note loop = backoff_loop_exact [OF big, of ?b "unat n", unfolded b, OF True]
      show ?thesis
      proof (cases "backoff_loop m (unat n) ?b")
        case None
        with loop False show ?thesis by (simp add: compute_backoff_ms_def max_ms)
      next
        case (Some v)
        with loop have v: "unat v = exact_backoff (unat base) (unat m) (unat n)" "unat v < 3600000" by simp_all
        then have "unat (ucast v :: u64) = unat v" by (simp add: unat_narrow)
        with Some False v show ?thesis by (simp add: compute_backoff_ms_def)
      qed
    next
      case big_base: False
      then have eq: "unat base = 3600000" using base by simp
      have "unat (compute_backoff_ms base m n) = 3600000"
      proof (cases "unat n")
        case 0
        with False eq show ?thesis by (simp add: compute_backoff_ms_def unat_narrow unat_widen)
      next
        case (Suc k)
        have "unat m < 2 ^ LENGTH(32)" by (rule unsigned_less)
        then have small: "unat ?b * unat (ucast m :: 128 word) < 2 ^ 128"
          by (simp add: unat_widen eq)
        then have mul: "checked_mul_u128 ?b (ucast m) = Some (?b * ucast m)"
          by (simp add: checked_mul_u128_def)
        have "unat (?b * ucast m div ucast FIXED_POINT_SCALE :: 128 word) = 3600000 * unat m div 100"
          using unat_word_mult [of ?b "ucast m"] small
          by (simp add: unat_div_distrib FIXED_POINT_SCALE_def unat_widen eq)
        moreover have "3600000 \<le> 3600000 * unat m div 100" using m by simp
        ultimately have "backoff_loop m (unat n) ?b = None"
          using Suc mul by (simp add: Let_def word_conv MAX_BACKOFF_MS_def)
        with False show ?thesis by (simp add: compute_backoff_ms_def max_ms)
      qed
      moreover have "3600000 \<le> exact_backoff (unat base) (unat m) (unat n)"
        using exact_backoff_grows [OF m, of 3600000] eq by simp
      ultimately show ?thesis by simp
    qed
  qed
qed

text \<open>A longer base delay is not cut off before the first retry.\<close>

lemma backoff_uncapped: "compute_backoff_ms 7200000 200 0 = 7200000"
  by (simp add: compute_backoff_ms_def FIXED_POINT_SCALE_def)

subsection \<open>The retry loop\<close>

definition call_target :: "'w einvoke \<Rightarrow> execution_request \<Rightarrow> 'w eledger \<Rightarrow> bool \<times> 'w eledger" where
  "call_target invoke rq l = invoke (rq_target rq) (rq_function rq) (rq_args rq) l"

definition retry_event :: "execution_request \<Rightarrow> retry_plan \<Rightarrow> nat \<Rightarrow> execution \<Rightarrow> execution" where
  "retry_event rq plan k s = publish ''execution_retry''
     (VTuple [VAddr (rq_target rq), VStr (rq_function rq), VU32 (of_nat k),
        VU64 (compute_backoff_ms (plan_base_ms plan) (plan_multiplier plan) (of_nat k - 1))]) s"

text \<open>The ledger after \<open>n\<close> attempts, if all of them fail.\<close>

fun failed_attempts ::
    "'w einvoke \<Rightarrow> execution_request \<Rightarrow> retry_plan \<Rightarrow> nat \<Rightarrow> 'w eledger \<Rightarrow> 'w eledger option" where
  "failed_attempts invoke rq plan 0 l = Some l"
| "failed_attempts invoke rq plan (Suc n) l =
     (case failed_attempts invoke rq plan n l of
        None \<Rightarrow> None
      | Some l1 \<Rightarrow> (case call_target invoke rq l1 of
          (ok, w, s) \<Rightarrow> if ok then None else Some (w, retry_event rq plan (Suc n) s)))"

definition success_result :: "execution_request \<Rightarrow> nat \<Rightarrow> execution_result" where
  "success_result rq k = \<lparr>er_target = rq_target rq, er_function = rq_function rq, er_success = True,
     attempts = of_nat k, simulated = simulate_first rq\<rparr>"

definition success_state ::
    "env \<Rightarrow> execution_request \<Rightarrow> i128 \<Rightarrow> nat \<Rightarrow> execution \<Rightarrow> execution" where
  "success_state env rq fee k s = publish ''execution_result''
     (VTuple [VAddr (rq_target rq), VStr (rq_function rq), VBool True, VU32 (of_nat k)])
     (append_history env (rq_target rq) (rq_function rq) True fee
        (s\<lparr>total_executions := increment (total_executions s)\<rparr>))"

lemma retry_loop_step:
  assumes "unat n + 1 < 2 ^ 32"
  shows "retry_loop invoke env rq plan carried n l =
     (case (case carried of Some result \<Rightarrow> (result, l) | None \<Rightarrow> call_target invoke rq l) of
        (ok, w, s) \<Rightarrow>
          if ok then Inr (success_result rq (Suc (unat n)), (w, success_state env rq (plan_fee plan) (Suc (unat n)) s))
          else if Suc (unat n) \<le> unat (plan_retries plan)
          then retry_loop invoke env rq plan None (n + 1) (w, retry_event rq plan (Suc (unat n)) s)
          else Inl (Err ContractRejected))"
proof -
  have k: "checked_add n 1 = Some (n + 1)" using assms by (simp add: checked_add_def)
  have u: "unat (n + 1) = Suc (unat n)" using k by (simp add: checked_add_Some_iff)
  have w: "(of_nat (unat n) :: u32) = n" "1 + n = n + 1" by (simp_all add: add.commute)
  show ?thesis
    by (subst retry_loop.simps)
      (auto simp: k u w word_le_nat_alt call_target_def dry_run_invoke_def success_result_def
        success_state_def retry_event_def Let_def split: prod.splits option.splits)
qed

text \<open>
  The loop entered before attempt \<open>n + 1\<close>, all earlier attempts having failed: the first attempt
  that succeeds decides, at most \<open>plan_retries + 1\<close> of them are made.
\<close>

definition loop_result ::
    "'w einvoke \<Rightarrow> env \<Rightarrow> execution_request \<Rightarrow> retry_plan \<Rightarrow> 'w eledger
      \<Rightarrow> (execution_error, execution_result, 'w eledger) tx \<Rightarrow> bool" where
  "loop_result invoke env rq plan l0 r \<longleftrightarrow>
     (\<exists>k lk w s. k \<le> unat (plan_retries plan) \<and> failed_attempts invoke rq plan k l0 = Some lk
        \<and> call_target invoke rq lk = (True, (w, s))
        \<and> r = Inr (success_result rq (Suc k), (w, success_state env rq (plan_fee plan) (Suc k) s)))
     \<or> failed_attempts invoke rq plan (Suc (unat (plan_retries plan))) l0 \<noteq> None
       \<and> r = Inl (Err ContractRejected)"

lemma loop_result_success:
  assumes "failed_attempts invoke rq plan k l0 = Some l" and "k \<le> unat (plan_retries plan)"
    and "call_target invoke rq l = (True, (w, s))"
  shows "loop_result invoke env rq plan l0
    (Inr (success_result rq (Suc k), (w, success_state env rq (plan_fee plan) (Suc k) s)))"
  using assms unfolding loop_result_def by blast

lemma retry_loop_spec:
  assumes "unat (plan_retries plan) + 1 < 2 ^ 32"
  shows "unat n \<le> unat (plan_retries plan) \<Longrightarrow> failed_attempts invoke rq plan (unat n) l0 = Some l \<Longrightarrow>
    loop_result invoke env rq plan l0 (retry_loop invoke env rq plan None n l)"
proof (induction "unat (plan_retries plan) - unat n" arbitrary: n l)
  case (0 n l)
  then have n: "unat n = unat (plan_retries plan)" by simp
  obtain ok w s where call: "call_target invoke rq l = (ok, w, s)" by (metis prod_cases3)
  have "retry_loop invoke env rq plan None n l =
      (if ok then Inr (success_result rq (Suc (unat n)), (w, success_state env rq (plan_fee plan) (Suc (unat n)) s))
       else Inl (Err ContractRejected))"
    using assms n call by (subst retry_loop_step) simp_all
  moreover have "loop_result invoke env rq plan l0
      (Inr (success_result rq (Suc (unat n)), (w, success_state env rq (plan_fee plan) (Suc (unat n)) s)))"
    if ok using loop_result_success [OF "0.prems"(2,1)] call that by simp
  moreover have "loop_result invoke env rq plan l0 (Inl (Err ContractRejected))" if "\<not> ok"
    using "0.prems"(2) call that n by (simp add: loop_result_def)
  ultimately show ?case by simp
next
  case (Suc d n l)
  obtain ok w s where call: "call_target invoke rq l = (ok, w, s)" by (metis prod_cases3)
  have small: "unat n + 1 < 2 ^ 32" using Suc.prems(1) assms by linarith
  have le: "Suc (unat n) \<le> unat (plan_retries plan)" using Suc.hyps(2) by simp
  show ?case
  proof (cases ok)
    case True
    then have "retry_loop invoke env rq plan None n l =
        Inr (success_result rq (Suc (unat n)), (w, success_state env rq (plan_fee plan) (Suc (unat n)) s))"
      using call small by (subst retry_loop_step) simp_all
    with loop_result_success [OF Suc.prems(2,1)] call True show ?thesis by simp
  next
    case False
    have u: "unat (n + 1) = Suc (unat n)"
      using small checked_add_Some_iff [of n 1 "n + 1"] by (simp add: checked_add_def)
    have failed: "failed_attempts invoke rq plan (unat (n + 1)) l0
        = Some (w, retry_event rq plan (Suc (unat n)) s)"
      using Suc.prems(2) call False by (simp add: u)
    have "loop_result invoke env rq plan l0
        (retry_loop invoke env rq plan None (n + 1) (w, retry_event rq plan (Suc (unat n)) s))"
      by (rule Suc.hyps(1)) (use Suc.hyps(2) le u failed in simp_all)
    moreover have "retry_loop invoke env rq plan None n l
        = retry_loop invoke env rq plan None (n + 1) (w, retry_event rq plan (Suc (unat n)) s)"
      using small call False le by (subst retry_loop_step) simp_all
    ultimately show ?thesis by simp
  qed
qed

subsection \<open>Execution\<close>

definition the_plan :: "execution_request \<Rightarrow> u32 \<Rightarrow> i128 \<Rightarrow> execution \<Rightarrow> retry_plan" where
  "the_plan rq m fee s = \<lparr>plan_retries = min (rq_max_retries rq) m,
     plan_base_ms = unwrap_or (backoff_base_ms s) 0,
     plan_multiplier = unwrap_or (backoff_multiplier s) 100, plan_fee = fee\<rparr>"

lemma execute_accepted:
  assumes "auth env caller" and "admin_key s \<noteq> None" and "0 < sint (rq_amount rq)"
    and "length (rq_args rq) \<le> 20" and "max_retries_key s = Some m"
    and "compute_actual_fee (rq_amount rq) = Inr fee"
  shows "execute invoke env caller rq (w, s) =
    (if simulate_first rq then
       (case call_target invoke rq (w, s) of (ok, w1, s1) \<Rightarrow>
          if ok then retry_loop invoke env rq (the_plan rq m fee s1) (Some True) 0 (w1, s1)
          else Inl (Err SimulationFailed))
     else retry_loop invoke env rq (the_plan rq m fee s) None 0 (w, s))"
  using assms
  by (auto simp: execute_def MAX_ARGS_PER_CALL_def the_plan_def call_target_def dry_run_invoke_def
      reject_if_def Let_def min_def not_less split: prod.splits)

lemma carried_success:
  "retry_loop invoke env rq plan (Some True) 0 (w, s)
     = Inr (success_result rq 1, (w, success_state env rq (plan_fee plan) 1 s))"
  by (subst retry_loop_step) simp_all

text \<open>
  C34. An accepted \<open>execute\<close> always returns, and never traps. With \<open>simulate_first\<close> the
  callee is invoked exactly once, and its answer decides between one attempt and
  \<open>SimulationFailed\<close>. Without it the callee is invoked until it first succeeds, at most
  \<open>min(max_retries, global) + 1\<close> times, each failed attempt but the last publishing the delay
  before the next; \<open>ContractRejected\<close> is returned when all of them fail. A success records the
  fee of 100 plus a thousandth of the amount (at least 100).
\<close>

theorem execute_outcome:
  assumes "auth env caller" and "admin_key s \<noteq> None" and "0 < sint (rq_amount rq)"
    and "length (rq_args rq) \<le> 20" and "max_retries_key s = Some m" and "m \<le> 5"
  shows "\<exists>fee. sint fee = 100 + max 100 (sint (rq_amount rq) div 1000)
    \<and> (if simulate_first rq
       then execute invoke env caller rq (w, s) = (case call_target invoke rq (w, s) of (ok, w1, s1) \<Rightarrow>
              if ok then Inr (success_result rq 1, (w1, success_state env rq fee 1 s1))
              else Inl (Err SimulationFailed))
       else loop_result invoke env rq (the_plan rq m fee s) (w, s) (execute invoke env caller rq (w, s)))"
proof -
  from actual_fee [OF assms(3)] obtain fee where
    fee: "compute_actual_fee (rq_amount rq) = Inr fee" "sint fee = 100 + exact_resource (rq_amount rq)" by blast
  note run = execute_accepted [OF assms(1-5) fee(1)]
  have "unat m \<le> 5" using assms(6) by (simp add: word_conv)
  moreover have "unat (min (rq_max_retries rq) m) \<le> unat m"
    by (simp add: word_le_nat_alt [symmetric])
  ultimately have few: "unat (plan_retries (the_plan rq m fee s)) + 1 < 2 ^ 32"
    by (simp add: the_plan_def)
  have "loop_result invoke env rq (the_plan rq m fee s) (w, s)
      (retry_loop invoke env rq (the_plan rq m fee s) None 0 (w, s))"
    by (rule retry_loop_spec [OF few]) simp_all
  then have "if simulate_first rq
       then execute invoke env caller rq (w, s) = (case call_target invoke rq (w, s) of (ok, w1, s1) \<Rightarrow>
              if ok then Inr (success_result rq 1, (w1, success_state env rq fee 1 s1))
              else Inl (Err SimulationFailed))
       else loop_result invoke env rq (the_plan rq m fee s) (w, s) (execute invoke env caller rq (w, s))"
    by (auto simp: run carried_success the_plan_def split: prod.splits)
  with fee(2) show ?thesis unfolding exact_resource_def by blast
qed

text \<open>
  The history view returns the newest records first, at most \<open>limit\<close> of them, for every
  limit up to the largest 32-bit value.
\<close>

theorem get_execution_history_exact:
  "get_execution_history limit s = (if admin_key s = None then Inl (Err NotInitialized)
     else Inr (take (unat limit) (rev (exec_history s))))"
proof -
  have newest: "newest h i k = take k (rev (take i h))" if "i \<le> length h" for h i k
    using that
  proof (induction i arbitrary: k)
    case (Suc i)
    then show ?case by (cases k) (simp_all add: take_Suc_conv_app_nth)
  qed simp
  show ?thesis by (simp add: get_execution_history_def reject_if_def Let_def newest)
qed

subsection \<open>What is recorded\<close>

definition execution_inv :: "execution \<Rightarrow> bool" where
  "execution_inv s \<longleftrightarrow>
     (admin_key s = None \<longleftrightarrow> max_retries_key s = None)
     \<and> (\<forall>m. max_retries_key s = Some m \<longrightarrow> 1 \<le> m \<and> m \<le> 5)
     \<and> (\<forall>m. backoff_multiplier s = Some m \<longrightarrow> valid_multiplier m)
     \<and> (\<forall>n. max_history_key s = Some n \<longrightarrow> 1 \<le> n \<and> n \<le> MAX_HISTORY_SIZE_CAP)
     \<and> unwrap_or (total_errors s) 0 = 0
     \<and> (\<forall>r\<in>set (exec_history s). rec_success r \<and> 200 \<le> sint (fee_paid r))
     \<and> length (exec_history s) \<le> unat (unwrap_or (max_history_key s) DEFAULT_MAX_HISTORY_SIZE)"

lemma execution_inv_empty: "execution_inv execution_empty"
  by (simp add: execution_inv_def execution_empty_def)

text \<open>The invariant reads the configuration and the history only.\<close>

lemma execution_inv_cong:
  assumes "execution_inv s" and "admin_key s' = None \<longleftrightarrow> admin_key s = None"
    and "max_retries_key s' = max_retries_key s" and "backoff_multiplier s' = backoff_multiplier s"
    and "max_history_key s' = max_history_key s" and "total_errors s' = total_errors s"
    and "exec_history s' = exec_history s"
  shows "execution_inv s'"
  using assms unfolding execution_inv_def by simp

lemma success_state_inv:
  assumes "execution_inv s" and "200 \<le> sint fee"
  shows "execution_inv (success_state env rq fee k s)"
proof -
  let ?h = "exec_history s @ [new_record env (rq_target rq) (rq_function rq) True fee]"
  let ?n = "unwrap_or (max_history_key s) DEFAULT_MAX_HISTORY_SIZE"
  have "\<forall>r\<in>set ?h. rec_success r \<and> 200 \<le> sint (fee_paid r)"
    using assms by (auto simp: execution_inv_def new_record_def)
  then have "\<forall>r\<in>set (evict_oldest ?h ?n). rec_success r \<and> 200 \<le> sint (fee_paid r)"
    using evict_oldest_set [of ?h ?n] by blast
  then show ?thesis
    using assms(1) evict_oldest_length [of ?h ?n]
    unfolding execution_inv_def success_state_def by simp
qed

lemma call_target_sealed:
  "call_target (sealed f) rq (w, s) = (b, (w', s')) \<Longrightarrow> s' = s"
  unfolding call_target_def by (rule sealed_keeps)

lemma failed_attempts_sealed:
  "failed_attempts (sealed f) rq plan n (w, s) = Some (w', s') \<Longrightarrow>
     \<exists>ev. s' = s\<lparr>events := ev\<rparr>"
proof (induction n arbitrary: w' s')
  case 0
  then have "s' = s\<lparr>events := events s\<rparr>" by simp
  then show ?case by blast
next
  case (Suc n)
  then obtain w1 s1 where l1: "failed_attempts (sealed f) rq plan n (w, s) = Some (w1, s1)"
    by (auto split: option.splits)
  obtain ok w2 s2 where call: "call_target (sealed f) rq (w1, s1) = (ok, (w2, s2))" by (metis prod_cases3)
  then have "s2 = s1" by (rule call_target_sealed)
  with Suc.prems l1 call have "s' = retry_event rq plan (Suc n) s1" by (auto split: if_splits)
  with Suc.IH [OF l1] show ?case by (auto simp: retry_event_def publish_def)
qed

lemma events_inv [simp]: "execution_inv (s\<lparr>events := ev\<rparr>) \<longleftrightarrow> execution_inv s"
  by (simp add: execution_inv_def)

lemma publish_execution_inv [simp]: "execution_inv (publish t d s) \<longleftrightarrow> execution_inv s"
  by (simp add: execution_inv_def)

text \<open>All that a successful \<open>execute\<close> writes.\<close>

lemma execute_writes:
  assumes "execution_inv s" and "execute (sealed f) env caller rq (w, s) = Inr (r, (w', s'))"
  obtains k fee ev where "s' = success_state env rq fee k (s\<lparr>events := ev\<rparr>)" and "200 \<le> sint fee"
proof -
  from assms(2) obtain m where ok: "auth env caller" "admin_key s \<noteq> None" "0 < sint (rq_amount rq)"
      "length (rq_args rq) \<le> 20" "max_retries_key s = Some m"
    by (auto simp: execute_def res_simps MAX_ARGS_PER_CALL_def Let_def not_less not_le)
  have m: "m \<le> 5" using assms(1) ok(5) by (simp add: execution_inv_def)
  from actual_fee [OF ok(3)] obtain fee where
    fee: "compute_actual_fee (rq_amount rq) = Inr fee" "sint fee = 100 + exact_resource (rq_amount rq)" by blast
  have big: "200 \<le> sint fee" using fee(2) by (simp add: exact_resource_def)
  note run = execute_accepted [OF ok fee(1), of "sealed f" w]
  show thesis
  proof (cases "simulate_first rq")
    case True
    obtain b w1 s1 where call: "call_target (sealed f) rq (w, s) = (b, (w1, s1))" by (metis prod_cases3)
    then have "s1 = s" by (rule call_target_sealed)
    with assms(2) run True call have "s' = success_state env rq fee 1 (s\<lparr>events := events s\<rparr>)"
      by (auto simp: carried_success the_plan_def split: if_splits)
    with big show thesis by (intro that)
  next
    case False
    have "unat m \<le> 5" using m by (simp add: word_conv)
    moreover have "unat (min (rq_max_retries rq) m) \<le> unat m"
      by (simp add: word_le_nat_alt [symmetric])
    ultimately have few: "unat (plan_retries (the_plan rq m fee s)) + 1 < 2 ^ 32"
      by (simp add: the_plan_def)
    have "loop_result (sealed f) env rq (the_plan rq m fee s) (w, s) (Inr (r, (w', s')))"
      using retry_loop_spec [OF few, of 0 "sealed f" rq "(w, s)" "(w, s)" env] assms(2) run False by simp
    then obtain k w1 s1 w2 s2 where
      "failed_attempts (sealed f) rq (the_plan rq m fee s) k (w, s) = Some (w1, s1)"
      and "call_target (sealed f) rq (w1, s1) = (True, (w2, s2))"
      and s': "s' = success_state env rq (plan_fee (the_plan rq m fee s)) (Suc k) s2"
      unfolding loop_result_def by auto
    then obtain ev where "s2 = s\<lparr>events := ev\<rparr>"
      by (auto dest: call_target_sealed failed_attempts_sealed)
    with s' have "s' = success_state env rq fee (Suc k) (s\<lparr>events := ev\<rparr>)" by (simp add: the_plan_def)
    with big show thesis by (intro that)
  qed
qed

lemma execute_inv:
  assumes "execution_inv s" and "execute (sealed f) env caller rq (w, s) = Inr (r, (w', s'))"
  shows "execution_inv s'"
proof -
  from assms obtain k fee ev where "s' = success_state env rq fee k (s\<lparr>events := ev\<rparr>)" "200 \<le> sint fee"
    by (rule execute_writes)
  with success_state_inv [of "s\<lparr>events := ev\<rparr>"] assms(1) show ?thesis by simp
qed

lemma execution_initialize_iff:
  "execution_initialize a r b m s = Inr (u, s') \<longleftrightarrow> admin_key s = None \<and> r \<noteq> 0 \<and> r \<le> 5
     \<and> valid_multiplier m
     \<and> s' = s\<lparr>admin_key := Some a, max_retries_key := Some r, backoff_base_ms := Some b,
          backoff_multiplier := Some m, total_executions := Some 0, total_errors := Some 0\<rparr>"
  by (auto simp: execution_initialize_def res_simps not_less)

lemma set_backoff_config_iff:
  "set_backoff_config env c b m s = Inr (u, s') \<longleftrightarrow> auth env c \<and> admin_key s = Some c \<and> valid_multiplier m
     \<and> s' = publish ''backoff_config_updated''
         (VTuple [VU64 (unwrap_or (backoff_base_ms s) 0),
            VU32 (unwrap_or (backoff_multiplier s) FIXED_POINT_SCALE), VU64 b, VU32 m])
         (s\<lparr>backoff_base_ms := Some b, backoff_multiplier := Some m\<rparr>)"
  by (auto simp: set_backoff_config_def res_simps Let_def)

lemma set_max_retries_iff:
  "set_max_retries env c n s = Inr (u, s') \<longleftrightarrow> auth env c \<and> admin_key s = Some c \<and> n \<noteq> 0 \<and> n \<le> 5
     \<and> s' = publish ''max_retries_updated'' (VTuple [VU32 (unwrap_or (max_retries_key s) 0), VU32 n])
         (s\<lparr>max_retries_key := Some n\<rparr>)"
  by (auto simp: set_max_retries_def res_simps not_less)

lemma set_max_history_size_iff:
  "set_max_history_size env c n s = Inr (u, s') \<longleftrightarrow> auth env c \<and> admin_key s = Some c
     \<and> n \<noteq> 0 \<and> n \<le> MAX_HISTORY_SIZE_CAP
     \<and> s' = publish ''max_history_size_updated''
         (VTuple [VU32 (unwrap_or (max_history_key s) DEFAULT_MAX_HISTORY_SIZE), VU32 n])
         (s\<lparr>max_history_key := Some n, exec_history := evict_oldest (exec_history s) n\<rparr>)"
  by (auto simp: set_max_history_size_def res_simps Let_def not_less)

lemma execution_transfer_admin_iff:
  "execution_transfer_admin env c n s = Inr (u, s') \<longleftrightarrow> auth env c \<and> admin_key s = Some c
     \<and> s' = admin_transfer_complete c n s"
  by (auto simp: execution_transfer_admin_def res_simps)

lemma simulate_Inr_iff:
  "simulate invoke env c t fn args l = Inr (r, l') \<longleftrightarrow> auth env c \<and> admin_key (snd l) \<noteq> None
     \<and> length args \<le> 20
     \<and> (\<exists>ok w s. invoke t fn args l = (ok, (w, s))
        \<and> l' = (w, publish ''simulation_result'' (VTuple [VAddr t, VStr fn, VBool ok]) s)
        \<and> r = \<lparr>sr_target = t, sr_function = fn, sr_success = ok, would_fail = (\<not> ok),
            sr_message = (if ok then ''simulation succeeded''
              else ''simulation failed: transaction would be rejected'')\<rparr>)"
  by (auto simp: simulate_def res_simps Let_def dry_run_invoke_def MAX_ARGS_PER_CALL_def not_less
      split: prod.splits)

lemma estimate_fee_state:
  "estimate_fee t fn amount load s = Inr (r, s') \<Longrightarrow> \<exists>d. s' = publish ''fee_estimated'' d s"
  by (auto simp: estimate_fee_def res_simps split: prod.splits if_splits)

lemma retries_pos: "n \<noteq> 0 \<Longrightarrow> 1 \<le> (n :: u32)"
  by (simp add: word_conv unat_eq_0 Suc_le_eq unat_gt_0)

lemma execution_step_inv:
  assumes "execution_inv (snd l)" and "execution_step (sealed f) env c l = Inr l'"
  shows "execution_inv (snd l')"
proof (cases c)
  case (EExecute a rq)
  obtain w s w' s' where l: "l = (w, s)" "l' = (w', s')" by force
  with EExecute assms(2) obtain r where "execute (sealed f) env a rq (w, s) = Inr (r, (w', s'))"
    by (auto simp: returns_Inr_iff)
  with execute_inv assms(1) l show ?thesis by simp
next
  case (ESimulate a t fn args)
  obtain w s where l: "l = (w, s)" by force
  with ESimulate assms(2) obtain w' s1 where
    "execution_inv (snd l') \<longleftrightarrow> execution_inv s1" "s1 = s"
    by (auto simp: returns_Inr_iff simulate_Inr_iff dest: sealed_keeps)
  with assms(1) l show ?thesis by simp
next
  case (EEstimateFee t fn amount load)
  with assms show ?thesis by (auto simp: res_simps dest!: estimate_fee_state)
next
  case (EInitialize a r b m)
  with assms show ?thesis
    by (auto simp: res_simps execution_initialize_iff execution_inv_def retries_pos)
next
  case (ESetBackoff a b m)
  with assms show ?thesis
    by (auto simp: res_simps set_backoff_config_iff execution_inv_def)
next
  case (ESetMaxRetries a n)
  with assms show ?thesis
    by (auto simp: res_simps set_max_retries_iff execution_inv_def retries_pos)
next
  case (ESetMaxHistory a n)
  with assms evict_oldest_length [of "exec_history (snd l)" n] evict_oldest_set [of "exec_history (snd l)" n]
  show ?thesis
    by (auto simp: res_simps set_max_history_size_iff execution_inv_def retries_pos subset_eq)
next
  case (ETransferAdmin a n)
  with assms show ?thesis
    by (auto simp: res_simps execution_transfer_admin_iff execution_inv_def)
qed

subsection \<open>The interfaces\<close>

interpretation execution_machine: contract_machine "execution_step (sealed f)" "(w0, execution_empty)"
    "\<lambda>l. execution_inv (snd l)" for f and w0 :: 'w
  by unfold_locales (simp add: execution_inv_empty, rule execution_step_inv)

text \<open>
  C38. A failure is never recorded. In every reachable state (the callees do not call back into the
  contract) the error counter is 0 and every record of the history is a success with a fee of at
  least 200: the writes of \<open>log_error\<close> and \<open>append_history\<close> precede an error that the host
  answers by discarding them. The history never exceeds its configured size.
\<close>

theorem failures_never_recorded:
  "let s = snd (run_txs (execution_step (sealed f)) (w0, execution_empty) txs) in
     snd (stats s) = 0
     \<and> (\<forall>r\<in>set (exec_history s). rec_success r \<and> 200 \<le> sint (fee_paid r))
     \<and> length (exec_history s) \<le> unat (unwrap_or (max_history_key s) DEFAULT_MAX_HISTORY_SIZE)"
  using execution_machine.invar_run [of f w0 txs]
  by (simp add: execution_inv_def stats_def)

fun execution_gated :: "execution_call \<Rightarrow> address option" where
  "execution_gated (ESetBackoff c b m) = Some c"
| "execution_gated (ESetMaxRetries c n) = Some c"
| "execution_gated (ESetMaxHistory c n) = Some c"
| "execution_gated (ETransferAdmin c n) = Some c"
| "execution_gated _ = None"

definition same_execution_config :: "execution \<Rightarrow> execution \<Rightarrow> bool" where
  "same_execution_config s s' \<longleftrightarrow> max_retries_key s' = max_retries_key s
     \<and> backoff_base_ms s' = backoff_base_ms s \<and> backoff_multiplier s' = backoff_multiplier s
     \<and> max_history_key s' = max_history_key s"

lemma execute_config:
  assumes "execution_inv s" and "execute (sealed f) env caller rq (w, s) = Inr (r, (w', s'))"
  shows "admin_key s' = admin_key s \<and> same_execution_config s s'"
proof -
  from assms obtain k fee ev where "s' = success_state env rq fee k (s\<lparr>events := ev\<rparr>)" "200 \<le> sint fee"
    by (rule execute_writes)
  then show ?thesis by (simp add: success_state_def same_execution_config_def)
qed

interpretation execution_admin: admin_gated "execution_step (sealed f)" "(w0, execution_empty)"
    "\<lambda>l. execution_inv (snd l)" "\<lambda>l. admin_key (snd l)" execution_gated
    "\<lambda>l l'. same_execution_config (snd l) (snd l')" for f and w0 :: 'w
proof unfold_locales
  fix env c and l l' :: "'w eledger" and a
  assume "execution_step (sealed f) env c l = Inr l'" and "execution_gated c = Some a"
  then show "auth env a \<and> admin_key (snd l) = Some a"
    by (cases c) (auto simp: res_simps set_backoff_config_iff set_max_retries_iff
        set_max_history_size_iff execution_transfer_admin_iff)
next
  fix env c and l l' :: "'w eledger" and a
  assume inv: "execution_inv (snd l)" and step: "execution_step (sealed f) env c l = Inr l'"
    and "execution_gated c = None" and adm: "admin_key (snd l) = Some a"
  obtain w s w' s' where l: "l = (w, s)" "l' = (w', s')" by force
  from \<open>execution_gated c = None\<close>
  show "admin_key (snd l') = Some a \<and> same_execution_config (snd l) (snd l')"
  proof (cases c)
    case (EExecute b rq)
    with step l obtain r where "execute (sealed f) env b rq (w, s) = Inr (r, (w', s'))"
      by (auto simp: returns_Inr_iff)
    with execute_config [of s f env b rq w r w' s'] inv adm l show ?thesis by simp
  next
    case (ESimulate b t fn args)
    with step l adm show ?thesis
      by (auto simp: returns_Inr_iff simulate_Inr_iff same_execution_config_def dest!: sealed_keeps)
  next
    case (EEstimateFee t fn amount load)
    with step l adm show ?thesis
      by (auto simp: res_simps same_execution_config_def dest!: estimate_fee_state)
  next
    case (EInitialize b r base m)
    with step l adm show ?thesis by (auto simp: res_simps execution_initialize_iff)
  qed simp_all
qed (simp_all add: same_execution_config_def)

subsection \<open>A small contract, for the witnesses\<close>

definition execution_demo :: execution where
  "execution_demo = execution_empty\<lparr>admin_key := Some (Address 0), max_retries_key := Some 2,
     backoff_base_ms := Some 100, backoff_multiplier := Some 200\<rparr>"

text \<open>A callee that fails until it has been called twice.\<close>

definition flaky :: "nat einvoke" where
  "flaky = sealed (\<lambda>t fn args n. (n \<ge> 2, Suc n))"

lemma call_flaky: "call_target flaky rq (n, s) = (n \<ge> 2, (Suc n, s))"
  by (simp add: call_target_def flaky_def sealed_def)

lemma flaky_count: "failed_attempts flaky rq plan n (0, s) = Some l \<Longrightarrow> fst l = n \<and> n \<le> 2"
proof (induction n arbitrary: l)
  case (Suc n)
  then obtain w1 s1 where l1: "failed_attempts flaky rq plan n (0, s) = Some (w1, s1)"
    by (auto split: option.splits)
  with Suc.IH have "w1 = n" by fastforce
  with Suc.prems l1 show ?case
    by (auto simp: call_flaky split: if_splits)
qed simp

definition demo_request :: execution_request where
  "demo_request = \<lparr>rq_target = Address 5, rq_function = ''pay'', simulate_first = False,
     rq_max_retries = 5, rq_args = [], rq_amount = 5000000\<rparr>"

definition all_signed :: env where
  "all_signed = \<lparr>timestamp = 7, sequence = 0, auth = (\<lambda>_. True)\<rparr>"

theorem estimate_fee_exact_witness:
  "\<exists>f s'. estimate_fee (Address 5) ''pay'' 5000000 9000 execution_demo = Inr (f, s')
     \<and> sint (total_fee f) = 10200"
proof -
  have a: "admin_key execution_demo \<noteq> None" by (simp add: execution_demo_def)
  have b: "0 < sint (5000000 :: i128)" by simp
  from estimate_fee_exact [OF a b, of "Address 5" "''pay''" 9000] show ?thesis by auto
qed

theorem backoff_exact_witness: "unat (compute_backoff_ms 1000 150 3) = 3375"
proof -
  have "1000 \<le> MAX_BACKOFF_MS" "FIXED_POINT_SCALE \<le> 150"
    by (simp_all add: MAX_BACKOFF_MS_def FIXED_POINT_SCALE_def)
  note exact = backoff_exact [OF this, of 3]
  have "exact_backoff 1000 150 (Suc (Suc (Suc 0))) = 3375" by simp
  then have "exact_backoff 1000 150 3 = 3375" by (simp only: numeral_3_eq_3)
  with exact show ?thesis by simp
qed

theorem execute_outcome_witness:
  "\<exists>r w s. execute flaky all_signed (Address 1) demo_request (0, execution_demo) = Inr (r, (w, s))
     \<and> attempts r = 3 \<and> w = 3"
proof -
  have pre: "auth all_signed (Address 1)" "admin_key execution_demo \<noteq> None"
    "0 < sint (rq_amount demo_request)" "length (rq_args demo_request) \<le> 20"
    "max_retries_key execution_demo = Some 2" "(2 :: u32) \<le> 5"
    by (simp_all add: all_signed_def execution_demo_def demo_request_def)
  from execute_outcome [OF pre, of flaky 0] obtain fee where
    "loop_result flaky all_signed demo_request (the_plan demo_request 2 fee execution_demo)
      (0, execution_demo) (execute flaky all_signed (Address 1) demo_request (0, execution_demo))"
    by (auto simp: demo_request_def)
  moreover have "unat (plan_retries (the_plan demo_request 2 fee execution_demo)) = 2"
    "plan_fee (the_plan demo_request 2 fee execution_demo) = fee"
    by (simp_all add: the_plan_def demo_request_def)
  moreover have "failed_attempts flaky demo_request plan (Suc 2) (0, execution_demo) = None" for plan
    using flaky_count [of demo_request plan "Suc 2" execution_demo]
    by (cases "failed_attempts flaky demo_request plan (Suc 2) (0, execution_demo)") auto
  ultimately have "\<exists>k lk w s. k \<le> 2
    \<and> failed_attempts flaky demo_request (the_plan demo_request 2 fee execution_demo) k
        (0, execution_demo) = Some lk
    \<and> call_target flaky demo_request lk = (True, w, s)
    \<and> execute flaky all_signed (Address 1) demo_request (0, execution_demo)
      = Inr (success_result demo_request (Suc k), (w, success_state all_signed demo_request fee (Suc k) s))"
    unfolding loop_result_def by metis
  then obtain k n s1 w s where "k \<le> 2"
    and failed: "failed_attempts flaky demo_request (the_plan demo_request 2 fee execution_demo) k
      (0, execution_demo) = Some (n, s1)"
    and call: "call_target flaky demo_request (n, s1) = (True, w, s)"
    and run: "execute flaky all_signed (Address 1) demo_request (0, execution_demo)
      = Inr (success_result demo_request (Suc k), (w, success_state all_signed demo_request fee (Suc k) s))"
    by (metis prod.collapse)
  from flaky_count [OF failed] call \<open>k \<le> 2\<close> have "k = 2" "w = 3" by (auto simp: call_flaky)
  with run show ?thesis by (simp add: success_result_def)
qed

theorem failures_never_recorded_witness:
  "let s = snd (run_txs (execution_step flaky) (0, execution_empty)
     [(all_signed, EInitialize (Address 0) 2 100 200), (all_signed, EExecute (Address 1) demo_request)]) in
   snd (stats s) = 0 \<and> length (exec_history s) \<le> unat (unwrap_or (max_history_key s) DEFAULT_MAX_HISTORY_SIZE)"
  using failures_never_recorded
    [of "\<lambda>t fn args n. (n \<ge> 2, Suc n)" "0 :: nat"
        "[(all_signed, EInitialize (Address 0) 2 100 200), (all_signed, EExecute (Address 1) demo_request)]"]
  unfolding flaky_def Let_def by blast

end
