(* ===== verification/Composition.thy ===== *)
theory Composition
  imports Core_Demo Multicall_Props Execution_Props
begin

text \<open>
  router-core called through the other contracts: router-multicall and router-execution invoke
  their targets through the host, a parameter of their models. Here the host runs the model of
  router-core for the calls to its address.
\<close>

subsection \<open>The host\<close>

text \<open>
  \<open>decode\<close> reads a function name and its arguments as a call of router-core, \<open>envc\<close> is the
  environment of the nested calls, \<open>others\<close> whether calls to other contracts succeed; those do
  not change router-core. A failed call is rolled back.
\<close>

definition core_callee ::
    "(symbol \<Rightarrow> val list \<Rightarrow> core_call option) \<Rightarrow> env \<Rightarrow> address \<Rightarrow> (address \<Rightarrow> symbol \<Rightarrow> val list \<Rightarrow> bool)
      \<Rightarrow> address \<Rightarrow> symbol \<Rightarrow> val list \<Rightarrow> router \<Rightarrow> bool \<times> router" where
  "core_callee decode envc core_at others t fn args w =
     (if t = core_at then
        (case decode fn args of
           None \<Rightarrow> (False, w)
         | Some c \<Rightarrow> (case core_step envc c w of Inl e \<Rightarrow> (False, w) | Inr w' \<Rightarrow> (True, w')))
      else (others t fn args, w))"

text \<open>The transactions on router-core in a list of calls.\<close>

fun core_txs ::
    "(symbol \<Rightarrow> val list \<Rightarrow> core_call option) \<Rightarrow> env \<Rightarrow> address \<Rightarrow> call_descriptor list
      \<Rightarrow> (env \<times> core_call) list" where
  "core_txs decode envc core_at [] = []"
| "core_txs decode envc core_at (c # cs) =
     (if cd_target c = core_at then
        (case decode (cd_function c) (cd_args c) of
           None \<Rightarrow> core_txs decode envc core_at cs
         | Some call \<Rightarrow> (envc, call) # core_txs decode envc core_at cs)
      else core_txs decode envc core_at cs)"

lemma core_txs_env: "(e, c) \<in> set (core_txs decode envc core_at cs) \<Longrightarrow> e = envc"
  by (induction cs) (auto split: if_splits option.splits)

lemma core_txs_step:
  assumes "core_callee decode envc core_at others (cd_target c) (cd_function c) (cd_args c) w = (b, w1)"
  shows "run_txs core_step w (core_txs decode envc core_at (c # cs))
    = run_txs core_step w1 (core_txs decode envc core_at cs)"
  using assms by (auto simp: core_callee_def split: if_splits option.splits sum.splits)

subsection \<open>Batches\<close>

lemma call_loop_runs_core:
  assumes "call_loop (sealed (core_callee decode envc core_at others)) a bid sim store ff i cs (w, s) r
    = Inr (k, r', (w', s'))"
  shows "i \<le> k \<and> w' = run_txs core_step w (core_txs decode envc core_at (take (k - i) cs))"
  using assms
proof (induction cs arbitrary: i w s r)
  case (Cons c cs)
  let ?inv = "sealed (core_callee decode envc core_at others)"
  from Cons.prems show ?case
  proof (rule call_loop_step)
    fix b w1 s1
    assume inv: "?inv (cd_target c) (cd_function c) (cd_args c) (w, s) = (b, w1, s1)"
      and rest: "if \<not> b \<and> ff then k = Suc i \<and> r' = record_outcome i c b r
          \<and> (w', s') = (w1, after_call a bid sim store i c b s1)
       else call_loop ?inv a bid sim store ff (Suc i) cs (w1, after_call a bid sim store i c b s1)
              (record_outcome i c b r) = Inr (k, r', (w', s'))"
    from inv have step: "core_callee decode envc core_at others (cd_target c) (cd_function c) (cd_args c) w
        = (b, w1)" by (auto simp: sealed_def split: prod.splits)
    show ?thesis
    proof (cases "\<not> b \<and> ff")
      case True
      with rest core_txs_step [OF step, of "[]"] show ?thesis by simp
    next
      case False
      with rest have "call_loop ?inv a bid sim store ff (Suc i) cs
          (w1, after_call a bid sim store i c b s1) (record_outcome i c b r) = Inr (k, r', (w', s'))"
        by simp
      from Cons.IH [OF this] have k: "Suc i \<le> k"
        and w': "w' = run_txs core_step w1 (core_txs decode envc core_at (take (k - Suc i) cs))" by blast+
      from k have "take (k - i) (c # cs) = c # take (k - Suc i) cs" by (simp add: take_Cons' Suc_diff_le)
      then have "run_txs core_step w (core_txs decode envc core_at (take (k - i) (c # cs))) = w'"
        using core_txs_step [OF step] w' by simp
      with k show ?thesis by simp
    qed
  qed
qed simp

lemma entries_length:
  "outcomes_ok ff cs bs \<Longrightarrow> length (success_entries i cs bs) + length (failure_entries i cs bs) = length bs"
  by (induction ff cs bs arbitrary: i rule: outcomes_ok.induct) (auto split: if_splits)

text \<open>
  C12. A batch of router-multicall that addresses router-core runs, on router-core, the calls it
  processed as transactions one after the other: a call router-core rejects leaves no trace there,
  the others keep their effect, in order and also with the flag \<open>simulate\<close>. So the batch keeps
  the invariant of router-core, and without the signature of its admin it only counts resolutions.
\<close>

theorem batch_runs_core:
  assumes "execute_batch (sealed (core_callee decode envc core_at others)) env a calls sim store ff gas (w, s)
    = Inr (r, (w', s'))"
  shows "\<exists>k\<le>length calls. (\<not> ff \<longrightarrow> k = length calls)
    \<and> length (call_successes r) + length (call_failures r) = k
    \<and> w' = run_txs core_step w (core_txs decode envc core_at (take k calls))
    \<and> (core_inv w \<longrightarrow> core_inv w'
         \<and> (\<forall>x. admin_key w = Some x \<and> \<not> auth envc x \<longrightarrow> only_counted w w'))"
proof -
  from assms obtain k s2 where loop: "call_loop (sealed (core_callee decode envc core_at others)) a
      (unwrap_or (total_batches_key s) 0) sim store ff 0 calls (w, s\<lparr>executing := Some True\<rparr>) batch_call_new
      = Inr (k, r, (w', s2))" by (rule execute_batch_Inr) blast
  from call_loop_report [OF this] obtain bs where bs: "k = length bs" "outcomes_ok ff calls bs"
    "call_successes r = success_entries 0 calls bs" "call_failures r = failure_entries 0 calls bs" by auto
  from call_loop_runs_core [OF loop]
  have w': "w' = run_txs core_step w (core_txs decode envc core_at (take k calls))" by simp
  have "core_inv w'" if "core_inv w" unfolding w' using that by (rule core_machine.invar_run_from)
  moreover have "only_counted w w'" if "core_inv w" "admin_key w = Some x" "\<not> auth envc x" for x
    using core_admin.unsigned_run [OF that(1,2), of "core_txs decode envc core_at (take k calls)"]
      that(3) core_txs_env unfolding w' by blast
  ultimately show ?thesis
    using w' bs outcomes_facts [OF bs(2)] entries_length [OF bs(2), of 0] by auto
qed

subsection \<open>Single calls\<close>

lemma rejected_attempts:
  assumes "\<forall>s. call_target invoke rq (w, s) = (False, (w, s))"
  shows "\<exists>s'. failed_attempts invoke rq plan n (w, s) = Some (w, s')"
  by (induction n) (use assms in auto)

text \<open>
  C32. Through router-execution a call to router-core takes effect exactly once or not at all: an
  accepted \<open>execute\<close> succeeds, at the first attempt, exactly if router-core accepts the call, and
  leaves router-core as that one transaction does, with or without a simulation before. If
  router-core rejects the call, no retry can help, and it is left unchanged.
\<close>

theorem execute_runs_core_once:
  assumes "auth env caller" and "admin_key s \<noteq> None" and "0 < sint (rq_amount rq)"
    and "length (rq_args rq) \<le> 20" and "max_retries_key s = Some m" and "m \<le> 5"
    and "rq_target rq = core_at" and "decode (rq_function rq) (rq_args rq) = Some c"
  shows "case core_step envc c w of
      Inr w' \<Rightarrow> \<exists>r s'. execute (sealed (core_callee decode envc core_at others)) env caller rq (w, s)
          = Inr (r, (w', s')) \<and> attempts r = 1
    | Inl e \<Rightarrow> execute (sealed (core_callee decode envc core_at others)) env caller rq (w, s)
        = Inl (Err (if simulate_first rq then SimulationFailed else ContractRejected))"
proof -
  let ?inv = "sealed (core_callee decode envc core_at others)"
  from actual_fee [OF assms(3)] obtain fee where fee: "compute_actual_fee (rq_amount rq) = Inr fee" by blast
  note run = execute_accepted [OF assms(1-5) fee, of ?inv w]
  have "unat m \<le> 5" using assms(6) by (simp add: word_conv)
  moreover have "unat (min (rq_max_retries rq) m) \<le> unat m" by (simp add: word_le_nat_alt [symmetric])
  ultimately have few: "unat (plan_retries (the_plan rq m fee s)) + 1 < 2 ^ 32" by (simp add: the_plan_def)
  show ?thesis
  proof (cases "core_step envc c w")
    case (Inr w')
    then have call: "call_target ?inv rq (w, t) = (True, (w', t))" for t
      using assms(7,8) by (simp add: call_target_def sealed_def core_callee_def)
    have "retry_loop ?inv env rq (the_plan rq m fee s) None 0 (w, s)
        = Inr (success_result rq 1, (w', success_state env rq (plan_fee (the_plan rq m fee s)) 1 s))"
      using call few by (subst retry_loop_step) simp_all
    with run call Inr carried_success [of ?inv env rq "the_plan rq m fee s" w' s] show ?thesis
      by (simp add: success_result_def)
  next
    case (Inl e)
    then have call: "\<forall>t. call_target ?inv rq (w, t) = (False, (w, t))"
      using assms(7,8) by (simp add: call_target_def sealed_def core_callee_def)
    have loop: "loop_result ?inv env rq (the_plan rq m fee s) (w, s)
        (retry_loop ?inv env rq (the_plan rq m fee s) None 0 (w, s))"
      by (rule retry_loop_spec [OF few]) simp_all
    have "call_target ?inv rq lk \<noteq> (True, (w1, s1))"
      if "failed_attempts ?inv rq (the_plan rq m fee s) k (w, s) = Some lk" for k lk w1 s1
      using rejected_attempts [OF call, of "the_plan rq m fee s" k s] that call by auto
    with loop have "retry_loop ?inv env rq (the_plan rq m fee s) None 0 (w, s) = Inl (Err ContractRejected)"
      unfolding loop_result_def by blast
    with run call Inl show ?thesis by simp
  qed
qed


subsection \<open>Witnesses\<close>

text \<open>The host knows one function of router-core, \<open>resolve\<close> with a name.\<close>

definition decode_resolve :: "symbol \<Rightarrow> val list \<Rightarrow> core_call option" where
  "decode_resolve fn args = (case args of [VStr n] \<Rightarrow> if fn = ''resolve'' then Some (RResolve n) else None | _ \<Rightarrow> None)"

abbreviation core_host :: "(router, 's) invoke_of" where
  "core_host \<equiv> sealed (core_callee decode_resolve (core_env 5) (Address 7) (\<lambda>_ _ _. False))"

definition resolve_call :: "string \<Rightarrow> call_descriptor" where
  "resolve_call n = \<lparr>cd_target = Address 7, cd_function = ''resolve'', required = False,
     instruction_budget = None, cd_args = [VStr n]\<rparr>"


lemma demo_resolves: "\<exists>w. core_step (core_env 5) (RResolve ''a'') core_demo = Inr w"
  by (simp add: resolve_def resolve_at_def Let_def is_route_expired_def checked_add_def returns_def)

lemma batch_runs_core_witness:
  "\<exists>r w' s'. execute_batch core_host anyone (Address 1) [resolve_call ''a'', demo_call (Address 9)]
      False True False None (core_demo, multicall_demo) = Inr (r, (w', s'))
    \<and> length (call_successes r) + length (call_failures r) = 2 \<and> core_inv w'
    \<and> w' = run_txs core_step core_demo [(core_env 5, RResolve ''a'')]"
proof -
  obtain w1 where w1: "core_step (core_env 5) (RResolve ''a'') core_demo = Inr w1" using demo_resolves by blast
  have "\<exists>r w' s'. execute_batch core_host anyone (Address 1) [resolve_call ''a'', demo_call (Address 9)]
      False True False None (core_demo, multicall_demo) = Inr (r, (w', s'))"
    using w1 by (simp del: core_step.simps add: execute_batch_def anyone_def multicall_demo_def multicall_empty_def
        sealed_def core_callee_def decode_resolve_def resolve_call_def demo_call_def Let_def
        Multicall.MAX_ARGS_PER_CALL_def reject_if_def checked_add_def)
  then obtain r w' s' where run: "execute_batch core_host anyone (Address 1)
      [resolve_call ''a'', demo_call (Address 9)] False True False None (core_demo, multicall_demo)
      = Inr (r, (w', s'))" by blast
  from batch_runs_core [OF run] core_demo_inv
  have "length (call_successes r) + length (call_failures r) = 2" "core_inv w'"
    "w' = run_txs core_step core_demo (core_txs decode_resolve (core_env 5) (Address 7)
       [resolve_call ''a'', demo_call (Address 9)])" by auto
  moreover have "core_txs decode_resolve (core_env 5) (Address 7) [resolve_call ''a'', demo_call (Address 9)]
      = [(core_env 5, RResolve ''a'')]" by (simp add: decode_resolve_def resolve_call_def demo_call_def)
  ultimately show ?thesis using run by metis
qed

lemma execute_runs_core_once_witness:
  "\<exists>r w' s'. execute core_host all_signed (Address 1)
      (demo_request\<lparr>rq_target := Address 7, rq_function := ''resolve'', rq_args := [VStr ''a'']\<rparr>)
      (core_demo, execution_demo) = Inr (r, (w', s')) \<and> attempts r = 1"
proof -
  let ?rq = "demo_request\<lparr>rq_target := Address 7, rq_function := ''resolve'', rq_args := [VStr ''a'']\<rparr>"
  obtain w1 where w1: "core_step (core_env 5) (RResolve ''a'') core_demo = Inr w1" using demo_resolves by blast
  have pre: "auth all_signed (Address 1)" "admin_key execution_demo \<noteq> None" "0 < sint (rq_amount ?rq)"
    "length (rq_args ?rq) \<le> 20" "max_retries_key execution_demo = Some 2" "(2 :: u32) \<le> 5"
    "rq_target ?rq = Address 7" "decode_resolve (rq_function ?rq) (rq_args ?rq) = Some (RResolve ''a'')"
    by (simp_all add: all_signed_def execution_demo_def demo_request_def decode_resolve_def)
  from execute_runs_core_once [where core_at = "Address 7" and decode = decode_resolve, OF pre,
      of "core_env 5" "\<lambda>_ _ _. False" core_demo] w1
  show ?thesis by auto
qed

end
