(* ===== verification/Wire.thy ===== *)
theory Wire
  imports Prelude
begin

text \<open>
  What the two off-chain programs read and write as text or bytes: the base64 and XDR decoders of
  the API server (\<open>api-server/src/rpc.rs\<close>), and the parts of Rust's standard library they and the
  metrics exporter use (\<open>str::parse\<close>, \<open>str::from_utf8\<close>, trimming, prefixes). A Rust
  \<open>String\<close> is the list of its UTF-8 bytes, each a HOL character.
\<close>

unbundle bit_operations_syntax

subsection \<open>Strings and bytes\<close>

definition as_bytes :: "string \<Rightarrow> bytes" where
  "as_bytes s = map of_char s"

definition of_bytes :: "bytes \<Rightarrow> string" where
  "of_bytes bs = map (\<lambda>b. char_of (unat b)) bs"

definition trim_end_matches :: "'a \<Rightarrow> 'a list \<Rightarrow> 'a list" where
  "trim_end_matches c s = rev (dropWhile (\<lambda>x. x = c) (rev s))"

fun strip_prefix :: "string \<Rightarrow> string \<Rightarrow> string option" where
  "strip_prefix [] s = Some s"
| "strip_prefix (p # ps) [] = None"
| "strip_prefix (p # ps) (c # s) = (if p = c then strip_prefix ps s else None)"

text \<open>\<open>str::from_utf8\<close>: the well-formed byte sequences of RFC 3629.\<close>

definition utf8_cont :: "u8 \<Rightarrow> bool" where
  "utf8_cont b \<longleftrightarrow> 0x80 \<le> b \<and> b \<le> 0xBF"

text \<open>The admissible second byte after a lead byte of a three- or four-byte sequence.\<close>

definition utf8_second :: "u8 \<Rightarrow> u8 \<Rightarrow> bool" where
  "utf8_second b c \<longleftrightarrow>
     (if b = 0xE0 then 0xA0 \<le> c \<and> c \<le> 0xBF
      else if b = 0xED then 0x80 \<le> c \<and> c \<le> 0x9F
      else if b = 0xF0 then 0x90 \<le> c \<and> c \<le> 0xBF
      else if b = 0xF4 then 0x80 \<le> c \<and> c \<le> 0x8F
      else utf8_cont c)"

fun utf8_valid :: "bytes \<Rightarrow> bool" where
  "utf8_valid [] = True"
| "utf8_valid (b # bs) =
     (if b < 0x80 then utf8_valid bs
      else if 0xC2 \<le> b \<and> b \<le> 0xDF then
        (case bs of c # r \<Rightarrow> utf8_cont c \<and> utf8_valid r | _ \<Rightarrow> False)
      else if 0xE0 \<le> b \<and> b \<le> 0xEF then
        (case bs of c # d # r \<Rightarrow> utf8_second b c \<and> utf8_cont d \<and> utf8_valid r | _ \<Rightarrow> False)
      else if 0xF0 \<le> b \<and> b \<le> 0xF4 then
        (case bs of c # d # e # r \<Rightarrow> utf8_second b c \<and> utf8_cont d \<and> utf8_cont e \<and> utf8_valid r
         | _ \<Rightarrow> False)
      else False)"

definition from_utf8 :: "bytes \<Rightarrow> string option" where
  "from_utf8 bs = (if utf8_valid bs then Some (of_bytes bs) else None)"

subsection \<open>Numbers in text\<close>

text \<open>
  \<open>str::parse\<close> for the integer types: an optional sign (a minus only for signed types), at
  least one digit, digits only, and a value the type holds.
\<close>

definition is_digit :: "char \<Rightarrow> bool" where
  "is_digit c \<longleftrightarrow> 48 \<le> (of_char c :: nat) \<and> of_char c \<le> (57 :: nat)"

definition digit_value :: "char \<Rightarrow> nat" where
  "digit_value c = of_char c - 48"

definition digits_value :: "string \<Rightarrow> nat option" where
  "digits_value s =
     (if s \<noteq> [] \<and> list_all is_digit s
      then Some (foldl (\<lambda>acc c. acc * 10 + digit_value c) 0 s) else None)"

definition parse_unsigned :: "string \<Rightarrow> 'n::len word option" where
  "parse_unsigned s =
     (case digits_value (case s of CHR ''+'' # cs \<Rightarrow> cs | _ \<Rightarrow> s) of
        None \<Rightarrow> None
      | Some n \<Rightarrow> if n < 2 ^ LENGTH('n) then Some (of_nat n) else None)"

definition parse_i64 :: "string \<Rightarrow> i64 option" where
  "parse_i64 s =
     (case s of
        CHR ''-'' # cs \<Rightarrow> (case digits_value cs of None \<Rightarrow> None | Some n \<Rightarrow> i64_of (- int n))
      | _ \<Rightarrow>
        (case digits_value (case s of CHR ''+'' # cs \<Rightarrow> cs | _ \<Rightarrow> s) of
           None \<Rightarrow> None | Some n \<Rightarrow> i64_of (int n)))"

subsection \<open>Base64\<close>

definition base64_chars :: string where
  "base64_chars = ''ABCDEFGHIJKLMNOPQRSTUVWXYZabcdefghijklmnopqrstuvwxyz0123456789+/''"

text \<open>The table the code builds at compile time: 255 marks a character outside the alphabet.\<close>

definition TABLE :: "u8 list" where
  "TABLE = foldl (\<lambda>t i. t[of_char (base64_chars ! i) := of_nat i]) (replicate 128 255) [0..<64]"

text \<open>\<open>TABLE.get(byte as usize)\<close>\<close>

definition table_get :: "u8 \<Rightarrow> u8 option" where
  "table_get b = (if unat b < length TABLE then Some (TABLE ! unat b) else None)"

text \<open>
  The loop over groups of four characters and the match on what remains. A lookup outside the
  table and a character outside the alphabet both give \<open>None\<close>.
\<close>

fun base64_loop :: "bytes \<Rightarrow> bytes \<Rightarrow> bytes option" where
  "base64_loop out (x0 # x1 # x2 # x3 # rest) =
     (case (table_get x0, table_get x1, table_get x2, table_get x3) of
        (Some b0, Some b1, Some b2, Some b3) \<Rightarrow>
          if b0 = 255 \<or> b1 = 255 \<or> b2 = 255 \<or> b3 = 255 then None
          else base64_loop (out @ [push_bit 2 b0 OR drop_bit 4 b1, push_bit 4 b1 OR drop_bit 2 b2,
            push_bit 6 b2 OR b3]) rest
      | _ \<Rightarrow> None)"
| "base64_loop out [x0, x1, x2] =
     (case (table_get x0, table_get x1, table_get x2) of
        (Some b0, Some b1, Some b2) \<Rightarrow>
          if b0 = 255 \<or> b1 = 255 \<or> b2 = 255 then None
          else Some (out @ [push_bit 2 b0 OR drop_bit 4 b1, push_bit 4 b1 OR drop_bit 2 b2])
      | _ \<Rightarrow> None)"
| "base64_loop out [x0, x1] =
     (case (table_get x0, table_get x1) of
        (Some b0, Some b1) \<Rightarrow>
          if b0 = 255 \<or> b1 = 255 then None else Some (out @ [push_bit 2 b0 OR drop_bit 4 b1])
      | _ \<Rightarrow> None)"
| "base64_loop out [x0] = None"
| "base64_loop out [] = Some out"

definition base64_decode :: "string \<Rightarrow> bytes option" where
  "base64_decode input = base64_loop [] (as_bytes (trim_end_matches CHR ''='' input))"

subsection \<open>XDR vectors of strings\<close>

definition u32_from_be_bytes :: "u8 \<Rightarrow> u8 \<Rightarrow> u8 \<Rightarrow> u8 \<Rightarrow> u32" where
  "u32_from_be_bytes a b c d =
     push_bit 24 (ucast a) OR push_bit 16 (ucast b) OR push_bit 8 (ucast c) OR ucast d"

definition u32_at :: "bytes \<Rightarrow> nat \<Rightarrow> u32" where
  "u32_at bs i = u32_from_be_bytes (bs ! i) (bs ! (i + 1)) (bs ! (i + 2)) (bs ! (i + 3))"

text \<open>
  The loop over the elements: \<open>n\<close> is the number of iterations left, \<open>pos\<close> the read position
  (a \<open>usize\<close>, which a position in a buffer cannot overflow). Running out of data ends it, an
  element that is not UTF-8 is skipped.
\<close>

fun xdr_loop :: "bytes \<Rightarrow> nat \<Rightarrow> nat \<Rightarrow> string list \<Rightarrow> string list" where
  "xdr_loop bs 0 pos result = result"
| "xdr_loop bs (Suc n) pos result =
     (if pos + 4 > length bs then result
      else
        let len = unat (u32_at bs pos); pos = pos + 4
        in if pos + len > length bs then result
           else
             let result = (case from_utf8 (take len (drop pos bs)) of
                             Some s \<Rightarrow> result @ [trim_end_matches (CHR 0x00) s] | None \<Rightarrow> result)
             in xdr_loop bs n (pos + (len + 3) div 4 * 4) result)"

definition decode_string_vec_xdr :: "string \<Rightarrow> string list option" where
  "decode_string_vec_xdr xdr =
     (case base64_decode xdr of
        None \<Rightarrow> None
      | Some bs \<Rightarrow>
          if length bs < 4 then Some [] else Some (xdr_loop bs (unat (u32_at bs 0)) 4 []))"

subsection \<open>JSON\<close>

text \<open>
  \<open>serde_json::Value\<close>: the accessors the code uses, over an arbitrary type of values.
  \<open>jget\<close> is \<open>get\<close> with a key, \<open>jnth\<close> with an index, \<open>jtext\<close> is \<open>to_string\<close>,
  \<open>jparse\<close> is \<open>from_str\<close>, \<open>jnull\<close> is \<open>Value::Null\<close>.
\<close>

record 'v json =
  jget :: "'v \<Rightarrow> string \<Rightarrow> 'v option"
  jnth :: "'v \<Rightarrow> nat \<Rightarrow> 'v option"
  as_array :: "'v \<Rightarrow> 'v list option"
  as_str :: "'v \<Rightarrow> string option"
  as_bool :: "'v \<Rightarrow> bool option"
  as_u64 :: "'v \<Rightarrow> u64 option"
  is_null :: "'v \<Rightarrow> bool"
  jtext :: "'v \<Rightarrow> string"
  jparse :: "string \<Rightarrow> 'v option"
  jnull :: 'v

text \<open>\<open>value[key]\<close>, which is null when there is no such member.\<close>

definition jindex :: "'v json \<Rightarrow> 'v \<Rightarrow> string \<Rightarrow> 'v" where
  "jindex J v k = unwrap_or (jget J v k) (jnull J)"

end
