(* ===== verification/Fixed_Window.thy ===== *)
theory Fixed_Window
  imports Prelude
begin

text \<open>
  The counter both rate limiters of the off-chain programs keep per client
  (\<open>api-server/src/rate_limit.rs\<close>, \<open>metrics/src/rate_limit.rs\<close>): a fixed window that starts
  with the first request and restarts with the first request after it has expired. The locale
  \<open>fixed_window\<close> is the contract of a limiter towards one client, with the bound it gives.

  An \<open>Instant\<close> and a \<open>Duration\<close> are counted in nanoseconds; \<open>duration_since\<close> of an
  earlier instant is 0, the subtraction of naturals. Both programs are built in the release profile
  of their own workspaces, without overflow checks, so \<open>+\<close> on \<open>u32\<close> wraps.
\<close>

record bucket_entry =
  count :: u32
  window_start :: nat

definition NANOS_PER_SEC :: nat where
  "NANOS_PER_SEC = 1000000000"

definition from_secs :: "u64 \<Rightarrow> nat" where
  "from_secs s = unat s * NANOS_PER_SEC"

text \<open>The entry a request finds when its client has none.\<close>

definition fresh_bucket :: "nat \<Rightarrow> bucket_entry" where
  "fresh_bucket now = \<lparr>count = 0, window_start = now\<rparr>"

definition hit_bucket :: "nat \<Rightarrow> nat \<Rightarrow> bucket_entry \<Rightarrow> bucket_entry" where
  "hit_bucket window now entry =
     (let entry = if now - window_start entry \<ge> window then \<lparr>count = 0, window_start = now\<rparr> else entry
      in entry\<lparr>count := count entry + 1\<rparr>)"

text \<open>Whole seconds until the window of an entry ends, at least one.\<close>

definition bucket_retry_after :: "nat \<Rightarrow> nat \<Rightarrow> bucket_entry option \<Rightarrow> nat" where
  "bucket_retry_after window now entry =
     (case entry of
        Some e \<Rightarrow>
          (let elapsed = now - window_start e
           in if elapsed < window then max ((window - elapsed) div NANOS_PER_SEC) 1 else 1)
      | None \<Rightarrow> 1)"

subsection \<open>The contract of a limiter\<close>

text \<open>
  An operation \<open>x\<close> happens at \<open>at x\<close>; it may be a request of a client \<open>k\<close> (\<open>asks x k\<close>),
  answered by \<open>admits\<close>. Anything else leaves the entry of \<open>k\<close> or drops it once it has expired.
\<close>

locale fixed_window =
  fixes window :: nat and limit :: u32
    and entry :: "'s \<Rightarrow> 'k \<Rightarrow> bucket_entry option"
    and step :: "'o \<Rightarrow> 's \<Rightarrow> 's"
    and at :: "'o \<Rightarrow> nat" and asks :: "'o \<Rightarrow> 'k \<Rightarrow> bool" and admits :: "'o \<Rightarrow> 's \<Rightarrow> bool"
    and good :: "'s \<Rightarrow> bool" and allowed :: "'o \<Rightarrow> bool"
  assumes request: "good s \<Longrightarrow> allowed x \<Longrightarrow> asks x k \<Longrightarrow>
      entry (step x s) k = Some (hit_bucket window (at x) (unwrap_or (entry s k) (fresh_bucket (at x))))"
    and answer: "good s \<Longrightarrow> allowed x \<Longrightarrow> asks x k \<Longrightarrow>
      admits x s \<longleftrightarrow> count (hit_bucket window (at x) (unwrap_or (entry s k) (fresh_bucket (at x)))) \<le> limit"
    and others: "good s \<Longrightarrow> allowed x \<Longrightarrow> \<not> asks x k \<Longrightarrow>
      entry (step x s) k = entry s k
      \<or> entry (step x s) k = None \<and> (\<exists>e. entry s k = Some e \<and> window \<le> at x - window_start e)"
    and good_step: "good s \<Longrightarrow> allowed x \<Longrightarrow> good (step x s)"
begin

fun after :: "'s \<Rightarrow> 'o list \<Rightarrow> 's" where
  "after s [] = s"
| "after s (x # xs) = after (step x s) xs"

text \<open>The requests of \<open>k\<close> that were let through.\<close>

fun granted :: "'k \<Rightarrow> 's \<Rightarrow> 'o list \<Rightarrow> nat" where
  "granted k s [] = 0"
| "granted k s (x # xs) = (if asks x k \<and> admits x s then 1 else 0) + granted k (step x s) xs"

lemma after_append: "after s (xs @ ys) = after (after s xs) ys"
  by (induction xs arbitrary: s) simp_all

lemma after_good: "good s \<Longrightarrow> \<forall>x\<in>set xs. allowed x \<Longrightarrow> good (after s xs)"
  by (induction xs arbitrary: s) (simp_all add: good_step)

definition counted :: "'k \<Rightarrow> 's \<Rightarrow> nat" where
  "counted k s = (case entry s k of None \<Rightarrow> 0 | Some e \<Rightarrow> unat (count e))"

lemma counted_step:
  assumes "good s" "allowed x"
  shows "counted k (step x s) \<le> Suc (counted k s)"
proof (cases "asks x k")
  case True
  have "unat (c + 1) \<le> Suc (unat c)" for c :: u32
    by (simp add: unat_word_ariths)
  then show ?thesis
    by (auto simp: counted_def request [OF assms True] hit_bucket_def fresh_bucket_def Let_def
        split: option.splits)
next
  case False
  from others [OF assms False] show ?thesis by (auto simp: counted_def)
qed

lemma counted_after:
  "good s \<Longrightarrow> \<forall>x\<in>set xs. allowed x \<Longrightarrow> counted k (after s xs) \<le> counted k s + length xs"
proof (induction xs arbitrary: s)
  case (Cons x xs)
  from Cons.prems have "counted k (after (step x s) xs) \<le> counted k (step x s) + length xs"
    by (intro Cons.IH) (simp_all add: good_step)
  with counted_step [of s x k] Cons.prems show ?case by simp
qed simp

text \<open>
  What an interval no longer than the window can still let through: the rest of the current
  window, and one more window when the current one began before the interval.
\<close>

definition budget :: "nat \<Rightarrow> 'k \<Rightarrow> 's \<Rightarrow> nat" where
  "budget t k s =
     (case entry s k of
        None \<Rightarrow> unat limit
      | Some e \<Rightarrow> (unat limit - unat (count e)) + (if window_start e < t then unat limit else 0))"

lemma budget_after:
  assumes "good s" "allowed x" "t \<le> at x" "at x < t + window" "counted k s < 2 ^ 32 - 1"
  shows "(if asks x k \<and> admits x s then 1 else 0) + budget t k (step x s) \<le> budget t k s"
proof (cases "asks x k")
  case True
  have suc: "unat (c + 1) = Suc (unat c)" if "unat c < 2 ^ 32 - 1" for c :: u32
    using that by (simp add: unat_word_ariths)
  note laws = request [OF assms(1,2) True] answer [OF assms(1,2) True]
  show ?thesis
  proof (cases "entry s k")
    case None
    with assms(3,4) True show ?thesis
      by (simp add: budget_def laws hit_bucket_def fresh_bucket_def Let_def word_le_nat_alt)
  next
    case (Some e)
    with assms(5) have c: "unat (count e + 1) = Suc (unat (count e))"
      by (intro suc) (simp add: counted_def)
    show ?thesis
    proof (cases "window \<le> at x - window_start e")
      case True
      with assms(3,4) have "window_start e < t" by simp
      with True Some assms(3) \<open>asks x k\<close> show ?thesis
        by (simp add: budget_def laws hit_bucket_def Let_def word_le_nat_alt)
    next
      case False
      with Some \<open>asks x k\<close> c show ?thesis
        by (auto simp: budget_def laws hit_bucket_def Let_def word_le_nat_alt)
    qed
  qed
next
  case False
  have "budget t k (step x s) \<le> budget t k s"
  proof -
    consider "entry (step x s) k = entry s k"
      | e where "entry (step x s) k = None" "entry s k = Some e" "window \<le> at x - window_start e"
      using others [OF assms(1,2) False] by blast
    then show ?thesis
    proof cases
      case 2
      with assms(3,4) have "window_start e < t" by simp
      with 2 show ?thesis by (simp add: budget_def)
    qed (simp add: budget_def)
  qed
  with False show ?thesis by simp
qed

lemma granted_budget:
  assumes "good s" "\<forall>x\<in>set xs. allowed x \<and> t \<le> at x \<and> at x < t + window"
    and "counted k s + length xs < 2 ^ 32"
  shows "granted k s xs \<le> budget t k s"
  using assms
proof (induction xs arbitrary: s)
  case (Cons x xs)
  then have x: "good s" "allowed x" "t \<le> at x" "at x < t + window" "counted k s < 2 ^ 32 - 1" by auto
  from Cons.prems(3) counted_step [OF x(1,2), of k]
  have "counted k (step x s) + length xs < 2 ^ 32" by simp
  with Cons.IH [of "step x s"] Cons.prems(2) good_step [OF x(1,2)] budget_after [OF x]
  show ?case by fastforce
qed simp

lemma budget_bound: "budget t k s \<le> 2 * unat limit"
  by (auto simp: budget_def split: option.splits)

text \<open>Within any span shorter than the window a client gets at most twice the limit.\<close>

lemma granted_bound:
  assumes "good s" "entry s k = None" "\<forall>x\<in>set (earlier @ xs). allowed x"
    and "\<forall>x\<in>set xs. t \<le> at x \<and> at x < t + window" and "length (earlier @ xs) < 2 ^ 32"
  shows "granted k (after s earlier) xs \<le> 2 * unat limit"
proof -
  from assms(3) have ok: "\<forall>x\<in>set earlier. allowed x" by simp
  have "counted k (after s earlier) + length xs < 2 ^ 32"
    using counted_after [OF assms(1) ok, of k] assms(2,5) by (simp add: counted_def)
  then have "granted k (after s earlier) xs \<le> budget t k (after s earlier)"
    using assms(3,4) by (intro granted_budget after_good assms(1) ok) auto
  also have "\<dots> \<le> 2 * unat limit" by (rule budget_bound)
  finally show ?thesis .
qed

end

end
