(* ===== verification/Api_Server.thy ===== *)
theory Api_Server
  imports Wire Fixed_Window
begin

text \<open>
  The API server (\<open>api-server/src\<close>): the rate limiter in front of every route
  (\<open>rate_limit.rs\<close>), the shared state (\<open>state.rs\<close>), the WebSocket endpoint
  (\<open>websocket.rs\<close>), the RPC client's decoding and fee estimates (\<open>rpc.rs\<close>) and the HTTP
  handlers (\<open>handlers.rs\<close>). The network is a parameter: what the RPC node answers is an
  argument, what a client sends is an input. A \<open>DashMap\<close> is a map, JSON values are an abstract
  type with the accessors of serde_json the code calls.
\<close>

subsection \<open>rate_limit.rs\<close>

record rate_limit_config =
  max_requests :: u32
  cfg_window :: nat

record rate_limiter =
  limiter_config :: rate_limit_config
  buckets :: "string \<Rightarrow> bucket_entry option"

text \<open>\<open>anyhow::bail!\<close> with its message is \<open>Some\<close>, success is \<open>None\<close>.\<close>

definition validate_rate_limit_args :: "u32 \<Rightarrow> u64 \<Rightarrow> string option" where
  "validate_rate_limit_args max_req window_secs =
     (if window_secs = 0 then Some ''rate_limit_window_secs must be greater than 0''
      else if max_req = 0 then Some ''rate_limit_max_requests must be greater than 0''
      else None)"

definition limiter_new :: "rate_limit_config \<Rightarrow> rate_limiter" where
  "limiter_new cfg = \<lparr>limiter_config = cfg, buckets = (\<lambda>_. None)\<rparr>"

definition check_and_remaining :: "nat \<Rightarrow> string \<Rightarrow> rate_limiter \<Rightarrow> (bool \<times> u32) \<times> rate_limiter" where
  "check_and_remaining now key l =
     (let entry = unwrap_or (buckets l key) (fresh_bucket now);
          entry = hit_bucket (cfg_window (limiter_config l)) now entry;
          is_allowed = count entry \<le> max_requests (limiter_config l)
      in ((is_allowed, saturating_sub (max_requests (limiter_config l)) (count entry)),
          l\<lparr>buckets := (buckets l)(key := Some entry)\<rparr>))"

definition retry_after_secs :: "nat \<Rightarrow> string \<Rightarrow> rate_limiter \<Rightarrow> nat" where
  "retry_after_secs now key l = bucket_retry_after (cfg_window (limiter_config l)) now (buckets l key)"

text \<open>One tick of the background task of \<open>spawn_sweeper\<close>.\<close>

definition sweep :: "nat \<Rightarrow> rate_limiter \<Rightarrow> rate_limiter" where
  "sweep now l = l\<lparr>buckets := (\<lambda>k. case buckets l k of
     Some entry \<Rightarrow> if now - window_start entry < cfg_window (limiter_config l) then Some entry else None
   | None \<Rightarrow> None)\<rparr>"

text \<open>
  The middleware: \<open>peer\<close> is the remote IP address in text, if the server recorded it,
  \<open>handler\<close> the rest of the stack. An admitted response carries the two headers.
\<close>

datatype 'r limited =
    Admitted 'r (limit_header: u32) (remaining_header: u32)
  | TooManyRequests (retry_after: nat)

definition client_key :: "string option \<Rightarrow> string" where
  "client_key peer = unwrap_or peer ''127.0.0.1''"

definition api_rate_limit_middleware ::
    "nat \<Rightarrow> string option \<Rightarrow> ('s \<Rightarrow> 'r \<times> 's) \<Rightarrow> rate_limiter \<times> 's \<Rightarrow> 'r limited \<times> rate_limiter \<times> 's" where
  "api_rate_limit_middleware now peer handler st =
     (let (l, s) = st; key = client_key peer;
          ((is_allowed, remaining), l) = check_and_remaining now key l
      in if is_allowed then
           (let (r, s) = handler s
            in (Admitted r (max_requests (limiter_config l)) remaining, l, s))
         else (TooManyRequests (retry_after_secs now key l), l, s))"

subsection \<open>state.rs\<close>

definition MAX_WS_CONNECTIONS :: u64 where
  "MAX_WS_CONNECTIONS = 100"

definition MAX_SUBSCRIPTIONS_PER_CONNECTION :: nat where
  "MAX_SUBSCRIPTIONS_PER_CONNECTION = 100"

datatype transaction_status = TxPending | TxSubmitted | TxConfirmed | TxFailed

record tx_event =
  tx_id :: string
  tx_status :: transaction_status
  tx_timestamp :: string
  tx_message :: "string option"

text \<open>
  The part of \<open>AppState\<close> that changes. The broadcast channel is the history of the events sent
  on it (\<open>tx_status_sent\<close>) and the queue of each receiver, one per socket (\<open>tx_status_tx\<close>); the
  counts of \<open>tx_subscribers\<close> are of type \<open>usize\<close>, which cannot overflow by one per message.
\<close>

record app_state =
  tx_status_sent :: "tx_event list"
  tx_status_tx :: "nat \<Rightarrow> tx_event list option"
  tx_subscribers :: "string \<Rightarrow> nat option"
  ws_connection_count :: u64

definition app_new :: app_state where
  "app_new = \<lparr>tx_status_sent = [], tx_status_tx = (\<lambda>_. None), tx_subscribers = (\<lambda>_. None), ws_connection_count = 0\<rparr>"

definition broadcast_status :: "tx_event \<Rightarrow> app_state \<Rightarrow> app_state" where
  "broadcast_status event a = a\<lparr>tx_status_sent := tx_status_sent a @ [event],
     tx_status_tx := (\<lambda>r. map_option (\<lambda>q. q @ [event]) (tx_status_tx a r))\<rparr>"

definition add_subscriber :: "string \<Rightarrow> app_state \<Rightarrow> app_state" where
  "add_subscriber tx a = a\<lparr>tx_subscribers := (tx_subscribers a)(tx :=
     (case tx_subscribers a tx of Some n \<Rightarrow> Some (n + 1) | None \<Rightarrow> Some 1))\<rparr>"

text \<open>
  \<open>remove_subscriber\<close> looks at the count under the lock of its entry, drops the lock, and removes
  the entry by a second access to the map. The Boolean of the first tells whether the second comes.
\<close>

definition remove_subscriber_get :: "string \<Rightarrow> app_state \<Rightarrow> bool \<times> app_state" where
  "remove_subscriber_get tx a =
     (case tx_subscribers a tx of
        Some n \<Rightarrow>
          if n > 1 then (False, a\<lparr>tx_subscribers := (tx_subscribers a)(tx := Some (n - 1))\<rparr>)
          else (True, a)
      | None \<Rightarrow> (False, a))"

definition remove_subscriber_drop :: "string \<Rightarrow> app_state \<Rightarrow> app_state" where
  "remove_subscriber_drop tx a = a\<lparr>tx_subscribers := (tx_subscribers a)(tx := None)\<rparr>"

definition remove_subscriber :: "string \<Rightarrow> app_state \<Rightarrow> app_state" where
  "remove_subscriber tx a =
     (let (last, a) = remove_subscriber_get tx a
      in if last then remove_subscriber_drop tx a else a)"

definition try_acquire_ws_connection :: "app_state \<Rightarrow> bool \<times> app_state" where
  "try_acquire_ws_connection a =
     (if ws_connection_count a < MAX_WS_CONNECTIONS
      then (True, a\<lparr>ws_connection_count := ws_connection_count a + 1\<rparr>) else (False, a))"

definition release_ws_connection :: "app_state \<Rightarrow> app_state" where
  "release_ws_connection a = a\<lparr>ws_connection_count := ws_connection_count a - 1\<rparr>"

subsection \<open>websocket.rs\<close>

definition IDLE_TIMEOUT :: nat where
  "IDLE_TIMEOUT = 60 * NANOS_PER_SEC"

datatype server_msg =
    Subscribed string | SubscriptionLimit | StatusUpdate tx_event | Ping

text \<open>
  The locals of \<open>handle_socket\<close>: the subscriptions (a \<open>HashSet\<close>, listed without repetition),
  the time of the last activity, and what has been sent.
\<close>

record ws_conn =
  subscriptions :: "string list"
  last_activity :: nat
  sent :: "server_msg list"

text \<open>
  What \<open>receiver.next()\<close> yields: a text message, parsed as the pair of \<open>action\<close> and
  \<open>tx_id\<close> or not at all, a pong, another message, or an end (close, end of stream, error).
\<close>

datatype ws_message = TextMsg "(string \<times> string) option" | PongMsg | OtherMsg | EndMsg

definition send_msg :: "server_msg \<Rightarrow> ws_conn \<Rightarrow> ws_conn" where
  "send_msg m c = c\<lparr>sent := sent c @ [m]\<rparr>"

text \<open>
  One turn of the loop on a received message; \<open>sends\<close> tells whether a send succeeds. The
  Boolean of the result is \<open>False\<close> for \<open>break\<close>.
\<close>

definition on_message :: "nat \<Rightarrow> bool \<Rightarrow> ws_message \<Rightarrow> ws_conn \<times> app_state \<Rightarrow> bool \<times> ws_conn \<times> app_state" where
  "on_message now sends m st =
     (let (c, a) = st in
      case m of
        TextMsg parsed \<Rightarrow>
          (let c = c\<lparr>last_activity := now\<rparr> in
           case parsed of
             None \<Rightarrow> (True, c, a)
           | Some (action, tx) \<Rightarrow>
               if action = ''subscribe'' then
                 (if length (subscriptions c) \<ge> MAX_SUBSCRIPTIONS_PER_CONNECTION then
                    (if sends then (True, send_msg SubscriptionLimit c, a) else (False, c, a))
                  else
                    (let c = c\<lparr>subscriptions := List.insert tx (subscriptions c)\<rparr>;
                         a = add_subscriber tx a
                     in if sends then (True, send_msg (Subscribed tx) c, a) else (False, c, a)))
               else if action = ''unsubscribe'' then
                 (True, c\<lparr>subscriptions := removeAll tx (subscriptions c)\<rparr>, remove_subscriber tx a)
               else (True, c, a))
      | PongMsg \<Rightarrow> (True, c\<lparr>last_activity := now\<rparr>, a)
      | OtherMsg \<Rightarrow> (True, c, a)
      | EndMsg \<Rightarrow> (False, c, a))"

text \<open>
  \<open>recv_matching\<close> on the queue of the receiver: the first event for a subscribed id, the
  others before it dropped; \<open>None\<close> when it keeps waiting. A receiver that lagged behind has
  lost the front of its queue, a step of its own below. The channel is never closed while a socket
  is open, whose handler holds the sender.
\<close>

fun recv_matching :: "tx_event list \<Rightarrow> string list \<Rightarrow> tx_event option \<times> tx_event list" where
  "recv_matching [] subs = (None, [])"
| "recv_matching (e # q) subs = (if tx_id e \<in> set subs then (Some e, q) else recv_matching q subs)"

definition on_update :: "nat \<Rightarrow> bool \<Rightarrow> ws_conn \<times> app_state \<Rightarrow> bool \<times> ws_conn \<times> app_state" where
  "on_update rx sends st =
     (let (c, a) = st in
      if subscriptions c = [] then (True, c, a)
      else
        (let (e, q) = recv_matching (unwrap_or (tx_status_tx a rx) []) (subscriptions c);
             a = a\<lparr>tx_status_tx := (tx_status_tx a)(rx := Some q)\<rparr>
         in case e of
              None \<Rightarrow> (True, c, a)
            | Some e \<Rightarrow> if sends then (True, send_msg (StatusUpdate e) c, a) else (False, c, a)))"

definition on_tick :: "nat \<Rightarrow> bool \<Rightarrow> ws_conn \<times> app_state \<Rightarrow> bool \<times> ws_conn \<times> app_state" where
  "on_tick now sends st =
     (let (c, a) = st in
      if now - last_activity c \<ge> IDLE_TIMEOUT then (False, c, a)
      else if sends then (True, send_msg Ping c, a) else (False, c, a))"

text \<open>The clean-up after the loop, and the receiver dropped with the handler.\<close>

definition ws_cleanup :: "nat \<Rightarrow> ws_conn \<Rightarrow> app_state \<Rightarrow> app_state" where
  "ws_cleanup rx c a =
     (let a = fold remove_subscriber (subscriptions c) a; a = release_ws_connection a
      in a\<lparr>tx_status_tx := (tx_status_tx a)(rx := None)\<rparr>)"

text \<open>
  The server: the open sockets by number. A connection request is answered by \<open>ws_handler\<close>: when
  a slot is free it is taken before the upgrade, and \<open>handle_socket\<close> runs only if the upgrade
  completes (\<open>upgraded\<close>). The other inputs are a turn of the loop of a socket, an event
  published by a handler, and a receiver losing its \<open>n\<close> oldest events.
\<close>

record ws_server =
  app :: app_state
  conns :: "nat \<Rightarrow> ws_conn option"

definition ws_start :: ws_server where
  "ws_start = \<lparr>app = app_new, conns = (\<lambda>_. None)\<rparr>"

datatype ws_turn = Received ws_message | Updated | Ticked

datatype ws_input =
    Connect nat nat bool
  | Turn nat nat bool ws_turn
  | Publish tx_event
  | Lagged nat nat

definition ws_handler :: "nat \<Rightarrow> nat \<Rightarrow> bool \<Rightarrow> ws_server \<Rightarrow> bool \<times> ws_server" where
  "ws_handler i now upgraded s =
     (let (ok, a) = try_acquire_ws_connection (app s) in
      if \<not> ok then (False, s)
      else if upgraded then
        (True, s\<lparr>app := a\<lparr>tx_status_tx := (tx_status_tx a)(i := Some [])\<rparr>,
            conns := (conns s)(i := Some \<lparr>subscriptions = [], last_activity = now, sent = []\<rparr>)\<rparr>)
      else (True, s\<lparr>app := a\<rparr>))"

definition socket_turn :: "nat \<Rightarrow> nat \<Rightarrow> bool \<Rightarrow> ws_turn \<Rightarrow> ws_conn \<times> app_state \<Rightarrow> bool \<times> ws_conn \<times> app_state" where
  "socket_turn i now sends t st =
     (case t of
        Received m \<Rightarrow> on_message now sends m st
      | Updated \<Rightarrow> on_update i sends st
      | Ticked \<Rightarrow> on_tick now sends st)"

definition handle_turn :: "nat \<Rightarrow> nat \<Rightarrow> bool \<Rightarrow> ws_turn \<Rightarrow> ws_server \<Rightarrow> ws_server" where
  "handle_turn i now sends t s =
     (case conns s i of
        None \<Rightarrow> s
      | Some c \<Rightarrow>
          (let (continue, c, a) = socket_turn i now sends t (c, app s)
           in if continue then s\<lparr>app := a, conns := (conns s)(i := Some c)\<rparr>
              else s\<lparr>app := ws_cleanup i c a, conns := (conns s)(i := None)\<rparr>))"

definition ws_step :: "ws_input \<Rightarrow> ws_server \<Rightarrow> ws_server" where
  "ws_step x s =
     (case x of
        Connect i now upgraded \<Rightarrow> if conns s i = None then snd (ws_handler i now upgraded s) else s
      | Turn i now sends t \<Rightarrow> handle_turn i now sends t s
      | Publish e \<Rightarrow> s\<lparr>app := broadcast_status e (app s)\<rparr>
      | Lagged i n \<Rightarrow> s\<lparr>app := (app s)\<lparr>tx_status_tx :=
          (tx_status_tx (app s))(i := map_option (drop n) (tx_status_tx (app s) i))\<rparr>\<rparr>)"

end
