(* ===== verification/Api_Http.thy ===== *)
theory Api_Http
  imports Api_Server
begin

text \<open>
  The RPC client of the API server and its HTTP handlers (\<open>rpc.rs\<close>, \<open>handlers.rs\<close>,
  \<open>types.rs\<close>). The RPC node is the parameter \<open>http\<close>, from the text of the transaction it is
  sent to what comes back: a transport failure, a body that is not the expected JSON, or the
  deserialised answer. An error value is its text, as \<open>anyhow\<close> prints it.
\<close>

subsection \<open>rpc.rs: fees\<close>

definition BASE_FEE :: i64 where
  "BASE_FEE = 100"

definition SURGE_THRESHOLD_BPS :: u32 where
  "SURGE_THRESHOLD_BPS = 8000"

definition SURGE_MULTIPLIER :: u32 where
  "SURGE_MULTIPLIER = 200"

definition NORMAL_MULTIPLIER :: u32 where
  "NORMAL_MULTIPLIER = 100"

datatype http_failure = Unreachable string | BadBody string

record 'r rpc_response =
  rpc_result :: "'r option"
  rpc_error :: "string option"

type_synonym 'r http = "string \<Rightarrow> http_failure + 'r rpc_response"

record 'v sim_result =
  min_resource_fee :: string
  sim_error :: "string option"
  sim_events :: "'v list"

record fee_breakdown =
  base_fee :: i64
  resource_fee :: i64
  total_fee :: i64
  surge_multiplier :: u32
  high_load :: bool
  would_succeed :: bool
  fee_estimated :: bool
  simulated :: bool
  diagnostics :: "string list"

text \<open>Division of \<open>i64\<close> by a positive constant.\<close>

definition i64_div :: "i64 \<Rightarrow> int \<Rightarrow> i64" where
  "i64_div a b = word_of_int (trunc_div (sint a) b)"

definition surge :: "u32 \<Rightarrow> u32 \<times> bool" where
  "surge network_load_bps =
     (if network_load_bps \<ge> SURGE_THRESHOLD_BPS then (SURGE_MULTIPLIER, True)
      else (NORMAL_MULTIPLIER, False))"

text \<open>\<open>(base_fee + resource_fee) * surge_multiplier as i64 / 100\<close>, wrapping.\<close>

definition fee_total :: "i64 \<Rightarrow> i64 \<Rightarrow> u32 \<Rightarrow> i64" where
  "fee_total base resource mult = i64_div ((base + resource) * ucast mult) 100"

definition heuristic_estimate :: "i64 \<Rightarrow> u32 \<Rightarrow> fee_breakdown" where
  "heuristic_estimate amount network_load_bps =
     (let base = BASE_FEE;
          scaled = i64_div amount 1000;
          resource = (if sint scaled < 100 then 100 else scaled);
          (mult, high) = surge network_load_bps
      in \<lparr>base_fee = base, resource_fee = resource, total_fee = fee_total base resource mult,
          surge_multiplier = mult, high_load = high, would_succeed = False, fee_estimated = False,
          simulated = False, diagnostics = []\<rparr>)"

definition format_events :: "'v json \<Rightarrow> 'v list \<Rightarrow> string list" where
  "format_events J evs = map (\<lambda>e. case as_str J e of Some s \<Rightarrow> s | None \<Rightarrow> jtext J e) evs"

definition call_simulate_rpc :: "'v sim_result http \<Rightarrow> string \<Rightarrow> string \<Rightarrow> string + 'v sim_result" where
  "call_simulate_rpc http target fn =
     (case http (''AAAAAgAAAAEAAAAA'' @ target @ fn @ ''AAAAAAAAAAA='') of
        Inl (Unreachable e) \<Rightarrow> Inl e
      | Inl (BadBody e) \<Rightarrow> Inl e
      | Inr resp \<Rightarrow>
          (case rpc_error resp of
             Some err \<Rightarrow> Inl (''RPC error: '' @ err)
           | None \<Rightarrow> (case rpc_result resp of Some r \<Rightarrow> Inr r | None \<Rightarrow> Inl ''empty RPC result'')))"

definition rpc_simulate ::
    "'v json \<Rightarrow> 'v sim_result http \<Rightarrow> string \<Rightarrow> string \<Rightarrow> i64 \<Rightarrow> u32 \<Rightarrow> string + fee_breakdown" where
  "rpc_simulate J http target fn amount network_load_bps =
     (case call_simulate_rpc http target fn of
        Inr result \<Rightarrow>
          (let succeeds = (sim_error result = None);
               (resource, estimated) =
                 (case parse_i64 (min_resource_fee result) of Some v \<Rightarrow> (v, True) | None \<Rightarrow> (1000, False));
               base = BASE_FEE;
               (mult, high) = surge network_load_bps
           in Inr \<lparr>base_fee = base, resource_fee = resource, total_fee = fee_total base resource mult,
               surge_multiplier = mult, high_load = high, would_succeed = succeeds,
               fee_estimated = estimated, simulated = True,
               diagnostics = format_events J (sim_events result)\<rparr>)
      | Inl _ \<Rightarrow> Inr (heuristic_estimate amount network_load_bps))"

subsection \<open>rpc.rs: routes\<close>

record sim_return =
  ret_error :: "string option"
  ret_results :: "string list"

definition rpc_get_all_routes :: "sim_return http \<Rightarrow> string \<Rightarrow> string + string list" where
  "rpc_get_all_routes http contract_id =
     (case http (''AAAAAgAAAAEAAAAA'' @ contract_id @ ''get_all_routesAAAAAAAAAAAA='') of
        Inl (Unreachable e) \<Rightarrow> Inl (''RPC request failed: '' @ e)
      | Inl (BadBody e) \<Rightarrow> Inl (''Failed to parse RPC response: '' @ e)
      | Inr resp \<Rightarrow>
          (case rpc_error resp of
             Some err \<Rightarrow> Inl (''RPC error: '' @ err)
           | None \<Rightarrow>
               (case rpc_result resp of
                  None \<Rightarrow> Inl ''empty RPC result''
                | Some result \<Rightarrow>
                    (case ret_error result of
                       Some err \<Rightarrow> Inl (''contract error: '' @ err)
                     | None \<Rightarrow>
                         Inr (unwrap_or (case ret_results result of
                             [] \<Rightarrow> None | xdr # _ \<Rightarrow> decode_string_vec_xdr xdr) [])))))"

record route_metadata_response =
  rm_description :: string
  rm_tags :: "string list"
  rm_owner :: string

record route_entry_response =
  rr_address :: string
  rr_name :: string
  rr_paused :: bool
  rr_updated_by :: string
  rr_metadata :: "route_metadata_response option"

text \<open>The text under a key of a value, \<open>\<open>""\<close>\<close> when absent or not a string.\<close>

definition text_at :: "'v json \<Rightarrow> string \<Rightarrow> 'v \<Rightarrow> string" where
  "text_at J k v = unwrap_or (Option.bind (jget J v k) (as_str J)) []"

definition item_key :: "'v json \<Rightarrow> 'v \<Rightarrow> string" where
  "item_key J item =
     unwrap_or (Option.bind (Option.bind (jget J item ''key'') (\<lambda>k. jget J k ''sym'')) (as_str J)) []"

text \<open>The loop body over the fields of the metadata, and over the fields of the entry.\<close>

definition meta_field :: "'v json \<Rightarrow> 'v \<Rightarrow> route_metadata_response \<Rightarrow> route_metadata_response" where
  "meta_field J meta_item m =
     (let mk = item_key J meta_item; mv = jindex J meta_item ''val'' in
      if mk = ''description'' then m\<lparr>rm_description := text_at J ''str'' mv\<rparr>
      else if mk = ''owner'' then m\<lparr>rm_owner := text_at J ''address'' mv\<rparr>
      else if mk = ''tags'' then
        (case Option.bind (jget J mv ''vec'') (as_array J) of
           Some tag_vec \<Rightarrow>
             m\<lparr>rm_tags := List.map_filter (\<lambda>t. Option.bind (jget J t ''str'') (as_str J)) tag_vec\<rparr>
         | None \<Rightarrow> m)
      else m)"

definition entry_field :: "'v json \<Rightarrow> 'v \<Rightarrow> route_entry_response \<Rightarrow> route_entry_response" where
  "entry_field J item e =
     (let key = item_key J item; v = jindex J item ''val'' in
      if key = ''address'' then e\<lparr>rr_address := text_at J ''address'' v\<rparr>
      else if key = ''name'' then e\<lparr>rr_name := text_at J ''str'' v\<rparr>
      else if key = ''paused'' then
        e\<lparr>rr_paused := unwrap_or (Option.bind (jget J v ''b'') (as_bool J)) False\<rparr>
      else if key = ''updated_by'' then e\<lparr>rr_updated_by := text_at J ''address'' v\<rparr>
      else if key = ''metadata'' then
        (case Option.bind (jget J v ''map'') (as_array J) of
           Some meta_map \<Rightarrow>
             e\<lparr>rr_metadata := Some (fold (meta_field J) meta_map
               \<lparr>rm_description = [], rm_tags = [], rm_owner = []\<rparr>)\<rparr>
         | None \<Rightarrow> e)
      else e)"

definition option_filter :: "('a \<Rightarrow> bool) \<Rightarrow> 'a option \<Rightarrow> 'a option" where
  "option_filter P x = (case x of Some v \<Rightarrow> if P v then Some v else None | None \<Rightarrow> None)"

definition empty_entry :: route_entry_response where
  "empty_entry = \<lparr>rr_address = [], rr_name = [], rr_paused = False, rr_updated_by = [], rr_metadata = None\<rparr>"

definition parse_route_entry_from_rpc :: "'v json \<Rightarrow> 'v \<Rightarrow> string + route_entry_response option" where
  "parse_route_entry_from_rpc J result =
     (case option_filter (\<lambda>e. \<not> is_null J e) (jget J result ''error'') of
        Some err \<Rightarrow> Inl (''contract simulation error: '' @ unwrap_or (as_str J err) (jtext J err))
      | None \<Rightarrow>
          (case Option.bind (jget J result ''results'') (as_array J) of
             Some (first # _) \<Rightarrow>
               (let entry_json = jindex J first ''xdr'' in
                if is_null J entry_json then Inr None
                else
                  (case Option.bind (jget J entry_json ''map'') (as_array J) of
                     None \<Rightarrow> Inr None
                   | Some m \<Rightarrow>
                       (let e = fold (entry_field J) m empty_entry
                        in if rr_address e = [] then Inr None else Inr (Some e))))
           | _ \<Rightarrow> Inr None))"

definition rpc_get_route :: "'v json \<Rightarrow> 'v http \<Rightarrow> string \<Rightarrow> string \<Rightarrow> string + route_entry_response option" where
  "rpc_get_route J http contract_id name =
     (case http (''get_route:'' @ contract_id @ '':'' @ name) of
        Inl (Unreachable e) \<Rightarrow> Inl e
      | Inl (BadBody e) \<Rightarrow> Inl e
      | Inr resp \<Rightarrow>
          (case rpc_error resp of
             Some err \<Rightarrow> Inl (''RPC error: '' @ err)
           | None \<Rightarrow>
               (case rpc_result resp of
                  None \<Rightarrow> Inr None
                | Some result \<Rightarrow> parse_route_entry_from_rpc J result)))"

subsection \<open>types.rs and handlers.rs\<close>

datatype error_code = ValidationError | RpcError | ContractError | NotFoundCode | InternalError

record error_detail =
  ed_code :: error_code
  ed_message :: string
  ed_field :: "string option"

definition error_new :: "error_code \<Rightarrow> string \<Rightarrow> error_detail" where
  "error_new code msg = \<lparr>ed_code = code, ed_message = msg, ed_field = None\<rparr>"

definition error_with_field :: "error_code \<Rightarrow> string \<Rightarrow> string \<Rightarrow> error_detail" where
  "error_with_field code msg field = \<lparr>ed_code = code, ed_message = msg, ed_field = Some field\<rparr>"

text \<open>The answer of a handler: an error status with its body, or a value with status 200.\<close>

type_synonym 'a answer = "(nat \<times> error_detail) + 'a"

record simulate_request =
  req_target :: string
  req_function :: string
  req_amount :: i64
  req_network_load_bps :: u32
  req_tx_id :: "string option"

record fee_estimate =
  fe_base_fee :: i64
  fe_resource_fee :: i64
  fe_total_fee :: i64
  fe_surge_multiplier :: u32
  fe_high_load :: bool
  fe_fee_estimated :: bool

record simulate_response =
  sr_success :: bool
  sr_fees :: fee_estimate
  sr_target :: string
  sr_function :: string
  sr_would_succeed :: bool
  sr_diagnostics :: "string list"
  sr_message :: string

text \<open>\<open>health\<close> answers 200 with an RPC that is up, 503 otherwise. What came back from the
  node is a transport error or an HTTP status, with its text.\<close>

definition health_check :: "string + nat \<times> string \<Rightarrow> string + unit" where
  "health_check r =
     (case r of
        Inl e \<Rightarrow> Inl (''RPC unreachable: '' @ e)
      | Inr (status, shown) \<Rightarrow>
          if 200 \<le> status \<and> status < 300 then Inr () else Inl (''RPC returned status '' @ shown))"

definition health :: "string + nat \<times> string \<Rightarrow> nat \<times> string \<times> string" where
  "health r =
     (case health_check r of
        Inr _ \<Rightarrow> (200, ''ok'', ''up'')
      | Inl _ \<Rightarrow> (503, ''degraded'', ''down''))"

definition status_event :: "string \<Rightarrow> string \<Rightarrow> transaction_status \<Rightarrow> string \<Rightarrow> tx_event" where
  "status_event now tid st msg =
     \<lparr>tx_id = tid, tx_status = st, tx_timestamp = now, tx_message = Some msg\<rparr>"

definition publish_status ::
    "string \<Rightarrow> string option \<Rightarrow> transaction_status \<Rightarrow> string \<Rightarrow> app_state \<Rightarrow> app_state" where
  "publish_status now tx st msg a =
     (case tx of Some tid \<Rightarrow> broadcast_status (status_event now tid st msg) a | None \<Rightarrow> a)"

definition starts_with_C :: "string \<Rightarrow> bool" where
  "starts_with_C s = (case s of c # _ \<Rightarrow> c = CHR ''C'' | [] \<Rightarrow> False)"

text \<open>\<open>t0\<close> and \<open>t1\<close> are the times in text at the two events.\<close>

definition simulate ::
    "'v json \<Rightarrow> 'v sim_result http \<Rightarrow> string \<Rightarrow> string \<Rightarrow> simulate_request \<Rightarrow> app_state
      \<Rightarrow> simulate_response answer \<times> app_state" where
  "simulate J http t0 t1 req a =
     (if req_target req = [] then
        (Inl (400, error_with_field ValidationError ''target and function are required'' ''target''), a)
      else if req_function req = [] then
        (Inl (400, error_with_field ValidationError ''target and function are required'' ''function''), a)
      else if length (req_target req) \<noteq> 56 \<or> \<not> starts_with_C (req_target req) then
        (Inl (400, error_with_field ValidationError
           ''target must be a 56-character Stellar contract ID starting with C'' ''target''), a)
      else
        (let tx = option_filter (\<lambda>tid. tid \<noteq> []) (req_tx_id req);
             a = publish_status t0 tx TxPending ''simulation started'' a
         in case rpc_simulate J http (req_target req) (req_function req) (req_amount req)
                   (req_network_load_bps req) of
              Inl e \<Rightarrow>
                (Inl (500, error_new RpcError e),
                 publish_status t1 tx TxFailed (''simulation error: '' @ e) a)
            | Inr b \<Rightarrow>
                (let (st, msg) =
                   (if would_succeed b then (TxConfirmed, ''simulation successful'')
                    else (TxFailed, ''simulation indicates transaction would fail''));
                   a = publish_status t1 tx st msg a
                 in (Inr \<lparr>sr_success = would_succeed b,
                      sr_fees = \<lparr>fe_base_fee = base_fee b, fe_resource_fee = resource_fee b,
                        fe_total_fee = total_fee b, fe_surge_multiplier = surge_multiplier b,
                        fe_high_load = high_load b, fe_fee_estimated = fee_estimated b\<rparr>,
                      sr_target = req_target req, sr_function = req_function req,
                      sr_would_succeed = would_succeed b, sr_diagnostics = diagnostics b,
                      sr_message = (if would_succeed b then ''Simulation successful''
                        else ''Simulation indicates transaction would fail'')\<rparr>, a))))"

definition http_get_route :: "'v json \<Rightarrow> 'v http \<Rightarrow> string \<Rightarrow> string \<Rightarrow> route_entry_response answer" where
  "http_get_route J http contract_id name =
     (if contract_id = [] then
        Inl (503, error_new InternalError ''ROUTER_CORE_CONTRACT_ID not configured'')
      else
        (case rpc_get_route J http contract_id name of
           Inr (Some e) \<Rightarrow> Inr e
         | Inr None \<Rightarrow> Inl (404, error_new NotFoundCode (''route '' @ [CHR 0x27] @ name @ [CHR 0x27] @ '' not found''))
         | Inl e \<Rightarrow> Inl (500, error_new RpcError e)))"

definition list_routes :: "sim_return http \<Rightarrow> string \<Rightarrow> string list answer" where
  "list_routes http contract_id =
     (if contract_id = [] then
        Inl (503, error_new InternalError ''ROUTER_CORE_CONTRACT_ID not configured'')
      else
        (case rpc_get_all_routes http contract_id of
           Inr routes \<Rightarrow> Inr routes
         | Inl e \<Rightarrow> Inl (500, error_new RpcError e)))"

end
