(* ===== verification/Api_Main.thy ===== *)
theory Api_Main
  imports Api_Http
begin

text \<open>
  The API server as a whole (\<open>api-server/src/main.rs\<close>): the routes with the layers around them,
  the cross-origin policy and the start-up. A handler that waits for the RPC node lets other
  requests and the sockets run meanwhile, so \<open>POST /simulate\<close> is also given in its two halves,
  before and after the wait.
\<close>

subsection \<open>handlers.rs: the two halves of simulate\<close>

text \<open>The checks and the first event; \<open>Some\<close> is the answer to an invalid request.\<close>

definition simulate_begin ::
    "string \<Rightarrow> simulate_request \<Rightarrow> app_state \<Rightarrow> (nat \<times> error_detail) option \<times> app_state" where
  "simulate_begin t0 req a =
     (if req_target req = [] then
        (Some (400, error_with_field ValidationError ''target and function are required'' ''target''), a)
      else if req_function req = [] then
        (Some (400, error_with_field ValidationError ''target and function are required'' ''function''), a)
      else if length (req_target req) \<noteq> 56 \<or> \<not> starts_with_C (req_target req) then
        (Some (400, error_with_field ValidationError
           ''target must be a 56-character Stellar contract ID starting with C'' ''target''), a)
      else
        (None, publish_status t0 (option_filter (\<lambda>tid. tid \<noteq> []) (req_tx_id req))
           TxPending ''simulation started'' a))"

text \<open>What follows the answer of the node.\<close>

definition simulate_end ::
    "'v json \<Rightarrow> 'v sim_result http \<Rightarrow> string \<Rightarrow> simulate_request \<Rightarrow> app_state
      \<Rightarrow> simulate_response answer \<times> app_state" where
  "simulate_end J http t1 req a =
     (let tx = option_filter (\<lambda>tid. tid \<noteq> []) (req_tx_id req) in
      case rpc_simulate J http (req_target req) (req_function req) (req_amount req)
             (req_network_load_bps req) of
        Inl e \<Rightarrow>
          (Inl (500, error_new RpcError e),
           publish_status t1 tx TxFailed (''simulation error: '' @ e) a)
      | Inr b \<Rightarrow>
          (let (st, msg) =
             (if would_succeed b then (TxConfirmed, ''simulation successful'')
              else (TxFailed, ''simulation indicates transaction would fail''));
             a = publish_status t1 tx st msg a
           in (Inr \<lparr>sr_success = would_succeed b,
                sr_fees = \<lparr>fe_base_fee = base_fee b, fe_resource_fee = resource_fee b,
                  fe_total_fee = total_fee b, fe_surge_multiplier = surge_multiplier b,
                  fe_high_load = high_load b, fe_fee_estimated = fee_estimated b\<rparr>,
                sr_target = req_target req, sr_function = req_function req,
                sr_would_succeed = would_succeed b, sr_diagnostics = diagnostics b,
                sr_message = (if would_succeed b then ''Simulation successful''
                  else ''Simulation indicates transaction would fail'')\<rparr>, a)))"

subsection \<open>The cross-origin policy\<close>

text \<open>
  \<open>header_value\<close> is whether a text is a valid header value. \<open>NoCors\<close> is the layer that allows
  nothing; the methods and headers allowed are those of the code.
\<close>

datatype allow_origin = AnyOrigin | OriginList "string list"

datatype cors_layer = NoCors | Cors allow_origin (methods: "string list") (cors_headers: "string list")

definition build_cors_layer :: "(string \<Rightarrow> bool) \<Rightarrow> string list \<Rightarrow> cors_layer" where
  "build_cors_layer header_value origins =
     (let allow_methods = [''GET'', ''POST'', ''OPTIONS''];
          allow_headers = [''content-type'', ''authorization'']
      in if origins = [] then NoCors
         else
           (let allow = (if list_ex (\<lambda>x. x = ''*'') origins then AnyOrigin
              else OriginList (filter header_value origins))
            in Cors allow allow_methods allow_headers))"

subsection \<open>The routes\<close>

text \<open>
  A request that reached a handler with its arguments extracted; anything else (another path or
  method, a body that is not the JSON of the request) is \<open>OtherCall\<close>, answered by the framework. A preflight is answered by
  the policy outside the limiter and is no call.
  A WebSocket request carries the number its socket gets and whether its upgrade completes.
\<close>

datatype api_call =
    GetHealth | PostSimulate simulate_request | GetRoutes | GetRoute string
  | GetWs nat bool | GetDocs | OtherCall

datatype api_reply =
    HealthReply nat string string
  | SimulateReply "simulate_response answer"
  | RoutesReply "string list answer"
  | RouteReply "route_entry_response answer"
  | UpgradeReply bool
  | DocsReply
  | FrameworkReply

text \<open>What the RPC node answers to the calls of one request.\<close>

record 'v rpc_node =
  node_health :: "string + nat \<times> string"
  node_simulate :: "'v sim_result http"
  node_routes :: "sim_return http"
  node_route :: "'v http"

text \<open>The sockets and the shared state, and the simulations waiting for the node, by request.\<close>

record api_state =
  sockets :: ws_server
  waiting :: "nat \<Rightarrow> simulate_request option"

text \<open>
  The router of \<open>main\<close>. \<open>cid\<close> is the configured id of router-core, \<open>rid\<close> the number of the
  request, \<open>t\<close> the time in text. The reply is \<open>None\<close> while a simulation waits.
\<close>

definition api_dispatch ::
    "'v json \<Rightarrow> 'v rpc_node \<Rightarrow> string \<Rightarrow> nat \<Rightarrow> nat \<Rightarrow> string \<Rightarrow> api_call \<Rightarrow> api_state
      \<Rightarrow> api_reply option \<times> api_state" where
  "api_dispatch J node cid rid now t call s =
     (case call of
        GetHealth \<Rightarrow>
          (let (code, st, rpc) = health (node_health node) in (Some (HealthReply code st rpc), s))
      | PostSimulate req \<Rightarrow>
          (let (err, a) = simulate_begin t req (app (sockets s));
               s = s\<lparr>sockets := (sockets s)\<lparr>app := a\<rparr>\<rparr>
           in case err of
                Some e \<Rightarrow> (Some (SimulateReply (Inl e)), s)
              | None \<Rightarrow> (None, s\<lparr>waiting := (waiting s)(rid := Some req)\<rparr>))
      | GetRoutes \<Rightarrow> (Some (RoutesReply (list_routes (node_routes node) cid)), s)
      | GetRoute name \<Rightarrow> (Some (RouteReply (http_get_route J (node_route node) cid name)), s)
      | GetWs i upgraded \<Rightarrow>
          (if conns (sockets s) i = None then
             (let (ok, ws) = ws_handler i now upgraded (sockets s)
              in (Some (UpgradeReply ok), s\<lparr>sockets := ws\<rparr>))
           else (Some FrameworkReply, s))
      | GetDocs \<Rightarrow> (Some DocsReply, s)
      | OtherCall \<Rightarrow> (Some FrameworkReply, s))"

text \<open>The rate limiter wraps every route.\<close>

definition api_request ::
    "'v json \<Rightarrow> 'v rpc_node \<Rightarrow> string \<Rightarrow> nat \<Rightarrow> nat \<Rightarrow> string \<Rightarrow> string option \<Rightarrow> api_call
      \<Rightarrow> rate_limiter \<times> api_state \<Rightarrow> api_reply option limited \<times> rate_limiter \<times> api_state" where
  "api_request J node cid rid now t peer call st =
     api_rate_limit_middleware now peer (api_dispatch J node cid rid now t call) st"

definition api_resume ::
    "'v json \<Rightarrow> 'v rpc_node \<Rightarrow> nat \<Rightarrow> string \<Rightarrow> api_state \<Rightarrow> api_reply option \<times> api_state" where
  "api_resume J node rid t s =
     (case waiting s rid of
        None \<Rightarrow> (None, s)
      | Some req \<Rightarrow>
          (let (r, a) = simulate_end J (node_simulate node) t req (app (sockets s))
           in (Some (SimulateReply r),
               s\<lparr>sockets := (sockets s)\<lparr>app := a\<rparr>, waiting := (waiting s)(rid := None)\<rparr>)))"

text \<open>
  The inputs of the server: a request, the answer of the node to a waiting one, a turn of a socket's
  loop, a receiver losing its oldest events, a tick of the sweeper. A request whose client goes away
  while it waits is dropped by the framework: it gets no \<open>Answered_by\<close> and stays in \<open>waiting\<close>.
\<close>

datatype 'v api_input =
    Request nat nat string "string option" "'v rpc_node" api_call
  | Answered_by nat string "'v rpc_node"
  | Socket_turn nat nat bool ws_turn
  | Socket_lag nat nat
  | Sweep_tick nat

definition api_step ::
    "'v json \<Rightarrow> string \<Rightarrow> 'v api_input \<Rightarrow> rate_limiter \<times> api_state \<Rightarrow> rate_limiter \<times> api_state" where
  "api_step J cid x st =
     (let (l, s) = st in
      case x of
        Request rid now t peer node call \<Rightarrow>
          if waiting s rid = None then snd (api_request J node cid rid now t peer call (l, s)) else (l, s)
      | Answered_by rid t node \<Rightarrow> (l, snd (api_resume J node rid t s))
      | Socket_turn i now sends turn \<Rightarrow> (l, s\<lparr>sockets := handle_turn i now sends turn (sockets s)\<rparr>)
      | Socket_lag i n \<Rightarrow> (l, s\<lparr>sockets := ws_step (Lagged i n) (sockets s)\<rparr>)
      | Sweep_tick now \<Rightarrow> (sweep now l, s))"

subsection \<open>Start-up\<close>

record api_args =
  api_listen :: string
  core_id :: string
  cors_origins :: "string list"
  rate_limit_max_requests :: u32
  rate_limit_window_secs :: u64

text \<open>
  \<open>main\<close> up to serving: the error it stops with, or the initial state and the policy. The address
  is parsed last (\<open>socket_addr\<close>).
\<close>

definition api_main ::
    "(string \<Rightarrow> bool) \<Rightarrow> (string \<Rightarrow> bool) \<Rightarrow> api_args \<Rightarrow> string + (rate_limiter \<times> api_state) \<times> cors_layer" where
  "api_main socket_addr header_value a =
     (case validate_rate_limit_args (rate_limit_max_requests a) (rate_limit_window_secs a) of
        Some e \<Rightarrow> Inl (''invalid rate-limit configuration: '' @ e)
      | None \<Rightarrow>
          (let limiter = limiter_new \<lparr>max_requests = rate_limit_max_requests a,
                 cfg_window = from_secs (rate_limit_window_secs a)\<rparr>;
               state = \<lparr>sockets = ws_start, waiting = (\<lambda>_. None)\<rparr>;
               cors = build_cors_layer header_value (cors_origins a)
           in if socket_addr (api_listen a) then Inr ((limiter, state), cors)
              else Inl (''invalid listen address: '' @ api_listen a)))"

end
