(* ===== verification/Api_Props.thy ===== *)
theory Api_Props
  imports Api_Server "HOL-Library.Sublist"
begin

text \<open>
  The rate limiter as an instance of \<open>fixed_window\<close>, and the WebSocket endpoint: its slots,
  its subscriptions and what it delivers.
\<close>

subsection \<open>The rate limiter\<close>

text \<open>What happens to a limiter: the check of a request, a tick of the sweeper.\<close>

datatype limiter_op = Check nat string | Sweep nat

primrec op_time :: "limiter_op \<Rightarrow> nat" where
  "op_time (Check now k) = now"
| "op_time (Sweep now) = now"

primrec is_check :: "limiter_op \<Rightarrow> bool" where
  "is_check (Check now k) = True"
| "is_check (Sweep now) = False"

primrec limiter_step :: "limiter_op \<Rightarrow> rate_limiter \<Rightarrow> rate_limiter" where
  "limiter_step (Check now k) l = snd (check_and_remaining now k l)"
| "limiter_step (Sweep now) l = sweep now l"

primrec limiter_admits :: "limiter_op \<Rightarrow> rate_limiter \<Rightarrow> bool" where
  "limiter_admits (Check now k) l = fst (fst (check_and_remaining now k l))"
| "limiter_admits (Sweep now) l = False"

definition limiter_of :: "nat \<Rightarrow> u32 \<Rightarrow> rate_limiter \<Rightarrow> bool" where
  "limiter_of w mx l \<longleftrightarrow> cfg_window (limiter_config l) = w \<and> max_requests (limiter_config l) = mx"

lemma check_and_remaining_simps:
  "buckets (snd (check_and_remaining now k l)) = (buckets l)(k :=
     Some (hit_bucket (cfg_window (limiter_config l)) now (unwrap_or (buckets l k) (fresh_bucket now))))"
  "limiter_config (snd (check_and_remaining now k l)) = limiter_config l"
  "fst (fst (check_and_remaining now k l)) \<longleftrightarrow>
     count (hit_bucket (cfg_window (limiter_config l)) now (unwrap_or (buckets l k) (fresh_bucket now)))
       \<le> max_requests (limiter_config l)"
  by (simp_all add: check_and_remaining_def Let_def)

lemma sweep_simps:
  "limiter_config (sweep now l) = limiter_config l"
  "buckets (sweep now l) k = buckets l k
   \<or> buckets (sweep now l) k = None
     \<and> (\<exists>e. buckets l k = Some e \<and> cfg_window (limiter_config l) \<le> now - window_start e)"
  by (auto simp: sweep_def split: option.splits)

interpretation api_limiter: fixed_window w mx buckets limiter_step op_time
    "\<lambda>x k. \<exists>now. x = Check now k" limiter_admits "limiter_of w mx" "\<lambda>_. True" for w mx
proof (unfold_locales, goal_cases)
  case (3 l x k)
  then show ?case
    using sweep_simps(2) [of "op_time x" l k]
    by (cases x) (auto simp: check_and_remaining_simps limiter_of_def)
next
  case (4 l x)
  then show ?case by (cases x) (auto simp: check_and_remaining_simps limiter_of_def sweep_simps)
qed (auto simp: check_and_remaining_simps limiter_of_def)

text \<open>How many requests of a client are let through.\<close>

fun limiter_granted :: "string \<Rightarrow> rate_limiter \<Rightarrow> limiter_op list \<Rightarrow> nat" where
  "limiter_granted k l [] = 0"
| "limiter_granted k l (x # xs) =
     (if (\<exists>now. x = Check now k) \<and> limiter_admits x l then 1 else 0) + limiter_granted k (limiter_step x l) xs"

lemma limiter_granted_eq: "limiter_granted k l xs = api_limiter.granted k l xs"
  by (induction xs arbitrary: l) simp_all

lemma limiter_run_eq: "fold limiter_step xs l = api_limiter.after l xs"
  by (induction xs arbitrary: l) simp_all

text \<open>
  C29. In any run of requests and sweeps from a new limiter, within any span of time shorter than
  the window a client gets at most twice the limit through: the counter restarts at most once in it.
  (Fewer than \<open>2 ^ 32\<close> requests, so that the 32-bit counter does not wrap.)
\<close>

theorem api_rate_limit_bound:
  assumes "\<forall>x\<in>set xs. t \<le> op_time x \<and> op_time x < t + cfg_window cfg"
    and "length earlier + length xs < 2 ^ 32"
  shows "limiter_granted k (fold limiter_step earlier (limiter_new cfg)) xs \<le> 2 * unat (max_requests cfg)"
  unfolding limiter_granted_eq limiter_run_eq
  by (rule api_limiter.granted_bound [where w = "cfg_window cfg"])
    (use assms in \<open>simp_all add: limiter_new_def limiter_of_def\<close>)

definition demo_limits :: rate_limit_config where
  "demo_limits = \<lparr>max_requests = 1, cfg_window = 2500000000\<rparr>"

lemma api_rate_limit_bound_witness:
  "limiter_granted ''a'' (fold limiter_step [Check 0 ''a''] (limiter_new demo_limits))
     [Check 2400000000 ''a'', Check 2500000000 ''a'', Sweep 2500000000, Check 2600000000 ''a''] \<le> 2"
  using api_rate_limit_bound [of "[Check 2400000000 ''a'', Check 2500000000 ''a'', Sweep 2500000000,
      Check 2600000000 ''a'']" 2400000000 demo_limits "[Check 0 ''a'']" "''a''"]
  by (simp add: demo_limits_def)

subsection \<open>Sweeping\<close>

fun limiter_answers :: "rate_limiter \<Rightarrow> limiter_op list \<Rightarrow> (bool \<times> u32) list" where
  "limiter_answers l [] = []"
| "limiter_answers l (Check now k # xs) =
     (let (a, l') = check_and_remaining now k l in a # limiter_answers l' xs)"
| "limiter_answers l (Sweep now # xs) = limiter_answers (sweep now l) xs"

definition swept_of :: "nat \<Rightarrow> rate_limiter \<Rightarrow> rate_limiter \<Rightarrow> bool" where
  "swept_of t l l' \<longleftrightarrow> limiter_config l' = limiter_config l \<and>
     (\<forall>k. buckets l' k = buckets l k
       \<or> buckets l' k = None \<and> (\<exists>e. buckets l k = Some e \<and> cfg_window (limiter_config l) \<le> t - window_start e))"

lemma swept_of_later: "swept_of t l l' \<Longrightarrow> t \<le> t' \<Longrightarrow> swept_of t' l l'"
  unfolding swept_of_def by (meson diff_le_mono order_trans)

lemma swept_of_sweep:
  assumes "swept_of t l l'"
  shows "swept_of t l (sweep t l')"
  unfolding swept_of_def
proof (intro conjI allI)
  fix k
  let ?ok = "\<lambda>b. b = buckets l k
    \<or> b = None \<and> (\<exists>e. buckets l k = Some e \<and> cfg_window (limiter_config l) \<le> t - window_start e)"
  from assms have "?ok (buckets l' k)" "limiter_config l' = limiter_config l" by (auto simp: swept_of_def)
  then show "?ok (buckets (sweep t l') k)" using sweep_simps(2) [of t l' k] by metis
qed (use assms in \<open>simp add: swept_of_def sweep_simps\<close>)

lemma hit_bucket_expired:
  "w \<le> now - window_start e \<Longrightarrow> hit_bucket w now e = \<lparr>count = 1, window_start = now\<rparr>"
  "hit_bucket w now (fresh_bucket now) = \<lparr>count = 1, window_start = now\<rparr>"
  by (simp_all add: hit_bucket_def fresh_bucket_def)

lemma hit_bucket_live:
  "\<not> w \<le> now - window_start e \<Longrightarrow> hit_bucket w now e = e\<lparr>count := count e + 1\<rparr>"
  by (simp add: hit_bucket_def)

lemma swept_of_check:
  assumes "swept_of t l l'"
  shows "fst (check_and_remaining t k l') = fst (check_and_remaining t k l)
    \<and> swept_of t (snd (check_and_remaining t k l)) (snd (check_and_remaining t k l'))"
proof -
  let ?hit = "\<lambda>b. hit_bucket (cfg_window (limiter_config l)) t (unwrap_or b (fresh_bucket t))"
  from assms have "buckets l' k = buckets l k
      \<or> buckets l' k = None \<and> (\<exists>e. buckets l k = Some e \<and> cfg_window (limiter_config l) \<le> t - window_start e)"
    by (simp add: swept_of_def)
  then have "?hit (buckets l' k) = ?hit (buckets l k)" by (auto simp: hit_bucket_expired)
  with assms show ?thesis
    by (auto simp: check_and_remaining_def swept_of_def Let_def)
qed

lemma swept_answers:
  assumes "swept_of t l l'" "sorted (map op_time xs)" "\<forall>x\<in>set xs. t \<le> op_time x"
  shows "limiter_answers l' xs = limiter_answers l (filter is_check xs)"
  using assms
proof (induction xs arbitrary: t l l')
  case (Cons x xs)
  from Cons.prems(1,3) have sw: "swept_of (op_time x) l l'" by (auto intro: swept_of_later)
  from Cons.prems(2) have rest: "sorted (map op_time xs)" "\<forall>y\<in>set xs. op_time x \<le> op_time y" by auto
  show ?case
  proof (cases x)
    case (Check now k)
    with sw swept_of_check [of now l l' k] have
      "fst (check_and_remaining now k l') = fst (check_and_remaining now k l)"
      "swept_of (op_time x) (snd (check_and_remaining now k l)) (snd (check_and_remaining now k l'))" by auto
    with Cons.IH [OF this(2) rest] Check show ?thesis by (simp add: case_prod_beta Let_def)
  next
    case (Sweep now)
    with sw have "swept_of (op_time x) l (sweep now l')" by (auto intro: swept_of_sweep)
    from Cons.IH [OF this rest] Sweep show ?thesis by simp
  qed
qed simp

text \<open>
  C37. The background sweeper never changes an answer: with it running at any times, every request
  gets the same answer and the same remaining count as with no sweeper at all.
\<close>

theorem sweep_transparent:
  assumes "sorted (map op_time xs)"
  shows "limiter_answers l xs = limiter_answers l (filter is_check xs)"
  by (rule swept_answers [of 0]) (use assms in \<open>simp_all add: swept_of_def\<close>)

lemma sweep_transparent_witness:
  "limiter_answers (limiter_new demo_limits) [Check 0 ''a'', Sweep 2500000000, Check 2600000000 ''a'']
   = limiter_answers (limiter_new demo_limits) [Check 0 ''a'', Check 2600000000 ''a'']"
  using sweep_transparent [of "[Check 0 ''a'', Sweep 2500000000, Check 2600000000 ''a'']" "limiter_new demo_limits"]
  by simp

subsection \<open>Retry-After\<close>

lemma unat_plus_one: "c < - 1 \<Longrightarrow> unat (c + 1) = Suc (unat (c :: u32))"
  by (simp add: unat_word_ariths word_less_nat_alt unsigned_minus_1_eq_mask mask_eq_exp_minus_1)

text \<open>
  A client that is rejected and waits exactly the advertised \<open>Retry-After\<close> is let in again
  if and only if less than a second or a whole number of seconds of the window was left: the code
  rounds the rest of the window down, so otherwise the retry comes early and is rejected too.
\<close>

theorem retry_after_honest_iff:
  assumes "check_and_remaining now k l = ((False, r), l')" "0 < max_requests (limiter_config l)"
    and "\<forall>e. buckets l k = Some e \<longrightarrow> window_start e \<le> now"
    and "\<forall>e. buckets l' k = Some e \<longrightarrow> count e < - 1"
  shows "\<exists>e. buckets l' k = Some e
    \<and> (fst (fst (check_and_remaining (now + retry_after_secs now k l' * NANOS_PER_SEC) k l')) \<longleftrightarrow>
        (let rest = cfg_window (limiter_config l) - (now - window_start e)
         in rest < NANOS_PER_SEC \<or> rest mod NANOS_PER_SEC = 0))"
proof -
  let ?w = "cfg_window (limiter_config l)" and ?mx = "max_requests (limiter_config l)"
  let ?e = "hit_bucket ?w now (unwrap_or (buckets l k) (fresh_bucket now))"
  from assms(1) have l': "buckets l' k = Some ?e" "limiter_config l' = limiter_config l"
    and rej: "\<not> count ?e \<le> ?mx"
    using check_and_remaining_simps [of now k l] by auto
  from assms(2) have one: "(1 :: u32) \<le> ?mx" by (simp add: word_less_nat_alt word_le_nat_alt)
  with rej obtain e where e: "buckets l k = Some e" "now - window_start e < ?w"
    "?e = e\<lparr>count := count e + 1\<rparr>"
    by (cases "buckets l k") (auto simp: hit_bucket_def fresh_bucket_def Let_def split: if_splits)
  have ws: "window_start ?e = window_start e" "window_start e \<le> now" using assms(3) e by simp_all
  define rest where "rest = ?w - (now - window_start e)"
  define retry where "retry = retry_after_secs now k l'"
  have rest: "0 < rest" using e(2) by (simp add: rest_def)
  have retry: "retry = max (rest div NANOS_PER_SEC) 1"
    by (simp add: retry_def retry_after_secs_def bucket_retry_after_def l' ws e(2) rest_def)
  have expired: "?w \<le> now + retry * NANOS_PER_SEC - window_start ?e \<longleftrightarrow> rest \<le> retry * NANOS_PER_SEC"
    using ws e(2) by (auto simp: rest_def)
  have honest: "rest \<le> retry * NANOS_PER_SEC \<longleftrightarrow> rest < NANOS_PER_SEC \<or> rest mod NANOS_PER_SEC = 0"
  proof (cases "rest < NANOS_PER_SEC")
    case False
    then have "retry = rest div NANOS_PER_SEC"
      by (simp add: retry NANOS_PER_SEC_def)
    then have "rest = retry * NANOS_PER_SEC + rest mod NANOS_PER_SEC" by simp
    with False show ?thesis by arith
  qed (simp add: retry)
  have "fst (fst (check_and_remaining (now + retry * NANOS_PER_SEC) k l'))
      \<longleftrightarrow> count (hit_bucket ?w (now + retry * NANOS_PER_SEC) ?e) \<le> ?mx"
    by (simp add: check_and_remaining_simps l')
  also have "\<dots> \<longleftrightarrow> ?w \<le> now + retry * NANOS_PER_SEC - window_start ?e"
  proof (cases "?w \<le> now + retry * NANOS_PER_SEC - window_start ?e")
    case False
    from assms(4) l' have "count ?e < - 1" by simp
    with rej have "\<not> count ?e + 1 \<le> ?mx" by (simp add: word_le_nat_alt unat_plus_one)
    with hit_bucket_live [OF False] False show ?thesis by simp
  qed (simp add: hit_bucket_expired one)
  finally show ?thesis
    using expired honest l' ws by (simp add: rest_def retry_def Let_def)
qed
subsection \<open>The sockets\<close>

definition demo_limiter :: rate_limiter where
  "demo_limiter = \<lparr>limiter_config = demo_limits, buckets = (\<lambda>_. Some \<lparr>count = 1, window_start = 0\<rparr>)\<rparr>"

text \<open>With 2.5 seconds left the client is told to come back in 2, and is rejected again.\<close>

lemma retry_after_honest_iff_witness:
  "\<not> fst (fst (check_and_remaining 2000000000 ''a'' (snd (check_and_remaining 0 ''a'' demo_limiter))))"
proof -
  let ?l = "demo_limiter\<lparr>buckets := (buckets demo_limiter)(''a'' := Some \<lparr>count = 2, window_start = 0\<rparr>)\<rparr>"
  have check: "check_and_remaining 0 ''a'' demo_limiter = ((False, 0), ?l)"
    by (simp add: check_and_remaining_def demo_limiter_def demo_limits_def hit_bucket_def saturating_sub_def
        word_le_nat_alt)
  have "retry_after_secs 0 ''a'' ?l = 2"
    by (simp add: retry_after_secs_def bucket_retry_after_def demo_limiter_def demo_limits_def NANOS_PER_SEC_def)
  then show ?thesis unfolding check snd_conv
    using retry_after_honest_iff [OF check]
    by (simp add: demo_limiter_def demo_limits_def NANOS_PER_SEC_def word_less_nat_alt
        unsigned_minus_1_eq_mask mask_eq_exp_minus_1)
qed

definition ws_run :: "ws_input list \<Rightarrow> ws_server" where
  "ws_run xs = fold ws_step xs ws_start"

lemma ws_run_snoc: "ws_run (xs @ [x]) = ws_step x (ws_run xs)"
  by (simp add: ws_run_def)

lemma ws_run_append: "ws_run (xs @ ys) = fold ws_step ys (ws_run xs)"
  by (simp add: ws_run_def)

text \<open>What the helpers leave alone.\<close>

lemmas remove_subscriber_unfold = remove_subscriber_def remove_subscriber_get_def remove_subscriber_drop_def

lemma app_frames [simp]:
  "tx_status_tx (add_subscriber t a) = tx_status_tx a" "ws_connection_count (add_subscriber t a) = ws_connection_count a"
  "tx_status_tx (remove_subscriber t a) = tx_status_tx a"
  "ws_connection_count (remove_subscriber t a) = ws_connection_count a"
  "tx_subscribers (broadcast_status e a) = tx_subscribers a"
  "ws_connection_count (broadcast_status e a) = ws_connection_count a"
  "tx_status_tx (broadcast_status e a) r = map_option (\<lambda>q. q @ [e]) (tx_status_tx a r)"
  "tx_status_tx (release_ws_connection a) = tx_status_tx a" "tx_subscribers (release_ws_connection a) = tx_subscribers a"
  "ws_connection_count (release_ws_connection a) = ws_connection_count a - 1"
  by (simp_all add: add_subscriber_def remove_subscriber_unfold broadcast_status_def release_ws_connection_def
      split: option.splits)

lemma fold_remove_frames [simp]:
  "tx_status_tx (fold remove_subscriber ts a) = tx_status_tx a"
  "ws_connection_count (fold remove_subscriber ts a) = ws_connection_count a"
  by (induction ts arbitrary: a) simp_all

lemma ws_cleanup_simps [simp]:
  "tx_status_tx (ws_cleanup rx c a) = (tx_status_tx a)(rx := None)"
  "ws_connection_count (ws_cleanup rx c a) = ws_connection_count a - 1"
  "tx_subscribers (ws_cleanup rx c a) = tx_subscribers (fold remove_subscriber (subscriptions c) a)"
  by (simp_all add: ws_cleanup_def Let_def)

definition conn_ok :: "ws_conn \<Rightarrow> bool" where
  "conn_ok c \<longleftrightarrow> distinct (subscriptions c) \<and> length (subscriptions c) \<le> MAX_SUBSCRIPTIONS_PER_CONNECTION"

lemma socket_turn_count [simp]:
  "ws_connection_count (snd (snd (socket_turn i now sends t (c, a)))) = ws_connection_count a"
  by (auto simp: socket_turn_def on_message_def on_update_def on_tick_def send_msg_def Let_def
      split: ws_turn.splits ws_message.splits option.splits prod.splits)

lemma socket_turn_receivers:
  "tx_status_tx a i \<noteq> None \<Longrightarrow>
   dom (tx_status_tx (snd (snd (socket_turn i now sends t (c, a))))) = dom (tx_status_tx a)"
  by (auto simp: socket_turn_def on_message_def on_update_def on_tick_def send_msg_def Let_def
      split: ws_turn.splits ws_message.splits option.splits prod.splits if_splits)

text \<open>What a turn does to the subscriptions and their counts.\<close>

lemma socket_turn_cases:
  assumes "socket_turn i now sends t (c, a) = (go, c', a')"
  obtains (same) "subscriptions c' = subscriptions c" "tx_subscribers a' = tx_subscribers a"
      "\<nexists>x. t = Received (TextMsg (Some (''subscribe'', x))) \<and> length (subscriptions c) < MAX_SUBSCRIPTIONS_PER_CONNECTION"
      "\<nexists>x. t = Received (TextMsg (Some (''unsubscribe'', x)))"
    | (sub) x where "t = Received (TextMsg (Some (''subscribe'', x)))"
        "length (subscriptions c) < MAX_SUBSCRIPTIONS_PER_CONNECTION"
        "subscriptions c' = List.insert x (subscriptions c)" "a' = add_subscriber x a"
    | (unsub) x where "t = Received (TextMsg (Some (''unsubscribe'', x)))"
        "subscriptions c' = removeAll x (subscriptions c)" "a' = remove_subscriber x a"
proof -
  consider m where "t = Received m" | "t = Updated" | "t = Ticked" by (cases t) auto
  then show thesis
  proof cases
    case 1
    with assms have m: "on_message now sends m (c, a) = (go, c', a')" by (simp add: socket_turn_def)
    show thesis
    proof (cases "\<exists>x. m = TextMsg (Some (''subscribe'', x)) \<and> length (subscriptions c) < MAX_SUBSCRIPTIONS_PER_CONNECTION")
      case True
      then obtain x where "m = TextMsg (Some (''subscribe'', x))" by blast
      with True m 1 show thesis
        by (intro sub [of x]) (auto simp: on_message_def send_msg_def Let_def not_le split: if_splits)
    next
      case no_sub: False
      show thesis
      proof (cases "\<exists>x. m = TextMsg (Some (''unsubscribe'', x))")
        case True
        then obtain x where "m = TextMsg (Some (''unsubscribe'', x))" by blast
        with m 1 show thesis by (intro unsub [of x]) (auto simp: on_message_def)
      next
        case False
        with m 1 no_sub show thesis
          by (intro same) (auto simp: on_message_def send_msg_def Let_def not_le
              split: ws_message.splits option.splits if_splits)
      qed
    qed
  next
    case 2
    with assms show thesis
      by (intro same) (auto simp: socket_turn_def on_update_def send_msg_def Let_def
          split: option.splits prod.splits if_splits)
  next
    case 3
    with assms show thesis
      by (intro same) (auto simp: socket_turn_def on_tick_def send_msg_def split: if_splits)
  qed
qed

lemma socket_turn_conn_ok:
  assumes "socket_turn i now sends t (c, a) = (go, c', a')" "conn_ok c"
  shows "conn_ok c'"
  using assms(1)
proof (cases rule: socket_turn_cases)
  case (sub x)
  with assms(2) show ?thesis
    by (auto simp: conn_ok_def List.insert_def)
next
  case (unsub x)
  have "length (removeAll x (subscriptions c)) \<le> MAX_SUBSCRIPTIONS_PER_CONNECTION"
    using length_removeAll_less_eq by (rule order_trans) (use assms(2) in \<open>simp add: conn_ok_def\<close>)
  with unsub assms(2) show ?thesis by (simp add: conn_ok_def distinct_removeAll)
qed (use assms(2) in \<open>simp add: conn_ok_def\<close>)

definition slots_ok :: "nat \<Rightarrow> ws_server \<Rightarrow> bool" where
  "slots_ok lost s \<longleftrightarrow> finite (dom (conns s))
    \<and> unat (ws_connection_count (app s)) = card (dom (conns s)) + lost
    \<and> ws_connection_count (app s) \<le> MAX_WS_CONNECTIONS
    \<and> dom (tx_status_tx (app s)) = dom (conns s) \<and> (\<forall>c\<in>ran (conns s). conn_ok c)"

primrec failed_upgrade :: "ws_input \<Rightarrow> bool" where
  "failed_upgrade (Connect i now upgraded) = (\<not> upgraded)"
| "failed_upgrade (Turn i now sends t) = False"
| "failed_upgrade (Publish e) = False"
| "failed_upgrade (Lagged i n) = False"

lemma slots_step:
  assumes "slots_ok lost s"
  shows "\<exists>lost'. slots_ok lost' (ws_step x s) \<and> lost' \<le> lost + of_bool (failed_upgrade x)"
proof (cases x)
  case (Connect i now upgraded)
  let ?n = "ws_connection_count (app s)"
  show ?thesis
  proof (cases "conns s i = None \<and> ?n < MAX_WS_CONNECTIONS")
    case True
    then have "unat (?n + 1) = Suc (unat ?n)" "?n + 1 \<le> MAX_WS_CONNECTIONS"
      by (auto simp: MAX_WS_CONNECTIONS_def word_less_nat_alt word_le_nat_alt unat_word_ariths)
    with True assms show ?thesis
      by (intro exI [of _ "lost + of_bool (\<not> upgraded)"])
        (auto simp: Connect ws_step_def ws_handler_def try_acquire_ws_connection_def slots_ok_def conn_ok_def
          insert_absorb card_insert_if dom_def[symmetric] ran_def)
  next
    case False
    with assms show ?thesis
      by (intro exI [of _ lost]) (auto simp: Connect ws_step_def ws_handler_def try_acquire_ws_connection_def)
  qed
next
  case (Turn i now sends t)
  show ?thesis
  proof (cases "conns s i")
    case (Some c)
    obtain go c' a' where st: "socket_turn i now sends t (c, app s) = (go, c', a')" by (metis prod_cases3)
    from assms Some have i: "i \<in> dom (conns s)" "tx_status_tx (app s) i \<noteq> None" "conn_ok c"
      by (auto simp: slots_ok_def ran_def)
    from socket_turn_count [of i now sends t c "app s"] socket_turn_receivers [OF i(2), of now sends t c]
      socket_turn_conn_ok [OF st i(3)] st
    have a': "ws_connection_count a' = ws_connection_count (app s)"
      "dom (tx_status_tx a') = dom (tx_status_tx (app s))" "conn_ok c'" by auto
    have ran: "\<forall>d\<in>ran ((conns s)(i := e)). conn_ok d" if "\<And>d. e = Some d \<Longrightarrow> conn_ok d" for e
      using assms that by (auto simp: slots_ok_def ran_def)
    have "slots_ok lost (ws_step x s)"
    proof (cases go)
      case True
      with st Some have "ws_step x s = s\<lparr>app := a', conns := (conns s)(i := Some c')\<rparr>"
        by (simp add: Turn ws_step_def handle_turn_def)
      with assms i a' ran [of "Some c'"] show ?thesis by (simp add: slots_ok_def insert_absorb)
    next
      case False
      with st Some have s': "ws_step x s = s\<lparr>app := ws_cleanup i c' a', conns := (conns s)(i := None)\<rparr>"
        by (simp add: Turn ws_step_def handle_turn_def)
      from assms i have pos: "0 < card (dom (conns s))" by (auto simp: slots_ok_def card_gt_0_iff)
      moreover from assms have "unat (ws_connection_count (app s)) = card (dom (conns s)) + lost"
        by (simp add: slots_ok_def)
      ultimately have "unat (ws_connection_count (app s)) \<noteq> 0" by linarith
      then have n: "unat (ws_connection_count (app s) - 1) = unat (ws_connection_count (app s)) - 1"
        by (intro unat_minus_one) auto
      with assms have "ws_connection_count (app s) - 1 \<le> MAX_WS_CONNECTIONS"
        unfolding slots_ok_def word_le_nat_alt n by linarith
      with assms i a' ran [of None] n pos show ?thesis
        by (auto simp: s' slots_ok_def card_Diff_singleton)
    qed
    then show ?thesis by (intro exI [of _ lost]) simp
  next
    case None
    with assms show ?thesis by (auto simp: Turn ws_step_def handle_turn_def)
  qed
next
  case (Publish e)
  with assms show ?thesis by (auto simp: ws_step_def slots_ok_def dom_def)
next
  case (Lagged i n)
  with assms show ?thesis by (auto simp: ws_step_def slots_ok_def dom_def split: if_splits)
qed

lemma slots_run:
  "\<exists>lost. slots_ok lost (ws_run xs) \<and> lost \<le> length (filter failed_upgrade xs)"
proof (induction xs rule: rev_induct)
  case Nil
  show ?case by (intro exI [of _ 0]) (simp add: ws_run_def ws_start_def app_new_def slots_ok_def
      MAX_WS_CONNECTIONS_def)
next
  case (snoc x xs)
  then obtain lost where "slots_ok lost (ws_run xs)" "lost \<le> length (filter failed_upgrade xs)" by blast
  with slots_step [OF this(1), of x] show ?case
    by (fastforce simp: ws_run_snoc split: if_splits)
qed

text \<open>
  C10. After any inputs, the connection counter is the number of open sockets plus the slots lost,
  at most one for each upgrade that failed, and never above 100; every open socket has a receiver of
  its own and at most 100 distinct subscriptions.
\<close>

theorem ws_slots:
  "\<exists>lost \<le> length (filter failed_upgrade xs).
     unat (ws_connection_count (app (ws_run xs))) = card (dom (conns (ws_run xs))) + lost
     \<and> ws_connection_count (app (ws_run xs)) \<le> MAX_WS_CONNECTIONS
     \<and> dom (tx_status_tx (app (ws_run xs))) = dom (conns (ws_run xs))
     \<and> (\<forall>c\<in>ran (conns (ws_run xs)). distinct (subscriptions c)
          \<and> length (subscriptions c) \<le> MAX_SUBSCRIPTIONS_PER_CONNECTION)"
  using slots_run [of xs] by (auto simp: slots_ok_def conn_ok_def)

lemma ws_slots_witness:
  "\<exists>lost \<le> 1. unat (ws_connection_count (app (ws_run [Connect 0 0 True, Connect 1 0 False])))
     = card (dom (conns (ws_run [Connect 0 0 True, Connect 1 0 False]))) + lost"
proof -
  have "length (filter failed_upgrade [Connect 0 0 True, Connect 1 0 False]) = 1" by simp
  with ws_slots [of "[Connect 0 0 True, Connect 1 0 False]"] show ?thesis by metis
qed

subsection \<open>Slots lost to failed upgrades\<close>

definition no_slots :: "ws_server \<Rightarrow> bool" where
  "no_slots s \<longleftrightarrow> conns s = (\<lambda>_. None) \<and> ws_connection_count (app s) = MAX_WS_CONNECTIONS"

lemma no_slots_step: "no_slots s \<Longrightarrow> no_slots (ws_step x s)"
  by (cases x) (auto simp: no_slots_def ws_step_def ws_handler_def try_acquire_ws_connection_def handle_turn_def)

lemma failed_upgrades_count:
  "k \<le> 100 \<Longrightarrow> fold ws_step (replicate k (Connect i now False)) ws_start
     = ws_start\<lparr>app := app_new\<lparr>ws_connection_count := of_nat k\<rparr>\<rparr>"
proof (induction k)
  case (Suc k)
  then have "(of_nat k :: u64) < 100" by (simp add: word_less_nat_alt unat_of_nat take_bit_nat_eq_self)
  with Suc show ?case
    by (simp add: replicate_append_same [symmetric] ws_step_def ws_handler_def try_acquire_ws_connection_def
        ws_start_def MAX_WS_CONNECTIONS_def add.commute del: replicate_Suc)
qed (simp add: ws_start_def app_new_def)

text \<open>
  The slot is taken before the upgrade and given back only by the socket's handler: after 100
  requests whose upgrade fails, no client can connect any more, whatever happens then.
\<close>

theorem failed_upgrades_exhaust_slots:
  "conns (ws_run (replicate 100 (Connect i now False) @ xs)) = (\<lambda>_. None)"
proof -
  have "no_slots (fold ws_step xs s)" if "no_slots s" for s
    using that by (induction xs arbitrary: s) (simp_all add: no_slots_step)
  moreover have "no_slots (ws_run (replicate 100 (Connect i now False)))"
    using failed_upgrades_count [of 100 i now]
    by (simp add: ws_run_def no_slots_def ws_start_def MAX_WS_CONNECTIONS_def)
  ultimately show ?thesis by (simp add: ws_run_append no_slots_def)
qed

subsection \<open>Delivery\<close>

definition updates :: "server_msg list \<Rightarrow> tx_event list" where
  "updates ms = List.map_filter (\<lambda>m. case m of StatusUpdate e \<Rightarrow> Some e | _ \<Rightarrow> None) ms"

definition published :: "ws_input list \<Rightarrow> tx_event list" where
  "published xs = List.map_filter (\<lambda>x. case x of Publish e \<Rightarrow> Some e | _ \<Rightarrow> None) xs"

text \<open>The history of the channel is what has been published.\<close>

lemma sent_frames [simp]:
  "tx_status_sent (add_subscriber t a) = tx_status_sent a"
  "tx_status_sent (remove_subscriber t a) = tx_status_sent a"
  "tx_status_sent (release_ws_connection a) = tx_status_sent a"
  "tx_status_sent (broadcast_status e a) = tx_status_sent a @ [e]"
  by (simp_all add: add_subscriber_def remove_subscriber_unfold release_ws_connection_def broadcast_status_def
      split: option.split)

lemma sent_fold_remove [simp]: "tx_status_sent (fold remove_subscriber ts a) = tx_status_sent a"
  by (induction ts arbitrary: a) simp_all

lemma sent_cleanup [simp]: "tx_status_sent (ws_cleanup rx c a) = tx_status_sent a"
  by (simp add: ws_cleanup_def Let_def)

lemma socket_turn_sent [simp]:
  "tx_status_sent (snd (snd (socket_turn i now sends t (c, a)))) = tx_status_sent a"
  by (auto simp: socket_turn_def on_message_def on_update_def on_tick_def send_msg_def Let_def
      split: ws_turn.splits ws_message.splits option.splits prod.splits)

lemma ws_step_sent:
  "tx_status_sent (app (ws_step x s)) = tx_status_sent (app s) @ published [x]"
proof (cases x)
  case (Turn i now sends t)
  have "tx_status_sent (app (handle_turn i now sends t s)) = tx_status_sent (app s)"
  proof (cases "conns s i")
    case (Some c)
    obtain go c' a' where st: "socket_turn i now sends t (c, app s) = (go, c', a')" by (metis prod_cases3)
    with socket_turn_sent [of i now sends t c "app s"] Some show ?thesis by (simp add: handle_turn_def)
  qed (simp add: handle_turn_def)
  then show ?thesis by (simp add: Turn ws_step_def published_def List.map_filter_def)
qed (simp_all add: ws_step_def ws_handler_def try_acquire_ws_connection_def published_def List.map_filter_def)

lemma published_append: "published (xs @ ys) = published xs @ published ys"
  by (simp add: published_def List.map_filter_def)

lemma run_sent: "tx_status_sent (app (fold ws_step xs s)) = tx_status_sent (app s) @ published xs"
proof (induction xs arbitrary: s)
  case (Cons x xs)
  have "published (x # xs) = published [x] @ published xs" by (simp add: published_def List.map_filter_def)
  with Cons.IH [of "ws_step x s"] show ?case by (simp add: ws_step_sent)
qed (simp add: published_def List.map_filter_def)

text \<open>Some message of the socket asked for the id.\<close>

definition asked_for :: "nat \<Rightarrow> string \<Rightarrow> ws_input list \<Rightarrow> bool" where
  "asked_for i x xs \<longleftrightarrow> (\<exists>now sends. Turn i now sends (Received (TextMsg (Some (''subscribe'', x)))) \<in> set xs)"

lemma updates_simps [simp]:
  "updates [] = []" "updates (xs @ ys) = updates xs @ updates ys" "updates [StatusUpdate e] = [e]"
  "updates [Subscribed x] = []" "updates [SubscriptionLimit] = []" "updates [Ping] = []"
  by (simp_all add: updates_def List.map_filter_def)

lemma published_snoc:
  "published (xs @ [x]) = published xs @ (case x of Publish e \<Rightarrow> [e] | _ \<Rightarrow> [])"
  by (simp add: published_def List.map_filter_def split: ws_input.splits)

lemma recv_matching_Some:
  "recv_matching q subs = (Some e, q') \<Longrightarrow> subseq (e # q') q \<and> tx_id e \<in> set subs"
  by (induction q) (auto split: if_splits)

lemma recv_matching_None: "recv_matching q subs = (None, q') \<Longrightarrow> q' = []"
  by (induction q) (auto split: if_splits)

definition delivered_ok :: "ws_input list \<Rightarrow> nat \<Rightarrow> ws_conn \<Rightarrow> tx_event list \<Rightarrow> bool" where
  "delivered_ok xs i c q \<longleftrightarrow> subseq (updates (sent c) @ q) (published xs)
    \<and> (\<forall>e\<in>set (updates (sent c)). asked_for i (tx_id e) xs)
    \<and> (\<forall>x\<in>set (subscriptions c). asked_for i x xs)"

lemma asked_for_later: "asked_for i x xs \<Longrightarrow> asked_for i x (xs @ ys)"
  by (auto simp: asked_for_def)

lemma subseq_skip: "subseq (a @ b @ c) p \<Longrightarrow> subseq (a @ c) p"
proof -
  have "subseq (a @ c) (a @ b @ c)" by (induction a) (auto simp: list_emb_append2)
  moreover assume "subseq (a @ b @ c) p"
  ultimately show ?thesis by (rule subseq_order.trans)
qed

lemma delivered_turn:
  assumes "delivered_ok xs i c q" "tx_status_tx a i = Some q"
    and "socket_turn i now sends t (c, a) = (go, c', a')"
  shows "\<exists>q'. tx_status_tx a' i = Some q' \<and> delivered_ok (xs @ [Turn i now sends t]) i c' q'"
proof -
  let ?xs = "xs @ [Turn i now sends t]"
  have pub: "published ?xs = published xs" by (simp add: published_snoc)
  have c: "subseq (updates (sent c) @ q) (published ?xs)"
    "\<forall>e\<in>set (updates (sent c)). asked_for i (tx_id e) ?xs" "\<forall>x\<in>set (subscriptions c). asked_for i x ?xs"
    using assms(1) by (auto simp: delivered_ok_def pub asked_for_later)
  show ?thesis
  proof (cases t)
    case (Received m)
    have now: "asked_for i x ?xs" if "m = TextMsg (Some (''subscribe'', x))" for x
      using that Received by (auto simp: asked_for_def)
    from assms(2,3) Received have "tx_status_tx a' i = Some q" "updates (sent c') = updates (sent c)"
      "\<forall>x\<in>set (subscriptions c'). x \<in> set (subscriptions c) \<or> m = TextMsg (Some (''subscribe'', x))"
      by (auto simp: socket_turn_def on_message_def send_msg_def Let_def
          split: ws_message.splits option.splits if_splits)
    with c now show ?thesis by (auto simp: delivered_ok_def)
  next
    case Updated
    obtain r q' where r: "recv_matching q (subscriptions c) = (r, q')" by (cases "recv_matching q (subscriptions c)")
    show ?thesis
    proof (cases "subscriptions c = []")
      case True
      with assms(2,3) Updated c show ?thesis
        by (auto simp: socket_turn_def on_update_def delivered_ok_def)
    next
      case False
      show ?thesis
      proof (cases r)
        case None
        with r have "q' = []" by (auto dest: recv_matching_None)
        with c(1) have "subseq (updates (sent c) @ q') (published ?xs)"
          using subseq_skip [of "updates (sent c)" q "[]"] by simp
        with assms(2,3) Updated c False r None show ?thesis
          by (auto simp: socket_turn_def on_update_def delivered_ok_def)
      next
        case (Some e)
        with r have e: "subseq (e # q') q" "tx_id e \<in> set (subscriptions c)"
          by (auto dest: recv_matching_Some)
        then have seq: "subseq (updates (sent c) @ e # q') (published ?xs)"
          using c(1) by (blast intro: subseq_order.trans list_emb_append_mono)
        then have "subseq (updates (sent c) @ q') (published ?xs)"
          using subseq_skip [of "updates (sent c)" "[e]" q'] by simp
        with seq assms(2,3) Updated c False r Some e show ?thesis
          by (auto simp: socket_turn_def on_update_def delivered_ok_def send_msg_def Let_def split: if_splits)
      qed
    qed
  next
    case Ticked
    with assms(2,3) c show ?thesis
      by (auto simp: socket_turn_def on_tick_def delivered_ok_def send_msg_def split: if_splits)
  qed
qed

definition all_delivered_ok :: "ws_input list \<Rightarrow> ws_server \<Rightarrow> bool" where
  "all_delivered_ok xs s \<longleftrightarrow> (\<forall>i c. conns s i = Some c \<longrightarrow>
     (\<exists>q. tx_status_tx (app s) i = Some q \<and> delivered_ok xs i c q))"

lemma socket_turn_other_receivers:
  "socket_turn i now sends t (c, a) = (go, c', a') \<Longrightarrow> j \<noteq> i \<Longrightarrow> tx_status_tx a' j = tx_status_tx a j"
  by (auto simp: socket_turn_def on_message_def on_update_def on_tick_def send_msg_def Let_def
      split: ws_turn.splits ws_message.splits option.splits prod.splits if_splits)

lemma delivered_ok_later:
  "delivered_ok xs i c q \<Longrightarrow> published (xs @ [x]) = published xs \<Longrightarrow> delivered_ok (xs @ [x]) i c q"
  by (simp add: delivered_ok_def asked_for_later)

lemma delivered_step:
  assumes "all_delivered_ok xs s"
  shows "all_delivered_ok (xs @ [x]) (ws_step x s)"
  unfolding all_delivered_ok_def
proof (intro allI impI)
  fix j d assume d: "conns (ws_step x s) j = Some d"
  have old: "\<exists>q. tx_status_tx (app s) j = Some q \<and> delivered_ok xs j d q" if "conns s j = Some d"
    using assms that by (auto simp: all_delivered_ok_def)
  show "\<exists>q. tx_status_tx (app (ws_step x s)) j = Some q \<and> delivered_ok (xs @ [x]) j d q"
  proof (cases x)
    case (Connect i now upgraded)
    then have pub: "published (xs @ [x]) = published xs" by (simp add: published_snoc)
    with d old show ?thesis
      by (auto simp: Connect ws_step_def ws_handler_def try_acquire_ws_connection_def delivered_ok_def
          asked_for_later split: if_splits)
  next
    case (Turn i now sends t)
    then have pub: "published (xs @ [x]) = published xs" by (simp add: published_snoc)
    show ?thesis
    proof (cases "conns s i")
      case None
      with d old pub show ?thesis by (auto simp: Turn ws_step_def handle_turn_def intro: delivered_ok_later)
    next
      case (Some c)
      obtain go c' a' where st: "socket_turn i now sends t (c, app s) = (go, c', a')" by (metis prod_cases3)
      from assms Some obtain q where q: "tx_status_tx (app s) i = Some q" "delivered_ok xs i c q"
        by (auto simp: all_delivered_ok_def)
      from delivered_turn [OF q(2,1) st] socket_turn_other_receivers [OF st, of j] d old pub st Some
      show ?thesis
        by (cases "j = i") (auto simp: Turn ws_step_def handle_turn_def intro: delivered_ok_later split: if_splits)
    qed
  next
    case (Publish e)
    with d have "conns s j = Some d" by (simp add: ws_step_def)
    with old obtain q where q: "tx_status_tx (app s) j = Some q" "delivered_ok xs j d q" by blast
    from q(2) have "delivered_ok (xs @ [x]) j d (q @ [e])"
      using list_emb_append_mono [of "(=)" "updates (sent d) @ q" "published xs" "[e]" "[e]"]
      by (auto simp: Publish delivered_ok_def published_snoc asked_for_later)
    with q(1) show ?thesis by (simp add: Publish ws_step_def)
  next
    case (Lagged i n)
    with d have "conns s j = Some d" by (simp add: ws_step_def)
    with old obtain q where q: "tx_status_tx (app s) j = Some q" "delivered_ok xs j d q" by blast
    have "delivered_ok (xs @ [x]) j d (drop n q)"
      using q(2) subseq_skip [of "updates (sent d)" "take n q" "drop n q"]
      by (auto simp: Lagged delivered_ok_def published_snoc asked_for_later)
    moreover have "delivered_ok (xs @ [x]) j d q"
      using q(2) by (auto simp: Lagged published_snoc intro: delivered_ok_later)
    ultimately show ?thesis using q(1) by (auto simp: Lagged ws_step_def)
  qed
qed

text \<open>
  What an open socket has been sent is a subsequence of the published events, in their order
  and without repetition, of ids it had asked for.
\<close>

theorem ws_delivery:
  assumes "conns (ws_run xs) i = Some c"
  shows "subseq (updates (sent c)) (published xs)
    \<and> (\<forall>e\<in>set (updates (sent c)). asked_for i (tx_id e) xs)"
proof -
  have "all_delivered_ok xs (ws_run xs)"
  proof (induction xs rule: rev_induct)
    case Nil
    show ?case by (simp add: ws_run_def ws_start_def all_delivered_ok_def)
  qed (simp add: ws_run_snoc delivered_step)
  with assms obtain q where "delivered_ok xs i c q" by (auto simp: all_delivered_ok_def)
  then show ?thesis using subseq_skip [of "updates (sent c)" q "[]"] by (auto simp: delivered_ok_def)
qed

definition demo_event :: "string \<Rightarrow> tx_event" where
  "demo_event x = \<lparr>tx_id = x, tx_status = TxPending, tx_timestamp = ''0'', tx_message = None\<rparr>"

text \<open>A client subscribes to \<open>t\<close> and receives its event, the one of \<open>u\<close> is skipped.\<close>

definition demo_inputs :: "ws_input list" where
  "demo_inputs = [Connect 0 0 True, Turn 0 1 True (Received (TextMsg (Some (''subscribe'', ''t'')))),
     Publish (demo_event ''u''), Publish (demo_event ''t''), Turn 0 2 True Updated]"

lemma demo_run:
  "conns (ws_run demo_inputs) 0 = Some \<lparr>subscriptions = [''t''], last_activity = 1,
     sent = [Subscribed ''t'', StatusUpdate (demo_event ''t'')]\<rparr>"
  by (simp add: ws_run_def demo_inputs_def ws_step_def ws_handler_def try_acquire_ws_connection_def ws_start_def
      app_new_def MAX_WS_CONNECTIONS_def handle_turn_def socket_turn_def on_message_def send_msg_def Let_def
      MAX_SUBSCRIPTIONS_PER_CONNECTION_def on_update_def broadcast_status_def add_subscriber_def demo_event_def)

lemma ws_delivery_witness:
  "subseq [demo_event ''t''] (published demo_inputs) \<and> asked_for 0 ''t'' demo_inputs"
  using ws_delivery [OF demo_run] by (simp add: updates_def List.map_filter_def demo_event_def)

subsection \<open>The counts of subscribers\<close>

definition subscribers :: "string \<Rightarrow> ws_server \<Rightarrow> nat set" where
  "subscribers x s = {i. \<exists>c. conns s i = Some c \<and> x \<in> set (subscriptions c)}"

text \<open>Clients that subscribe to an id only once, and unsubscribe only from what they subscribed to.\<close>

definition orderly :: "ws_input \<Rightarrow> ws_server \<Rightarrow> bool" where
  "orderly x s \<longleftrightarrow> (\<forall>i now sends action tx c.
     x = Turn i now sends (Received (TextMsg (Some (action, tx)))) \<and> conns s i = Some c \<longrightarrow>
       (action = ''subscribe'' \<longrightarrow> tx \<notin> set (subscriptions c))
       \<and> (action = ''unsubscribe'' \<longrightarrow> tx \<in> set (subscriptions c)))"

fun orderly_run :: "ws_input list \<Rightarrow> ws_server \<Rightarrow> bool" where
  "orderly_run [] s = True"
| "orderly_run (x # xs) s = (orderly x s \<and> orderly_run xs (ws_step x s))"

definition positive :: "nat \<Rightarrow> nat option" where
  "positive n = (if n = 0 then None else Some n)"

definition counts_ok :: "ws_server \<Rightarrow> bool" where
  "counts_ok s \<longleftrightarrow> finite (dom (conns s)) \<and> (\<forall>c\<in>ran (conns s). distinct (subscriptions c))
    \<and> (\<forall>x. tx_subscribers (app s) x = positive (card (subscribers x s)))"

lemma add_subscriber_positive:
  "tx_subscribers a x = positive n \<Longrightarrow> tx_subscribers (add_subscriber x a) = (tx_subscribers a)(x := positive (Suc n))"
  by (auto simp: add_subscriber_def positive_def split: if_splits)

lemma remove_subscriber_positive:
  "tx_subscribers a x = positive n \<Longrightarrow> tx_subscribers (remove_subscriber x a) = (tx_subscribers a)(x := positive (n - 1))"
  by (auto simp: remove_subscriber_unfold positive_def split: option.splits if_splits)

lemma fold_remove_positive:
  assumes "distinct ts" "\<forall>x. tx_subscribers a x = positive (f x)"
  shows "tx_subscribers (fold remove_subscriber ts a) x = positive (f x - of_bool (x \<in> set ts))"
  using assms
proof (induction ts arbitrary: a f)
  case (Cons t ts)
  let ?f = "\<lambda>x. f x - of_bool (x = t)"
  have "\<forall>x. tx_subscribers (remove_subscriber t a) x = positive (?f x)"
    using Cons.prems(2) remove_subscriber_positive [of a t "f t"] by auto
  from Cons.IH [OF _ this] Cons.prems(1) show ?case by auto
qed simp

lemma card_subscribers_update:
  assumes "finite (dom (conns s))" "conns s i = Some c"
  shows "card (subscribers x (s\<lparr>app := a, conns := (conns s)(i := e)\<rparr>))
    = card (subscribers x s) - of_bool (x \<in> set (subscriptions c))
      + of_bool (\<exists>d. e = Some d \<and> x \<in> set (subscriptions d))"
proof -
  let ?S = "subscribers x s - {i}"
  have fin: "finite (subscribers x s)"
    by (rule finite_subset [OF _ assms(1)]) (auto simp: subscribers_def)
  have "subscribers x (s\<lparr>app := a, conns := (conns s)(i := e)\<rparr>)
      = (if \<exists>d. e = Some d \<and> x \<in> set (subscriptions d) then insert i ?S else ?S)"
    by (auto simp: subscribers_def split: if_splits)
  moreover have "card ?S = card (subscribers x s) - of_bool (x \<in> set (subscriptions c))"
    using assms(2) fin by (auto simp: subscribers_def)
  moreover have "i \<notin> ?S" "finite ?S" using fin by simp_all
  ultimately show ?thesis by (simp del: insert_Diff_single)
qed

lemma counts_step:
  assumes "counts_ok s" "orderly x s"
  shows "counts_ok (ws_step x s)"
proof (cases x)
  case (Connect i now upgraded)
  show ?thesis
  proof (cases "conns s i = None \<and> upgraded")
    case True
    then have "subscribers y (ws_step x s) = subscribers y s" for y
      by (auto simp: Connect ws_step_def ws_handler_def try_acquire_ws_connection_def subscribers_def)
    with assms(1) True show ?thesis
      by (auto simp: Connect ws_step_def ws_handler_def try_acquire_ws_connection_def counts_ok_def ran_def)
  next
    case False
    with assms(1) show ?thesis
      by (auto simp: Connect ws_step_def ws_handler_def try_acquire_ws_connection_def counts_ok_def subscribers_def)
  qed
next
  case (Turn i now sends t)
  show ?thesis
  proof (cases "conns s i")
    case None
    with assms(1) show ?thesis by (simp add: Turn ws_step_def handle_turn_def)
  next
    case (Some c)
    obtain go c' a' where st: "socket_turn i now sends t (c, app s) = (go, c', a')" by (metis prod_cases3)
    from assms(1) Some have s: "finite (dom (conns s))" "distinct (subscriptions c)"
      "\<And>y. tx_subscribers (app s) y = positive (card (subscribers y s))"
      by (auto simp: counts_ok_def ran_def)
    have pos: "0 < card (subscribers y s)" if "y \<in> set (subscriptions c)" for y
    proof -
      have "finite (subscribers y s)" by (rule finite_subset [OF _ s(1)]) (auto simp: subscribers_def)
      with that Some show ?thesis by (auto simp: card_gt_0_iff subscribers_def)
    qed
    let ?n = "\<lambda>y. card (subscribers y s) - of_bool (y \<in> set (subscriptions c))
      + of_bool (y \<in> set (subscriptions c'))"
    have turn: "distinct (subscriptions c') \<and> (\<forall>y. tx_subscribers a' y = positive (?n y))"
      using st
    proof (cases rule: socket_turn_cases)
      case same
      with s pos show ?thesis by (auto simp: Suc_leI)
    next
      case (sub y)
      with assms(2) Some have "y \<notin> set (subscriptions c)" by (auto simp: orderly_def Turn)
      with sub s pos add_subscriber_positive [of "app s" y "card (subscribers y s)"] show ?thesis
        by (auto simp: Suc_leI)
    next
      case (unsub y)
      with assms(2) Some have "y \<in> set (subscriptions c)" by (auto simp: orderly_def Turn)
      with unsub s pos remove_subscriber_positive [of "app s" y "card (subscribers y s)"] show ?thesis
        by (auto simp: Suc_leI distinct_removeAll)
    qed
    have ran: "\<forall>d\<in>ran ((conns s)(i := e)). distinct (subscriptions d)"
      if "\<And>d. e = Some d \<Longrightarrow> distinct (subscriptions d)" for e
      using assms(1) that by (auto simp: counts_ok_def ran_def)
    show ?thesis
    proof (cases go)
      case True
      with st Some have s': "ws_step x s = s\<lparr>app := a', conns := (conns s)(i := Some c')\<rparr>"
        by (simp add: Turn ws_step_def handle_turn_def)
      show ?thesis unfolding s' counts_ok_def card_subscribers_update [OF s(1) Some]
        using turn s(1) ran [of "Some c'"] by auto
    next
      case False
      with st Some have s': "ws_step x s = s\<lparr>app := ws_cleanup i c' a', conns := (conns s)(i := None)\<rparr>"
        by (simp add: Turn ws_step_def handle_turn_def)
      have "tx_subscribers (ws_cleanup i c' a') y = positive (?n y - of_bool (y \<in> set (subscriptions c')))" for y
        using fold_remove_positive [of "subscriptions c'" a' ?n] turn by auto
      then show ?thesis unfolding s' counts_ok_def card_subscribers_update [OF s(1) Some]
        using s(1) ran [of None] by auto
    qed
  qed
qed (use assms(1) in \<open>auto simp: ws_step_def counts_ok_def subscribers_def\<close>)

text \<open>
  When clients subscribe to an id only once and unsubscribe only from what they subscribed to, and
  no turn is interrupted by another, the count of an id is the number of sockets subscribed to it,
  and absent when there is none. For sockets that run side by side see \<open>Api_Tasks\<close>.
\<close>

theorem orderly_counts_exact:
  assumes "orderly_run xs ws_start"
  shows "tx_subscribers (app (ws_run xs)) x =
    (if subscribers x (ws_run xs) = {} then None else Some (card (subscribers x (ws_run xs))))"
proof -
  have "counts_ok (fold ws_step xs s)" if "counts_ok s" "orderly_run xs s" for s
    using that by (induction xs arbitrary: s) (simp_all add: counts_step)
  moreover have "counts_ok ws_start"
    by (simp add: counts_ok_def ws_start_def app_new_def subscribers_def positive_def)
  ultimately have ok: "counts_ok (ws_run xs)" using assms by (simp add: ws_run_def)
  have "finite (subscribers x (ws_run xs))"
    by (rule finite_subset [of _ "dom (conns (ws_run xs))"]) (use ok in \<open>auto simp: counts_ok_def subscribers_def\<close>)
  with ok show ?thesis by (simp add: counts_ok_def positive_def)
qed

lemma orderly_counts_exact_witness:
  "tx_subscribers (app (ws_run [Connect 0 0 True, Turn 0 1 True (Received (TextMsg (Some (''subscribe'', ''t''))))])) ''t''
     = (if subscribers ''t'' (ws_run [Connect 0 0 True, Turn 0 1 True (Received (TextMsg (Some (''subscribe'', ''t''))))])
          = {} then None else Some (card (subscribers ''t''
            (ws_run [Connect 0 0 True, Turn 0 1 True (Received (TextMsg (Some (''subscribe'', ''t''))))]))))"
  by (rule orderly_counts_exact)
    (auto simp: orderly_def ws_step_def ws_handler_def try_acquire_ws_connection_def ws_start_def app_new_def)

text \<open>The input of a client that sends the same subscription \<open>k\<close> times and leaves.\<close>

definition resubscriptions :: "nat \<Rightarrow> nat \<Rightarrow> nat \<Rightarrow> string \<Rightarrow> ws_input list" where
  "resubscriptions i now k x =
     Connect i now True # replicate k (Turn i now True (Received (TextMsg (Some (''subscribe'', x)))))
       @ [Turn i now True (Received EndMsg)]"

text \<open>One client subscribes, another one that never did unsubscribes.\<close>

definition foreign_unsubscribe :: "nat \<Rightarrow> nat \<Rightarrow> string \<Rightarrow> ws_input list" where
  "foreign_unsubscribe i now x =
     [Connect i now True, Connect (Suc i) now True,
      Turn i now True (Received (TextMsg (Some (''subscribe'', x)))),
      Turn (Suc i) now True (Received (TextMsg (Some (''unsubscribe'', x))))]"

text \<open>The only socket is \<open>i\<close>, subscribed to \<open>x\<close> alone, which counts \<open>n\<close> subscribers.\<close>

definition sole_subscriber :: "nat \<Rightarrow> string \<Rightarrow> nat \<Rightarrow> ws_server \<Rightarrow> bool" where
  "sole_subscriber i x n s \<longleftrightarrow> dom (conns s) = {i} \<and> subscriptions (the (conns s i)) = [x]
     \<and> tx_subscribers (app s) x = Some n"

lemma sole_subscriber_again:
  assumes "sole_subscriber i x n s"
  shows "sole_subscriber i x (Suc n) (ws_step (Turn i now True (Received (TextMsg (Some (''subscribe'', x))))) s)"
proof -
  from assms obtain c where c: "conns s i = Some c" by (auto simp: sole_subscriber_def)
  with assms have subs: "subscriptions c = [x]" by (simp add: sole_subscriber_def)
  let ?c = "send_msg (Subscribed x) (c\<lparr>last_activity := now, subscriptions := [x]\<rparr>)"
  have "ws_step (Turn i now True (Received (TextMsg (Some (''subscribe'', x))))) s
      = s\<lparr>app := add_subscriber x (app s), conns := (conns s)(i := Some ?c)\<rparr>"
    by (simp add: ws_step_def handle_turn_def c socket_turn_def on_message_def subs Let_def
        MAX_SUBSCRIPTIONS_PER_CONNECTION_def)
  with assms show ?thesis by (simp add: sole_subscriber_def send_msg_def add_subscriber_def)
qed

lemma sole_subscriber_repeat:
  "sole_subscriber i x n s \<Longrightarrow>
   sole_subscriber i x (n + k) (fold ws_step
     (replicate k (Turn i now True (Received (TextMsg (Some (''subscribe'', x)))))) s)"
proof (induction k arbitrary: s n)
  case (Suc k)
  from Suc.IH [OF sole_subscriber_again [OF Suc.prems]] show ?case by (simp only: replicate_Suc fold_simps add_Suc_right add_Suc)
qed simp

lemma sole_subscriber_leaves:
  assumes "sole_subscriber i x n s" "1 < n"
  shows "conns (ws_step (Turn i now True (Received EndMsg)) s) = (\<lambda>_. None)
   \<and> tx_subscribers (app (ws_step (Turn i now True (Received EndMsg)) s)) x = Some (n - 1)"
proof -
  from assms(1) obtain c where c: "conns s i = Some c" by (auto simp: sole_subscriber_def)
  with assms(1) have subs: "subscriptions c = [x]" by (simp add: sole_subscriber_def)
  have "ws_step (Turn i now True (Received EndMsg)) s
      = s\<lparr>app := ws_cleanup i c (app s), conns := (conns s)(i := None)\<rparr>"
    by (simp add: ws_step_def handle_turn_def c socket_turn_def on_message_def)
  moreover from assms(1) have "dom ((conns s)(i := None)) = {}" by (simp add: sole_subscriber_def)
  ultimately show ?thesis
    using assms by (simp add: subs remove_subscriber_unfold sole_subscriber_def del: dom_fun_upd)
qed

lemma sole_subscriber_first:
  "sole_subscriber i x 1 (fold ws_step
     [Connect i now True, Turn i now True (Received (TextMsg (Some (''subscribe'', x))))] ws_start)"
  by (simp add: sole_subscriber_def ws_step_def ws_handler_def try_acquire_ws_connection_def ws_start_def
      app_new_def MAX_WS_CONNECTIONS_def handle_turn_def socket_turn_def on_message_def send_msg_def Let_def
      MAX_SUBSCRIPTIONS_PER_CONNECTION_def add_subscriber_def)

lemma resubscriptions_leak:
  "conns (ws_run (resubscriptions i now (Suc (Suc k)) x)) = (\<lambda>_. None)
     \<and> tx_subscribers (app (ws_run (resubscriptions i now (Suc (Suc k)) x))) x = Some (Suc k)"
proof -
  let ?t = "Turn i now True (Received (TextMsg (Some (''subscribe'', x))))"
  let ?first = "[Connect i now True, ?t]" and ?last = "Turn i now True (Received EndMsg)"
  have run: "resubscriptions i now (Suc (Suc k)) x = (?first @ replicate (Suc k) ?t) @ [?last]"
    by (simp add: resubscriptions_def)
  have "sole_subscriber i x (1 + Suc k) (fold ws_step (replicate (Suc k) ?t) (fold ws_step ?first ws_start))"
    by (rule sole_subscriber_repeat [OF sole_subscriber_first])
  then have "sole_subscriber i x (Suc (Suc k)) (ws_run (?first @ replicate (Suc k) ?t))"
    by (simp only: ws_run_def fold_append comp_apply plus_1_eq_Suc)
  from sole_subscriber_leaves [OF this, of now] show ?thesis unfolding run ws_run_snoc by simp
qed

text \<open>
  The count is wrong otherwise. A client that sends the same subscription \<open>k + 2\<close> times and
  leaves, the only client ever, leaves a count of \<open>k + 1\<close> behind with no socket open; and a client
  that unsubscribes from an id it never subscribed to drops the count of another one that did.
\<close>

theorem wrong_subscriber_counts:
  "conns (ws_run (resubscriptions i now (Suc (Suc k)) x)) = (\<lambda>_. None)
   \<and> tx_subscribers (app (ws_run (resubscriptions i now (Suc (Suc k)) x))) x = Some (Suc k)
   \<and> tx_subscribers (app (ws_run (foreign_unsubscribe j now x))) x = None
   \<and> subscribers x (ws_run (foreign_unsubscribe j now x)) = {j}"
  using resubscriptions_leak [of i now k x]
  by (auto simp: ws_run_def foreign_unsubscribe_def ws_step_def ws_handler_def try_acquire_ws_connection_def
      ws_start_def app_new_def MAX_WS_CONNECTIONS_def handle_turn_def socket_turn_def on_message_def
      send_msg_def Let_def MAX_SUBSCRIPTIONS_PER_CONNECTION_def add_subscriber_def remove_subscriber_unfold
      subscribers_def split: if_splits)

end
