(* ===== verification/Api_Http_Props.thy ===== *)
theory Api_Http_Props
  imports Api_Http
begin

text \<open>
  What the HTTP handlers of the API server answer: the fees they quote, the simulation endpoint
  with the events it publishes, and routes read back from an RPC node.
\<close>

subsection \<open>Fees\<close>

lemma trunc_div_between:
  assumes "0 < b"
  shows "min a 0 \<le> trunc_div a b \<and> trunc_div a b \<le> max a 0"
proof -
  have "0 \<le> \<bar>a\<bar> div b" "\<bar>a\<bar> div b \<le> \<bar>a\<bar>"
    using assms zdiv_mono2 [of "\<bar>a\<bar>" 1 b] by (simp_all add: pos_imp_zdiv_nonneg_iff)
  with assms show ?thesis by (auto simp: trunc_div_def sgn_if)
qed

lemma sint_i64_div:
  assumes "0 < b"
  shows "sint (i64_div a b) = trunc_div (sint a) b"
proof -
  have "in_i64 (trunc_div (sint a) b)"
    using trunc_div_between [OF assms, of "sint a"] in_i64_sint [of a] by (auto simp: in_i64_def)
  then show ?thesis by (simp add: i64_div_def sint_word_of_int_i64)
qed

lemma ucast_as_int: "(ucast (m :: u32) :: i64) = word_of_int (uint m)"
  by simp

lemma fee_total_exact:
  assumes "in_i64 ((sint base + sint r) * uint m)"
  shows "sint (fee_total base r m) = trunc_div ((sint base + sint r) * uint m) 100"
proof -
  have same: "word_of_int (sint base) = base" "word_of_int (sint r) = r" by simp_all
  have "(base + r) * ucast m = (word_of_int (sint base) + word_of_int (sint r)) * word_of_int (uint m)"
    by (simp only: ucast_as_int same)
  also have "\<dots> = word_of_int ((sint base + sint r) * uint m)"
    by (simp only: wi_hom_add wi_hom_mult)
  finally have "sint ((base + r) * ucast m) = (sint base + sint r) * uint m"
    using sint_word_of_int_i64 [OF assms] by simp
  then show ?thesis by (simp add: fee_total_def sint_i64_div)
qed

definition surge_factor :: "u32 \<Rightarrow> int" where
  "surge_factor load = (if load \<ge> SURGE_THRESHOLD_BPS then 2 else 1)"

lemma surge_mult: "uint (fst (surge load)) = 100 * surge_factor load"
  by (simp add: surge_def surge_factor_def SURGE_MULTIPLIER_def NORMAL_MULTIPLIER_def)

lemma trunc_div_mult: "0 < b \<Longrightarrow> trunc_div (a * (b * c)) b = a * c"
proof -
  assume b: "0 < b"
  have "\<bar>a * (b * c)\<bar> div \<bar>b\<bar> = \<bar>a * c\<bar>"
    using b by (simp add: abs_mult mult.left_commute)
  with b show ?thesis by (simp add: trunc_div_def sgn_mult abs_mult) (metis mult.assoc mult.commute mult_sgn_abs)
qed

lemma fee_total_surge:
  assumes "in_i64 ((100 + sint r) * (100 * surge_factor load))"
  shows "sint (fee_total BASE_FEE r (fst (surge load))) = (100 + sint r) * surge_factor load"
proof -
  have b: "sint BASE_FEE = 100" by (simp add: BASE_FEE_def)
  from fee_total_exact [of BASE_FEE r "fst (surge load)"] assms
  have "sint (fee_total BASE_FEE r (fst (surge load))) = trunc_div ((100 + sint r) * (100 * surge_factor load)) 100"
    by (simp add: b surge_mult)
  then show ?thesis by (simp add: trunc_div_mult)
qed

lemma trunc_div_times:
  assumes "0 < b"
  shows "min a 0 \<le> trunc_div a b * b \<and> trunc_div a b * b \<le> max a 0"
proof -
  have "0 \<le> \<bar>a\<bar> div b * b" "\<bar>a\<bar> div b * b \<le> \<bar>a\<bar>"
    using assms by (simp_all add: pos_imp_zdiv_nonneg_iff minus_mod_eq_div_mult [symmetric] zmod_le_nonneg_dividend)
  with assms show ?thesis by (auto simp: trunc_div_def sgn_if)
qed

text \<open>
  When the RPC node cannot be reached, the estimate for any 64-bit amount is the base fee of
  100 and one thousandth of the amount (at least 100), doubled under load, without overflow, and it
  never claims that the call would succeed.
\<close>

theorem heuristic_fee_exact:
  "sint (total_fee (heuristic_estimate amount load))
     = (100 + max 100 (trunc_div (sint amount) 1000)) * surge_factor load
   \<and> \<not> would_succeed (heuristic_estimate amount load) \<and> \<not> fee_estimated (heuristic_estimate amount load)"
proof -
  let ?q = "trunc_div (sint amount) 1000"
  have q: "?q * 1000 < 2 ^ 63"
    using trunc_div_times [of 1000 "sint amount"] in_i64_sint [of amount] by (auto simp: in_i64_def)
  let ?r = "resource_fee (heuristic_estimate amount load)"
  have r: "sint ?r = max 100 ?q"
    by (simp add: heuristic_estimate_def Let_def sint_i64_div case_prod_beta)
  have "in_i64 ((100 + sint ?r) * (100 * surge_factor load))"
    unfolding r in_i64_def surge_factor_def using q by auto
  from fee_total_surge [OF this] have "sint (total_fee (heuristic_estimate amount load))
     = (100 + max 100 ?q) * surge_factor load"
    unfolding r by (simp add: heuristic_estimate_def Let_def case_prod_beta)
  then show ?thesis by (simp add: heuristic_estimate_def Let_def case_prod_beta)
qed

text \<open>
  With the resource fee of a simulation, the total is the exact sum, doubled under load, if
  and only if that sum times the surge multiplier still fits in 64 bits: the product is taken before
  the division by 100, in arithmetic that wraps. (In the debug profile it would panic instead.)
\<close>

theorem live_fee_exact_iff:
  assumes "call_simulate_rpc http target fn = Inr result" "parse_i64 (min_resource_fee result) = Some v"
  shows "\<exists>b. rpc_simulate J http target fn amount load = Inr b
    \<and> (sint (total_fee b) = (100 + sint v) * surge_factor load
        \<longleftrightarrow> in_i64 ((100 + sint v) * (100 * surge_factor load)))"
proof -
  let ?t = "fee_total BASE_FEE v (fst (surge load))" and ?x = "(BASE_FEE + v) * ucast (fst (surge load))"
  let ?f = "(100 + sint v) * surge_factor load"
  have "in_i64 (?f * 100)" if "sint ?t = ?f"
  proof -
    have "sint ?t = trunc_div (sint ?x) 100" by (simp add: fee_total_def sint_i64_div)
    then have "min (sint ?x) 0 \<le> ?f * 100" "?f * 100 \<le> max (sint ?x) 0"
      using trunc_div_times [of 100 "sint ?x"] that by simp_all
    with in_i64_sint [of ?x] show ?thesis unfolding in_i64_def by linarith
  qed
  then have "sint ?t = ?f \<longleftrightarrow> in_i64 ((100 + sint v) * (100 * surge_factor load))"
    using fee_total_surge [of v load] by (auto simp: mult_ac)
  with assms show ?thesis by (simp add: rpc_simulate_def Let_def case_prod_beta)
qed

text \<open>A resource fee of \<open>10 ^ 17\<close> stroops is more than the multiplication can take.\<close>

definition demo_http :: "unit sim_result http" where
  "demo_http tx = Inr \<lparr>rpc_result = Some \<lparr>min_resource_fee = ''100000000000000000'', sim_error = None,
     sim_events = []\<rparr>, rpc_error = None\<rparr>"

lemma live_fee_exact_iff_witness:
  "\<exists>b. rpc_simulate J demo_http ''t'' ''f'' 0 0 = Inr b \<and> sint (total_fee b) \<noteq> 100000000000000100"
proof -
  let ?r = "\<lparr>min_resource_fee = ''100000000000000000'', sim_error = None, sim_events = []\<rparr> :: unit sim_result"
  have call: "call_simulate_rpc demo_http ''t'' ''f'' = Inr ?r"
    by (simp add: call_simulate_rpc_def demo_http_def)
  have digits: "digits_value ''100000000000000000'' = Some 100000000000000000"
    by (simp add: digits_value_def is_digit_def digit_value_def)
  have parse: "parse_i64 (min_resource_fee ?r) = Some 100000000000000000"
    by (simp add: parse_i64_def digits i64_of_def in_i64_def)
  have v: "sint (100000000000000000 :: i64) = 100000000000000000" by simp
  from live_fee_exact_iff [OF call parse, of J 0 0] show ?thesis
    unfolding v by (auto simp: surge_factor_def SURGE_THRESHOLD_BPS_def in_i64_def)
qed

subsection \<open>The simulate handler\<close>

definition valid_simulation :: "simulate_request \<Rightarrow> bool" where
  "valid_simulation req \<longleftrightarrow> length (req_target req) = 56 \<and> starts_with_C (req_target req) \<and> req_function req \<noteq> []"

text \<open>What a subscriber of the request's id sees.\<close>

definition simulation_events :: "string \<Rightarrow> string \<Rightarrow> simulate_request \<Rightarrow> bool \<Rightarrow> tx_event list" where
  "simulation_events t0 t1 req ok =
     (case req_tx_id req of
        None \<Rightarrow> []
      | Some tid \<Rightarrow>
          if tid = [] then []
          else [status_event t0 tid TxPending ''simulation started'',
                if ok then status_event t1 tid TxConfirmed ''simulation successful''
                else status_event t1 tid TxFailed ''simulation indicates transaction would fail''])"

lemma publish_status_queue:
  "tx_status_tx (publish_status now tx st msg a) r =
     map_option (\<lambda>q. q @ (case tx of Some tid \<Rightarrow> [status_event now tid st msg] | None \<Rightarrow> [])) (tx_status_tx a r)"
  by (cases "tx_status_tx a r") (auto simp: publish_status_def broadcast_status_def split: option.splits)

lemma rpc_simulate_Inr: "\<exists>b. rpc_simulate J http target fn amount load = Inr b
   \<and> (would_succeed b \<longleftrightarrow> (\<exists>r. call_simulate_rpc http target fn = Inr r \<and> sim_error r = None))"
  by (auto simp: rpc_simulate_def heuristic_estimate_def Let_def case_prod_beta split: sum.splits)

text \<open>
  C22. \<open>POST /simulate\<close> either rejects an invalid request with 400 and changes nothing, or
  answers 200, with success exactly when the RPC simulation was reached and reported no error, and
  every open receiver gets, if the request carries an id, the event \<open>Pending\<close> followed by exactly
  one final event that agrees with the answer.
\<close>

theorem simulate_outcome:
  "case simulate J http t0 t1 req a of
     (Inl (code, err), a') \<Rightarrow> \<not> valid_simulation req \<and> code = 400 \<and> ed_code err = ValidationError \<and> a' = a
   | (Inr resp, a') \<Rightarrow> valid_simulation req
       \<and> (sr_success resp \<longleftrightarrow>
            (\<exists>r. call_simulate_rpc http (req_target req) (req_function req) = Inr r \<and> sim_error r = None))
       \<and> tx_status_tx a' = (\<lambda>i. map_option (\<lambda>q. q @ simulation_events t0 t1 req (sr_success resp)) (tx_status_tx a i))"
proof (cases "valid_simulation req")
  case True
  obtain b where b: "rpc_simulate J http (req_target req) (req_function req) (req_amount req)
      (req_network_load_bps req) = Inr b"
    "would_succeed b \<longleftrightarrow> (\<exists>r. call_simulate_rpc http (req_target req) (req_function req) = Inr r \<and> sim_error r = None)"
    using rpc_simulate_Inr by blast
  from True have "req_target req \<noteq> []" by (auto simp: valid_simulation_def)
  with True b show ?thesis
    by (auto simp: simulate_def valid_simulation_def Let_def publish_status_queue simulation_events_def
        option_filter_def option.map_comp o_def fun_eq_iff split: option.splits)
next
  case False
  then show ?thesis by (auto simp: simulate_def valid_simulation_def error_with_field_def)
qed

subsection \<open>Routes\<close>

text \<open>JSON values, objects with their members in order; numbers as far as the code reads them.\<close>

datatype jv = JNull | JBool bool | JNum u64 | JStr string | JArr "jv list" | JObj "(string \<times> jv) list"

definition jv_json :: "jv json" where
  "jv_json = \<lparr>
     jget = (\<lambda>v k. case v of JObj ms \<Rightarrow> map_of ms k | _ \<Rightarrow> None),
     jnth = (\<lambda>v n. case v of JArr xs \<Rightarrow> if n < length xs then Some (xs ! n) else None | _ \<Rightarrow> None),
     as_array = (\<lambda>v. case v of JArr xs \<Rightarrow> Some xs | _ \<Rightarrow> None),
     as_str = (\<lambda>v. case v of JStr s \<Rightarrow> Some s | _ \<Rightarrow> None),
     as_bool = (\<lambda>v. case v of JBool b \<Rightarrow> Some b | _ \<Rightarrow> None),
     as_u64 = (\<lambda>v. case v of JNum n \<Rightarrow> Some n | _ \<Rightarrow> None),
     is_null = (\<lambda>v. v = JNull),
     jtext = (\<lambda>_. ''''), jparse = (\<lambda>_. None), jnull = JNull\<rparr>"

definition field_json :: "string \<Rightarrow> jv \<Rightarrow> jv" where
  "field_json k v = JObj [(''key'', JObj [(''sym'', JStr k)]), (''val'', v)]"

definition tagged :: "string \<Rightarrow> string \<Rightarrow> jv" where
  "tagged k s = JObj [(k, JStr s)]"

definition metadata_items :: "route_metadata_response \<Rightarrow> jv list" where
  "metadata_items m = [
     field_json ''description'' (tagged ''str'' (rm_description m)),
     field_json ''owner'' (tagged ''address'' (rm_owner m)),
     field_json ''tags'' (JObj [(''vec'', JArr (map (tagged ''str'') (rm_tags m)))])]"

definition metadata_json :: "route_metadata_response option \<Rightarrow> jv" where
  "metadata_json m = (case m of None \<Rightarrow> JNull | Some m \<Rightarrow> JObj [(''map'', JArr (metadata_items m))])"

text \<open>A \<open>RouteEntry\<close> of router-core as the value of a simulated \<open>get_route\<close>.\<close>

definition entry_json :: "route_entry_response \<Rightarrow> jv" where
  "entry_json e = JObj [(''results'', JArr [JObj [(''xdr'', JObj [(''map'', JArr [
     field_json ''address'' (tagged ''address'' (rr_address e)),
     field_json ''metadata'' (metadata_json (rr_metadata e)),
     field_json ''name'' (tagged ''str'' (rr_name e)),
     field_json ''paused'' (JObj [(''b'', JBool (rr_paused e))]),
     field_json ''updated_by'' (tagged ''address'' (rr_updated_by e))])])]])]"

lemma jv_accessors [simp]:
  "item_key jv_json (field_json k v) = k" "jindex jv_json (field_json k v) ''val'' = v"
  "text_at jv_json k (tagged k s) = s"
  "jget jv_json (JObj ms) k = map_of ms k" "as_array jv_json (JArr xs) = Some xs"
  "jget jv_json JNull k = None" "as_bool jv_json (JBool b) = Some b" "is_null jv_json (JObj ms) = False"
  by (simp_all add: item_key_def jindex_def text_at_def jv_json_def field_json_def tagged_def)

lemma tags_json: "List.map_filter (\<lambda>t. Option.bind (jget jv_json t ''str'') (as_str jv_json)) (map (tagged ''str'') ts) = ts"
  by (induction ts) (simp_all add: List.map_filter_def tagged_def jv_json_def)

lemma metadata_items_read:
  "fold (meta_field jv_json) (metadata_items m) \<lparr>rm_description = [], rm_tags = [], rm_owner = []\<rparr> = m"
  by (simp add: metadata_items_def meta_field_def tags_json)

lemma metadata_json_read:
  "entry_field jv_json (field_json ''metadata'' (metadata_json m)) e
     = (case m of None \<Rightarrow> e | Some _ \<Rightarrow> e\<lparr>rr_metadata := m\<rparr>)"
  by (cases m) (simp_all add: entry_field_def metadata_json_def metadata_items_read)

text \<open>
  A route entry that the RPC node returns in the JSON form of a simulated call is served by
  \<open>GET /routes/:name\<close> unchanged, metadata and tags included.
\<close>

theorem get_route_roundtrip:
  assumes "http (''get_route:'' @ contract_id @ '':'' @ name) = Inr \<lparr>rpc_result = Some (entry_json e), rpc_error = None\<rparr>"
    and "contract_id \<noteq> []" "rr_address e \<noteq> []"
  shows "http_get_route jv_json http contract_id name = Inr e"
proof -
  have "fold (entry_field jv_json) [
     field_json ''address'' (tagged ''address'' (rr_address e)),
     field_json ''metadata'' (metadata_json (rr_metadata e)),
     field_json ''name'' (tagged ''str'' (rr_name e)),
     field_json ''paused'' (JObj [(''b'', JBool (rr_paused e))]),
     field_json ''updated_by'' (tagged ''address'' (rr_updated_by e))] empty_entry = e"
    by (cases "rr_metadata e") (simp_all add: metadata_json_read, simp_all add: entry_field_def empty_entry_def)
  with assms(3) have "parse_route_entry_from_rpc jv_json (entry_json e) = Inr (Some e)"
    by (simp add: parse_route_entry_from_rpc_def entry_json_def option_filter_def jindex_def Let_def)
  with assms(1,2) show ?thesis by (simp add: http_get_route_def rpc_get_route_def)
qed

definition demo_entry :: route_entry_response where
  "demo_entry = \<lparr>rr_address = ''CA'', rr_name = ''oracle'', rr_paused = True, rr_updated_by = ''GB'',
     rr_metadata = Some \<lparr>rm_description = ''prices'', rm_tags = [''a'', ''b''], rm_owner = ''GC''\<rparr>\<rparr>"

lemma get_route_roundtrip_witness:
  "http_get_route jv_json (\<lambda>_. Inr \<lparr>rpc_result = Some (entry_json demo_entry), rpc_error = None\<rparr>) ''CORE'' ''oracle''
     = Inr demo_entry"
  by (rule get_route_roundtrip) (simp_all add: demo_entry_def)

end
