(* ===== verification/Api_Main_Props.thy ===== *)
theory Api_Main_Props
  imports Api_Main Api_Props Api_Http_Props
begin

text \<open>
  Properties of the API server as a whole: what its sockets receive in a run of requests, answers,
  turns and sweeps, and that the announcements of every id balance.
\<close>

subsection \<open>The halves of a simulation\<close>

text \<open>With nothing between them the two halves are the handler.\<close>

lemma simulate_halves:
  "simulate J http t0 t1 req a = (case simulate_begin t0 req a of
     (Some e, a) \<Rightarrow> (Inl e, a) | (None, a) \<Rightarrow> simulate_end J http t1 req a)"
  by (simp add: simulate_def simulate_begin_def simulate_end_def Let_def)

definition pending_events :: "string \<Rightarrow> simulate_request \<Rightarrow> tx_event list" where
  "pending_events t req = (case option_filter (\<lambda>tid. tid \<noteq> []) (req_tx_id req) of
     None \<Rightarrow> [] | Some tid \<Rightarrow> [status_event t tid TxPending ''simulation started''])"

definition final_events :: "string \<Rightarrow> simulate_request \<Rightarrow> bool \<Rightarrow> tx_event list" where
  "final_events t req ok = (case option_filter (\<lambda>tid. tid \<noteq> []) (req_tx_id req) of
     None \<Rightarrow> [] | Some tid \<Rightarrow>
       [if ok then status_event t tid TxConfirmed ''simulation successful''
        else status_event t tid TxFailed ''simulation indicates transaction would fail''])"

definition simulation_ok :: "'v rpc_node \<Rightarrow> simulate_request \<Rightarrow> bool" where
  "simulation_ok node req \<longleftrightarrow>
     (\<exists>r. call_simulate_rpc (node_simulate node) (req_target req) (req_function req) = Inr r \<and> sim_error r = None)"

lemma simulate_begin_eq:
  "snd (simulate_begin t req a) = (if valid_simulation req then fold broadcast_status (pending_events t req) a else a)"
  "fst (simulate_begin t req a) = None \<longleftrightarrow> valid_simulation req"
  by (auto simp: simulate_begin_def valid_simulation_def pending_events_def publish_status_def split: option.split)

lemma simulate_end_eq:
  "snd (simulate_end J (node_simulate node) t req a) = fold broadcast_status (final_events t req (simulation_ok node req)) a"
proof -
  obtain b where b: "rpc_simulate J (node_simulate node) (req_target req) (req_function req) (req_amount req)
      (req_network_load_bps req) = Inr b" "would_succeed b \<longleftrightarrow> simulation_ok node req"
    using rpc_simulate_Inr [of J "node_simulate node"] unfolding simulation_ok_def by blast
  then show ?thesis
    by (auto simp: simulate_end_def final_events_def publish_status_def Let_def split: option.split)
qed

subsection \<open>The server as a machine of sockets\<close>

text \<open>What an input does to the sockets, as inputs of the socket server.\<close>

definition let_through :: "nat \<Rightarrow> string option \<Rightarrow> rate_limiter \<Rightarrow> bool" where
  "let_through now peer l \<longleftrightarrow> fst (fst (check_and_remaining now (client_key peer) l))"

definition ws_inputs :: "'v api_input \<Rightarrow> rate_limiter \<times> api_state \<Rightarrow> ws_input list" where
  "ws_inputs x st = (let (l, s) = st in case x of
     Request rid now t peer node call \<Rightarrow>
       if waiting s rid = None \<and> let_through now peer l then
         (case call of
            PostSimulate req \<Rightarrow> if valid_simulation req then map Publish (pending_events t req) else []
          | GetWs i upgraded \<Rightarrow> [Connect i now upgraded]
          | _ \<Rightarrow> [])
       else []
   | Answered_by rid t node \<Rightarrow>
       (case waiting s rid of None \<Rightarrow> []
        | Some req \<Rightarrow> map Publish (final_events t req (simulation_ok node req)))
   | Socket_turn i now sends turn \<Rightarrow> [Turn i now sends turn]
   | Socket_lag i n \<Rightarrow> [Lagged i n]
   | Sweep_tick now \<Rightarrow> [])"

fun api_run :: "'v json \<Rightarrow> string \<Rightarrow> 'v api_input list \<Rightarrow> rate_limiter \<times> api_state \<Rightarrow> rate_limiter \<times> api_state" where
  "api_run J cid [] st = st"
| "api_run J cid (x # xs) st = api_run J cid xs (api_step J cid x st)"

fun ws_trace :: "'v json \<Rightarrow> string \<Rightarrow> 'v api_input list \<Rightarrow> rate_limiter \<times> api_state \<Rightarrow> ws_input list" where
  "ws_trace J cid [] st = []"
| "ws_trace J cid (x # xs) st = ws_inputs x st @ ws_trace J cid xs (api_step J cid x st)"

lemma fold_publish: "fold ws_step (map Publish es) ws = ws\<lparr>app := fold broadcast_status es (app ws)\<rparr>"
  by (induction es arbitrary: ws) (simp_all add: ws_step_def)

lemma api_request_eq:
  "snd (api_request J node cid rid now t peer call (l, s)) =
    (snd (check_and_remaining now (client_key peer) l),
     if let_through now peer l then snd (api_dispatch J node cid rid now t call s) else s)"
  by (simp add: api_request_def api_rate_limit_middleware_def let_through_def Let_def case_prod_beta)

lemma dispatch_sockets:
  "sockets (snd (api_dispatch J node cid rid now t call s)) = fold ws_step
     (case call of
        PostSimulate req \<Rightarrow> if valid_simulation req then map Publish (pending_events t req) else []
      | GetWs i upgraded \<Rightarrow> [Connect i now upgraded]
      | _ \<Rightarrow> []) (sockets s)"
proof (cases call)
  case (PostSimulate req)
  then show ?thesis
    by (cases "simulate_begin t req (app (sockets s))"; cases "fst (simulate_begin t req (app (sockets s)))")
      (use simulate_begin_eq [of t req "app (sockets s)"] in
        \<open>auto simp: api_dispatch_def fold_publish Let_def\<close>)
next
  case (GetWs i upgraded)
  then show ?thesis by (simp add: api_dispatch_def ws_step_def case_prod_beta Let_def)
qed (simp_all add: api_dispatch_def case_prod_beta Let_def)

lemma step_sockets: "sockets (snd (api_step J cid x st)) = fold ws_step (ws_inputs x st) (sockets (snd st))"
proof -
  obtain l s where st: "st = (l, s)" by (cases st)
  show ?thesis
  proof (cases x)
    case (Request rid now t peer node call)
    then show ?thesis
      using dispatch_sockets [of J node cid rid now t call s]
      by (simp add: st api_step_def ws_inputs_def api_request_eq del: fold_simps split: if_split)
  next
    case (Answered_by rid t node)
    then show ?thesis
      by (auto simp: st api_step_def ws_inputs_def api_resume_def fold_publish Let_def case_prod_beta simulate_end_eq
          split: option.split)
  qed (simp_all add: st api_step_def ws_inputs_def ws_step_def)
qed

lemma run_sockets: "sockets (snd (api_run J cid xs st)) = fold ws_step (ws_trace J cid xs st) (sockets (snd st))"
  by (induction xs arbitrary: st) (simp_all add: step_sockets)

subsection \<open>Status updates end to end\<close>

text \<open>What the handlers have sent on the broadcast channel by the end of a run, in order.\<close>

definition announced :: "'v json \<Rightarrow> string \<Rightarrow> 'v api_input list \<Rightarrow> rate_limiter \<times> api_state \<Rightarrow> tx_event list" where
  "announced J cid xs st = tx_status_sent (app (sockets (snd (api_run J cid xs st))))"

lemma started:
  "api_main sa hv a = Inr (st, cors) \<Longrightarrow> snd st = \<lparr>sockets = ws_start, waiting = (\<lambda>_. None)\<rparr>"
  by (auto simp: api_main_def Let_def split: option.splits if_splits)

lemma run_from_start:
  "api_main sa hv a = Inr (st, cors) \<Longrightarrow> sockets (snd (api_run J cid xs st)) = ws_run (ws_trace J cid xs st)"
  by (simp add: run_sockets started ws_run_def)

lemma announced_trace:
  "api_main sa hv a = Inr (st, cors) \<Longrightarrow> announced J cid xs st = published (ws_trace J cid xs st)"
  by (simp add: announced_def run_sockets run_sent started ws_start_def app_new_def)

lemma turn_in_inputs:
  assumes "Turn i now sends t \<in> set (ws_inputs x st)"
  shows "x = Socket_turn i now sends t"
proof -
  obtain l s where st: "st = (l, s)" by (cases st)
  show ?thesis
  proof (cases x)
    case (Request rid now' t' peer node call)
    then show ?thesis using assms by (cases call) (auto simp: ws_inputs_def st split: if_splits)
  next
    case (Answered_by rid t' node)
    then show ?thesis using assms by (cases "waiting s rid") (auto simp: ws_inputs_def st)
  qed (use assms in \<open>simp_all add: ws_inputs_def st\<close>)
qed

lemma turn_in_trace: "Turn i now sends t \<in> set (ws_trace J cid xs st) \<Longrightarrow> Socket_turn i now sends t \<in> set xs"
proof (induction xs arbitrary: st)
  case (Cons x xs)
  then consider "Turn i now sends t \<in> set (ws_inputs x st)"
    | "Turn i now sends t \<in> set (ws_trace J cid xs (api_step J cid x st))" by auto
  then show ?case by cases (use turn_in_inputs Cons.IH in \<open>fastforce+\<close>)
qed simp

text \<open>
  C14. End to end: whatever requests, answers of the node, socket turns, losses and sweeps the server
  goes through after its start, what an open socket has been sent is a subsequence of the events
  that admitted, valid simulations announced, in their order and without repetition, and every one
  of them is of an id for which this socket sent a subscription.
\<close>
theorem status_updates_end_to_end:
  assumes "api_main sa hv a = Inr (st, cors)"
    and "conns (sockets (snd (api_run J cid xs st))) i = Some c"
  shows "subseq (updates (sent c)) (announced J cid xs st)
    \<and> (\<forall>e\<in>set (updates (sent c)). \<exists>now sends.
         Socket_turn i now sends (Received (TextMsg (Some (''subscribe'', tx_id e)))) \<in> set xs)"
proof -
  let ?ws = "ws_trace J cid xs st"
  have "conns (ws_run ?ws) i = Some c" using assms(2) by (simp only: run_from_start [OF assms(1)])
  from ws_delivery [OF this] have sub: "subseq (updates (sent c)) (announced J cid xs st)"
    and ask: "\<And>e. e \<in> set (updates (sent c)) \<Longrightarrow>
      \<exists>now sends. Turn i now sends (Received (TextMsg (Some (''subscribe'', tx_id e)))) \<in> set ?ws"
    by (simp_all add: announced_trace [OF assms(1)] asked_for_def)
  show ?thesis
  proof (intro conjI ballI sub)
    fix e
    assume "e \<in> set (updates (sent c))"
    then obtain now sends where "Turn i now sends (Received (TextMsg (Some (''subscribe'', tx_id e)))) \<in> set ?ws"
      using ask by blast
    from turn_in_trace [OF this] show "\<exists>now sends.
        Socket_turn i now sends (Received (TextMsg (Some (''subscribe'', tx_id e)))) \<in> set xs" by blast
  qed
qed

subsection \<open>Every simulation announces one outcome\<close>

definition pendings :: "string \<Rightarrow> tx_event list \<Rightarrow> nat" where
  "pendings tid es = length (filter (\<lambda>e. tx_id e = tid \<and> tx_status e = TxPending) es)"

definition outcomes :: "string \<Rightarrow> tx_event list \<Rightarrow> nat" where
  "outcomes tid es = length (filter (\<lambda>e. tx_id e = tid \<and> (tx_status e = TxConfirmed \<or> tx_status e = TxFailed)) es)"

definition waiting_for :: "string \<Rightarrow> api_state \<Rightarrow> nat set" where
  "waiting_for tid s = {rid. \<exists>req. waiting s rid = Some req \<and> req_tx_id req = Some tid}"

definition balanced :: "string \<Rightarrow> tx_event list \<Rightarrow> api_state \<Rightarrow> bool" where
  "balanced tid es s \<longleftrightarrow> finite (waiting_for tid s)
     \<and> pendings tid es = outcomes tid es + card (waiting_for tid s)"

lemma event_counts [simp]:
  "pendings tid [] = 0" "outcomes tid [] = 0"
  "pendings tid (xs @ ys) = pendings tid xs + pendings tid ys"
  "outcomes tid (xs @ ys) = outcomes tid xs + outcomes tid ys"
  by (simp_all add: pendings_def outcomes_def)

lemma simulation_counts:
  assumes "tid \<noteq> []"
  shows "pendings tid (pending_events t req) = (if req_tx_id req = Some tid then 1 else 0)"
    "outcomes tid (pending_events t req) = 0"
    "pendings tid (final_events t req ok) = 0"
    "outcomes tid (final_events t req ok) = (if req_tx_id req = Some tid then 1 else 0)"
  using assms by (auto simp: pendings_def outcomes_def pending_events_def final_events_def status_event_def
      option_filter_def split: option.split)

declare published_append [simp]

lemma published_simps [simp]:
  "published [] = []" "published (map Publish es) = es" "published [Connect i now u] = []"
  "published [Turn i now sends t] = []" "published [Lagged i n] = []"
  by (induction es) (simp_all add: published_def List.map_filter_def)

lemma step_waiting:
  "waiting (snd (api_step J cid x st)) = (case x of
     Request rid now t peer node call \<Rightarrow>
       (case call of PostSimulate req \<Rightarrow>
          if waiting (snd st) rid = None \<and> let_through now peer (fst st) \<and> valid_simulation req
          then (waiting (snd st))(rid := Some req) else waiting (snd st)
        | _ \<Rightarrow> waiting (snd st))
   | Answered_by rid t node \<Rightarrow> (waiting (snd st))(rid := None)
   | _ \<Rightarrow> waiting (snd st))"
proof -
  obtain l s where st: "st = (l, s)" by (cases st)
  show ?thesis
  proof (cases x)
    case (Request rid now t peer node call)
    have "waiting (snd (api_dispatch J node cid rid now t call s)) = (case call of PostSimulate req \<Rightarrow>
        if valid_simulation req then (waiting s)(rid := Some req) else waiting s | _ \<Rightarrow> waiting s)"
    proof (cases call)
      case (PostSimulate req)
      then show ?thesis using simulate_begin_eq(2) [of t req "app (sockets s)"]
        by (cases "simulate_begin t req (app (sockets s))"; cases "fst (simulate_begin t req (app (sockets s)))")
          (auto simp: api_dispatch_def Let_def)
    qed (simp_all add: api_dispatch_def case_prod_beta Let_def)
    then show ?thesis by (simp add: Request st api_step_def api_request_eq split: api_call.split)
  next
    case (Answered_by rid t node)
    then show ?thesis
      by (auto simp: st api_step_def api_resume_def Let_def case_prod_beta fun_eq_iff split: option.split)
  qed (simp_all add: st api_step_def)
qed

lemma balanced_step:
  assumes "balanced tid es (snd st)" "tid \<noteq> []"
  shows "balanced tid (es @ published (ws_inputs x st)) (snd (api_step J cid x st))"
proof -
  obtain l s where st: "st = (l, s)" by (cases st)
  let ?s = "snd (api_step J cid x st)"
  have same: "balanced tid es ?s" if "waiting ?s = waiting s"
    using assms(1) that by (simp add: st balanced_def waiting_for_def)
  show ?thesis
  proof (cases x)
    case (Request rid now t peer node call)
    show ?thesis
    proof (cases "\<exists>req. call = PostSimulate req \<and> waiting s rid = None \<and> let_through now peer l \<and> valid_simulation req")
      case True
      then obtain req where req: "call = PostSimulate req" "waiting s rid = None" "let_through now peer l"
        "valid_simulation req" by blast
      have "waiting ?s = (waiting s)(rid := Some req)" by (simp add: step_waiting Request st req)
      then have "waiting_for tid ?s = (if req_tx_id req = Some tid then insert rid (waiting_for tid s) else waiting_for tid s)"
        "rid \<notin> waiting_for tid s"
        using req(2) by (auto simp: waiting_for_def)
      moreover have "published (ws_inputs x st) = pending_events t req"
        by (simp add: ws_inputs_def Request st req)
      ultimately show ?thesis using assms by (simp add: balanced_def st simulation_counts)
    next
      case False
      then have "published (ws_inputs x st) = []" by (auto simp: ws_inputs_def Request st split: api_call.split)
      moreover have "waiting ?s = waiting s" using False by (auto simp: step_waiting Request st split: api_call.split)
      ultimately show ?thesis using same by simp
    qed
  next
    case (Answered_by rid t node)
    have w: "waiting ?s = (waiting s)(rid := None)" by (simp add: step_waiting Answered_by st)
    show ?thesis
    proof (cases "waiting s rid")
      case None
      then have "waiting ?s = waiting s" by (simp add: w fun_upd_idem)
      then show ?thesis using same None by (simp add: ws_inputs_def Answered_by st)
    next
      case (Some req)
      have set: "waiting_for tid ?s = waiting_for tid s - {rid}"
        and mem: "rid \<in> waiting_for tid s \<longleftrightarrow> req_tx_id req = Some tid"
        using Some by (auto simp: waiting_for_def w)
      have pub: "published (ws_inputs x st) = final_events t req (simulation_ok node req)"
        using Some by (simp add: ws_inputs_def Answered_by st)
      have bal: "finite (waiting_for tid s)" "pendings tid es = outcomes tid es + card (waiting_for tid s)"
        using assms(1) by (simp_all add: balanced_def st)
      show ?thesis
      proof (cases "rid \<in> waiting_for tid s")
        case True
        then show ?thesis
          using bal card_Suc_Diff1 [OF bal(1) True] mem
          by (simp add: balanced_def pub set simulation_counts assms(2))
      next
        case False
        then show ?thesis using bal mem by (simp add: balanced_def pub set simulation_counts assms(2))
      qed
    qed
  next
    case (Socket_turn i now sends turn)
    then have "waiting ?s = waiting s" by (simp add: step_waiting st)
    then show ?thesis using same by (simp add: ws_inputs_def st Socket_turn)
  next
    case (Socket_lag i n)
    then have "waiting ?s = waiting s" by (simp add: step_waiting st)
    then show ?thesis using same by (simp add: ws_inputs_def st Socket_lag)
  next
    case (Sweep_tick now)
    then have "waiting ?s = waiting s" by (simp add: step_waiting st)
    then show ?thesis using same by (simp add: ws_inputs_def st Sweep_tick)
  qed
qed

text \<open>
  C33. In every run from the start, at every moment, the announcements of an id balance: each
  \<open>Pending\<close> is matched by exactly one outcome (confirmed or failed) or by a simulation still waiting
  for the node (or dropped meanwhile because its client left). Rejected and rate-limited requests
  announce nothing.
\<close>
theorem announcements_balance:
  assumes "api_main sa hv a = Inr (st, cors)" "tid \<noteq> []"
  shows "finite (waiting_for tid (snd (api_run J cid xs st)))
    \<and> pendings tid (announced J cid xs st)
        = outcomes tid (announced J cid xs st) + card (waiting_for tid (snd (api_run J cid xs st)))"
proof -
  have "balanced tid (es @ published (ws_trace J cid xs st')) (snd (api_run J cid xs st'))"
    if "balanced tid es (snd st')" for es st'
    using that
  proof (induction xs arbitrary: es st')
    case (Cons x xs)
    from Cons.IH [OF balanced_step [OF Cons.prems assms(2)]] show ?case by simp
  qed simp
  moreover have "balanced tid [] (snd st)" by (simp add: balanced_def waiting_for_def started [OF assms(1)])
  ultimately show ?thesis unfolding announced_trace [OF assms(1)] balanced_def by fastforce
qed

subsection \<open>A run\<close>

text \<open>
  A client connects, subscribes to \<open>t\<close> and receives the event of the start of its simulation; then
  the node answers.
\<close>

definition demo_api_args :: api_args where
  "demo_api_args = \<lparr>api_listen = ''0.0.0.0:8080'', core_id = [], cors_origins = [],
     rate_limit_max_requests = 100, rate_limit_window_secs = 60\<rparr>"

definition demo_start :: "rate_limiter \<times> api_state" where
  "demo_start = (limiter_new \<lparr>max_requests = 100, cfg_window = from_secs 60\<rparr>,
     \<lparr>sockets = ws_start, waiting = (\<lambda>_. None)\<rparr>)"

definition demo_rpc_node :: "jv rpc_node" where
  "demo_rpc_node = \<lparr>node_health = Inl ''down'',
     node_simulate = (\<lambda>_. Inr \<lparr>rpc_result = Some \<lparr>min_resource_fee = ''100'', sim_error = None, sim_events = []\<rparr>,
       rpc_error = None\<rparr>),
     node_routes = (\<lambda>_. Inl (Unreachable ''down'')), node_route = (\<lambda>_. Inl (Unreachable ''down''))\<rparr>"

definition demo_simulate :: simulate_request where
  "demo_simulate = \<lparr>req_target = replicate 56 CHR ''C'', req_function = ''f'', req_amount = 0,
     req_network_load_bps = 0, req_tx_id = Some ''t''\<rparr>"

definition demo_requests :: "jv api_input list" where
  "demo_requests = [Request 0 0 ''0'' None demo_rpc_node (GetWs 0 True),
     Socket_turn 0 1 True (Received (TextMsg (Some (''subscribe'', ''t'')))),
     Request 1 1 ''1'' None demo_rpc_node (PostSimulate demo_simulate),
     Socket_turn 0 2 True Updated,
     Answered_by 1 ''2'' demo_rpc_node]"

lemma demo_main: "api_main (\<lambda>_. True) (\<lambda>_. True) demo_api_args = Inr (demo_start, NoCors)"
  by (simp add: api_main_def demo_api_args_def demo_start_def validate_rate_limit_args_def build_cors_layer_def)

lemma demo_admitted:
  "let_through 0 None (fst demo_start)"
  "let_through 1 None (snd (check_and_remaining 0 (client_key None) (fst demo_start)))"
  by (simp_all add: let_through_def demo_start_def check_and_remaining_def limiter_new_def hit_bucket_def fresh_bucket_def
      client_key_def from_secs_def Let_def)

lemma demo_valid: "valid_simulation demo_simulate"
  by (simp add: valid_simulation_def demo_simulate_def starts_with_C_def numeral_eq_Suc)

definition demo_pending :: tx_event where
  "demo_pending = status_event ''1'' ''t'' TxPending ''simulation started''"

definition demo_confirmed :: tx_event where
  "demo_confirmed = status_event ''2'' ''t'' TxConfirmed ''simulation successful''"

lemma demo_events:
  "pending_events ''1'' demo_simulate = [demo_pending]"
  "final_events ''2'' demo_simulate (simulation_ok demo_rpc_node demo_simulate) = [demo_confirmed]"
  by (simp_all add: pending_events_def final_events_def demo_simulate_def demo_pending_def demo_confirmed_def
      option_filter_def simulation_ok_def demo_rpc_node_def call_simulate_rpc_def)

lemma demo_fst: "fst (api_step jv_json [] (Request 0 0 ''0'' None demo_rpc_node (GetWs 0 True)) demo_start)
    = snd (check_and_remaining 0 (client_key None) (fst demo_start))"
  by (simp add: api_step_def api_request_eq demo_start_def)

lemma demo_waiting: "waiting (snd demo_start) = (\<lambda>_. None)"
  by (simp add: demo_start_def)

lemma ws_inputs_simps:
  "ws_inputs (Request rid now t peer node call) st =
     (if waiting (snd st) rid = None \<and> let_through now peer (fst st) then
         (case call of
            PostSimulate req \<Rightarrow> if valid_simulation req then map Publish (pending_events t req) else []
          | GetWs i upgraded \<Rightarrow> [Connect i now upgraded]
          | _ \<Rightarrow> [])
       else [])"
  "ws_inputs (Answered_by rid t node) st =
     (case waiting (snd st) rid of None \<Rightarrow> []
        | Some req \<Rightarrow> map Publish (final_events t req (simulation_ok node req)))"
  "ws_inputs (Socket_turn i now sends turn) st = [Turn i now sends turn]"
  by (simp_all add: ws_inputs_def case_prod_beta)

lemma fst_socket_turn: "fst (api_step J cid (Socket_turn i now sends turn) st) = fst st"
  by (simp add: api_step_def case_prod_beta)

lemma demo_trace:
  "ws_trace jv_json [] demo_requests demo_start =
    [Connect 0 0 True, Turn 0 1 True (Received (TextMsg (Some (''subscribe'', ''t'')))),
     Publish demo_pending, Turn 0 2 True Updated, Publish demo_confirmed]"
  by (simp add: demo_requests_def ws_inputs_simps step_waiting demo_waiting fst_socket_turn demo_fst demo_admitted
      demo_admitted(2) [simplified] demo_valid demo_events)

lemma demo_conn:
  "conns (sockets (snd (api_run jv_json [] demo_requests demo_start))) 0 =
    Some \<lparr>subscriptions = [''t''], last_activity = 1, sent = [Subscribed ''t'', StatusUpdate demo_pending]\<rparr>"
  by (simp add: run_from_start [OF demo_main] demo_trace ws_run_def ws_step_def ws_handler_def
      try_acquire_ws_connection_def ws_start_def
      app_new_def MAX_WS_CONNECTIONS_def handle_turn_def socket_turn_def on_message_def send_msg_def Let_def
      MAX_SUBSCRIPTIONS_PER_CONNECTION_def on_update_def broadcast_status_def add_subscriber_def
      demo_pending_def demo_confirmed_def status_event_def)

lemma status_updates_end_to_end_witness:
  "subseq [demo_pending] (announced jv_json [] demo_requests demo_start)
    \<and> (\<exists>now sends. Socket_turn 0 now sends (Received (TextMsg (Some (''subscribe'', ''t'')))) \<in> set demo_requests)"
  using status_updates_end_to_end [OF demo_main demo_conn]
  by (simp add: updates_def List.map_filter_def demo_pending_def status_event_def)

lemma announcements_balance_witness:
  "pendings ''t'' (announced jv_json [] demo_requests demo_start) = 1
    \<and> outcomes ''t'' (announced jv_json [] demo_requests demo_start)
      + card (waiting_for ''t'' (snd (api_run jv_json [] demo_requests demo_start))) = 1"
proof -
  have "pendings ''t'' (announced jv_json [] demo_requests demo_start) = 1"
    by (simp add: announced_trace [OF demo_main] demo_trace published_def List.map_filter_def pendings_def demo_pending_def
        demo_confirmed_def status_event_def)
  then show ?thesis using announcements_balance [OF demo_main, of "''t''" jv_json "[]" demo_requests] by simp
qed

end
