(* ===== verification/Api_Tasks.thy ===== *)
theory Api_Tasks
  imports Api_Props
begin

text \<open>
  The counts of subscribers when the sockets run side by side (\<open>websocket.rs\<close>, \<open>state.rs\<close>).
  Every socket is a task of a multi-threaded runtime: between any two accesses of one task to the
  shared map of counts, the other tasks may make theirs. A turn of a socket does its local part at
  once and leaves its accesses to be made one by one.
\<close>

subsection \<open>The tasks\<close>

datatype map_access = AddSubscriber string | GetSubscriber string | DropSubscriber string | ReleaseSlot

text \<open>One access of the task of socket \<open>i\<close>: what it still has to do after it, and the new state.\<close>

definition map_access_step :: "nat \<Rightarrow> map_access \<Rightarrow> app_state \<Rightarrow> map_access list \<times> app_state" where
  "map_access_step i x a =
     (case x of
        AddSubscriber tx \<Rightarrow> ([], add_subscriber tx a)
      | GetSubscriber tx \<Rightarrow>
          (let (last, a) = remove_subscriber_get tx a in (if last then [DropSubscriber tx] else [], a))
      | DropSubscriber tx \<Rightarrow> ([], remove_subscriber_drop tx a)
      | ReleaseSlot \<Rightarrow>
          (let a = release_ws_connection a in ([], a\<lparr>tx_status_tx := (tx_status_tx a)(i := None)\<rparr>)))"

text \<open>
  The accesses of a turn: of the message, and of the clean-up when the loop ends (\<open>go\<close> is
  \<open>False\<close>), with \<open>c'\<close> the locals by then. That these are the accesses of \<open>handle_turn\<close> is
  \<open>turn_uninterrupted\<close> below.
\<close>

definition turn_accesses :: "ws_turn \<Rightarrow> ws_conn \<Rightarrow> bool \<Rightarrow> ws_conn \<Rightarrow> map_access list" where
  "turn_accesses t c go c' =
     (case t of
        Received (TextMsg (Some (action, tx))) \<Rightarrow>
          if action = ''subscribe'' then
            (if length (subscriptions c) \<ge> MAX_SUBSCRIPTIONS_PER_CONNECTION then [] else [AddSubscriber tx])
          else if action = ''unsubscribe'' then [GetSubscriber tx]
          else []
      | _ \<Rightarrow> [])
     @ (if go then [] else map GetSubscriber (subscriptions c') @ [ReleaseSlot])"

record ws_tasks =
  server :: ws_server
  todo :: "nat \<Rightarrow> map_access list"

definition tasks_start :: ws_tasks where
  "tasks_start = \<lparr>server = ws_start, todo = (\<lambda>_. [])\<rparr>"

datatype task_step = Arrive ws_input | Access nat

definition begin_turn :: "nat \<Rightarrow> nat \<Rightarrow> bool \<Rightarrow> ws_turn \<Rightarrow> ws_tasks \<Rightarrow> ws_tasks" where
  "begin_turn i now sends t s =
     (case conns (server s) i of
        None \<Rightarrow> s
      | Some c \<Rightarrow>
          (let (go, c', a) = socket_turn i now sends t (c, app (server s))
           in s\<lparr>server := (server s)
                 \<lparr>app := a\<lparr>tx_subscribers := tx_subscribers (app (server s))\<rparr>,
                  conns := (conns (server s))(i := if go then Some c' else None)\<rparr>,
               todo := (todo s)(i := turn_accesses t c go c')\<rparr>))"

definition task_step :: "task_step \<Rightarrow> ws_tasks \<Rightarrow> ws_tasks" where
  "task_step x s =
     (case x of
        Arrive (Turn i now sends t) \<Rightarrow> if todo s i = [] then begin_turn i now sends t s else s
      | Arrive (Connect i now upgraded) \<Rightarrow>
          if todo s i = [] then s\<lparr>server := ws_step (Connect i now upgraded) (server s)\<rparr> else s
      | Arrive y \<Rightarrow> s\<lparr>server := ws_step y (server s)\<rparr>
      | Access i \<Rightarrow>
          (case todo s i of
             [] \<Rightarrow> s
           | y # ys \<Rightarrow>
               (let (zs, a) = map_access_step i y (app (server s))
                in s\<lparr>server := (server s)\<lparr>app := a\<rparr>, todo := (todo s)(i := zs @ ys)\<rparr>)))"

definition tasks_run :: "task_step list \<Rightarrow> ws_tasks" where
  "tasks_run xs = fold task_step xs tasks_start"

subsection \<open>Without interruption a turn is the turn of the server\<close>

fun finish :: "nat \<Rightarrow> map_access list \<Rightarrow> app_state \<Rightarrow> app_state" where
  "finish i [] a = a"
| "finish i (AddSubscriber tx # xs) a = finish i xs (add_subscriber tx a)"
| "finish i (GetSubscriber tx # xs) a = finish i xs (remove_subscriber tx a)"
| "finish i (DropSubscriber tx # xs) a = finish i xs (remove_subscriber_drop tx a)"
| "finish i (ReleaseSlot # xs) a = finish i xs (snd (map_access_step i ReleaseSlot a))"

lemma finish_append: "finish i (xs @ ys) a = finish i ys (finish i xs a)"
  by (induction i xs a rule: finish.induct) simp_all

lemma finish_gets: "finish i (map GetSubscriber ts) a = fold remove_subscriber ts a"
  by (induction ts arbitrary: a) simp_all

lemma access_todo:
  assumes "todo s i = x # xs" "map_access_step i x (app (server s)) = (ys, a)"
  shows "task_step (Access i) s = s\<lparr>server := (server s)\<lparr>app := a\<rparr>, todo := (todo s)(i := ys @ xs)\<rparr>"
  using assms by (simp add: task_step_def)

lemma access_alone:
  "todo s i = xs \<Longrightarrow> \<exists>k. fold task_step (replicate k (Access i)) s
     = s\<lparr>server := (server s)\<lparr>app := finish i xs (app (server s))\<rparr>, todo := (todo s)(i := [])\<rparr>"
proof (induction xs arbitrary: s)
  case Nil
  then have "(todo s)(i := []) = todo s" by auto
  with Nil show ?case by (intro exI [of _ 0]) simp
next
  case (Cons x xs)
  have next_step: ?case
    if a: "map_access_step i x (app (server s)) = ([], a)" "finish i (x # xs) (app (server s)) = finish i xs a" for a
  proof -
    let ?s = "task_step (Access i) s"
    have s: "?s = s\<lparr>server := (server s)\<lparr>app := a\<rparr>, todo := (todo s)(i := xs)\<rparr>"
      using access_todo [OF Cons.prems a(1)] by simp
    then have "todo ?s i = xs" by simp
    from Cons.IH [OF this] obtain k where k: "fold task_step (replicate k (Access i)) ?s
        = ?s\<lparr>server := (server ?s)\<lparr>app := finish i xs (app (server ?s))\<rparr>, todo := (todo ?s)(i := [])\<rparr>" by blast
    have "\<dots> = s\<lparr>server := (server s)\<lparr>app := finish i (x # xs) (app (server s))\<rparr>, todo := (todo s)(i := [])\<rparr>"
      unfolding s using a(2) by simp
    with k have "fold task_step (Access i # replicate k (Access i)) s
        = s\<lparr>server := (server s)\<lparr>app := finish i (x # xs) (app (server s))\<rparr>, todo := (todo s)(i := [])\<rparr>"
      by (simp only: fold_simps)
    then show ?thesis unfolding replicate_Suc [symmetric] by blast
  qed
  show ?case
  proof (cases x)
    case (GetSubscriber tx)
    obtain last a where g: "remove_subscriber_get tx (app (server s)) = (last, a)" by force
    show ?thesis
    proof (cases last)
      case True
      let ?s = "task_step (Access i) s" and ?t = "task_step (Access i) (task_step (Access i) s)"
      have s: "?s = s\<lparr>server := (server s)\<lparr>app := a\<rparr>, todo := (todo s)(i := DropSubscriber tx # xs)\<rparr>"
        using access_todo [OF Cons.prems, of "[DropSubscriber tx]" a] GetSubscriber g True
        by (simp add: map_access_step_def)
      then have t: "?t = s\<lparr>server := (server s)\<lparr>app := remove_subscriber_drop tx a\<rparr>, todo := (todo s)(i := xs)\<rparr>"
        using access_todo [of ?s i "DropSubscriber tx" xs "[]" "remove_subscriber_drop tx a"]
        by (simp add: map_access_step_def)
      then have "todo ?t i = xs" by simp
      from Cons.IH [OF this] obtain k where k: "fold task_step (replicate k (Access i)) ?t
        = ?t\<lparr>server := (server ?t)\<lparr>app := finish i xs (app (server ?t))\<rparr>, todo := (todo ?t)(i := [])\<rparr>" by blast
      have "\<dots> = s\<lparr>server := (server s)\<lparr>app := finish i (x # xs) (app (server s))\<rparr>, todo := (todo s)(i := [])\<rparr>"
        unfolding t using g True by (simp add: GetSubscriber remove_subscriber_def)
      with k have "fold task_step (Access i # Access i # replicate k (Access i)) s
          = s\<lparr>server := (server s)\<lparr>app := finish i (x # xs) (app (server s))\<rparr>, todo := (todo s)(i := [])\<rparr>"
        by (simp only: fold_simps)
      then show ?thesis unfolding replicate_Suc [symmetric] by blast
    next
      case False
      with g GetSubscriber show ?thesis
        by (intro next_step [of a]) (simp_all add: map_access_step_def remove_subscriber_def)
    qed
  qed (rule next_step; simp add: map_access_step_def Let_def)+
qed

lemma turn_finished:
  assumes "socket_turn i now sends t (c, a) = (go, c', a')"
  shows "finish i (turn_accesses t c go c') (a'\<lparr>tx_subscribers := tx_subscribers a\<rparr>)
    = (if go then a' else ws_cleanup i c' a')"
proof -
  have rest: "finish i (if go then [] else map GetSubscriber (subscriptions c') @ [ReleaseSlot]) x
      = (if go then x else ws_cleanup i c' x)" for x
    by (simp add: finish_append finish_gets map_access_step_def ws_cleanup_def Let_def)
  have first: "finish i (turn_accesses t c True c') (a'\<lparr>tx_subscribers := tx_subscribers a\<rparr>) = a'"
    using assms
  proof (cases rule: socket_turn_cases)
    case same
    then have "turn_accesses t c True c' = []"
      by (auto simp: turn_accesses_def not_le split: ws_turn.splits ws_message.splits option.splits)
    with same(2) show ?thesis by simp
  next
    case (sub x)
    then have "turn_accesses t c True c' = [AddSubscriber x]" by (simp add: turn_accesses_def)
    moreover have "a'\<lparr>tx_subscribers := tx_subscribers a\<rparr> = a" using sub by (simp add: add_subscriber_def)
    ultimately show ?thesis by (simp only: finish.simps sub(4) [symmetric])
  next
    case (unsub x)
    then have "turn_accesses t c True c' = [GetSubscriber x]" by (simp add: turn_accesses_def)
    moreover have "a'\<lparr>tx_subscribers := tx_subscribers a\<rparr> = a"
      using unsub by (auto simp: remove_subscriber_unfold split: option.split)
    ultimately show ?thesis by (simp only: finish.simps unsub(3) [symmetric])
  qed
  have "turn_accesses t c go c' = turn_accesses t c True c'
      @ (if go then [] else map GetSubscriber (subscriptions c') @ [ReleaseSlot])"
    by (simp add: turn_accesses_def)
  then show ?thesis by (simp only: finish_append first rest)
qed

lemma turn_uninterrupted:
  assumes "todo s i = []"
  shows "\<exists>k. fold task_step (Arrive (Turn i now sends t) # replicate k (Access i)) s
    = s\<lparr>server := ws_step (Turn i now sends t) (server s)\<rparr>"
proof (cases "conns (server s) i")
  case None
  with assms show ?thesis
    by (intro exI [of _ 0]) (simp add: task_step_def begin_turn_def ws_step_def handle_turn_def)
next
  case (Some c)
  obtain go c' a' where st: "socket_turn i now sends t (c, app (server s)) = (go, c', a')" by (metis prod_cases3)
  let ?s = "task_step (Arrive (Turn i now sends t)) s"
  have s: "?s = s\<lparr>server := (server s)\<lparr>app := a'\<lparr>tx_subscribers := tx_subscribers (app (server s))\<rparr>,
        conns := (conns (server s))(i := if go then Some c' else None)\<rparr>,
      todo := (todo s)(i := turn_accesses t c go c')\<rparr>"
    using assms Some st by (simp add: task_step_def begin_turn_def)
  then have "todo ?s i = turn_accesses t c go c'" by simp
  from access_alone [OF this] obtain k where k: "fold task_step (replicate k (Access i)) ?s
      = ?s\<lparr>server := (server ?s)\<lparr>app := finish i (turn_accesses t c go c') (app (server ?s))\<rparr>,
          todo := (todo ?s)(i := [])\<rparr>" by blast
  have "\<dots> = s\<lparr>server := ws_step (Turn i now sends t) (server s)\<rparr>"
    unfolding s using assms Some st
    by (simp add: turn_finished [OF st] ws_step_def handle_turn_def fun_upd_idem)
  with k show ?thesis by (metis fold_simps(2))
qed

subsection \<open>Counts and holders\<close>

text \<open>
  A socket holds its share of the count of an id from its access for the subscription to the one
  for the removal; it is dropping the id between the two accesses of a removal that found the last
  share.
\<close>

definition held :: "string \<Rightarrow> ws_tasks \<Rightarrow> nat \<Rightarrow> bool" where
  "held x s i \<longleftrightarrow> AddSubscriber x \<notin> set (todo s i)
    \<and> (GetSubscriber x \<in> set (todo s i) \<or> (\<exists>c. conns (server s) i = Some c \<and> x \<in> set (subscriptions c)))"

definition dropping :: "string \<Rightarrow> ws_tasks \<Rightarrow> nat \<Rightarrow> bool" where
  "dropping x s i \<longleftrightarrow> (\<exists>ys. todo s i = DropSubscriber x # ys)"

definition holders :: "string \<Rightarrow> ws_tasks \<Rightarrow> nat set" where
  "holders x s = {i. held x s i}"

definition droppers :: "string \<Rightarrow> ws_tasks \<Rightarrow> nat set" where
  "droppers x s = {i. dropping x s i}"

definition sub_count :: "string \<Rightarrow> ws_tasks \<Rightarrow> nat" where
  "sub_count x s = unwrap_or (tx_subscribers (app (server s)) x) 0"

text \<open>Orderly clients, and the steps in which a removal drops an entry that has been raised since.\<close>

definition orderly_task :: "task_step \<Rightarrow> ws_tasks \<Rightarrow> bool" where
  "orderly_task x s = (case x of Arrive y \<Rightarrow> orderly y (server s) | Access i \<Rightarrow> True)"

fun orderly_tasks :: "task_step list \<Rightarrow> ws_tasks \<Rightarrow> bool" where
  "orderly_tasks [] s = True"
| "orderly_tasks (x # xs) s = (orderly_task x s \<and> orderly_tasks xs (task_step x s))"

definition lossy :: "task_step \<Rightarrow> ws_tasks \<Rightarrow> bool" where
  "lossy x s \<longleftrightarrow> (\<exists>i tx. x = Access i \<and> dropping tx s i \<and> sub_count tx s \<noteq> 1)"

fun loss_free :: "task_step list \<Rightarrow> ws_tasks \<Rightarrow> bool" where
  "loss_free [] s = True"
| "loss_free (x # xs) s = (\<not> lossy x s \<and> loss_free xs (task_step x s))"

text \<open>The shape of what a task has to do, with the locals of its socket.\<close>

primrec removal :: "map_access \<Rightarrow> bool" where
  "removal (AddSubscriber x) = False"
| "removal (GetSubscriber x) = True"
| "removal (DropSubscriber x) = False"
| "removal ReleaseSlot = True"

definition todo_ok :: "ws_conn option \<Rightarrow> map_access list \<Rightarrow> bool" where
  "todo_ok c xs \<longleftrightarrow> distinct xs \<and> list_all removal (tl xs)
    \<and> (\<forall>x. AddSubscriber x \<in> set xs \<longrightarrow> GetSubscriber x \<in> set xs \<or> (\<exists>d. c = Some d \<and> x \<in> set (subscriptions d)))
    \<and> (\<forall>x d. c = Some d \<and> GetSubscriber x \<in> set xs \<longrightarrow> x \<notin> set (subscriptions d))"

definition tasks_ok :: "ws_tasks \<Rightarrow> bool" where
  "tasks_ok s \<longleftrightarrow> finite (dom (conns (server s))) \<and> finite {i. todo s i \<noteq> []}
    \<and> (\<forall>i. todo_ok (conns (server s) i) (todo s i))
    \<and> (\<forall>c\<in>ran (conns (server s)). distinct (subscriptions c))
    \<and> (\<forall>x. tx_subscribers (app (server s)) x \<noteq> Some 0)"

lemma todo_ok_Nil [simp]: "todo_ok c []"
  by (simp add: todo_ok_def)

lemma todo_ok_ConsD: "todo_ok c (x # xs) \<Longrightarrow> x \<notin> set xs \<and> distinct xs \<and> list_all removal xs"
  by (simp add: todo_ok_def)

lemma removals_only: "list_all removal xs \<Longrightarrow> AddSubscriber x \<notin> set xs \<and> DropSubscriber x \<notin> set xs"
  by (auto simp: list_all_iff)

lemma todo_ok_tl:
  assumes "todo_ok c (x # xs)"
  shows "todo_ok c xs" and "todo_ok c (DropSubscriber y # xs)"
proof -
  from todo_ok_ConsD [OF assms] have xs: "distinct xs" "list_all removal xs" by simp_all
  moreover have "list_all removal (tl xs)" using xs(2) by (cases xs) simp_all
  moreover have "\<forall>y d. c = Some d \<and> GetSubscriber y \<in> set xs \<longrightarrow> y \<notin> set (subscriptions d)"
    using assms by (simp add: todo_ok_def)
  ultimately show "todo_ok c xs" "todo_ok c (DropSubscriber y # xs)"
    using removals_only [OF xs(2)] by (simp_all add: todo_ok_def)
qed

lemma turn_accesses_cases:
  assumes "socket_turn i now sends t (c, a) = (go, c', a')"
  obtains (same) "subscriptions c' = subscriptions c"
      "turn_accesses t c go c' = (if go then [] else map GetSubscriber (subscriptions c') @ [ReleaseSlot])"
    | (sub) x where "t = Received (TextMsg (Some (''subscribe'', x)))" "subscriptions c' = List.insert x (subscriptions c)"
      "turn_accesses t c go c' = AddSubscriber x
         # (if go then [] else map GetSubscriber (subscriptions c') @ [ReleaseSlot])"
    | (unsub) x where "t = Received (TextMsg (Some (''unsubscribe'', x)))" "subscriptions c' = removeAll x (subscriptions c)"
      "turn_accesses t c go c' = GetSubscriber x
         # (if go then [] else map GetSubscriber (subscriptions c') @ [ReleaseSlot])"
  using assms
proof (cases rule: socket_turn_cases)
  case same
  then show thesis using that(1)
    by (auto simp: turn_accesses_def not_le split: ws_turn.splits ws_message.splits option.splits)
next
  case (sub x)
  then show thesis by (intro that(2) [of x]) (simp_all add: turn_accesses_def)
next
  case (unsub x)
  then show thesis by (intro that(3) [of x]) (simp_all add: turn_accesses_def)
qed

lemma list_all_gets [simp]: "list_all removal (map GetSubscriber ts)"
  by (simp add: list_all_iff)

lemma list_all_tl: "list_all P xs \<Longrightarrow> list_all P (tl xs)"
  by (cases xs) simp_all

lemma todo_ok_turn:
  assumes "socket_turn i now sends t (c, a) = (go, c', a')" "distinct (subscriptions c)"
    and "\<And>x. t = Received (TextMsg (Some (''subscribe'', x))) \<Longrightarrow> x \<notin> set (subscriptions c)"
    and "\<And>x. t = Received (TextMsg (Some (''unsubscribe'', x))) \<Longrightarrow> x \<in> set (subscriptions c)"
  shows "distinct (subscriptions c')
    \<and> todo_ok (if go then Some c' else None) (turn_accesses t c go c')
    \<and> (\<forall>x. (AddSubscriber x \<notin> set (turn_accesses t c go c')
          \<and> (GetSubscriber x \<in> set (turn_accesses t c go c') \<or> (go \<and> x \<in> set (subscriptions c'))))
        \<longleftrightarrow> x \<in> set (subscriptions c))
    \<and> (\<forall>x ys. turn_accesses t c go c' \<noteq> DropSubscriber x # ys)"
  using assms(1)
proof (cases rule: turn_accesses_cases)
  case same
  have "list_all removal (tl (map GetSubscriber (subscriptions c) @ [ReleaseSlot]))"
    by (intro list_all_tl) simp
  moreover have "map GetSubscriber (subscriptions c) @ [ReleaseSlot] \<noteq> DropSubscriber x # ys" for x ys
    by (cases "subscriptions c") simp_all
  ultimately show ?thesis using same assms(2) by (auto simp: todo_ok_def distinct_map inj_on_def)
next
  case (sub x)
  with assms(2,3) show ?thesis by (auto simp: todo_ok_def distinct_map inj_on_def List.insert_def)
next
  case (unsub x)
  with assms(2,4) show ?thesis by (auto simp: todo_ok_def distinct_map inj_on_def distinct_removeAll)
qed

text \<open>A set that changes at one place.\<close>

lemma card_change:
  assumes "finite {j. P j}" and "\<And>j. j \<noteq> i \<Longrightarrow> P' j = P j"
  shows "finite {j. P' j}" and "card {j. P' j} + of_bool (P i) = card {j. P j} + of_bool (P' i)"
proof -
  have eq: "{j. P' j} = (if P' i then insert i ({j. P j} - {i}) else {j. P j} - {i})"
  proof (rule set_eqI)
    fix j
    show "j \<in> {j. P' j} \<longleftrightarrow> j \<in> (if P' i then insert i ({j. P j} - {i}) else {j. P j} - {i})"
      using assms(2) [of j] by (cases "j = i") auto
  qed
  have "finite (if P' i then insert i ({j. P j} - {i}) else {j. P j} - {i})" using assms(1) by simp
  then show "finite {j. P' j}" by (simp only: eq)
  have "card {j. P j} = card ({j. P j} - {i}) + of_bool (P i)"
  proof (cases "P i")
    case True
    with assms(1) have "card {j. P j} = Suc (card ({j. P j} - {i}))" by (intro card.remove) simp_all
    with True show ?thesis by (simp only: of_bool_eq Suc_eq_plus1)
  next
    case False
    then have "{j. P j} - {i} = {j. P j}" by auto
    with False show ?thesis by (simp only: of_bool_eq add_0_right)
  qed
  moreover have "card {j. P' j} = card ({j. P j} - {i}) + of_bool (P' i)"
  proof (cases "P' i")
    case True
    then have "{j. P' j} = insert i ({j. P j} - {i})" using eq by (simp only: if_True)
    moreover have "card (insert i ({j. P j} - {i})) = Suc (card ({j. P j} - {i}))"
      using assms(1) by (intro card_insert_disjoint) simp_all
    ultimately show ?thesis using True by (simp only: of_bool_eq Suc_eq_plus1)
  next
    case False
    then have "{j. P' j} = {j. P j} - {i}" using eq by (simp only: if_False)
    with False show ?thesis by (simp only: of_bool_eq add_0_right)
  qed
  ultimately show "card {j. P' j} + of_bool (P i) = card {j. P j} + of_bool (P' i)" by simp
qed

lemma finite_holders:
  assumes "tasks_ok s"
  shows "finite {i. held x s i}" "finite {i. dropping x s i}"
proof -
  have fin: "finite (dom (conns (server s)) \<union> {i. todo s i \<noteq> []})" using assms by (simp add: tasks_ok_def)
  show "finite {i. held x s i}" by (rule finite_subset [OF _ fin]) (auto simp: held_def)
  show "finite {i. dropping x s i}" by (rule finite_subset [OF _ fin]) (auto simp: dropping_def)
qed

definition within_holders :: "ws_tasks \<Rightarrow> bool" where
  "within_holders s \<longleftrightarrow> (\<forall>x. sub_count x s \<le> card (holders x s) + card (droppers x s))"

definition exact_holders :: "ws_tasks \<Rightarrow> bool" where
  "exact_holders s \<longleftrightarrow> (\<forall>x. sub_count x s = card (holders x s) + card (droppers x s))"

definition step_keeps :: "ws_tasks \<Rightarrow> ws_tasks \<Rightarrow> bool \<Rightarrow> bool" where
  "step_keeps s s' loss \<longleftrightarrow> tasks_ok s' \<and> (within_holders s \<longrightarrow> within_holders s')
     \<and> (exact_holders s \<and> \<not> loss \<longrightarrow> exact_holders s')"

lemma keeps_same:
  assumes "tasks_ok s'" "\<And>x i. held x s' i = held x s i" "\<And>x i. dropping x s' i = dropping x s i"
    and "tx_subscribers (app (server s')) = tx_subscribers (app (server s))"
  shows "step_keeps s s' loss"
  using assms by (simp add: step_keeps_def within_holders_def exact_holders_def holders_def droppers_def sub_count_def)

text \<open>An access of task \<open>i\<close>: its effect on the count of every id, and on its own place.\<close>

lemma keeps_access:
  assumes ok: "tasks_ok s" and ok': "tasks_ok s'"
    and other: "\<And>x j. j \<noteq> i \<Longrightarrow> held x s' j = held x s j \<and> dropping x s' j = dropping x s j"
    and low: "\<And>x. within_holders s \<Longrightarrow>
      int (sub_count x s') - int (sub_count x s) \<le> of_bool (held x s' i) - of_bool (held x s i)
        + of_bool (dropping x s' i) - of_bool (dropping x s i) \<or> sub_count x s' = 0"
    and eq: "\<And>x. exact_holders s \<Longrightarrow> \<not> loss \<Longrightarrow>
      int (sub_count x s') - int (sub_count x s) = of_bool (held x s' i) - of_bool (held x s i)
        + of_bool (dropping x s' i) - of_bool (dropping x s i)"
  shows "step_keeps s s' loss"
proof -
  have h: "int (card (holders x s')) + of_bool (held x s i) = int (card (holders x s)) + of_bool (held x s' i)" for x
    using card_change(2) [OF finite_holders(1) [OF ok], of i "held x s'" x] other
    unfolding holders_def by (metis (no_types, lifting) of_nat_add of_nat_of_bool)
  have d: "int (card (droppers x s')) + of_bool (dropping x s i) = int (card (droppers x s)) + of_bool (dropping x s' i)" for x
    using card_change(2) [OF finite_holders(2) [OF ok], of i "dropping x s'" x] other
    unfolding droppers_def by (metis (no_types, lifting) of_nat_add of_nat_of_bool)
  have "sub_count x s' \<le> card (holders x s') + card (droppers x s')" if w: "within_holders s" for x
  proof -
    from w have "sub_count x s \<le> card (holders x s) + card (droppers x s)" by (simp add: within_holders_def)
    with low [OF w, of x] h [of x] d [of x] show ?thesis by linarith
  qed
  moreover have "sub_count x s' = card (holders x s') + card (droppers x s')" if e: "exact_holders s" "\<not> loss" for x
  proof -
    from e(1) have "sub_count x s = card (holders x s) + card (droppers x s)" by (simp add: exact_holders_def)
    with eq [OF e, of x] h [of x] d [of x] show ?thesis by linarith
  qed
  ultimately show ?thesis using ok' by (simp add: step_keeps_def within_holders_def exact_holders_def)
qed

lemma access_keeps:
  assumes ok: "tasks_ok s" and todo: "todo s i = y # ys"
  shows "step_keeps s (task_step (Access i) s) (lossy (Access i) s)"
proof -
  obtain zs a where y: "map_access_step i y (app (server s)) = (zs, a)" by force
  let ?s = "task_step (Access i) s"
  have s': "?s = s\<lparr>server := (server s)\<lparr>app := a\<rparr>, todo := (todo s)(i := zs @ ys)\<rparr>"
    by (rule access_todo [OF todo y])
  have wf: "todo_ok (conns (server s) i) (y # ys)" using ok todo unfolding tasks_ok_def by metis
  from todo_ok_ConsD [OF wf] have ys: "y \<notin> set ys" "list_all removal ys" by simp_all
  note only = removals_only [OF ys(2)]
  have other: "held x ?s j = held x s j \<and> dropping x ?s j = dropping x s j" if "j \<noteq> i" for x j
    using that by (simp add: s' held_def dropping_def)
  have drop_ys: "\<not> (\<exists>zs. ys = DropSubscriber x # zs)" for x using only [of x] by auto
  have fin: "finite {j. ((todo s)(i := zs @ ys)) j \<noteq> []}"
    by (rule finite_subset [of _ "insert i {j. todo s j \<noteq> []}"]) (use ok in \<open>auto simp: tasks_ok_def\<close>)
  have wf': "\<And>j. todo_ok (conns (server s) j) (((todo s)(i := zs @ ys)) j)"
    if "zs = [] \<or> (\<exists>x. zs = [DropSubscriber x])"
    using that ok todo_ok_tl [OF wf] by (auto simp: tasks_ok_def)
  have no_zero: "tx_subscribers (app (server s)) x \<noteq> Some 0" for x using ok by (simp add: tasks_ok_def)
  have ok': "tasks_ok ?s" if "zs = [] \<or> (\<exists>x. zs = [DropSubscriber x])" "\<And>x. tx_subscribers a x \<noteq> Some 0"
    using ok fin wf' [OF that(1)] that(2) by (simp add: s' tasks_ok_def)
  show ?thesis
  proof (cases y)
    case (AddSubscriber tx)
    then have a: "zs = []" "a = add_subscriber tx (app (server s))" using y by (simp_all add: map_access_step_def)
    have "tasks_ok ?s" by (rule ok') (use no_zero in \<open>auto simp: a add_subscriber_def split: option.split\<close>)
    moreover have "sub_count x ?s = sub_count x s + of_bool (x = tx)" for x
      by (simp add: sub_count_def s' a add_subscriber_def split: option.split)
    moreover have "held x ?s i = (x = tx \<or> held x s i)" "\<not> held tx s i" for x
      using wf only [of x] by (auto simp: held_def todo s' a AddSubscriber todo_ok_def)
    moreover have "\<not> dropping x ?s i" "\<not> dropping x s i" for x
      using drop_ys [of x] by (auto simp: dropping_def todo s' a AddSubscriber)
    ultimately show ?thesis by (intro keeps_access [OF ok _ other]) auto
  next
    case (GetSubscriber tx)
    have zs: "zs = [] \<or> zs = [DropSubscriber tx]"
      using y GetSubscriber by (auto simp: map_access_step_def split: prod.splits if_splits)
    have before: "held tx s i" "\<not> dropping x s i" for x
      using wf only [of tx] by (auto simp: held_def dropping_def todo GetSubscriber todo_ok_def)
    have after: "held x ?s i = (x \<noteq> tx \<and> held x s i)" "dropping x ?s i = (x = tx \<and> zs \<noteq> [])" for x
      using wf only [of x] ys(1) zs drop_ys [of x]
      by (auto simp: held_def dropping_def s' todo GetSubscriber todo_ok_def)
    have pos: "0 < card (holders tx s)"
      using before(1) finite_holders(1) [OF ok, of tx] by (auto simp: holders_def card_gt_0_iff)
    have counts: "(sub_count tx s = 0 \<and> sub_count tx ?s = 0 \<and> zs = []
        \<or> 1 < sub_count tx s \<and> Suc (sub_count tx ?s) = sub_count tx s \<and> zs = []
        \<or> sub_count tx s = 1 \<and> sub_count tx ?s = 1 \<and> zs \<noteq> [])
      \<and> (\<forall>x. x \<noteq> tx \<longrightarrow> sub_count x ?s = sub_count x s) \<and> (\<forall>x. tx_subscribers a x \<noteq> Some 0)"
    proof (cases "tx_subscribers (app (server s)) tx")
      case None
      with y GetSubscriber have "zs = []" "a = app (server s)"
        by (simp_all add: map_access_step_def remove_subscriber_get_def)
      with None no_zero show ?thesis by (simp add: sub_count_def s')
    next
      case (Some n)
      with no_zero [of tx] have "0 < n" by simp
      show ?thesis
      proof (cases "1 < n")
        case True
        with Some y GetSubscriber have "zs = []"
          "a = app (server s)\<lparr>tx_subscribers := (tx_subscribers (app (server s)))(tx := Some (n - 1))\<rparr>"
          by (simp_all add: map_access_step_def remove_subscriber_get_def)
        with Some True no_zero show ?thesis by (simp add: sub_count_def s')
      next
        case False
        with Some y GetSubscriber have "zs = [DropSubscriber tx]" "a = app (server s)"
          by (simp_all add: map_access_step_def remove_subscriber_get_def)
        with Some False \<open>0 < n\<close> no_zero show ?thesis by (simp add: sub_count_def s')
      qed
    qed
    have "tasks_ok ?s" by (rule ok') (use zs counts in auto)
    then show ?thesis
    proof (rule keeps_access [OF ok _ other])
      fix x
      show "int (sub_count x ?s) - int (sub_count x s) \<le> of_bool (held x ?s i) - of_bool (held x s i)
          + of_bool (dropping x ?s i) - of_bool (dropping x s i) \<or> sub_count x ?s = 0"
        using counts before after by (cases "x = tx") auto
      assume "exact_holders s"
      with pos have "0 < sub_count tx s" by (simp add: exact_holders_def)
      then show "int (sub_count x ?s) - int (sub_count x s) = of_bool (held x ?s i) - of_bool (held x s i)
          + of_bool (dropping x ?s i) - of_bool (dropping x s i)"
        using counts before after by (cases "x = tx") auto
    qed
  next
    case (DropSubscriber tx)
    then have a: "zs = []" "a = remove_subscriber_drop tx (app (server s))"
      using y by (simp_all add: map_access_step_def)
    have "tasks_ok ?s" by (rule ok') (use no_zero in \<open>auto simp: a remove_subscriber_drop_def\<close>)
    moreover have counts: "sub_count x ?s = (if x = tx then 0 else sub_count x s)" for x
      by (simp add: sub_count_def s' a remove_subscriber_drop_def)
    moreover have "held x ?s i = held x s i" for x
      using only [of x] by (auto simp: held_def s' todo a DropSubscriber)
    moreover have drop: "\<not> dropping x ?s i" "dropping x s i = (x = tx)" for x
      using drop_ys [of x] by (auto simp: dropping_def todo s' a DropSubscriber)
    moreover have "sub_count tx s = 1" if "\<not> lossy (Access i) s" using that drop(2) [of tx] by (auto simp: lossy_def)
    ultimately show ?thesis by (intro keeps_access [OF ok _ other]) auto
  next
    case ReleaseSlot
    then have a: "zs = []" "tx_subscribers a = tx_subscribers (app (server s))"
      using y by (auto simp: map_access_step_def Let_def)
    have "tasks_ok ?s" by (rule ok') (use no_zero in \<open>auto simp: a\<close>)
    moreover have "sub_count x ?s = sub_count x s" for x by (simp add: sub_count_def s' a)
    moreover have "held x ?s i = held x s i" "dropping x ?s i = dropping x s i" for x
      using drop_ys [of x] by (auto simp: held_def dropping_def s' todo a ReleaseSlot)
    ultimately show ?thesis by (intro keeps_access [OF ok _ other]) auto
  qed
qed

lemma turn_keeps:
  assumes ok: "tasks_ok s" and todo: "todo s i = []" and orderly: "orderly (Turn i now sends t) (server s)"
  shows "step_keeps s (begin_turn i now sends t s) loss"
proof (cases "conns (server s) i")
  case None
  with ok show ?thesis by (simp add: begin_turn_def step_keeps_def)
next
  case (Some c)
  obtain go c' a where st: "socket_turn i now sends t (c, app (server s)) = (go, c', a)" by (metis prod_cases3)
  let ?s = "begin_turn i now sends t s"
  have s': "?s = s\<lparr>server := (server s)\<lparr>app := a\<lparr>tx_subscribers := tx_subscribers (app (server s))\<rparr>,
        conns := (conns (server s))(i := if go then Some c' else None)\<rparr>,
      todo := (todo s)(i := turn_accesses t c go c')\<rparr>"
    using Some st by (simp add: begin_turn_def)
  have dist: "distinct (subscriptions c)" using ok Some by (auto simp: tasks_ok_def ran_def)
  have turn: "distinct (subscriptions c')"
    "todo_ok (if go then Some c' else None) (turn_accesses t c go c')"
    "\<And>x. (AddSubscriber x \<notin> set (turn_accesses t c go c')
          \<and> (GetSubscriber x \<in> set (turn_accesses t c go c') \<or> (go \<and> x \<in> set (subscriptions c'))))
        \<longleftrightarrow> x \<in> set (subscriptions c)"
    "\<And>x ys. turn_accesses t c go c' \<noteq> DropSubscriber x # ys"
    using todo_ok_turn [OF st dist] orderly Some unfolding orderly_def by blast+
  show ?thesis
  proof (rule keeps_same)
    have "finite {j. ((todo s)(i := turn_accesses t c go c')) j \<noteq> []}"
      by (rule finite_subset [of _ "insert i {j. todo s j \<noteq> []}"]) (use ok in \<open>auto simp: tasks_ok_def\<close>)
    moreover have "finite (dom ((conns (server s))(i := if go then Some c' else None)))"
      using ok by (simp add: tasks_ok_def)
    moreover have "\<forall>d\<in>ran ((conns (server s))(i := if go then Some c' else None)). distinct (subscriptions d)"
      using ok turn(1) by (auto simp: tasks_ok_def ran_def split: if_splits)
    ultimately show "tasks_ok ?s" using ok turn(2) by (cases go) (simp_all add: s' tasks_ok_def)
  next
    fix x j
    show "held x ?s j = held x s j"
      using turn(3) [of x] by (cases "j = i") (auto simp: held_def s' Some todo)
    show "dropping x ?s j = dropping x s j"
      using turn(4) by (cases "j = i") (auto simp: dropping_def s' todo)
  qed (simp add: s')
qed

lemma task_step_keeps:
  assumes "tasks_ok s" "orderly_task x s"
  shows "step_keeps s (task_step x s) (lossy x s)"
proof (cases x)
  case (Access i)
  show ?thesis
  proof (cases "todo s i")
    case Nil
    with assms(1) show ?thesis by (simp add: Access task_step_def step_keeps_def)
  next
    case (Cons y ys)
    with access_keeps [OF assms(1)] show ?thesis by (simp add: Access)
  qed
next
  case (Arrive y)
  have refl: "step_keeps s s loss" for loss using assms(1) by (simp add: step_keeps_def)
  show ?thesis
  proof (cases y)
    case (Turn i now sends t)
    with turn_keeps [OF assms(1)] assms(2) refl show ?thesis by (simp add: Arrive task_step_def orderly_task_def)
  next
    case (Connect i now upgraded)
    show ?thesis
    proof (cases "todo s i = [] \<and> conns (server s) i = None")
      case True
      then show ?thesis unfolding Arrive Connect using assms(1)
        by (intro keeps_same)
          (auto simp: task_step_def ws_step_def ws_handler_def try_acquire_ws_connection_def
            tasks_ok_def held_def dropping_def ran_def)
    next
      case False
      then have "task_step x s = s"
        by (auto simp: Arrive Connect task_step_def ws_step_def)
      with refl show ?thesis by simp
    qed
  next
    case (Publish e)
    with assms(1) show ?thesis unfolding Arrive
      by (intro keeps_same) (auto simp: task_step_def ws_step_def tasks_ok_def held_def dropping_def)
  next
    case (Lagged i n)
    with assms(1) show ?thesis unfolding Arrive
      by (intro keeps_same) (auto simp: task_step_def ws_step_def tasks_ok_def held_def dropping_def)
  qed
qed

lemma start_balanced: "tasks_ok tasks_start" "exact_holders tasks_start"
  by (simp_all add: tasks_ok_def exact_holders_def holders_def droppers_def held_def dropping_def sub_count_def
      tasks_start_def ws_start_def app_new_def)

lemma run_keeps:
  "tasks_ok s \<Longrightarrow> orderly_tasks xs s \<Longrightarrow> within_holders s \<Longrightarrow> within_holders (fold task_step xs s)"
  "tasks_ok s \<Longrightarrow> orderly_tasks xs s \<Longrightarrow> exact_holders s \<Longrightarrow> loss_free xs s \<Longrightarrow> exact_holders (fold task_step xs s)"
proof (induction xs arbitrary: s)
  case (Cons x xs)
  {
    case 1
    with task_step_keeps [of s x] Cons.IH(1) [of "task_step x s"] show ?case by (simp add: step_keeps_def)
  next
    case 2
    with task_step_keeps [of s x] Cons.IH(2) [of "task_step x s"] show ?case by (simp add: step_keeps_def)
  }
qed simp_all

text \<open>
  C27. Clients subscribe to an id only once and unsubscribe only from what they subscribed to; their
  sockets run side by side, with any interleaving of their accesses to the counts. The count of an
  id never exceeds the number of sockets that hold it (plus those between the two accesses of its
  removal), and is exactly that as long as no removal dropped an entry that another socket had
  raised since it was looked at. When no access is under way, the sockets that hold an id are those
  subscribed to it.
\<close>

theorem concurrent_counts:
  assumes "orderly_tasks xs tasks_start"
  shows "sub_count x (tasks_run xs) \<le> card (holders x (tasks_run xs)) + card (droppers x (tasks_run xs))
    \<and> (loss_free xs tasks_start \<longrightarrow>
         sub_count x (tasks_run xs) = card (holders x (tasks_run xs)) + card (droppers x (tasks_run xs)))
    \<and> ((\<forall>i. todo (tasks_run xs) i = []) \<longrightarrow>
         holders x (tasks_run xs) = subscribers x (server (tasks_run xs)) \<and> droppers x (tasks_run xs) = {})"
proof -
  have "within_holders tasks_start" using start_balanced(2) by (simp add: within_holders_def exact_holders_def)
  from run_keeps(1) [OF start_balanced(1) assms this] run_keeps(2) [OF start_balanced(1) assms start_balanced(2)]
  show ?thesis
    by (auto simp: tasks_run_def within_holders_def exact_holders_def holders_def droppers_def held_def dropping_def
        subscribers_def)
qed

text \<open>
  One subscriber of \<open>x\<close> leaves it while another one comes: the second subscribes between the two
  accesses of the removal.
\<close>

definition overlap :: "nat \<Rightarrow> nat \<Rightarrow> string \<Rightarrow> task_step list" where
  "overlap i j x =
     [Arrive (Connect i 0 True), Arrive (Connect j 0 True),
      Arrive (Turn i 1 True (Received (TextMsg (Some (''subscribe'', x))))), Access i,
      Arrive (Turn i 2 True (Received (TextMsg (Some (''unsubscribe'', x))))), Access i,
      Arrive (Turn j 3 True (Received (TextMsg (Some (''subscribe'', x))))), Access j,
      Access i]"

lemmas task_eval = tasks_start_def task_step_def begin_turn_def ws_start_def app_new_def ws_step_def
  ws_handler_def try_acquire_ws_connection_def MAX_WS_CONNECTIONS_def socket_turn_def on_message_def send_msg_def
  MAX_SUBSCRIPTIONS_PER_CONNECTION_def turn_accesses_def map_access_step_def add_subscriber_def
  remove_subscriber_get_def remove_subscriber_drop_def

text \<open>
  The removal then drops the entry of the second socket as well: no access is under way, one socket is
  subscribed, and the id has no count.
\<close>

theorem subscription_lost:
  assumes "i \<noteq> j"
  shows "orderly_tasks (overlap i j x) tasks_start \<and> (\<forall>k. todo (tasks_run (overlap i j x)) k = [])
    \<and> subscribers x (server (tasks_run (overlap i j x))) = {j}
    \<and> tx_subscribers (app (server (tasks_run (overlap i j x)))) x = None"
  using assms
  by (auto simp: overlap_def tasks_run_def orderly_task_def orderly_def subscribers_def task_eval split: if_splits)

lemma concurrent_counts_witness:
  "sub_count ''t'' (tasks_run (take 8 (overlap 0 1 ''t''))) =
     card (holders ''t'' (tasks_run (take 8 (overlap 0 1 ''t'')))) + card (droppers ''t'' (tasks_run (take 8 (overlap 0 1 ''t''))))"
proof -
  have "orderly_tasks (take 8 (overlap 0 1 ''t'')) tasks_start"
    by (simp add: overlap_def orderly_task_def orderly_def task_eval)
  moreover have "loss_free (take 8 (overlap 0 1 ''t'')) tasks_start"
    by (auto simp: overlap_def lossy_def dropping_def task_eval)
  ultimately show ?thesis using concurrent_counts [of "take 8 (overlap 0 1 ''t'')" "''t''"] by blast
qed

end
