(* ===== verification/Exporter_Guards.thy ===== *)
theory Exporter_Guards
  imports Wire Fixed_Window
begin

text \<open>
  What stands in front of the metrics exporter's endpoints (\<open>metrics/src\<close>): the rate limiter
  (\<open>rate_limit.rs\<close>), the API key (\<open>auth.rs\<close>) and the nonce cache
  (\<open>replay_protection.rs\<close>). The process environment is a function from names to values, the
  headers of a request a function from (lower-case) names to the text of the value, itself absent
  when the value is not visible ASCII.
\<close>

type_synonym process_env = "string \<Rightarrow> string option"
type_synonym headers = "string \<Rightarrow> string option option"

text \<open>\<open>env::var(name).ok().and_then(|v| v.parse().ok()).unwrap_or(default)\<close>\<close>

definition env_number :: "process_env \<Rightarrow> string \<Rightarrow> 'n::len word \<Rightarrow> 'n word" where
  "env_number env name d = unwrap_or (Option.bind (env name) parse_unsigned) d"

text \<open>
  \<open>to_lowercase\<close> on the ASCII letters, which is all that comparing the result with
  \<open>"true"\<close> depends on: no other character is lowered to one of its letters.
\<close>

definition to_lowercase :: "string \<Rightarrow> string" where
  "to_lowercase s = map (\<lambda>c. if 65 \<le> (of_char c :: nat) \<and> of_char c \<le> (90 :: nat)
     then char_of (of_char c + 32 :: nat) else c) s"

definition env_flag :: "process_env \<Rightarrow> string \<Rightarrow> bool" where
  "env_flag env name = unwrap_or (map_option (\<lambda>v. to_lowercase v = ''true'') (env name)) False"

text \<open>
  An HTTP answer: a status and a body, or the 429 of the rate limiter with the seconds of its
  \<open>Retry-After\<close>; \<open>Panicked\<close> is a handler that panics, whose connection is closed without an
  answer. A handler is run on the state of the server.
\<close>

datatype reply = Reply nat string | RateLimited nat | Panicked

type_synonym 's handler = "'s \<Rightarrow> reply \<times> 's"

subsection \<open>rate_limit.rs\<close>

record exporter_limit_config =
  xl_max_requests :: u32
  xl_window :: nat
  xl_max_buckets :: nat

record exporter_limiter =
  xl_config :: exporter_limit_config
  xl_buckets :: "string \<Rightarrow> bucket_entry option"
  eviction_order :: "string list"

definition config_from_env :: "process_env \<Rightarrow> exporter_limit_config" where
  "config_from_env env =
     \<lparr>xl_max_requests = env_number env ''ROUTER_RATE_LIMIT_MAX_REQUESTS'' 60,
      xl_window = from_secs (env_number env ''ROUTER_RATE_LIMIT_WINDOW_SECS'' 60),
      xl_max_buckets = unat (env_number env ''ROUTER_RATE_LIMIT_MAX_BUCKETS'' 1024 :: u64)\<rparr>"

definition exporter_limiter_new :: "exporter_limit_config \<Rightarrow> exporter_limiter" where
  "exporter_limiter_new cfg =
     \<lparr>xl_config = cfg\<lparr>xl_max_buckets := max (xl_max_buckets cfg) 1\<rparr>,
      xl_buckets = (\<lambda>_. None), eviction_order = []\<rparr>"

text \<open>\<open>while order.len() > max_buckets\<close>: drop the bucket inserted first.\<close>

fun evict_loop :: "nat \<Rightarrow> string list \<Rightarrow> (string \<Rightarrow> bucket_entry option)
    \<Rightarrow> string list \<times> (string \<Rightarrow> bucket_entry option)" where
  "evict_loop mx [] bs = ([], bs)"
| "evict_loop mx (oldest # order) bs =
     (if length (oldest # order) > mx then evict_loop mx order (bs(oldest := None))
      else (oldest # order, bs))"

text \<open>
  \<open>RateLimiter::check\<close> for one request at a time; \<open>None\<close> is the panic of
  \<open>get_mut(..).unwrap()\<close>. Concurrent requests are below.
\<close>

definition check :: "nat \<Rightarrow> string \<Rightarrow> exporter_limiter \<Rightarrow> (bool \<times> exporter_limiter) option" where
  "check now key l =
     (let inserted = (xl_buckets l key = None);
          bs = (if inserted then (xl_buckets l)(key := Some (fresh_bucket now)) else xl_buckets l)
      in case bs key of
           None \<Rightarrow> None
         | Some e \<Rightarrow>
             (let e = hit_bucket (xl_window (xl_config l)) now e;
                  should_allow = count e \<le> xl_max_requests (xl_config l);
                  bs = bs(key := Some e);
                  (order, bs) =
                    (if inserted
                     then evict_loop (xl_max_buckets (xl_config l)) (eviction_order l @ [key]) bs
                     else (eviction_order l, bs))
              in Some (should_allow, l\<lparr>xl_buckets := bs, eviction_order := order\<rparr>)))"

text \<open>
  The same operation as its accesses to the shared map, each atomic by itself, with no lock held
  between them: the lookup, the insertion, the update, and the eviction, which holds the lock of the
  order throughout and, as every request adds one key and restores the bound, makes one access to the
  map. \<open>Checked None\<close> is a thread that has panicked.
\<close>

datatype check_thread = Looking nat string | Inserting nat string | Hitting nat string bool
  | Ordering string bool | Checked "bool option"

fun check_thread_step :: "check_thread \<times> exporter_limiter \<Rightarrow> check_thread \<times> exporter_limiter" where
  "check_thread_step (Looking now key, l) =
     (if xl_buckets l key = None then (Inserting now key, l) else (Hitting now key False, l))"
| "check_thread_step (Inserting now key, l) =
     (Hitting now key True, l\<lparr>xl_buckets := (xl_buckets l)(key := Some (fresh_bucket now))\<rparr>)"
| "check_thread_step (Hitting now key inserted, l) =
     (case xl_buckets l key of
        None \<Rightarrow> (Checked None, l)
      | Some e \<Rightarrow>
          (let e = hit_bucket (xl_window (xl_config l)) now e;
               should_allow = count e \<le> xl_max_requests (xl_config l)
           in (if inserted then Ordering key should_allow else Checked (Some should_allow),
               l\<lparr>xl_buckets := (xl_buckets l)(key := Some e)\<rparr>)))"
| "check_thread_step (Ordering key should_allow, l) =
     (let (order, bs) = evict_loop (xl_max_buckets (xl_config l)) (eviction_order l @ [key]) (xl_buckets l)
      in (Checked (Some should_allow), l\<lparr>xl_buckets := bs, eviction_order := order\<rparr>))"
| "check_thread_step (Checked r, l) = (Checked r, l)"

text \<open>A schedule names, turn by turn, the thread that takes its next step.\<close>

fun run_checks :: "nat list \<Rightarrow> check_thread list \<times> exporter_limiter \<Rightarrow> check_thread list \<times> exporter_limiter" where
  "run_checks [] st = st"
| "run_checks (i # is) (ts, l) =
     (if i < length ts then
        (let (t, l) = check_thread_step (ts ! i, l) in run_checks is (ts[i := t], l))
      else run_checks is (ts, l))"

definition exporter_retry_after_secs :: "nat \<Rightarrow> string \<Rightarrow> exporter_limiter \<Rightarrow> nat" where
  "exporter_retry_after_secs now key l =
     bucket_retry_after (xl_window (xl_config l)) now (xl_buckets l key)"

text \<open>The key is the remote IP alone, whatever the request carries.\<close>

definition bucket_key :: "headers \<Rightarrow> string \<Rightarrow> string" where
  "bucket_key hs ip = ip"

definition exporter_rate_limit ::
    "nat \<Rightarrow> string \<Rightarrow> headers \<Rightarrow> 's handler \<Rightarrow> (exporter_limiter \<times> 's) handler" where
  "exporter_rate_limit now ip hs handler st =
     (let (l, s) = st; key = bucket_key hs ip in
      case check now key l of
        None \<Rightarrow> (Panicked, l, s)
      | Some (ok, l) \<Rightarrow>
          if ok then (let (r, s) = handler s in (r, l, s))
          else (RateLimited (exporter_retry_after_secs now key l), l, s))"

subsection \<open>auth.rs\<close>

record auth_config =
  auth_api_key :: "string option"
  auth_enabled :: bool

definition auth_from_env :: "process_env \<Rightarrow> auth_config" where
  "auth_from_env env =
     (let is_enabled = env_flag env ''ROUTER_AUTH_ENABLED''; key = env ''ROUTER_API_KEY''
      in \<lparr>auth_api_key = key, auth_enabled = (is_enabled \<and> key \<noteq> None)\<rparr>)"

datatype auth_error = MissingKey | InvalidKey

definition extract_api_key :: "headers \<Rightarrow> string option" where
  "extract_api_key hs =
     (case Option.bind (Option.bind (hs ''authorization'') id) (strip_prefix ''Bearer '') of
        Some key \<Rightarrow> Some key
      | None \<Rightarrow> Option.bind (hs ''x-api-key'') id)"

definition auth_error_reply :: "auth_error \<Rightarrow> reply" where
  "auth_error_reply e =
     (case e of MissingKey \<Rightarrow> Reply 401 ''Missing API key'' | InvalidKey \<Rightarrow> Reply 401 ''Invalid API key'')"

definition auth_middleware :: "auth_config \<Rightarrow> headers \<Rightarrow> 's handler \<Rightarrow> 's handler" where
  "auth_middleware cfg hs handler s =
     (if \<not> auth_enabled cfg then handler s
      else
        (case extract_api_key hs of
           Some key \<Rightarrow>
             (case auth_api_key cfg of
                None \<Rightarrow> (Panicked, s)
              | Some expected \<Rightarrow>
                  if key = expected then handler s else (auth_error_reply InvalidKey, s))
         | None \<Rightarrow> (auth_error_reply MissingKey, s)))"

subsection \<open>replay_protection.rs\<close>

record replay_config =
  replay_enabled :: bool
  cache_size :: nat
  nonce_ttl_secs :: u64

definition replay_from_env :: "process_env \<Rightarrow> replay_config" where
  "replay_from_env env =
     \<lparr>replay_enabled = env_flag env ''ROUTER_REPLAY_PROTECTION_ENABLED'',
      cache_size = unat (env_number env ''ROUTER_NONCE_CACHE_SIZE'' 10000 :: u64),
      nonce_ttl_secs = env_number env ''ROUTER_NONCE_TTL_SECS'' 3600\<rparr>"

text \<open>The timestamp of each cached nonce, and the time of the last sweep.\<close>

record nonce_cache =
  nonces :: "string \<Rightarrow> u64 option"
  replay_cfg :: replay_config
  last_swept_at :: u64

definition nonce_cache_new :: "replay_config \<Rightarrow> nonce_cache" where
  "nonce_cache_new cfg = \<lparr>nonces = (\<lambda>_. None), replay_cfg = cfg, last_swept_at = 0\<rparr>"

definition cleanup_expired :: "u64 \<Rightarrow> nonce_cache \<Rightarrow> nonce_cache" where
  "cleanup_expired now c = c\<lparr>nonces := (\<lambda>k. case nonces c k of
     Some t \<Rightarrow> if saturating_sub now t < nonce_ttl_secs (replay_cfg c) then Some t else None
   | None \<Rightarrow> None)\<rparr>"

definition sweep_interval :: "replay_config \<Rightarrow> u64" where
  "sweep_interval cfg = max (nonce_ttl_secs cfg div 10) 1"

definition maybe_cleanup_expired :: "u64 \<Rightarrow> nonce_cache \<Rightarrow> nonce_cache" where
  "maybe_cleanup_expired now c =
     (if saturating_sub now (last_swept_at c) < sweep_interval (replay_cfg c) then c
      else cleanup_expired now (c\<lparr>last_swept_at := now\<rparr>))"

text \<open>
  The order in which a \<open>DashMap\<close> is iterated is its own: \<open>iter\<close> lists the entries of a map.
  \<open>min_by_key\<close> keeps the first of the least.
\<close>

type_synonym nonce_iter = "(string \<Rightarrow> u64 option) \<Rightarrow> (string \<times> u64) list"

definition min_by_timestamp :: "(string \<times> u64) list \<Rightarrow> (string \<times> u64) option" where
  "min_by_timestamp xs =
     (case xs of [] \<Rightarrow> None
      | x # ys \<Rightarrow> Some (foldl (\<lambda>best y. if snd y < snd best then y else best) x ys))"

definition evict_oldest :: "nonce_iter \<Rightarrow> nonce_cache \<Rightarrow> nonce_cache" where
  "evict_oldest iter c =
     (case min_by_timestamp (iter (nonces c)) of
        Some (k, _) \<Rightarrow> c\<lparr>nonces := (nonces c)(k := None)\<rparr>
      | None \<Rightarrow> c)"

definition make_room :: "nonce_iter \<Rightarrow> nonce_cache \<Rightarrow> nonce_cache" where
  "make_room iter c =
     (if length (iter (nonces c)) \<ge> cache_size (replay_cfg c) then evict_oldest iter c else c)"

definition insert_nonce :: "u64 \<Rightarrow> string \<Rightarrow> nonce_cache \<Rightarrow> nonce_cache" where
  "insert_nonce now nonce c = c\<lparr>nonces := (nonces c)(nonce := Some now)\<rparr>"

definition check_and_add :: "nonce_iter \<Rightarrow> u64 \<Rightarrow> string \<Rightarrow> nonce_cache \<Rightarrow> bool \<times> nonce_cache" where
  "check_and_add iter now nonce c =
     (let c = maybe_cleanup_expired now c in
      if nonces c nonce \<noteq> None then (False, c)
      else (True, insert_nonce now nonce (make_room iter c)))"

text \<open>
  The same operation as its accesses to the shared map, each atomic by itself, with no lock held
  between them: the sweep, the lookup, the eviction, the insertion.
\<close>

datatype nonce_thread =
    Arrived u64 string | Swept u64 string | Fresh u64 string | Roomy u64 string | Answered bool

fun nonce_thread_step :: "nonce_iter \<Rightarrow> nonce_thread \<times> nonce_cache \<Rightarrow> nonce_thread \<times> nonce_cache" where
  "nonce_thread_step iter (Arrived now nonce, c) = (Swept now nonce, maybe_cleanup_expired now c)"
| "nonce_thread_step iter (Swept now nonce, c) =
     (if nonces c nonce \<noteq> None then (Answered False, c) else (Fresh now nonce, c))"
| "nonce_thread_step iter (Fresh now nonce, c) = (Roomy now nonce, make_room iter c)"
| "nonce_thread_step iter (Roomy now nonce, c) = (Answered True, insert_nonce now nonce c)"
| "nonce_thread_step iter (Answered b, c) = (Answered b, c)"

text \<open>A schedule names, turn by turn, the thread that takes its next step.\<close>

fun run_schedule ::
    "nonce_iter \<Rightarrow> nat list \<Rightarrow> nonce_thread list \<times> nonce_cache \<Rightarrow> nonce_thread list \<times> nonce_cache" where
  "run_schedule iter [] st = st"
| "run_schedule iter (i # is) (ts, c) =
     (if i < length ts then
        (let (t, c) = nonce_thread_step iter (ts ! i, c) in run_schedule iter is (ts[i := t], c))
      else run_schedule iter is (ts, c))"

definition extract_nonce :: "headers \<Rightarrow> string option" where
  "extract_nonce hs = Option.bind (hs ''x-nonce'') id"

datatype replay_error = MissingNonce | DuplicateNonce

definition replay_error_reply :: "replay_error \<Rightarrow> reply" where
  "replay_error_reply e =
     (case e of
        MissingNonce \<Rightarrow> Reply 400 ''Missing X-Nonce header''
      | DuplicateNonce \<Rightarrow> Reply 409 ''Duplicate nonce detected (replay attack)'')"

definition replay_protection_middleware ::
    "nonce_iter \<Rightarrow> u64 \<Rightarrow> headers \<Rightarrow> 's handler \<Rightarrow> (nonce_cache \<times> 's) handler" where
  "replay_protection_middleware iter now hs handler st =
     (let (c, s) = st in
      if \<not> replay_enabled (replay_cfg c) then (let (r, s) = handler s in (r, c, s))
      else
        (case extract_nonce hs of
           None \<Rightarrow> (replay_error_reply MissingNonce, c, s)
         | Some nonce \<Rightarrow>
             (let (ok, c) = check_and_add iter now nonce c in
              if ok then (let (r, s) = handler s in (r, c, s))
              else (replay_error_reply DuplicateNonce, c, s))))"

end
