(* ===== verification/Collector.thy ===== *)
theory Collector
  imports Wire
begin

text \<open>
  The scrape loop of the metrics exporter (\<open>metrics/src\<close>): the RPC client (\<open>rpc.rs\<close>), the
  gauges (\<open>metrics.rs\<close>), the collector (\<open>collector.rs\<close>) and the checks of the command line
  (\<open>validation.rs\<close>). The trait \<open>RpcClient\<close> is a record of functions. Histograms of durations
  and log lines are left out.
\<close>

subsection \<open>validation.rs\<close>

text \<open>The message of a \<open>ValidationError\<close> is \<open>Some\<close>, success is \<open>None\<close>.\<close>

definition STELLAR_CONTRACT_ID_LEN :: nat where
  "STELLAR_CONTRACT_ID_LEN = 56"

definition MAX_ROUTE_NAME_LEN :: nat where
  "MAX_ROUTE_NAME_LEN = 64"

definition is_alphanumeric :: "char \<Rightarrow> bool" where
  "is_alphanumeric c \<longleftrightarrow>
     (let n = of_char c :: nat in 48 \<le> n \<and> n \<le> 57 \<or> 65 \<le> n \<and> n \<le> 90 \<or> 97 \<le> n \<and> n \<le> 122)"

definition validate_contract_id :: "string \<Rightarrow> string option" where
  "validate_contract_id cid =
     (if cid = [] then Some ''contract_id must not be empty''
      else if length cid \<noteq> STELLAR_CONTRACT_ID_LEN then
        Some ''contract_id must be exactly 56 characters''
      else if \<not> list_all is_alphanumeric cid then
        Some ''contract_id must contain only alphanumeric characters''
      else None)"

definition validate_route_name :: "string \<Rightarrow> string option" where
  "validate_route_name name =
     (if name = [] then Some ''route name must not be empty''
      else if length name > MAX_ROUTE_NAME_LEN then
        Some ''route name must be 64 characters or fewer''
      else if \<not> list_all (\<lambda>c. is_alphanumeric c \<or> c = CHR ''_'' \<or> c = CHR ''-'') name then
        Some ''route name must contain only alphanumeric characters, underscores, or hyphens''
      else None)"

definition validate_scrape_interval :: "u64 \<Rightarrow> string option" where
  "validate_scrape_interval secs =
     (if secs = 0 then Some ''scrape_interval_secs must be greater than 0''
      else if secs > 3600 then Some ''scrape_interval_secs must not exceed 3600''
      else None)"

definition validate_rpc_timeout :: "u64 \<Rightarrow> string option" where
  "validate_rpc_timeout secs =
     (if secs = 0 then Some ''rpc_timeout_secs must be greater than 0'' else None)"

text \<open>\<open>socket_addr\<close> is whether a text parses as a \<open>SocketAddr\<close>.\<close>

definition validate_listen_addr :: "(string \<Rightarrow> bool) \<Rightarrow> string \<Rightarrow> string option" where
  "validate_listen_addr socket_addr addr =
     (if socket_addr addr then None
      else Some ''listen address must be a valid host:port (e.g. 0.0.0.0:9090)'')"

subsection \<open>rpc.rs\<close>

record ledger_entry =
  le_key :: string
  le_xdr :: string

text \<open>
  What is posted to the RPC node, and what comes back as JSON; of an \<open>error\<close> member the text of
  its code and message, as the client shows them.
\<close>

datatype rpc_request =
    SimulateTransaction string
  | GetLedgerEntries "string list"
  | GetEvents string "string list" u32

record 'v rpc_reply =
  reply_result :: "'v option"
  reply_error :: "string option"

text \<open>
  The parameters of the client: \<open>post\<close> sends a request (\<open>Inl\<close> when sending or parsing the
  answer fails); the other two deserialise a result, as \<open>serde_json::from_value\<close> does for the
  result structures of the two calls.
\<close>

record ('v, 'e) node =
  post :: "rpc_request \<Rightarrow> string + 'v rpc_reply"
  de_entries :: "'v \<Rightarrow> string + ledger_entry list option"
  de_events :: "'v \<Rightarrow> string + 'e list option"

text \<open>The steps every call shares: an \<open>error\<close> member fails it, a missing result fails it.\<close>

definition rpc_value :: "('v, 'e) node \<Rightarrow> rpc_request \<Rightarrow> string + 'v" where
  "rpc_value node req =
     bindr (post node req) (\<lambda>resp.
       case reply_error resp of
         Some err \<Rightarrow> Inl (''RPC error '' @ err)
       | None \<Rightarrow> (case reply_result resp of Some v \<Rightarrow> Inr v | None \<Rightarrow> Inl ''empty RPC result''))"

definition build_invoke_xdr :: "string \<Rightarrow> string \<Rightarrow> string list \<Rightarrow> string + string" where
  "build_invoke_xdr contract_id function_name args_xdr =
     Inl ''XDR transaction building is not implemented in this reference exporter. Use getLedgerEntries-based scraping (the default) or integrate the stellar-xdr crate to build InvokeHostFunction envelopes.''"

definition soroban_simulate_invoke ::
    "('v, 'e) node \<Rightarrow> string \<Rightarrow> string \<Rightarrow> string list \<Rightarrow> string + 'v" where
  "soroban_simulate_invoke node contract_id function_name args_xdr =
     bindr (build_invoke_xdr contract_id function_name args_xdr) (\<lambda>xdr.
       rpc_value node (SimulateTransaction xdr))"

definition soroban_get_ledger_entries :: "('v, 'e) node \<Rightarrow> string list \<Rightarrow> string + ledger_entry list" where
  "soroban_get_ledger_entries node keys_xdr =
     bindr (rpc_value node (GetLedgerEntries keys_xdr)) (\<lambda>v.
       bindr (de_entries node v) (\<lambda>entries. Inr (unwrap_or entries [])))"

definition soroban_get_events ::
    "('v, 'e) node \<Rightarrow> string \<Rightarrow> string list \<Rightarrow> u32 \<Rightarrow> string + 'e list" where
  "soroban_get_events node contract_id topic_filters start_ledger =
     bindr (rpc_value node (GetEvents contract_id topic_filters start_ledger)) (\<lambda>v.
       bindr (de_events node v) (\<lambda>evs. Inr (unwrap_or evs [])))"

text \<open>\<open>result.get("results").and_then(|r| r.get(0)).and_then(|r| r.get("retval"))\<close>\<close>

definition retval :: "'v json \<Rightarrow> 'v \<Rightarrow> 'v option" where
  "retval J v =
     Option.bind (Option.bind (jget J v ''results'') (\<lambda>r. jnth J r 0)) (\<lambda>r. jget J r ''retval'')"

definition or_else :: "'a option \<Rightarrow> 'a option \<Rightarrow> 'a option" where
  "or_else x y = (case x of Some v \<Rightarrow> Some v | None \<Rightarrow> y)"

definition found :: "'a option \<Rightarrow> string \<Rightarrow> string + 'a" where
  "found x e = (case x of Some v \<Rightarrow> Inr v | None \<Rightarrow> Inl e)"

definition extract_u64_from_sim_result :: "'v json \<Rightarrow> 'v \<Rightarrow> string + u64" where
  "extract_u64_from_sim_result J result =
     found (or_else (Option.bind (retval J result) (\<lambda>v.
               or_else (as_u64 J v) (Option.bind (jget J v ''u64'') (as_u64 J))))
             (as_u64 J result))
       (''could not find u64 in simulation result: '' @ jtext J result)"

definition extract_bool_from_sim_result :: "'v json \<Rightarrow> 'v \<Rightarrow> string + bool" where
  "extract_bool_from_sim_result J result =
     found (or_else (Option.bind (retval J result) (\<lambda>v.
               or_else (as_bool J v) (Option.bind (jget J v ''bool'') (as_bool J))))
             (as_bool J result))
       (''could not find bool in simulation result: '' @ jtext J result)"

definition extract_string_vec_from_sim_result :: "'v json \<Rightarrow> 'v \<Rightarrow> string + string list" where
  "extract_string_vec_from_sim_result J result =
     (case as_array J (unwrap_or (retval J result) result) of
        Some arr \<Rightarrow>
          Inr (List.map_filter (\<lambda>v. or_else (as_str J v) (Option.bind (jget J v ''str'') (as_str J))) arr)
      | None \<Rightarrow> Inr [])"

text \<open>The trait \<open>RpcClient\<close>, and its implementation by \<open>SorobanRpcClient\<close>.\<close>

record ('v, 'e) rpc_client =
  call_u64 :: "string \<Rightarrow> string \<Rightarrow> string + u64"
  call_bool :: "string \<Rightarrow> string \<Rightarrow> string + bool"
  call_string_vec :: "string \<Rightarrow> string \<Rightarrow> string + string list"
  simulate_invoke :: "string \<Rightarrow> string \<Rightarrow> string list \<Rightarrow> string + 'v"
  get_events :: "string \<Rightarrow> string list \<Rightarrow> u32 \<Rightarrow> string + 'e list"
  get_ledger_entries :: "string list \<Rightarrow> string + ledger_entry list"

definition soroban_rpc_client :: "'v json \<Rightarrow> ('v, 'e) node \<Rightarrow> ('v, 'e) rpc_client" where
  "soroban_rpc_client J node =
     \<lparr>call_u64 = (\<lambda>cid fn. bindr (soroban_simulate_invoke node cid fn []) (extract_u64_from_sim_result J)),
      call_bool = (\<lambda>cid fn. bindr (soroban_simulate_invoke node cid fn []) (extract_bool_from_sim_result J)),
      call_string_vec =
        (\<lambda>cid fn. bindr (soroban_simulate_invoke node cid fn []) (extract_string_vec_from_sim_result J)),
      simulate_invoke = soroban_simulate_invoke node,
      get_events = soroban_get_events node,
      get_ledger_entries = soroban_get_ledger_entries node\<rparr>"

subsection \<open>metrics.rs\<close>

text \<open>
  \<open>n as f64\<close> for an unsigned integer: the nearest number with a mantissa of 53 bits, ties to
  even. The value is an integer, so a gauge is a natural number.
\<close>

definition as_f64 :: "nat \<Rightarrow> nat" where
  "as_f64 n =
     (let e = length (takeWhile (\<lambda>e. 2 ^ (53 + e) \<le> n) [0..<11]);
          q = n div 2 ^ e; r = n mod 2 ^ e; half = 2 ^ (e - 1)
      in (if r > half \<or> e > 0 \<and> r = half \<and> odd q then q + 1 else q) * 2 ^ e)"

definition bool_f64 :: "bool \<Rightarrow> nat" where
  "bool_f64 b = (if b then 1 else 0)"

type_synonym gauge_vec = "string list \<Rightarrow> nat option"

record router_metrics =
  core_total_routed :: gauge_vec
  core_paused :: gauge_vec
  core_route_paused :: gauge_vec
  middleware_total_calls :: gauge_vec
  middleware_circuit_open :: gauge_vec
  middleware_failure_count :: gauge_vec
  registry_total_names :: gauge_vec
  quote_total_generated :: gauge_vec
  quote_total_fee_estimated :: gauge_vec
  execution_total_executions :: gauge_vec
  execution_total_errors :: gauge_vec
  execution_max_retries :: gauge_vec
  scrape_errors_total :: gauge_vec
  up :: nat

definition metrics_new :: router_metrics where
  "metrics_new = \<lparr>core_total_routed = (\<lambda>_. None), core_paused = (\<lambda>_. None), core_route_paused = (\<lambda>_. None),
     middleware_total_calls = (\<lambda>_. None), middleware_circuit_open = (\<lambda>_. None),
     middleware_failure_count = (\<lambda>_. None), registry_total_names = (\<lambda>_. None),
     quote_total_generated = (\<lambda>_. None), quote_total_fee_estimated = (\<lambda>_. None),
     execution_total_executions = (\<lambda>_. None), execution_total_errors = (\<lambda>_. None),
     execution_max_retries = (\<lambda>_. None), scrape_errors_total = (\<lambda>_. None), up = 0\<rparr>"

subsection \<open>collector.rs\<close>

record args =
  core_contract_id :: string
  middleware_contract_id :: string
  registry_contract_id :: string
  quote_contract_id :: string
  execution_contract_id :: string
  scrape_interval_secs :: u64
  rpc_timeout_secs :: u64
  listen :: string

text \<open>Two lower-case hexadecimal digits per byte.\<close>

definition hex_digit :: "nat \<Rightarrow> char" where
  "hex_digit n = ''0123456789abcdef'' ! n"

definition encode_string_arg :: "string \<Rightarrow> string" where
  "encode_string_arg s = concat (map (\<lambda>c. [hex_digit (of_char c div 16), hex_digit (of_char c mod 16)]) s)"

definition encode_contract_data_key :: "string \<Rightarrow> string \<Rightarrow> string" where
  "encode_contract_data_key contract_id storage_key = contract_id @ '':'' @ storage_key"

fun contains_str :: "string \<Rightarrow> string \<Rightarrow> bool" where
  "contains_str [] p = (p = [])"
| "contains_str (c # s) p = (take (length p) (c # s) = p \<or> contains_str s p)"

definition ends_with :: "string \<Rightarrow> string \<Rightarrow> bool" where
  "ends_with s p \<longleftrightarrow> length p \<le> length s \<and> drop (length s - length p) s = p"

definition entry_u64 :: "'v json \<Rightarrow> string \<Rightarrow> u64 option" where
  "entry_u64 J xdr =
     or_else (parse_unsigned xdr)
       (Option.bind (jparse J xdr) (\<lambda>v. or_else (Option.bind (jget J v ''u64'') (as_u64 J)) (as_u64 J v)))"

fun extract_u64_from_entry :: "'v json \<Rightarrow> ledger_entry list \<Rightarrow> string \<Rightarrow> u64 option" where
  "extract_u64_from_entry J [] key_name = None"
| "extract_u64_from_entry J (entry # entries) key_name =
     (if ends_with (le_key entry) key_name \<or> contains_str (le_key entry) key_name then
        (case entry_u64 J (le_xdr entry) of
           Some n \<Rightarrow> Some n
         | None \<Rightarrow> extract_u64_from_entry J entries key_name)
      else extract_u64_from_entry J entries key_name)"

definition extract_route_paused :: "'v json \<Rightarrow> 'v \<Rightarrow> bool option" where
  "extract_route_paused J v =
     or_else (Option.bind (Option.bind (retval J v) (\<lambda>r. jget J r ''paused'')) (as_bool J))
       (Option.bind (jget J v ''paused'') (as_bool J))"

definition extract_circuit_breaker_state :: "'v json \<Rightarrow> 'v \<Rightarrow> (bool \<times> u32) option" where
  "extract_circuit_breaker_state J v =
     (let ret = unwrap_or (retval J v) v in
      if is_null J ret \<or> jget J ret ''none'' \<noteq> None then Some (False, 0)
      else
        (let st = unwrap_or (jget J ret ''some'') ret;
             is_open = unwrap_or (Option.bind (jget J st ''is_open'') (as_bool J)) False;
             failures = unwrap_or (Option.bind (jget J st ''failure_count'') (as_u64 J)) 0
         in Some (is_open, ucast failures)))"

text \<open>A scrape either completes or fails with what it has set so far left in the gauges.\<close>

type_synonym scrape = "router_metrics \<Rightarrow> (string + unit) \<times> router_metrics"

definition scrape_core :: "'v json \<Rightarrow> ('v, 'e) rpc_client \<Rightarrow> string \<Rightarrow> scrape" where
  "scrape_core J client contract_id m =
     (case call_u64 client contract_id ''total_routed'' of
        Inl e \<Rightarrow> (Inl e, m)
      | Inr total_routed \<Rightarrow>
          (let m = m\<lparr>core_total_routed := (core_total_routed m)([contract_id] \<mapsto> as_f64 (unat total_routed))\<rparr>;
               paused_value = (case call_bool client contract_id ''is_paused'' of
                                 Inr p \<Rightarrow> bool_f64 p | Inl _ \<Rightarrow> 0);
               m = m\<lparr>core_paused := (core_paused m)([contract_id] \<mapsto> paused_value)\<rparr>
           in case call_string_vec client contract_id ''get_all_routes'' of
                Inl e \<Rightarrow> (Inl e, m)
              | Inr routes \<Rightarrow>
                  (Inr (), fold (\<lambda>route m.
                     case simulate_invoke client contract_id ''get_route'' [encode_string_arg route] of
                       Inr v \<Rightarrow>
                         (let paused = unwrap_or (extract_route_paused J v) False
                          in m\<lparr>core_route_paused :=
                               (core_route_paused m)([contract_id, route] \<mapsto> bool_f64 paused)\<rparr>)
                     | Inl _ \<Rightarrow> m) routes m)))"

definition scrape_middleware :: "'v json \<Rightarrow> ('v, 'e) rpc_client \<Rightarrow> string \<Rightarrow> scrape" where
  "scrape_middleware J client contract_id m =
     (case call_u64 client contract_id ''total_calls'' of
        Inl e \<Rightarrow> (Inl e, m)
      | Inr total_calls \<Rightarrow>
          (let m = m\<lparr>middleware_total_calls :=
                 (middleware_total_calls m)([contract_id] \<mapsto> as_f64 (unat total_calls))\<rparr>
           in case call_string_vec client contract_id ''get_configured_routes'' of
                Inl e \<Rightarrow> (Inl e, m)
              | Inr routes \<Rightarrow>
                  (Inr (), fold (\<lambda>route m.
                     case simulate_invoke client contract_id ''circuit_breaker_state'' [encode_string_arg route] of
                       Inr v \<Rightarrow>
                         (let (is_open, failure_count) =
                            unwrap_or (extract_circuit_breaker_state J v) (False, 0)
                          in m\<lparr>middleware_circuit_open :=
                                 (middleware_circuit_open m)([contract_id, route] \<mapsto> bool_f64 is_open),
                               middleware_failure_count :=
                                 (middleware_failure_count m)([contract_id, route] \<mapsto> as_f64 (unat failure_count))\<rparr>)
                     | Inl _ \<Rightarrow> m) routes m)))"

definition scrape_registry :: "('v, 'e) rpc_client \<Rightarrow> string \<Rightarrow> scrape" where
  "scrape_registry client contract_id m =
     (case call_string_vec client contract_id ''get_all_names'' of
        Inl e \<Rightarrow> (Inl e, m)
      | Inr names \<Rightarrow>
          (Inr (), m\<lparr>registry_total_names :=
             (registry_total_names m)([contract_id] \<mapsto> as_f64 (length names))\<rparr>))"

definition scrape_quote :: "('v, 'e) rpc_client \<Rightarrow> string \<Rightarrow> scrape" where
  "scrape_quote client contract_id m =
     (case get_events client contract_id [''quote_calculated''] 0 of
        Inl e \<Rightarrow> (Inl e, m)
      | Inr quote_events \<Rightarrow>
          (case get_events client contract_id [''fee_estimated''] 0 of
             Inl e \<Rightarrow> (Inl e, m)
           | Inr fee_events \<Rightarrow>
               (Inr (), m\<lparr>
                  quote_total_generated :=
                    (quote_total_generated m)([contract_id] \<mapsto> as_f64 (length quote_events)),
                  quote_total_fee_estimated :=
                    (quote_total_fee_estimated m)([contract_id] \<mapsto> as_f64 (length fee_events))\<rparr>)))"

definition scrape_execution :: "'v json \<Rightarrow> ('v, 'e) rpc_client \<Rightarrow> string \<Rightarrow> scrape" where
  "scrape_execution J client contract_id m =
     (let keys = map (encode_contract_data_key contract_id) [''TotalExecutions'', ''TotalErrors'', ''MaxRetries'']
      in case get_ledger_entries client keys of
           Inl e \<Rightarrow> (Inl e, m)
         | Inr entries \<Rightarrow>
             (let total_executions = unwrap_or (extract_u64_from_entry J entries ''TotalExecutions'') 0;
                  total_errors = unwrap_or (extract_u64_from_entry J entries ''TotalErrors'') 0;
                  max_retries = unwrap_or (extract_u64_from_entry J entries ''MaxRetries'') 0
              in (Inr (), m\<lparr>
                   execution_total_executions :=
                     (execution_total_executions m)([contract_id] \<mapsto> as_f64 (unat total_executions)),
                   execution_total_errors :=
                     (execution_total_errors m)([contract_id] \<mapsto> as_f64 (unat total_errors)),
                   execution_max_retries :=
                     (execution_max_retries m)([contract_id] \<mapsto> as_f64 (unat max_retries))\<rparr>)))"

text \<open>An unconfigured contract is skipped; a failed scrape is counted.\<close>

definition scrape_and_record :: "string \<Rightarrow> scrape \<Rightarrow> router_metrics \<Rightarrow> bool \<times> router_metrics" where
  "scrape_and_record contract_id scrape m =
     (if contract_id = [] then (True, m)
      else
        (case scrape m of
           (Inl _, m) \<Rightarrow>
             (False, m\<lparr>scrape_errors_total := (scrape_errors_total m)
                ([contract_id] \<mapsto> unwrap_or (scrape_errors_total m [contract_id]) 0 + 1)\<rparr>)
         | (Inr _, m) \<Rightarrow> (True, m)))"

definition scrape_all :: "'v json \<Rightarrow> ('v, 'e) rpc_client \<Rightarrow> args \<Rightarrow> router_metrics \<Rightarrow> bool \<times> router_metrics" where
  "scrape_all J client a m =
     (let (core_ok, m) = scrape_and_record (core_contract_id a)
            (scrape_core J client (core_contract_id a)) m;
          (middleware_ok, m) = scrape_and_record (middleware_contract_id a)
            (scrape_middleware J client (middleware_contract_id a)) m;
          (registry_ok, m) = scrape_and_record (registry_contract_id a)
            (scrape_registry client (registry_contract_id a)) m;
          (quote_ok, m) = scrape_and_record (quote_contract_id a)
            (scrape_quote client (quote_contract_id a)) m;
          (execution_ok, m) = scrape_and_record (execution_contract_id a)
            (scrape_execution J client (execution_contract_id a)) m
      in (core_ok \<and> middleware_ok \<and> registry_ok \<and> quote_ok \<and> execution_ok, m))"

text \<open>One turn of the loop of \<open>run\<close>, and a run over the nodes the successive turns meet.\<close>

definition scrape_cycle :: "'v json \<Rightarrow> args \<Rightarrow> ('v, 'e) rpc_client \<Rightarrow> router_metrics \<Rightarrow> router_metrics" where
  "scrape_cycle J a client m = (let (ok, m) = scrape_all J client a m in m\<lparr>up := bool_f64 ok\<rparr>)"

definition run_collector :: "'v json \<Rightarrow> args \<Rightarrow> ('v, 'e) node list \<Rightarrow> router_metrics \<Rightarrow> router_metrics" where
  "run_collector J a nodes m =
     fold (\<lambda>node. scrape_cycle J a (soroban_rpc_client J node)) nodes m"

end
