(* ===== verification/Exporter.thy ===== *)
theory Exporter
  imports Exporter_Guards Collector
begin

text \<open>
  The metrics exporter as a whole (\<open>metrics/src/server.rs\<close>, \<open>main.rs\<close>): the endpoints behind
  their layers, and the checks before it starts.
\<close>

subsection \<open>server.rs\<close>

datatype http_path = MetricsPath | SwaggerPath | HealthPath | ReadyPath | OtherPath

text \<open>A request, with the instant and the time of day at which it is handled.\<close>

record http_request =
  rq_path :: http_path
  rq_ip :: string
  rq_headers :: headers
  rq_instant :: nat
  rq_time :: u64

text \<open>\<open>render\<close> is the text encoder of the metrics library, \<open>swagger\<close> the documentation page.\<close>

definition metrics_handler :: "(router_metrics \<Rightarrow> string + string) \<Rightarrow> router_metrics handler" where
  "metrics_handler render m =
     (case render m of
        Inl e \<Rightarrow> (Reply 500 (''failed to encode metrics: '' @ e), m)
      | Inr body \<Rightarrow> (Reply 200 body, m))"

definition health_handler :: "'s handler" where
  "health_handler s = (Reply 200 ''ok'', s)"

definition ready_handler :: "router_metrics handler" where
  "ready_handler m = (if up m \<ge> 1 then (Reply 200 ''ready'', m) else (Reply 503 ''not ready'', m))"

text \<open>
  \<open>route_layer\<close> wraps the routes added before it: the metrics and the documentation get the nonce
  check inside and the API key outside. \<open>layer\<close> wraps everything: the rate limiter.
\<close>

definition route_protected ::
    "auth_config \<Rightarrow> nonce_iter \<Rightarrow> http_request \<Rightarrow> router_metrics handler
      \<Rightarrow> (nonce_cache \<times> router_metrics) handler" where
  "route_protected acfg iter rq handler =
     auth_middleware acfg (rq_headers rq)
       (replay_protection_middleware iter (rq_time rq) (rq_headers rq) handler)"

definition route_open :: "router_metrics handler \<Rightarrow> (nonce_cache \<times> router_metrics) handler" where
  "route_open handler st = (let (c, m) = st; (r, m) = handler m in (r, c, m))"

definition dispatch ::
    "(router_metrics \<Rightarrow> string + string) \<Rightarrow> string \<Rightarrow> auth_config \<Rightarrow> nonce_iter \<Rightarrow> http_request
      \<Rightarrow> (nonce_cache \<times> router_metrics) handler" where
  "dispatch render swagger acfg iter rq =
     (case rq_path rq of
        MetricsPath \<Rightarrow> route_protected acfg iter rq (metrics_handler render)
      | SwaggerPath \<Rightarrow> route_protected acfg iter rq (\<lambda>m. (Reply 200 swagger, m))
      | HealthPath \<Rightarrow> route_open health_handler
      | ReadyPath \<Rightarrow> route_open ready_handler
      | OtherPath \<Rightarrow> (\<lambda>st. (Reply 404 '''', st)))"

definition handle_request ::
    "(router_metrics \<Rightarrow> string + string) \<Rightarrow> string \<Rightarrow> auth_config \<Rightarrow> nonce_iter \<Rightarrow> http_request
      \<Rightarrow> (exporter_limiter \<times> nonce_cache \<times> router_metrics) handler" where
  "handle_request render swagger acfg iter rq =
     exporter_rate_limit (rq_instant rq) (rq_ip rq) (rq_headers rq)
       (dispatch render swagger acfg iter rq)"

text \<open>The state \<open>serve\<close> starts from, and the configuration it reads.\<close>

definition exporter_init :: "process_env \<Rightarrow> exporter_limiter \<times> nonce_cache \<times> router_metrics" where
  "exporter_init env =
     (exporter_limiter_new (config_from_env env), nonce_cache_new (replay_from_env env), metrics_new)"

subsection \<open>main.rs\<close>

definition invalid_contract :: "string list \<Rightarrow> string option" where
  "invalid_contract ids =
     (case List.map_filter (\<lambda>cid. if cid \<noteq> [] then validate_contract_id cid else None) ids of
        [] \<Rightarrow> None | e # _ \<Rightarrow> Some (''invalid contract ID: '' @ e))"

text \<open>The checks of \<open>main\<close> on the arguments; \<open>Some\<close> is the error it stops with.\<close>

definition validate_args :: "(string \<Rightarrow> bool) \<Rightarrow> args \<Rightarrow> string option" where
  "validate_args socket_addr a =
     (case validate_listen_addr socket_addr (listen a) of
        Some e \<Rightarrow> Some (''invalid listen address: '' @ e)
      | None \<Rightarrow>
          (case validate_scrape_interval (scrape_interval_secs a) of
             Some e \<Rightarrow> Some (''invalid scrape interval: '' @ e)
           | None \<Rightarrow>
               (case validate_rpc_timeout (rpc_timeout_secs a) of
                  Some e \<Rightarrow> Some (''invalid RPC timeout: '' @ e)
                | None \<Rightarrow>
                    invalid_contract [core_contract_id a, middleware_contract_id a,
                      registry_contract_id a, quote_contract_id a, execution_contract_id a])))"

end
