(* ===== verification/Exporter_Guards_Props.thy ===== *)
theory Exporter_Guards_Props
  imports Exporter_Guards "HOL-Library.List_Lexorder" "HOL-Library.Char_ord"
begin

text \<open>
  Proofs about the rate limiter and the nonce cache of the metrics exporter. The limiter is an
  instance of \<open>fixed_window\<close> as long as its clients fit into its buckets; with more clients the
  first-in-first-out eviction forgets the counter of a client. For the nonce cache: a replay within
  the time to live is refused, a refusal is justified, the memory is bounded, and what two
  concurrent requests can do.
\<close>

subsection \<open>The rate limiter\<close>

lemma evict_loop_fits [simp]: "length order \<le> mx \<Longrightarrow> evict_loop mx order bs = (order, bs)"
  by (cases order) auto

lemma evict_loop_drops:
  "fst (evict_loop mx order bs) = drop (length order - mx) order"
  "snd (evict_loop mx order bs) k = (if k \<in> set (take (length order - mx) order) then None else bs k)"
  by (induction mx order bs rule: evict_loop.induct) (auto simp: Suc_diff_le not_le less_Suc_eq_le)

text \<open>The buckets are the keys in the queue, each once, no more than the limit.\<close>

definition limiter_inv :: "exporter_limiter \<Rightarrow> bool" where
  "limiter_inv l \<longleftrightarrow> distinct (eviction_order l) \<and> set (eviction_order l) = dom (xl_buckets l)
    \<and> length (eviction_order l) \<le> xl_max_buckets (xl_config l) \<and> 1 \<le> xl_max_buckets (xl_config l)"

definition limiter_check :: "nat \<times> string \<Rightarrow> exporter_limiter \<Rightarrow> exporter_limiter" where
  "limiter_check r l = snd (the (check (fst r) (snd r) l))"

definition check_allows :: "nat \<times> string \<Rightarrow> exporter_limiter \<Rightarrow> bool" where
  "check_allows r l = fst (the (check (fst r) (snd r) l))"

lemma check_no_panic: "check now k l = Some (check_allows (now, k) l, limiter_check (now, k) l)"
  by (auto simp: check_def Let_def check_allows_def limiter_check_def split: option.splits prod.splits)

lemma check_allows_iff:
  "check_allows (now, k) l \<longleftrightarrow>
    count (hit_bucket (xl_window (xl_config l)) now (unwrap_or (xl_buckets l k) (fresh_bucket now)))
      \<le> xl_max_requests (xl_config l)"
  by (cases "xl_buckets l k") (auto simp: check_allows_def check_def Let_def split: prod.splits)

lemma limiter_check_new:
  "xl_buckets l k = None \<Longrightarrow> limiter_check (now, k) l = l\<lparr>
     xl_buckets := snd (evict_loop (xl_max_buckets (xl_config l)) (eviction_order l @ [k])
       ((xl_buckets l)(k := Some (hit_bucket (xl_window (xl_config l)) now (fresh_bucket now))))),
     eviction_order := fst (evict_loop (xl_max_buckets (xl_config l)) (eviction_order l @ [k])
       ((xl_buckets l)(k := Some (hit_bucket (xl_window (xl_config l)) now (fresh_bucket now)))))\<rparr>"
  by (simp add: limiter_check_def check_def Let_def case_prod_beta)

lemma limiter_check_known:
  "xl_buckets l k = Some b \<Longrightarrow> limiter_check (now, k) l =
     l\<lparr>xl_buckets := (xl_buckets l)(k := Some (hit_bucket (xl_window (xl_config l)) now b))\<rparr>"
  by (simp add: limiter_check_def check_def Let_def)

lemma limiter_check_simps:
  "xl_config (limiter_check (now, k) l) = xl_config l"
  "eviction_order (limiter_check (now, k) l) =
     (if xl_buckets l k = None
      then drop (Suc (length (eviction_order l)) - xl_max_buckets (xl_config l)) (eviction_order l @ [k])
      else eviction_order l)"
  "xl_buckets (limiter_check (now, k) l) j =
     (if xl_buckets l k = None
         \<and> j \<in> set (take (Suc (length (eviction_order l)) - xl_max_buckets (xl_config l)) (eviction_order l @ [k]))
      then None
      else if j = k then Some (hit_bucket (xl_window (xl_config l)) now (unwrap_or (xl_buckets l k) (fresh_bucket now)))
      else xl_buckets l j)"
  by (cases "xl_buckets l k"; simp add: limiter_check_new limiter_check_known evict_loop_drops del: take_append drop_append)+

lemma limiter_inv_check:
  assumes "limiter_inv l"
  shows "limiter_inv (limiter_check (now, k) l)"
proof (cases "xl_buckets l k")
  case None
  let ?q = "eviction_order l @ [k]" and ?n = "Suc (length (eviction_order l)) - xl_max_buckets (xl_config l)"
  from assms None have q: "distinct ?q" "set (eviction_order l) = dom (xl_buckets l)" by (auto simp: limiter_inv_def)
  then have split: "distinct (take ?n ?q @ drop ?n ?q)" by (simp only: append_take_drop_id)
  have n: "?n \<le> length (eviction_order l)" using assms by (auto simp: limiter_inv_def)
  have "set (drop ?n ?q) = dom (xl_buckets (limiter_check (now, k) l))"
  proof -
    have "set ?q = set (take ?n ?q) \<union> set (drop ?n ?q)" by (metis append_take_drop_id set_append)
    moreover have "set (take ?n ?q) \<inter> set (drop ?n ?q) = {}" using split by (simp only: distinct_append)
    moreover have "dom (xl_buckets (limiter_check (now, k) l)) = set ?q - set (take ?n ?q)"
      using q(2) None by (auto simp: limiter_check_simps split: if_splits)
    ultimately show ?thesis by blast
  qed
  moreover have "length (drop ?n ?q) \<le> xl_max_buckets (xl_config l)" by auto
  moreover from split have "distinct (drop ?n ?q)" by (simp only: distinct_append)
  ultimately show ?thesis using assms None
    by (simp add: limiter_inv_def limiter_check_simps(1,2) del: drop_append length_drop length_append distinct_append)
next
  case (Some b)
  have "dom (xl_buckets (limiter_check (now, k) l)) = dom (xl_buckets l)"
    using Some by (auto simp: limiter_check_simps split: if_splits)
  with assms Some show ?thesis by (simp add: limiter_inv_def limiter_check_simps(1,2))
qed

lemma limiter_inv_new: "limiter_inv (exporter_limiter_new cfg)"
  by (simp add: limiter_inv_def exporter_limiter_new_def)

text \<open>While the clients are no more than the buckets, none is evicted.\<close>

definition few_clients :: "string list \<Rightarrow> nat \<Rightarrow> u32 \<Rightarrow> exporter_limiter \<Rightarrow> bool" where
  "few_clients ks w mx l \<longleftrightarrow> limiter_inv l \<and> set (eviction_order l) \<subseteq> set ks
    \<and> length ks \<le> xl_max_buckets (xl_config l)
    \<and> xl_window (xl_config l) = w \<and> xl_max_requests (xl_config l) = mx"

lemma few_clients_room:
  assumes "few_clients ks w mx l" "k \<in> set ks" "xl_buckets l k = None"
  shows "Suc (length (eviction_order l)) \<le> xl_max_buckets (xl_config l)"
proof -
  from assms have d: "distinct (k # eviction_order l)" "set (k # eviction_order l) \<subseteq> set ks"
    by (auto simp: few_clients_def limiter_inv_def)
  then have "length (k # eviction_order l) \<le> length ks"
    by (metis card_length card_mono distinct_card finite_set order_trans)
  with assms(1) show ?thesis by (simp add: few_clients_def)
qed

interpretation exporter_window: fixed_window w mx xl_buckets limiter_check fst
    "\<lambda>r k. snd r = k" check_allows "few_clients ks w mx" "\<lambda>r. snd r \<in> set ks" for ks w mx
proof (unfold_locales, goal_cases)
  case (1 l r k)
  then show ?case
    using few_clients_room [OF 1(1), of k] by (cases r) (auto simp: limiter_check_simps few_clients_def)
next
  case (2 l r k)
  then show ?case by (cases r) (auto simp: check_allows_iff few_clients_def)
next
  case (3 l r k)
  then show ?case
    using few_clients_room [OF 3(1,2)] by (cases r) (auto simp: limiter_check_simps few_clients_def)
next
  case (4 l r)
  then have "limiter_inv (limiter_check r l)" using limiter_inv_check [of l "fst r" "snd r"] by (simp add: few_clients_def)
  moreover have "set (eviction_order (limiter_check r l)) \<subseteq> set ks"
    using 4 by (cases r) (auto simp: limiter_check_simps few_clients_def dest: in_set_dropD split: if_splits)
  ultimately show ?case using 4 by (cases r) (simp add: few_clients_def limiter_check_simps)
qed

fun exporter_granted :: "string \<Rightarrow> exporter_limiter \<Rightarrow> (nat \<times> string) list \<Rightarrow> nat" where
  "exporter_granted k l [] = 0"
| "exporter_granted k l (r # rs) =
     (if snd r = k \<and> check_allows r l then 1 else 0) + exporter_granted k (limiter_check r l) rs"

lemma exporter_granted_eq: "exporter_granted k l rs = exporter_window.granted k l rs"
  by (induction rs arbitrary: l) simp_all

lemma exporter_run_eq: "fold limiter_check rs l = exporter_window.after l rs"
  by (induction rs arbitrary: l) simp_all

text \<open>
  As long as the clients ever seen are no more than the buckets the exporter keeps, a client
  gets at most twice the limit through within any span of time shorter than the window.
\<close>
theorem exporter_rate_limit_bound:
  assumes "length ks \<le> max (xl_max_buckets cfg) 1" "\<forall>r\<in>set (earlier @ rs). snd r \<in> set ks"
    and "\<forall>r\<in>set rs. t \<le> fst r \<and> fst r < t + xl_window cfg" "length (earlier @ rs) < 2 ^ 32"
  shows "exporter_granted k (fold limiter_check earlier (exporter_limiter_new cfg)) rs
    \<le> 2 * unat (xl_max_requests cfg)"
  unfolding exporter_granted_eq exporter_run_eq
  by (rule exporter_window.granted_bound [where ks = ks and w = "xl_window cfg"])
    (use assms limiter_inv_new [of cfg] in \<open>simp_all add: few_clients_def exporter_limiter_new_def\<close>)

definition demo_limit :: exporter_limit_config where
  "demo_limit = \<lparr>xl_max_requests = 1, xl_window = 2500000000, xl_max_buckets = 1\<rparr>"

lemma exporter_rate_limit_bound_witness:
  "exporter_granted ''a'' (fold limiter_check [(0, ''a'')] (exporter_limiter_new demo_limit))
     [(2400000000, ''a''), (2500000000, ''a''), (2600000000, ''a'')] \<le> 2"
  using exporter_rate_limit_bound [of "[''a'']" demo_limit "[(0, ''a'')]"
      "[(2400000000, ''a''), (2500000000, ''a''), (2600000000, ''a'')]" 2400000000 "''a''"]
  by (simp add: demo_limit_def)

lemma limiter_inv_run: "limiter_inv l \<Longrightarrow> limiter_inv (fold limiter_check rs l)"
proof (induction rs arbitrary: l)
  case (Cons r rs)
  then show ?case using limiter_inv_check [of l "fst r" "snd r"] by simp
qed simp

lemma limiter_config_run: "xl_config (fold limiter_check rs l) = xl_config l"
proof (induction rs arbitrary: l)
  case (Cons r rs)
  then show ?case using limiter_check_simps(1) [of "fst r" "snd r" l] by simp
qed simp

text \<open>New clients push the older ones out of the queue, first in first out.\<close>

lemma new_clients_queue:
  assumes "limiter_inv l" "distinct (map snd rs)" "set (map snd rs) \<inter> set (eviction_order l) = {}"
  shows "eviction_order (fold limiter_check rs l)
    = drop (length (eviction_order l) + length rs - xl_max_buckets (xl_config l)) (eviction_order l @ map snd rs)"
  using assms
proof (induction rs arbitrary: l)
  case Nil
  then show ?case by (simp add: limiter_inv_def)
next
  case (Cons r rs)
  let ?q = "eviction_order l @ [snd r]" and ?mb = "xl_max_buckets (xl_config l)"
  let ?b = "length ?q - ?mb" and ?l = "limiter_check r l"
  have b: "?b \<le> length ?q" by simp
  from Cons.prems have "xl_buckets l (snd r) = None" by (auto simp: limiter_inv_def)
  then have order: "eviction_order ?l = drop ?b ?q" "xl_config ?l = xl_config l"
    using limiter_check_simps(1,2) [of "fst r" "snd r" l] by simp_all
  have inv: "limiter_inv ?l" using limiter_inv_check [OF Cons.prems(1), of "fst r" "snd r"] by simp
  have "set (map snd rs) \<inter> set ?q = {}" using Cons.prems(2,3) by auto
  with set_drop_subset [of ?b ?q] have "set (map snd rs) \<inter> set (eviction_order ?l) = {}"
    unfolding order by blast
  with Cons.IH [OF inv] Cons.prems(2) have "eviction_order (fold limiter_check (r # rs) l)
      = drop (length (drop ?b ?q) + length rs - ?mb) (drop ?b ?q @ map snd rs)"
    by (simp add: order del: drop_append length_drop length_append)
  also have "drop ?b ?q @ map snd rs = drop ?b (?q @ map snd rs)"
    using b by (metis drop_append diff_is_0_eq drop0)
  also have "drop (length (drop ?b ?q) + length rs - ?mb) (drop ?b (?q @ map snd rs))
      = drop (length (drop ?b ?q) + length rs - ?mb + ?b) (?q @ map snd rs)" by (rule drop_drop)
  also have "length (drop ?b ?q) + length rs - ?mb + ?b = length (eviction_order l) + length (r # rs) - ?mb"
    using Cons.prems(1) by (auto simp: limiter_inv_def)
  finally show ?case by simp
qed

text \<open>Concurrent checks. A thread left alone does what \<open>check\<close> does.\<close>

lemma check_alone:
  "(check_thread_step ^^ 4) (Looking now k, l)
    = (Checked (Some (check_allows (now, k) l)), limiter_check (now, k) l)"
  by (cases "xl_buckets l k")
    (simp_all add: numeral_eq_Suc check_allows_def limiter_check_def check_def Let_def case_prod_beta)

text \<open>How many keys a thread may still add to the order.\<close>

fun may_order :: "check_thread \<Rightarrow> nat" where
  "may_order (Looking now k) = 1"
| "may_order (Inserting now k) = 1"
| "may_order (Hitting now k inserted) = of_bool inserted"
| "may_order (Ordering k ok) = 1"
| "may_order (Checked r) = 0"

definition threads_ok :: "check_thread list \<Rightarrow> exporter_limiter \<Rightarrow> bool" where
  "threads_ok ts l \<longleftrightarrow> length (eviction_order l) + sum_list (map may_order ts) \<le> xl_max_buckets (xl_config l)
    \<and> Checked None \<notin> set ts \<and> (\<forall>now k ins. Hitting now k ins \<in> set ts \<longrightarrow> xl_buckets l k \<noteq> None)"

lemma threads_ok_step:
  assumes "threads_ok ts l" "i < length ts" and st: "check_thread_step (ts ! i, l) = (t, l')"
  shows "threads_ok (ts[i := t]) l'"
proof -
  have ti: "ts ! i \<in> set ts" using assms(2) by simp
  have sum: "sum_list (map may_order (ts[i := t])) + may_order (ts ! i) = sum_list (map may_order ts) + may_order t"
    using assms(2) elem_le_sum_list [of i "map may_order ts"] by (simp add: map_update sum_list_update)
  have bound: "length (eviction_order l) + sum_list (map may_order ts) \<le> xl_max_buckets (xl_config l)"
    using assms(1) by (simp add: threads_ok_def)
  have mine: "may_order (ts ! i) \<le> sum_list (map may_order ts)"
    using assms(2) elem_le_sum_list [of i "map may_order ts"] by simp
  have step: "xl_config l' = xl_config l \<and> t \<noteq> Checked None
    \<and> length (eviction_order l') + may_order t \<le> length (eviction_order l) + may_order (ts ! i)
    \<and> (\<forall>k. xl_buckets l k \<noteq> None \<longrightarrow> xl_buckets l' k \<noteq> None)
    \<and> (\<forall>now k ins. t = Hitting now k ins \<longrightarrow> xl_buckets l' k \<noteq> None)"
  proof (cases "ts ! i")
    case (Looking now k)
    with st show ?thesis by (auto split: if_splits)
  next
    case (Inserting now k)
    with st show ?thesis by auto
  next
    case (Hitting now k ins)
    then obtain e where "xl_buckets l k = Some e" using assms(1) ti unfolding threads_ok_def by (metis not_None_eq)
    with Hitting st show ?thesis by (auto simp: Let_def split: if_splits)
  next
    case (Ordering k ok)
    with mine bound have "length (eviction_order l @ [k]) \<le> xl_max_buckets (xl_config l)" by simp
    with Ordering st show ?thesis by auto
  next
    case (Checked r)
    with st assms(1) ti show ?thesis by (auto simp: threads_ok_def)
  qed
  have new: "x = t \<or> x \<in> set ts" if "x \<in> set (ts[i := t])" for x
    using that set_update_subset_insert [of ts i t] by blast
  have "xl_buckets l' k \<noteq> None" if "Hitting now k ins \<in> set (ts[i := t])" for now k ins
    using new [OF that] step assms(1) unfolding threads_ok_def by metis
  moreover have "Checked None \<notin> set (ts[i := t])"
    using new step assms(1) unfolding threads_ok_def by blast
  ultimately show ?thesis using step sum bound unfolding threads_ok_def by auto
qed

lemma threads_ok_run:
  "threads_ok ts l \<Longrightarrow> Checked None \<notin> set (fst (run_checks is (ts, l)))"
proof (induction "is" arbitrary: ts l)
  case Nil
  then show ?case by (simp add: threads_ok_def)
next
  case (Cons i "is")
  obtain t l' where "check_thread_step (ts ! i, l) = (t, l')" by force
  with Cons.IH threads_ok_step [OF Cons.prems] Cons.prems show ?case by auto
qed

text \<open>
  C19. Concurrent requests can make the limiter panic, but only through an eviction. While the
  queue has room for a key of every request under way, no interleaving of their accesses to the map
  makes one panic. With a full queue, a request of the client at its front that has found its bucket
  panics when a new client's check runs before it comes back to that bucket; alone it does not.
\<close>
theorem concurrent_checks:
  "(length (eviction_order l) + length rs \<le> xl_max_buckets (xl_config l) \<longrightarrow>
      Checked None \<notin> set (fst (run_checks sched (map (\<lambda>(now, k). Looking now k) rs, l))))
   \<and> (eviction_order l = k # order \<and> xl_max_buckets (xl_config l) = Suc (length order)
        \<and> xl_buckets l k \<noteq> None \<and> xl_buckets l k' = None \<longrightarrow>
      fst (run_checks [0, 1, 1, 1, 1, 0] ([Looking now k, Looking now' k'], l)) ! 0 = Checked None
      \<and> fst (run_checks [0, 0, 0, 0, 1, 1, 1, 1] ([Looking now k, Looking now' k'], l)) ! 0
        = Checked (Some (check_allows (now, k) l)))"
proof (intro conjI impI)
  assume room: "length (eviction_order l) + length rs \<le> xl_max_buckets (xl_config l)"
  have "sum_list (map may_order (map (\<lambda>(now, k). Looking now k) rs)) = length rs"
    by (induction rs) auto
  with room have "threads_ok (map (\<lambda>(now, k). Looking now k) rs) l" by (auto simp: threads_ok_def)
  then show "Checked None \<notin> set (fst (run_checks sched (map (\<lambda>(now, k). Looking now k) rs, l)))"
    by (rule threads_ok_run)
next
  assume full: "eviction_order l = k # order \<and> xl_max_buckets (xl_config l) = Suc (length order)
        \<and> xl_buckets l k \<noteq> None \<and> xl_buckets l k' = None"
  then have ne: "k \<noteq> k'" by auto
  from full ne show "fst (run_checks [0, 1, 1, 1, 1, 0] ([Looking now k, Looking now' k'], l)) ! 0 = Checked None"
    by (auto simp: Let_def)
  from full ne show "fst (run_checks [0, 0, 0, 0, 1, 1, 1, 1] ([Looking now k, Looking now' k'], l)) ! 0
        = Checked (Some (check_allows (now, k) l))"
    by (auto simp: Let_def check_allows_iff)
qed

lemma concurrent_checks_witness:
  "Checked None \<notin> set (fst (run_checks [0, 0, 0] (map (\<lambda>(now, k). Looking now k) [(0, ''a'')],
      exporter_limiter_new demo_limit)))
   \<and> fst (run_checks [0, 1, 1, 1, 1, 0] ([Looking 1 ''a'', Looking 1 ''b''],
       fold limiter_check [(0, ''a'')] (exporter_limiter_new demo_limit))) ! 0 = Checked None"
proof
  show "Checked None \<notin> set (fst (run_checks [0, 0, 0] (map (\<lambda>(now, k). Looking now k) [(0, ''a'')],
      exporter_limiter_new demo_limit)))"
    by (rule concurrent_checks [THEN conjunct1, rule_format]) (simp add: demo_limit_def exporter_limiter_new_def)
  show "fst (run_checks [0, 1, 1, 1, 1, 0] ([Looking 1 ''a'', Looking 1 ''b''],
       fold limiter_check [(0, ''a'')] (exporter_limiter_new demo_limit))) ! 0 = Checked None"
  proof -
    let ?l = "fold limiter_check [(0, ''a'')] (exporter_limiter_new demo_limit)"
    have "eviction_order ?l = ''a'' # [] \<and> xl_max_buckets (xl_config ?l) = Suc (length ([] :: string list))
        \<and> xl_buckets ?l ''a'' \<noteq> None \<and> xl_buckets ?l ''b'' = None"
      by (simp add: demo_limit_def exporter_limiter_new_def limiter_check_simps)
    from conjunct1 [OF mp [OF conjunct2 [OF concurrent_checks] this]] show ?thesis .
  qed
qed

text \<open>
  C35. The limit holds only up to that number of clients: in any state the limiter can reach,
  as many requests from new addresses as there are buckets push every older counter out (the queue
  is first in, first out, without regard to use), and a client that was being refused is let
  through again at once, still inside its window.
\<close>
theorem eviction_resets_limit:
  assumes l: "l = fold limiter_check earlier (exporter_limiter_new cfg)"
    and "distinct (map snd rs)" "set (map snd rs) \<inter> dom (xl_buckets l) = {}"
    and "length rs = max (xl_max_buckets cfg) 1" "k \<notin> set (map snd rs)" "0 < xl_max_requests cfg"
  shows "check_allows (now, k) (fold limiter_check rs l)"
proof -
  let ?l = "fold limiter_check rs l"
  have inv: "limiter_inv l" unfolding l by (intro limiter_inv_run limiter_inv_new)
  have cfg: "xl_config l = cfg\<lparr>xl_max_buckets := max (xl_max_buckets cfg) 1\<rparr>"
    by (simp add: l limiter_config_run exporter_limiter_new_def)
  have "set (map snd rs) \<inter> set (eviction_order l) = {}" using assms(3) inv by (simp add: limiter_inv_def)
  from new_clients_queue [OF inv assms(2) this] have "eviction_order ?l = map snd rs"
    by (simp add: cfg assms(4))
  moreover have "limiter_inv ?l" using inv by (rule limiter_inv_run)
  ultimately have "k \<notin> dom (xl_buckets ?l)" using assms(5) by (simp add: limiter_inv_def)
  then have "xl_buckets ?l k = None" by auto
  with assms(6) show ?thesis
    by (simp add: check_allows_iff limiter_config_run cfg hit_bucket_def fresh_bucket_def
        word_less_nat_alt word_le_nat_alt)
qed

lemma eviction_resets_limit_witness:
  "\<not> check_allows (1, ''a'') (fold limiter_check [(0, ''a'')] (exporter_limiter_new demo_limit))
   \<and> check_allows (3, ''a'') (fold limiter_check [(2, ''b'')]
       (fold limiter_check [(0, ''a'')] (exporter_limiter_new demo_limit)))"
proof
  show "\<not> check_allows (1, ''a'') (fold limiter_check [(0, ''a'')] (exporter_limiter_new demo_limit))"
    by (simp add: check_allows_iff limiter_check_simps exporter_limiter_new_def demo_limit_def
        hit_bucket_def fresh_bucket_def word_le_nat_alt)
  show "check_allows (3, ''a'') (fold limiter_check [(2, ''b'')]
       (fold limiter_check [(0, ''a'')] (exporter_limiter_new demo_limit)))"
    by (rule eviction_resets_limit [OF refl])
      (auto simp: demo_limit_def exporter_limiter_new_def limiter_check_simps split: if_splits)
qed

subsection \<open>The nonce cache\<close>

text \<open>A \<open>DashMap\<close> is iterated in some order, each entry once.\<close>

definition iterates :: "nonce_iter \<Rightarrow> bool" where
  "iterates iter \<longleftrightarrow> (\<forall>m. finite (dom m) \<longrightarrow> distinct (map fst (iter m)) \<and> map_of (iter m) = m)"

text \<open>A request: the order of iteration it meets, its time and its nonce.\<close>

type_synonym nonce_request = "nonce_iter \<times> u64 \<times> string"

definition nonce_step :: "nonce_request \<Rightarrow> nonce_cache \<Rightarrow> nonce_cache" where
  "nonce_step r c = (case r of (iter, now, nonce) \<Rightarrow> snd (check_and_add iter now nonce c))"

definition accepts :: "nonce_request \<Rightarrow> nonce_cache \<Rightarrow> bool" where
  "accepts r c = (case r of (iter, now, nonce) \<Rightarrow> fst (check_and_add iter now nonce c))"

abbreviation rq_time_of :: "nonce_request \<Rightarrow> u64" where
  "rq_time_of r \<equiv> fst (snd r)"

lemma iter_length:
  assumes "iterates iter" "finite (dom m)"
  shows "length (iter m) = card (dom m)" "set (iter m) = {(k, v). m k = Some v}"
proof -
  from assms have d: "distinct (map fst (iter m))" "map_of (iter m) = m" by (auto simp: iterates_def)
  have "card (dom m) = card (set (map fst (iter m)))" using d(2) dom_map_of_conv_image_fst [of "iter m"] by simp
  also have "\<dots> = length (map fst (iter m))" using d(1) by (rule distinct_card)
  finally show "length (iter m) = card (dom m)" by simp
  show "set (iter m) = {(k, v). m k = Some v}"
    using d map_of_eq_Some_iff [OF d(1)] by (auto simp: d(2))
qed

lemma min_fold_least:
  "foldl (\<lambda>best y. if snd y < snd best then y else best) x ys \<in> set (x # ys)
   \<and> (\<forall>y\<in>set (x # ys). snd (foldl (\<lambda>best y. if snd y < snd best then y else best) x ys) \<le> (snd y :: u64))"
proof (induction ys arbitrary: x)
  case (Cons y ys)
  show ?case
  proof (cases "snd y < snd x")
    case True
    with Cons.IH [of y] show ?thesis by (auto intro: order_trans [OF _ less_imp_le])
  next
    case False
    with Cons.IH [of x] show ?thesis by (auto intro: order_trans)
  qed
qed simp

lemma min_by_timestamp_least:
  "min_by_timestamp xs = Some e \<Longrightarrow> e \<in> set xs \<and> (\<forall>y\<in>set xs. snd e \<le> snd y)"
  using min_fold_least by (fastforce simp: min_by_timestamp_def split: list.splits)

lemma min_by_timestamp_None: "min_by_timestamp xs = None \<longleftrightarrow> xs = []"
  by (auto simp: min_by_timestamp_def split: list.splits)

text \<open>What an eviction removes is older than all the rest.\<close>

lemma evict_oldest_cases:
  assumes "iterates iter" "finite (dom (nonces c))"
  obtains (empty) "nonces c = Map.empty" "evict_oldest iter c = c"
    | (gone) k t where "nonces c k = Some t" "\<forall>j u. nonces c j = Some u \<longrightarrow> t \<le> u"
        "evict_oldest iter c = c\<lparr>nonces := (nonces c)(k := None)\<rparr>"
proof (cases "min_by_timestamp (iter (nonces c))")
  case None
  with iter_length [OF assms] have "dom (nonces c) = {}" by (simp add: min_by_timestamp_None assms(2))
  with None show thesis by (intro empty) (auto simp: evict_oldest_def)
next
  case (Some e)
  obtain k t where e: "e = (k, t)" by (cases e)
  from min_by_timestamp_least [OF Some] iter_length(2) [OF assms] show thesis
    by (intro gone [of k t]) (use Some in \<open>auto simp: evict_oldest_def e\<close>)
qed

text \<open>Every operation of the cache keeps what it needs of it.\<close>

definition cache_finite :: "nonce_cache \<Rightarrow> bool" where
  "cache_finite c \<longleftrightarrow> finite (dom (nonces c))"

lemma maybe_cleanup_simps [simp]:
  "replay_cfg (maybe_cleanup_expired now c) = replay_cfg c"
  "nonces (maybe_cleanup_expired now c) k = (case nonces c k of None \<Rightarrow> None
     | Some t \<Rightarrow> if sweep_interval (replay_cfg c) \<le> saturating_sub now (last_swept_at c)
         \<and> \<not> saturating_sub now t < nonce_ttl_secs (replay_cfg c) then None else Some t)"
  by (auto simp: maybe_cleanup_expired_def cleanup_expired_def not_less split: option.split)

lemma maybe_cleanup_submap: "nonces (maybe_cleanup_expired now c) k = Some t \<Longrightarrow> nonces c k = Some t"
  by (auto split: option.splits if_splits)

lemma maybe_cleanup_dom: "dom (nonces (maybe_cleanup_expired now c)) \<subseteq> dom (nonces c)"
  using maybe_cleanup_submap by fast

lemma make_room_cfg [simp]: "replay_cfg (make_room iter c) = replay_cfg c"
    "last_swept_at (make_room iter c) = last_swept_at c"
  by (auto simp: make_room_def evict_oldest_def split: option.split)

lemma make_room_submap: "nonces (make_room iter c) k = Some t \<Longrightarrow> nonces c k = Some t"
  by (auto simp: make_room_def evict_oldest_def split: option.splits if_splits)

lemma make_room_dom: "dom (nonces (make_room iter c)) \<subseteq> dom (nonces c)"
  using make_room_submap by fast

lemma insert_nonce_simps [simp]:
  "nonces (insert_nonce now n c) = (nonces c)(n := Some now)"
  "replay_cfg (insert_nonce now n c) = replay_cfg c" "last_swept_at (insert_nonce now n c) = last_swept_at c"
  by (simp_all add: insert_nonce_def)

lemma nonce_step_eq:
  "nonce_step (iter, now, n) c = (let c = maybe_cleanup_expired now c in
     if nonces c n \<noteq> None then c else insert_nonce now n (make_room iter c))"
  "accepts (iter, now, n) c \<longleftrightarrow> nonces (maybe_cleanup_expired now c) n = None"
  by (auto simp: nonce_step_def accepts_def check_and_add_def Let_def)

lemma nonce_step_entry:
  "nonces (nonce_step (iter, now, n) c) k = Some u \<Longrightarrow> nonces c k = Some u
     \<or> k = n \<and> u = now \<and> accepts (iter, now, n) c"
  by (auto simp del: maybe_cleanup_simps simp: nonce_step_eq Let_def split: if_splits
      dest: maybe_cleanup_submap make_room_submap)

lemma nonce_step_cfg [simp]: "replay_cfg (nonce_step r c) = replay_cfg c"
  by (cases r) (simp add: nonce_step_eq Let_def)

lemma nonce_step_finite: "cache_finite c \<Longrightarrow> cache_finite (nonce_step (iter, now, n) c)"
proof -
  assume "cache_finite c"
  moreover have "dom (nonces (nonce_step (iter, now, n) c)) \<subseteq> insert n (dom (nonces c))"
    by (auto dest!: nonce_step_entry)
  ultimately show ?thesis by (auto simp: cache_finite_def intro: finite_subset)
qed

lemma nonce_run_cfg [simp]: "replay_cfg (fold nonce_step rs c) = replay_cfg c"
  by (induction rs arbitrary: c) simp_all

lemma nonce_run_finite: "cache_finite c \<Longrightarrow> cache_finite (fold nonce_step rs c)"
proof (induction rs arbitrary: c)
  case (Cons r rs)
  then show ?case using nonce_step_finite [of c "fst r" "fst (snd r)" "snd (snd r)"] by simp
qed simp

lemma nonce_cache_new_simps [simp]:
  "replay_cfg (nonce_cache_new cfg) = cfg" "nonces (nonce_cache_new cfg) k = None" "last_swept_at (nonce_cache_new cfg) = 0"
  by (simp_all add: nonce_cache_new_def)

lemma cache_finite_new: "cache_finite (nonce_cache_new cfg)"
  by (simp add: cache_finite_def nonce_cache_new_def)

text \<open>How many entries are of a time or later.\<close>

definition younger :: "u64 \<Rightarrow> nonce_cache \<Rightarrow> string set" where
  "younger t c = {k. \<exists>u. nonces c k = Some u \<and> t \<le> u}"

lemma younger_finite: "cache_finite c \<Longrightarrow> finite (younger t c)"
  by (auto simp: younger_def cache_finite_def intro: finite_subset [of _ "dom (nonces c)"])

lemma younger_step:
  assumes "cache_finite c"
  shows "card (younger t (nonce_step (iter, now, n) c)) \<le> card (younger t c) + (if t \<le> now then 1 else 0)"
proof -
  have "younger t (nonce_step (iter, now, n) c) \<subseteq> (if t \<le> now then insert n (younger t c) else younger t c)"
    by (auto simp: younger_def dest!: nonce_step_entry)
  then have "card (younger t (nonce_step (iter, now, n) c))
      \<le> card (if t \<le> now then insert n (younger t c) else younger t c)"
    by (rule card_mono [rotated]) (simp add: younger_finite assms)
  also have "\<dots> \<le> card (younger t c) + (if t \<le> now then 1 else 0)"
    by (simp add: card_insert_le_m1 card_insert_if younger_finite assms)
  finally show ?thesis .
qed

lemma younger_run:
  "cache_finite c \<Longrightarrow> card (younger t (fold nonce_step rs c))
    \<le> card (younger t c) + length (filter (\<lambda>r. t \<le> rq_time_of r) rs)"
proof (induction rs arbitrary: c)
  case (Cons r rs)
  obtain iter now n where r: "r = (iter, now, n)" by (cases r)
  have "card (younger t (fold nonce_step rs (nonce_step r c)))
      \<le> card (younger t (nonce_step r c)) + length (filter (\<lambda>r. t \<le> rq_time_of r) rs)"
    using Cons.prems by (intro Cons.IH) (simp add: r nonce_step_finite)
  with younger_step [OF Cons.prems, of t iter now n] show ?case by (simp add: r split: if_splits)
qed simp

text \<open>While fewer entries than the capacity are as young, an entry stays.\<close>

lemma nonce_stays:
  assumes "iterates iter" "cache_finite c" "nonces c n = Some t"
    and "saturating_sub now t < nonce_ttl_secs (replay_cfg c)"
    and "card (younger t c) < cache_size (replay_cfg c)"
  shows "nonces (maybe_cleanup_expired now c) n = Some t" "nonces (nonce_step (iter, now, m) c) n = Some t"
proof -
  let ?c = "maybe_cleanup_expired now c"
  show here: "nonces ?c n = Some t" using assms(3,4) by simp
  have fin: "finite (dom (nonces ?c))"
    using assms(2) unfolding cache_finite_def by (rule finite_subset [OF maybe_cleanup_dom])
  have "nonces (make_room iter ?c) n = Some t"
  proof (rule evict_oldest_cases [OF assms(1) fin])
    fix k u assume k: "nonces ?c k = Some u" "\<forall>j v. nonces ?c j = Some v \<longrightarrow> u \<le> v"
      "evict_oldest iter ?c = ?c\<lparr>nonces := (nonces ?c)(k := None)\<rparr>"
    show ?thesis
    proof (cases "card (dom (nonces ?c)) < cache_size (replay_cfg c)")
      case True
      then show ?thesis using here iter_length [OF assms(1) fin] by (simp add: make_room_def del: maybe_cleanup_simps(2))
    next
      case False
      have "k \<noteq> n"
      proof
        assume "k = n"
        with k(1,2) here have "\<forall>j v. nonces ?c j = Some v \<longrightarrow> t \<le> v" by simp
        then have "dom (nonces ?c) \<subseteq> younger t c"
          by (auto simp del: maybe_cleanup_simps simp: younger_def dest: maybe_cleanup_submap)
        then have "card (dom (nonces ?c)) \<le> card (younger t c)"
          by (rule card_mono [OF younger_finite [OF assms(2)]])
        with False assms(5) show False by simp
      qed
      with here k(3) show ?thesis by (simp add: make_room_def del: maybe_cleanup_simps(2))
    qed
  qed (use here in simp)
  with here show "nonces (nonce_step (iter, now, m) c) n = Some t"
    by (auto simp: nonce_step_eq Let_def simp del: maybe_cleanup_simps)
qed


lemma nonce_stays_run:
  assumes "cache_finite c" "nonces c n = Some t" "t \<le> now"
    and "\<forall>r\<in>set rs. iterates (fst r) \<and> rq_time_of r \<le> now"
    and "unat now - unat t < unat (nonce_ttl_secs (replay_cfg c))"
    and "card (younger t c) + length rs \<le> cache_size (replay_cfg c)"
  shows "nonces (fold nonce_step rs c) n = Some t"
  using assms
proof (induction rs arbitrary: c)
  case (Cons r rs)
  obtain iter s m where r: "r = (iter, s, m)" by (cases r)
  have fresh: "saturating_sub s t < nonce_ttl_secs (replay_cfg c)"
    using Cons.prems(4,5) by (auto simp: r word_conv unat_saturating_sub intro: le_less_trans [OF diff_le_mono])
  have "nonces (nonce_step r c) n = Some t"
    using nonce_stays(2) [OF _ Cons.prems(1,2) fresh, of iter m] Cons.prems(4,6) by (simp add: r)
  moreover have "card (younger t (nonce_step r c)) + length rs \<le> cache_size (replay_cfg c)"
    using younger_step [OF Cons.prems(1), of t iter s m] Cons.prems(6) by (simp add: r split: if_splits)
  moreover have "cache_finite (nonce_step r c)" using Cons.prems(1) by (simp add: r nonce_step_finite)
  ultimately show ?case using Cons.IH [of "nonce_step r c"] Cons.prems(3,4,5) by simp
qed simp

text \<open>
  A replay is caught: a nonce accepted at \<open>t\<close> is refused when it comes again at \<open>now\<close>, less
  than the time to live later, whatever nonces were used between, as long as the requests from \<open>t\<close>
  on are no more than the cache holds. The eviction at capacity takes an entry older than it
  (entries are evicted by age, not by the order of the hash map), and the sweep only what expired.
\<close>
theorem nonce_rejected_within_ttl:
  assumes "\<forall>r\<in>set (earlier @ (iter, t, n) # mid @ [(iter', now, n)]). iterates (fst r)"
    and "\<forall>r\<in>set mid. rq_time_of r \<le> now" "t \<le> now"
    and "accepts (iter, t, n) (fold nonce_step earlier (nonce_cache_new cfg))"
    and "unat now - unat t < unat (nonce_ttl_secs cfg)"
    and "length (filter (\<lambda>r. t \<le> rq_time_of r) earlier) + 1 + length mid < cache_size cfg"
  shows "\<not> accepts (iter', now, n) (fold nonce_step (earlier @ (iter, t, n) # mid) (nonce_cache_new cfg))"
proof -
  let ?c = "fold nonce_step earlier (nonce_cache_new cfg)"
  let ?d = "nonce_step (iter, t, n) ?c" and ?e = "fold nonce_step (earlier @ (iter, t, n) # mid) (nonce_cache_new cfg)"
  have fin: "cache_finite ?c" by (intro nonce_run_finite cache_finite_new)
  have cfg: "replay_cfg ?d = cfg" "replay_cfg ?e = cfg" by (simp_all add: nonce_cache_new_def)
  have d: "cache_finite ?d" "nonces ?d n = Some t"
    using nonce_step_finite [OF fin] assms(4) by (simp, simp add: nonce_step_eq Let_def del: maybe_cleanup_simps(2))
  have none: "card (younger t (nonce_cache_new cfg)) = 0" by (simp add: younger_def nonce_cache_new_def)
  have "card (younger t ?d) \<le> length (filter (\<lambda>r. t \<le> rq_time_of r) earlier) + 1"
    using younger_step [OF fin, of t iter t n] younger_run [OF cache_finite_new, of t earlier cfg] none by simp
  with assms(1,2,3,5,6) have "nonces (fold nonce_step mid ?d) n = Some t"
    by (intro nonce_stays_run [OF d(1) d(2), of now]) (auto simp: cfg)
  then have e: "nonces ?e n = Some t" by simp
  have fresh: "saturating_sub now t < nonce_ttl_secs (replay_cfg ?e)"
    using assms(5) by (simp add: cfg word_conv unat_saturating_sub del: fold_append)
  from e fresh show ?thesis unfolding nonce_step_eq(2) by (simp del: fold_append nonce_run_cfg)
qed

subsection \<open>No false alarms\<close>

definition nonce_trail :: "nonce_request list \<Rightarrow> nonce_cache \<Rightarrow> bool" where
  "nonce_trail rs c \<longleftrightarrow> (\<forall>k u. nonces c k = Some u \<longrightarrow>
     (\<exists>p iter q. rs = p @ (iter, u, k) # q \<and> accepts (iter, u, k) (fold nonce_step p (nonce_cache_new (replay_cfg c)))))"

lemma nonce_trail_run: "nonce_trail rs (fold nonce_step rs (nonce_cache_new cfg))"
proof (induction rs rule: rev_induct)
  case Nil
  then show ?case by (simp add: nonce_trail_def nonce_cache_new_def)
next
  case (snoc r rs)
  obtain iter now n where r: "r = (iter, now, n)" by (cases r)
  let ?c = "fold nonce_step rs (nonce_cache_new cfg)"
  have cfg: "replay_cfg ?c = cfg" by (simp add: nonce_cache_new_def)
  show ?case unfolding nonce_trail_def
  proof (intro allI impI)
    fix k u assume "nonces (fold nonce_step (rs @ [r]) (nonce_cache_new cfg)) k = Some u"
    then have "nonces (nonce_step (iter, now, n) ?c) k = Some u" by (simp add: r)
    from nonce_step_entry [OF this]
    show "\<exists>p iter q. rs @ [r] = p @ (iter, u, k) # q
      \<and> accepts (iter, u, k) (fold nonce_step p (nonce_cache_new (replay_cfg (fold nonce_step (rs @ [r]) (nonce_cache_new cfg)))))"
    proof (elim disjE conjE)
      assume "nonces ?c k = Some u"
      with snoc obtain p it q where "rs = p @ (it, u, k) # q" "accepts (it, u, k) (fold nonce_step p (nonce_cache_new cfg))"
        unfolding nonce_trail_def cfg by blast
      then show ?thesis
        by (intro exI [of _ p] exI [of _ it] exI [of _ "q @ [r]"]) (simp add: cfg)
    next
      assume "k = n" "u = now" "accepts (iter, now, n) ?c"
      then show ?thesis
        by (intro exI [of _ rs] exI [of _ iter] exI [of _ "[]"]) (simp add: cfg r)
    qed
  qed
qed

text \<open>Nothing expired is older than the last sweep.\<close>

definition swept_fresh :: "nonce_cache \<Rightarrow> bool" where
  "swept_fresh c \<longleftrightarrow> (\<forall>k u. nonces c k = Some u \<longrightarrow>
     unat (last_swept_at c) \<le> unat u \<or> unat (last_swept_at c) < unat u + unat (nonce_ttl_secs (replay_cfg c)))"

lemma maybe_cleanup_swept: "last_swept_at (maybe_cleanup_expired now c) =
    (if sweep_interval (replay_cfg c) \<le> saturating_sub now (last_swept_at c) then now else last_swept_at c)"
  by (auto simp: maybe_cleanup_expired_def cleanup_expired_def)

lemma maybe_cleanup_swept_fresh: "swept_fresh c \<Longrightarrow> swept_fresh (maybe_cleanup_expired now c)"
  by (auto simp: swept_fresh_def maybe_cleanup_swept word_conv unat_saturating_sub split: option.splits if_splits)

lemma nonce_step_swept_fresh:
  assumes "swept_fresh c" "last_swept_at c \<le> now"
  shows "swept_fresh (nonce_step (iter, now, n) c)" "last_swept_at (nonce_step (iter, now, n) c) \<le> now"
proof -
  let ?c = "maybe_cleanup_expired now c"
  have le: "last_swept_at ?c \<le> now" using assms(2) by (simp add: maybe_cleanup_swept)
  then show "last_swept_at (nonce_step (iter, now, n) c) \<le> now" by (simp add: nonce_step_eq Let_def)
  have "swept_fresh (insert_nonce now n (make_room iter ?c))"
    using maybe_cleanup_swept_fresh [OF assms(1), of now] le
    by (auto simp: swept_fresh_def word_conv simp del: maybe_cleanup_simps(2) dest: make_room_submap)
  with maybe_cleanup_swept_fresh [OF assms(1), of now]
  show "swept_fresh (nonce_step (iter, now, n) c)" by (simp add: nonce_step_eq Let_def)
qed

lemma swept_fresh_run:
  assumes "sorted (map rq_time_of rs)" "\<forall>r\<in>set rs. rq_time_of r \<le> now"
  shows "swept_fresh (fold nonce_step rs (nonce_cache_new cfg))
    \<and> last_swept_at (fold nonce_step rs (nonce_cache_new cfg)) \<le> now"
  using assms
proof (induction rs arbitrary: now rule: rev_induct)
  case Nil
  then show ?case by (simp add: swept_fresh_def nonce_cache_new_def)
next
  case (snoc r rs)
  obtain iter s n where r: "r = (iter, s, n)" by (cases r)
  let ?c = "fold nonce_step rs (nonce_cache_new cfg)"
  have "swept_fresh ?c \<and> last_swept_at ?c \<le> s" using snoc by (intro snoc.IH) (auto simp: r sorted_append)
  then have "swept_fresh (nonce_step r ?c)" "last_swept_at (nonce_step r ?c) \<le> s"
    using nonce_step_swept_fresh [of ?c s iter n] by (simp_all add: r)
  with snoc.prems(2) show ?case by (auto simp: r)
qed

text \<open>
  C28. A refusal is justified, up to one sweep interval: a nonce is refused only when a request with
  the same nonce was accepted before, less than the time to live plus a tenth of it (at least a
  second) ago. Between the end of its life and the next sweep an expired nonce is still refused.
\<close>
theorem nonce_rejection_justified:
  assumes "sorted (map rq_time_of (rs @ [(iter, now, n)]))"
    and "\<not> accepts (iter, now, n) (fold nonce_step rs (nonce_cache_new cfg))"
  shows "\<exists>p iter' s q. rs = p @ (iter', s, n) # q \<and> accepts (iter', s, n) (fold nonce_step p (nonce_cache_new cfg))
    \<and> unat now < unat s + unat (nonce_ttl_secs cfg) + unat (sweep_interval cfg)"
proof -
  let ?c = "fold nonce_step rs (nonce_cache_new cfg)"
  have cfg: "replay_cfg ?c = cfg" by (simp add: nonce_cache_new_def)
  have "swept_fresh ?c" using swept_fresh_run [of rs now cfg] assms(1) by (auto simp: sorted_append)
  from assms(2) obtain s where s: "nonces (maybe_cleanup_expired now ?c) n = Some s"
    by (auto simp: nonce_step_eq simp del: maybe_cleanup_simps)
  then have "nonces ?c n = Some s" by (rule maybe_cleanup_submap)
  with nonce_trail_run [of rs cfg] have "\<exists>p iter' q. rs = p @ (iter', s, n) # q
      \<and> accepts (iter', s, n) (fold nonce_step p (nonce_cache_new cfg))"
    unfolding nonce_trail_def cfg by blast
  moreover have "unat now < unat s + unat (nonce_ttl_secs cfg) + unat (sweep_interval cfg)"
  proof -
    from \<open>swept_fresh ?c\<close> \<open>nonces ?c n = Some s\<close> have "unat (last_swept_at ?c) \<le> unat s
        \<or> unat (last_swept_at ?c) < unat s + unat (nonce_ttl_secs cfg)"
      unfolding swept_fresh_def cfg by blast
    moreover from s \<open>nonces ?c n = Some s\<close> have "unat now < unat (last_swept_at ?c) + unat (sweep_interval cfg)
        \<or> unat now < unat s + unat (nonce_ttl_secs cfg)"
      by (auto simp: cfg word_conv unat_saturating_sub split: if_splits)
    ultimately show ?thesis by linarith
  qed
  ultimately show ?thesis by blast
qed


subsection \<open>The bound on memory\<close>

lemma make_room_card:
  assumes "iterates iter" "cache_finite c" "card (dom (nonces c)) \<le> max (cache_size (replay_cfg c)) 1"
  shows "card (dom (nonces (make_room iter c))) < max (cache_size (replay_cfg c)) 1"
  using assms(1) assms(2) [unfolded cache_finite_def]
proof (rule evict_oldest_cases)
  fix k t assume k: "nonces c k = Some t" "evict_oldest iter c = c\<lparr>nonces := (nonces c)(k := None)\<rparr>"
  then have "card (dom (nonces c)) > 0" using assms(2) by (auto simp: cache_finite_def card_gt_0_iff)
  with k assms(3) iter_length(1) [OF assms(1) assms(2) [unfolded cache_finite_def]] show ?thesis
    using assms(2) by (auto simp: make_room_def cache_finite_def card_Diff_singleton domI)
next
  assume "nonces c = Map.empty" "evict_oldest iter c = c"
  then show ?thesis by (auto simp: make_room_def max_def)
qed

lemma cache_bounded_step:
  assumes "iterates iter" "cache_finite c" "card (dom (nonces c)) \<le> max (cache_size (replay_cfg c)) 1"
  shows "card (dom (nonces (nonce_step (iter, now, n) c))) \<le> max (cache_size (replay_cfg c)) 1"
proof -
  let ?c = "maybe_cleanup_expired now c"
  have fin: "cache_finite ?c"
    using assms(2) unfolding cache_finite_def by (rule finite_subset [OF maybe_cleanup_dom])
  have small: "card (dom (nonces ?c)) \<le> max (cache_size (replay_cfg ?c)) 1"
    using card_mono [OF assms(2) [unfolded cache_finite_def] maybe_cleanup_dom [of now c]] assms(3) by simp
  have "card (dom (nonces (insert_nonce now n (make_room iter ?c)))) \<le> Suc (card (dom (nonces (make_room iter ?c))))"
    by (simp add: card_insert_le_m1 card_insert_if finite_subset [OF make_room_dom fin [unfolded cache_finite_def]])
  with make_room_card [OF assms(1) fin small] small show ?thesis
    by (simp add: nonce_step_eq Let_def del: maybe_cleanup_simps(2))
qed

text \<open>
  The memory of the cache is bounded: whatever nonces come, whatever the order in which the
  hash map is iterated, it never holds more than its configured size (one entry when that is zero).
\<close>
theorem nonce_cache_bounded:
  assumes "\<forall>r\<in>set rs. iterates (fst r)"
  shows "card (dom (nonces (fold nonce_step rs (nonce_cache_new cfg)))) \<le> max (cache_size cfg) 1"
  using assms
proof (induction rs rule: rev_induct)
  case Nil
  then show ?case by (simp add: dom_def)
next
  case (snoc r rs)
  then show ?case
    using cache_bounded_step [OF _ nonce_run_finite [OF cache_finite_new], of "fst r" rs cfg "fst (snd r)" "snd (snd r)"]
    by simp
qed

subsection \<open>Two requests at once\<close>

lemma sweep_interval_pos: "0 < sweep_interval cfg"
proof -
  have "(1 :: u64) \<le> sweep_interval cfg" by (simp add: sweep_interval_def)
  then show ?thesis by (rule less_le_trans [rotated]) simp
qed

text \<open>
  C36. The check and the insertion of a nonce are not one step. For a nonce not in the cache, two
  requests that carry it and take turns between their accesses to the map are both accepted; one
  after the other, the second is refused.
\<close>
theorem nonce_race:
  assumes "nonces (maybe_cleanup_expired now c) n = None"
  shows "fst (run_schedule iter [0, 1, 0, 1, 0, 1, 0, 1] ([Arrived now n, Arrived now n], c))
      = [Answered True, Answered True]
    \<and> fst (run_schedule iter [0, 0, 0, 0, 1, 1, 1, 1] ([Arrived now n, Arrived now n], c))
      = [Answered True, Answered False]"
proof -
  have again: "maybe_cleanup_expired now d = d"
    if "last_swept_at d = last_swept_at (maybe_cleanup_expired now c)" "replay_cfg d = replay_cfg c" for d
  proof -
    have "saturating_sub now (last_swept_at d) < sweep_interval (replay_cfg d)"
      using that sweep_interval_pos [of "replay_cfg c"]
      by (simp add: maybe_cleanup_swept saturating_sub_def not_le split: if_splits)
    then show ?thesis by (simp add: maybe_cleanup_expired_def)
  qed
  show ?thesis using assms by (simp add: again del: maybe_cleanup_simps(2))
qed

text \<open>The witnesses iterate a map in the order of its keys.\<close>

definition sorted_iter :: nonce_iter where
  "sorted_iter m = map (\<lambda>k. (k, the (m k))) (sorted_list_of_set (dom m))"

lemma iterates_sorted_iter: "iterates sorted_iter"
  unfolding iterates_def
proof (intro allI impI conjI)
  fix m :: "string \<Rightarrow> u64 option" assume fin: "finite (dom m)"
  show "distinct (map fst (sorted_iter m))" by (simp add: sorted_iter_def comp_def)
  show "map_of (sorted_iter m) = m"
  proof (rule ext)
    fix k show "map_of (sorted_iter m) k = m k"
      using fin by (cases "m k") (auto simp: sorted_iter_def map_of_map_restrict restrict_map_def)
  qed
qed

lemma nonce_rejected_within_ttl_witness:
  "\<not> accepts (sorted_iter, 7, ''a'') (fold nonce_step
     ([] @ (sorted_iter, 5, ''a'') # [(sorted_iter, 6, ''b'')])
     (nonce_cache_new \<lparr>replay_enabled = True, cache_size = 3, nonce_ttl_secs = 10\<rparr>))"
  by (rule nonce_rejected_within_ttl)
    (simp_all add: iterates_sorted_iter nonce_step_eq make_room_def sorted_iter_def)

lemma nonce_rejection_justified_witness:
  "\<exists>p iter' s q. [(sorted_iter, 5, ''a'')] = p @ (iter', s, ''a'') # q
    \<and> accepts (iter', s, ''a'') (fold nonce_step p
        (nonce_cache_new \<lparr>replay_enabled = True, cache_size = 3, nonce_ttl_secs = 10\<rparr>))
    \<and> unat (14 :: u64) < unat s + unat (nonce_ttl_secs \<lparr>replay_enabled = True, cache_size = 3, nonce_ttl_secs = 10\<rparr>)
        + unat (sweep_interval \<lparr>replay_enabled = True, cache_size = 3, nonce_ttl_secs = 10\<rparr>)"
  by (rule nonce_rejection_justified [of _ sorted_iter])
    (simp_all add: accepts_def nonce_step_def check_and_add_def Let_def maybe_cleanup_expired_def cleanup_expired_def
      nonce_cache_new_def make_room_def insert_nonce_def sorted_iter_def saturating_sub_def sweep_interval_def
      del: maybe_cleanup_simps)

lemma nonce_cache_bounded_witness:
  "card (dom (nonces (fold nonce_step [(sorted_iter, 5, ''a'')]
     (nonce_cache_new \<lparr>replay_enabled = True, cache_size = 0, nonce_ttl_secs = 10\<rparr>)))) \<le> 1"
  using nonce_cache_bounded [of "[(sorted_iter, 5, ''a'')]" "\<lparr>replay_enabled = True, cache_size = 0, nonce_ttl_secs = 10\<rparr>"]
  by (simp add: iterates_sorted_iter)

lemma nonce_race_witness:
  "fst (run_schedule sorted_iter [0, 1, 0, 1, 0, 1, 0, 1] ([Arrived 5 ''a'', Arrived 5 ''a''],
     nonce_cache_new \<lparr>replay_enabled = True, cache_size = 3, nonce_ttl_secs = 10\<rparr>))
   = [Answered True, Answered True]"
  using nonce_race [of 5 "nonce_cache_new \<lparr>replay_enabled = True, cache_size = 3, nonce_ttl_secs = 10\<rparr>" "''a''" sorted_iter]
  by simp

end
