(* ===== verification/Exporter_Props.thy ===== *)
theory Exporter_Props
  imports Exporter Exporter_Guards_Props Api_Http_Props "HOL-Library.Sublist"
begin

text \<open>
  Proofs about the metrics exporter as a whole: who is served behind its layers, a replayed request
  end to end, the precision of a gauge, the isolation of the scrapes from each other, and what
  becomes of a scrape with the RPC client the exporter ships.
\<close>

subsection \<open>The layers in front of an endpoint\<close>

definition authentic :: "auth_config \<Rightarrow> headers \<Rightarrow> bool" where
  "authentic acfg hs \<longleftrightarrow> (auth_enabled acfg \<longrightarrow> extract_api_key hs = auth_api_key acfg)"

definition protected_path :: "http_path \<Rightarrow> bool" where
  "protected_path p \<longleftrightarrow> p = MetricsPath \<or> p = SwaggerPath"

text \<open>The nonce of a request that gets as far as the nonce cache.\<close>

definition nonce_seen ::
    "auth_config \<Rightarrow> exporter_limiter \<Rightarrow> nonce_cache \<Rightarrow> http_request \<Rightarrow> string option" where
  "nonce_seen acfg l c rq =
     (if check_allows (rq_instant rq, rq_ip rq) l \<and> protected_path (rq_path rq)
         \<and> authentic acfg (rq_headers rq) \<and> replay_enabled (replay_cfg c)
      then extract_nonce (rq_headers rq) else None)"

lemma auth_env_key: "auth_enabled (auth_from_env env) \<Longrightarrow> auth_api_key (auth_from_env env) \<noteq> None"
  by (simp add: auth_from_env_def Let_def)

lemma auth_middleware_eq:
  assumes "auth_enabled acfg \<Longrightarrow> auth_api_key acfg \<noteq> None"
  shows "auth_middleware acfg hs handler s =
    (if authentic acfg hs then handler s
     else (auth_error_reply (if extract_api_key hs = None then MissingKey else InvalidKey), s))"
  using assms by (auto simp: auth_middleware_def authentic_def split: option.splits)

lemma replay_middleware_eq:
  "replay_protection_middleware iter now hs handler (c, s) =
     (if \<not> replay_enabled (replay_cfg c) then (let (r, s) = handler s in (r, c, s))
      else case extract_nonce hs of
        None \<Rightarrow> (Reply 400 ''Missing X-Nonce header'', c, s)
      | Some n \<Rightarrow> if accepts (iter, now, n) c
          then (let (r, s) = handler s in (r, nonce_step (iter, now, n) c, s))
          else (Reply 409 ''Duplicate nonce detected (replay attack)'', nonce_step (iter, now, n) c, s))"
  by (simp add: replay_protection_middleware_def replay_error_reply_def accepts_def nonce_step_def
      case_prod_beta Let_def split: option.split)

lemma handle_request_eq:
  "handle_request render sw acfg iter rq (l, d) =
     (let l' = limiter_check (rq_instant rq, rq_ip rq) l in
      if check_allows (rq_instant rq, rq_ip rq) l
      then (let (r, d) = dispatch render sw acfg iter rq d in (r, l', d))
      else (RateLimited (exporter_retry_after_secs (rq_instant rq) (rq_ip rq) l'), l', d))"
  by (simp add: handle_request_def exporter_rate_limit_def bucket_key_def check_no_panic Let_def case_prod_beta)

definition served :: "reply \<Rightarrow> bool" where
  "served r \<longleftrightarrow> (\<exists>b. r = Reply 200 b \<or> r = Reply 500 b)"

lemma served_simps [simp]: "served (Reply c b) \<longleftrightarrow> c = 200 \<or> c = 500" "\<not> served (RateLimited n)" "\<not> served Panicked"
  by (auto simp: served_def)

text \<open>The endpoint behind the layers of a protected path.\<close>

definition endpoint :: "(router_metrics \<Rightarrow> string + string) \<Rightarrow> string \<Rightarrow> http_path \<Rightarrow> router_metrics handler" where
  "endpoint render sw p = (if p = MetricsPath then metrics_handler render else (\<lambda>m. (Reply 200 sw, m)))"

lemma endpoint_state: "endpoint render sw p m = (fst (endpoint render sw p m), m)"
  by (simp add: endpoint_def metrics_handler_def split: sum.split)

lemma endpoint_served: "served (fst (endpoint render sw p m))"
  by (simp add: endpoint_def metrics_handler_def split: sum.split)

lemma dispatch_protected:
  assumes "protected_path (rq_path rq)"
  shows "dispatch render sw acfg iter rq = route_protected acfg iter rq (endpoint render sw (rq_path rq))"
  using assms by (auto simp: dispatch_def protected_path_def endpoint_def)

lemma dispatch_open:
  assumes "\<not> protected_path (rq_path rq)"
  obtains r where "dispatch render sw acfg iter rq (c, m) = (r, c, m)" "r \<noteq> Panicked"
proof (cases "rq_path rq")
  case OtherPath
  then show thesis using that by (simp add: dispatch_def)
next
  case HealthPath
  then show thesis using that by (simp add: dispatch_def route_open_def health_handler_def)
next
  case ReadyPath
  then show thesis using that by (cases "1 \<le> up m") (simp_all add: dispatch_def route_open_def ready_handler_def)
qed (use assms in \<open>simp_all add: protected_path_def\<close>)

lemma protected_result:
  assumes "protected_path (rq_path rq)"
  shows "handle_request render sw (auth_from_env env) iter rq (l, c, m) =
    (let l' = limiter_check (rq_instant rq, rq_ip rq) l; hs = rq_headers rq;
         served = fst (endpoint render sw (rq_path rq) m)
     in if \<not> check_allows (rq_instant rq, rq_ip rq) l
        then (RateLimited (exporter_retry_after_secs (rq_instant rq) (rq_ip rq) l'), l', c, m)
        else if \<not> authentic (auth_from_env env) hs
        then (auth_error_reply (if extract_api_key hs = None then MissingKey else InvalidKey), l', c, m)
        else if \<not> replay_enabled (replay_cfg c) then (served, l', c, m)
        else case extract_nonce hs of
          None \<Rightarrow> (Reply 400 ''Missing X-Nonce header'', l', c, m)
        | Some n \<Rightarrow> (if accepts (iter, rq_time rq, n) c then served
              else Reply 409 ''Duplicate nonce detected (replay attack)'', l', nonce_step (iter, rq_time rq, n) c, m))"
proof -
  obtain r where e: "endpoint render sw (rq_path rq) m = (r, m)" using endpoint_state by blast
  show ?thesis
    by (simp add: handle_request_eq dispatch_protected [OF assms] route_protected_def
        auth_middleware_eq [OF auth_env_key] replay_middleware_eq Let_def e split: option.split)
qed

text \<open>
  C13. For requests handled one after the other, behind the layers the exporter configures:
  \<open>/metrics\<close> (and the API page) is served exactly when the rate limiter admits the address, the API
  key is the configured one (if authentication is on) and the nonce is new (if replay protection is
  on). A nonce is consumed only by a request that the limiter admitted and whose key was right; no
  request changes the gauges, and no configuration the environment can give makes a handler panic.
  What concurrent requests can do to the limiter and the nonce cache, a panic included, is in
  \<open>concurrent_checks\<close> and \<open>nonce_race\<close>.
\<close>
theorem metrics_guarded:
  assumes "protected_path (rq_path rq)"
    and "handle_request render sw (auth_from_env env) iter rq (l, c, m) = (r, l', c', m')"
  shows "(served r \<longleftrightarrow> check_allows (rq_instant rq, rq_ip rq) l \<and> authentic (auth_from_env env) (rq_headers rq)
      \<and> (replay_enabled (replay_cfg c) \<longrightarrow>
           (\<exists>n. extract_nonce (rq_headers rq) = Some n \<and> accepts (iter, rq_time rq, n) c)))
    \<and> c' = (case nonce_seen (auth_from_env env) l c rq of
              Some n \<Rightarrow> nonce_step (iter, rq_time rq, n) c | None \<Rightarrow> c)
    \<and> m' = m \<and> r \<noteq> Panicked"
  using assms(2) unfolding protected_result [OF assms(1)] Let_def nonce_seen_def
  using assms(1) endpoint_served [of render sw "rq_path rq" m]
  by (simp add: auth_error_reply_def split: if_splits option.splits) (auto simp: served_def)

subsection \<open>A replay through the whole server\<close>

text \<open>A run of requests, each with the order in which it meets the hash map.\<close>

fun run_requests ::
    "(router_metrics \<Rightarrow> string + string) \<Rightarrow> string \<Rightarrow> auth_config \<Rightarrow> (nonce_iter \<times> http_request) list
      \<Rightarrow> exporter_limiter \<times> nonce_cache \<times> router_metrics \<Rightarrow> exporter_limiter \<times> nonce_cache \<times> router_metrics" where
  "run_requests render sw acfg [] st = st"
| "run_requests render sw acfg ((iter, rq) # rqs) st =
     run_requests render sw acfg rqs (snd (handle_request render sw acfg iter rq st))"

abbreviation cache_of :: "exporter_limiter \<times> nonce_cache \<times> router_metrics \<Rightarrow> nonce_cache" where
  "cache_of st \<equiv> fst (snd st)"

definition as_nonce :: "nonce_iter \<times> http_request \<Rightarrow> nonce_request" where
  "as_nonce x = (fst x, rq_time (snd x), the (extract_nonce (rq_headers (snd x))))"

lemma request_cache:
  "cache_of (snd (handle_request render sw (auth_from_env env) iter rq st)) =
     (case nonce_seen (auth_from_env env) (fst st) (cache_of st) rq of
        Some n \<Rightarrow> nonce_step (iter, rq_time rq, n) (cache_of st) | None \<Rightarrow> cache_of st)"
proof -
  obtain l c m where st: "st = (l, c, m)" by (cases st)
  show ?thesis
  proof (cases "protected_path (rq_path rq)")
    case True
    then show ?thesis
      by (simp add: st protected_result [OF True] nonce_seen_def Let_def split: option.split)
  next
    case False
    from dispatch_open [OF False, of render sw "auth_from_env env" iter c m] obtain r where
      "dispatch render sw (auth_from_env env) iter rq (c, m) = (r, c, m)" by blast
    with False show ?thesis by (simp add: st handle_request_eq nonce_seen_def Let_def)
  qed
qed

text \<open>The nonces a run gives to the cache are those of some of its requests, in their order.\<close>

lemma run_requests_cache:
  "\<exists>ns. cache_of (run_requests render sw (auth_from_env env) rqs st) = fold nonce_step ns (cache_of st)
    \<and> subseq ns (map as_nonce rqs)"
proof (induction rqs arbitrary: st)
  case Nil
  show ?case by (rule exI [of _ "[]"]) simp
next
  case (Cons x rqs)
  obtain iter rq where x: "x = (iter, rq)" by (cases x)
  let ?st = "snd (handle_request render sw (auth_from_env env) iter rq st)"
  obtain ns where ns: "cache_of (run_requests render sw (auth_from_env env) rqs ?st) = fold nonce_step ns (cache_of ?st)"
    "subseq ns (map as_nonce rqs)" using Cons.IH by blast
  show ?case
  proof (cases "nonce_seen (auth_from_env env) (fst st) (cache_of st) rq")
    case None
    with ns show ?thesis by (intro exI [of _ ns]) (auto simp: x request_cache)
  next
    case (Some n)
    then have "as_nonce x = (iter, rq_time rq, n)" by (auto simp: nonce_seen_def as_nonce_def x split: if_splits)
    with Some ns show ?thesis
      by (intro exI [of _ "(iter, rq_time rq, n) # ns"]) (simp add: x request_cache)
  qed
qed

lemma protected_served:
  assumes "protected_path (rq_path rq)" "replay_enabled (replay_cfg (cache_of st))"
    and "served (fst (handle_request render sw (auth_from_env env) iter rq st))"
  obtains n where "extract_nonce (rq_headers rq) = Some n" "accepts (iter, rq_time rq, n) (cache_of st)"
    "nonce_seen (auth_from_env env) (fst st) (cache_of st) rq = Some n"
proof -
  obtain l c m where st: "st = (l, c, m)" by (cases st)
  from assms show thesis
    by (simp add: st protected_result [OF assms(1)] Let_def auth_error_reply_def nonce_seen_def that split: if_splits option.splits)
qed

lemma subseq_filter_length: "subseq xs ys \<Longrightarrow> length (filter P xs) \<le> length (filter P ys)"
  by (rule list_emb_length, rule subseq_filter)

text \<open>
  C4. End to end: with replay protection configured, once a request for the metrics has been served
  with a nonce, a request with the same nonce less than the time to live later is not served,
  whatever requests (to any path, from any address, with any headers) come before and between, as
  long as those from then on are fewer than the cache holds.
\<close>
theorem exporter_replay_refused:
  assumes "replay_enabled (replay_from_env env)"
    and st: "st = run_requests render sw (auth_from_env env) earlier (exporter_init env)"
    and st': "st' = run_requests render sw (auth_from_env env) mid
                (snd (handle_request render sw (auth_from_env env) iter rq st))"
    and "protected_path (rq_path rq)" "protected_path (rq_path rq')"
    and "extract_nonce (rq_headers rq) = extract_nonce (rq_headers rq')"
    and "\<forall>x\<in>set (earlier @ (iter, rq) # mid @ [(iter', rq')]). iterates (fst x)"
    and "\<forall>x\<in>set mid. rq_time (snd x) \<le> rq_time rq'" "rq_time rq \<le> rq_time rq'"
    and "unat (rq_time rq') - unat (rq_time rq) < unat (nonce_ttl_secs (replay_from_env env))"
    and "length (filter (\<lambda>x. rq_time rq \<le> rq_time (snd x)) earlier) + 1 + length mid
          < cache_size (replay_from_env env)"
    and "served (fst (handle_request render sw (auth_from_env env) iter rq st))"
  shows "\<not> served (fst (handle_request render sw (auth_from_env env) iter' rq' st'))"
proof
  let ?cfg = "replay_from_env env"
  obtain ns where ns: "cache_of st = fold nonce_step ns (nonce_cache_new ?cfg)" "subseq ns (map as_nonce earlier)"
    using run_requests_cache [of render sw env earlier "exporter_init env"] unfolding st
    by (auto simp: exporter_init_def)
  obtain ms where ms: "cache_of st' = fold nonce_step ms (cache_of (snd (handle_request render sw (auth_from_env env) iter rq st)))"
    "subseq ms (map as_nonce mid)"
    using run_requests_cache unfolding st' by blast
  have "replay_enabled (replay_cfg (cache_of st))" by (simp add: ns assms(1))
  from protected_served [OF assms(4) this assms(12)] obtain n where
    n: "extract_nonce (rq_headers rq) = Some n" "accepts (iter, rq_time rq, n) (cache_of st)"
      "nonce_seen (auth_from_env env) (fst st) (cache_of st) rq = Some n" .
  have c': "cache_of st' = fold nonce_step (ns @ (iter, rq_time rq, n) # ms) (nonce_cache_new ?cfg)"
    unfolding ms(1) request_cache n(3) by (simp add: ns(1))
  assume "served (fst (handle_request render sw (auth_from_env env) iter' rq' st'))"
  moreover have "replay_enabled (replay_cfg (cache_of st'))" by (simp add: c' assms(1))
  ultimately have "accepts (iter', rq_time rq', n) (cache_of st')"
    using protected_served [OF assms(5)] assms(6) n(1) by (metis option.inject)
  moreover have "\<not> accepts (iter', rq_time rq', n) (cache_of st')"
    unfolding c'
  proof (rule nonce_rejected_within_ttl)
    have "set ns \<subseteq> as_nonce ` set earlier" "set ms \<subseteq> as_nonce ` set mid"
      using ns(2) ms(2) by (auto dest: list_emb_set)
    then show "\<forall>r\<in>set (ns @ (iter, rq_time rq, n) # ms @ [(iter', rq_time rq', n)]). iterates (fst r)"
      "\<forall>r\<in>set ms. rq_time_of r \<le> rq_time rq'"
      using assms(7,8) by (fastforce simp: as_nonce_def)+
    have "length ms \<le> length mid" using list_emb_length [OF ms(2)] by simp
    moreover have "length (filter (\<lambda>r. rq_time rq \<le> rq_time_of r) ns)
        \<le> length (filter (\<lambda>x. rq_time rq \<le> rq_time (snd x)) earlier)"
      using subseq_filter_length [OF ns(2), of "\<lambda>r. rq_time rq \<le> rq_time_of r"]
      by (simp add: filter_map o_def as_nonce_def)
    ultimately show "length (filter (\<lambda>r. rq_time rq \<le> rq_time_of r) ns) + 1 + length ms < cache_size ?cfg"
      using assms(11) by simp
  qed (use assms(9,10) n(2) ns(1) in simp_all)
  ultimately show False by contradiction
qed

text \<open>The witnesses: replay protection on, authentication off, the rest by default.\<close>

definition demo_env :: process_env where
  "demo_env name = (if name = ''ROUTER_REPLAY_PROTECTION_ENABLED'' then Some ''true'' else None)"

definition demo_request :: "u64 \<Rightarrow> http_request" where
  "demo_request t = \<lparr>rq_path = MetricsPath, rq_ip = ''10.0.0.1'',
     rq_headers = (\<lambda>h. if h = ''x-nonce'' then Some (Some ''n'') else None), rq_instant = 0, rq_time = t\<rparr>"

lemma demo_env_cfg:
  "replay_from_env demo_env = \<lparr>replay_enabled = True, cache_size = 10000, nonce_ttl_secs = 3600\<rparr>"
  "\<not> auth_enabled (auth_from_env demo_env)"
  "config_from_env demo_env = \<lparr>xl_max_requests = 60, xl_window = 60000000000, xl_max_buckets = 1024\<rparr>"
  by (simp_all add: replay_from_env_def env_flag_def env_number_def demo_env_def auth_from_env_def to_lowercase_def
      config_from_env_def from_secs_def NANOS_PER_SEC_def)

lemma exporter_replay_refused_witness:
  "\<not> served (fst (handle_request (\<lambda>m. Inr ''text'') ''docs'' (auth_from_env demo_env) sorted_iter (demo_request 3000)
     (snd (handle_request (\<lambda>m. Inr ''text'') ''docs'' (auth_from_env demo_env) sorted_iter (demo_request 5) (exporter_init demo_env)))))"
proof -
  have ok: "check_allows (0, ''10.0.0.1'') (exporter_limiter_new (config_from_env demo_env))"
    by (simp add: check_allows_iff exporter_limiter_new_def demo_env_cfg hit_bucket_def fresh_bucket_def word_le_nat_alt)
  have first: "served (fst (handle_request (\<lambda>m. Inr ''text'') ''docs'' (auth_from_env demo_env) sorted_iter
      (demo_request 5) (exporter_init demo_env)))"
    using ok by (simp add: exporter_init_def protected_result protected_path_def demo_request_def Let_def authentic_def
        demo_env_cfg extract_nonce_def nonce_step_eq endpoint_served)
  show ?thesis
    by (rule exporter_replay_refused [where earlier = "[]" and mid = "[]" and st = "exporter_init demo_env", OF _ _ _ _ _ _ _ _ _ _ _ first])
      (auto simp: demo_env_cfg demo_request_def protected_path_def iterates_sorted_iter)
qed

lemma metrics_guarded_witness:
  "served (fst (handle_request (\<lambda>m. Inr ''text'') ''docs'' (auth_from_env demo_env) sorted_iter (demo_request 5)
     (exporter_init demo_env)))"
proof -
  have ok: "check_allows (0, ''10.0.0.1'') (exporter_limiter_new (config_from_env demo_env))"
    by (simp add: check_allows_iff exporter_limiter_new_def demo_env_cfg hit_bucket_def fresh_bucket_def word_le_nat_alt)
  obtain r l' c' m' where h: "handle_request (\<lambda>m. Inr ''text'') ''docs'' (auth_from_env demo_env) sorted_iter (demo_request 5)
      (exporter_limiter_new (config_from_env demo_env), nonce_cache_new (replay_from_env demo_env), metrics_new)
      = (r, l', c', m')" by (metis prod.exhaust)
  have "protected_path (rq_path (demo_request 5))" by (simp add: demo_request_def protected_path_def)
  from metrics_guarded [OF this h] ok h show ?thesis
    by (simp add: exporter_init_def demo_request_def authentic_def demo_env_cfg extract_nonce_def nonce_step_eq)
qed


subsection \<open>Gauges\<close>

lemma as_f64_exponent:
  assumes "n < (2 :: nat) ^ 64"
  defines "e \<equiv> length (takeWhile (\<lambda>e. 2 ^ (53 + e) \<le> n) [0..<11])"
  shows "n < 2 ^ (53 + e)" "e > 0 \<Longrightarrow> 2 ^ (52 + e) \<le> n" "e \<le> 11"
proof -
  let ?P = "\<lambda>e. 2 ^ (53 + e) \<le> n"
  show le: "e \<le> 11" unfolding e_def using length_takeWhile_le [of ?P "[0..<11]"] by simp
  show "n < 2 ^ (53 + e)"
  proof (cases "e < 11")
    case True
    then have "\<not> ?P ([0..<11] ! e)" unfolding e_def by (intro nth_length_takeWhile) simp
    with True show ?thesis by simp
  next
    case False
    with le assms(1) show ?thesis by simp
  qed
  show "2 ^ (52 + e) \<le> n" if "e > 0"
  proof -
    have "?P ([0..<11] ! (e - 1))" unfolding e_def
      using takeWhile_nth [of "e - 1" ?P "[0..<11]"] set_takeWhileD [of "takeWhile ?P [0..<11] ! (e - 1)" ?P "[0..<11]"] that
      by (metis diff_less e_def nth_mem zero_less_one)
    with that le show ?thesis by (simp add: Suc_diff_Suc)
  qed
qed

text \<open>
  A gauge holds a counter as a double: exactly up to \<open>2 ^ 53\<close>, and beyond that with a
  relative error of at most \<open>2 ^ (- 53)\<close>.
\<close>
theorem gauge_precision:
  assumes "n < 2 ^ 64"
  shows "(n \<le> 2 ^ 53 \<longrightarrow> as_f64 n = n) \<and> 2 ^ 53 * (as_f64 n - n) \<le> n \<and> 2 ^ 53 * (n - as_f64 n) \<le> n"
proof -
  let ?e = "length (takeWhile (\<lambda>e. 2 ^ (53 + e) \<le> n) [0..<11])"
  show ?thesis
  proof (cases "?e = 0")
    case True
    then have "as_f64 n = n" unfolding as_f64_def Let_def True by simp
    then show ?thesis by simp
  next
    case False
    define k where "k = ?e - 1"
    with False have e: "?e = Suc k" by simp
    define q r where "q = n div 2 ^ Suc k" and "r = n mod 2 ^ Suc k"
    have n: "n = q * 2 ^ Suc k + r" "r < 2 * 2 ^ k" using div_mult_mod_eq [of n "2 ^ Suc k"] by (simp_all add: q_def r_def)
    have v: "as_f64 n = (if r > 2 ^ k \<or> r = 2 ^ k \<and> odd q then q + 1 else q) * 2 ^ Suc k"
      unfolding as_f64_def Let_def e by (simp add: q_def r_def)
    have "2 ^ (52 + ?e) \<le> n" using as_f64_exponent(2) [OF assms] False by blast
    then have big: "2 ^ 53 * 2 ^ k \<le> n" unfolding e by (simp only: power_add [symmetric] add_Suc_right) simp
    have up: "as_f64 n - n \<le> 2 ^ k" and down: "n - as_f64 n \<le> 2 ^ k"
      using n(2) unfolding v by (cases "2 ^ k < r \<or> r = 2 ^ k \<and> odd q"; simp add: n(1) add_mult_distrib; linarith)+
    have "2 ^ 53 * (as_f64 n - n) \<le> 2 ^ 53 * 2 ^ k" "2 ^ 53 * (n - as_f64 n) \<le> 2 ^ 53 * 2 ^ k"
      using up down by (simp_all only: mult_le_mono2)
    moreover have "n \<le> 2 ^ 53 \<longrightarrow> as_f64 n = n"
    proof
      assume small: "n \<le> 2 ^ 53"
      with big have "(2 :: nat) ^ 53 * 2 ^ k \<le> 2 ^ 53 * 1" by simp
      then have "(2 :: nat) ^ k \<le> 1" by simp
      then have "k = 0" by (metis less_numeral_extra(4) not_gr_zero one_less_numeral_iff one_less_power semiring_norm(76) not_le)
      with small big have "r = 0" by (simp add: r_def)
      with n(1) show "as_f64 n = n" unfolding v by simp
    qed
    ultimately show ?thesis using big by linarith
  qed
qed

lemma gauge_precision_witness:
  "2 ^ 53 * (as_f64 (2 ^ 63 + 1025) - (2 ^ 63 + 1025)) \<le> (2 :: nat) ^ 63 + 1025"
  using gauge_precision [of "2 ^ 63 + 1025"] by simp

subsection \<open>What a scrape touches\<close>

text \<open>The gauges of each contract.\<close>

definition core_gauges :: "router_metrics \<Rightarrow> gauge_vec list" where
  "core_gauges m = [core_total_routed m, core_paused m, core_route_paused m]"

definition middleware_gauges :: "router_metrics \<Rightarrow> gauge_vec list" where
  "middleware_gauges m = [middleware_total_calls m, middleware_circuit_open m, middleware_failure_count m]"

definition registry_gauges :: "router_metrics \<Rightarrow> gauge_vec list" where
  "registry_gauges m = [registry_total_names m]"

definition quote_gauges :: "router_metrics \<Rightarrow> gauge_vec list" where
  "quote_gauges m = [quote_total_generated m, quote_total_fee_estimated m]"

definition execution_gauges :: "router_metrics \<Rightarrow> gauge_vec list" where
  "execution_gauges m = [execution_total_executions m, execution_total_errors m, execution_max_retries m]"

lemmas gauges_defs =
  core_gauges_def middleware_gauges_def registry_gauges_def quote_gauges_def execution_gauges_def

text \<open>A scrape leaves a group of gauges, or works within it alone.\<close>

definition leaves :: "(router_metrics \<Rightarrow> gauge_vec list) \<Rightarrow> scrape \<Rightarrow> bool" where
  "leaves part scrape \<longleftrightarrow> (\<forall>m. part (snd (scrape m)) = part m)"

definition works_on :: "(router_metrics \<Rightarrow> gauge_vec list) \<Rightarrow> scrape \<Rightarrow> bool" where
  "works_on part scrape \<longleftrightarrow> (\<forall>m m'. fst (scrape m) = fst (scrape m')
     \<and> (part m = part m' \<longrightarrow> part (snd (scrape m)) = part (snd (scrape m'))))"

lemma fold_part: "(\<And>x m. part (f x m) = part m) \<Longrightarrow> part (fold f xs m) = part m"
  by (induction xs arbitrary: m) simp_all

lemma fold_part_cong:
  assumes "\<And>x m m'. part m = part m' \<Longrightarrow> part (f x m) = part (f x m')" "part m = part m'"
  shows "part (fold f xs m) = part (fold f xs m')"
  using assms(2)
proof (induction xs arbitrary: m m')
  case (Cons x xs)
  show ?case using Cons.IH [OF assms(1) [OF Cons.prems]] by simp
qed simp

lemma scrape_core_leaves:
  assumes [simp]: "\<And>m g. part (m\<lparr>core_total_routed := g\<rparr>) = part m"
    "\<And>m g. part (m\<lparr>core_paused := g\<rparr>) = part m" "\<And>m g. part (m\<lparr>core_route_paused := g\<rparr>) = part m"
  shows "leaves part (scrape_core J client cid)"
  unfolding leaves_def
proof
  fix m
  show "part (snd (scrape_core J client cid m)) = part m"
    by (cases "call_u64 client cid ''total_routed''"; cases "call_string_vec client cid ''get_all_routes''")
      (simp_all add: scrape_core_def Let_def fold_part split: sum.split)
qed

lemma scrape_middleware_leaves:
  assumes [simp]: "\<And>m g. part (m\<lparr>middleware_total_calls := g\<rparr>) = part m"
    "\<And>m g h. part (m\<lparr>middleware_circuit_open := g, middleware_failure_count := h\<rparr>) = part m"
  shows "leaves part (scrape_middleware J client cid)"
  unfolding leaves_def
proof
  fix m
  show "part (snd (scrape_middleware J client cid m)) = part m"
    by (cases "call_u64 client cid ''total_calls''"; cases "call_string_vec client cid ''get_configured_routes''")
      (simp_all add: scrape_middleware_def Let_def fold_part case_prod_beta split: sum.split)
qed

lemma scrape_registry_leaves:
  "(\<And>m g. part (m\<lparr>registry_total_names := g\<rparr>) = part m) \<Longrightarrow> leaves part (scrape_registry client cid)"
  by (simp add: leaves_def scrape_registry_def split: sum.split)

lemma scrape_quote_leaves:
  "(\<And>m g h. part (m\<lparr>quote_total_generated := g, quote_total_fee_estimated := h\<rparr>) = part m)
   \<Longrightarrow> leaves part (scrape_quote client cid)"
  by (simp add: leaves_def scrape_quote_def split: sum.split)

lemma scrape_execution_leaves:
  "(\<And>m g h k. part (m\<lparr>execution_total_executions := g, execution_total_errors := h, execution_max_retries := k\<rparr>) = part m)
   \<Longrightarrow> leaves part (scrape_execution J client cid)"
  by (simp add: leaves_def scrape_execution_def Let_def split: sum.split)

lemmas scrape_leaves =
  scrape_core_leaves scrape_middleware_leaves scrape_registry_leaves scrape_quote_leaves scrape_execution_leaves

lemma scrape_core_works: "works_on core_gauges (scrape_core J client cid)"
  unfolding works_on_def
proof (intro allI conjI impI)
  fix m m'
  show "fst (scrape_core J client cid m) = fst (scrape_core J client cid m')"
    by (simp add: scrape_core_def Let_def split: sum.split)
  assume eq: "core_gauges m = core_gauges m'"
  show "core_gauges (snd (scrape_core J client cid m)) = core_gauges (snd (scrape_core J client cid m'))"
    by (cases "call_u64 client cid ''total_routed''"; cases "call_string_vec client cid ''get_all_routes''";
        simp add: scrape_core_def Let_def eq; (intro fold_part_cong)?)
      (use eq in \<open>auto simp: core_gauges_def split: sum.splits\<close>)
qed

lemma scrape_middleware_works: "works_on middleware_gauges (scrape_middleware J client cid)"
  unfolding works_on_def
proof (intro allI conjI impI)
  fix m m'
  show "fst (scrape_middleware J client cid m) = fst (scrape_middleware J client cid m')"
    by (simp add: scrape_middleware_def Let_def split: sum.split)
  assume eq: "middleware_gauges m = middleware_gauges m'"
  show "middleware_gauges (snd (scrape_middleware J client cid m)) = middleware_gauges (snd (scrape_middleware J client cid m'))"
    by (cases "call_u64 client cid ''total_calls''"; cases "call_string_vec client cid ''get_configured_routes''";
        simp add: scrape_middleware_def Let_def eq; (intro fold_part_cong)?)
      (use eq in \<open>auto simp: middleware_gauges_def split: sum.splits prod.splits\<close>)
qed

lemma scrape_others_work:
  "works_on registry_gauges (scrape_registry client cid)"
  "works_on quote_gauges (scrape_quote client cid)"
  "works_on execution_gauges (scrape_execution J client cid)"
  by (simp_all add: works_on_def scrape_registry_def scrape_quote_def scrape_execution_def Let_def gauges_defs
      split: sum.split)

lemmas scrape_works = scrape_core_works scrape_middleware_works scrape_others_work

lemma record_leaves:
  assumes "leaves part scrape" "\<And>m g. part (m\<lparr>scrape_errors_total := g\<rparr>) = part m"
  shows "part (snd (scrape_and_record cid scrape m)) = part m"
  using assms by (auto simp: leaves_def scrape_and_record_def split: prod.split sum.split) (metis snd_conv)+

lemma record_works:
  assumes "works_on part scrape" "\<And>m g. part (m\<lparr>scrape_errors_total := g\<rparr>) = part m" "part m = part m'"
  shows "fst (scrape_and_record cid scrape m) = fst (scrape_and_record cid scrape m')"
    "part (snd (scrape_and_record cid scrape m)) = part (snd (scrape_and_record cid scrape m'))"
proof -
  obtain r n r' n' where e: "scrape m = (r, n)" "scrape m' = (r', n')" by (metis prod.exhaust)
  with assms(1,3) have "r = r'" "part n = part n'" unfolding works_on_def by (metis fst_conv, metis snd_conv)
  with e assms(2,3) show "fst (scrape_and_record cid scrape m) = fst (scrape_and_record cid scrape m')"
    "part (snd (scrape_and_record cid scrape m)) = part (snd (scrape_and_record cid scrape m'))"
    by (simp_all add: scrape_and_record_def split: sum.split)
qed

lemma scrape_all_eq:
  "scrape_all J client a m =
    (let core = scrape_and_record (core_contract_id a) (scrape_core J client (core_contract_id a));
         middleware = scrape_and_record (middleware_contract_id a) (scrape_middleware J client (middleware_contract_id a));
         registry = scrape_and_record (registry_contract_id a) (scrape_registry client (registry_contract_id a));
         quote = scrape_and_record (quote_contract_id a) (scrape_quote client (quote_contract_id a));
         execution = scrape_and_record (execution_contract_id a) (scrape_execution J client (execution_contract_id a));
         m1 = snd (core m); m2 = snd (middleware m1); m3 = snd (registry m2); m4 = snd (quote m3); m5 = snd (execution m4)
     in (fst (core m) \<and> fst (middleware m1) \<and> fst (registry m2) \<and> fst (quote m3) \<and> fst (execution m4), m5))"
  by (simp add: scrape_all_def case_prod_beta Let_def)

lemma frames:
  "leaves core_gauges (scrape_middleware J c i)" "leaves core_gauges (scrape_registry c i)" "leaves core_gauges (scrape_quote c i)" "leaves core_gauges (scrape_execution J c i)"
  "leaves middleware_gauges (scrape_core J c i)" "leaves middleware_gauges (scrape_registry c i)" "leaves middleware_gauges (scrape_quote c i)" "leaves middleware_gauges (scrape_execution J c i)"
  "leaves registry_gauges (scrape_core J c i)" "leaves registry_gauges (scrape_middleware J c i)" "leaves registry_gauges (scrape_quote c i)" "leaves registry_gauges (scrape_execution J c i)"
  "leaves quote_gauges (scrape_core J c i)" "leaves quote_gauges (scrape_middleware J c i)" "leaves quote_gauges (scrape_registry c i)" "leaves quote_gauges (scrape_execution J c i)"
  "leaves execution_gauges (scrape_core J c i)" "leaves execution_gauges (scrape_middleware J c i)" "leaves execution_gauges (scrape_registry c i)" "leaves execution_gauges (scrape_quote c i)"
  by (rule scrape_leaves; simp add: gauges_defs)+

lemma errors_frame [simp]:
  "core_gauges (m\<lparr>scrape_errors_total := g\<rparr>) = core_gauges m"
  "middleware_gauges (m\<lparr>scrape_errors_total := g\<rparr>) = middleware_gauges m"
  "registry_gauges (m\<lparr>scrape_errors_total := g\<rparr>) = registry_gauges m"
  "quote_gauges (m\<lparr>scrape_errors_total := g\<rparr>) = quote_gauges m"
  "execution_gauges (m\<lparr>scrape_errors_total := g\<rparr>) = execution_gauges m"
  by (simp_all add: gauges_defs)

lemmas record_frame = frames [THEN record_leaves, simplified errors_frame, simplified]

text \<open>Each contract's scrape within \<open>scrape_all\<close> gives its gauges what it gives alone.\<close>

lemma scrape_all_gauges:
  "core_gauges (snd (scrape_all J client a m)) = core_gauges
     (snd (scrape_and_record (core_contract_id a) (scrape_core J client (core_contract_id a)) m))"
  "middleware_gauges (snd (scrape_all J client a m)) = middleware_gauges
     (snd (scrape_and_record (middleware_contract_id a) (scrape_middleware J client (middleware_contract_id a)) m))"
  "registry_gauges (snd (scrape_all J client a m)) = registry_gauges
     (snd (scrape_and_record (registry_contract_id a) (scrape_registry client (registry_contract_id a)) m))"
  "quote_gauges (snd (scrape_all J client a m)) = quote_gauges
     (snd (scrape_and_record (quote_contract_id a) (scrape_quote client (quote_contract_id a)) m))"
  "execution_gauges (snd (scrape_all J client a m)) = execution_gauges
     (snd (scrape_and_record (execution_contract_id a) (scrape_execution J client (execution_contract_id a)) m))"
proof -
  show "core_gauges (snd (scrape_all J client a m)) = core_gauges
      (snd (scrape_and_record (core_contract_id a) (scrape_core J client (core_contract_id a)) m))"
    unfolding scrape_all_eq Let_def snd_conv record_frame
    by (rule refl)
  show "middleware_gauges (snd (scrape_all J client a m)) = middleware_gauges
      (snd (scrape_and_record (middleware_contract_id a) (scrape_middleware J client (middleware_contract_id a)) m))"
    unfolding scrape_all_eq Let_def snd_conv record_frame
    by (rule record_works(2) [OF scrape_works(2) errors_frame(2)]) (simp add: record_frame)
  show "registry_gauges (snd (scrape_all J client a m)) = registry_gauges
      (snd (scrape_and_record (registry_contract_id a) (scrape_registry client (registry_contract_id a)) m))"
    unfolding scrape_all_eq Let_def snd_conv record_frame
    by (rule record_works(2) [OF scrape_works(3) errors_frame(3)]) (simp add: record_frame)
  show "quote_gauges (snd (scrape_all J client a m)) = quote_gauges
      (snd (scrape_and_record (quote_contract_id a) (scrape_quote client (quote_contract_id a)) m))"
    unfolding scrape_all_eq Let_def snd_conv record_frame
    by (rule record_works(2) [OF scrape_works(4) errors_frame(4)]) (simp add: record_frame)
  show "execution_gauges (snd (scrape_all J client a m)) = execution_gauges
      (snd (scrape_and_record (execution_contract_id a) (scrape_execution J client (execution_contract_id a)) m))"
    unfolding scrape_all_eq Let_def snd_conv record_frame
    by (rule record_works(2) [OF scrape_works(5) errors_frame(5)]) (simp add: record_frame)
qed

lemma scrape_all_ok:
  "fst (scrape_all J client a m) \<longleftrightarrow>
    fst (scrape_and_record (core_contract_id a) (scrape_core J client (core_contract_id a)) m)
    \<and> fst (scrape_and_record (middleware_contract_id a) (scrape_middleware J client (middleware_contract_id a)) m)
    \<and> fst (scrape_and_record (registry_contract_id a) (scrape_registry client (registry_contract_id a)) m)
    \<and> fst (scrape_and_record (quote_contract_id a) (scrape_quote client (quote_contract_id a)) m)
    \<and> fst (scrape_and_record (execution_contract_id a) (scrape_execution J client (execution_contract_id a)) m)"
proof -
  have any: "fst (scrape_and_record cid s m1) = fst (scrape_and_record cid s m2)" if "works_on p s" for p s cid m1 m2
    using that by (auto simp: works_on_def scrape_and_record_def split: prod.split sum.split) (metis Inl_Inr_False fst_conv)+
  show ?thesis unfolding scrape_all_eq Let_def fst_conv
    using any [OF scrape_works(2)] any [OF scrape_works(3)] any [OF scrape_works(4)] any [OF scrape_works(5)] by metis
qed

text \<open>Two clients agree on a contract when every call about it gives the same.\<close>

definition agree_on :: "string \<Rightarrow> ('v, 'e) rpc_client \<Rightarrow> ('v, 'e) rpc_client \<Rightarrow> bool" where
  "agree_on cid c d \<longleftrightarrow> call_u64 c cid = call_u64 d cid \<and> call_bool c cid = call_bool d cid
    \<and> call_string_vec c cid = call_string_vec d cid \<and> simulate_invoke c cid = simulate_invoke d cid
    \<and> get_events c cid = get_events d cid
    \<and> (\<forall>ks. get_ledger_entries c (map (encode_contract_data_key cid) ks)
          = get_ledger_entries d (map (encode_contract_data_key cid) ks))"

lemma agree_on_scrapes:
  assumes "agree_on cid c d"
  shows "scrape_core J c cid = scrape_core J d cid" "scrape_middleware J c cid = scrape_middleware J d cid"
    "scrape_registry c cid = scrape_registry d cid" "scrape_quote c cid = scrape_quote d cid"
    "scrape_execution J c cid = scrape_execution J d cid"
  using assms by (auto simp only: agree_on_def scrape_core_def scrape_middleware_def scrape_registry_def
      scrape_quote_def scrape_execution_def Let_def intro!: ext)

text \<open>
  C26. The scrapes are isolated: the gauges of a contract after a cycle depend on the answers about
  that contract alone. However the node answers about the others (errors included), the gauges are
  the same, and a failure of one leaves the gauges of the others up to date. The cycle counts as
  good exactly when each configured contract's scrape by itself is good.
\<close>
theorem scrapes_isolated:
  fixes J :: "'v json" and c d :: "('v, 'e) rpc_client"
  assumes m: "m' = snd (scrape_all J c a m)" and n: "n' = snd (scrape_all J d a m)"
  shows "(agree_on (core_contract_id a) c d \<longrightarrow> core_gauges m' = core_gauges n')
    \<and> (agree_on (middleware_contract_id a) c d \<longrightarrow> middleware_gauges m' = middleware_gauges n')
    \<and> (agree_on (registry_contract_id a) c d \<longrightarrow> registry_gauges m' = registry_gauges n')
    \<and> (agree_on (quote_contract_id a) c d \<longrightarrow> quote_gauges m' = quote_gauges n')
    \<and> (agree_on (execution_contract_id a) c d \<longrightarrow> execution_gauges m' = execution_gauges n')"
  unfolding m n scrape_all_gauges
  by (intro conjI impI) (simp_all only: agree_on_scrapes(1) [of "core_contract_id a" c d]
      agree_on_scrapes(2) [of "middleware_contract_id a" c d] agree_on_scrapes(3) [of "registry_contract_id a" c d]
      agree_on_scrapes(4) [of "quote_contract_id a" c d] agree_on_scrapes(5) [of "execution_contract_id a" c d])

definition demo_args :: args where
  "demo_args = \<lparr>core_contract_id = ''C'', middleware_contract_id = [], registry_contract_id = ''R'',
     quote_contract_id = [], execution_contract_id = [], scrape_interval_secs = 15, rpc_timeout_secs = 10,
     listen = []\<rparr>"

text \<open>A client that answers two names, but fails about the contracts given.\<close>

definition demo_client :: "string set \<Rightarrow> (jv, unit) rpc_client" where
  "demo_client bad = \<lparr>call_u64 = (\<lambda>cid f. if cid \<in> bad then Inl ''down'' else Inr 7),
     call_bool = (\<lambda>cid f. Inl ''no''),
     call_string_vec = (\<lambda>cid f. if cid \<in> bad then Inl ''down'' else Inr [''x'', ''y'']),
     simulate_invoke = (\<lambda>cid f xs. Inl ''no''), get_events = (\<lambda>cid f n. Inl ''no''),
     get_ledger_entries = (\<lambda>ks. Inl ''no'')\<rparr>"

lemma scrapes_isolated_witness:
  "registry_gauges (snd (scrape_all jv_json (demo_client {}) demo_args metrics_new))
     = registry_gauges (snd (scrape_all jv_json (demo_client {''C''}) demo_args metrics_new))
   \<and> fst (scrape_all jv_json (demo_client {}) demo_args metrics_new)
   \<and> \<not> fst (scrape_all jv_json (demo_client {''C''}) demo_args metrics_new)"
proof -
  have "agree_on (registry_contract_id demo_args) (demo_client {}) (demo_client {''C''})"
    by (simp add: agree_on_def demo_client_def demo_args_def)
  with scrapes_isolated [OF refl refl, where J = jv_json and c = "demo_client {}" and a = demo_args
      and m = metrics_new and d = "demo_client {''C''}"]
  have "registry_gauges (snd (scrape_all jv_json (demo_client {}) demo_args metrics_new))
     = registry_gauges (snd (scrape_all jv_json (demo_client {''C''}) demo_args metrics_new))" by blast
  moreover have "fst (scrape_all jv_json (demo_client {}) demo_args metrics_new)"
    "\<not> fst (scrape_all jv_json (demo_client {''C''}) demo_args metrics_new)"
    unfolding scrape_all_ok by (simp_all add: demo_args_def demo_client_def scrape_and_record_def
        scrape_core_def scrape_registry_def Let_def)
  ultimately show ?thesis by blast
qed

text \<open>
  With the client the exporter ships, no configuration that names the core, the middleware or
  the registry ever becomes ready: building the transaction for a simulated call is not implemented,
  so every such scrape fails on every cycle, whatever the node answers. \<open>/ready\<close> stays 503, none
  of the gauges of these three contracts is ever set.
\<close>
theorem exporter_never_ready:
  assumes "core_contract_id a \<noteq> [] \<or> middleware_contract_id a \<noteq> [] \<or> registry_contract_id a \<noteq> []"
    and m: "m = run_collector J a nodes metrics_new"
  shows "ready_handler m = (Reply 503 ''not ready'', m)
    \<and> core_gauges m = core_gauges metrics_new \<and> middleware_gauges m = middleware_gauges metrics_new
    \<and> registry_gauges m = registry_gauges metrics_new"
proof -
  have fails: "\<exists>e. scrape_core J (soroban_rpc_client J node) cid x = (Inl e, x)"
    "\<exists>e. scrape_middleware J (soroban_rpc_client J node) cid x = (Inl e, x)"
    "\<exists>e. scrape_registry (soroban_rpc_client J node) cid x = (Inl e, x)" for node :: "('a, 'b) node" and cid x
    by (simp_all add: scrape_core_def scrape_middleware_def scrape_registry_def soroban_rpc_client_def
        soroban_simulate_invoke_def build_invoke_xdr_def)
  have cycle: "up (scrape_cycle J a (soroban_rpc_client J node) x) = 0
      \<and> core_gauges (scrape_cycle J a (soroban_rpc_client J node) x) = core_gauges x
      \<and> middleware_gauges (scrape_cycle J a (soroban_rpc_client J node) x) = middleware_gauges x
      \<and> registry_gauges (scrape_cycle J a (soroban_rpc_client J node) x) = registry_gauges x" for node :: "('a, 'b) node" and x
  proof -
    have same: "p (snd (scrape_and_record cid s x)) = p x"
      if "\<exists>e. s x = (Inl e, x)" "\<And>m g. p (m\<lparr>scrape_errors_total := g\<rparr>) = p m"
      for p :: "router_metrics \<Rightarrow> gauge_vec list" and cid and s :: scrape and x
      using that by (auto simp: scrape_and_record_def)
    have bad: "\<not> fst (scrape_and_record cid s x)" if "\<exists>e. s x = (Inl e, x)" "cid \<noteq> []" for cid and s :: scrape and x
      using that by (auto simp: scrape_and_record_def)
    have [simp]: "core_gauges (y\<lparr>up := u\<rparr>) = core_gauges y" "middleware_gauges (y\<lparr>up := u\<rparr>) = middleware_gauges y"
      "registry_gauges (y\<lparr>up := u\<rparr>) = registry_gauges y" for y :: router_metrics and u
      by (simp_all add: gauges_defs)
    have "\<not> fst (scrape_all J (soroban_rpc_client J node) a x)"
      unfolding scrape_all_ok using bad [where s = "scrape_core J (soroban_rpc_client J node) cid" for cid, OF fails(1)]
        bad [where s = "scrape_middleware J (soroban_rpc_client J node) cid" for cid, OF fails(2)]
        bad [where s = "scrape_registry (soroban_rpc_client J node) cid" for cid, OF fails(3)] assms(1) by blast
    then show ?thesis
      by (simp add: scrape_cycle_def case_prod_beta scrape_all_gauges bool_f64_def
          same [where p = core_gauges and s = "scrape_core J (soroban_rpc_client J node) cid" for cid, OF fails(1)]
          same [where p = middleware_gauges and s = "scrape_middleware J (soroban_rpc_client J node) cid" for cid, OF fails(2)]
          same [where p = registry_gauges and s = "scrape_registry (soroban_rpc_client J node) cid" for cid, OF fails(3)])
  qed
  have "up (run_collector J a nodes x) = up x * (if nodes = [] then 1 else 0)
      \<and> core_gauges (run_collector J a nodes x) = core_gauges x
      \<and> middleware_gauges (run_collector J a nodes x) = middleware_gauges x
      \<and> registry_gauges (run_collector J a nodes x) = registry_gauges x" for x
    unfolding run_collector_def by (induction nodes arbitrary: x) (simp_all add: cycle)
  from this [of metrics_new] show ?thesis
    by (simp add: m ready_handler_def) (simp add: metrics_new_def)
qed


definition demo_node :: "(jv, unit) node" where
  "demo_node = \<lparr>post = (\<lambda>r. Inr \<lparr>reply_result = None, reply_error = None\<rparr>), de_entries = (\<lambda>v. Inr None),
     de_events = (\<lambda>v. Inr None)\<rparr>"

lemma exporter_never_ready_witness:
  "up (run_collector jv_json demo_args [demo_node, demo_node] metrics_new) < 1"
  using exporter_never_ready [OF _ refl, where a = demo_args and J = jv_json and nodes = "[demo_node, demo_node]"]
  by (simp add: demo_args_def ready_handler_def split: if_splits)

end
