(* ===== verification/Wire_Props.thy ===== *)
theory Wire_Props
  imports Wire
begin

text \<open>
  The decoders against the standard encoders: base64 with padding (RFC 4648) and the XDR form of a
  vector of strings, a count and each string with its length, padded to four bytes.
\<close>

subsection \<open>The alphabet and its table\<close>

lemma unat_of_char_u8: "unat (of_char c :: u8) = of_char c"
proof -
  have "(of_char c :: nat) < 256" by simp
  then have "unat (of_nat (of_char c) :: u8) = of_char c" by (simp add: unat_of_nat take_bit_nat_eq_self)
  then show ?thesis by (simp only: of_nat_of_char)
qed

lemma length_fold_update: "length (foldl (\<lambda>t i. t[f i := v i]) t is) = length t"
  by (induction "is" arbitrary: t) simp_all

lemma nth_fold_update_other:
  "k \<notin> f ` set is \<Longrightarrow> foldl (\<lambda>t i. t[f i := v i]) t is ! k = t ! k"
  by (induction "is" arbitrary: t) auto

lemma nth_fold_update:
  assumes "distinct (map f is)" "i \<in> set is" "f i < length t"
  shows "foldl (\<lambda>t i. t[f i := v i]) t is ! f i = v i"
  using assms
proof (induction "is" arbitrary: t)
  case (Cons j js)
  then show ?case by (cases "i = j") (auto simp: nth_fold_update_other)
qed simp

lemma base64_codes: "distinct (map of_char base64_chars :: nat list)"
  "list_all (\<lambda>c. (of_char c :: nat) < 128 \<and> c \<noteq> CHR ''='') base64_chars" "length base64_chars = 64"
  by (simp_all add: base64_chars_def)

lemma length_TABLE [simp]: "length TABLE = 128"
  by (simp add: TABLE_def length_fold_update)

lemma table_get_chars:
  assumes "i < 64"
  shows "table_get (of_char (base64_chars ! i)) = Some (of_nat i)"
proof -
  let ?f = "\<lambda>i. of_char (base64_chars ! i) :: nat"
  have "map ?f [0..<64] = map of_char base64_chars"
    by (rule nth_equalityI) (simp_all add: base64_codes(3))
  with base64_codes have d: "distinct (map ?f [0..<64])" and l: "?f i < 128"
    using assms by (simp_all add: list_all_length)
  have "TABLE ! ?f i = of_nat i" unfolding TABLE_def
    by (rule nth_fold_update [OF d]) (use assms l in auto)
  with l show ?thesis by (simp add: table_get_def unat_of_char_u8)
qed



lemma table_get_other:
  assumes "x \<notin> of_char ` set base64_chars" and "table_get x = Some b"
  shows "b = 255"
proof -
  let ?f = "\<lambda>i. of_char (base64_chars ! i) :: nat"
  have "unat x \<notin> ?f ` set [0..<64]"
  proof
    assume "unat x \<in> ?f ` set [0..<64]"
    then obtain i where i: "i < 64" "unat x = ?f i" by auto
    then have "x = of_char (base64_chars ! i)" by (simp add: word_unat_eq_iff unat_of_char_u8)
    with i(1) base64_codes(3) assms(1) show False by (metis image_eqI nth_mem)
  qed
  with assms(2) have "b = replicate 128 255 ! unat x" "unat x < 128"
    by (auto simp: table_get_def TABLE_def length_fold_update nth_fold_update_other split: if_splits)
  then show ?thesis by simp
qed

subsection \<open>Bits of a byte\<close>

lemma word8_eqI: "(\<forall>n\<in>{0, 1, 2, 3, 4, 5, 6, 7}. bit v n = bit w n) \<Longrightarrow> v = (w :: u8)"
proof (rule bit_word_eqI)
  fix n assume *: "\<forall>n\<in>{0, 1, 2, 3, 4, 5, 6, 7}. bit v n = bit w n" and "n < LENGTH(8)"
  then have "n < 8" by simp
  then have "n = 0 \<or> n = 1 \<or> n = 2 \<or> n = 3 \<or> n = 4 \<or> n = 5 \<or> n = 6 \<or> n = 7" by presburger
  then have "n \<in> {0, 1, 2, 3, 4, 5, 6, 7}" by blast
  with * show "bit v n = bit w n" by blast
qed

lemma sextetI: "\<not> bit v 6 \<Longrightarrow> \<not> bit v 7 \<Longrightarrow> v < (64 :: u8)"
proof -
  assume "\<not> bit v 6" "\<not> bit v 7"
  then have "take_bit 6 v = v" by (intro word8_eqI) (simp add: bit_simps)
  then have "unat v = take_bit 6 (unat v)" by (metis unsigned_take_bit_eq)
  also have "\<dots> < 2 ^ 6" by (rule take_bit_nat_less_exp)
  finally show ?thesis by (simp add: word_less_nat_alt)
qed

lemma sextets:
  fixes a b :: u8
  shows "drop_bit 2 a < 64" "take_bit 6 a < 64" "push_bit 4 (take_bit 2 a) < 64"
    "push_bit 2 (take_bit 4 a) < 64" "push_bit 4 (take_bit 2 a) OR drop_bit 4 b < 64"
    "push_bit 2 (take_bit 4 a) OR drop_bit 6 b < 64"
  by (rule sextetI; auto simp: bit_simps dest: bit_imp_le_length)+

lemma octets:
  fixes a b c :: u8
  shows "push_bit 2 (drop_bit 2 a) OR drop_bit 4 (push_bit 4 (take_bit 2 a) OR drop_bit 4 b) = a"
    "push_bit 4 (drop_bit 4 b) OR drop_bit 2 (push_bit 2 (take_bit 4 b)) = b"
    "push_bit 6 (drop_bit 6 c) OR take_bit 6 c = c"
    "push_bit 2 (drop_bit 2 a) OR drop_bit 4 (push_bit 4 (take_bit 2 a)) = a"
  by (rule word8_eqI; simp add: bit_simps; simp add: numeral_2_eq_2 numeral_3_eq_3)+

subsection \<open>Base64\<close>

definition base64_char :: "u8 \<Rightarrow> char" where
  "base64_char v = base64_chars ! unat v"

fun base64_encode :: "bytes \<Rightarrow> string" where
  "base64_encode (a # b # c # r) =
     [base64_char (drop_bit 2 a), base64_char (push_bit 4 (take_bit 2 a) OR drop_bit 4 b),
      base64_char (push_bit 2 (take_bit 4 b) OR drop_bit 6 c), base64_char (take_bit 6 c)] @ base64_encode r"
| "base64_encode [a, b] =
     [base64_char (drop_bit 2 a), base64_char (push_bit 4 (take_bit 2 a) OR drop_bit 4 b),
      base64_char (push_bit 2 (take_bit 4 b)), CHR ''='']"
| "base64_encode [a] =
     [base64_char (drop_bit 2 a), base64_char (push_bit 4 (take_bit 2 a)), CHR ''='', CHR ''='']"
| "base64_encode [] = []"

lemma table_get_char: "v < 64 \<Longrightarrow> table_get (of_char (base64_char v)) = Some v"
  using table_get_chars [of "unat v"] by (simp add: base64_char_def word_less_nat_alt)

lemma base64_char_pad: "v < 64 \<Longrightarrow> base64_char v \<noteq> CHR ''=''"
  using base64_codes(2,3) by (simp add: base64_char_def list_all_length word_less_nat_alt)

lemma sextet_not_255: "v < 64 \<Longrightarrow> v \<noteq> (255 :: u8)"
  by auto

lemma trim_end_none [simp]: "xs = [] \<or> last xs \<noteq> c \<Longrightarrow> trim_end_matches c xs = xs"
  by (cases xs rule: rev_cases) (auto simp: trim_end_matches_def)


lemma trim_end_Cons [simp]: "x \<noteq> c \<Longrightarrow> trim_end_matches c (x # xs) = x # trim_end_matches c xs"
  by (simp add: trim_end_matches_def dropWhile_append3)

lemma trim_end_all [simp]: "trim_end_matches c [c] = []" "trim_end_matches c [c, c] = []"
  by (simp_all add: trim_end_matches_def)

lemma base64_loop_encode:
  "base64_loop out (as_bytes (trim_end_matches CHR ''='' (base64_encode bs))) = Some (out @ bs)"
  by (induction bs arbitrary: out rule: base64_encode.induct)
    (simp_all add: as_bytes_def sextets base64_char_pad table_get_char sextet_not_255 octets)

lemma table_get_alphabet:
  "(\<exists>b. table_get x = Some b \<and> b \<noteq> 255) \<longleftrightarrow> x \<in> of_char ` set base64_chars"
proof
  assume "x \<in> of_char ` set base64_chars"
  then obtain i where "i < 64" "x = of_char (base64_chars ! i)"
    using base64_codes(3) by (auto simp: in_set_conv_nth)
  moreover from this(1) have "(of_nat i :: u8) \<noteq> 255" by (simp add: word_unat_eq_iff unat_of_nat)
  ultimately show "\<exists>b. table_get x = Some b \<and> b \<noteq> 255" by (simp add: table_get_chars)
qed (use table_get_other in blast)

text \<open>What is rejected: a foreign character, or a single character left over.\<close>

lemma base64_loop_accepts:
  "base64_loop out xs \<noteq> None \<longleftrightarrow> set xs \<subseteq> of_char ` set base64_chars \<and> length xs mod 4 \<noteq> 1"
  unfolding table_get_alphabet [symmetric] subset_iff
  by (induction out xs rule: base64_loop.induct) (auto split: option.splits)

lemma base64_roundtrip: "base64_decode (base64_encode bs) = Some bs"
  by (simp add: base64_decode_def base64_loop_encode)

subsection \<open>XDR\<close>

definition u32_to_be_bytes :: "u32 \<Rightarrow> bytes" where
  "u32_to_be_bytes n = [ucast (drop_bit 24 n), ucast (drop_bit 16 n), ucast (drop_bit 8 n), ucast n]"

definition xdr_string :: "string \<Rightarrow> bytes" where
  "xdr_string s = u32_to_be_bytes (of_nat (length s)) @ as_bytes s
     @ replicate ((4 - length s mod 4) mod 4) 0"

definition xdr_string_vec :: "string list \<Rightarrow> bytes" where
  "xdr_string_vec ss = u32_to_be_bytes (of_nat (length ss)) @ concat (map xdr_string ss)"

text \<open>A string the format can carry: UTF-8, of a length below \<open>2 ^ 32\<close>, not ending in a NUL.\<close>

definition xdr_ok :: "string \<Rightarrow> bool" where
  "xdr_ok s \<longleftrightarrow> utf8_valid (as_bytes s) \<and> length s < 2 ^ 32 \<and> (s = [] \<or> last s \<noteq> CHR 0x00)"

lemma of_as_bytes [simp]: "of_bytes (as_bytes s) = s"
  by (simp add: of_bytes_def as_bytes_def unat_of_char_u8 o_def map_idI)

lemma length_as_bytes [simp]: "length (as_bytes s) = length s"
  by (simp add: as_bytes_def)

lemma length_be [simp]: "length (u32_to_be_bytes n) = 4"
  by (simp add: u32_to_be_bytes_def)

lemma be_roundtrip:
  "u32_from_be_bytes (ucast (drop_bit 24 n)) (ucast (drop_bit 16 n)) (ucast (drop_bit 8 n)) (ucast n) = n"
  unfolding u32_from_be_bytes_def
proof (rule bit_word_eqI)
  fix k assume "k < LENGTH(32)"
  then consider "k < 8" | "8 \<le> k" "k < 16" | "16 \<le> k" "k < 24" | "24 \<le> k" "k < 32" by force
  then show "bit (push_bit 24 (ucast (ucast (drop_bit 24 n) :: u8) :: u32)
      OR push_bit 16 (ucast (ucast (drop_bit 16 n) :: u8)) OR push_bit 8 (ucast (ucast (drop_bit 8 n) :: u8))
      OR ucast (ucast n :: u8)) k = bit n k"
    by cases (auto simp: bit_simps)
qed

lemma u32_at_be: "u32_at (pre @ u32_to_be_bytes n @ post) (length pre) = n"
  by (simp add: u32_at_def u32_to_be_bytes_def nth_append be_roundtrip)

lemma xdr_pad: "(n + 3) div 4 * 4 = n + (4 - n mod 4) mod (4 :: nat)"
proof -
  obtain q r where n: "n = 4 * q + r" "r < 4" by (metis mult_div_mod_eq mod_less_divisor zero_less_numeral)
  then have m: "n mod 4 = r" by simp
  from n(2) consider "r = 0" | "r = 1" | "r = 2" | "r = 3" by linarith
  then show ?thesis unfolding m by cases (simp_all add: n(1))
qed

lemma xdr_string_data [simp]: "take (length s) (drop 4 (xdr_string s)) = as_bytes s"
  by (simp add: xdr_string_def)

lemma length_xdr_string: "length (xdr_string s) = 4 + (length s + 3) div 4 * 4"
  by (simp add: xdr_string_def xdr_pad)

lemma xdr_loop_strings:
  assumes "\<forall>s\<in>set ss. xdr_ok s"
  shows "xdr_loop (pre @ concat (map xdr_string ss) @ post) (length ss) (length pre) out = out @ ss"
  using assms
proof (induction ss arbitrary: pre out)
  case (Cons s ss)
  let ?pad = "replicate ((4 - length s mod 4) mod 4) 0 :: bytes"
  let ?rest = "concat (map xdr_string ss) @ post"
  let ?bs = "pre @ xdr_string s @ ?rest"
  from Cons.prems have s: "utf8_valid (as_bytes s)" "length s < 2 ^ 32" "s = [] \<or> last s \<noteq> CHR 0x00"
    by (simp_all add: xdr_ok_def)
  have bs: "?bs = pre @ u32_to_be_bytes (of_nat (length s)) @ as_bytes s @ ?pad @ ?rest"
    by (simp add: xdr_string_def)
  have len: "unat (u32_at ?bs (length pre)) = length s"
    using s(2) by (simp add: bs u32_at_be unat_of_nat take_bit_nat_eq_self)
  have fits: "length s \<le> (length s + 3) div 4 * 4" by (simp add: xdr_pad)
  have "xdr_loop ?bs (Suc (length ss)) (length pre) out
      = xdr_loop ?bs (length ss) (length (pre @ xdr_string s)) (out @ [s])"
    using s(1,3) fits by (simp add: len Let_def from_utf8_def length_xdr_string add_ac)
  also have "\<dots> = (out @ [s]) @ ss"
    using Cons.IH [of "pre @ xdr_string s" "out @ [s]"] Cons.prems by simp
  finally show ?case by simp
qed simp

text \<open>
  Decoding the base64 of the XDR form of a list of strings gives the list back, for strings in
  UTF-8 that do not end in a NUL (which the decoder trims) and fewer than \<open>2 ^ 32\<close> of them.
\<close>

theorem decode_string_vec_roundtrip:
  assumes "\<forall>s\<in>set ss. xdr_ok s" and "length ss < 2 ^ 32"
  shows "decode_string_vec_xdr (base64_encode (xdr_string_vec ss)) = Some ss"
  using xdr_loop_strings [OF assms(1), of "u32_to_be_bytes (of_nat (length ss))" "[]" "[]"]
    u32_at_be [of "[]" "of_nat (length ss)" "concat (map xdr_string ss)"] assms(2)
  by (simp add: decode_string_vec_xdr_def base64_roundtrip xdr_string_vec_def unat_of_nat
      take_bit_nat_eq_self)

lemma hello_xdr_ok: "xdr_ok ''hello''" "xdr_ok ''''"
  by (simp_all add: xdr_ok_def as_bytes_def)

lemma decode_string_vec_roundtrip_witness:
  "decode_string_vec_xdr (base64_encode (xdr_string_vec [''hello'', ''''])) = Some [''hello'', '''']"
  by (rule decode_string_vec_roundtrip) (simp_all add: hello_xdr_ok)

end
