(* ===== verification/Offchain_Core.thy ===== *)
theory Offchain_Core
  imports Core_Demo Wire_Props Api_Http_Props Exporter
begin

text \<open>
  The contract router-core seen from the programs beside it: the route listing of the API server and
  the scrape of the metrics exporter, against the states the contract can reach.
\<close>

subsection \<open>GET /routes\<close>

lemma ascii_utf8: "\<forall>c\<in>set s. (of_char c :: nat) < 128 \<Longrightarrow> utf8_valid (as_bytes s)"
proof (induction s)
  case (Cons c s)
  have "unat (of_char c :: u8) = of_char c"
    using Cons.prems by (simp add: unat_of_char_u8)
  with Cons show ?case by (simp add: as_bytes_def word_less_nat_alt)
qed (simp add: as_bytes_def)

lemma name_byte_ascii: "name_byte c \<Longrightarrow> (of_char c :: nat) < 128" "\<not> name_byte (CHR 0x00)"
  by (auto simp: name_byte_def Let_def)

lemma valid_name_xdr_ok:
  assumes "valid_name n"
  shows "xdr_ok n"
proof -
  from assms have n: "length n \<le> 64" "n \<noteq> []" "\<forall>c\<in>set n. name_byte c" by (auto simp: valid_name_def)
  then have "last n \<noteq> CHR 0x00" using name_byte_ascii(2) by (metis last_in_set)
  moreover have "utf8_valid (as_bytes n)" using n(3) name_byte_ascii(1) by (intro ascii_utf8) blast
  ultimately show ?thesis using n(1) by (simp add: xdr_ok_def)
qed

lemma core_names:
  assumes "core_inv s"
  shows "\<forall>n\<in>set (get_all_routes env s). valid_name n \<and> route_key s n \<noteq> None"
    "length (get_all_routes env s) < 2 ^ 32"
proof -
  have "routes_ok s" using assms by (simp add: core_inv_def)
  then have ok: "set (route_names s) = dom (route_key s)" "\<And>n e. route_key s n = Some e \<Longrightarrow> valid_name n"
    "length (route_names s) = unat (unwrap_or (route_count_key s) 0)" by (auto simp: routes_ok_def)
  show "\<forall>n\<in>set (get_all_routes env s). valid_name n \<and> route_key s n \<noteq> None"
  proof
    fix n assume "n \<in> set (get_all_routes env s)"
    then have "n \<in> dom (route_key s)" by (simp add: get_all_routes_def ok(1) [symmetric])
    then show "valid_name n \<and> route_key s n \<noteq> None" using ok(2) by auto
  qed
  have "length (get_all_routes env s) \<le> length (route_names s)" by (simp add: get_all_routes_def)
  also have "\<dots> < 2 ^ 32" using unsigned_less [of "unwrap_or (route_count_key s) 0"] by (simp add: ok(3))
  finally show "length (get_all_routes env s) < 2 ^ 32" .
qed

text \<open>
  On the format that the comment of \<open>decode_string_vec_xdr\<close> describes (a count and the bare strings)
  \<open>GET /routes\<close> serves exactly the names router-core returns: every name the contract accepts
  survives that encoding. It is not the encoding of a node, see below.
\<close>
theorem list_routes_serves_core:
  assumes "core_inv s" "contract_id \<noteq> []"
    and "http (''AAAAAgAAAAEAAAAA'' @ contract_id @ ''get_all_routesAAAAAAAAAAAA='') = Inr \<lparr>rpc_result =
      Some \<lparr>ret_error = None, ret_results = [base64_encode (xdr_string_vec (get_all_routes env s))]\<rparr>, rpc_error = None\<rparr>"
  shows "list_routes http contract_id = Inr (get_all_routes env s)"
proof -
  have "\<forall>n\<in>set (get_all_routes env s). xdr_ok n" using core_names(1) [OF assms(1)] valid_name_xdr_ok by blast
  from decode_string_vec_roundtrip [OF this core_names(2) [OF assms(1)]] assms(2,3) show ?thesis
    by (simp add: list_routes_def rpc_get_all_routes_def)
qed

lemma core_demo_live: "get_all_routes (core_env 30) core_demo = [''a'', ''c'']"
  by (simp add: get_all_routes_def name_expired_def is_route_expired_def)

lemma list_routes_serves_core_witness:
  "list_routes (\<lambda>_. Inr \<lparr>rpc_result = Some \<lparr>ret_error = None, ret_results =
      [base64_encode (xdr_string_vec (get_all_routes (core_env 30) core_demo))]\<rparr>, rpc_error = None\<rparr>)
     ''CORE'' = Inr [''a'', ''c'']"
  using list_routes_serves_core [OF core_demo_inv, of "''CORE''" _ "core_env 30"] by (simp add: core_demo_live)

text \<open>
  What \<open>simulateTransaction\<close> returns in \<open>results[0].xdr\<close> is the XDR of an \<open>ScVal\<close>, which tags
  every value with its type. A vector is \<open>SCV_VEC\<close> (16), a flag that the vector is present, the
  number of elements and the elements; a string is \<open>SCV_STRING\<close> (14) and the XDR string.
\<close>

definition scval_string :: "string \<Rightarrow> bytes" where
  "scval_string s = u32_to_be_bytes 14 @ xdr_string s"

definition scval_string_vec :: "string list \<Rightarrow> bytes" where
  "scval_string_vec ss = u32_to_be_bytes 16 @ u32_to_be_bytes 1 @ u32_to_be_bytes (of_nat (length ss))
     @ concat (map scval_string ss)"

lemma xdr_loop_extends: "\<exists>r. xdr_loop bs n pos result = result @ r"
proof (induction n arbitrary: pos result)
  case (Suc n)
  let ?len = "unat (u32_at bs pos)"
  let ?result = "case from_utf8 (take ?len (drop (pos + 4) bs)) of
      Some s \<Rightarrow> result @ [trim_end_matches (CHR 0x00) s] | None \<Rightarrow> result"
  have "\<exists>r. ?result = result @ r" by (cases "from_utf8 (take ?len (drop (pos + 4) bs))") auto
  then obtain r where r: "?result = result @ r" by blast
  obtain r' where "xdr_loop bs n (pos + 4 + (?len + 3) div 4 * 4) (result @ r) = (result @ r) @ r'"
    using Suc by blast
  then show ?case by (simp add: Let_def r)
qed simp

lemma decode_scval:
  assumes "length ss < 2 ^ 24"
  shows "\<exists>bs. decode_string_vec_xdr (base64_encode (scval_string_vec ss)) = Some (xdr_loop bs 15 12 [[]])
    \<and> length bs = 12 + length (concat (map scval_string ss))"
proof -
  let ?n = "u32_to_be_bytes (of_nat (length ss))" and ?rest = "concat (map scval_string ss)"
  let ?bs = "u32_to_be_bytes 16 @ u32_to_be_bytes 1 @ ?n @ ?rest"
  have count: "u32_at ?bs 0 = 16" using u32_at_be [of "[]" 16 "u32_to_be_bytes 1 @ ?n @ ?rest"] by simp
  have len: "u32_at ?bs 4 = 1" using u32_at_be [of "u32_to_be_bytes 16" 1 "?n @ ?rest"] by simp
  have u: "unat (of_nat (length ss) :: u32) = length ss"
    using assms by (simp add: unat_of_nat take_bit_nat_eq_self)
  have "unat (drop_bit 24 (of_nat (length ss) :: u32)) = 0"
    unfolding drop_bit_eq_div unat_div u using assms by simp
  then have "drop_bit 24 (of_nat (length ss) :: u32) = 0" by (simp only: unat_eq_zero)
  then have first: "take 1 (drop 8 ?bs) = [0]" by (simp add: u32_to_be_bytes_def)
  have utf: "from_utf8 [0] = Some [CHR 0x00]" by (simp add: from_utf8_def of_bytes_def char_of_def)
  have "xdr_loop ?bs (Suc 15) 4 [] = xdr_loop ?bs 15 12 [[]]"
    using first utf by (simp only: xdr_loop.simps len Let_def) simp
  then have "decode_string_vec_xdr (base64_encode (scval_string_vec ss)) = Some (xdr_loop ?bs 15 12 [[]])"
    by (simp add: decode_string_vec_xdr_def base64_roundtrip scval_string_vec_def count)
  then show ?thesis by (intro exI [of _ ?bs]) simp
qed

text \<open>
  C18. End to end: when the node answers the simulated \<open>get_all_routes\<close> with the \<open>ScVal\<close>, in base64,
  of what router-core returns in a state it can reach, \<open>GET /routes\<close> does not serve the routes.
  The decoder takes the type tag for the count and the flag for the length of the first string, so
  the answer always starts with an empty name, which is no route; without routes it is this name
  alone.
\<close>
theorem list_routes_misreads_core:
  assumes "core_inv s" "contract_id \<noteq> []" "length (get_all_routes env s) < 2 ^ 24"
    and "http (''AAAAAgAAAAEAAAAA'' @ contract_id @ ''get_all_routesAAAAAAAAAAAA='') = Inr \<lparr>rpc_result =
      Some \<lparr>ret_error = None, ret_results = [base64_encode (scval_string_vec (get_all_routes env s))]\<rparr>, rpc_error = None\<rparr>"
  shows "(\<exists>r. list_routes http contract_id = Inr ([] # r)) \<and> route_key s [] = None
    \<and> list_routes http contract_id \<noteq> Inr (get_all_routes env s)
    \<and> (get_all_routes env s = [] \<longrightarrow> list_routes http contract_id = Inr [[]])"
proof -
  obtain bs where bs: "list_routes http contract_id = Inr (xdr_loop bs 15 12 [[]])"
    "length bs = 12 + length (concat (map scval_string (get_all_routes env s)))"
    using decode_scval [OF assms(3)] assms(2,4) by (auto simp: list_routes_def rpc_get_all_routes_def)
  then obtain r where r: "list_routes http contract_id = Inr ([] # r)"
    using xdr_loop_extends [of bs 15 12 "[[]]"] by auto
  have "\<not> valid_name []" by (simp add: valid_name_def)
  then have none: "route_key s [] = None" and "[] \<notin> set (get_all_routes env s)"
    using assms(1) core_names(1) [OF assms(1), of env] by (auto simp: core_inv_def routes_ok_def)
  then have "get_all_routes env s \<noteq> [] # r" by (metis list.set_intros(1))
  moreover have "xdr_loop bs 15 12 [[]] = [[]]" if "get_all_routes env s = []"
    using bs(2) that by (simp add: numeral_eq_Suc)
  ultimately show ?thesis using r bs(1) none by simp
qed

lemma list_routes_misreads_core_witness:
  "\<exists>r. list_routes (\<lambda>_. Inr \<lparr>rpc_result = Some \<lparr>ret_error = None, ret_results =
      [base64_encode (scval_string_vec (get_all_routes (core_env 30) core_demo))]\<rparr>, rpc_error = None\<rparr>)
     ''CORE'' = Inr ([] # r)"
  using list_routes_misreads_core [OF core_demo_inv, of "''CORE''" "core_env 30"] by (simp add: core_demo_live)

subsection \<open>The gauges of router-core\<close>

lemma hex_digit_inj: "m < 16 \<Longrightarrow> n < 16 \<Longrightarrow> hex_digit m = hex_digit n \<Longrightarrow> m = n"
proof -
  have "distinct ''0123456789abcdef''" by simp
  moreover assume "m < 16" "n < 16" "hex_digit m = hex_digit n"
  ultimately show "m = n"
    unfolding hex_digit_def using nth_eq_iff_index_eq [of "''0123456789abcdef''" m n] by simp
qed

lemma encode_string_arg_inj: "encode_string_arg s = encode_string_arg t \<Longrightarrow> s = t"
proof (induction s arbitrary: t)
  case Nil
  then show ?case by (cases t) (simp_all add: encode_string_arg_def)
next
  case (Cons c s)
  then obtain d t' where t: "t = d # t'" by (cases t) (simp_all add: encode_string_arg_def)
  from Cons.prems have e: "hex_digit (of_char c div 16) = hex_digit (of_char d div 16)"
    "hex_digit (of_char c mod 16) = hex_digit (of_char d mod 16)" "encode_string_arg s = encode_string_arg t'"
    by (simp_all add: t encode_string_arg_def)
  have "(of_char c :: nat) < 256" "(of_char d :: nat) < 256" by simp_all
  then have "(of_char c :: nat) div 16 < 16" "(of_char d :: nat) div 16 < 16" by (simp_all add: div_less_iff_less_mult)
  with e(1) have "(of_char c :: nat) div 16 = of_char d div 16" by (intro hex_digit_inj)
  moreover have "(of_char c :: nat) mod 16 = of_char d mod 16" by (rule hex_digit_inj [OF _ _ e(2)]) simp_all
  ultimately have "(of_char c :: nat) = of_char d" by (metis div_mult_mod_eq)
  with Cons.IH [OF e(3)] show ?case by (simp add: t)
qed

text \<open>A node that answers the views of router-core from a state: \<open>is_paused\<close> is not one of them.\<close>

definition paused_json :: "bool \<Rightarrow> jv" where
  "paused_json b = JObj [(''results'', JArr [JObj [(''retval'', JObj [(''paused'', JBool b)])]])]"

definition answers_core :: "(jv, 'e) rpc_client \<Rightarrow> string \<Rightarrow> env \<Rightarrow> router \<Rightarrow> bool" where
  "answers_core client cid env s \<longleftrightarrow>
     call_u64 client cid ''total_routed'' = Inr (total_routed s)
     \<and> call_string_vec client cid ''get_all_routes'' = Inr (get_all_routes env s)
     \<and> (\<exists>e. call_bool client cid ''is_paused'' = Inl e)
     \<and> (\<forall>n r. get_route n s = Some r \<longrightarrow>
          simulate_invoke client cid ''get_route'' [encode_string_arg n] = Inr (paused_json (rt_paused r)))"

lemma extract_paused_json: "extract_route_paused jv_json (paused_json b) = Some b"
  by (simp add: extract_route_paused_def paused_json_def retval_def or_else_def jv_json_def)

lemma route_gauges:
  assumes "\<forall>n\<in>set ns. simulate_invoke client cid ''get_route'' [encode_string_arg n] = Inr (paused_json (p n))"
  shows "fold (\<lambda>route m. case simulate_invoke client cid ''get_route'' [encode_string_arg route] of
             Inr v \<Rightarrow> (let paused = unwrap_or (extract_route_paused jv_json v) False
               in m\<lparr>core_route_paused := (core_route_paused m)([cid, route] \<mapsto> bool_f64 paused)\<rparr>)
           | Inl _ \<Rightarrow> m) ns m
    = m\<lparr>core_route_paused := (\<lambda>l. if \<exists>n\<in>set ns. l = [cid, n] then Some (bool_f64 (p (l ! 1))) else core_route_paused m l)\<rparr>"
  using assms by (induction ns arbitrary: m) (auto simp: Let_def extract_paused_json fun_eq_iff)

text \<open>
  What a scrape is written to do: of a router-core in a state it can reach, through a client that
  answers its views from that state (the client the exporter ships does not,
  \<open>exporter_never_ready\<close>), it succeeds and leaves in the gauges the routed total, as a double, and for every
  live route whether it is paused. The series of a route that is no longer listed keeps its last
  value. The gauge for the pause of the whole router is 0 whatever the state says: the contract has
  no view \<open>is_paused\<close>.
\<close>
theorem scrape_core_reflects:
  assumes "core_inv s" "answers_core client cid env s"
  shows "\<exists>m'. scrape_core jv_json client cid m = (Inr (), m')
    \<and> core_total_routed m' = (core_total_routed m)([cid] \<mapsto> as_f64 (unat (total_routed s)))
    \<and> (\<forall>n. core_route_paused m' [cid, n] = (case get_route n s of
          Some r \<Rightarrow> if n \<in> set (get_all_routes env s) then Some (bool_f64 (rt_paused r)) else core_route_paused m [cid, n]
        | None \<Rightarrow> core_route_paused m [cid, n]))
    \<and> core_paused m' [cid] = Some 0"
proof -
  let ?p = "\<lambda>n. rt_paused (the (get_route n s))"
  have names: "\<forall>n\<in>set (get_all_routes env s). \<exists>r. get_route n s = Some r"
    using core_names(1) [OF assms(1)] by (auto simp: get_route_def)
  with assms(2) have "\<forall>n\<in>set (get_all_routes env s).
      simulate_invoke client cid ''get_route'' [encode_string_arg n] = Inr (paused_json (?p n))"
    by (auto simp: answers_core_def)
  note gauges = route_gauges [OF this]
  from assms(2) obtain e where calls: "call_u64 client cid ''total_routed'' = Inr (total_routed s)"
    "call_string_vec client cid ''get_all_routes'' = Inr (get_all_routes env s)"
    "call_bool client cid ''is_paused'' = Inl e" by (auto simp: answers_core_def)
  show ?thesis
    using names by (auto simp: scrape_core_def calls gauges Let_def split: option.split)
qed


text \<open>A client that answers from the demonstration state of router-core.\<close>

definition core_client :: "(jv, unit) rpc_client" where
  "core_client = \<lparr>call_u64 = (\<lambda>cid f. Inr (total_routed core_demo)), call_bool = (\<lambda>cid f. Inl ''no such function''),
     call_string_vec = (\<lambda>cid f. Inr (get_all_routes (core_env 30) core_demo)),
     simulate_invoke = (\<lambda>cid f xs. Inr (paused_json False)), get_events = (\<lambda>cid f n. Inl ''no''),
     get_ledger_entries = (\<lambda>ks. Inl ''no'')\<rparr>"

lemma scrape_core_reflects_witness:
  "core_route_paused (snd (scrape_core jv_json core_client ''C'' metrics_new)) [''C'', ''a''] = Some 0
   \<and> core_route_paused (snd (scrape_core jv_json core_client ''C'' metrics_new)) [''C'', ''b''] = None"
proof -
  have "answers_core core_client ''C'' (core_env 30) core_demo"
    by (auto simp: answers_core_def core_client_def get_route_def core_demo_def fresh_entry_def split: if_splits)
  from scrape_core_reflects [OF core_demo_inv this, of metrics_new] obtain m' where
    m: "scrape_core jv_json core_client ''C'' metrics_new = (Inr (), m')"
    and paused: "\<forall>n. core_route_paused m' [''C'', n] = (case get_route n core_demo of
        Some r \<Rightarrow> if n \<in> set (get_all_routes (core_env 30) core_demo) then Some (bool_f64 (rt_paused r))
          else core_route_paused metrics_new [''C'', n]
      | None \<Rightarrow> core_route_paused metrics_new [''C'', n])" by blast
  have "get_route ''a'' core_demo = Some (core_demo_entry ''a'' None)"
    "get_route ''b'' core_demo = Some (core_demo_entry ''b'' (Some 20))" by (simp_all add: get_route_def core_demo_def)
  with spec [OF paused, of "''a''"] spec [OF paused, of "''b''"] show ?thesis
    unfolding m by (simp add: core_demo_live metrics_new_def fresh_entry_def bool_f64_def)
qed

end
