(* ===== verification/Spec2Isabelle.thy ===== *)
theory Spec2Isabelle
  imports Timelock_Props Registry_Props Quote_Props Middleware_Props Access_Props Composition
    Api_Main_Props Api_Tasks Exporter_Props Offchain_Core
begin

text \<open>
  A verification development for stellar-router (Rust): the Soroban smart contracts, the crates
  under \<open>contracts/\<close>, and the two programs that run beside them and reach them through an RPC
  node, the API server (\<open>api-server/\<close>) and the metrics exporter (\<open>metrics/\<close>). Each contract is
  one crate with one \<open>lib.rs\<close>, one persistent state and a set of entry points; they share the
  macros and types of router-common. The API server lists routes, estimates fees by simulation and
  pushes the status of transactions over WebSockets. The exporter scrapes the views of the contracts
  into gauges and serves them behind a rate limiter, an API key and a nonce check.

  \<^bold>\<open>Theories.\<close> For a contract X, the theory X holds the translation of its code and the theory
  X_Props its proofs.

    \<^item> \<open>Prelude\<close>: fixed-width and checked arithmetic, host maps, events, the result types,
      the transaction loop (\<open>run_txs\<close>, \<open>reachable\<close>) and two interfaces of a contract: the
      locale \<open>contract_machine\<close> (an invariant kept by every transaction) and its extension
      \<open>admin_gated\<close> (privileged calls need the signature of the stored admin).
    \<^item> \<open>Common\<close>: router-common, the admin macros, the batch results and the batch loop; also
      the shape of a cross-contract call.
    \<^item> \<open>Timelock\<close>: the queue of delayed operations, their dependencies, status, execution
      and clean-up.
    \<^item> \<open>Registry\<close>: versioned contract entries, deprecation, version constraints, batches.
    \<^item> \<open>Quote\<close>: fees in basis points, amount tiers, best and sorted quotes.
    \<^item> \<open>Guards\<close> and \<open>Middleware\<close>: the rate limit, the circuit breaker and the call log
      (\<open>rate_limit.rs\<close>, \<open>circuit_breaker.rs\<close>, \<open>call_log.rs\<close>), and the hooks
      \<open>pre_call\<close> and \<open>post_call\<close> that combine them.
    \<^item> \<open>Access\<close>: roles with expiry, their indices, role admins, role inheritance, the
      blacklist and the member caps.
    \<^item> \<open>Multicall\<close>: batches of cross-contract calls, the reentrancy guard, stored results.
    \<^item> \<open>Execution\<close>: one cross-contract call with simulation, retries, backoff, fees and a
      bounded history.
    \<^item> \<open>Core\<close>: router-core (\<open>lib.rs\<close>, \<open>scoring.rs\<close>), the routing table: registration with
      expiry, pausing, aliases, metadata and tags, dependencies with their reverse index, scores,
      the cached best route, resolution, batches, pages and statistics. Its proofs are in
      \<open>Core_Props\<close> (the invariant \<open>core_inv\<close>, kept by every call), \<open>Core_Routes\<close> (resolution,
      batches, pages), \<open>Core_Safety\<close> (authority, freedom from panics, limits) and \<open>Core_Demo\<close>
      (concrete tables the properties are applied to).
    \<^item> \<open>Composition\<close>: router-core called through router-multicall and router-execution.
    \<^item> \<open>Wire\<close>: what both off-chain programs read from bytes and text: UTF-8, numbers, base64,
      XDR vectors of strings, the accessors of JSON values.
    \<^item> \<open>Fixed_Window\<close>: the counter of a rate limiter (\<open>rate_limit.rs\<close> of both programs), with
      the locale \<open>fixed_window\<close>, the contract of a limiter towards a client and the bound it gives.
    \<^item> \<open>Api_Server\<close>: the limiter with its sweeper, the shared state and the WebSocket server
      (\<open>rate_limit.rs\<close>, \<open>state.rs\<close>, \<open>websocket.rs\<close>), as a machine whose steps are the turns
      of the sockets' loops; \<open>Api_Tasks\<close> runs the sockets side by side, each access to the shared
      counts a step of its own.
    \<^item> \<open>Api_Http\<close>: fees, the RPC client and the handlers (\<open>rpc.rs\<close>, \<open>handlers.rs\<close>, \<open>types.rs\<close>).
    \<^item> \<open>Api_Main\<close>: the routes behind the limiter, the cross-origin policy and the start-up
      (\<open>main.rs\<close>), as a machine whose inputs are requests, answers of the RPC node, turns of the
      sockets and sweeps; \<open>Api_Main_Props\<close> follows a simulation to the sockets.
    \<^item> \<open>Exporter_Guards\<close>: the layers of the exporter (\<open>rate_limit.rs\<close>, \<open>auth.rs\<close>,
      \<open>replay_protection.rs\<close>); the nonce check and the check of the limiter
      also step by step, for interleavings.
    \<^item> \<open>Collector\<close>: argument checks, RPC client, gauges and scrapes (\<open>validation.rs\<close>, \<open>rpc.rs\<close>,
      \<open>metrics.rs\<close>, \<open>collector.rs\<close>); \<open>Exporter\<close>: endpoints behind their layers and the start-up
      checks (\<open>server.rs\<close>, \<open>main.rs\<close>).
    \<^item> \<open>Offchain_Core\<close>: router-core seen through the API server and through the exporter.

  \<^bold>\<open>How the code is translated.\<close> The storage of a contract is a record with one field per
  \<open>DataKey\<close> variant: an \<open>option\<close> for a plain key, a function for a keyed variant. A key that
  holds a \<open>Vec\<close> or \<open>Map\<close> and is read with a default is a list, \<open>[]\<close> when absent. An entry
  point is a definition of the same name (with the name of its contract where several contracts
  share it) into \<open>fault + value \<times> state\<close>: \<open>Err e\<close> is a returned contract error, \<open>Trap\<close> a
  host panic (missing authorisation, a failed \<open>expect\<close>, an overflow under
  \<open>overflow-checks\<close>). In both the host discards all writes and events of the call, so no state
  is returned; the writes the code makes before returning an error are still written out in
  \<open>let\<close> where they occur. The guards are in the order of the code. Machine integers keep their
  width (\<open>u32\<close>, \<open>u64\<close>, \<open>i128\<close> are words); lengths of \<open>Vec\<close>s are naturals, as the ledger
  cannot hold \<open>2 ^ 32\<close> entries. Events are appended to the field \<open>events\<close>. The caller's
  signatures, the time and the ledger sequence are the \<open>env\<close> argument.

  The off-chain programs are built in the release profile of their own workspaces, without overflow
  checks, so their arithmetic wraps. A hash map is a function into options, with its iteration order
  a parameter where it matters; an \<open>Instant\<close> and a \<open>Duration\<close> are counted in nanoseconds. A
  middleware takes the handler it wraps as an argument, and both thread the state.

  \<^bold>\<open>Parameters.\<close> Hashing and XDR serialisation (Timelock), the success of the scheduled call
  (Timelock), the health probe (Registry) and what a called contract does to the ledger (Multicall,
  Execution: \<open>invoke\<close>) are arguments of the definitions. For Multicall, the callees may call back
  into the contract: the theorems assume \<open>host_law\<close>, that only the contract's own entry points write
  its storage. For Execution the host's ban on re-entering a running contract is built into the
  theorems by \<open>sealed\<close>, which gives any behaviour of the callees on the rest of the ledger.
  For the off-chain programs: the answer of the RPC node to a request (\<open>http\<close>, \<open>node\<close>), the JSON
  accessors (the record \<open>json\<close>; \<open>jv_json\<close> is a concrete one), the text encoder of the metrics,
  whether a text is a socket address, and the order in which a hash map is iterated (the theorems
  assume \<open>iterates\<close>: each entry once; \<open>sorted_iter\<close> is a concrete order).

  \<^bold>\<open>Loops.\<close> Loops over vectors are recursions over lists. The bounded walks (dependency chains,
  role parents) take their remaining depth as a natural. The retry loop and the scan over stored
  results recurse on a 32-bit counter with a checked increment and terminate by the measure
  \<open>2 ^ 32 - counter\<close>. The two walks over the dependencies of router-core thread an accumulator
  (\<open>fold_each\<close>) and terminate by the depth the code itself bounds, \<open>MAX_RECURSION_DEPTH\<close>. No
  fuel is used, so every definition returns as the code does.

  \<^bold>\<open>What is shown.\<close> For each contract: the invariant of its reachable states
  (\<open>core_invariant\<close>, \<open>timelock_reachable_inv\<close>, \<open>registry_reachable_inv\<close>,
  \<open>quote_reachable_inv\<close>, \<open>middleware_reachable_inv\<close>, \<open>access_invariant\<close>,
  \<open>multicall_invariant\<close>); what only the
  admin can change, by interpreting \<open>admin_gated\<close>; the functional behaviour of the operations on
  all branches; and refinements and equivalences with abstract specifications: the circuit breaker
  against a three-state machine, the ring of call logs against a bounded queue, role inheritance
  against the closure of the parent relation, dependency resolution against reachability in the
  dependency graph, the choice of the best route against exact scores, fees and delays against
  exact arithmetic, views against the operations they predict. For router-core it is also shown
  that no signed call panics (\<open>core_never_panics\<close>), and for the contracts together that a batch or
  an execution acts on router-core as plain transactions do (\<open>batch_runs_core\<close>,
  \<open>execute_runs_core_once\<close>).
  For the API server: at most twice the limit within a window, and a sweeper no answer depends on;
  the connection slots and subscription counts, with the runs in which they go wrong; delivery in
  order; the fees against exact arithmetic; the outcome of a simulation and the events it publishes;
  route entries and names through their encodings. For the exporter: who is served
  (\<open>metrics_guarded\<close>), replays end to end (\<open>exporter_replay_refused\<close>), no false alarms, bounded
  memory, the race between two requests, the reset of a limit by eviction, the precision of a gauge,
  the isolation of the scrapes, and that the shipped client never becomes ready. Across the programs:
  \<open>GET /routes\<close> does not decode what a node returns for router-core, an \<open>ScVal\<close> with type tags: the
  answer starts with an empty name, which is no route (\<open>list_routes_misreads_core\<close>); on the bare
  vector of strings its decoder was written for it serves the stored names
  (\<open>list_routes_serves_core\<close>); a scrape through a client that can build invocations, which the
  shipped one cannot, mirrors the state of router-core (\<open>scrape_core_reflects\<close>).
  For requests side by side: the subscription counts (\<open>concurrent_counts\<close>) and the check of the
  exporter's limiter, whose \<open>unwrap\<close> fails only after the eviction of the bucket in between
  (\<open>concurrent_checks\<close>).

  \<^bold>\<open>Not modelled.\<close> Time-to-live extension of storage (rent bookkeeping without effect on
  results). Of the off-chain programs: sockets, listening and shutdown, logging and request ids, the
  API documentation pages, content types, the histograms of durations, and the mock client, which
  only tests build. Tests and scripts.
  Where the source does not compile (merged versions of a function body in router-access, of the
  arguments of one event in router-core, duplicate views in router-middleware), the model takes the
  documented version.
\<close>

end
